(* ===== verification/Prelude.thy ===== *)
theory Prelude
  imports Complex_Main "HOL-Library.Signed_Division" "HOL-Library.Multiset"
begin

text \<open>
  Shared layer of the development: the Rust integer types as ranges of \<^typ>\<open>int\<close>,
  checked and saturating arithmetic, truncating casts, error results, and the generic lemmas on
  lists and options that the component theories use.

  Signed Rust integers are modelled by \<^typ>\<open>int\<close>, unsigned ones by \<^typ>\<open>nat\<close>
  (or by \<^typ>\<open>int\<close> where the code mixes them with signed values). Where the code relies on
  a checked, saturating or wrapping operation the operation below is used; where it relies on the
  absence of overflow, the theories prove that the exact value stays in the range of its type.
\<close>

named_theorems range_defs \<open>definitions of the ranges of the Rust integer types\<close>
named_theorems result_simps \<open>rewriting of chained error results\<close>

section \<open>Integer ranges\<close>

definition i32_ok :: "int \<Rightarrow> bool" where
  [range_defs]: "i32_ok x \<longleftrightarrow> - (2 ^ 31) \<le> x \<and> x < 2 ^ 31"

definition i64_ok :: "int \<Rightarrow> bool" where
  [range_defs]: "i64_ok x \<longleftrightarrow> - (2 ^ 63) \<le> x \<and> x < 2 ^ 63"

definition i128_ok :: "int \<Rightarrow> bool" where
  [range_defs]: "i128_ok x \<longleftrightarrow> - (2 ^ 127) \<le> x \<and> x < 2 ^ 127"

definition u64_max :: nat where
  "u64_max = 2 ^ 64 - 1"

definition i64_min :: int where
  "i64_min = - (2 ^ 63)"

definition i64_max :: int where
  "i64_max = 2 ^ 63 - 1"

text \<open>The cast \<open>x as i32\<close> keeps the low 32 bits, read as two's complement.\<close>

definition wrap_i32 :: "int \<Rightarrow> int" where
  "wrap_i32 x = (x + 2 ^ 31) mod 2 ^ 32 - 2 ^ 31"

lemma wrap_i32_id: "i32_ok x \<Longrightarrow> wrap_i32 x = x"
  by (simp add: wrap_i32_def i32_ok_def)

lemma wrap_i32_ok: "i32_ok (wrap_i32 x)"
proof -
  have "0 \<le> (x + 2 ^ 31) mod 2 ^ 32" "(x + 2 ^ 31) mod 2 ^ 32 < (2 :: int) ^ 32"
    by simp_all
  then show ?thesis by (simp add: wrap_i32_def i32_ok_def)
qed

text \<open>\<open>i64::saturating_add\<close> and the checked conversion \<open>i32::try_from\<close>.\<close>

definition saturating_add_i64 :: "int \<Rightarrow> int \<Rightarrow> int" where
  "saturating_add_i64 x y = max i64_min (min i64_max (x + y))"

definition try_i32 :: "int \<Rightarrow> int option" where
  "try_i32 x = (if i32_ok x then Some x else None)"

definition try_i64 :: "int \<Rightarrow> int option" where
  "try_i64 x = (if i64_ok x then Some x else None)"

definition checked_i128 :: "int \<Rightarrow> int option" where
  "checked_i128 x = (if i128_ok x then Some x else None)"

lemma saturating_add_i64_ok: "i64_ok (saturating_add_i64 x y)"
  by (simp add: saturating_add_i64_def i64_min_def i64_max_def i64_ok_def)

lemma saturating_add_i64_exact: "i64_ok (x + y) \<Longrightarrow> saturating_add_i64 x y = x + y"
  by (simp add: saturating_add_i64_def i64_min_def i64_max_def i64_ok_def)

section \<open>Error results\<close>

text \<open>
  \<open>Result<T, E>\<close> is \<open>E + T\<close>: \<open>Inl\<close> is an error, \<open>Inr\<close> a value; \<open>bind_result\<close> is the
  \<open>?\<close> operator and \<open>check\<close> the early return \<open>if bad { return Err(e) }\<close>.
\<close>

definition bind_result :: "'e + 'a \<Rightarrow> ('a \<Rightarrow> 'e + 'b) \<Rightarrow> 'e + 'b" where
  "bind_result r f = (case r of Inl e \<Rightarrow> Inl e | Inr x \<Rightarrow> f x)"

definition ok_or :: "'e \<Rightarrow> 'a option \<Rightarrow> 'e + 'a" where
  "ok_or e x = (case x of None \<Rightarrow> Inl e | Some v \<Rightarrow> Inr v)"

definition reject_if :: "bool \<Rightarrow> 'e \<Rightarrow> 'e + 'a \<Rightarrow> 'e + 'a" where
  "reject_if bad e k = (if bad then Inl e else k)"

lemma bind_result_simps [simp, result_simps]:
  "bind_result (Inl e) f = Inl e"
  "bind_result (Inr x) f = f x"
  by (simp_all add: bind_result_def)

lemma bind_result_Inr [result_simps]:
  "bind_result r f = Inr y \<longleftrightarrow> (\<exists>x. r = Inr x \<and> f x = Inr y)"
  by (cases r) simp_all

lemma bind_result_Inl [result_simps]:
  "bind_result r f = Inl e \<longleftrightarrow> r = Inl e \<or> (\<exists>x. r = Inr x \<and> f x = Inl e)"
  by (cases r) simp_all

lemma ok_or_simps [simp, result_simps]:
  "ok_or e None = Inl e"
  "ok_or e (Some v) = Inr v"
  by (simp_all add: ok_or_def)

lemma ok_or_Inr [result_simps]: "ok_or e x = Inr y \<longleftrightarrow> x = Some y"
  by (cases x) simp_all

lemma reject_if_Inr [result_simps]: "reject_if b e k = Inr y \<longleftrightarrow> \<not> b \<and> k = Inr y"
  by (simp add: reject_if_def)

lemma bind_result_cong [fundef_cong]:
  assumes "r = r'" and "\<And>x. r' = Inr x \<Longrightarrow> f x = g x"
  shows "bind_result r f = bind_result r' g"
  using assms by (cases r') simp_all

text \<open>A loop whose body may fail: the fold stops at the first error.\<close>

fun fold_result :: "('a \<Rightarrow> 's \<Rightarrow> 'e + 's) \<Rightarrow> 'a list \<Rightarrow> 's \<Rightarrow> 'e + 's" where
  "fold_result f [] s = Inr s"
| "fold_result f (x # xs) s = bind_result (f x s) (fold_result f xs)"

lemma fold_result_append:
  "fold_result f (xs @ ys) s = bind_result (fold_result f xs s) (fold_result f ys)"
  by (induction xs arbitrary: s) (simp_all add: bind_result_def split: sum.splits)

lemma fold_result_invariant:
  assumes "fold_result f xs s = Inr t" and "P s"
    and "\<And>x s s'. x \<in> set xs \<Longrightarrow> P s \<Longrightarrow> f x s = Inr s' \<Longrightarrow> P s'"
  shows "P t"
  using assms
proof (induction xs arbitrary: s)
  case (Cons x xs)
  then obtain s' where "f x s = Inr s'" "fold_result f xs s' = Inr t"
    by (auto simp: bind_result_Inr)
  with Cons show ?case by (meson list.set_intros)
qed simp

text \<open>A loop of checks without state.\<close>

fun all_result :: "('a \<Rightarrow> 'e + unit) \<Rightarrow> 'a list \<Rightarrow> 'e + unit" where
  "all_result f [] = Inr ()"
| "all_result f (x # xs) = bind_result (f x) (\<lambda>_. all_result f xs)"

lemma all_result_Inr [result_simps]:
  "all_result f xs = Inr u \<longleftrightarrow> (\<forall>x \<in> set xs. f x = Inr ())"
  by (induction xs) (auto simp: bind_result_Inr)

section \<open>Lists\<close>

text \<open>\<open>windows(2)\<close> and \<open>zip(iter.cycle().skip(1)).take(len)\<close> of the Rust iterators.\<close>

fun windows2 :: "'a list \<Rightarrow> ('a \<times> 'a) list" where
  "windows2 (x # y # zs) = (x, y) # windows2 (y # zs)"
| "windows2 xs = []"

lemma windows2_conv_zip: "windows2 xs = zip xs (tl xs)"
  by (induction xs rule: windows2.induct) simp_all

lemma windows2_set: "(x, y) \<in> set (windows2 xs) \<Longrightarrow> x \<in> set xs \<and> y \<in> set xs"
  by (induction xs rule: windows2.induct) auto

definition cyclic_pairs :: "'a list \<Rightarrow> ('a \<times> 'a) list" where
  "cyclic_pairs xs = zip xs (rotate1 xs)"

lemma length_cyclic_pairs [simp]: "length (cyclic_pairs xs) = length xs"
  by (simp add: cyclic_pairs_def)

lemma cyclic_pairs_set: "(x, y) \<in> set (cyclic_pairs xs) \<Longrightarrow> x \<in> set xs \<and> y \<in> set xs"
  unfolding cyclic_pairs_def by (metis set_rotate1 set_zip_leftD set_zip_rightD)

lemma cyclic_pairs_nth:
  "i < length xs \<Longrightarrow> cyclic_pairs xs ! i = (xs ! i, xs ! (Suc i mod length xs))"
  by (simp add: cyclic_pairs_def nth_rotate1)

lemma cyclic_pairs_map: "cyclic_pairs (map f xs) = map (\<lambda>(x, y). (f x, f y)) (cyclic_pairs xs)"
  by (simp add: cyclic_pairs_def rotate1_map zip_map_map)

text \<open>A telescoping sum around a cycle vanishes.\<close>

lemma cyclic_pairs_telescope:
  fixes g :: "'a \<Rightarrow> int"
  shows "(\<Sum>(x, y) \<leftarrow> cyclic_pairs xs. g y - g x) = 0"
proof -
  have "(\<Sum>(x, y) \<leftarrow> zip xs ys. g y - g x) = (\<Sum>y \<leftarrow> ys. g y) - (\<Sum>x \<leftarrow> xs. g x)"
    if "length xs = length ys" for ys
    using that by (induction xs ys rule: list_induct2) auto
  moreover have "(\<Sum>y \<leftarrow> rotate1 xs. g y) = (\<Sum>x \<leftarrow> xs. g x)"
    by (cases xs) auto
  ultimately show ?thesis by (simp add: cyclic_pairs_def)
qed

lemma cyclic_pairs_rotate1: "cyclic_pairs (rotate1 xs) = rotate1 (cyclic_pairs xs)"
proof (cases "xs = []")
  case False
  then show ?thesis
    by (intro nth_equalityI) (auto simp: cyclic_pairs_nth nth_rotate1)
qed (simp add: cyclic_pairs_def)

lemma mset_rotate1 [simp]: "mset (rotate1 xs) = mset xs"
  by (cases xs) simp_all

lemma mset_cyclic_pairs_rotate: "mset (cyclic_pairs (rotate n xs)) = mset (cyclic_pairs xs)"
  by (induction n) (simp_all add: cyclic_pairs_rotate1 del: rotate1_rotate_swap)

lemma rotate1_rev: "rotate1 (rev xs) = rev (rotate (length xs - 1) xs)"
  by (cases xs rule: rev_cases) (simp_all add: rotate_append)

lemma mset_cyclic_pairs_rev: "mset (cyclic_pairs (rev xs)) = mset (map prod.swap (cyclic_pairs xs))"
proof (cases xs)
  case (Cons y ys)
  let ?r = "rotate (length ys) xs"
  have "rotate1 ?r = rotate (length xs) xs" by (simp add: Cons rotate1_rotate_swap)
  then have r: "rotate1 ?r = xs" by simp
  have "cyclic_pairs (rev xs) = zip (rev xs) (rev ?r)"
    unfolding cyclic_pairs_def rotate1_rev by (simp add: Cons)
  also have "\<dots> = rev (zip xs ?r)" by (rule zip_rev) simp
  also have "zip xs ?r = map prod.swap (zip ?r xs)"
    by (subst zip_commute) (simp add: prod.swap_def case_prod_unfold)
  also have "zip ?r xs = cyclic_pairs ?r" by (simp add: cyclic_pairs_def r)
  finally show ?thesis
    by (simp add: mset_cyclic_pairs_rotate)
qed (simp add: cyclic_pairs_def)

lemma sum_list_mset_eq: "mset xs = mset ys \<Longrightarrow> (\<Sum>x \<leftarrow> xs. f x) = (\<Sum>y \<leftarrow> ys. f y :: int)"
  by (metis mset_map sum_mset_sum_list)

text \<open>The position of the first element that satisfies a predicate (\<open>Iterator::position\<close>).\<close>

fun position :: "('a \<Rightarrow> bool) \<Rightarrow> 'a list \<Rightarrow> nat option" where
  "position p [] = None"
| "position p (x # xs) = (if p x then Some 0 else map_option Suc (position p xs))"

lemma position_Some:
  "position p xs = Some i \<Longrightarrow> i < length xs \<and> p (xs ! i) \<and> (\<forall>j < i. \<not> p (xs ! j))"
proof (induction xs arbitrary: i)
  case (Cons x xs)
  then show ?case by (cases i) (auto split: if_splits simp: less_Suc_eq_0_disj)
qed simp

lemma position_None: "position p xs = None \<longleftrightarrow> (\<forall>x \<in> set xs. \<not> p x)"
  by (induction xs) auto

lemma find_Some_in: "find p xs = Some x \<Longrightarrow> x \<in> set xs \<and> p x"
  by (induction xs) (auto split: if_splits)

section \<open>Text\<close>

text \<open>A Rust string is the list of its UTF-8 bytes, each a \<^typ>\<open>char\<close>. \<open>name.trim().is_empty()\<close>: the name consists of white space as Unicode defines it.\<close>

fun blank_codes :: "nat list \<Rightarrow> bool" where
  "blank_codes [] = True"
| "blank_codes (c # cs) =
     (if (9 \<le> c \<and> c \<le> 13) \<or> c = 32 then blank_codes cs
      else
        case cs of
          d # ds \<Rightarrow>
            if c = 0xC2 \<and> (d = 0x85 \<or> d = 0xA0) then blank_codes ds
            else
              (case ds of
                 e # es \<Rightarrow>
                   (c = 0xE1 \<and> d = 0x9A \<and> e = 0x80 \<or>
                    c = 0xE2 \<and> d = 0x80 \<and> (0x80 \<le> e \<and> e \<le> 0x8A \<or> e = 0xA8 \<or> e = 0xA9 \<or> e = 0xAF) \<or>
                    c = 0xE2 \<and> d = 0x81 \<and> e = 0x9F \<or>
                    c = 0xE3 \<and> d = 0x80 \<and> e = 0x80) \<and> blank_codes es
               | [] \<Rightarrow> False)
        | [] \<Rightarrow> False)"

definition blank_name :: "string \<Rightarrow> bool" where
  "blank_name s = blank_codes (map of_char s)"

end
