(* ===== verification/Board.thy ===== *)
theory Board
  imports Prelude
begin

text \<open>
  The board data model of \<open>crates/pcbex-core/src/lib.rs\<close>: layers, terminals, nets, obstacles,
  rules, routes and the board itself, with the lookups that the router and the checker make
  (\<open>rules_for_net\<close>, \<open>layers_for_net\<close>, \<open>via_for_transition\<close>, the routing envelope, via spans).
  Coordinates are nanometres, \<open>i64\<close> in the code and \<^typ>\<open>int\<close> here. A field of type
  \<open>f64\<close> holds the bits of the number: nothing modelled computes with them. The hash map of net
  classes is an association list, whose order is the (unspecified) iteration order of the map.
\<close>

type_synonym nm = int
type_synonym f64_bits = nat

section \<open>Geometry data and layers\<close>

record point =
  x_nm :: nm
  y_nm :: nm

datatype layer = Front | Inner nat | Back

definition layer_index :: "layer \<Rightarrow> nat" where
  "layer_index l = (case l of Front \<Rightarrow> 0 | Inner i \<Rightarrow> i | Back \<Rightarrow> 31)"

definition layer_from_index :: "nat \<Rightarrow> layer option" where
  "layer_from_index i =
     (if i = 0 then Some Front
      else if 1 \<le> i \<and> i \<le> 30 then Some (Inner i)
      else if i = 31 then Some Back
      else None)"

text \<open>The layers the code accepts: \<open>matches!(layer, Front | Back | Inner(1..=30))\<close>.\<close>

fun supported_layer :: "layer \<Rightarrow> bool" where
  "supported_layer Front = True"
| "supported_layer Back = True"
| "supported_layer (Inner i) = (1 \<le> i \<and> i \<le> 30)"

text \<open>\<open>format!("{index}")\<close> on an unsigned integer, and the parser \<open>str::parse::<u8>\<close>.\<close>

definition digit_char :: "nat \<Rightarrow> char" where
  "digit_char d = char_of (48 + d)"

fun show_nat :: "nat \<Rightarrow> string" where
  "show_nat n = (if n < 10 then [digit_char n] else show_nat (n div 10) @ [digit_char (n mod 10)])"

declare show_nat.simps [simp del]

definition digit_value :: "char \<Rightarrow> nat option" where
  "digit_value c = (let k = of_char c :: nat in if 48 \<le> k \<and> k \<le> 57 then Some (k - 48) else None)"

fun parse_digits :: "string \<Rightarrow> nat \<Rightarrow> nat option" where
  "parse_digits [] acc = (if acc \<le> 255 then Some acc else None)"
| "parse_digits (c # cs) acc =
     (case digit_value c of None \<Rightarrow> None
      | Some d \<Rightarrow> if 255 < acc * 10 + d then None else parse_digits cs (acc * 10 + d))"

definition parse_u8 :: "string \<Rightarrow> nat option" where
  "parse_u8 s =
     (case s of [] \<Rightarrow> None
      | c # cs \<Rightarrow>
          if c = CHR ''+'' then (if cs = [] then None else parse_digits cs 0)
          else parse_digits s 0)"

definition layer_name :: "layer \<Rightarrow> string" where
  "layer_name l =
     (case l of Front \<Rightarrow> ''F.Cu''
      | Inner i \<Rightarrow> ''In'' @ show_nat i @ ''.Cu''
      | Back \<Rightarrow> ''B.Cu'')"

definition starts_with :: "string \<Rightarrow> string \<Rightarrow> bool" where
  "starts_with p s \<longleftrightarrow> take (length p) s = p"

definition ends_with :: "string \<Rightarrow> string \<Rightarrow> bool" where
  "ends_with p s \<longleftrightarrow> length p \<le> length s \<and> drop (length s - length p) s = p"

text \<open>
  \<open>Layer::deserialize\<close>. The slice \<open>value[2..value.len() - 3]\<close> is in range: a string that starts
  with \<open>In\<close> and ends with \<open>.Cu\<close> has at least five bytes.
\<close>

definition layer_deserialize :: "string \<Rightarrow> string + layer" where
  "layer_deserialize s =
     (if s = ''F.Cu'' then Inr Front
      else if s = ''B.Cu'' then Inr Back
      else if starts_with ''In'' s \<and> ends_with ''.Cu'' s then
        (case parse_u8 (take (length s - 5) (drop 2 s)) of
           None \<Rightarrow> Inl (''invalid copper layer: '' @ s)
         | Some i \<Rightarrow>
             (case layer_from_index i of
                Some (Inner j) \<Rightarrow> Inr (Inner j)
              | _ \<Rightarrow> Inl (''invalid copper layer: '' @ s)))
      else Inl (''invalid copper layer: '' @ s))"

definition both_layers :: "layer list" where
  "both_layers = [Front, Back]"

section \<open>Nets, obstacles and keepouts\<close>

record terminal =
  position_nm :: point
  terminal_layers :: "layer list"

record net =
  net_ident :: nat
  net_name :: string
  terminals :: "terminal list"
  class_of :: "string option"
  net_priority :: int

record obstacle =
  min_pt :: point
  max_pt :: point
  obstacle_layers :: "layer list"
  obstacle_net_id :: "nat option"

record round_obstacle =
  round_center :: point
  round_diameter_nm :: nm
  round_layers :: "layer list"
  round_net_id :: "nat option"

record capsule_obstacle =
  capsule_start :: point
  capsule_end :: point
  capsule_diameter_nm :: nm
  capsule_layers :: "layer list"
  capsule_net_id :: "nat option"

record polygon_obstacle =
  obstacle_polygon :: "point list"
  polygon_layers :: "layer list"
  polygon_net_id :: "nat option"

record keepout =
  keepout_polygon :: "point list"
  keepout_layers :: "layer list"
  keepout_net_id :: "nat option"
  tracks_not_allowed :: bool
  vias_not_allowed :: bool
  zones_not_allowed :: bool
  footprints_not_allowed :: bool
  minimum_track_width_nm :: "nm option"
  minimum_clearance_nm :: "nm option"

datatype pad_shape = Rect | Circle | Oval | RoundRect | Trapezoid | Custom

record pad =
  pad_number :: string
  pad_position :: point
  pad_width_nm :: nm
  pad_height_nm :: nm
  source_width_nm :: nm
  source_height_nm :: nm
  pad_rotation_deg :: f64_bits
  pad_shape_of :: pad_shape
  custom_polygon :: "point list"
  roundrect_radius_nm :: nm
  trapezoid_delta_x_nm :: nm
  trapezoid_delta_y_nm :: nm
  drill_width_nm :: "nm option"
  drill_height_nm :: "nm option"
  drill_offset_x_nm :: nm
  drill_offset_y_nm :: nm
  plated :: bool
  pad_layers :: "layer list"
  pad_net_id :: "nat option"

record footprint =
  reference :: string
  footprint_position :: point
  footprint_rotation_deg :: f64_bits
  pads :: "pad list"

section \<open>Rules\<close>

record rules =
  grid_nm :: nm
  track_width_nm :: nm
  clearance_nm :: nm
  via_diameter_nm :: nm
  via_drill_nm :: nm
  bend_cost :: nat
  via_cost :: nat

record net_class_rules =
  class_track_width_nm :: nm
  class_clearance_nm :: nm
  class_via_diameter_nm :: nm
  class_via_drill_nm :: nm
  class_layers :: "layer list option"
  differential_width_nm :: "nm option"
  differential_gap_nm :: "nm option"
  class_minimum_length_nm :: "nm option"
  class_maximum_length_nm :: "nm option"
  target_impedance_ohms :: "f64_bits option"
  impedance_tolerance_ohms :: "f64_bits option"
  maximum_impedance_step_ohms :: "f64_bits option"

record stackup_layer =
  stackup_layer_of :: layer
  dielectric_height_nm :: nm
  dielectric_constant :: f64_bits
  copper_thickness_nm :: nm
  reference_layer :: "layer option"
  secondary_reference_layer :: "layer option"
  secondary_dielectric_height_nm :: "nm option"
  secondary_dielectric_constant :: "f64_bits option"

record differential_pair =
  pair_name :: string
  positive_net_id :: nat
  negative_net_id :: nat
  gap_nm :: nm
  gap_tolerance_nm :: nm
  pair_max_skew_nm :: nm
  min_coupled_percent :: nat
  target_differential_impedance_ohms :: "f64_bits option"
  differential_impedance_tolerance_ohms :: "f64_bits option"
  maximum_differential_impedance_step_ohms :: "f64_bits option"
  pair_minimum_length_nm :: "nm option"
  pair_tuning_amplitude_nm :: "nm option"
  pair_tuning_pitch_nm :: "nm option"
  pair_max_tuning_sections :: nat

record length_group =
  group_name :: string
  group_net_ids :: "nat list"
  group_max_skew_nm :: nm
  tuning_amplitude_nm :: "nm option"
  tuning_pitch_nm :: "nm option"
  max_tuning_sections :: nat

datatype escape_direction = Radial | Rows | Columns | FourWay

record escape_group =
  escape_name :: string
  escape_net_ids :: "nat list"
  fanout_distance_nm :: nm
  target_layer :: layer
  escape_direction_of :: escape_direction
  via_grid_nm :: "nm option"
  max_rings :: nat

record manufacturing_rules =
  mfg_minimum_track_width_nm :: nm
  mfg_minimum_clearance_nm :: nm
  minimum_drill_nm :: nm
  minimum_annular_ring_nm :: nm
  minimum_copper_to_edge_nm :: nm
  board_thickness_nm :: nm
  maximum_via_aspect_ratio :: nat
  minimum_drill_to_drill_nm :: nm
  allow_via_in_pad :: bool
  minimum_trace_angle_deg :: nat

record return_path_rule =
  return_name :: string
  signal_net_ids :: "nat list"
  reference_net_id :: nat
  max_via_distance_nm :: nm
  auto_stitch :: bool
  require_continuous_plane :: bool
  plane_sample_spacing_nm :: "nm option"

record power_net_rule =
  power_net_id :: nat
  current_ma :: f64_bits
  maximum_voltage_drop_mv :: f64_bits
  minimum_parallel_vias :: nat

text \<open>The defaults that deserialisation fills in.\<close>

definition default_bend_cost :: nat where "default_bend_cost = 5"

definition default_via_cost :: nat where "default_via_cost = 20"

definition merged_with :: "net_class_rules \<Rightarrow> rules \<Rightarrow> rules" where
  "merged_with c defaults =
     \<lparr>grid_nm = grid_nm defaults,
      track_width_nm = class_track_width_nm c,
      clearance_nm = class_clearance_nm c,
      via_diameter_nm = class_via_diameter_nm c,
      via_drill_nm = class_via_drill_nm c,
      bend_cost = bend_cost defaults,
      via_cost = via_cost defaults\<rparr>"

section \<open>Routes\<close>

record segment =
  seg_start :: point
  seg_end :: point
  seg_layer :: layer
  width_nm :: nm

record route_arc =
  arc_start :: point
  arc_mid :: point
  arc_end :: point
  arc_layer :: layer
  arc_width_nm :: nm

record teardrop =
  teardrop_polygon :: "point list"
  teardrop_layer :: layer

record copper_zone =
  zone_polygon :: "point list"
  zone_layer :: layer
  zone_clearance_nm :: nm
  minimum_thickness_nm :: nm
  thermal_relief :: bool
  thermal_gap_nm :: nm
  thermal_spoke_width_nm :: nm
  filled_polygons :: "point list list"

datatype via_kind = Through | BlindBuried | Micro

datatype via_strategy = ThroughOnly | Auto

record via =
  via_position :: point
  diameter_nm :: nm
  drill_nm :: nm
  via_kind_of :: via_kind
  start_layer :: layer
  end_layer :: layer

record route =
  net_id :: nat
  segments :: "segment list"
  arcs :: "route_arc list"
  vias :: "via list"
  teardrops :: "teardrop list"
  zones :: "copper_zone list"

definition spans_layer :: "via \<Rightarrow> layer \<Rightarrow> bool" where
  "spans_layer v l =
     (let first_index = min (layer_index (start_layer v)) (layer_index (end_layer v));
          last_index = max (layer_index (start_layer v)) (layer_index (end_layer v))
      in first_index \<le> layer_index l \<and> layer_index l \<le> last_index)"

definition shares_layer_with :: "via \<Rightarrow> via \<Rightarrow> bool" where
  "shares_layer_with v w \<longleftrightarrow>
     spans_layer v (start_layer w) \<or> spans_layer v (end_layer w) \<or> spans_layer w (start_layer v)"

section \<open>The board\<close>

record board =
  schema_version :: nat
  board_width_nm :: nm
  board_height_nm :: nm
  outline :: "point list"
  cutouts :: "point list list"
  copper_layers :: "layer list"
  rules_of :: rules
  obstacles :: "obstacle list"
  round_obstacles :: "round_obstacle list"
  capsule_obstacles :: "capsule_obstacle list"
  polygon_obstacles :: "polygon_obstacle list"
  keepouts :: "keepout list"
  footprints :: "footprint list"
  net_classes :: "(string \<times> net_class_rules) list"
  differential_pairs :: "differential_pair list"
  length_groups :: "length_group list"
  escape_groups :: "escape_group list"
  manufacturing_rules_of :: "manufacturing_rules option"
  return_path_rules :: "return_path_rule list"
  power_net_rules :: "power_net_rule list"
  stackup :: "stackup_layer list"
  via_strategy_of :: via_strategy
  nets :: "net list"
  routes :: "route list"

definition effective_outline :: "board \<Rightarrow> point list" where
  "effective_outline b =
     (if 3 \<le> length (outline b) then outline b
      else [\<lparr>x_nm = 0, y_nm = 0\<rparr>,
            \<lparr>x_nm = board_width_nm b, y_nm = 0\<rparr>,
            \<lparr>x_nm = board_width_nm b, y_nm = board_height_nm b\<rparr>,
            \<lparr>x_nm = 0, y_nm = board_height_nm b\<rparr>])"

text \<open>The class of a net: the first net with the identifier, its class name, the class.\<close>

definition class_for_net :: "board \<Rightarrow> nat \<Rightarrow> net_class_rules option" where
  "class_for_net b n =
     Option.bind (find (\<lambda>m. net_ident m = n) (nets b))
       (\<lambda>m. Option.bind (class_of m) (map_of (net_classes b)))"

definition rules_for_net :: "board \<Rightarrow> nat \<Rightarrow> rules" where
  "rules_for_net b n =
     (case class_for_net b n of
        None \<Rightarrow> rules_of b
      | Some c \<Rightarrow>
          let r = merged_with c (rules_of b) in
          if \<exists>p \<in> set (differential_pairs b). positive_net_id p = n \<or> negative_net_id p = n
          then (case differential_width_nm c of
                  Some w \<Rightarrow> r\<lparr>track_width_nm := w\<rparr>
                | None \<Rightarrow> r)
          else r)"

definition layers_for_net :: "board \<Rightarrow> nat \<Rightarrow> layer list option" where
  "layers_for_net b n = Option.bind (class_for_net b n) class_layers"

definition length_limits_for_net :: "board \<Rightarrow> nat \<Rightarrow> nm option \<times> nm option" where
  "length_limits_for_net b n =
     (case class_for_net b n of
        None \<Rightarrow> (None, None)
      | Some c \<Rightarrow> (class_minimum_length_nm c, class_maximum_length_nm c))"

text \<open>
  \<open>via_for_transition\<close>: \<open>None\<close> is the panic of the two \<open>expect\<close> calls, when a layer is not one of
  the declared copper layers.
\<close>

definition via_for_transition ::
    "board \<Rightarrow> layer \<Rightarrow> layer \<Rightarrow> (via_kind \<times> layer \<times> layer \<times> nat) option" where
  "via_for_transition b f t =
     (if via_strategy_of b = ThroughOnly then Some (Through, Front, Back, 1)
      else
        case position (\<lambda>l. l = f) (copper_layers b) of
          None \<Rightarrow> None
        | Some fp \<Rightarrow>
            (case position (\<lambda>l. l = t) (copper_layers b) of
               None \<Rightarrow> None
             | Some tp \<Rightarrow>
                 if (if fp \<le> tp then tp - fp else fp - tp) = 1 then Some (Micro, f, t, 1)
                 else if min fp tp = 0 \<and> max fp tp + 1 = length (copper_layers b)
                 then Some (Through, Front, Back, 1)
                 else Some (BlindBuried, f, t, 2)))"

definition maximum_routing_envelope :: "board \<Rightarrow> nm \<times> nm" where
  "maximum_routing_envelope b =
     foldl (\<lambda>(d, c) r. (max (max d (class_track_width_nm r)) (class_via_diameter_nm r),
                       max c (class_clearance_nm r)))
       (max (track_width_nm (rules_of b)) (via_diameter_nm (rules_of b)), clearance_nm (rules_of b))
       (map snd (net_classes b))"

section \<open>Facts about layers\<close>

lemma layer_from_index_inverse: "layer_from_index i = Some l \<Longrightarrow> layer_index l = i"
  by (auto simp: layer_from_index_def layer_index_def split: if_splits)

lemma layer_index_inverse: "supported_layer l \<Longrightarrow> layer_from_index (layer_index l) = Some l"
  by (cases l) (auto simp: layer_from_index_def layer_index_def)

lemma layer_from_index_supported: "layer_from_index i = Some l \<Longrightarrow> supported_layer l"
  by (auto simp: layer_from_index_def split: if_splits)

lemma layer_index_inj:
  "supported_layer l \<Longrightarrow> supported_layer m \<Longrightarrow> layer_index l = layer_index m \<Longrightarrow> l = m"
  by (metis layer_index_inverse option.inject)

section \<open>A concrete board\<close>

text \<open>A board without items, the base of the concrete inputs of the theorems.\<close>

definition default_rules :: rules where
  "default_rules =
     \<lparr>grid_nm = 100000, track_width_nm = 200000, clearance_nm = 100000, via_diameter_nm = 600000,
      via_drill_nm = 300000, bend_cost = 5, via_cost = 20\<rparr>"

definition blank_board :: board where
  "blank_board =
     \<lparr>schema_version = 1, board_width_nm = 1000000, board_height_nm = 1000000, outline = [],
      cutouts = [], copper_layers = [Front, Back], rules_of = default_rules, obstacles = [],
      round_obstacles = [], capsule_obstacles = [], polygon_obstacles = [], keepouts = [],
      footprints = [], net_classes = [], differential_pairs = [], length_groups = [],
      escape_groups = [], manufacturing_rules_of = None, return_path_rules = [],
      power_net_rules = [], stackup = [], via_strategy_of = Auto, nets = [], routes = []\<rparr>"

section \<open>Layer names\<close>

lemma digit_value_char [simp]: "d < 10 \<Longrightarrow> digit_value (digit_char d) = Some d"
  by (simp add: digit_value_def digit_char_def Let_def)

lemma parse_show_nat:
  "parse_digits (show_nat n @ cs) 0 = (if n \<le> 255 then parse_digits cs n else None)"
proof (induction n arbitrary: cs rule: show_nat.induct)
  case (1 n)
  show ?case
  proof (cases "n < 10")
    case True
    then show ?thesis by (subst show_nat.simps) simp
  next
    case False
    have n: "n div 10 * 10 + n mod 10 = n" by simp
    have "parse_digits (show_nat n @ cs) 0 =
        parse_digits (show_nat (n div 10) @ digit_char (n mod 10) # cs) 0"
      using False by (subst show_nat.simps) simp
    also have "\<dots> = (if n div 10 \<le> 255 then parse_digits (digit_char (n mod 10) # cs) (n div 10) else None)"
      using 1[OF False] by simp
    also have "\<dots> = (if n \<le> 255 then parse_digits cs n else None)"
      using n by (auto simp del: div_mult_mod_eq)
    finally show ?thesis .
  qed
qed

lemma show_nat_first: "\<exists>d cs. d < 10 \<and> show_nat n = digit_char d # cs"
proof (induction n rule: show_nat.induct)
  case (1 n)
  show ?case
  proof (cases "n < 10")
    case True
    then show ?thesis by (subst show_nat.simps) auto
  next
    case False
    with 1 obtain d cs where "d < 10" "show_nat (n div 10) = digit_char d # cs" by blast
    then show ?thesis using False by (subst show_nat.simps) auto
  qed
qed

lemma digit_not_plus: "d < 10 \<Longrightarrow> digit_char d \<noteq> CHR ''+''"
  using digit_value_char[of d] by (auto simp: digit_value_def simp del: digit_value_char)

lemma parse_u8_show_nat: "parse_u8 (show_nat n) = (if n \<le> 255 then Some n else None)"
proof -
  have "parse_digits (show_nat n) 0 = (if n \<le> 255 then Some n else None)"
    using parse_show_nat[of n "[]"] by simp
  then show ?thesis
    using show_nat_first[of n] by (auto simp: parse_u8_def digit_not_plus)
qed

text \<open>A layer name round-trips through the text form exactly for the supported layers: writing
  a layer and reading it back gives the layer when it is front, back or inner 1 to 30, and an
  unsupported inner number is rejected on reading.\<close>

theorem layer_name_roundtrip: "layer_deserialize (layer_name l) = Inr l \<longleftrightarrow> supported_layer l"
proof (cases l)
  case (Inner i)
  have s: "layer_name l \<noteq> ''F.Cu''" "layer_name l \<noteq> ''B.Cu''"
    "starts_with ''In'' (layer_name l)" "ends_with ''.Cu'' (layer_name l)"
    "take (length (layer_name l) - 5) (drop 2 (layer_name l)) = show_nat i"
    by (simp_all add: Inner layer_name_def starts_with_def ends_with_def)
  then show ?thesis
    by (auto simp: layer_deserialize_def parse_u8_show_nat layer_from_index_def Inner)
qed (simp_all add: layer_deserialize_def layer_name_def)

section \<open>Vias\<close>

lemma supported_index: "supported_layer l \<Longrightarrow> layer_index l \<le> 31"
  by (cases l) (simp_all add: layer_index_def)

lemma position_member: "x \<in> set xs \<Longrightarrow> \<exists>i. position (\<lambda>y. y = x) xs = Some i"
  using position_None[of "\<lambda>y. y = x" xs] by (cases "position (\<lambda>y. y = x) xs") auto

text \<open>For layers that the board declares, choosing a via never panics, and the chosen via,
  placed with its start and end layer, connects both layers of the transition.\<close>

theorem via_for_transition_connects:
  assumes "f \<in> set (copper_layers b)" and "t \<in> set (copper_layers b)"
    and "\<forall>l \<in> set (copper_layers b). supported_layer l"
  shows "\<exists>k s e m. via_for_transition b f t = Some (k, s, e, m) \<and> m \<in> {1, 2} \<and>
    (k = Through \<longrightarrow> s = Front \<and> e = Back) \<and>
    (\<forall>v. start_layer v = s \<and> end_layer v = e \<longrightarrow> spans_layer v f \<and> spans_layer v t)"
proof -
  obtain i j where "position (\<lambda>l. l = f) (copper_layers b) = Some i"
    "position (\<lambda>l. l = t) (copper_layers b) = Some j"
    using assms position_member by metis
  moreover have "layer_index f \<le> 31" "layer_index t \<le> 31"
    using assms supported_index by auto
  ultimately show ?thesis
    by (auto simp: via_for_transition_def spans_layer_def layer_index_def Let_def split: layer.splits)
qed

theorem via_for_transition_connects_witness:
  "\<exists>b f t. f \<in> set (copper_layers b) \<and> t \<in> set (copper_layers b) \<and>
    (\<exists>k s e m. via_for_transition b f t = Some (k, s, e, m) \<and> k = Micro)"
proof -
  define b where "b = blank_board\<lparr>copper_layers := [Front, Inner 1, Inner 2, Back], via_strategy_of := Auto\<rparr>"
  have "via_for_transition b (Inner 1) (Inner 2) = Some (Micro, Inner 1, Inner 2, 1)"
    by (simp add: b_def via_for_transition_def)
  then show ?thesis
    using via_for_transition_connects[of "Inner 1" b "Inner 2"]
    by (intro exI[of _ b] exI[of _ "Inner 1"] exI[of _ "Inner 2"]) (simp add: b_def)
qed

end
