(* ===== verification/Geometry.thy ===== *)
theory Geometry
  imports Board
begin

text \<open>
  The exact predicates of \<open>crates/pcbex-core/src/geometry.rs\<close>: distances between points,
  segments, rectangles and polygons compared with half of \<open>distance_twice\<close>, segment intersection
  by orientation signs, and the winding test. The code computes in \<open>i128\<close>; the theory
  \<open>GeometryMachine\<close> proves that no intermediate value leaves that type for coordinates within the
  limit that the resource validation enforces. The main theorems say that the integer tests decide the
  corresponding statements about the real plane.
\<close>

section \<open>The predicates\<close>

definition squared_difference :: "int \<Rightarrow> int \<Rightarrow> int" where
  "squared_difference l r = (l - r) * (l - r)"

definition orientation :: "point \<Rightarrow> point \<Rightarrow> point \<Rightarrow> int" where
  "orientation a b c =
     (x_nm b - x_nm a) * (y_nm c - y_nm a) - (y_nm b - y_nm a) * (x_nm c - x_nm a)"

definition point_on_segment :: "point \<Rightarrow> point \<Rightarrow> point \<Rightarrow> bool" where
  "point_on_segment p s e \<longleftrightarrow>
     min (x_nm s) (x_nm e) \<le> x_nm p \<and> x_nm p \<le> max (x_nm s) (x_nm e) \<and>
     min (y_nm s) (y_nm e) \<le> y_nm p \<and> y_nm p \<le> max (y_nm s) (y_nm e)"

definition point_in_rect :: "point \<Rightarrow> point \<Rightarrow> point \<Rightarrow> bool" where
  "point_in_rect p mn mx \<longleftrightarrow>
     x_nm mn \<le> x_nm p \<and> x_nm p \<le> x_nm mx \<and> y_nm mn \<le> y_nm p \<and> y_nm p \<le> y_nm mx"

definition compare_ratio :: "int \<Rightarrow> int \<Rightarrow> int \<Rightarrow> bool \<Rightarrow> bool" where
  "compare_ratio numerator denominator distance_twice inclusive =
     (if distance_twice < 0 then False
      else if inclusive then 4 * numerator \<le> distance_twice * distance_twice * denominator
      else 4 * numerator < distance_twice * distance_twice * denominator)"

definition segments_intersect :: "point \<Rightarrow> point \<Rightarrow> point \<Rightarrow> point \<Rightarrow> bool" where
  "segments_intersect a b c d =
     (let ab_c = orientation a b c;
          ab_d = orientation a b d;
          cd_a = orientation c d a;
          cd_b = orientation c d b
      in if ab_c = 0 \<and> point_on_segment c a b
            \<or> ab_d = 0 \<and> point_on_segment d a b
            \<or> cd_a = 0 \<and> point_on_segment a c d
            \<or> cd_b = 0 \<and> point_on_segment b c d
         then True
         else (ab_c > 0) \<noteq> (ab_d > 0) \<and> (cd_a > 0) \<noteq> (cd_b > 0))"

definition point_segment_compare ::
    "point \<Rightarrow> point \<Rightarrow> point \<Rightarrow> int \<Rightarrow> bool \<Rightarrow> bool" where
  "point_segment_compare p s e distance_twice inclusive =
     (let dx = x_nm e - x_nm s;
          dy = y_nm e - y_nm s;
          px = x_nm p - x_nm s;
          py = y_nm p - y_nm s;
          length_squared = dx * dx + dy * dy
      in if length_squared = 0
         then compare_ratio (px * px + py * py) 1 distance_twice inclusive
         else
           let projection = px * dx + py * dy in
           if projection \<le> 0
           then compare_ratio (px * px + py * py) 1 distance_twice inclusive
           else if length_squared \<le> projection
           then
             let ex = x_nm p - x_nm e;
                 ey = y_nm p - y_nm e
             in compare_ratio (ex * ex + ey * ey) 1 distance_twice inclusive
           else
             let cross = px * dy - py * dx
             in compare_ratio (cross * cross) length_squared distance_twice inclusive)"

definition segment_compare ::
    "point \<Rightarrow> point \<Rightarrow> point \<Rightarrow> point \<Rightarrow> int \<Rightarrow> bool \<Rightarrow> bool" where
  "segment_compare a b c d distance_twice inclusive =
     (if segments_intersect a b c d then inclusive \<or> distance_twice > 0
      else point_segment_compare a c d distance_twice inclusive
         \<or> point_segment_compare b c d distance_twice inclusive
         \<or> point_segment_compare c a b distance_twice inclusive
         \<or> point_segment_compare d a b distance_twice inclusive)"

definition points_within :: "point \<Rightarrow> point \<Rightarrow> int \<Rightarrow> bool" where
  "points_within a b distance_twice =
     compare_ratio (squared_difference (x_nm a) (x_nm b) + squared_difference (y_nm a) (y_nm b))
       1 distance_twice True"

definition points_closer_than :: "point \<Rightarrow> point \<Rightarrow> int \<Rightarrow> bool" where
  "points_closer_than a b distance_twice =
     compare_ratio (squared_difference (x_nm a) (x_nm b) + squared_difference (y_nm a) (y_nm b))
       1 distance_twice False"

definition point_segment_within :: "point \<Rightarrow> point \<Rightarrow> point \<Rightarrow> int \<Rightarrow> bool" where
  "point_segment_within p s e distance_twice = point_segment_compare p s e distance_twice True"

definition point_segment_closer_than :: "point \<Rightarrow> point \<Rightarrow> point \<Rightarrow> int \<Rightarrow> bool" where
  "point_segment_closer_than p s e distance_twice = point_segment_compare p s e distance_twice False"

definition segments_within :: "point \<Rightarrow> point \<Rightarrow> point \<Rightarrow> point \<Rightarrow> int \<Rightarrow> bool" where
  "segments_within a b c d distance_twice = segment_compare a b c d distance_twice True"

definition segments_closer_than :: "point \<Rightarrow> point \<Rightarrow> point \<Rightarrow> point \<Rightarrow> int \<Rightarrow> bool" where
  "segments_closer_than a b c d distance_twice = segment_compare a b c d distance_twice False"

definition point_rect_closer_than :: "point \<Rightarrow> point \<Rightarrow> point \<Rightarrow> int \<Rightarrow> bool" where
  "point_rect_closer_than p mn mx distance_twice =
     (let dx = (if x_nm p < x_nm mn then x_nm mn - x_nm p
                else if x_nm mx < x_nm p then x_nm p - x_nm mx
                else 0);
          dy = (if y_nm p < y_nm mn then y_nm mn - y_nm p
                else if y_nm mx < y_nm p then y_nm p - y_nm mx
                else 0)
      in compare_ratio (dx * dx + dy * dy) 1 distance_twice False)"

definition segment_rect_closer_than ::
    "point \<Rightarrow> point \<Rightarrow> point \<Rightarrow> point \<Rightarrow> int \<Rightarrow> bool" where
  "segment_rect_closer_than s e mn mx distance_twice =
     (if point_in_rect s mn mx \<or> point_in_rect e mn mx then distance_twice > 0
      else
        let corners = [mn, \<lparr>x_nm = x_nm mx, y_nm = y_nm mn\<rparr>, mx, \<lparr>x_nm = x_nm mn, y_nm = y_nm mx\<rparr>]
        in \<exists>i \<in> set [0..<4].
             segments_closer_than s e (corners ! i) (corners ! ((i + 1) mod 4)) distance_twice)"

definition polygon_edges :: "point list \<Rightarrow> (point \<times> point) list" where
  "polygon_edges polygon = cyclic_pairs polygon"

text \<open>
  The winding loop: an edge through the point returns at once (\<open>None\<close>), otherwise the
  winding number is accumulated.
\<close>

fun winding_loop :: "point \<Rightarrow> (point \<times> point) list \<Rightarrow> int \<Rightarrow> int option" where
  "winding_loop p [] winding = Some winding"
| "winding_loop p ((s, e) # es) winding =
     (if orientation s e p = 0 \<and> point_on_segment p s e then None
      else if y_nm s \<le> y_nm p
      then (if y_nm e > y_nm p \<and> orientation s e p > 0
            then winding_loop p es (winding + 1)
            else winding_loop p es winding)
      else if y_nm e \<le> y_nm p \<and> orientation s e p < 0
      then winding_loop p es (winding - 1)
      else winding_loop p es winding)"

definition point_in_polygon :: "point \<Rightarrow> point list \<Rightarrow> bool" where
  "point_in_polygon p polygon =
     (if length polygon < 3 then False
      else case winding_loop p (polygon_edges polygon) 0 of
             None \<Rightarrow> True
           | Some winding \<Rightarrow> winding \<noteq> 0)"

definition polygon_is_simple :: "point list \<Rightarrow> bool" where
  "polygon_is_simple polygon =
     (let n = length polygon in
      if n < 3 \<or> (\<exists>(s, e) \<in> set (polygon_edges polygon). s = e) then False
      else if \<exists>l \<in> set [0..<n]. \<exists>r \<in> set [l + 1..<n].
                \<not> (r = l + 1 \<or> (l = 0 \<and> r = n - 1)) \<and>
                segments_intersect (polygon ! l) (polygon ! ((l + 1) mod n))
                  (polygon ! r) (polygon ! ((r + 1) mod n))
      then False
      else (\<Sum>(a, b) \<leftarrow> polygon_edges polygon. x_nm a * y_nm b - x_nm b * y_nm a) \<noteq> 0)"

definition point_polygon_closer_than :: "point \<Rightarrow> point list \<Rightarrow> int \<Rightarrow> bool" where
  "point_polygon_closer_than p polygon distance_twice =
     (\<exists>(s, e) \<in> set (polygon_edges polygon). point_segment_closer_than p s e distance_twice)"

definition segment_polygon_closer_than :: "point \<Rightarrow> point \<Rightarrow> point list \<Rightarrow> int \<Rightarrow> bool" where
  "segment_polygon_closer_than s e polygon distance_twice =
     (\<exists>(es, ee) \<in> set (polygon_edges polygon). segments_closer_than s e es ee distance_twice)"

text \<open>\<open>Board::point_inside_board\<close>.\<close>

definition point_inside_board :: "board \<Rightarrow> point \<Rightarrow> nm \<Rightarrow> bool" where
  "point_inside_board b p diameter =
     (let ol = effective_outline b in
      point_in_polygon p ol
      \<and> \<not> point_polygon_closer_than p ol diameter
      \<and> (\<forall>cutout \<in> set (cutouts b).
            \<not> point_in_polygon p cutout \<and> \<not> point_polygon_closer_than p cutout diameter))"


section \<open>Distances in the real plane\<close>

text \<open>
  The specification: a point of the segment from \<open>s\<close> to \<open>e\<close> at parameter \<open>t\<close>, the squared
  distance, and the comparison with half of \<open>distance_twice\<close>, strict or not.
\<close>

type_synonym real_point = "real \<times> real"

definition real_pt :: "point \<Rightarrow> real_point" where
  "real_pt p = (of_int (x_nm p), of_int (y_nm p))"

definition seg_at :: "point \<Rightarrow> point \<Rightarrow> real \<Rightarrow> real_point" where
  "seg_at s e t =
     (of_int (x_nm s) + t * of_int (x_nm e - x_nm s), of_int (y_nm s) + t * of_int (y_nm e - y_nm s))"

definition dist_sq :: "real_point \<Rightarrow> real_point \<Rightarrow> real" where
  "dist_sq p q = (fst p - fst q)\<^sup>2 + (snd p - snd q)\<^sup>2"

definition on_segment :: "point \<Rightarrow> point \<Rightarrow> real_point \<Rightarrow> bool" where
  "on_segment s e q \<longleftrightarrow> (\<exists>t. 0 \<le> t \<and> t \<le> 1 \<and> q = seg_at s e t)"

definition near :: "bool \<Rightarrow> int \<Rightarrow> real \<Rightarrow> bool" where
  "near inclusive d x \<longleftrightarrow>
     (if inclusive then 4 * x \<le> (of_int d)\<^sup>2 else 4 * x < (of_int d)\<^sup>2)"

lemma near_mono: "near i d x \<Longrightarrow> y \<le> x \<Longrightarrow> near i d y"
  by (auto simp: near_def split: if_splits)

lemma dist_sq_nonneg [simp]: "0 \<le> dist_sq p q"
  by (simp add: dist_sq_def)

lemma dist_sq_eq_0 [simp]: "dist_sq p q = 0 \<longleftrightarrow> p = q"
  by (auto simp: dist_sq_def prod_eq_iff sum_power2_eq_zero_iff)

lemma dist_sq_commute: "dist_sq p q = dist_sq q p"
  by (simp add: dist_sq_def power2_commute)

lemma seg_at_0 [simp]: "seg_at s e 0 = real_pt s"
  by (simp add: seg_at_def real_pt_def)

lemma seg_at_1 [simp]: "seg_at s e 1 = real_pt e"
  by (simp add: seg_at_def real_pt_def)

lemma compare_ratio_near:
  "0 \<le> d \<Longrightarrow> compare_ratio n 1 d i \<longleftrightarrow> near i d (of_int n)"
  unfolding compare_ratio_def near_def power2_eq_square
  by (simp flip: of_int_mult add: of_int_le_iff of_int_less_iff)
     (metis of_int_le_iff of_int_less_iff of_int_mult of_int_numeral)

lemma compare_ratio_near_div:
  assumes "0 \<le> d" and "0 < l"
  shows "compare_ratio n l d i \<longleftrightarrow> near i d (of_int n / of_int l)"
proof -
  have l: "0 < (of_int l :: real)" using assms by simp
  have le: "4 * (of_int n / of_int l :: real) \<le> (of_int d)\<^sup>2 \<longleftrightarrow>
      (4 * of_int n :: real) \<le> of_int d * of_int d * of_int l"
    and less: "4 * (of_int n / of_int l :: real) < (of_int d)\<^sup>2 \<longleftrightarrow>
      (4 * of_int n :: real) < of_int d * of_int d * of_int l"
    using l by (simp_all add: field_simps power2_eq_square)
  have ints: "(4 * of_int n :: real) = of_int (4 * n)"
    "(of_int d * of_int d * of_int l :: real) = of_int (d * d * l)" by simp_all
  show ?thesis
    unfolding near_def compare_ratio_def le less ints of_int_le_iff of_int_less_iff
    using assms by auto
qed

text \<open>The three regions of the projection parameter of a point on a line.\<close>

lemma segment_distance_regions:
  fixes dx dy px py t :: real
  defines "f \<equiv> \<lambda>t. (px - t * dx)\<^sup>2 + (py - t * dy)\<^sup>2"
    and "l \<equiv> dx * dx + dy * dy" and "m \<equiv> px * dx + py * dy" and "c \<equiv> px * dy - py * dx"
  shows "m \<le> 0 \<Longrightarrow> 0 \<le> t \<Longrightarrow> f 0 \<le> f t"
    and "l \<le> m \<Longrightarrow> t \<le> 1 \<Longrightarrow> f 1 \<le> f t"
    and "0 < l \<Longrightarrow> f (m / l) = c * c / l"
    and "0 < l \<Longrightarrow> c * c / l \<le> f t"
proof -
  have expand: "f t = f 0 - 2 * t * m + t * t * l" for t
    unfolding f_def l_def m_def by algebra
  have l0: "0 \<le> l" by (simp add: l_def)
  have key: "l * f t = c * c + (t * l - m) * (t * l - m)" for t
    unfolding f_def l_def m_def c_def by algebra
  show "f 0 \<le> f t" if "m \<le> 0" "0 \<le> t"
  proof -
    have "t * m \<le> 0" "0 \<le> t * t * l" using that l0 by (simp_all add: mult_nonneg_nonpos)
    then show ?thesis using expand[of t] by linarith
  qed
  show "f 1 \<le> f t" if "l \<le> m" "t \<le> 1"
  proof -
    have "f t - f 1 = (1 - t) * (2 * (m - l) + (1 - t) * l)"
      using expand[of t] expand[of 1] by (simp add: algebra_simps)
    moreover have "0 \<le> (1 - t) * (2 * (m - l) + (1 - t) * l)"
      using that l0 by (intro mult_nonneg_nonneg add_nonneg_nonneg) auto
    ultimately show ?thesis by linarith
  qed
  show "f (m / l) = c * c / l" if "0 < l"
    using key[of "m / l"] that by (simp add: field_simps)
  show "c * c / l \<le> f t" if "0 < l"
  proof -
    have "c * c \<le> f t * l" using key[of t] by (simp add: mult.commute)
    then show ?thesis using that by (simp add: pos_divide_le_eq)
  qed
qed

lemma dist_sq_seg_at:
  "dist_sq (real_pt p) (seg_at s e t) =
     (of_int (x_nm p - x_nm s) - t * of_int (x_nm e - x_nm s))\<^sup>2 +
     (of_int (y_nm p - y_nm s) - t * of_int (y_nm e - y_nm s))\<^sup>2"
  by (simp add: dist_sq_def real_pt_def seg_at_def algebra_simps)

text \<open>The point-segment test decides the distance to the closest point of the segment.\<close>

lemma point_segment_compare_iff:
  assumes d: "0 \<le> d"
  shows "point_segment_compare p s e d i \<longleftrightarrow>
    (\<exists>t. 0 \<le> t \<and> t \<le> 1 \<and> near i d (dist_sq (real_pt p) (seg_at s e t)))"
proof -
  define dx dy px py where "dx = x_nm e - x_nm s" and "dy = y_nm e - y_nm s"
    and "px = x_nm p - x_nm s" and "py = y_nm p - y_nm s"
  define l m where "l = dx * dx + dy * dy" and "m = px * dx + py * dy"
  define f where "f t = dist_sq (real_pt p) (seg_at s e t)" for t
  have f: "f = (\<lambda>t. (of_int px - t * of_int dx)\<^sup>2 + (of_int py - t * of_int dy)\<^sup>2)"
    by (simp add: fun_eq_iff f_def dist_sq_seg_at px_def py_def dx_def dy_def)
  note regions = segment_distance_regions[where px = "of_int px" and dx = "of_int dx"
        and py = "of_int py" and dy = "of_int dy", folded of_int_mult of_int_add of_int_diff, folded l_def m_def]
  have f0: "f 0 = of_int (px * px + py * py)"
    by (simp add: f power2_eq_square)
  have f1: "f 1 = of_int ((px - dx) * (px - dx) + (py - dy) * (py - dy))"
    by (simp add: f power2_eq_square)
  have e: "x_nm p - x_nm e = px - dx" "y_nm p - y_nm e = py - dy"
    by (simp_all add: px_def py_def dx_def dy_def)
  have unfolded: "point_segment_compare p s e d i =
     (if l = 0 \<or> m \<le> 0 then near i d (f 0)
      else if l \<le> m then near i d (f 1)
      else near i d (of_int ((px * dy - py * dx) * (px * dy - py * dx)) / of_int l))"
  proof -
    have "0 \<le> l" by (simp add: l_def)
    then show ?thesis
      unfolding point_segment_compare_def Let_def
      by (auto simp: e f0 f1 compare_ratio_near[OF d] compare_ratio_near_div[OF d]
          simp flip: px_def py_def dx_def dy_def l_def m_def simp del: of_int_mult of_int_add)
  qed
  have l_nonneg: "0 \<le> l" by (simp add: l_def)
  consider "l = 0" | "l \<noteq> 0" "m \<le> 0" | "l \<noteq> 0" "0 < m" "l \<le> m" | "0 < l" "0 < m" "m < l"
    using l_nonneg by linarith
  then show ?thesis
  proof cases
    case 1
    then have "dx = 0" "dy = 0" by (simp_all add: l_def sum_squares_eq_zero_iff)
    then have "f t = f 0" for t by (simp add: f)
    then have "(\<exists>t. 0 \<le> t \<and> t \<le> 1 \<and> near i d (f t)) \<longleftrightarrow> near i d (f 0)"
      by (metis order_refl zero_le_one)
    then show ?thesis using 1 by (simp add: unfolded f_def)
  next
    case 2
    then have "f 0 \<le> f t" if "0 \<le> t" for t using regions(1)[of t] that by (simp add: f)
    then show ?thesis using 2
      by (auto simp: unfolded f_def[symmetric] intro: near_mono exI[of _ 0])
  next
    case 3
    then have "f 1 \<le> f t" if "t \<le> 1" for t using regions(2)[of t] that by (simp add: f)
    then show ?thesis using 3
      by (auto simp: unfolded f_def[symmetric] intro: near_mono exI[of _ 1])
  next
    case 4
    then have "0 \<le> (of_int m / of_int l :: real)" "(of_int m / of_int l :: real) \<le> 1" by simp_all
    moreover have "f (of_int m / of_int l) =
        of_int ((px * dy - py * dx) * (px * dy - py * dx)) / of_int l"
      using 4 regions(3) by (simp add: f)
    moreover have "of_int ((px * dy - py * dx) * (px * dy - py * dx)) / of_int l \<le> f t" for t
      using 4 regions(4)[of t] by (simp add: f)
    ultimately show ?thesis using 4
      by (auto simp: unfolded f_def[symmetric] simp del: of_int_mult of_int_diff
          intro: near_mono exI[of _ "of_int m / of_int l"])
  qed
qed


section \<open>Intersection of segments\<close>

lemma real_orientation:
  "(of_int (orientation a b c) :: real) =
     (of_int (x_nm b) - of_int (x_nm a)) * (of_int (y_nm c) - of_int (y_nm a)) -
     (of_int (y_nm b) - of_int (y_nm a)) * (of_int (x_nm c) - of_int (x_nm a))"
  by (simp add: orientation_def)

lemma on_segment_start [simp, intro]: "on_segment s e (real_pt s)"
  unfolding on_segment_def by (rule exI[of _ 0]) simp

lemma on_segment_end [simp, intro]: "on_segment s e (real_pt e)"
  unfolding on_segment_def by (rule exI[of _ 1]) simp

lemma convex_between:
  fixes a b t :: real
  assumes "0 \<le> t" "t \<le> 1"
  shows "min a b \<le> a + t * (b - a)" "a + t * (b - a) \<le> max a b"
proof -
  have "a + t * (b - a) = (1 - t) * a + t * b" by (simp add: algebra_simps)
  moreover have "(1 - t) * min a b + t * min a b \<le> (1 - t) * a + t * b"
    using assms by (intro add_mono mult_left_mono) auto
  moreover have "(1 - t) * a + t * b \<le> (1 - t) * max a b + t * max a b"
    using assms by (intro add_mono mult_left_mono) auto
  ultimately show "min a b \<le> a + t * (b - a)" "a + t * (b - a) \<le> max a b"
    by (simp_all add: algebra_simps)
qed

lemma between_ratio:
  fixes a b c :: real
  assumes "a \<noteq> b" "min a b \<le> c" "c \<le> max a b"
  shows "0 \<le> (c - a) / (b - a)" "(c - a) / (b - a) \<le> 1"
  using assms by (auto simp: divide_simps min_def max_def split: if_splits)

text \<open>A collinear point in the bounding box is a point of the segment, and conversely.\<close>

lemma collinear_on_segment:
  "orientation a b c = 0 \<and> point_on_segment c a b \<longleftrightarrow> on_segment a b (real_pt c)"
proof
  assume l: "orientation a b c = 0 \<and> point_on_segment c a b"
  define ax ay bx "by" cx cy :: real where "ax = of_int (x_nm a)" and "ay = of_int (y_nm a)"
    and "bx = of_int (x_nm b)" and "by = of_int (y_nm b)"
    and "cx = of_int (x_nm c)" and "cy = of_int (y_nm c)"
  note defs = ax_def ay_def bx_def by_def cx_def cy_def
  have "of_int (orientation a b c) = (0 :: real)" using l by simp
  then have cross: "(bx - ax) * (cy - ay) = (by - ay) * (cx - ax)"
    by (simp add: real_orientation defs)
  have box: "min ax bx \<le> cx" "cx \<le> max ax bx" "min ay by \<le> cy" "cy \<le> max ay by"
    using l by (simp_all add: point_on_segment_def defs flip: of_int_min of_int_max)
  consider "ax \<noteq> bx" | "ax = bx" "ay \<noteq> by" | "ax = bx" "ay = by" by blast
  then show "on_segment a b (real_pt c)"
  proof cases
    case 1
    define t where "t = (cx - ax) / (bx - ax)"
    have "cx = ax + t * (bx - ax)" using 1 by (simp add: t_def)
    moreover have "cy = ay + t * (by - ay)" using 1 cross by (simp add: t_def field_simps)
    moreover have "0 \<le> t" "t \<le> 1" using between_ratio[OF 1 box(1,2)] by (simp_all add: t_def)
    ultimately show ?thesis
      unfolding on_segment_def by (intro exI[of _ t]) (simp add: real_pt_def seg_at_def defs)
  next
    case 2
    define t where "t = (cy - ay) / (by - ay)"
    have "cy = ay + t * (by - ay)" using 2 by (simp add: t_def)
    moreover have "cx = ax + t * (bx - ax)" using 2 box by simp
    moreover have "0 \<le> t" "t \<le> 1" using between_ratio[OF 2(2) box(3,4)] by (simp_all add: t_def)
    ultimately show ?thesis
      unfolding on_segment_def by (intro exI[of _ t]) (simp add: real_pt_def seg_at_def defs)
  next
    case 3
    then have "real_pt c = real_pt a" using box by (simp add: real_pt_def defs)
    then show ?thesis by simp
  qed
next
  assume "on_segment a b (real_pt c)"
  then obtain t where t: "0 \<le> t" "t \<le> 1"
    and x: "(of_int (x_nm c) :: real) = of_int (x_nm a) + t * (of_int (x_nm b) - of_int (x_nm a))"
    and y: "(of_int (y_nm c) :: real) = of_int (y_nm a) + t * (of_int (y_nm b) - of_int (y_nm a))"
    by (auto simp: on_segment_def real_pt_def seg_at_def)
  have "(of_int (orientation a b c) :: real) = 0"
    unfolding real_orientation x y by algebra
  then have "orientation a b c = 0" by simp
  moreover have "point_on_segment c a b"
    using convex_between[OF t, of "of_int (x_nm a)" "of_int (x_nm b)"]
      convex_between[OF t, of "of_int (y_nm a)" "of_int (y_nm b)"]
    unfolding x[symmetric] y[symmetric]
    by (simp add: point_on_segment_def flip: of_int_min of_int_max)
  ultimately show "orientation a b c = 0 \<and> point_on_segment c a b" ..
qed

definition real_cross :: "point \<Rightarrow> point \<Rightarrow> point \<Rightarrow> point \<Rightarrow> real" where
  "real_cross a b c d =
     of_int (x_nm b - x_nm a) * of_int (y_nm d - y_nm c) -
     of_int (y_nm b - y_nm a) * of_int (x_nm d - x_nm c)"

lemma orientation_difference:
  "of_int (orientation a b d) - of_int (orientation a b c) = real_cross a b c d"
  "of_int (orientation c d a) - of_int (orientation c d b) = real_cross a b c d"
  unfolding real_orientation real_cross_def by (simp_all add: algebra_simps)

text \<open>Where the lines cross, the parameters of the crossing are quotients of orientations.\<close>

lemma crossing_point:
  assumes "real_cross a b c d \<noteq> 0"
  shows "seg_at a b (of_int (orientation c d a) / real_cross a b c d) =
         seg_at c d (- of_int (orientation a b c) / real_cross a b c d)"
proof -
  define k where "k = real_cross a b c d"
  have k: "k \<noteq> 0" using assms by (simp add: k_def)
  have x: "of_int (x_nm a) * k + of_int (orientation c d a) * of_int (x_nm b - x_nm a) =
      of_int (x_nm c) * k - of_int (orientation a b c) * of_int (x_nm d - x_nm c)"
    and y: "of_int (y_nm a) * k + of_int (orientation c d a) * of_int (y_nm b - y_nm a) =
      of_int (y_nm c) * k - of_int (orientation a b c) * of_int (y_nm d - y_nm c)"
    unfolding real_orientation k_def real_cross_def of_int_diff by algebra+
  have "of_int (x_nm a) + of_int (orientation c d a) / k * of_int (x_nm b - x_nm a) =
      of_int (x_nm c) + - of_int (orientation a b c) / k * of_int (x_nm d - x_nm c)"
    using x k by (simp add: field_simps)
  moreover have "of_int (y_nm a) + of_int (orientation c d a) / k * of_int (y_nm b - y_nm a) =
      of_int (y_nm c) + - of_int (orientation a b c) / k * of_int (y_nm d - y_nm c)"
    using y k by (simp add: field_simps)
  ultimately show ?thesis by (simp add: seg_at_def k_def)
qed

lemma crossing_parameters:
  assumes eq: "seg_at a b s = seg_at c d t"
  shows "of_int (orientation a b c) = - t * real_cross a b c d"
    "of_int (orientation a b d) = (1 - t) * real_cross a b c d"
    "of_int (orientation c d a) = s * real_cross a b c d"
    "of_int (orientation c d b) = (s - 1) * real_cross a b c d"
proof -
  have x: "of_int (x_nm a) + s * (of_int (x_nm b) - of_int (x_nm a)) =
      of_int (x_nm c) + t * (of_int (x_nm d) - of_int (x_nm c))"
    and y: "of_int (y_nm a) + s * (of_int (y_nm b) - of_int (y_nm a)) =
      of_int (y_nm c) + t * (of_int (y_nm d) - of_int (y_nm c))"
    using eq by (simp_all add: seg_at_def)
  show c: "of_int (orientation a b c) = - t * real_cross a b c d"
    and a: "of_int (orientation c d a) = s * real_cross a b c d"
    using x y unfolding real_orientation real_cross_def of_int_diff by algebra+
  show "of_int (orientation a b d) = (1 - t) * real_cross a b c d"
    using c orientation_difference(1)[of a b d c] by (simp add: algebra_simps)
  show "of_int (orientation c d b) = (s - 1) * real_cross a b c d"
    using a orientation_difference(2)[of c d a b] by (simp add: algebra_simps)
qed

lemma collinear_param:
  assumes u: "real_pt a \<noteq> real_pt b" and z: "orientation a b c = 0"
  obtains k where "real_pt c = seg_at a b k"
proof -
  define ux uy vx vy :: real where "ux = of_int (x_nm b - x_nm a)" and "uy = of_int (y_nm b - y_nm a)"
    and "vx = of_int (x_nm c - x_nm a)" and "vy = of_int (y_nm c - y_nm a)"
  define l where "l = ux * ux + uy * uy"
  have "(of_int (orientation a b c) :: real) = 0" using z by simp
  then have cross: "ux * vy = uy * vx"
    by (simp add: real_orientation ux_def uy_def vx_def vy_def)
  have l: "l \<noteq> 0"
    using u by (auto simp: l_def real_pt_def ux_def uy_def sum_squares_eq_zero_iff)
  have "vx * l = (vx * ux + vy * uy) * ux" "vy * l = (vx * ux + vy * uy) * uy"
    using cross unfolding l_def by algebra+
  then have "vx = (vx * ux + vy * uy) / l * ux" "vy = (vx * ux + vy * uy) / l * uy"
    using l by (simp_all add: field_simps)
  then have "real_pt c = seg_at a b ((vx * ux + vy * uy) / l)"
    by (simp add: real_pt_def seg_at_def ux_def uy_def vx_def vy_def algebra_simps)
  then show thesis by (rule that)
qed

lemma seg_at_inj: "real_pt a \<noteq> real_pt b \<Longrightarrow> seg_at a b s = seg_at a b t \<Longrightarrow> s = t"
  by (auto simp: seg_at_def real_pt_def)

lemma seg_at_affine:
  assumes "real_pt c = seg_at a b p" "real_pt d = seg_at a b q"
  shows "seg_at c d t = seg_at a b (p + t * (q - p))"
proof -
  have c: "of_int (x_nm c) = of_int (x_nm a) + p * of_int (x_nm b - x_nm a)"
    "of_int (y_nm c) = of_int (y_nm a) + p * of_int (y_nm b - y_nm a)"
    and d: "of_int (x_nm d) = of_int (x_nm a) + q * of_int (x_nm b - x_nm a)"
    "of_int (y_nm d) = of_int (y_nm a) + q * of_int (y_nm b - y_nm a)"
    using assms by (simp_all add: seg_at_def real_pt_def)
  show ?thesis unfolding seg_at_def of_int_diff c d by (simp add: algebra_simps)
qed

text \<open>Parallel segments that meet have an endpoint of one on the other.\<close>

lemma parallel_overlap:
  assumes eq: "seg_at a b s = seg_at c d t" and s: "0 \<le> s" "s \<le> 1" and t: "0 \<le> t" "t \<le> 1"
    and par: "real_cross a b c d = 0"
  shows "on_segment a b (real_pt c) \<or> on_segment a b (real_pt d) \<or> on_segment c d (real_pt a)"
proof (cases "real_pt a = real_pt b")
  case True
  then have "seg_at a b s = real_pt a" by (simp add: seg_at_def real_pt_def)
  then show ?thesis using eq t by (auto simp: on_segment_def)
next
  case False
  have "orientation a b c = 0" "orientation a b d = 0"
    using crossing_parameters[OF eq] par by simp_all
  then obtain p q where p: "real_pt c = seg_at a b p" and q: "real_pt d = seg_at a b q"
    using collinear_param[OF False] by metis
  have affine: "seg_at c d r = seg_at a b (p + r * (q - p))" for r
    by (rule seg_at_affine[OF p q])
  have sp: "s = p + t * (q - p)"
    using eq affine seg_at_inj[OF False] by metis
  consider "0 \<le> p" "p \<le> 1" | "0 \<le> q" "q \<le> 1" | "p < 0" "q < 0" | "p > 1" "q > 1"
    | "p < 0" "q > 1" | "p > 1" "q < 0" by linarith
  then show ?thesis
  proof cases
    case 1
    then show ?thesis using p by (auto simp: on_segment_def)
  next
    case 2
    then show ?thesis using q by (auto simp: on_segment_def)
  next
    case 3
    then show ?thesis using sp s convex_between(2)[OF t, of p q] by auto
  next
    case 4
    then show ?thesis using sp s convex_between(1)[OF t, of p q] by auto
  next
    case 5
    then have "0 \<le> - p / (q - p)" "- p / (q - p) \<le> 1" "p + - p / (q - p) * (q - p) = 0"
      by (simp_all add: field_simps)
    then have "on_segment c d (seg_at a b 0)" unfolding on_segment_def affine by metis
    then show ?thesis by simp
  next
    case 6
    then have "0 \<le> - p / (q - p)" "- p / (q - p) \<le> 1" "p + - p / (q - p) * (q - p) = 0"
      by (simp_all add: field_simps)
    then have "on_segment c d (seg_at a b 0)" unfolding on_segment_def affine by metis
    then show ?thesis by simp
  qed
qed

definition segments_meet :: "point \<Rightarrow> point \<Rightarrow> point \<Rightarrow> point \<Rightarrow> bool" where
  "segments_meet a b c d \<longleftrightarrow> (\<exists>q. on_segment a b q \<and> on_segment c d q)"

lemma opposite_sign_ratio:
  fixes p q :: int
  assumes "(p > 0) \<noteq> (q > 0)"
  shows "0 \<le> of_int p / (of_int p - of_int q :: real)" "of_int p / (of_int p - of_int q :: real) \<le> 1"
  using assms by (auto simp: divide_simps)

lemma segments_intersect_unfold:
  "segments_intersect a b c d \<longleftrightarrow>
     on_segment a b (real_pt c) \<or> on_segment a b (real_pt d) \<or>
     on_segment c d (real_pt a) \<or> on_segment c d (real_pt b) \<or>
     ((orientation a b c > 0) \<noteq> (orientation a b d > 0) \<and>
      (orientation c d a > 0) \<noteq> (orientation c d b > 0))"
  unfolding segments_intersect_def Let_def by (auto simp flip: collinear_on_segment)

lemma segments_intersect_iff: "segments_intersect a b c d \<longleftrightarrow> segments_meet a b c d"
proof
  assume "segments_intersect a b c d"
  then consider "on_segment a b (real_pt c)" | "on_segment a b (real_pt d)"
    | "on_segment c d (real_pt a)" | "on_segment c d (real_pt b)"
    | (cross) "(orientation a b c > 0) \<noteq> (orientation a b d > 0)"
      "(orientation c d a > 0) \<noteq> (orientation c d b > 0)"
    unfolding segments_intersect_unfold by blast
  then show "segments_meet a b c d"
  proof cases
    case cross
    define k where "k = real_cross a b c d"
    have k1: "k = of_int (orientation c d a) - of_int (orientation c d b)"
      and k2: "- k = of_int (orientation a b c) - of_int (orientation a b d)"
      using orientation_difference[of a b d c] orientation_difference(2)[of c d a b]
      by (simp_all add: k_def)
    have "k \<noteq> 0" using cross(2) k1 by auto
    then have "seg_at a b (of_int (orientation c d a) / k) =
        seg_at c d (of_int (orientation a b c) / - k)"
      using crossing_point[of a b c d] by (simp add: k_def)
    moreover have "0 \<le> of_int (orientation c d a) / k" "of_int (orientation c d a) / k \<le> 1"
      unfolding k1 by (rule opposite_sign_ratio[OF cross(2)])+
    moreover have "0 \<le> of_int (orientation a b c) / - k" "of_int (orientation a b c) / - k \<le> 1"
      unfolding k2 by (rule opposite_sign_ratio[OF cross(1)])+
    ultimately show ?thesis unfolding segments_meet_def on_segment_def by metis
  qed (metis segments_meet_def on_segment_start on_segment_end)+
next
  assume "segments_meet a b c d"
  then obtain s t where s: "0 \<le> s" "s \<le> 1" and t: "0 \<le> t" "t \<le> 1"
    and eq: "seg_at a b s = seg_at c d t"
    by (auto simp: segments_meet_def on_segment_def)
  define k where "k = real_cross a b c d"
  note pars = crossing_parameters[OF eq, folded k_def]
  show "segments_intersect a b c d"
  proof (cases "k = 0")
    case True
    then show ?thesis
      using parallel_overlap[OF eq s t] unfolding segments_intersect_unfold k_def by blast
  next
    case False
    consider "s = 0" | "s = 1" | "t = 0" | "t = 1" | "0 < s" "s < 1" "0 < t" "t < 1"
      using s t by linarith
    then show ?thesis
    proof cases
      case 5
      have sign: "(of_int p :: real) = r * k \<Longrightarrow> 0 < r \<Longrightarrow> (p > 0) = (k > 0)"
        "(of_int p :: real) = - r * k \<Longrightarrow> 0 < r \<Longrightarrow> (p > 0) = (k < 0)" for p :: int and r
        by (metis of_int_0_less_iff zero_less_mult_pos zero_less_mult_iff less_asym)
           (metis of_int_0_less_iff minus_mult_commute neg_0_less_iff_less mult_pos_pos
             zero_less_mult_pos mult_minus_left mult_minus_right)
      have "(orientation a b c > 0) = (k < 0)" "(orientation a b d > 0) = (k > 0)"
        "(orientation c d a > 0) = (k > 0)" "(orientation c d b > 0) = (k < 0)"
        using sign(2)[of "orientation a b c" t] sign(1)[of "orientation a b d" "1 - t"]
          sign(1)[of "orientation c d a" s] sign(2)[of "orientation c d b" "1 - s"] pars 5
        by auto
      then show ?thesis using False unfolding segments_intersect_unfold by auto
    qed (use eq s t in \<open>auto simp: segments_intersect_unfold on_segment_def\<close>)
  qed
qed

section \<open>Distance between segments\<close>

text \<open>
  Moving from a pair of points of two segments that do not meet towards a pair outside the unit
  square leaves the square at its boundary, where one point is an endpoint.
\<close>

lemma leave_interval:
  fixes s s0 :: real
  assumes "0 \<le> s" "s \<le> 1"
  obtains l where "0 \<le> l" "l \<le> 1"
    and "\<And>m. 0 \<le> m \<Longrightarrow> m \<le> l \<Longrightarrow> 0 \<le> s + m * (s0 - s) \<and> s + m * (s0 - s) \<le> 1"
    and "(l = 1 \<and> 0 \<le> s0 \<and> s0 \<le> 1) \<or> s + l * (s0 - s) = 0 \<or> s + l * (s0 - s) = 1"
proof -
  consider "0 \<le> s0" "s0 \<le> 1" | "s0 < 0" | "1 < s0" by linarith
  then show thesis
  proof cases
    case 1
    have "0 \<le> s + m * (s0 - s) \<and> s + m * (s0 - s) \<le> 1" if "0 \<le> m" "m \<le> 1" for m
      using convex_between[OF that, of s s0] 1 assms by linarith
    then show ?thesis using 1 by (intro that[of 1]) auto
  next
    case 2
    have "0 \<le> s + m * (s0 - s) \<and> s + m * (s0 - s) \<le> 1" if "0 \<le> m" "m \<le> s / (s - s0)" for m
    proof -
      have "m * (s - s0) \<le> s" using that 2 assms by (simp add: pos_le_divide_eq)
      moreover have "0 \<le> m * (s - s0)" using that 2 assms by simp
      moreover have "s + m * (s0 - s) = s - m * (s - s0)" by (simp add: algebra_simps)
      ultimately show ?thesis using assms by linarith
    qed
    moreover have "s + s / (s - s0) * (s0 - s) = 0" using 2 assms by (simp add: field_simps)
    ultimately show ?thesis using 2 assms by (intro that[of "s / (s - s0)"]) auto
  next
    case 3
    have "0 \<le> s + m * (s0 - s) \<and> s + m * (s0 - s) \<le> 1"
      if "0 \<le> m" "m \<le> (1 - s) / (s0 - s)" for m
    proof -
      have "m * (s0 - s) \<le> 1 - s" using that 3 assms by (simp add: pos_le_divide_eq)
      moreover have "0 \<le> m * (s0 - s)" using that 3 assms by simp
      ultimately show ?thesis using assms by linarith
    qed
    moreover have "s + (1 - s) / (s0 - s) * (s0 - s) = 1" using 3 assms by simp
    ultimately show ?thesis using 3 assms by (intro that[of "(1 - s) / (s0 - s)"]) auto
  qed
qed

lemma leave_square:
  fixes s t s0 t0 :: real
  assumes s: "0 \<le> s" "s \<le> 1" and t: "0 \<le> t" "t \<le> 1"
    and out: "\<not> (0 \<le> s0 \<and> s0 \<le> 1 \<and> 0 \<le> t0 \<and> t0 \<le> 1)"
  obtains l where "0 \<le> l" "l \<le> 1"
    "0 \<le> s + l * (s0 - s)" "s + l * (s0 - s) \<le> 1" "0 \<le> t + l * (t0 - t)" "t + l * (t0 - t) \<le> 1"
    "s + l * (s0 - s) \<in> {0, 1} \<or> t + l * (t0 - t) \<in> {0, 1}"
proof -
  obtain ls where ls: "0 \<le> ls" "ls \<le> 1"
    "\<And>m. 0 \<le> m \<Longrightarrow> m \<le> ls \<Longrightarrow> 0 \<le> s + m * (s0 - s) \<and> s + m * (s0 - s) \<le> 1"
    "(ls = 1 \<and> 0 \<le> s0 \<and> s0 \<le> 1) \<or> s + ls * (s0 - s) = 0 \<or> s + ls * (s0 - s) = 1"
    using leave_interval[OF s] by metis
  obtain lt where lt: "0 \<le> lt" "lt \<le> 1"
    "\<And>m. 0 \<le> m \<Longrightarrow> m \<le> lt \<Longrightarrow> 0 \<le> t + m * (t0 - t) \<and> t + m * (t0 - t) \<le> 1"
    "(lt = 1 \<and> 0 \<le> t0 \<and> t0 \<le> 1) \<or> t + lt * (t0 - t) = 0 \<or> t + lt * (t0 - t) = 1"
    using leave_interval[OF t] by metis
  define l where "l = min ls lt"
  have "s + l * (s0 - s) \<in> {0, 1} \<or> t + l * (t0 - t) \<in> {0, 1}"
  proof (cases "ls \<le> lt")
    case True
    then show ?thesis using ls(4) lt(2,4) out by (auto simp: l_def min_def)
  next
    case False
    then show ?thesis using lt(4) ls(2) by (auto simp: l_def min_def)
  qed
  moreover have "0 \<le> l" "l \<le> 1" "l \<le> ls" "l \<le> lt" using ls lt by (auto simp: l_def)
  ultimately show thesis using ls(3)[of l] lt(3)[of l] by (intro that[of l]) auto
qed

lemma dist_sq_along:
  assumes "k * (of_int (x_nm b - x_nm a) * p - of_int (x_nm d - x_nm c) * q) =
      (m - 1) * (fst (seg_at a b s) - fst (seg_at c d t))"
    and "k * (of_int (y_nm b - y_nm a) * p - of_int (y_nm d - y_nm c) * q) =
      (m - 1) * (snd (seg_at a b s) - snd (seg_at c d t))"
  shows "dist_sq (seg_at a b (s + k * p)) (seg_at c d (t + k * q)) =
      m\<^sup>2 * dist_sq (seg_at a b s) (seg_at c d t)"
proof -
  have "fst (seg_at a b (s + k * p)) - fst (seg_at c d (t + k * q)) =
      m * (fst (seg_at a b s) - fst (seg_at c d t))"
    and "snd (seg_at a b (s + k * p)) - snd (seg_at c d (t + k * q)) =
      m * (snd (seg_at a b s) - snd (seg_at c d t))"
    using assms by (simp_all add: seg_at_def algebra_simps)
  then show ?thesis by (simp add: dist_sq_def power_mult_distrib distrib_left)
qed

definition boundary_pair :: "real \<Rightarrow> real \<Rightarrow> bool" where
  "boundary_pair s t \<longleftrightarrow> 0 \<le> s \<and> s \<le> 1 \<and> 0 \<le> t \<and> t \<le> 1 \<and> (s \<in> {0, 1} \<or> t \<in> {0, 1})"

lemma boundary_closer_crossing:
  assumes s: "0 \<le> s" "s \<le> 1" and t: "0 \<le> t" "t \<le> 1"
    and apart: "\<not> segments_meet a b c d" and k: "real_cross a b c d \<noteq> 0"
  shows "\<exists>s' t'. boundary_pair s' t' \<and>
    dist_sq (seg_at a b s') (seg_at c d t') \<le> dist_sq (seg_at a b s) (seg_at c d t)"
proof -
  obtain s0 t0 where eq: "seg_at a b s0 = seg_at c d t0" using crossing_point[OF k] by metis
  have out: "\<not> (0 \<le> s0 \<and> s0 \<le> 1 \<and> 0 \<le> t0 \<and> t0 \<le> 1)"
    using apart eq unfolding segments_meet_def on_segment_def by metis
  obtain l where l: "0 \<le> l" "l \<le> 1"
    "0 \<le> s + l * (s0 - s)" "s + l * (s0 - s) \<le> 1" "0 \<le> t + l * (t0 - t)" "t + l * (t0 - t) \<le> 1"
    "s + l * (s0 - s) \<in> {0, 1} \<or> t + l * (t0 - t) \<in> {0, 1}"
    by (rule leave_square[OF s t out])
  have x: "of_int (x_nm a) + s0 * of_int (x_nm b - x_nm a) =
      of_int (x_nm c) + t0 * (of_int (x_nm d - x_nm c) :: real)"
    and y: "of_int (y_nm a) + s0 * of_int (y_nm b - y_nm a) =
      of_int (y_nm c) + t0 * (of_int (y_nm d - y_nm c) :: real)"
    using eq by (simp_all add: seg_at_def)
  have "dist_sq (seg_at a b (s + l * (s0 - s))) (seg_at c d (t + l * (t0 - t))) =
      (1 - l)\<^sup>2 * dist_sq (seg_at a b s) (seg_at c d t)"
    by (rule dist_sq_along) (use x y in \<open>simp_all add: seg_at_def, algebra+\<close>)
  moreover have "(1 - l)\<^sup>2 \<le> 1" using l(1,2) by (simp add: power_le_one)
  ultimately have "dist_sq (seg_at a b (s + l * (s0 - s))) (seg_at c d (t + l * (t0 - t))) \<le>
      dist_sq (seg_at a b s) (seg_at c d t)"
    by (metis dist_sq_nonneg mult_left_le_one_le zero_le_power2)
  then show ?thesis using l unfolding boundary_pair_def by blast
qed

lemma boundary_closer_parallel:
  assumes s: "0 \<le> s" "s \<le> 1" and t: "0 \<le> t" "t \<le> 1" and k: "real_cross a b c d = 0"
  shows "\<exists>s' t'. boundary_pair s' t' \<and>
    dist_sq (seg_at a b s') (seg_at c d t') \<le> dist_sq (seg_at a b s) (seg_at c d t)"
proof (cases "real_pt a = real_pt b")
  case True
  then have "seg_at a b s = seg_at a b 0" by (simp add: seg_at_def real_pt_def)
  then show ?thesis using t by (intro exI[of _ 0] exI[of _ t]) (simp add: boundary_pair_def)
next
  case False
  define ux uy vx vy :: real where "ux = of_int (x_nm b - x_nm a)" and "uy = of_int (y_nm b - y_nm a)"
    and "vx = of_int (x_nm d - x_nm c)" and "vy = of_int (y_nm d - y_nm c)"
  have cross: "ux * vy = uy * vx"
    using k by (simp add: real_cross_def ux_def uy_def vx_def vy_def)
  have u: "ux \<noteq> 0 \<or> uy \<noteq> 0" using False by (auto simp: real_pt_def ux_def uy_def)
  obtain r where r: "vx = r * ux" "vy = r * uy"
  proof (cases "ux = 0")
    case True
    then show ?thesis using u cross by (intro that[of "vy / uy"]) auto
  next
    case False
    then show ?thesis using cross by (intro that[of "vx / ux"]) (auto simp: field_simps)
  qed
  have out: "\<not> (0 \<le> s + 2 * r \<and> s + 2 * r \<le> 1 \<and> 0 \<le> t + 2 \<and> t + 2 \<le> 1)" using t by simp
  obtain l where l: "0 \<le> l" "l \<le> 1"
    "0 \<le> s + l * (s + 2 * r - s)" "s + l * (s + 2 * r - s) \<le> 1"
    "0 \<le> t + l * (t + 2 - t)" "t + l * (t + 2 - t) \<le> 1"
    "s + l * (s + 2 * r - s) \<in> {0, 1} \<or> t + l * (t + 2 - t) \<in> {0, 1}"
    by (rule leave_square[OF s t out])
  have "dist_sq (seg_at a b (s + l * (s + 2 * r - s))) (seg_at c d (t + l * (t + 2 - t))) =
      1\<^sup>2 * dist_sq (seg_at a b s) (seg_at c d t)"
    by (rule dist_sq_along)
       (unfold ux_def[symmetric] uy_def[symmetric] vx_def[symmetric] vy_def[symmetric] r, algebra+)
  then show ?thesis using l unfolding boundary_pair_def by (metis mult_1 one_power2 order_refl)
qed

lemma point_segment_compare_near:
  assumes "0 \<le> D"
  shows "point_segment_compare p s e D i \<longleftrightarrow>
    (\<exists>q. on_segment s e q \<and> near i D (dist_sq (real_pt p) q))"
  unfolding point_segment_compare_iff[OF assms] on_segment_def by metis

text \<open>The segment test decides the distance of the closest pair of points.\<close>

lemma segment_compare_iff:
  assumes D: "0 \<le> D"
  shows "segment_compare a b c d D i \<longleftrightarrow>
    (\<exists>p q. on_segment a b p \<and> on_segment c d q \<and> near i D (dist_sq p q))" (is "_ = ?close")
proof (cases "segments_meet a b c d")
  case True
  then obtain q where "on_segment a b q" "on_segment c d q" by (auto simp: segments_meet_def)
  moreover have "i \<or> 0 < D \<longleftrightarrow> near i D 0" using D by (auto simp: near_def)
  moreover have "near i D 0" if ?close
    using that near_mono by (metis dist_sq_nonneg)
  ultimately have "(i \<or> 0 < D) \<longleftrightarrow> ?close" by (metis dist_sq_eq_0)
  then show ?thesis using True by (simp add: segment_compare_def segments_intersect_iff)
next
  case False
  note ps = point_segment_compare_near[OF D]
  have "segment_compare a b c d D i \<longleftrightarrow>
      (\<exists>q. on_segment c d q \<and> near i D (dist_sq (real_pt a) q)) \<or>
      (\<exists>q. on_segment c d q \<and> near i D (dist_sq (real_pt b) q)) \<or>
      (\<exists>q. on_segment a b q \<and> near i D (dist_sq (real_pt c) q)) \<or>
      (\<exists>q. on_segment a b q \<and> near i D (dist_sq (real_pt d) q))"
    using False by (simp add: segment_compare_def segments_intersect_iff ps)
  also have "\<dots> \<longleftrightarrow> ?close"
  proof
    assume ?close
    then obtain s t where s: "0 \<le> s" "s \<le> 1" and t: "0 \<le> t" "t \<le> 1"
      and n: "near i D (dist_sq (seg_at a b s) (seg_at c d t))"
      by (auto simp: on_segment_def)
    obtain s' t' where b: "boundary_pair s' t'"
      and le: "dist_sq (seg_at a b s') (seg_at c d t') \<le> dist_sq (seg_at a b s) (seg_at c d t)"
      using boundary_closer_crossing[OF s t False] boundary_closer_parallel[OF s t] by blast
    have n': "near i D (dist_sq (seg_at a b s') (seg_at c d t'))" by (rule near_mono[OF n le])
    have "on_segment a b (seg_at a b s')" "on_segment c d (seg_at c d t')"
      using b by (auto simp: on_segment_def boundary_pair_def)
    moreover have "s' = 0 \<or> s' = 1 \<or> t' = 0 \<or> t' = 1" using b by (simp add: boundary_pair_def)
    ultimately show "(\<exists>q. on_segment c d q \<and> near i D (dist_sq (real_pt a) q)) \<or>
      (\<exists>q. on_segment c d q \<and> near i D (dist_sq (real_pt b) q)) \<or>
      (\<exists>q. on_segment a b q \<and> near i D (dist_sq (real_pt c) q)) \<or>
      (\<exists>q. on_segment a b q \<and> near i D (dist_sq (real_pt d) q))"
      using n' by (metis dist_sq_commute seg_at_0 seg_at_1)
  qed (metis dist_sq_commute on_segment_start on_segment_end)
  finally show ?thesis .
qed

section \<open>Winding numbers\<close>

text \<open>
  Only edges that cross the height of the point count, and each of them raises or lowers the
  winding number by one with the sign of its direction, so for a point outside the bounding box
  the contributions cancel around the closed polygon.
\<close>

definition edge_step :: "int \<Rightarrow> point \<times> point \<Rightarrow> int" where
  "edge_step h = (\<lambda>(s, e). (if h < y_nm e then 1 else 0) - (if h < y_nm s then 1 else 0))"

lemma edge_steps_cancel: "(\<Sum>se \<leftarrow> cyclic_pairs ps. edge_step h se) = 0"
  using cyclic_pairs_telescope[of "\<lambda>p. if h < y_nm p then 1 else 0" ps]
  by (simp add: edge_step_def)

lemma orientation_left_of:
  assumes "x_nm p < x_nm s" "x_nm p < x_nm e"
  shows "y_nm s \<le> y_nm p \<Longrightarrow> y_nm p < y_nm e \<Longrightarrow> 0 < orientation s e p"
    and "y_nm p < y_nm s \<Longrightarrow> y_nm e \<le> y_nm p \<Longrightarrow> orientation s e p < 0"
proof -
  have eq: "orientation s e p = (y_nm e - y_nm p) * (x_nm s - x_nm p) + (y_nm p - y_nm s) * (x_nm e - x_nm p)"
    by (simp add: orientation_def algebra_simps)
  show "0 < orientation s e p" if "y_nm s \<le> y_nm p" "y_nm p < y_nm e"
    unfolding eq using assms that by (intro add_pos_nonneg mult_pos_pos mult_nonneg_nonneg) auto
  show "orientation s e p < 0" if "y_nm p < y_nm s" "y_nm e \<le> y_nm p"
    unfolding eq using assms that by (intro add_nonpos_neg mult_neg_pos mult_nonpos_nonneg) auto
qed

lemma orientation_right_of:
  assumes "x_nm s < x_nm p" "x_nm e < x_nm p"
  shows "y_nm s \<le> y_nm p \<Longrightarrow> y_nm p < y_nm e \<Longrightarrow> orientation s e p < 0"
    and "y_nm p < y_nm s \<Longrightarrow> y_nm e \<le> y_nm p \<Longrightarrow> 0 < orientation s e p"
proof -
  have eq: "orientation s e p = (y_nm e - y_nm p) * (x_nm s - x_nm p) + (y_nm p - y_nm s) * (x_nm e - x_nm p)"
    by (simp add: orientation_def algebra_simps)
  show "orientation s e p < 0" if "y_nm s \<le> y_nm p" "y_nm p < y_nm e"
    unfolding eq using assms that by (intro add_neg_nonpos mult_pos_neg mult_nonneg_nonpos) auto
  show "0 < orientation s e p" if "y_nm p < y_nm s" "y_nm e \<le> y_nm p"
    unfolding eq using assms that by (intro add_nonneg_pos mult_neg_neg mult_nonpos_nonpos) auto
qed

text \<open>The winding loop as a sum over the edges, in whatever order they come.\<close>

definition edge_winding :: "point \<Rightarrow> point \<times> point \<Rightarrow> int" where
  "edge_winding p = (\<lambda>(s, e).
     if y_nm s \<le> y_nm p \<and> y_nm p < y_nm e \<and> 0 < orientation s e p then 1
     else if y_nm p < y_nm s \<and> y_nm e \<le> y_nm p \<and> orientation s e p < 0 then - 1
     else 0)"

lemma winding_loop_sum:
  "winding_loop p es w =
     (if \<exists>(s, e) \<in> set es. on_segment s e (real_pt p) then None
      else Some (w + (\<Sum>se \<leftarrow> es. edge_winding p se)))"
  by (induction p es w rule: winding_loop.induct)
     (auto simp: edge_winding_def simp flip: collinear_on_segment)

lemma point_in_polygon_sum:
  "point_in_polygon p ps \<longleftrightarrow> 3 \<le> length ps \<and>
     ((\<exists>(s, e) \<in> set (polygon_edges ps). on_segment s e (real_pt p)) \<or>
      (\<Sum>se \<leftarrow> polygon_edges ps. edge_winding p se) \<noteq> 0)"
  by (auto simp: point_in_polygon_def winding_loop_sum not_less)

lemma edge_winding_left_of:
  "x_nm p < x_nm s \<Longrightarrow> x_nm p < x_nm e \<Longrightarrow> edge_winding p (s, e) = edge_step (y_nm p) (s, e)"
  using orientation_left_of[of p s e] by (auto simp: edge_winding_def edge_step_def)

lemma edge_winding_right_of:
  "x_nm s < x_nm p \<Longrightarrow> x_nm e < x_nm p \<Longrightarrow> edge_winding p (s, e) = 0"
  using orientation_right_of[of s p e] by (auto simp: edge_winding_def)

lemma edge_winding_level:
  "(y_nm s \<le> y_nm p \<longleftrightarrow> y_nm e \<le> y_nm p) \<Longrightarrow> edge_winding p (s, e) = 0"
  by (auto simp: edge_winding_def)

lemma orientation_swap: "orientation e s p = - orientation s e p"
  by (simp add: orientation_def algebra_simps)

lemma edge_winding_swap: "edge_winding p (prod.swap se) = - edge_winding p se"
  using orientation_swap[of "snd se" "fst se" p] by (cases se) (auto simp: edge_winding_def)

lemma on_segment_swap: "on_segment e s (real_pt p) \<longleftrightarrow> on_segment s e (real_pt p)"
  unfolding collinear_on_segment[symmetric] orientation_swap[of e s] point_on_segment_def
  by (auto simp: min.commute max.commute)

text \<open>Whether a point lies in a polygon depends neither on the vertex that the list starts
  with nor on the direction in which the vertices are listed.\<close>

theorem point_in_polygon_symmetric:
  "point_in_polygon p (rotate n ps) = point_in_polygon p ps \<and>
   point_in_polygon p (rev ps) = point_in_polygon p ps"
proof
  have same: "set (cyclic_pairs (rotate n ps)) = set (cyclic_pairs ps)"
    by (metis mset_cyclic_pairs_rotate set_mset_mset)
  show "point_in_polygon p (rotate n ps) = point_in_polygon p ps"
    unfolding point_in_polygon_sum polygon_edges_def same length_rotate
    by (simp only: sum_list_mset_eq[OF mset_cyclic_pairs_rotate])
  have "set (cyclic_pairs (rev ps)) = prod.swap ` set (cyclic_pairs ps)"
    by (metis mset_cyclic_pairs_rev set_mset_mset set_map)
  then have edges: "(\<exists>(s, e) \<in> set (cyclic_pairs (rev ps)). on_segment s e (real_pt p)) \<longleftrightarrow>
      (\<exists>(s, e) \<in> set (cyclic_pairs ps). on_segment s e (real_pt p))"
    by (auto simp: on_segment_swap)
  have "(\<Sum>se \<leftarrow> cyclic_pairs (rev ps). edge_winding p se) =
      - (\<Sum>se \<leftarrow> cyclic_pairs ps. edge_winding p se)"
    by (simp add: sum_list_mset_eq[OF mset_cyclic_pairs_rev] edge_winding_swap
        uminus_sum_list_map comp_def)
  then show "point_in_polygon p (rev ps) = point_in_polygon p ps"
    unfolding point_in_polygon_sum polygon_edges_def edges by simp
qed

lemma accepted_in_bounding_box:
  assumes "point_in_polygon p ps"
  shows "(\<exists>q \<in> set ps. x_nm q \<le> x_nm p) \<and> (\<exists>q \<in> set ps. x_nm p \<le> x_nm q) \<and>
         (\<exists>q \<in> set ps. y_nm q \<le> y_nm p) \<and> (\<exists>q \<in> set ps. y_nm p \<le> y_nm q)"
proof -
  have edge: "s \<in> set ps \<and> e \<in> set ps" if "(s, e) \<in> set (polygon_edges ps)" for s e
    using that cyclic_pairs_set by (simp add: polygon_edges_def)
  from assms consider s e where "(s, e) \<in> set (polygon_edges ps)" "on_segment s e (real_pt p)"
    | "(\<Sum>se \<leftarrow> polygon_edges ps. edge_winding p se) \<noteq> 0"
    by (auto simp: point_in_polygon_sum)
  then show ?thesis
  proof cases
    case 1
    then show ?thesis
      using edge[of s e] by (auto simp: point_on_segment_def min_le_iff_disj le_max_iff_disj simp flip: collinear_on_segment)
  next
    case 2
    have zero: False if "\<forall>(s, e) \<in> set (polygon_edges ps). edge_winding p (s, e) = f (s, e)"
      "(\<Sum>se \<leftarrow> polygon_edges ps. f se) = 0" for f
      using 2 that by (metis (mono_tags, lifting) map_cong case_prod_conv surj_pair)
    have left: "\<exists>q \<in> set ps. x_nm q \<le> x_nm p"
    proof (rule ccontr)
      assume "\<not> ?thesis"
      then show False
        using edge edge_winding_left_of edge_steps_cancel[of "y_nm p" ps]
        by (intro zero[of "edge_step (y_nm p)"]) (auto simp: not_le polygon_edges_def)
    qed
    have flat: "\<exists>(s, e) \<in> set (polygon_edges ps). edge_winding p (s, e) \<noteq> 0"
      using zero[of "\<lambda>_. 0"] by (auto simp: sum_list_0)
    then obtain s e where se: "(s, e) \<in> set (polygon_edges ps)" "edge_winding p (s, e) \<noteq> 0" by blast
    then show ?thesis
      using left edge[of s e] edge_winding_right_of[of s p e] edge_winding_level[of s p e]
      by (metis linorder_not_le order_less_imp_le)
  qed
qed

text \<open>A point that the polygon test accepts lies in the bounding box of the vertices.\<close>

theorem point_in_polygon_bounding_box:
  assumes "point_in_polygon p ps"
  shows "(\<exists>q \<in> set ps. x_nm q \<le> x_nm p) \<and> (\<exists>q \<in> set ps. x_nm p \<le> x_nm q) \<and>
         (\<exists>q \<in> set ps. y_nm q \<le> y_nm p) \<and> (\<exists>q \<in> set ps. y_nm p \<le> y_nm q)"
  using assms by (rule accepted_in_bounding_box)

theorem point_in_polygon_bounding_box_witness:
  "point_in_polygon \<lparr>x_nm = 1, y_nm = 2\<rparr>
     [\<lparr>x_nm = 0, y_nm = 0\<rparr>, \<lparr>x_nm = 4, y_nm = 0\<rparr>, \<lparr>x_nm = 0, y_nm = 4\<rparr>] \<and>
   (\<exists>q \<in> set [\<lparr>x_nm = 0, y_nm = 0\<rparr>, \<lparr>x_nm = 4, y_nm = 0\<rparr>, \<lparr>x_nm = 0, y_nm = 4\<rparr>]. x_nm q \<le> 1)"
proof -
  have *: "point_in_polygon \<lparr>x_nm = 1, y_nm = 2\<rparr>
     [\<lparr>x_nm = 0, y_nm = 0\<rparr>, \<lparr>x_nm = 4, y_nm = 0\<rparr>, \<lparr>x_nm = 0, y_nm = 4\<rparr>]"
    by (simp add: point_in_polygon_def polygon_edges_def cyclic_pairs_def orientation_def point_on_segment_def)
  show ?thesis using * point_in_polygon_bounding_box[OF *] by simp
qed


section \<open>The rectangular board\<close>

lemma twice_abs_less: "0 \<le> d \<Longrightarrow> 2 * \<bar>k\<bar> < d \<longleftrightarrow> near False d ((of_int k)\<^sup>2)"
proof -
  assume d: "0 \<le> d"
  have "2 * \<bar>k\<bar> < d \<longleftrightarrow> 2 * \<bar>real_of_int k\<bar> < of_int d" by linarith
  then show ?thesis
    using abs_le_square_iff[of "real_of_int d" "2 * real_of_int k"] d
    by (auto simp: near_def power_mult_distrib abs_mult not_le[symmetric])
qed

text \<open>A point above or below an axis-parallel segment: the distance is the offset.\<close>

lemma axis_parallel_edge:
  assumes "0 \<le> d"
  shows "y_nm s = y_nm e \<Longrightarrow> x_nm s \<noteq> x_nm e \<Longrightarrow>
      min (x_nm s) (x_nm e) \<le> x_nm p \<Longrightarrow> x_nm p \<le> max (x_nm s) (x_nm e) \<Longrightarrow>
      point_segment_closer_than p s e d \<longleftrightarrow> 2 * \<bar>y_nm p - y_nm s\<bar> < d" (is "_ \<Longrightarrow> _ \<Longrightarrow> _ \<Longrightarrow> _ \<Longrightarrow> ?h")
    and "x_nm s = x_nm e \<Longrightarrow> y_nm s \<noteq> y_nm e \<Longrightarrow>
      min (y_nm s) (y_nm e) \<le> y_nm p \<Longrightarrow> y_nm p \<le> max (y_nm s) (y_nm e) \<Longrightarrow>
      point_segment_closer_than p s e d \<longleftrightarrow> 2 * \<bar>x_nm p - x_nm s\<bar> < d" (is "_ \<Longrightarrow> _ \<Longrightarrow> _ \<Longrightarrow> _ \<Longrightarrow> ?v")
proof -
  have pick: "\<exists>t. 0 \<le> t \<and> t \<le> 1 \<and> real_of_int (c - a) = t * of_int (b - a)"
    if "a \<noteq> b" "min a b \<le> c" "c \<le> max a b" for a b c :: int
  proof (intro exI conjI)
    let ?t = "real_of_int (c - a) / of_int (b - a)"
    show "real_of_int (c - a) = ?t * of_int (b - a)" using that by simp
    show "0 \<le> ?t" "?t \<le> 1" using that by (cases "a < b"; simp add: divide_simps)+
  qed
  show ?h if ends: "y_nm s = y_nm e" "x_nm s \<noteq> x_nm e" "min (x_nm s) (x_nm e) \<le> x_nm p" "x_nm p \<le> max (x_nm s) (x_nm e)"
  proof
    assume "point_segment_closer_than p s e d"
    then obtain t where "near False d (dist_sq (real_pt p) (seg_at s e t))"
      using assms by (auto simp: point_segment_closer_than_def point_segment_compare_iff)
    moreover have "(of_int (y_nm p - y_nm s))\<^sup>2 \<le> dist_sq (real_pt p) (seg_at s e t)"
      using that by (simp add: dist_sq_seg_at)
    ultimately show "2 * \<bar>y_nm p - y_nm s\<bar> < d" using assms twice_abs_less near_mono by blast
  next
    assume l: "2 * \<bar>y_nm p - y_nm s\<bar> < d"
    obtain t where "0 \<le> t" "t \<le> 1" "real_of_int (x_nm p - x_nm s) = t * of_int (x_nm e - x_nm s)"
      using pick[OF ends(2-4)] by blast
    moreover from this have "dist_sq (real_pt p) (seg_at s e t) = (of_int (y_nm p - y_nm s))\<^sup>2"
      using that by (simp add: dist_sq_seg_at)
    ultimately show "point_segment_closer_than p s e d"
      using assms l twice_abs_less by (metis point_segment_closer_than_def point_segment_compare_iff)
  qed
  show ?v if ends: "x_nm s = x_nm e" "y_nm s \<noteq> y_nm e" "min (y_nm s) (y_nm e) \<le> y_nm p" "y_nm p \<le> max (y_nm s) (y_nm e)"
  proof
    assume "point_segment_closer_than p s e d"
    then obtain t where "near False d (dist_sq (real_pt p) (seg_at s e t))"
      using assms by (auto simp: point_segment_closer_than_def point_segment_compare_iff)
    moreover have "(of_int (x_nm p - x_nm s))\<^sup>2 \<le> dist_sq (real_pt p) (seg_at s e t)"
      using that by (simp add: dist_sq_seg_at)
    ultimately show "2 * \<bar>x_nm p - x_nm s\<bar> < d" using assms twice_abs_less near_mono by blast
  next
    assume l: "2 * \<bar>x_nm p - x_nm s\<bar> < d"
    obtain t where "0 \<le> t" "t \<le> 1" "real_of_int (y_nm p - y_nm s) = t * of_int (y_nm e - y_nm s)"
      using pick[OF ends(2-4)] by blast
    moreover from this have "dist_sq (real_pt p) (seg_at s e t) = (of_int (x_nm p - x_nm s))\<^sup>2"
      using that by (simp add: dist_sq_seg_at)
    ultimately show "point_segment_closer_than p s e d"
      using assms l twice_abs_less by (metis point_segment_closer_than_def point_segment_compare_iff)
  qed
qed

lemma rectangle_edges:
  "polygon_edges [a, b, c, d] = [(a, b), (b, c), (c, d), (d, a)]"
  by (simp add: polygon_edges_def cyclic_pairs_def)

lemma in_rectangle:
  assumes "0 < w" "0 < h"
  shows "point_in_polygon p [\<lparr>x_nm = 0, y_nm = 0\<rparr>, \<lparr>x_nm = w, y_nm = 0\<rparr>, \<lparr>x_nm = w, y_nm = h\<rparr>,
      \<lparr>x_nm = 0, y_nm = h\<rparr>] \<longleftrightarrow> 0 \<le> x_nm p \<and> x_nm p \<le> w \<and> 0 \<le> y_nm p \<and> y_nm p \<le> h"
    (is "point_in_polygon p ?ps \<longleftrightarrow> ?box")
proof
  assume "point_in_polygon p ?ps"
  from accepted_in_bounding_box[OF this] show ?box using assms by auto
next
  assume box: ?box
  have "\<not> h * x_nm p < 0" using assms box by (auto simp: mult_less_0_iff)
  then show "point_in_polygon p ?ps"
    using assms box unfolding point_in_polygon_def rectangle_edges
    by (auto simp: orientation_def point_on_segment_def algebra_simps)
qed

text \<open>On a board without outline and cutouts, the placement test for a disc is the test that the
  disc lies inside the board rectangle.\<close>

theorem point_inside_rectangular_board:
  assumes "length (outline b) < 3" "cutouts b = []" "0 < board_width_nm b" "0 < board_height_nm b"
    and "0 \<le> d"
  shows "point_inside_board b p d \<longleftrightarrow>
    d \<le> 2 * x_nm p \<and> 2 * x_nm p \<le> 2 * board_width_nm b - d \<and>
    d \<le> 2 * y_nm p \<and> 2 * y_nm p \<le> 2 * board_height_nm b - d"
proof -
  let ?w = "board_width_nm b" and ?h = "board_height_nm b"
  have "\<not> point_polygon_closer_than p (effective_outline b) d \<longleftrightarrow>
      \<not> 2 * \<bar>y_nm p\<bar> < d \<and> \<not> 2 * \<bar>x_nm p - ?w\<bar> < d \<and> \<not> 2 * \<bar>y_nm p - ?h\<bar> < d \<and> \<not> 2 * \<bar>x_nm p\<bar> < d"
    if "0 \<le> x_nm p" "x_nm p \<le> ?w" "0 \<le> y_nm p" "y_nm p \<le> ?h"
    using assms that
    by (simp add: effective_outline_def point_polygon_closer_than_def rectangle_edges axis_parallel_edge)
  moreover have "point_in_polygon p (effective_outline b) \<longleftrightarrow>
      0 \<le> x_nm p \<and> x_nm p \<le> ?w \<and> 0 \<le> y_nm p \<and> y_nm p \<le> ?h"
    using assms in_rectangle by (simp add: effective_outline_def)
  ultimately show ?thesis
    using assms by (auto simp: point_inside_board_def Let_def)
qed

theorem point_inside_rectangular_board_witness:
  "point_inside_board blank_board \<lparr>x_nm = 300000, y_nm = 700000\<rparr> 600000 \<and>
   \<not> point_inside_board blank_board \<lparr>x_nm = 299999, y_nm = 700000\<rparr> 600000"
  using point_inside_rectangular_board[of blank_board 600000 "\<lparr>x_nm = 300000, y_nm = 700000\<rparr>"]
    point_inside_rectangular_board[of blank_board 600000 "\<lparr>x_nm = 299999, y_nm = 700000\<rparr>"]
  by (simp add: blank_board_def)

section \<open>The clearance tests\<close>

text \<open>C14: The clearance tests between two track centre lines are exact: for a non-negative doubled
  distance they hold just when some pair of points of the two segments in the real plane is closer
  than half of it (or at most that far apart, for the inclusive test).\<close>

theorem segment_clearance_exact:
  assumes "0 \<le> D"
  shows "(segments_closer_than a b c d D \<longleftrightarrow>
            (\<exists>p q. on_segment a b p \<and> on_segment c d q \<and> 4 * dist_sq p q < (of_int D)\<^sup>2)) \<and>
         (segments_within a b c d D \<longleftrightarrow>
            (\<exists>p q. on_segment a b p \<and> on_segment c d q \<and> 4 * dist_sq p q \<le> (of_int D)\<^sup>2))"
  using segment_compare_iff[OF assms]
  by (simp add: segments_closer_than_def segments_within_def near_def)

theorem segment_clearance_exact_witness:
  "\<not> (\<exists>p q. on_segment \<lparr>x_nm = 0, y_nm = 0\<rparr> \<lparr>x_nm = 10, y_nm = 0\<rparr> p \<and>
        on_segment \<lparr>x_nm = 3, y_nm = 5\<rparr> \<lparr>x_nm = 7, y_nm = 9\<rparr> q \<and> 4 * dist_sq p q < 10\<^sup>2)"
proof -
  have "\<not> segments_closer_than \<lparr>x_nm = 0, y_nm = 0\<rparr> \<lparr>x_nm = 10, y_nm = 0\<rparr>
      \<lparr>x_nm = 3, y_nm = 5\<rparr> \<lparr>x_nm = 7, y_nm = 9\<rparr> 10"
    by (simp add: segments_closer_than_def segment_compare_def segments_intersect_def
        orientation_def point_on_segment_def point_segment_compare_def compare_ratio_def)
  then show ?thesis
    using segment_clearance_exact[of 10 "\<lparr>x_nm = 0, y_nm = 0\<rparr>" "\<lparr>x_nm = 10, y_nm = 0\<rparr>"
        "\<lparr>x_nm = 3, y_nm = 5\<rparr>" "\<lparr>x_nm = 7, y_nm = 9\<rparr>"] by simp
qed

text \<open>The clearance tests between a point and a track centre line are exact in the same sense.\<close>

theorem point_segment_clearance_exact:
  assumes "0 \<le> D"
  shows "(point_segment_closer_than p s e D \<longleftrightarrow>
            (\<exists>q. on_segment s e q \<and> 4 * dist_sq (real_pt p) q < (of_int D)\<^sup>2)) \<and>
         (point_segment_within p s e D \<longleftrightarrow>
            (\<exists>q. on_segment s e q \<and> 4 * dist_sq (real_pt p) q \<le> (of_int D)\<^sup>2))"
  using point_segment_compare_near[OF assms]
  by (simp add: point_segment_closer_than_def point_segment_within_def near_def)

theorem point_segment_clearance_exact_witness:
  "\<exists>q. on_segment \<lparr>x_nm = 0, y_nm = 0\<rparr> \<lparr>x_nm = 8, y_nm = 6\<rparr> q \<and>
     4 * dist_sq (real_pt \<lparr>x_nm = 1, y_nm = 7\<rparr>) q \<le> 10\<^sup>2"
proof -
  have "point_segment_within \<lparr>x_nm = 1, y_nm = 7\<rparr> \<lparr>x_nm = 0, y_nm = 0\<rparr> \<lparr>x_nm = 8, y_nm = 6\<rparr> 10"
    by (simp add: point_segment_within_def point_segment_compare_def compare_ratio_def)
  then show ?thesis
    using point_segment_clearance_exact[of 10 "\<lparr>x_nm = 1, y_nm = 7\<rparr>" "\<lparr>x_nm = 0, y_nm = 0\<rparr>"
        "\<lparr>x_nm = 8, y_nm = 6\<rparr>"] by simp
qed

text \<open>The intersection test by orientation signs decides whether two segments of the real
  plane have a common point, in every degenerate case too.\<close>

theorem segments_intersect_exact:
  "segments_intersect a b c d \<longleftrightarrow> (\<exists>q. on_segment a b q \<and> on_segment c d q)"
  unfolding segments_intersect_iff segments_meet_def ..

end
