(* ===== verification/ResourceLimits.thy ===== *)
theory ResourceLimits
  imports Geometry
begin

text \<open>
  The resource validation of \<open>crates/pcbex-core/src/resource_limits.rs\<close>, which every routing
  and checking entry point runs before it rasterises or compares anything: coordinate and
  magnitude bounds, polygon and topology accounting, grid and raster-window estimates, existing
  routes and copper zones. Counters are \<open>u128\<close> in the code: naturals with checked addition and
  multiplication here. An error keeps the resource, the limit and the unit of the code's message.
\<close>

section \<open>Limits and errors\<close>

definition MAX_BOARD_EXTENT_NM :: nm where "MAX_BOARD_EXTENT_NM = 1000000000"
definition MAX_PLANE_GRID_CELLS :: nat where "MAX_PLANE_GRID_CELLS = 1000000"
definition MAX_CELL_LAYER_SLOTS :: nat where "MAX_CELL_LAYER_SLOTS = 2000000"
definition MAX_RASTER_CANDIDATE_VISITS :: nat where "MAX_RASTER_CANDIDATE_VISITS = 10000000"
definition MAX_INFLATE_RADIUS_CELLS :: nat where "MAX_INFLATE_RADIUS_CELLS = 128"
definition MAX_POLYGON_VERTICES :: nat where "MAX_POLYGON_VERTICES = 4096"
definition MAX_TOTAL_POLYGON_VERTICES :: nat where "MAX_TOTAL_POLYGON_VERTICES = 65536"
definition MAX_ZONE_CANDIDATE_CELLS :: nat where "MAX_ZONE_CANDIDATE_CELLS = 524288"
definition MAX_RASTER_LINE_CELLS :: nat where "MAX_RASTER_LINE_CELLS = 1000000"
definition MAX_TOPOLOGY_EDGE_PAIR_WORK :: nat where "MAX_TOPOLOGY_EDGE_PAIR_WORK = 8500000"
definition MAX_RASTER_GEOMETRY_EDGE_WORK :: nat where "MAX_RASTER_GEOMETRY_EDGE_WORK = 50000000"
definition MAX_ZONE_BLOCKER_WORK :: nat where "MAX_ZONE_BLOCKER_WORK = 50000000"

lemmas production_maxima = MAX_BOARD_EXTENT_NM_def MAX_PLANE_GRID_CELLS_def
  MAX_CELL_LAYER_SLOTS_def MAX_RASTER_CANDIDATE_VISITS_def MAX_INFLATE_RADIUS_CELLS_def
  MAX_POLYGON_VERTICES_def MAX_TOTAL_POLYGON_VERTICES_def MAX_ZONE_CANDIDATE_CELLS_def
  MAX_RASTER_LINE_CELLS_def MAX_TOPOLOGY_EDGE_PAIR_WORK_def MAX_RASTER_GEOMETRY_EDGE_WORK_def
  MAX_ZONE_BLOCKER_WORK_def

record resource_limits =
  max_board_extent_nm :: nm
  max_plane_grid_cells :: nat
  max_cell_layer_slots :: nat
  max_raster_candidate_visits :: nat
  max_inflate_radius_cells :: nat
  max_polygon_vertices :: nat
  max_total_polygon_vertices :: nat
  max_zone_candidate_cells :: nat
  max_raster_line_cells :: nat
  max_topology_edge_pair_work :: nat
  max_raster_geometry_edge_work :: nat
  max_zone_blocker_work :: nat

definition PRODUCTION :: resource_limits where
  "PRODUCTION =
     \<lparr>max_board_extent_nm = MAX_BOARD_EXTENT_NM,
      max_plane_grid_cells = MAX_PLANE_GRID_CELLS,
      max_cell_layer_slots = MAX_CELL_LAYER_SLOTS,
      max_raster_candidate_visits = MAX_RASTER_CANDIDATE_VISITS,
      max_inflate_radius_cells = MAX_INFLATE_RADIUS_CELLS,
      max_polygon_vertices = MAX_POLYGON_VERTICES,
      max_total_polygon_vertices = MAX_TOTAL_POLYGON_VERTICES,
      max_zone_candidate_cells = MAX_ZONE_CANDIDATE_CELLS,
      max_raster_line_cells = MAX_RASTER_LINE_CELLS,
      max_topology_edge_pair_work = MAX_TOPOLOGY_EDGE_PAIR_WORK,
      max_raster_geometry_edge_work = MAX_RASTER_GEOMETRY_EDGE_WORK,
      max_zone_blocker_work = MAX_ZONE_BLOCKER_WORK\<rparr>"

datatype limit_error =
    Resource_Error string int string
  | Checked_Coordinate string
  | Limit_Configuration string int

definition checked_add_u128 :: "nat \<Rightarrow> nat \<Rightarrow> nat option" where
  "checked_add_u128 x y = (if x + y < 2 ^ 128 then Some (x + y) else None)"

definition checked_mul_u128 :: "nat \<Rightarrow> nat \<Rightarrow> nat option" where
  "checked_mul_u128 x y = (if x * y < 2 ^ 128 then Some (x * y) else None)"

definition try_u128 :: "int \<Rightarrow> nat option" where
  "try_u128 x = (if x < 0 then None else Some (nat x))"

definition check_limit :: "nat \<Rightarrow> nat \<Rightarrow> string \<Rightarrow> string \<Rightarrow> limit_error + unit" where
  "check_limit actual limit resource unit_name =
     (if actual > limit then Inl (Resource_Error resource (int limit) unit_name) else Inr ())"

text \<open>\<open>iter.try_fold(0, checked_add)\<close> and \<open>checked_work_product\<close>.\<close>

fun checked_sum_list :: "nat list \<Rightarrow> nat \<Rightarrow> nat option" where
  "checked_sum_list [] acc = Some acc"
| "checked_sum_list (x # xs) acc = Option.bind (checked_add_u128 acc x) (checked_sum_list xs)"

definition checked_work_product ::
    "nat list \<Rightarrow> string \<Rightarrow> nat \<Rightarrow> string \<Rightarrow> limit_error + nat" where
  "checked_work_product values resource limit unit_name =
     fold_result (\<lambda>v total. ok_or (Resource_Error resource (int limit) unit_name) (checked_mul_u128 total v))
       values 1"

section \<open>Coordinates and magnitudes\<close>

definition validate_coordinate :: "nm \<Rightarrow> point \<Rightarrow> limit_error + unit" where
  "validate_coordinate max_extent p =
     (if \<bar>x_nm p\<bar> > max_extent \<or> \<bar>y_nm p\<bar> > max_extent
      then Inl (Resource_Error ''absolute_board_coordinate_nm'' max_extent ''nm'')
      else Inr ())"

definition validate_magnitude :: "nm \<Rightarrow> nm \<Rightarrow> limit_error + unit" where
  "validate_magnitude max_extent v =
     (if \<bar>v\<bar> > max_extent then Inl (Resource_Error ''numeric_nm_domain'' max_extent ''nm'') else Inr ())"

definition route_points :: "route \<Rightarrow> point list" where
  "route_points r =
     concat (map (\<lambda>s. [seg_start s, seg_end s]) (segments r)) @
     concat (map (\<lambda>a. [arc_start a, arc_mid a, arc_end a]) (arcs r)) @
     map via_position (vias r) @
     concat (map teardrop_polygon (teardrops r)) @
     concat (map (\<lambda>z. zone_polygon z @ concat (filled_polygons z)) (zones r))"

definition board_points :: "board \<Rightarrow> point list" where
  "board_points b =
     outline b @ concat (cutouts b) @
     concat (map (\<lambda>ob. [min_pt ob, max_pt ob]) (obstacles b)) @
     map round_center (round_obstacles b) @
     concat (map (\<lambda>ob. [capsule_start ob, capsule_end ob]) (capsule_obstacles b)) @
     concat (map obstacle_polygon (polygon_obstacles b)) @
     concat (map keepout_polygon (keepouts b)) @
     concat (map (\<lambda>f. footprint_position f #
        concat (map (\<lambda>p. pad_position p # custom_polygon p) (pads f))) (footprints b)) @
     concat (map (\<lambda>n. map position_nm (terminals n)) (nets b)) @
     concat (map route_points (routes b))"

definition board_polygons :: "board \<Rightarrow> point list list" where
  "board_polygons b =
     [outline b] @ cutouts b @
     map obstacle_polygon (polygon_obstacles b) @
     map keepout_polygon (keepouts b) @
     concat (map (\<lambda>f. map custom_polygon (pads f)) (footprints b)) @
     concat (map (\<lambda>r. map teardrop_polygon (teardrops r) @
        concat (map (\<lambda>z. zone_polygon z # filled_polygons z) (zones r))) (routes b))"

definition or_zero :: "nm option \<Rightarrow> nm" where
  "or_zero v = (case v of None \<Rightarrow> 0 | Some x \<Rightarrow> x)"

definition optional :: "nm option \<Rightarrow> nm list" where
  "optional v = (case v of None \<Rightarrow> [] | Some x \<Rightarrow> [x])"

definition rule_dimensions :: "board \<Rightarrow> nm list" where
  "rule_dimensions b =
     (let r = rules_of b in
      [board_width_nm b, board_height_nm b, grid_nm r, track_width_nm r, clearance_nm r,
       via_diameter_nm r, via_drill_nm r] @
      concat (map (\<lambda>c. [class_track_width_nm c, class_clearance_nm c, class_via_diameter_nm c,
          class_via_drill_nm c, or_zero (differential_width_nm c), or_zero (differential_gap_nm c),
          or_zero (class_minimum_length_nm c), or_zero (class_maximum_length_nm c)])
        (map snd (net_classes b))))"

definition pad_dimensions :: "pad \<Rightarrow> nm list" where
  "pad_dimensions p =
     [pad_width_nm p, pad_height_nm p, source_width_nm p, source_height_nm p,
      roundrect_radius_nm p, trapezoid_delta_x_nm p, trapezoid_delta_y_nm p,
      or_zero (drill_width_nm p), or_zero (drill_height_nm p),
      drill_offset_x_nm p, drill_offset_y_nm p]"

definition route_dimensions :: "route \<Rightarrow> nm list" where
  "route_dimensions r =
     map width_nm (segments r) @ map arc_width_nm (arcs r) @
     concat (map (\<lambda>v. [diameter_nm v, drill_nm v]) (vias r)) @
     concat (map (\<lambda>z. [zone_clearance_nm z, minimum_thickness_nm z, thermal_gap_nm z,
        thermal_spoke_width_nm z]) (zones r))"

definition constraint_dimensions :: "board \<Rightarrow> nm list" where
  "constraint_dimensions b =
     concat (map (\<lambda>g. fanout_distance_nm g # optional (via_grid_nm g)) (escape_groups b)) @
     concat (map (\<lambda>r. max_via_distance_nm r # optional (plane_sample_spacing_nm r))
       (return_path_rules b)) @
     concat (map (\<lambda>l. dielectric_height_nm l # copper_thickness_nm l #
       optional (secondary_dielectric_height_nm l)) (stackup b)) @
     (case manufacturing_rules_of b of None \<Rightarrow> []
      | Some m \<Rightarrow> [mfg_minimum_track_width_nm m, mfg_minimum_clearance_nm m, minimum_drill_nm m,
          minimum_annular_ring_nm m, minimum_copper_to_edge_nm m, board_thickness_nm m,
          minimum_drill_to_drill_nm m]) @
     concat (map (\<lambda>p. [gap_nm p, gap_tolerance_nm p, pair_max_skew_nm p,
       or_zero (pair_minimum_length_nm p), or_zero (pair_tuning_amplitude_nm p),
       or_zero (pair_tuning_pitch_nm p)]) (differential_pairs b)) @
     concat (map (\<lambda>g. [group_max_skew_nm g, or_zero (tuning_amplitude_nm g),
       or_zero (tuning_pitch_nm g)]) (length_groups b))"

definition board_dimensions :: "board \<Rightarrow> nm list" where
  "board_dimensions b =
     rule_dimensions b @
     map round_diameter_nm (round_obstacles b) @
     map capsule_diameter_nm (capsule_obstacles b) @
     concat (map (\<lambda>k. [or_zero (minimum_track_width_nm k), or_zero (minimum_clearance_nm k)])
       (keepouts b)) @
     concat (map (\<lambda>f. concat (map pad_dimensions (pads f))) (footprints b)) @
     concat (map route_dimensions (routes b)) @
     constraint_dimensions b"

section \<open>Polygon and topology accounting\<close>

record polygon_accounting =
  total_vertices :: nat
  pair_work :: nat

definition empty_accounting :: polygon_accounting where
  "empty_accounting = \<lparr>total_vertices = 0, pair_work = 0\<rparr>"

definition pairs_error :: "resource_limits \<Rightarrow> limit_error" where
  "pairs_error lims =
     Resource_Error ''topology_edge_pair_work'' (int (max_topology_edge_pair_work lims)) ''pairs''"

definition check_pairs :: "resource_limits \<Rightarrow> nat \<Rightarrow> limit_error + unit" where
  "check_pairs lims w =
     check_limit w (max_topology_edge_pair_work lims) ''topology_edge_pair_work'' ''pairs''"

definition choose_two_u128 :: "resource_limits \<Rightarrow> nat \<Rightarrow> limit_error + nat" where
  "choose_two_u128 lims n =
     ok_or (pairs_error lims) (map_option (\<lambda>v. v div 2) (checked_mul_u128 n (n - 1)))"

definition choose_two :: "resource_limits \<Rightarrow> nat \<Rightarrow> limit_error + nat" where
  "choose_two lims n = choose_two_u128 lims n"

definition checked_product :: "resource_limits \<Rightarrow> nat \<Rightarrow> nat \<Rightarrow> limit_error + nat" where
  "checked_product lims x y = ok_or (pairs_error lims) (checked_mul_u128 x y)"

definition checked_sum :: "resource_limits \<Rightarrow> nat \<Rightarrow> nat \<Rightarrow> limit_error + nat" where
  "checked_sum lims x y = ok_or (pairs_error lims) (checked_add_u128 x y)"

definition add_pair_work ::
    "resource_limits \<Rightarrow> nat \<Rightarrow> polygon_accounting \<Rightarrow> limit_error + polygon_accounting" where
  "add_pair_work lims work acc =
     bind_result (ok_or (pairs_error lims) (checked_add_u128 (pair_work acc) work)) (\<lambda>w.
     bind_result (check_pairs lims w) (\<lambda>_.
     Inr (acc\<lparr>pair_work := w\<rparr>)))"

definition add_polygon ::
    "resource_limits \<Rightarrow> point list \<Rightarrow> polygon_accounting \<Rightarrow> limit_error + polygon_accounting" where
  "add_polygon lims polygon acc =
     (let vertices = length polygon;
          total_error = Resource_Error ''total_polygon_vertices''
            (int (max_total_polygon_vertices lims)) ''vertices''
      in
     bind_result (check_limit vertices (max_polygon_vertices lims) ''polygon_vertices'' ''vertices'') (\<lambda>_.
     bind_result (ok_or total_error (checked_add_u128 (total_vertices acc) vertices)) (\<lambda>total.
     bind_result (check_limit total (max_total_polygon_vertices lims)
       ''total_polygon_vertices'' ''vertices'') (\<lambda>_.
     bind_result (ok_or (pairs_error lims)
       (map_option (\<lambda>v. v div 2) (checked_mul_u128 vertices (vertices - 1)))) (\<lambda>pairs.
     bind_result (ok_or (pairs_error lims) (checked_add_u128 (pair_work acc) pairs)) (\<lambda>w.
     bind_result (check_pairs lims w) (\<lambda>_.
     Inr (acc\<lparr>total_vertices := total, pair_work := w\<rparr>))))))))"

text \<open>The work of one route with itself, and of two routes with each other.\<close>

definition route_self_work ::
    "resource_limits \<Rightarrow> board \<Rightarrow> route \<Rightarrow> polygon_accounting \<Rightarrow> limit_error + polygon_accounting" where
  "route_self_work lims b r acc =
     (let segs = length (segments r); vs = length (vias r); zs = length (zones r) in
     bind_result (choose_two lims segs) (\<lambda>segment_pairs.
     bind_result (choose_two lims vs) (\<lambda>via_pairs.
     bind_result (checked_product lims segs vs) (\<lambda>segment_vias.
     bind_result (checked_sum lims segment_pairs segment_vias) (\<lambda>partial.
     bind_result (checked_sum lims partial via_pairs) (\<lambda>self_work.
     bind_result (add_pair_work lims self_work acc) (\<lambda>acc.
     bind_result
       (if (case manufacturing_rules_of b of None \<Rightarrow> False
            | Some m \<Rightarrow> minimum_trace_angle_deg m > 0)
        then add_pair_work lims segment_pairs acc else Inr acc) (\<lambda>acc.
     bind_result (checked_sum lims segs vs) (\<lambda>items.
     bind_result (checked_product lims zs items) (\<lambda>zone_work.
     add_pair_work lims zone_work acc))))))))))"

definition route_cross_work ::
    "resource_limits \<Rightarrow> board \<Rightarrow> route \<Rightarrow> route \<Rightarrow> polygon_accounting \<Rightarrow>
       limit_error + polygon_accounting" where
  "route_cross_work lims b r other acc =
     (let segs = length (segments r); vs = length (vias r);
          other_segs = length (segments other); other_vias = length (vias other) in
     bind_result (checked_product lims segs other_segs) (\<lambda>ss.
     bind_result (checked_product lims segs other_vias) (\<lambda>sv.
     bind_result (checked_sum lims ss sv) (\<lambda>left.
     bind_result (checked_product lims vs other_segs) (\<lambda>vseg.
     bind_result (checked_product lims vs other_vias) (\<lambda>vv.
     bind_result (checked_sum lims vseg vv) (\<lambda>right.
     bind_result (checked_sum lims left right) (\<lambda>cross.
     bind_result (add_pair_work lims cross acc) (\<lambda>acc.
     if manufacturing_rules_of b \<noteq> None then add_pair_work lims cross acc else Inr acc)))))))))"

fun routes_work ::
    "resource_limits \<Rightarrow> board \<Rightarrow> route list \<Rightarrow> polygon_accounting \<Rightarrow>
       limit_error + polygon_accounting" where
  "routes_work lims b [] acc = Inr acc"
| "routes_work lims b (r # rs) acc =
     bind_result (route_self_work lims b r acc) (\<lambda>acc.
     bind_result (fold_result (route_cross_work lims b r) rs acc) (routes_work lims b rs))"

definition positive_option :: "nm option \<Rightarrow> bool" where
  "positive_option v = (case v of None \<Rightarrow> False | Some x \<Rightarrow> x > 0)"

definition check_topology_work ::
    "resource_limits \<Rightarrow> board \<Rightarrow> polygon_accounting \<Rightarrow> limit_error + polygon_accounting" where
  "check_topology_work lims b acc =
     bind_result (routes_work lims b (routes b) acc) (\<lambda>acc.
     if manufacturing_rules_of b = None then Inr acc
     else
       bind_result (ok_or (pairs_error lims)
         (checked_sum_list (map (\<lambda>r. length (vias r)) (routes b)) 0)) (\<lambda>via_count.
       let pad_count = length (filter (\<lambda>p. positive_option (drill_width_nm p) \<and>
             positive_option (drill_height_nm p)) (concat (map pads (footprints b))))
       in
       bind_result (checked_sum lims via_count pad_count) (\<lambda>drilled_holes.
       bind_result (choose_two_u128 lims drilled_holes) (\<lambda>pairs.
       add_pair_work lims pairs acc))))"


section \<open>Grid, windows and inflation radii\<close>

definition axis_cells :: "nm \<Rightarrow> nm \<Rightarrow> limit_error + nat" where
  "axis_cells dimension grid =
     ok_or (Resource_Error ''plane_grid_cells'' (int MAX_PLANE_GRID_CELLS) ''cells'')
       (try_u128 (dimension sdiv grid + 1))"

definition radius_error :: limit_error where
  "radius_error = Resource_Error ''inflate_radius_cells'' (int MAX_INFLATE_RADIUS_CELLS) ''cells''"

definition ceil_div :: "int \<Rightarrow> int \<Rightarrow> limit_error + nat" where
  "ceil_div value divisor =
     (if value < 0 \<or> divisor \<le> 0 then Inl radius_error
      else ok_or radius_error (try_u128 ((value + divisor - 1) sdiv divisor)))"

definition check_radius :: "int \<Rightarrow> int \<Rightarrow> nat \<Rightarrow> limit_error + unit" where
  "check_radius value grid limit =
     (if value < 0 \<or> grid \<le> 0 then Inr ()
      else bind_result (ceil_div value grid) (\<lambda>cells.
        check_limit cells limit ''inflate_radius_cells'' ''cells''))"

text \<open>
  The envelope of this module, unlike \<^const>\<open>maximum_routing_envelope\<close>, ignores dimensions that
  are not positive.
\<close>

definition grow_diameter :: "nm \<Rightarrow> int \<Rightarrow> int" where
  "grow_diameter v d = (if v > 0 then max d v else d)"

definition limits_routing_envelope :: "board \<Rightarrow> int \<times> int" where
  "limits_routing_envelope b =
     (let r = rules_of b;
          d = grow_diameter (via_diameter_nm r) (grow_diameter (track_width_nm r) 0);
          c = (if clearance_nm r \<ge> 0 then clearance_nm r else 0)
      in foldl (\<lambda>(d, c) k.
           (grow_diameter (class_via_diameter_nm k) (grow_diameter (class_track_width_nm k) d),
            if class_clearance_nm k \<ge> 0 then max c (class_clearance_nm k) else c))
           (d, c) (map snd (net_classes b)))"

definition checked_add :: "int \<Rightarrow> int \<Rightarrow> string \<Rightarrow> limit_error + int" where
  "checked_add l r resource = ok_or (Checked_Coordinate resource) (checked_i128 (l + r))"

definition window_error :: "nat \<Rightarrow> limit_error" where
  "window_error limit = Resource_Error ''raster_window_cells'' (int limit) ''cells''"

definition window_axis :: "nat \<Rightarrow> int \<Rightarrow> int \<Rightarrow> int \<Rightarrow> limit_error + int" where
  "window_axis limit grid lo hi =
     ok_or (window_error limit)
       (Option.bind (checked_i128 (hi sdiv grid - lo sdiv grid)) (\<lambda>v. checked_i128 (v + 1)))"

definition window_cells ::
    "int \<Rightarrow> int \<Rightarrow> int \<Rightarrow> int \<Rightarrow> nm \<Rightarrow> nm \<Rightarrow> nm \<Rightarrow> nat \<Rightarrow> limit_error + nat" where
  "window_cells min_x max_x min_y max_y grid board_width board_height limit =
     (if grid \<le> 0 \<or> board_width \<le> 0 \<or> board_height \<le> 0 then Inr 0
      else
        let min_x = max min_x 0;
            max_x = min max_x board_width;
            min_y = max min_y 0;
            max_y = min max_y board_height
        in
        if min_x > max_x \<or> min_y > max_y then Inr 0
        else
          bind_result (window_axis limit grid min_x max_x) (\<lambda>x_cells.
          bind_result (window_axis limit grid min_y max_y) (\<lambda>y_cells.
          bind_result (ok_or (window_error limit) (try_u128 x_cells)) (\<lambda>x_cells.
          bind_result (ok_or (window_error limit) (try_u128 y_cells)) (\<lambda>y_cells.
          ok_or (window_error limit) (checked_mul_u128 x_cells y_cells))))))"

definition visits_error :: "resource_limits \<Rightarrow> limit_error" where
  "visits_error lims =
     Resource_Error ''raster_candidate_visits'' (int (max_raster_candidate_visits lims)) ''visits''"

definition edges_error :: "resource_limits \<Rightarrow> limit_error" where
  "edges_error lims = Resource_Error ''raster_geometry_edge_work''
     (int (max_raster_geometry_edge_work lims)) ''edge-visits''"

definition add_raster_work :: "resource_limits \<Rightarrow> nat \<Rightarrow> nat \<Rightarrow> limit_error + nat" where
  "add_raster_work lims visits acc =
     bind_result (ok_or (visits_error lims) (checked_add_u128 acc visits)) (\<lambda>acc.
     bind_result (check_limit acc (max_raster_candidate_visits lims)
       ''raster_candidate_visits'' ''visits'') (\<lambda>_. Inr acc))"

definition add_raster_visits :: "resource_limits \<Rightarrow> nat \<Rightarrow> nat \<Rightarrow> nat \<Rightarrow> limit_error + nat" where
  "add_raster_visits lims cells layers acc =
     bind_result (ok_or (visits_error lims) (checked_mul_u128 cells layers)) (\<lambda>visits.
     add_raster_work lims visits acc)"

definition add_geometry_edge_work :: "resource_limits \<Rightarrow> nat \<Rightarrow> nat \<Rightarrow> limit_error + nat" where
  "add_geometry_edge_work lims work acc =
     bind_result (ok_or (edges_error lims) (checked_add_u128 acc work)) (\<lambda>acc.
     bind_result (check_limit acc (max_raster_geometry_edge_work lims)
       ''raster_geometry_edge_work'' ''edge-visits'') (\<lambda>_. Inr acc))"

definition effective_outline_vertices :: "board \<Rightarrow> nat" where
  "effective_outline_vertices b = (if length (outline b) \<ge> 3 then length (outline b) else 4)"

text \<open>The number of cells of a window widened by \<open>radius\<close> on every side.\<close>

definition widened_window ::
    "resource_limits \<Rightarrow> board \<Rightarrow> nm \<Rightarrow> int \<Rightarrow> int \<Rightarrow> int \<Rightarrow> int \<Rightarrow> int \<Rightarrow> limit_error + nat" where
  "widened_window lims b grid radius min_x max_x min_y max_y =
     bind_result (checked_add min_x (- radius) ''raster_window'') (\<lambda>min_x.
     bind_result (checked_add max_x radius ''raster_window'') (\<lambda>max_x.
     bind_result (checked_add min_y (- radius) ''raster_window'') (\<lambda>min_y.
     bind_result (checked_add max_y radius ''raster_window'') (\<lambda>max_y.
     window_cells min_x max_x min_y max_y grid (board_width_nm b) (board_height_nm b)
       (max_raster_candidate_visits lims)))))"

definition outline_edge_work :: "resource_limits \<Rightarrow> board \<Rightarrow> nat \<Rightarrow> limit_error + nat" where
  "outline_edge_work lims b plane_cells =
     bind_result (ok_or (edges_error lims) (checked_sum_list (map length (cutouts b)) 0)) (\<lambda>cutout_vertices.
     bind_result (ok_or (edges_error lims)
       (checked_add_u128 (effective_outline_vertices b) cutout_vertices)) (\<lambda>edges.
     checked_work_product [plane_cells, 2, edges] ''raster_geometry_edge_work''
       (max_raster_geometry_edge_work lims) ''edge-visits''))"

definition rect_window ::
    "resource_limits \<Rightarrow> board \<Rightarrow> nm \<Rightarrow> int \<Rightarrow> obstacle \<Rightarrow> nat \<Rightarrow> limit_error + nat" where
  "rect_window lims b grid inflate ob acc =
     bind_result (widened_window lims b grid inflate
       (x_nm (min_pt ob)) (x_nm (max_pt ob)) (y_nm (min_pt ob)) (y_nm (max_pt ob))) (\<lambda>cells.
     add_raster_visits lims cells (length (obstacle_layers ob)) acc)"

text \<open>The clearance distance around a round or capsule obstacle, halved and rounded up.\<close>

definition obstacle_radius ::
    "resource_limits \<Rightarrow> nm \<Rightarrow> int \<Rightarrow> int \<Rightarrow> nm \<Rightarrow> limit_error + int" where
  "obstacle_radius lims grid diameter clearance obstacle_diameter =
     bind_result (ok_or
       (Resource_Error ''inflate_radius_cells'' (int (max_inflate_radius_cells lims)) ''cells'')
       (Option.bind (checked_i128 (obstacle_diameter + diameter)) (\<lambda>v.
          checked_i128 (v + 2 * clearance)))) (\<lambda>distance_twice.
     let radius = (max distance_twice 0 + 1) sdiv 2 in
     bind_result (check_radius radius grid (max_inflate_radius_cells lims)) (\<lambda>_. Inr radius))"

definition round_window ::
    "resource_limits \<Rightarrow> board \<Rightarrow> nm \<Rightarrow> int \<Rightarrow> int \<Rightarrow> round_obstacle \<Rightarrow> nat \<Rightarrow> limit_error + nat" where
  "round_window lims b grid diameter clearance ob acc =
     bind_result (obstacle_radius lims grid diameter clearance (round_diameter_nm ob)) (\<lambda>radius.
     bind_result (widened_window lims b grid radius
       (x_nm (round_center ob)) (x_nm (round_center ob))
       (y_nm (round_center ob)) (y_nm (round_center ob))) (\<lambda>cells.
     add_raster_visits lims cells (length (round_layers ob)) acc))"

definition capsule_window ::
    "resource_limits \<Rightarrow> board \<Rightarrow> nm \<Rightarrow> int \<Rightarrow> int \<Rightarrow> capsule_obstacle \<Rightarrow> nat \<Rightarrow> limit_error + nat" where
  "capsule_window lims b grid diameter clearance ob acc =
     bind_result (obstacle_radius lims grid diameter clearance (capsule_diameter_nm ob)) (\<lambda>radius.
     bind_result (widened_window lims b grid radius
       (min (x_nm (capsule_start ob)) (x_nm (capsule_end ob)))
       (max (x_nm (capsule_start ob)) (x_nm (capsule_end ob)))
       (min (y_nm (capsule_start ob)) (y_nm (capsule_end ob)))
       (max (y_nm (capsule_start ob)) (y_nm (capsule_end ob)))) (\<lambda>cells.
     add_raster_visits lims cells (length (capsule_layers ob)) acc))"

definition polygon_bounds :: "point list \<Rightarrow> (nm \<times> nm \<times> nm \<times> nm) option" where
  "polygon_bounds polygon =
     (if polygon = [] then None
      else Some (Min (set (map x_nm polygon)), Max (set (map x_nm polygon)),
                 Min (set (map y_nm polygon)), Max (set (map y_nm polygon))))"

text \<open>A polygon obstacle or a keepout for tracks, with the number of its layers; the state is the
  visit total and the edge work.\<close>

definition polygon_window ::
    "resource_limits \<Rightarrow> board \<Rightarrow> nm \<Rightarrow> int \<Rightarrow> point list \<times> nat \<Rightarrow> nat \<times> nat \<Rightarrow>
       limit_error + nat \<times> nat" where
  "polygon_window lims b grid keepout_distance_twice pl acc =
     (case polygon_bounds (fst pl) of
        None \<Rightarrow> Inr acc
      | Some (min_x, max_x, min_y, max_y) \<Rightarrow>
          let radius = (max keepout_distance_twice 0 + 1) sdiv 2 in
          bind_result (check_radius radius grid (max_inflate_radius_cells lims)) (\<lambda>_.
          bind_result (widened_window lims b grid radius min_x max_x min_y max_y) (\<lambda>cells.
          bind_result (add_raster_visits lims cells (snd pl) (fst acc)) (\<lambda>visits.
          bind_result (checked_work_product [cells, snd pl, 2, length (fst pl)]
            ''raster_geometry_edge_work'' (max_raster_geometry_edge_work lims) ''edge-visits'') (\<lambda>edge_work.
          bind_result (add_geometry_edge_work lims edge_work (snd acc)) (\<lambda>edges.
          Inr (visits, edges)))))))"

definition raster_polygons :: "board \<Rightarrow> (point list \<times> nat) list" where
  "raster_polygons b =
     map (\<lambda>ob. (obstacle_polygon ob, length (polygon_layers ob))) (polygon_obstacles b) @
     map (\<lambda>k. (keepout_polygon k, length (keepout_layers k)))
       (filter tracks_not_allowed (keepouts b))"

definition check_raster_windows ::
    "resource_limits \<Rightarrow> board \<Rightarrow> nm \<Rightarrow> int \<Rightarrow> int \<Rightarrow> nat \<Rightarrow> limit_error + nat" where
  "check_raster_windows lims b grid diameter clearance plane_cells =
     (let inflate = diameter sdiv 2 + clearance;
          keepout_distance_twice = diameter + 2 * clearance
      in
      bind_result (check_limit plane_cells (max_raster_candidate_visits lims)
        ''raster_candidate_visits'' ''visits'') (\<lambda>_.
      bind_result (outline_edge_work lims b plane_cells) (\<lambda>outline_edges.
      bind_result (add_geometry_edge_work lims outline_edges 0) (\<lambda>edges.
      bind_result (check_radius (max keepout_distance_twice 0 sdiv 2) grid
        (max_inflate_radius_cells lims)) (\<lambda>_.
      bind_result (fold_result (rect_window lims b grid inflate) (obstacles b) plane_cells) (\<lambda>visits.
      bind_result (fold_result (round_window lims b grid diameter clearance)
        (round_obstacles b) visits) (\<lambda>visits.
      bind_result (fold_result (capsule_window lims b grid diameter clearance)
        (capsule_obstacles b) visits) (\<lambda>visits.
      bind_result (fold_result (polygon_window lims b grid keepout_distance_twice)
        (raster_polygons b) (visits, edges)) (\<lambda>(visits, edges).
      Inr visits)))))))))"

section \<open>Existing routes\<close>

text \<open>The visits of one inflated feature: a square of side \<open>2 * radius + 1\<close> per cell.\<close>

definition inflated_visits :: "resource_limits \<Rightarrow> nat \<Rightarrow> nat \<Rightarrow> limit_error + nat" where
  "inflated_visits lims radius_cells cells =
     bind_result (ok_or (visits_error lims)
       (Option.bind (checked_mul_u128 radius_cells 2) (\<lambda>v. checked_add_u128 v 1))) (\<lambda>side.
     bind_result (ok_or (visits_error lims) (checked_mul_u128 side side)) (\<lambda>area.
     ok_or (visits_error lims) (checked_mul_u128 cells area)))"

definition radius_cells_of :: "resource_limits \<Rightarrow> int \<Rightarrow> nm \<Rightarrow> limit_error + nat" where
  "radius_cells_of lims radius grid =
     bind_result (ceil_div (max radius 0) grid) (\<lambda>cells.
     bind_result (check_limit cells (max_inflate_radius_cells lims)
       ''inflate_radius_cells'' ''cells'') (\<lambda>_. Inr cells))"

definition segment_line_cells :: "segment \<Rightarrow> nm \<Rightarrow> int" where
  "segment_line_cells s grid =
     (let dx = \<bar>x_nm (seg_end s) sdiv grid - x_nm (seg_start s) sdiv grid\<bar>;
          dy = \<bar>y_nm (seg_end s) sdiv grid - y_nm (seg_start s) sdiv grid\<bar>
      in max dx dy)"

definition check_segment ::
    "resource_limits \<Rightarrow> nm \<Rightarrow> int \<Rightarrow> int \<Rightarrow> segment \<Rightarrow> nat \<Rightarrow> limit_error + nat" where
  "check_segment lims grid diameter clearance s acc =
     (let line_error = Resource_Error ''raster_line_cells'' (int (max_raster_line_cells lims)) ''cells''
      in
      bind_result (ok_or line_error (checked_i128 (segment_line_cells s grid + 1))) (\<lambda>cells.
      bind_result (ok_or line_error (try_u128 cells)) (\<lambda>cells.
      bind_result (check_limit cells (max_raster_line_cells lims) ''raster_line_cells'' ''cells'') (\<lambda>_.
      bind_result (radius_cells_of lims (width_nm s sdiv 2 + diameter sdiv 2 + clearance) grid) (\<lambda>radius.
      bind_result (inflated_visits lims radius cells) (\<lambda>visits.
      add_raster_work lims visits acc))))))"

definition check_via ::
    "resource_limits \<Rightarrow> board \<Rightarrow> nm \<Rightarrow> int \<Rightarrow> int \<Rightarrow> via \<Rightarrow> nat \<Rightarrow> limit_error + nat" where
  "check_via lims b grid diameter clearance v acc =
     bind_result (radius_cells_of lims (diameter_nm v sdiv 2 + diameter sdiv 2 + clearance) grid) (\<lambda>radius.
     let layer_count = length (filter (spans_layer v) (copper_layers b)) in
     bind_result (inflated_visits lims radius layer_count) (\<lambda>visits.
     add_raster_work lims visits acc))"

definition check_existing_routes ::
    "resource_limits \<Rightarrow> board \<Rightarrow> nm \<Rightarrow> int \<Rightarrow> int \<Rightarrow> nat \<Rightarrow> limit_error + unit" where
  "check_existing_routes lims b grid diameter clearance visits =
     bind_result (fold_result (\<lambda>r acc.
         bind_result (fold_result (check_segment lims grid diameter clearance) (segments r) acc)
           (fold_result (check_via lims b grid diameter clearance) (vias r)))
       (routes b) visits) (\<lambda>_. Inr ())"

section \<open>Copper zones\<close>

definition zone_error :: "resource_limits \<Rightarrow> limit_error" where
  "zone_error lims =
     Resource_Error ''zone_blocker_work'' (int (max_zone_blocker_work lims)) ''operations''"

definition zone_product :: "resource_limits \<Rightarrow> nat list \<Rightarrow> limit_error + nat" where
  "zone_product lims values =
     checked_work_product values ''zone_blocker_work'' (max_zone_blocker_work lims) ''operations''"

definition add_zone_work :: "resource_limits \<Rightarrow> nat \<Rightarrow> nat \<Rightarrow> limit_error + nat" where
  "add_zone_work lims work acc = ok_or (zone_error lims) (checked_add_u128 acc work)"

definition zone_keepout_work ::
    "resource_limits \<Rightarrow> nat \<Rightarrow> copper_zone \<Rightarrow> keepout \<Rightarrow> nat \<Rightarrow> limit_error + nat" where
  "zone_keepout_work lims n z k acc =
     bind_result (add_zone_work lims 1 acc) (\<lambda>acc.
     if zones_not_allowed k \<and> zone_layer z \<in> set (keepout_layers k) \<and> keepout_net_id k \<noteq> Some n
     then bind_result (zone_product lims [4, 2, length (keepout_polygon k)]) (\<lambda>w.
            add_zone_work lims w acc)
     else Inr acc)"

text \<open>One inspection, and four corner checks when the blocker is on the layer and foreign.\<close>

definition zone_blocker_work ::
    "resource_limits \<Rightarrow> nat \<Rightarrow> copper_zone \<Rightarrow> layer list \<Rightarrow> nat option \<Rightarrow> nat \<Rightarrow> limit_error + nat" where
  "zone_blocker_work lims n z ls owner acc =
     bind_result (add_zone_work lims 1 acc) (\<lambda>acc.
     if zone_layer z \<in> set ls \<and> owner \<noteq> Some n then add_zone_work lims 4 acc else Inr acc)"

definition zone_segment_work ::
    "resource_limits \<Rightarrow> copper_zone \<Rightarrow> segment \<Rightarrow> nat \<Rightarrow> limit_error + nat" where
  "zone_segment_work lims z s acc =
     bind_result (add_zone_work lims 1 acc) (\<lambda>acc.
     if seg_layer s = zone_layer z then add_zone_work lims 4 acc else Inr acc)"

definition zone_route_work ::
    "resource_limits \<Rightarrow> nat \<Rightarrow> copper_zone \<Rightarrow> route \<Rightarrow> nat \<Rightarrow> limit_error + nat" where
  "zone_route_work lims n z r acc =
     bind_result (add_zone_work lims 1 acc) (\<lambda>acc.
     if net_id r = n then Inr acc
     else fold_result (zone_segment_work lims z) (segments r) acc)"

definition zone_outline_work ::
    "resource_limits \<Rightarrow> board \<Rightarrow> copper_zone \<Rightarrow> limit_error + nat" where
  "zone_outline_work lims b z =
     bind_result (zone_product lims [4, length (zone_polygon z)]) (\<lambda>acc.
     bind_result (ok_or (zone_error lims) (checked_sum_list (map length (cutouts b)) 0)) (\<lambda>cutout_vertices.
     bind_result (ok_or (zone_error lims)
       (checked_add_u128 (effective_outline_vertices b) cutout_vertices)) (\<lambda>board_edges.
     bind_result (zone_product lims [4, 2, board_edges]) (\<lambda>w.
     add_zone_work lims w acc))))"

definition zone_blocker_work_per_cell ::
    "resource_limits \<Rightarrow> board \<Rightarrow> nat \<Rightarrow> copper_zone \<Rightarrow> limit_error + nat" where
  "zone_blocker_work_per_cell lims b n z =
     bind_result (zone_outline_work lims b z) (\<lambda>acc.
     bind_result (fold_result (zone_keepout_work lims n z) (keepouts b) acc) (\<lambda>acc.
     bind_result (fold_result (\<lambda>ob. zone_blocker_work lims n z (obstacle_layers ob) (obstacle_net_id ob))
       (obstacles b) acc) (\<lambda>acc.
     bind_result (fold_result (\<lambda>ob. zone_blocker_work lims n z (round_layers ob) (round_net_id ob))
       (round_obstacles b) acc) (\<lambda>acc.
     bind_result (fold_result (zone_route_work lims n z) (routes b) acc) (\<lambda>acc.
     if thermal_relief z
     then bind_result (ok_or (zone_error lims)
            (checked_sum_list (map (\<lambda>f. length (pads f)) (footprints b)) 0)) (\<lambda>pad_count.
          add_zone_work lims pad_count acc)
     else Inr acc)))))"

text \<open>The state is the total of candidate cells and the total of blocker work.\<close>

definition zone_window ::
    "resource_limits \<Rightarrow> board \<Rightarrow> nm \<Rightarrow> nat \<times> copper_zone \<Rightarrow> nat \<times> nat \<Rightarrow> limit_error + nat \<times> nat" where
  "zone_window lims b grid nz acc =
     (case polygon_bounds (zone_polygon (snd nz)) of
        None \<Rightarrow> Inr acc
      | Some (min_x, max_x, min_y, max_y) \<Rightarrow>
          bind_result (window_cells min_x max_x min_y max_y grid (board_width_nm b)
            (board_height_nm b) (max_zone_candidate_cells lims)) (\<lambda>cells.
          bind_result (ok_or (Resource_Error ''zone_candidate_cells''
              (int (max_zone_candidate_cells lims)) ''cells'')
            (checked_add_u128 (fst acc) cells)) (\<lambda>total_cells.
          bind_result (check_limit total_cells (max_zone_candidate_cells lims)
            ''zone_candidate_cells'' ''cells'') (\<lambda>_.
          bind_result (zone_blocker_work_per_cell lims b (fst nz) (snd nz)) (\<lambda>per_cell_work.
          bind_result (zone_product lims [cells, per_cell_work]) (\<lambda>zone_work.
          bind_result (add_zone_work lims zone_work (snd acc)) (\<lambda>total_work.
          bind_result (check_limit total_work (max_zone_blocker_work lims)
            ''zone_blocker_work'' ''operations'') (\<lambda>_.
          Inr (total_cells, total_work)))))))))"

definition board_zones :: "board \<Rightarrow> (nat \<times> copper_zone) list" where
  "board_zones b = concat (map (\<lambda>r. map (Pair (net_id r)) (zones r)) (routes b))"

definition check_zone_windows :: "resource_limits \<Rightarrow> board \<Rightarrow> nm \<Rightarrow> limit_error + unit" where
  "check_zone_windows lims b grid =
     bind_result (fold_result (zone_window lims b grid) (board_zones b) (0, 0)) (\<lambda>_. Inr ())"

section \<open>The validation\<close>

definition limit_table :: "resource_limits \<Rightarrow> (string \<times> nat \<times> nat) list" where
  "limit_table lims =
     [(''max_plane_grid_cells'', max_plane_grid_cells lims, MAX_PLANE_GRID_CELLS),
      (''max_cell_layer_slots'', max_cell_layer_slots lims, MAX_CELL_LAYER_SLOTS),
      (''max_raster_candidate_visits'', max_raster_candidate_visits lims, MAX_RASTER_CANDIDATE_VISITS),
      (''max_inflate_radius_cells'', max_inflate_radius_cells lims, MAX_INFLATE_RADIUS_CELLS),
      (''max_polygon_vertices'', max_polygon_vertices lims, MAX_POLYGON_VERTICES),
      (''max_total_polygon_vertices'', max_total_polygon_vertices lims, MAX_TOTAL_POLYGON_VERTICES),
      (''max_zone_candidate_cells'', max_zone_candidate_cells lims, MAX_ZONE_CANDIDATE_CELLS),
      (''max_raster_line_cells'', max_raster_line_cells lims, MAX_RASTER_LINE_CELLS),
      (''max_topology_edge_pair_work'', max_topology_edge_pair_work lims, MAX_TOPOLOGY_EDGE_PAIR_WORK),
      (''max_raster_geometry_edge_work'', max_raster_geometry_edge_work lims, MAX_RASTER_GEOMETRY_EDGE_WORK),
      (''max_zone_blocker_work'', max_zone_blocker_work lims, MAX_ZONE_BLOCKER_WORK)]"

definition validate_limit_configuration :: "resource_limits \<Rightarrow> limit_error + unit" where
  "validate_limit_configuration lims =
     (if max_board_extent_nm lims \<le> 0 \<or> max_board_extent_nm lims > MAX_BOARD_EXTENT_NM
      then Inl (Limit_Configuration ''max_board_extent_nm'' MAX_BOARD_EXTENT_NM)
      else all_result (\<lambda>(nm, v, production).
             if v > production then Inl (Limit_Configuration nm (int production)) else Inr ())
           (limit_table lims))"

definition implicit_outline :: "board \<Rightarrow> point list list" where
  "implicit_outline b =
     (if length (outline b) < 3 \<and> board_width_nm b > 0 \<and> board_height_nm b > 0
      then [[\<lparr>x_nm = 0, y_nm = 0\<rparr>,
             \<lparr>x_nm = board_width_nm b, y_nm = 0\<rparr>,
             \<lparr>x_nm = board_width_nm b, y_nm = board_height_nm b\<rparr>,
             \<lparr>x_nm = 0, y_nm = board_height_nm b\<rparr>]]
      else [])"

definition validate_grid :: "resource_limits \<Rightarrow> board \<Rightarrow> limit_error + unit" where
  "validate_grid lims b =
     (let grid = grid_nm (rules_of b) in
      bind_result (axis_cells (board_width_nm b) grid) (\<lambda>plane_x.
      bind_result (axis_cells (board_height_nm b) grid) (\<lambda>plane_y.
      bind_result (ok_or (Resource_Error ''plane_grid_cells'' (int (max_plane_grid_cells lims)) ''cells'')
        (checked_mul_u128 plane_x plane_y)) (\<lambda>plane_cells.
      bind_result (check_limit plane_cells (max_plane_grid_cells lims)
        ''plane_grid_cells'' ''cells'') (\<lambda>_.
      bind_result (ok_or (Resource_Error ''cell_layer_slots'' (int (max_cell_layer_slots lims)) ''slots'')
        (checked_mul_u128 plane_cells (length (copper_layers b)))) (\<lambda>layer_slots.
      bind_result (check_limit layer_slots (max_cell_layer_slots lims)
        ''cell_layer_slots'' ''slots'') (\<lambda>_.
      let (diameter, clearance) = limits_routing_envelope b in
      bind_result (check_radius (diameter sdiv 2 + clearance) grid
        (max_inflate_radius_cells lims)) (\<lambda>_.
      bind_result (check_raster_windows lims b grid diameter clearance plane_cells) (\<lambda>visits.
      bind_result (check_existing_routes lims b grid diameter clearance visits) (\<lambda>_.
      check_zone_windows lims b grid))))))))))"

definition validate_with_limits :: "board \<Rightarrow> resource_limits \<Rightarrow> limit_error + unit" where
  "validate_with_limits b lims =
     bind_result (validate_limit_configuration lims) (\<lambda>_.
     if board_width_nm b > max_board_extent_nm lims \<or> board_height_nm b > max_board_extent_nm lims
     then Inl (Resource_Error ''board_extent_nm'' (max_board_extent_nm lims) ''nm'')
     else
       bind_result (all_result (validate_coordinate (max_board_extent_nm lims)) (board_points b)) (\<lambda>_.
       bind_result (all_result (validate_magnitude (max_board_extent_nm lims)) (board_dimensions b)) (\<lambda>_.
       bind_result (fold_result (add_polygon lims) (implicit_outline b @ board_polygons b)
         empty_accounting) (\<lambda>acc.
       bind_result (check_topology_work lims b acc) (\<lambda>_.
       if grid_nm (rules_of b) > 0 \<and> board_width_nm b > 0 \<and> board_height_nm b > 0
       then validate_grid lims b
       else Inr ())))))"

definition validate_routing_resource_bounds :: "board \<Rightarrow> limit_error + unit" where
  "validate_routing_resource_bounds b = validate_with_limits b PRODUCTION"

text \<open>The definitions that evaluate the validation of a concrete board.\<close>

lemmas validation_defs =
  production_maxima signed_divide_int_def sgn_if checked_add_u128_def checked_mul_u128_def
  try_u128_def check_limit_def checked_work_product_def validate_coordinate_def
  validate_magnitude_def route_points_def board_points_def board_polygons_def or_zero_def
  optional_def rule_dimensions_def pad_dimensions_def route_dimensions_def
  constraint_dimensions_def board_dimensions_def empty_accounting_def pairs_error_def
  check_pairs_def choose_two_u128_def choose_two_def checked_product_def checked_sum_def
  add_pair_work_def add_polygon_def route_self_work_def route_cross_work_def positive_option_def
  check_topology_work_def axis_cells_def radius_error_def ceil_div_def check_radius_def
  grow_diameter_def limits_routing_envelope_def checked_add_def window_error_def window_axis_def
  window_cells_def visits_error_def edges_error_def add_raster_work_def add_raster_visits_def
  add_geometry_edge_work_def effective_outline_vertices_def widened_window_def
  outline_edge_work_def rect_window_def obstacle_radius_def round_window_def capsule_window_def
  polygon_bounds_def polygon_window_def raster_polygons_def check_raster_windows_def
  inflated_visits_def radius_cells_of_def segment_line_cells_def check_segment_def check_via_def
  check_existing_routes_def board_zones_def check_zone_windows_def limit_table_def
  validate_limit_configuration_def implicit_outline_def validate_grid_def
  validate_with_limits_def checked_i128_def i128_ok_def PRODUCTION_def try_i64_def i64_ok_def

end
