(* ===== verification/ResourceBounds.thy ===== *)
theory ResourceBounds
  imports ResourceLimits
begin

text \<open>
  What the resource validation guarantees. The checks are monotone in the limits, so a caller can
  only tighten the production ceilings. The topology accounting equals a comparison of closed sums
  with the limits. The window estimate is the exact number of cells of the clipped window. Once
  coordinates and magnitudes have passed, no coordinate addition can overflow.
\<close>

section \<open>Tightening the limits\<close>

text \<open>
  One result refines another when every success of the first is the same success of the second.
  All the checks refine along the componentwise order of the limits.
\<close>

named_theorems refines_intros \<open>introduction rules for refinement of results\<close>

definition refines :: "'e + 'a \<Rightarrow> 'e + 'a \<Rightarrow> bool" where
  "refines r r' \<longleftrightarrow> (\<forall>x. r = Inr x \<longrightarrow> r' = Inr x)"

definition limits_le :: "resource_limits \<Rightarrow> resource_limits \<Rightarrow> bool" where
  "limits_le l m \<longleftrightarrow>
     max_board_extent_nm l \<le> max_board_extent_nm m \<and>
     max_plane_grid_cells l \<le> max_plane_grid_cells m \<and>
     max_cell_layer_slots l \<le> max_cell_layer_slots m \<and>
     max_raster_candidate_visits l \<le> max_raster_candidate_visits m \<and>
     max_inflate_radius_cells l \<le> max_inflate_radius_cells m \<and>
     max_polygon_vertices l \<le> max_polygon_vertices m \<and>
     max_total_polygon_vertices l \<le> max_total_polygon_vertices m \<and>
     max_zone_candidate_cells l \<le> max_zone_candidate_cells m \<and>
     max_raster_line_cells l \<le> max_raster_line_cells m \<and>
     max_topology_edge_pair_work l \<le> max_topology_edge_pair_work m \<and>
     max_raster_geometry_edge_work l \<le> max_raster_geometry_edge_work m \<and>
     max_zone_blocker_work l \<le> max_zone_blocker_work m"

lemma refinesD: "refines r r' \<Longrightarrow> r = Inr x \<Longrightarrow> r' = Inr x"
  by (simp add: refines_def)

lemma refines_refl [refines_intros]: "refines r r"
  by (simp add: refines_def)

lemma refines_bind [refines_intros]:
  "refines r r' \<Longrightarrow> (\<And>x. refines (f x) (g x)) \<Longrightarrow> refines (bind_result r f) (bind_result r' g)"
  by (auto simp: refines_def bind_result_Inr)

lemma refines_ok_or [refines_intros]: "refines (ok_or e x) (ok_or e' x)"
  by (simp add: refines_def ok_or_Inr)

lemma refines_if [refines_intros]:
  "(c \<Longrightarrow> refines a a') \<Longrightarrow> (\<not> c \<Longrightarrow> refines b b') \<Longrightarrow>
     refines (if c then a else b) (if c then a' else b')"
  by simp

lemma refines_check_limit [refines_intros]:
  "l \<le> l' \<Longrightarrow> refines (check_limit a l r u) (check_limit a l' r u)"
  by (auto simp: refines_def check_limit_def split: if_splits)

lemma refines_fold [refines_intros]:
  assumes "\<And>x s. refines (f x s) (g x s)"
  shows "refines (fold_result f xs s) (fold_result g xs s)"
proof (induction xs arbitrary: s)
  case (Cons x xs)
  then show ?case using assms by (simp add: refines_bind)
qed (simp add: refines_refl)

lemma refines_work_product [refines_intros]:
  "refines (checked_work_product vs r l u) (checked_work_product vs r l' u)"
  unfolding checked_work_product_def by (intro refines_intros)


lemma le_components [refines_intros]:
  assumes "limits_le l m"
  shows "max_plane_grid_cells l \<le> max_plane_grid_cells m"
    "max_cell_layer_slots l \<le> max_cell_layer_slots m"
    "max_raster_candidate_visits l \<le> max_raster_candidate_visits m"
    "max_inflate_radius_cells l \<le> max_inflate_radius_cells m"
    "max_polygon_vertices l \<le> max_polygon_vertices m"
    "max_total_polygon_vertices l \<le> max_total_polygon_vertices m"
    "max_zone_candidate_cells l \<le> max_zone_candidate_cells m"
    "max_raster_line_cells l \<le> max_raster_line_cells m"
    "max_topology_edge_pair_work l \<le> max_topology_edge_pair_work m"
    "max_raster_geometry_edge_work l \<le> max_raster_geometry_edge_work m"
    "max_zone_blocker_work l \<le> max_zone_blocker_work m"
  using assms by (simp_all add: limits_le_def)

lemma refines_accounting [refines_intros]:
  assumes "limits_le l m"
  shows "refines (check_pairs l w) (check_pairs m w)"
    "refines (choose_two_u128 l n) (choose_two_u128 m n)"
    "refines (choose_two l n) (choose_two m n)"
    "refines (checked_product l x y) (checked_product m x y)"
    "refines (checked_sum l x y) (checked_sum m x y)"
  unfolding check_pairs_def choose_two_def choose_two_u128_def checked_product_def checked_sum_def
  by (intro refines_intros assms)+

lemma refines_add_pair_work [refines_intros]:
  assumes "limits_le l m"
  shows "refines (add_pair_work l w acc) (add_pair_work m w acc)"
  unfolding add_pair_work_def by (intro refines_intros assms)

lemma refines_add_polygon [refines_intros]:
  assumes "limits_le l m"
  shows "refines (add_polygon l p acc) (add_polygon m p acc)"
  unfolding add_polygon_def Let_def by (intro refines_intros assms)

lemma refines_route_work [refines_intros]:
  assumes "limits_le l m"
  shows "refines (route_self_work l b r acc) (route_self_work m b r acc)"
    "refines (route_cross_work l b r s acc) (route_cross_work m b r s acc)"
  unfolding route_self_work_def route_cross_work_def Let_def by (intro refines_intros assms)+

lemma refines_routes_work [refines_intros]:
  assumes "limits_le l m"
  shows "refines (routes_work l b rs acc) (routes_work m b rs acc)"
  by (induction rs arbitrary: acc) (auto intro!: refines_intros assms)

lemma refines_topology [refines_intros]:
  assumes "limits_le l m"
  shows "refines (check_topology_work l b acc) (check_topology_work m b acc)"
  unfolding check_topology_work_def Let_def by (intro refines_intros assms)

lemma refines_radius [refines_intros]:
  assumes "k \<le> k'"
  shows "refines (check_radius v g k) (check_radius v g k')"
  unfolding check_radius_def by (intro refines_intros assms)

lemma refines_window [refines_intros]:
  "refines (window_cells a b c d g w h k) (window_cells a b c d g w h k')"
  unfolding window_cells_def window_axis_def Let_def by (intro refines_intros)

lemma refines_visits [refines_intros]:
  assumes "limits_le l m"
  shows "refines (add_raster_work l v acc) (add_raster_work m v acc)"
    "refines (add_raster_visits l c n acc) (add_raster_visits m c n acc)"
    "refines (add_geometry_edge_work l w acc) (add_geometry_edge_work m w acc)"
    "refines (widened_window l b g r x1 x2 y1 y2) (widened_window m b g r x1 x2 y1 y2)"
    "refines (outline_edge_work l b n) (outline_edge_work m b n)"
    "refines (obstacle_radius l g d k e) (obstacle_radius m g d k e)"
  unfolding add_raster_visits_def add_raster_work_def add_geometry_edge_work_def
    widened_window_def outline_edge_work_def obstacle_radius_def Let_def
  by (intro refines_intros assms)+

lemma refines_obstacles [refines_intros]:
  assumes "limits_le l m"
  shows "refines (rect_window l b g i box acc) (rect_window m b g i box acc)"
    "refines (round_window l b g d k disc acc) (round_window m b g d k disc acc)"
    "refines (capsule_window l b g d k capsule acc) (capsule_window m b g d k capsule acc)"
  unfolding rect_window_def round_window_def capsule_window_def by (intro refines_intros assms)+

lemma refines_polygon_window [refines_intros]:
  assumes "limits_le l m"
  shows "refines (polygon_window l b g d pl acc) (polygon_window m b g d pl acc)"
  unfolding polygon_window_def Let_def
  by (cases "polygon_bounds (fst pl)") (auto intro!: refines_intros assms split: prod.splits)

lemma refines_case_prod [refines_intros]:
  "(\<And>x y. refines (f x y) (g x y)) \<Longrightarrow> refines (case p of (x, y) \<Rightarrow> f x y) (case p of (x, y) \<Rightarrow> g x y)"
  by (cases p) simp

lemma refines_raster [refines_intros]:
  assumes "limits_le l m"
  shows "refines (check_raster_windows l b g d k n) (check_raster_windows m b g d k n)"
  unfolding check_raster_windows_def Let_def by (intro refines_intros assms)

lemma refines_existing [refines_intros]:
  assumes "limits_le l m"
  shows "refines (check_existing_routes l b g d k n) (check_existing_routes m b g d k n)"
  unfolding check_existing_routes_def check_segment_def check_via_def inflated_visits_def
    radius_cells_of_def Let_def
  by (intro refines_intros assms)

lemma refines_zone_counts [refines_intros]:
  assumes "limits_le l m"
  shows "refines (zone_product l vs) (zone_product m vs)"
    "refines (add_zone_work l w acc) (add_zone_work m w acc)"
  unfolding zone_product_def add_zone_work_def by (intro refines_intros)+

lemma refines_zone_work [refines_intros]:
  assumes "limits_le l m"
  shows "refines (zone_blocker_work_per_cell l b n z) (zone_blocker_work_per_cell m b n z)"
  unfolding zone_blocker_work_per_cell_def zone_outline_work_def zone_keepout_work_def
    zone_blocker_work_def zone_route_work_def zone_segment_work_def Let_def
  by (intro refines_intros assms)

lemma refines_zone_window [refines_intros]:
  assumes "limits_le l m"
  shows "refines (zone_window l b g nz acc) (zone_window m b g nz acc)"
  unfolding zone_window_def Let_def
  by (cases "polygon_bounds (zone_polygon (snd nz))")
     (auto intro!: refines_intros assms split: prod.splits)

lemma refines_grid [refines_intros]:
  assumes "limits_le l m"
  shows "refines (validate_grid l b) (validate_grid m b)"
  unfolding validate_grid_def check_zone_windows_def Let_def by (intro refines_intros assms)

lemma all_result_mono:
  "(\<And>x. f x = Inr () \<Longrightarrow> g x = Inr ()) \<Longrightarrow> refines (all_result f xs) (all_result g xs)"
  by (simp add: refines_def all_result_Inr)

lemma refines_reject:
  "(c' \<Longrightarrow> c) \<Longrightarrow> refines r r' \<Longrightarrow> refines (if c then Inl e else r) (if c' then Inl e' else r')"
  by (auto simp: refines_def)

lemma refines_domain:
  assumes "k \<le> k'"
  shows "refines (all_result (validate_coordinate k) ps) (all_result (validate_coordinate k') ps)"
    "refines (all_result (validate_magnitude k) vs) (all_result (validate_magnitude k') vs)"
  using assms
  by (auto intro!: all_result_mono simp: validate_coordinate_def validate_magnitude_def
      split: if_splits)

lemma configuration_le: "validate_limit_configuration l = Inr () \<Longrightarrow> limits_le l PRODUCTION"
  by (auto simp: validate_limit_configuration_def limit_table_def limits_le_def PRODUCTION_def
      bind_result_Inr not_less split: if_splits)

lemma production_configuration: "validate_limit_configuration PRODUCTION = Inr ()"
  by (simp add: validate_limit_configuration_def limit_table_def PRODUCTION_def production_maxima)

lemma tightened:
  assumes "validate_with_limits b l = Inr ()"
  shows "validate_routing_resource_bounds b = Inr ()"
proof -
  have conf: "validate_limit_configuration l = Inr ()"
    using assms by (auto simp: validate_with_limits_def bind_result_Inr)
  then have le: "limits_le l PRODUCTION" by (rule configuration_le)
  then have ext: "max_board_extent_nm l \<le> max_board_extent_nm PRODUCTION"
    by (simp add: limits_le_def)
  have "refines (validate_with_limits b l) (validate_with_limits b PRODUCTION)"
    unfolding validate_with_limits_def conf production_configuration bind_result_simps
    by (rule refines_reject) (use ext in \<open>auto intro!: refines_intros refines_domain le\<close>)
  then show ?thesis
    using assms by (simp add: validate_routing_resource_bounds_def refines_def)
qed

section \<open>Exact accounting of the topology work\<close>

text \<open>
  The reference: the number of edge and feature pairs that the checker's quadratic loops visit,
  as closed sums. The incremental accounting of the code is the comparison of that sum with the
  limit, whatever the order of its checked operations.
\<close>

definition pair_count :: "nat \<Rightarrow> nat" where
  "pair_count n = n * (n - 1) div 2"

definition feature_count :: "route \<Rightarrow> nat" where
  "feature_count r = length (segments r) + length (vias r)"

definition checks_angles :: "board \<Rightarrow> bool" where
  "checks_angles b \<longleftrightarrow>
     (case manufacturing_rules_of b of None \<Rightarrow> False | Some m \<Rightarrow> minimum_trace_angle_deg m > 0)"

definition self_pairs :: "board \<Rightarrow> route \<Rightarrow> nat" where
  "self_pairs b r =
     pair_count (length (segments r)) + length (segments r) * length (vias r) + pair_count (length (vias r)) +
     (if checks_angles b then pair_count (length (segments r)) else 0) + length (zones r) * feature_count r"

definition cross_pairs :: "board \<Rightarrow> route \<Rightarrow> route \<Rightarrow> nat" where
  "cross_pairs b r s = (if manufacturing_rules_of b = None then 1 else 2) * (feature_count r * feature_count s)"

fun route_list_pairs :: "board \<Rightarrow> route list \<Rightarrow> nat" where
  "route_list_pairs b [] = 0"
| "route_list_pairs b (r # rs) =
     self_pairs b r + sum_list (map (cross_pairs b r) rs) + route_list_pairs b rs"

definition drilled_holes :: "board \<Rightarrow> nat" where
  "drilled_holes b = sum_list (map (\<lambda>r. length (vias r)) (routes b)) +
     length (filter (\<lambda>p. positive_option (drill_width_nm p) \<and> positive_option (drill_height_nm p))
       (concat (map pads (footprints b))))"

definition topology_pairs :: "board \<Rightarrow> nat" where
  "topology_pairs b = route_list_pairs b (routes b) +
     (if manufacturing_rules_of b = None then 0 else pair_count (drilled_holes b))"

text \<open>An accounting step that succeeds exactly when the limit allows \<open>w\<close> more pairs.\<close>

definition adds ::
    "resource_limits \<Rightarrow> (polygon_accounting \<Rightarrow> limit_error + polygon_accounting) \<Rightarrow> nat \<Rightarrow> bool" where
  "adds lims f w \<longleftrightarrow>
     (\<forall>acc acc'. pair_work acc \<le> max_topology_edge_pair_work lims \<longrightarrow>
        (f acc = Inr acc' \<longleftrightarrow>
           pair_work acc + w \<le> max_topology_edge_pair_work lims \<and>
           acc' = acc\<lparr>pair_work := pair_work acc + w\<rparr>))"

definition small_limits :: "resource_limits \<Rightarrow> bool" where
  "small_limits lims \<longleftrightarrow>
     max_topology_edge_pair_work lims < 2 ^ 126 \<and> max_total_polygon_vertices lims < 2 ^ 126"

lemma adds_nothing: "adds lims Inr 0"
  by (auto simp: adds_def)

lemma adds_bind:
  assumes "adds lims f v" and "adds lims g w"
  shows "adds lims (\<lambda>acc. bind_result (f acc) g) (v + w)"
  using assms by (auto simp: adds_def bind_result_Inr add.assoc)

lemma adds_fold:
  assumes "\<And>x. adds lims (f x) (w x)"
  shows "adds lims (fold_result f xs) (sum_list (map w xs))"
proof (induction xs)
  case Nil
  then show ?case using adds_nothing by (auto simp: adds_def)
next
  case (Cons x xs)
  then show ?case using adds_bind[OF assms[of x] Cons] by simp
qed

lemma checked_pairs_Inr:
  "choose_two_u128 lims n = Inr z \<longleftrightarrow> n * (n - 1) < 2 ^ 128 \<and> z = pair_count n"
  "choose_two lims n = Inr z \<longleftrightarrow> n * (n - 1) < 2 ^ 128 \<and> z = pair_count n"
  "checked_product lims x y = Inr z \<longleftrightarrow> x * y < 2 ^ 128 \<and> z = x * y"
  "checked_sum lims x y = Inr z \<longleftrightarrow> x + y < 2 ^ 128 \<and> z = x + y"
  by (auto simp: choose_two_def choose_two_u128_def checked_product_def checked_sum_def ok_or_Inr
      checked_mul_u128_def checked_add_u128_def pair_count_def split: if_splits)

lemma pairs_bounds: "n * (n - 1) \<le> 2 * pair_count n + 1" "n \<le> pair_count n + 1"
proof -
  show "n * (n - 1) \<le> 2 * pair_count n + 1" unfolding pair_count_def by linarith
  show "n \<le> pair_count n + 1"
  proof (cases "n \<le> 2")
    case True
    then have "n = 0 \<or> n = 1 \<or> n = 2" by auto
    then show ?thesis by (auto simp: pair_count_def)
  next
    case False
    then have "n * 2 \<le> n * (n - 1)" by (intro mult_le_mono2) simp
    then show ?thesis unfolding pair_count_def by linarith
  qed
qed

lemma adds_pair_work: "small_limits lims \<Longrightarrow> adds lims (add_pair_work lims w) w"
  by (auto simp: adds_def add_pair_work_def checked_add_u128_def check_pairs_def check_limit_def
      bind_result_Inr ok_or_Inr small_limits_def)

lemma adds_self_work:
  assumes small: "small_limits lims"
  shows "adds lims (route_self_work lims b r) (self_pairs b r)"
proof -
  define n v z where "n = length (segments r)" and "v = length (vias r)" and "z = length (zones r)"
  have L: "max_topology_edge_pair_work lims < 2 ^ 126" using small by (simp add: small_limits_def)
  note step = adds_pair_work[OF small, unfolded adds_def, rule_format]
  have total: "self_pairs b r = pair_count n + n * v + pair_count v +
      (if checks_angles b then pair_count n else 0) + z * (n + v)"
    by (simp add: self_pairs_def feature_count_def n_def v_def z_def)
  show ?thesis
    unfolding adds_def total route_self_work_def Let_def bind_result_Inr checked_pairs_Inr
      n_def[symmetric] v_def[symmetric] z_def[symmetric] checks_angles_def[symmetric]
    using L pairs_bounds[of n] pairs_bounds[of v]
    by (auto simp: step add.assoc)
qed

lemma adds_cross_work:
  assumes small: "small_limits lims"
  shows "adds lims (route_cross_work lims b r s) (cross_pairs b r s)"
proof -
  define n v n' v' where "n = length (segments r)" and "v = length (vias r)"
    and "n' = length (segments s)" and "v' = length (vias s)"
  have L: "max_topology_edge_pair_work lims < 2 ^ 126" using small by (simp add: small_limits_def)
  note step = adds_pair_work[OF small, unfolded adds_def, rule_format]
  have total: "cross_pairs b r s = (if manufacturing_rules_of b = None then 1 else 2) *
      (n * n' + n * v' + (v * n' + v * v'))"
    by (simp add: cross_pairs_def feature_count_def n_def v_def n'_def v'_def algebra_simps)
  show ?thesis
    unfolding adds_def total route_cross_work_def Let_def bind_result_Inr checked_pairs_Inr
      n_def[symmetric] v_def[symmetric] n'_def[symmetric] v'_def[symmetric]
    using L by (auto simp: step)
qed

lemma adds_routes_work:
  assumes "small_limits lims"
  shows "adds lims (routes_work lims b rs) (route_list_pairs b rs)"
proof (induction rs)
  case Nil
  then show ?case using adds_nothing by (auto simp: adds_def)
next
  case (Cons r rs)
  have "adds lims (\<lambda>acc. bind_result (fold_result (route_cross_work lims b r) rs acc)
      (routes_work lims b rs)) (sum_list (map (cross_pairs b r) rs) + route_list_pairs b rs)"
    by (rule adds_bind[OF adds_fold[OF adds_cross_work[OF assms]] Cons])
  then show ?case
    using adds_bind[OF adds_self_work[OF assms]] by (simp add: add.assoc)
qed

lemma checked_sum_list_Some:
  "acc < 2 ^ 128 \<Longrightarrow> checked_sum_list xs acc = Some z \<longleftrightarrow>
     acc + sum_list xs < 2 ^ 128 \<and> z = acc + sum_list xs"
proof (induction xs arbitrary: acc)
  case (Cons x xs)
  show ?case
  proof (cases "acc + x < 2 ^ 128")
    case True
    then show ?thesis using Cons.IH[OF True] by (simp add: checked_add_u128_def add.assoc)
  qed (auto simp: checked_add_u128_def)
qed auto

lemma adds_topology:
  assumes small: "small_limits lims"
  shows "adds lims (check_topology_work lims b) (topology_pairs b)"
proof (cases "manufacturing_rules_of b = None")
  case True
  then have "check_topology_work lims b = (\<lambda>acc. bind_result (routes_work lims b (routes b) acc) Inr)"
    by (simp add: fun_eq_iff check_topology_work_def)
  then show ?thesis
    using adds_bind[OF adds_routes_work[OF small] adds_nothing] True
    by (simp add: topology_pairs_def)
next
  case False
  have L: "max_topology_edge_pair_work lims < 2 ^ 126" using small by (simp add: small_limits_def)
  note step = adds_pair_work[OF small, unfolded adds_def, rule_format]
  define drilling where "drilling acc = bind_result (ok_or (pairs_error lims)
         (checked_sum_list (map (\<lambda>r. length (vias r)) (routes b)) 0)) (\<lambda>via_count.
       bind_result (checked_sum lims via_count (length (filter
         (\<lambda>p. positive_option (drill_width_nm p) \<and> positive_option (drill_height_nm p))
         (concat (map pads (footprints b)))))) (\<lambda>holes.
       bind_result (choose_two_u128 lims holes) (\<lambda>n. add_pair_work lims n acc)))" for acc
  have "adds lims drilling (pair_count (drilled_holes b))"
    unfolding adds_def drilling_def bind_result_Inr checked_pairs_Inr ok_or_Inr
      checked_sum_list_Some[OF zero_less_power[OF zero_less_numeral]] drilled_holes_def
    using L pairs_bounds[of "drilled_holes b", unfolded drilled_holes_def] by (auto simp: step)
  moreover have "check_topology_work lims b =
      (\<lambda>acc. bind_result (routes_work lims b (routes b) acc) drilling)"
    unfolding fun_eq_iff check_topology_work_def drilling_def Let_def if_not_P[OF False] by simp
  ultimately show ?thesis
    using adds_bind[OF adds_routes_work[OF small]] unfolding topology_pairs_def if_not_P[OF False]
    by simp
qed

lemma add_polygon_Inr:
  assumes "small_limits lims" and "pair_work acc \<le> max_topology_edge_pair_work lims"
    and "total_vertices acc \<le> max_total_polygon_vertices lims"
  shows "add_polygon lims p acc = Inr acc' \<longleftrightarrow>
    length p \<le> max_polygon_vertices lims \<and>
    total_vertices acc + length p \<le> max_total_polygon_vertices lims \<and>
    pair_work acc + pair_count (length p) \<le> max_topology_edge_pair_work lims \<and>
    acc' = \<lparr>total_vertices = total_vertices acc + length p,
            pair_work = pair_work acc + pair_count (length p)\<rparr>"
  using assms pairs_bounds[of "length p"]
  unfolding add_polygon_def Let_def bind_result_Inr ok_or_Inr check_pairs_def check_limit_def
    checked_add_u128_def checked_mul_u128_def small_limits_def
  by (auto simp: pair_count_def split: if_splits)

lemma fold_add_polygon:
  assumes "small_limits lims" and "pair_work acc \<le> max_topology_edge_pair_work lims"
    and "total_vertices acc \<le> max_total_polygon_vertices lims"
  shows "fold_result (add_polygon lims) ps acc = Inr acc' \<longleftrightarrow>
    (\<forall>p \<in> set ps. length p \<le> max_polygon_vertices lims) \<and>
    total_vertices acc + sum_list (map length ps) \<le> max_total_polygon_vertices lims \<and>
    pair_work acc + sum_list (map (pair_count \<circ> length) ps) \<le> max_topology_edge_pair_work lims \<and>
    acc' = \<lparr>total_vertices = total_vertices acc + sum_list (map length ps),
            pair_work = pair_work acc + sum_list (map (pair_count \<circ> length) ps)\<rparr>"
  using assms(2,3)
proof (induction ps arbitrary: acc)
  case Nil
  then show ?case by auto
next
  case (Cons p ps)
  then show ?case
    by (auto simp: bind_result_Inr add_polygon_Inr[OF assms(1)] add.assoc)
qed

text \<open>The accounting phase of the validation is the comparison of three sums with their limits.\<close>

definition accounting_phase :: "resource_limits \<Rightarrow> board \<Rightarrow> limit_error + polygon_accounting" where
  "accounting_phase lims b =
     bind_result (fold_result (add_polygon lims) (implicit_outline b @ board_polygons b)
       empty_accounting) (check_topology_work lims b)"

lemma accounting_phase_iff:
  assumes small: "small_limits lims"
  shows "(\<exists>acc. accounting_phase lims b = Inr acc) \<longleftrightarrow>
    (\<forall>p \<in> set (board_polygons b) \<union> set (implicit_outline b). length p \<le> max_polygon_vertices lims) \<and>
    sum_list (map length (implicit_outline b @ board_polygons b)) \<le> max_total_polygon_vertices lims \<and>
    sum_list (map (pair_count \<circ> length) (implicit_outline b @ board_polygons b)) + topology_pairs b
      \<le> max_topology_edge_pair_work lims"
  unfolding accounting_phase_def bind_result_Inr
  by (subst fold_add_polygon[OF small])
     (use adds_topology[OF small, of b] in \<open>auto simp: empty_accounting_def adds_def\<close>)

lemma small_limits_configured: "validate_limit_configuration lims = Inr () \<Longrightarrow> small_limits lims"
  using configuration_le[of lims]
  by (simp add: small_limits_def limits_le_def PRODUCTION_def production_maxima)

section \<open>Validated boards\<close>

lemma validated_phases:
  assumes "validate_with_limits b lims = Inr ()"
  shows "validate_limit_configuration lims = Inr ()"
    "\<forall>p \<in> set (board_points b). \<bar>x_nm p\<bar> \<le> max_board_extent_nm lims \<and> \<bar>y_nm p\<bar> \<le> max_board_extent_nm lims"
    "\<forall>v \<in> set (board_dimensions b). \<bar>v\<bar> \<le> max_board_extent_nm lims"
    "\<exists>acc. accounting_phase lims b = Inr acc"
    "0 < grid_nm (rules_of b) \<Longrightarrow> 0 < board_width_nm b \<Longrightarrow> 0 < board_height_nm b \<Longrightarrow>
       validate_grid lims b = Inr ()"
  using assms
  by (auto simp: validate_with_limits_def bind_result_Inr all_result_Inr validate_coordinate_def
      validate_magnitude_def accounting_phase_def split: if_splits)

section \<open>Window estimates\<close>

text \<open>The estimate of a window is the exact number of grid cells that a loop over it visits.\<close>

lemma sdiv_nonneg: "0 \<le> (a :: int) \<Longrightarrow> 0 < b \<Longrightarrow> a sdiv b = a div b"
  by (cases "a = 0") (simp_all add: signed_divide_int_def sgn_if)

definition grid_window :: "int \<Rightarrow> int \<Rightarrow> int \<Rightarrow> int \<Rightarrow> nm \<Rightarrow> nm \<Rightarrow> nm \<Rightarrow> (int \<times> int) set" where
  "grid_window min_x max_x min_y max_y grid board_width board_height =
     (if max min_x 0 \<le> min max_x board_width \<and> max min_y 0 \<le> min max_y board_height
      then {max min_x 0 div grid .. min max_x board_width div grid} \<times>
           {max min_y 0 div grid .. min max_y board_height div grid}
      else {})"

lemma window_cells_exact:
  assumes pos: "0 < grid" "0 < w" "0 < h" and ok: "i64_ok w" "i64_ok h"
  shows "window_cells x1 x2 y1 y2 grid w h limit = Inr (card (grid_window x1 x2 y1 y2 grid w h))"
proof (cases "max x1 0 \<le> min x2 w \<and> max y1 0 \<le> min y2 h")
  case False
  then show ?thesis using pos by (auto simp: window_cells_def grid_window_def Let_def)
next
  case True
  have axis: "window_axis limit grid lo hi = Inr (hi div grid - lo div grid + 1) \<and>
      0 \<le> hi div grid - lo div grid \<and> hi div grid - lo div grid < 2 ^ 63"
    if "0 \<le> lo" "lo \<le> hi" "hi < 2 ^ 63" for lo hi
  proof -
    have "lo div grid \<le> hi div grid" "0 \<le> lo div grid"
      using that pos by (simp_all add: zdiv_mono1 pos_imp_zdiv_nonneg_iff)
    moreover have "hi div grid \<le> hi"
      using zdiv_mono2[of hi 1 grid] that pos by simp
    ultimately show ?thesis using that pos
      by (simp add: window_axis_def sdiv_nonneg checked_i128_def i128_ok_def)
  qed
  define a1 a2 b1 b2 where "a1 = max x1 0" and "a2 = min x2 w" and "b1 = max y1 0" and "b2 = min y2 h"
  have x: "0 \<le> a1" "a1 \<le> a2" "a2 < 2 ^ 63" and y: "0 \<le> b1" "b1 \<le> b2" "b2 < 2 ^ 63"
    using True ok unfolding a1_def a2_def b1_def b2_def i64_ok_def by linarith+
  define a c where "a = nat (a2 div grid - a1 div grid + 1)" and "c = nat (b2 div grid - b1 div grid + 1)"
  have ax: "window_axis limit grid a1 a2 = Inr (int a)" "a \<le> 2 ^ 63"
    using axis[OF x] by (auto simp: a_def)
  have ay: "window_axis limit grid b1 b2 = Inr (int c)" "c \<le> 2 ^ 63"
    using axis[OF y] by (auto simp: c_def)
  have "a * c \<le> 2 ^ 63 * 2 ^ 63" using ax(2) ay(2) by (rule mult_le_mono)
  then have small: "a * c < 2 ^ 128" by simp
  have "window_cells x1 x2 y1 y2 grid w h limit = Inr (a * c)"
    using pos x y small
    unfolding window_cells_def Let_def a1_def[symmetric] a2_def[symmetric] b1_def[symmetric] b2_def[symmetric]
    by (simp add: ax ay try_u128_def checked_mul_u128_def)
  moreover have "card (grid_window x1 x2 y1 y2 grid w h) = a * c"
    using x y unfolding grid_window_def a1_def[symmetric] a2_def[symmetric] b1_def[symmetric] b2_def[symmetric]
    by (simp add: card_cartesian_product a_def c_def)
  ultimately show ?thesis by simp
qed

section \<open>No overflow in the coordinate arithmetic\<close>

text \<open>
  Once the coordinates and magnitudes have passed, the checked \<open>i128\<close> additions of the window
  estimates cannot fail: the error they guard against is unreachable.
\<close>

named_theorems no_overflow \<open>results that are not a coordinate overflow\<close>

definition no_coordinate_error :: "limit_error + 'a \<Rightarrow> bool" where
  "no_coordinate_error r \<longleftrightarrow> (\<forall>s. r \<noteq> Inl (Checked_Coordinate s))"

lemma no_coordinate_error_Inr [no_overflow]: "no_coordinate_error (Inr x)"
  by (simp add: no_coordinate_error_def)

lemma no_coordinate_error_bind [no_overflow]:
  "no_coordinate_error r \<Longrightarrow> (\<And>x. r = Inr x \<Longrightarrow> no_coordinate_error (f x)) \<Longrightarrow>
     no_coordinate_error (bind_result r f)"
  by (cases r) (auto simp: no_coordinate_error_def)

lemma no_coordinate_error_if [no_overflow]:
  "(c \<Longrightarrow> no_coordinate_error r) \<Longrightarrow> (\<not> c \<Longrightarrow> no_coordinate_error r') \<Longrightarrow>
     no_coordinate_error (if c then r else r')"
  by simp

lemma no_coordinate_error_fold:
  assumes "\<And>x s. x \<in> set xs \<Longrightarrow> no_coordinate_error (f x s)"
  shows "no_coordinate_error (fold_result f xs s)"
  using assms
proof (induction xs arbitrary: s)
  case (Cons x xs)
  then show ?case by (auto intro!: no_coordinate_error_bind)
qed (simp add: no_coordinate_error_Inr)

lemma no_coordinate_error_basic [no_overflow]:
  "no_coordinate_error (Inl (Resource_Error r i u))"
  "no_coordinate_error (ok_or (Resource_Error r i u) v)"
  "no_coordinate_error (check_limit a k r u)"
  "no_coordinate_error (ok_or (pairs_error lims) v)"
  "no_coordinate_error (ok_or (visits_error lims) v)"
  "no_coordinate_error (ok_or (edges_error lims) v)"
  "no_coordinate_error (ok_or (zone_error lims) v)"
  "no_coordinate_error (ok_or radius_error v)"
  "no_coordinate_error (Inl radius_error)"
  "no_coordinate_error (ok_or (window_error k) v)"
  by (cases v; simp add: no_coordinate_error_def check_limit_def pairs_error_def visits_error_def
      edges_error_def zone_error_def radius_error_def window_error_def)+

lemma no_coordinate_error_product [no_overflow]:
  "no_coordinate_error (checked_work_product vs r k u)"
  unfolding checked_work_product_def by (intro no_coordinate_error_fold no_overflow)

lemma no_coordinate_error_accounting [no_overflow]:
  "no_coordinate_error (add_pair_work lims w acc)"
  "no_coordinate_error (add_polygon lims p acc)"
  "no_coordinate_error (choose_two_u128 lims n)"
  "no_coordinate_error (choose_two lims n)"
  "no_coordinate_error (checked_product lims x y)"
  "no_coordinate_error (checked_sum lims x y)"
  unfolding add_pair_work_def add_polygon_def choose_two_def choose_two_u128_def checked_product_def
    checked_sum_def check_pairs_def Let_def
  by (intro no_overflow)+

lemma no_coordinate_error_routes_work [no_overflow]:
  "no_coordinate_error (routes_work lims b rs acc)"
  unfolding route_self_work_def[abs_def]
  by (induction rs arbitrary: acc)
     (auto intro!: no_overflow no_coordinate_error_fold
       simp: route_self_work_def route_cross_work_def Let_def)

lemma no_coordinate_error_topology [no_overflow]:
  "no_coordinate_error (check_topology_work lims b acc)"
  unfolding check_topology_work_def Let_def by (intro no_overflow)

lemma no_coordinate_error_counts [no_overflow]:
  "no_coordinate_error (axis_cells d g)"
  "no_coordinate_error (check_radius v g k)"
  "no_coordinate_error (window_cells x1 x2 y1 y2 g width height k)"
  "no_coordinate_error (add_raster_work lims visits acc)"
  "no_coordinate_error (add_raster_visits lims cells n acc)"
  "no_coordinate_error (add_geometry_edge_work lims w acc)"
  "no_coordinate_error (outline_edge_work lims b n)"
  "no_coordinate_error (obstacle_radius lims g d c e)"
  "no_coordinate_error (check_segment lims g d c s acc)"
  "no_coordinate_error (check_via lims b g d c hole acc)"
  unfolding axis_cells_def check_radius_def ceil_div_def window_cells_def window_axis_def
    add_raster_visits_def add_raster_work_def add_geometry_edge_work_def outline_edge_work_def
    obstacle_radius_def check_segment_def check_via_def radius_cells_of_def inflated_visits_def Let_def
  by (intro no_overflow)+

lemma no_coordinate_error_zones [no_overflow]:
  "no_coordinate_error (check_zone_windows lims b g)"
proof -
  have "no_coordinate_error (zone_blocker_work_per_cell lims b n z)" for n z
    unfolding zone_blocker_work_per_cell_def zone_outline_work_def zone_keepout_work_def
      zone_blocker_work_def zone_route_work_def zone_segment_work_def zone_product_def
      add_zone_work_def Let_def
    by (intro no_overflow no_coordinate_error_fold)
  then have "no_coordinate_error (zone_window lims b g nz acc)" for nz acc
    unfolding zone_window_def zone_product_def add_zone_work_def
    by (cases "polygon_bounds (zone_polygon (snd nz))")
       (auto intro!: no_overflow split: prod.splits)
  then show ?thesis
    unfolding check_zone_windows_def by (intro no_overflow no_coordinate_error_fold)
qed

lemma int_powers: "(2 :: int) ^ 40 = 1099511627776" "(2 :: int) ^ 62 = 4611686018427387904"
  "(2 :: int) ^ 63 = 9223372036854775808"
  by simp_all

text \<open>Coordinates within the extent and a radius that passed its check leave ample room.\<close>

lemma widened_window_no_overflow:
  assumes "\<bar>x1\<bar> \<le> 2 ^ 62" "\<bar>x2\<bar> \<le> 2 ^ 62" "\<bar>y1\<bar> \<le> 2 ^ 62" "\<bar>y2\<bar> \<le> 2 ^ 62" "\<bar>r\<bar> \<le> 2 ^ 62"
  shows "no_coordinate_error (widened_window lims b g r x1 x2 y1 y2)"
proof -
  have "checked_add u v s = Inr (u + v)" if "\<bar>u\<bar> \<le> 2 ^ 62" "\<bar>v\<bar> \<le> 2 ^ 62" for u v s
  proof -
    have "- (2 ^ 63) \<le> u + v" using that unfolding int_powers by linarith
    moreover have "u + v \<le> 2 ^ 63" using that unfolding int_powers by linarith
    ultimately have "i128_ok (u + v)" by (simp add: i128_ok_def)
    then show ?thesis by (simp add: checked_add_def checked_i128_def)
  qed
  then have "checked_add x1 (- r) s = Inr (x1 - r)" "checked_add x2 r s = Inr (x2 + r)"
    "checked_add y1 (- r) s = Inr (y1 - r)" "checked_add y2 r s = Inr (y2 + r)" for s
    using assms by simp_all
  then show ?thesis
    unfolding widened_window_def by (simp add: no_overflow)
qed

lemma grow_diameter_bounds:
  "0 \<le> d \<Longrightarrow> d \<le> m \<Longrightarrow> \<bar>v\<bar> \<le> m \<Longrightarrow> 0 \<le> grow_diameter v d \<and> grow_diameter v d \<le> m"
  by (auto simp: grow_diameter_def)

lemma limits_envelope_bounds:
  assumes dims: "\<forall>v \<in> set (board_dimensions b). \<bar>v\<bar> \<le> m" and env: "limits_routing_envelope b = (d, c)"
  shows "0 \<le> d \<and> d \<le> m \<and> 0 \<le> c \<and> c \<le> m"
proof -
  let ?step = "\<lambda>(d, c) k. (grow_diameter (class_via_diameter_nm k) (grow_diameter (class_track_width_nm k) d),
      if class_clearance_nm k \<ge> 0 then max c (class_clearance_nm k) else c)"
  have fold: "0 \<le> fst (foldl ?step (d0, c0) ks) \<and> fst (foldl ?step (d0, c0) ks) \<le> m \<and>
      0 \<le> snd (foldl ?step (d0, c0) ks) \<and> snd (foldl ?step (d0, c0) ks) \<le> m"
    if "0 \<le> d0" "d0 \<le> m" "0 \<le> c0" "c0 \<le> m"
      and "\<forall>k \<in> set ks. \<bar>class_track_width_nm k\<bar> \<le> m \<and> \<bar>class_via_diameter_nm k\<bar> \<le> m \<and>
        \<bar>class_clearance_nm k\<bar> \<le> m" for d0 c0 ks
    using that
  proof (induction ks arbitrary: d0 c0)
    case (Cons k ks)
    then have "\<bar>class_track_width_nm k\<bar> \<le> m" "\<bar>class_via_diameter_nm k\<bar> \<le> m"
      "\<bar>class_clearance_nm k\<bar> \<le> m" by auto
    then have "0 \<le> grow_diameter (class_via_diameter_nm k) (grow_diameter (class_track_width_nm k) d0)"
        "grow_diameter (class_via_diameter_nm k) (grow_diameter (class_track_width_nm k) d0) \<le> m"
      using Cons.prems(1,2) grow_diameter_bounds by blast+
    then show ?case using Cons by auto
  qed simp
  have rules: "\<bar>track_width_nm (rules_of b)\<bar> \<le> m" "\<bar>via_diameter_nm (rules_of b)\<bar> \<le> m"
    "\<bar>clearance_nm (rules_of b)\<bar> \<le> m"
    and classes: "\<forall>k \<in> set (map snd (net_classes b)). \<bar>class_track_width_nm k\<bar> \<le> m \<and>
      \<bar>class_via_diameter_nm k\<bar> \<le> m \<and> \<bar>class_clearance_nm k\<bar> \<le> m"
    using dims by (auto simp: board_dimensions_def rule_dimensions_def Let_def)
  then have m: "0 \<le> m" by linarith
  let ?d0 = "grow_diameter (via_diameter_nm (rules_of b)) (grow_diameter (track_width_nm (rules_of b)) 0)"
  have d0: "0 \<le> ?d0 \<and> ?d0 \<le> m" using rules m grow_diameter_bounds by (metis order_refl)
  let ?c0 = "if clearance_nm (rules_of b) \<ge> 0 then clearance_nm (rules_of b) else 0"
  have c0: "0 \<le> ?c0 \<and> ?c0 \<le> m" using rules m by auto
  have "limits_routing_envelope b = foldl ?step (?d0, ?c0) (map snd (net_classes b))"
    by (simp add: limits_routing_envelope_def Let_def)
  then have "foldl ?step (?d0, ?c0) (map snd (net_classes b)) = (d, c)" using env by simp
  then show ?thesis using fold[of ?d0 ?c0 "map snd (net_classes b)"] d0 c0 classes by simp
qed

lemma polygon_bounds_in:
  assumes "polygon_bounds ps = Some (x1, x2, y1, y2)" and "\<forall>p \<in> set ps. \<bar>x_nm p\<bar> \<le> m \<and> \<bar>y_nm p\<bar> \<le> m"
  shows "\<bar>x1\<bar> \<le> m \<and> \<bar>x2\<bar> \<le> m \<and> \<bar>y1\<bar> \<le> m \<and> \<bar>y2\<bar> \<le> m"
proof -
  have ps: "ps \<noteq> []" and eq: "x1 = Min (x_nm ` set ps)" "x2 = Max (x_nm ` set ps)"
    "y1 = Min (y_nm ` set ps)" "y2 = Max (y_nm ` set ps)"
    using assms(1) by (auto simp: polygon_bounds_def split: if_splits)
  have "x1 \<in> x_nm ` set ps" "x2 \<in> x_nm ` set ps" "y1 \<in> y_nm ` set ps" "y2 \<in> y_nm ` set ps"
    unfolding eq using ps by (simp_all add: Min_in Max_in)
  then show ?thesis using assms(2) by auto
qed

lemma radius_passed:
  assumes "check_radius r g k = Inr ()" and "0 < g" "g \<le> m" "0 \<le> r"
  shows "r \<le> int k * m"
proof -
  have "0 \<le> (r + g - 1) div g" using assms by (simp add: pos_imp_zdiv_nonneg_iff)
  then have "ceil_div r g = Inr (nat ((r + g - 1) div g))"
    using assms by (simp add: ceil_div_def try_u128_def sdiv_nonneg)
  then have "nat ((r + g - 1) div g) \<le> k"
    using assms by (auto simp: check_radius_def check_limit_def split: if_splits)
  then have "(r + g - 1) div g \<le> int k" by (simp add: nat_le_iff)
  moreover have "r + g - 1 = g * ((r + g - 1) div g) + (r + g - 1) mod g" by simp
  moreover have "(r + g - 1) mod g \<le> g - 1"
    using assms(2) pos_mod_bound[of g "r + g - 1"] by simp
  ultimately have "r \<le> g * int k" using assms(2)
    by (smt (verit) mult_left_mono)
  also have "\<dots> \<le> m * int k" using assms by (intro mult_right_mono) auto
  finally show ?thesis by (simp add: mult.commute)
qed

lemma obstacle_radius_bounds:
  assumes "obstacle_radius lims g d c e = Inr r" and "0 < g" "g \<le> m"
  shows "0 \<le> r \<and> r \<le> int (max_inflate_radius_cells lims) * m"
proof -
  obtain q where q: "r = (max q 0 + 1) sdiv 2" "check_radius r g (max_inflate_radius_cells lims) = Inr ()"
    using assms(1) by (auto simp: obstacle_radius_def Let_def bind_result_Inr ok_or_Inr)
  have "0 \<le> r" unfolding q(1) by (simp add: sdiv_nonneg pos_imp_zdiv_nonneg_iff)
  then show ?thesis using radius_passed[OF q(2) assms(2,3)] by simp
qed

lemma board_points_members:
  "ob \<in> set (obstacles b) \<Longrightarrow> min_pt ob \<in> set (board_points b) \<and> max_pt ob \<in> set (board_points b)"
  "ro \<in> set (round_obstacles b) \<Longrightarrow> round_center ro \<in> set (board_points b)"
  "co \<in> set (capsule_obstacles b) \<Longrightarrow>
     capsule_start co \<in> set (board_points b) \<and> capsule_end co \<in> set (board_points b)"
  "pl \<in> set (raster_polygons b) \<Longrightarrow> set (fst pl) \<subseteq> set (board_points b)"
  unfolding board_points_def raster_polygons_def by auto

lemma raster_windows_no_overflow:
  assumes points: "\<forall>p \<in> set (board_points b). \<bar>x_nm p\<bar> \<le> m \<and> \<bar>y_nm p\<bar> \<le> m"
    and m: "m \<le> 2 ^ 40" and g: "0 < g" "g \<le> m"
    and d: "0 \<le> d" "d \<le> m" and c: "0 \<le> c" "c \<le> m"
    and k: "max_inflate_radius_cells lims \<le> 128"
  shows "no_coordinate_error (check_raster_windows lims b g d c n)"
proof -
  have big: "v \<le> 128 * m \<Longrightarrow> v \<le> 2 ^ 62" for v using m unfolding int_powers by linarith
  have radius: "r \<le> 2 ^ 62" if "r \<le> int (max_inflate_radius_cells lims) * m" for r
  proof -
    have "int (max_inflate_radius_cells lims) * m \<le> 128 * m"
      using k g by (intro mult_right_mono) auto
    then show ?thesis using that big[of r] by linarith
  qed
  have inside: "\<bar>x_nm p\<bar> \<le> 2 ^ 62 \<and> \<bar>y_nm p\<bar> \<le> 2 ^ 62" if "p \<in> set (board_points b)" for p
    using points m that unfolding int_powers by fastforce
  have inflate: "\<bar>d sdiv 2 + c\<bar> \<le> 2 ^ 62"
  proof -
    have "0 \<le> d sdiv 2" "d sdiv 2 \<le> d" using d by (auto simp: sdiv_nonneg)
    then show ?thesis using d c m unfolding int_powers by linarith
  qed
  have "no_coordinate_error (rect_window lims b g (d sdiv 2 + c) ob s)" if "ob \<in> set (obstacles b)" for ob s
    unfolding rect_window_def using inside board_points_members(1)[OF that] inflate
    by (intro no_overflow widened_window_no_overflow) auto
  moreover have "no_coordinate_error (round_window lims b g d c ro s)"
    if "ro \<in> set (round_obstacles b)" for ro s
    unfolding round_window_def
    using inside board_points_members(2)[OF that] obstacle_radius_bounds[OF _ g] radius
    by (intro no_overflow widened_window_no_overflow) auto
  moreover have "no_coordinate_error (capsule_window lims b g d c co s)"
    if "co \<in> set (capsule_obstacles b)" for co s
    unfolding capsule_window_def
    using inside board_points_members(3)[OF that] obstacle_radius_bounds[OF _ g] radius
    by (intro no_overflow widened_window_no_overflow) (auto simp: min_def max_def)
  moreover have "no_coordinate_error (polygon_window lims b g (d + 2 * c) pl s)"
    if pl: "pl \<in> set (raster_polygons b)" for pl s
  proof (cases "polygon_bounds (fst pl)")
    case None
    then show ?thesis by (simp add: polygon_window_def no_overflow)
  next
    case (Some q)
    obtain x1 x2 y1 y2 where q: "q = (x1, x2, y1, y2)" by (cases q) auto
    have "\<forall>p \<in> set (fst pl). \<bar>x_nm p\<bar> \<le> 2 ^ 62 \<and> \<bar>y_nm p\<bar> \<le> 2 ^ 62"
      using inside board_points_members(4)[OF pl] by blast
    then have box: "\<bar>x1\<bar> \<le> 2 ^ 62 \<and> \<bar>x2\<bar> \<le> 2 ^ 62 \<and> \<bar>y1\<bar> \<le> 2 ^ 62 \<and> \<bar>y2\<bar> \<le> 2 ^ 62"
      using polygon_bounds_in Some q by blast
    let ?r = "(max (d + 2 * c) 0 + 1) sdiv 2"
    have "0 \<le> ?r" by (simp add: sdiv_nonneg pos_imp_zdiv_nonneg_iff)
    moreover have "?r \<le> 2 ^ 62" if "check_radius ?r g (max_inflate_radius_cells lims) = Inr u" for u
      using radius_passed[of ?r g "max_inflate_radius_cells lims" m] that g \<open>0 \<le> ?r\<close> radius by simp
    ultimately have "\<bar>?r\<bar> \<le> 2 ^ 62" if "check_radius ?r g (max_inflate_radius_cells lims) = Inr u" for u
      using that by simp
    then show ?thesis
      unfolding polygon_window_def Some q option.case prod.case Let_def
      using box by (intro no_overflow widened_window_no_overflow) auto
  qed
  ultimately show ?thesis
    unfolding check_raster_windows_def Let_def
    by (intro no_overflow no_coordinate_error_fold) (auto split: prod.splits intro: no_overflow)
qed

lemma no_coordinate_error_domain [no_overflow]:
  "no_coordinate_error (all_result (validate_coordinate k) ps)"
  "no_coordinate_error (all_result (validate_magnitude k) vs)"
  "no_coordinate_error (validate_limit_configuration lims)"
proof -
  have all: "no_coordinate_error (all_result f xs)" if "\<And>x. no_coordinate_error (f x)"
    for f :: "'x \<Rightarrow> limit_error + unit" and xs
    using that by (induction xs) (auto intro!: no_overflow)
  show "no_coordinate_error (all_result (validate_coordinate k) ps)"
    "no_coordinate_error (all_result (validate_magnitude k) vs)"
    by (auto intro!: all no_overflow simp: validate_coordinate_def validate_magnitude_def)
  show "no_coordinate_error (validate_limit_configuration lims)"
    unfolding validate_limit_configuration_def
    by (intro no_overflow all) (auto simp: no_coordinate_error_def split: prod.splits)
qed

lemma validation_no_coordinate_error: "no_coordinate_error (validate_with_limits b lims)"
proof (cases "validate_limit_configuration lims = Inr () \<and>
    (\<forall>p \<in> set (board_points b). \<bar>x_nm p\<bar> \<le> max_board_extent_nm lims \<and> \<bar>y_nm p\<bar> \<le> max_board_extent_nm lims) \<and>
    (\<forall>v \<in> set (board_dimensions b). \<bar>v\<bar> \<le> max_board_extent_nm lims)")
  case True
  let ?m = "max_board_extent_nm lims"
  have conf: "limits_le lims PRODUCTION" using True configuration_le by blast
  have m: "?m \<le> 2 ^ 40" and k: "max_inflate_radius_cells lims \<le> 128"
    using conf by (simp_all add: limits_le_def PRODUCTION_def production_maxima)
  have "no_coordinate_error (validate_grid lims b)" if g: "0 < grid_nm (rules_of b)"
  proof -
    obtain d c where dc: "limits_routing_envelope b = (d, c)" by fastforce
    have "\<bar>grid_nm (rules_of b)\<bar> \<le> ?m"
      using True by (simp add: board_dimensions_def rule_dimensions_def Let_def)
    then have "grid_nm (rules_of b) \<le> ?m" by simp
    then have "no_coordinate_error (check_raster_windows lims b (grid_nm (rules_of b)) d c n)" for n
      using True m k g limits_envelope_bounds[OF _ dc, of ?m]
      by (intro raster_windows_no_overflow[of b ?m]) auto
    then show ?thesis
      unfolding validate_grid_def check_existing_routes_def dc Let_def prod.case
      by (intro no_overflow no_coordinate_error_fold)
  qed
  then show ?thesis
    using True unfolding validate_with_limits_def
    by (intro no_overflow no_coordinate_error_fold) simp_all
next
  case False
  then show ?thesis
    unfolding validate_with_limits_def
    by (intro no_overflow)
       (auto simp: all_result_Inr validate_coordinate_def validate_magnitude_def not_less split: if_splits)
qed

section \<open>The properties\<close>

definition small_board :: board where
  "small_board = blank_board\<lparr>
     outline := [\<lparr>x_nm = 0, y_nm = 0\<rparr>, \<lparr>x_nm = 1000000, y_nm = 0\<rparr>, \<lparr>x_nm = 0, y_nm = 1000000\<rparr>]\<rparr>"

lemmas small_board_defs = small_board_def blank_board_def default_rules_def

lemma small_board_validates:
  "validate_with_limits small_board (PRODUCTION\<lparr>max_plane_grid_cells := 121\<rparr>) = Inr ()"
  by (simp add: Let_def validation_defs small_board_defs)

text \<open>Limits given by a caller can only tighten the validation: a board accepted under any
  configuration that the code admits is accepted under the production limits.\<close>

theorem limits_only_tighten:
  assumes "validate_with_limits b lims = Inr ()"
  shows "validate_routing_resource_bounds b = Inr ()"
  using assms by (rule tightened)

theorem limits_only_tighten_witness: "validate_routing_resource_bounds small_board = Inr ()"
  by (rule limits_only_tighten[OF small_board_validates])

text \<open>On an accepted board every point lies within the production extent, every dimension of
  the rules, pads, routes and constraints is at most that large, and the numbers of polygon
  vertices and of edge and feature pairs that the quadratic topology checks visit, given as closed
  sums, are within their limits.\<close>

theorem accepted_board_bounds:
  assumes "validate_routing_resource_bounds b = Inr ()"
  shows "(\<forall>p \<in> set (board_points b). \<bar>x_nm p\<bar> \<le> MAX_BOARD_EXTENT_NM \<and> \<bar>y_nm p\<bar> \<le> MAX_BOARD_EXTENT_NM) \<and>
    (\<forall>v \<in> set (board_dimensions b). \<bar>v\<bar> \<le> MAX_BOARD_EXTENT_NM) \<and>
    sum_list (map length (implicit_outline b @ board_polygons b)) \<le> MAX_TOTAL_POLYGON_VERTICES \<and>
    sum_list (map (pair_count \<circ> length) (implicit_outline b @ board_polygons b)) + topology_pairs b
      \<le> MAX_TOPOLOGY_EDGE_PAIR_WORK"
proof -
  have v: "validate_with_limits b PRODUCTION = Inr ()"
    using assms by (simp add: validate_routing_resource_bounds_def)
  have sums: "sum_list (map length (implicit_outline b @ board_polygons b)) \<le> max_total_polygon_vertices PRODUCTION"
    "sum_list (map (pair_count \<circ> length) (implicit_outline b @ board_polygons b)) + topology_pairs b
       \<le> max_topology_edge_pair_work PRODUCTION"
    using validated_phases(4)[OF v] accounting_phase_iff[OF small_limits_configured[OF production_configuration]]
    by blast+
  show ?thesis
    using validated_phases(2,3)[OF v] sums by (simp add: PRODUCTION_def)
qed

theorem accepted_board_bounds_witness:
  "sum_list (map length (implicit_outline small_board @ board_polygons small_board))
     \<le> MAX_TOTAL_POLYGON_VERTICES \<and>
   (1000000 :: int) \<le> MAX_BOARD_EXTENT_NM"
proof -
  have "validate_routing_resource_bounds small_board = Inr ()"
    by (rule tightened[OF small_board_validates])
  from accepted_board_bounds[OF this] show ?thesis
    by (simp add: board_points_def small_board_defs)
qed

text \<open>C16: Under limits that the code admits, the topology accounting accepts a board exactly when
  no polygon is longer than its limit and the closed sums of vertices and of pairs are within
  theirs: the checked incremental additions never reject more and never overlook a pair.\<close>

theorem topology_accounting_exact:
  assumes "validate_limit_configuration lims = Inr ()"
  shows "(\<exists>acc. accounting_phase lims b = Inr acc) \<longleftrightarrow>
    (\<forall>p \<in> set (board_polygons b) \<union> set (implicit_outline b). length p \<le> max_polygon_vertices lims) \<and>
    sum_list (map length (implicit_outline b @ board_polygons b)) \<le> max_total_polygon_vertices lims \<and>
    sum_list (map (pair_count \<circ> length) (implicit_outline b @ board_polygons b)) + topology_pairs b
      \<le> max_topology_edge_pair_work lims"
  by (rule accounting_phase_iff[OF small_limits_configured[OF assms]])

theorem topology_accounting_exact_witness:
  "\<not> (\<exists>acc. accounting_phase (PRODUCTION\<lparr>max_polygon_vertices := 2\<rparr>) small_board = Inr acc)"
proof -
  have "validate_limit_configuration (PRODUCTION\<lparr>max_polygon_vertices := 2\<rparr>) = Inr ()"
    by (simp add: Let_def validation_defs)
  from topology_accounting_exact[OF this] show ?thesis
    by (simp add: board_polygons_def small_board_defs)
qed

text \<open>The validation never reports an overflow of a coordinate: once the coordinates and the
  magnitudes have passed, every checked addition of the window estimates succeeds.\<close>

theorem validation_without_coordinate_overflow:
  "validate_with_limits b lims \<noteq> Inl (Checked_Coordinate s)"
  using validation_no_coordinate_error[of b lims] by (simp add: no_coordinate_error_def)

text \<open>The estimate of a raster window is the exact number of grid cells of the window clipped
  to the board, for every window and every grid.\<close>

theorem window_estimate_exact:
  assumes "0 < grid" "0 < w" "0 < h" "i64_ok w" "i64_ok h"
  shows "window_cells x1 x2 y1 y2 grid w h limit = Inr (card (grid_window x1 x2 y1 y2 grid w h))"
  using assms by (rule window_cells_exact)

theorem window_estimate_exact_witness:
  "window_cells (- 50) 250 120 900 100 1000 500 7 = Inr (card (grid_window (- 50) 250 120 900 100 1000 500)) \<and>
   window_cells (- 50) 250 120 900 100 1000 500 7 = Inr 15"
proof
  show "window_cells (- 50) 250 120 900 100 1000 500 7 = Inr (card (grid_window (- 50) 250 120 900 100 1000 500))"
    by (rule window_estimate_exact) (simp_all add: i64_ok_def)
qed (simp add: Let_def validation_defs)

end
