(* ===== verification/GeometryMachine.thy ===== *)
theory GeometryMachine
  imports ResourceBounds
begin

text \<open>
  The predicates of \<open>geometry.rs\<close> once more, with every \<open>i128\<close> operation checked: a result
  outside the type is \<open>None\<close> (the code panics in a debug build and wraps in a release build). The
  lemmas show that for coordinates within the limit of the resource validation and distances below
  4.6 metres the checked predicates agree with the exact ones. The margin is small: the square of
  a cross product, times four, stays below \<open>2 ^ 127\<close> only because a triangle inside the
  coordinate square has at most half its area.
\<close>

section \<open>Checked arithmetic\<close>

definition m_sub :: "int option \<Rightarrow> int option \<Rightarrow> int option" where
  "m_sub x y = Option.bind x (\<lambda>a. Option.bind y (\<lambda>b. checked_i128 (a - b)))"

definition m_add :: "int option \<Rightarrow> int option \<Rightarrow> int option" where
  "m_add x y = Option.bind x (\<lambda>a. Option.bind y (\<lambda>b. checked_i128 (a + b)))"

definition m_mul :: "int option \<Rightarrow> int option \<Rightarrow> int option" where
  "m_mul x y = Option.bind x (\<lambda>a. Option.bind y (\<lambda>b. checked_i128 (a * b)))"

definition m_compare_ratio :: "int option \<Rightarrow> int option \<Rightarrow> int \<Rightarrow> bool \<Rightarrow> bool option" where
  "m_compare_ratio numerator denominator distance_twice inclusive =
     Option.bind numerator (\<lambda>n. Option.bind denominator (\<lambda>d.
       if distance_twice < 0 then Some False
       else
         Option.bind (m_mul (Some 4) (Some n)) (\<lambda>l.
         Option.bind (m_mul (m_mul (Some distance_twice) (Some distance_twice)) (Some d)) (\<lambda>r.
         Some (if inclusive then l \<le> r else l < r)))))"

definition m_orientation :: "point \<Rightarrow> point \<Rightarrow> point \<Rightarrow> int option" where
  "m_orientation a b c =
     m_sub (m_mul (m_sub (Some (x_nm b)) (Some (x_nm a))) (m_sub (Some (y_nm c)) (Some (y_nm a))))
           (m_mul (m_sub (Some (y_nm b)) (Some (y_nm a))) (m_sub (Some (x_nm c)) (Some (x_nm a))))"

definition m_point_segment_compare ::
    "point \<Rightarrow> point \<Rightarrow> point \<Rightarrow> int \<Rightarrow> bool \<Rightarrow> bool option" where
  "m_point_segment_compare p s e distance_twice inclusive =
     Option.bind (m_sub (Some (x_nm e)) (Some (x_nm s))) (\<lambda>dx.
     Option.bind (m_sub (Some (y_nm e)) (Some (y_nm s))) (\<lambda>dy.
     Option.bind (m_sub (Some (x_nm p)) (Some (x_nm s))) (\<lambda>px.
     Option.bind (m_sub (Some (y_nm p)) (Some (y_nm s))) (\<lambda>py.
     Option.bind (m_add (m_mul (Some dx) (Some dx)) (m_mul (Some dy) (Some dy))) (\<lambda>length_squared.
     if length_squared = 0
     then m_compare_ratio (m_add (m_mul (Some px) (Some px)) (m_mul (Some py) (Some py))) (Some 1)
            distance_twice inclusive
     else
       Option.bind (m_add (m_mul (Some px) (Some dx)) (m_mul (Some py) (Some dy))) (\<lambda>projection.
       if projection \<le> 0
       then m_compare_ratio (m_add (m_mul (Some px) (Some px)) (m_mul (Some py) (Some py))) (Some 1)
              distance_twice inclusive
       else if length_squared \<le> projection
       then
         Option.bind (m_sub (Some (x_nm p)) (Some (x_nm e))) (\<lambda>ex.
         Option.bind (m_sub (Some (y_nm p)) (Some (y_nm e))) (\<lambda>ey.
         m_compare_ratio (m_add (m_mul (Some ex) (Some ex)) (m_mul (Some ey) (Some ey))) (Some 1)
           distance_twice inclusive))
       else
         Option.bind (m_sub (m_mul (Some px) (Some dy)) (m_mul (Some py) (Some dx))) (\<lambda>cross.
         m_compare_ratio (m_mul (Some cross) (Some cross)) (Some length_squared)
           distance_twice inclusive)))))))"

definition m_segments_intersect :: "point \<Rightarrow> point \<Rightarrow> point \<Rightarrow> point \<Rightarrow> bool option" where
  "m_segments_intersect a b c d =
     Option.bind (m_orientation a b c) (\<lambda>ab_c.
     Option.bind (m_orientation a b d) (\<lambda>ab_d.
     Option.bind (m_orientation c d a) (\<lambda>cd_a.
     Option.bind (m_orientation c d b) (\<lambda>cd_b.
     Some (if ab_c = 0 \<and> point_on_segment c a b
            \<or> ab_d = 0 \<and> point_on_segment d a b
            \<or> cd_a = 0 \<and> point_on_segment a c d
            \<or> cd_b = 0 \<and> point_on_segment b c d
           then True
           else (ab_c > 0) \<noteq> (ab_d > 0) \<and> (cd_a > 0) \<noteq> (cd_b > 0))))))"

text \<open>The array of four comparisons is built before it is searched: all four are evaluated.\<close>

definition m_segment_compare ::
    "point \<Rightarrow> point \<Rightarrow> point \<Rightarrow> point \<Rightarrow> int \<Rightarrow> bool \<Rightarrow> bool option" where
  "m_segment_compare a b c d distance_twice inclusive =
     Option.bind (m_segments_intersect a b c d) (\<lambda>meet.
     if meet then Some (inclusive \<or> distance_twice > 0)
     else
       Option.bind (m_point_segment_compare a c d distance_twice inclusive) (\<lambda>r1.
       Option.bind (m_point_segment_compare b c d distance_twice inclusive) (\<lambda>r2.
       Option.bind (m_point_segment_compare c a b distance_twice inclusive) (\<lambda>r3.
       Option.bind (m_point_segment_compare d a b distance_twice inclusive) (\<lambda>r4.
       Some (r1 \<or> r2 \<or> r3 \<or> r4))))))"

section \<open>Agreement on validated coordinates\<close>

definition in_extent :: "point \<Rightarrow> bool" where
  "in_extent p \<longleftrightarrow> \<bar>x_nm p\<bar> \<le> MAX_BOARD_EXTENT_NM \<and> \<bar>y_nm p\<bar> \<le> MAX_BOARD_EXTENT_NM"

definition max_distance_twice :: int where
  "max_distance_twice = 4600000000"

lemma abs_mult_mono: "\<bar>x\<bar> \<le> a \<Longrightarrow> \<bar>y\<bar> \<le> b \<Longrightarrow> \<bar>x * y\<bar> \<le> a * (b :: int)"
  unfolding abs_mult by (intro mult_mono) auto

lemma m_sub_Some: "\<bar>a - b\<bar> \<le> 17 * 10 ^ 37 \<Longrightarrow> m_sub (Some a) (Some b) = Some (a - b)"
  and m_add_Some: "\<bar>a + b\<bar> \<le> 17 * 10 ^ 37 \<Longrightarrow> m_add (Some a) (Some b) = Some (a + b)"
  and m_mul_Some: "\<bar>a * b\<bar> \<le> 17 * 10 ^ 37 \<Longrightarrow> m_mul (Some a) (Some b) = Some (a * b)"
  by (auto simp: m_sub_def m_add_def m_mul_def checked_i128_def i128_ok_def abs_le_iff)

lemma m_compare_ratio_Some:
  assumes "0 \<le> n" "n \<le> 2 * 10 ^ 37" "0 \<le> l" "l \<le> 8 * 10 ^ 18" "d \<le> max_distance_twice"
  shows "m_compare_ratio (Some n) (Some l) d i = Some (compare_ratio n l d i)"
proof (cases "d < 0")
  case False
  have "\<bar>d\<bar> \<le> 4600000000" using assms(5) False by (simp add: max_distance_twice_def)
  note dd = abs_mult_mono[OF this this]
  have "\<bar>l\<bar> \<le> 8 * 10 ^ 18" using assms by simp
  note ddl = abs_mult_mono[OF dd this]
  have "m_mul (m_mul (Some d) (Some d)) (Some l) = Some (d * d * l)"
    using m_mul_Some[of d d] m_mul_Some[of "d * d" l] dd ddl by simp
  moreover have "m_mul (Some 4) (Some n) = Some (4 * n)"
    using m_mul_Some[of 4 n] assms by simp
  ultimately show ?thesis using False by (simp add: m_compare_ratio_def compare_ratio_def)
qed (simp add: m_compare_ratio_def compare_ratio_def)

lemma triangle_area_bound:
  fixes xs ys xe ye xp yp m :: int
  assumes "\<bar>xs\<bar> \<le> m" "\<bar>ys\<bar> \<le> m" "\<bar>xe\<bar> \<le> m" "\<bar>ye\<bar> \<le> m" "\<bar>xp\<bar> \<le> m" "\<bar>yp\<bar> \<le> m"
  shows "\<bar>(xp - xs) * (ye - ys) - (yp - ys) * (xe - xs)\<bar> \<le> 4 * (m * m)"
proof -
  define u v w where "u = ye - ys" and "v = ys - yp" and "w = yp - ye"
  have eq: "(xp - xs) * (ye - ys) - (yp - ys) * (xe - xs) = xp * u + xe * v + xs * w"
    by (simp add: u_def v_def w_def algebra_simps)
  have "\<bar>xp * u + xe * v + xs * w\<bar> \<le> \<bar>xp * u\<bar> + \<bar>xe * v\<bar> + \<bar>xs * w\<bar>" by linarith
  also have "\<dots> \<le> m * \<bar>u\<bar> + m * \<bar>v\<bar> + m * \<bar>w\<bar>"
    unfolding abs_mult using assms by (intro add_mono mult_right_mono) auto
  also have "\<dots> = m * (\<bar>u\<bar> + \<bar>v\<bar> + \<bar>w\<bar>)" by (simp add: algebra_simps)
  also have "\<dots> \<le> m * (4 * m)"
    using assms by (intro mult_left_mono) (auto simp: u_def v_def w_def)
  finally show ?thesis using eq by (simp add: algebra_simps)
qed

lemma m_differences:
  assumes "in_extent p" "in_extent q"
  shows "m_sub (Some (x_nm p)) (Some (x_nm q)) = Some (x_nm p - x_nm q)"
    "m_sub (Some (y_nm p)) (Some (y_nm q)) = Some (y_nm p - y_nm q)"
    "\<bar>x_nm p - x_nm q\<bar> \<le> 2 * 10 ^ 9" "\<bar>y_nm p - y_nm q\<bar> \<le> 2 * 10 ^ 9"
  using assms by (auto simp: in_extent_def MAX_BOARD_EXTENT_NM_def intro!: m_sub_Some)

lemma m_dot:
  assumes "\<bar>a\<bar> \<le> 2 * 10 ^ 9" "\<bar>b\<bar> \<le> 2 * 10 ^ 9" "\<bar>c\<bar> \<le> 2 * 10 ^ 9" "\<bar>d\<bar> \<le> 2 * 10 ^ 9"
  shows "m_add (m_mul (Some a) (Some b)) (m_mul (Some c) (Some d)) = Some (a * b + c * d)"
    "m_sub (m_mul (Some a) (Some b)) (m_mul (Some c) (Some d)) = Some (a * b - c * d)"
    "\<bar>a * b + c * d\<bar> \<le> 8 * 10 ^ 18"
proof -
  have "\<bar>a * b\<bar> \<le> 2 * 10 ^ 9 * (2 * 10 ^ 9)" "\<bar>c * d\<bar> \<le> 2 * 10 ^ 9 * (2 * 10 ^ 9)"
    using assms by (intro abs_mult_mono; simp)+
  then show "m_add (m_mul (Some a) (Some b)) (m_mul (Some c) (Some d)) = Some (a * b + c * d)"
    "m_sub (m_mul (Some a) (Some b)) (m_mul (Some c) (Some d)) = Some (a * b - c * d)"
    "\<bar>a * b + c * d\<bar> \<le> 8 * 10 ^ 18"
    using m_mul_Some[of a b] m_mul_Some[of c d] m_add_Some[of "a * b" "c * d"]
      m_sub_Some[of "a * b" "c * d"] by auto
qed

lemma m_orientation_exact:
  assumes "in_extent a" "in_extent b" "in_extent c"
  shows "m_orientation a b c = Some (orientation a b c)"
  using m_differences[OF assms(2,1)] m_differences[OF assms(3,1)]
  by (simp add: m_orientation_def orientation_def m_dot)

lemma m_point_segment_compare_exact:
  assumes p: "in_extent p" and s: "in_extent s" and e: "in_extent e" and d: "d \<le> max_distance_twice"
  shows "m_point_segment_compare p s e d i = Some (point_segment_compare p s e d i)"
proof -
  define dx dy px py ex ey where "dx = x_nm e - x_nm s" and "dy = y_nm e - y_nm s"
    and "px = x_nm p - x_nm s" and "py = y_nm p - y_nm s"
    and "ex = x_nm p - x_nm e" and "ey = y_nm p - y_nm e"
  note defs = dx_def dy_def px_def py_def ex_def ey_def
  note diffs = m_differences[OF e s, folded defs] m_differences[OF p s, folded defs]
    m_differences[OF p e, folded defs]
  have squares: "m_add (m_mul (Some u) (Some u)) (m_mul (Some v) (Some v)) = Some (u * u + v * v)"
    "0 \<le> u * u + v * v" "u * u + v * v \<le> 8 * 10 ^ 18"
    if "\<bar>u\<bar> \<le> 2 * 10 ^ 9" "\<bar>v\<bar> \<le> 2 * 10 ^ 9" for u v :: int
    using m_dot[of u u v v] that by auto
  have near: "m_compare_ratio (Some (u * u + v * v)) (Some 1) d i = Some (compare_ratio (u * u + v * v) 1 d i)"
    if "\<bar>u\<bar> \<le> 2 * 10 ^ 9" "\<bar>v\<bar> \<le> 2 * 10 ^ 9" for u v :: int
    using squares[OF that] d by (intro m_compare_ratio_Some) auto
  have proj: "m_add (m_mul (Some px) (Some dx)) (m_mul (Some py) (Some dy)) = Some (px * dx + py * dy)"
    "m_sub (m_mul (Some px) (Some dy)) (m_mul (Some py) (Some dx)) = Some (px * dy - py * dx)"
    using diffs by (simp_all add: m_dot)
  have "\<bar>px * dy - py * dx\<bar> \<le> 4 * (10 ^ 9 * 10 ^ 9)"
    unfolding defs using p s e
    by (intro triangle_area_bound) (auto simp: in_extent_def MAX_BOARD_EXTENT_NM_def)
  then have cross: "\<bar>(px * dy - py * dx) * (px * dy - py * dx)\<bar> \<le> 4 * 10 ^ 18 * (4 * 10 ^ 18)"
    by (intro abs_mult_mono) simp_all
  then have "m_mul (Some (px * dy - py * dx)) (Some (px * dy - py * dx)) =
      Some ((px * dy - py * dx) * (px * dy - py * dx))"
    by (intro m_mul_Some) simp
  moreover have "m_compare_ratio (Some ((px * dy - py * dx) * (px * dy - py * dx)))
      (Some (dx * dx + dy * dy)) d i =
      Some (compare_ratio ((px * dy - py * dx) * (px * dy - py * dx)) (dx * dx + dy * dy) d i)"
    using cross squares[of dx dy] diffs d by (intro m_compare_ratio_Some) auto
  ultimately show ?thesis
    unfolding m_point_segment_compare_def point_segment_compare_def Let_def defs[symmetric]
    using diffs by (simp add: squares near proj)
qed

lemma m_segment_compare_exact:
  assumes "in_extent a" "in_extent b" "in_extent c" "in_extent d" and "D \<le> max_distance_twice"
  shows "m_segment_compare a b c d D i = Some (segment_compare a b c d D i)"
  using assms
  by (simp add: m_segment_compare_def segment_compare_def m_segments_intersect_def
      segments_intersect_def m_orientation_exact m_point_segment_compare_exact Let_def)

text \<open>C15: Every coordinate that passes the resource validation is small enough for the exact
  geometry: for points within the extent limit and a doubled distance of at most 4.6 metres, the
  segment test with every \<open>i128\<close> operation checked never overflows and gives the exact answer.\<close>

theorem segment_test_no_overflow:
  assumes "validate_routing_resource_bounds board = Inr ()"
    and "{a, b, c, d} \<subseteq> set (board_points board)" and "D \<le> max_distance_twice"
  shows "m_segment_compare a b c d D i = Some (segment_compare a b c d D i)"
proof -
  have "\<forall>p \<in> set (board_points board). in_extent p"
    using validated_phases(2)[of board PRODUCTION] assms(1)
    by (simp add: validate_routing_resource_bounds_def in_extent_def PRODUCTION_def)
  then show ?thesis using assms by (intro m_segment_compare_exact) auto
qed

theorem segment_test_no_overflow_witness:
  "m_segment_compare \<lparr>x_nm = 0, y_nm = 0\<rparr> \<lparr>x_nm = 1000000, y_nm = 0\<rparr> \<lparr>x_nm = 0, y_nm = 1000000\<rparr>
     \<lparr>x_nm = 1000000, y_nm = 0\<rparr> 4600000000 False = Some True"
proof -
  have "validate_routing_resource_bounds small_board = Inr ()"
    by (rule tightened[OF small_board_validates])
  from segment_test_no_overflow[OF this, of "\<lparr>x_nm = 0, y_nm = 0\<rparr>" "\<lparr>x_nm = 1000000, y_nm = 0\<rparr>"
      "\<lparr>x_nm = 0, y_nm = 1000000\<rparr>" "\<lparr>x_nm = 1000000, y_nm = 0\<rparr>" 4600000000 False]
  show ?thesis
    by (simp add: board_points_def small_board_defs max_distance_twice_def segment_compare_def
        segments_intersect_def orientation_def point_on_segment_def point_segment_compare_def
        compare_ratio_def)
qed

end
