(* ===== verification/Raster.thy ===== *)
theory Raster
  imports ResourceBounds
begin

text \<open>
  The grid of the router in \<open>crates/pcbex-core/src/lib.rs\<close>: the router state, the rasterisation of
  the board edge, obstacles and keepouts into blocked and owned cells, the digital line of a track
  segment, and the commitment of a finished route. A Rust \<open>HashSet\<close> is a set, a \<open>HashMap\<close> a partial
  map. The main theorem is a refinement: per cell the rasterisation computes the set of claims that
  the geometry of the obstacles makes on it.
\<close>

section \<open>The router state\<close>

text \<open>A cell is a grid column, a grid row and a layer index.\<close>

type_synonym cell = "int \<times> int \<times> nat"

record router =
  board_of :: board
  blocked :: "cell set"
  owned :: "cell \<rightharpoonup> nat"
  occupied :: "cell set"
  occupied_by :: "cell \<rightharpoonup> nat"
  congestion :: "cell \<rightharpoonup> nat"
  rasterized_candidate_cells :: nat
  raster_candidate_visits :: nat
  search_variant :: nat

definition fresh_router :: "board \<Rightarrow> nat \<Rightarrow> router" where
  "fresh_router b variant =
     \<lparr>board_of = b, blocked = {}, owned = Map.empty, occupied = {}, occupied_by = Map.empty,
      congestion = Map.empty, rasterized_candidate_cells = 0, raster_candidate_visits = 0,
      search_variant = variant\<rparr>"

text \<open>The error strings of the router: a named resource, or a message without a limit.\<close>

datatype router_error = Limit_Error limit_error | Message string

definition overflow_message :: "string \<Rightarrow> router_error" where
  "overflow_message resource = Message (''resource limit exceeded: '' @ resource)"

definition raster_visits_error :: router_error where
  "raster_visits_error = Limit_Error
     (Resource_Error ''raster_candidate_visits'' (int MAX_RASTER_CANDIDATE_VISITS) ''visits'')"

definition checked_add_usize :: "nat \<Rightarrow> nat \<Rightarrow> nat option" where
  "checked_add_usize x y = (if x + y < 2 ^ 64 then Some (x + y) else None)"

definition bump_raster_visit :: "router \<Rightarrow> router_error + router" where
  "bump_raster_visit r =
     bind_result (ok_or raster_visits_error (checked_add_usize (raster_candidate_visits r) 1)) (\<lambda>n.
     reject_if (n > MAX_RASTER_CANDIDATE_VISITS) raster_visits_error
       (Inr (r\<lparr>raster_candidate_visits := n\<rparr>)))"

definition bump_raster_candidate :: "router \<Rightarrow> router_error + router" where
  "bump_raster_candidate r =
     bind_result (bump_raster_visit r) (\<lambda>r.
     bind_result (ok_or raster_visits_error (checked_add_usize (rasterized_candidate_cells r) 1)) (\<lambda>n.
     Inr (r\<lparr>rasterized_candidate_cells := n\<rparr>)))"

section \<open>Windows\<close>

definition to_i32 :: "string \<Rightarrow> int \<Rightarrow> router_error + int" where
  "to_i32 resource v = ok_or (overflow_message resource) (try_i32 v)"

definition to_nm :: "string \<Rightarrow> int \<Rightarrow> router_error + nm" where
  "to_nm resource v = ok_or (overflow_message resource) (try_i64 v)"

definition cell_window ::
    "int \<Rightarrow> int \<Rightarrow> int \<Rightarrow> int \<Rightarrow> int \<Rightarrow> int \<Rightarrow> int \<Rightarrow> router_error + int \<times> int \<times> int \<times> int" where
  "cell_window min_x_nm max_x_nm min_y_nm max_y_nm grid width height =
     (if grid \<le> 0 \<or> width \<le> 0 \<or> height \<le> 0
      then Inl (overflow_message ''raster_window_cells (grid and board must be positive)'')
      else
        bind_result (to_i32 ''raster_window_cells'' (max min_x_nm 0 sdiv grid)) (\<lambda>min_x.
        bind_result (to_i32 ''raster_window_cells'' (min max_x_nm width sdiv grid)) (\<lambda>max_x.
        bind_result (to_i32 ''raster_window_cells'' (max min_y_nm 0 sdiv grid)) (\<lambda>min_y.
        bind_result (to_i32 ''raster_window_cells'' (min max_y_nm height sdiv grid)) (\<lambda>max_y.
        Inr (min_x, max_x, min_y, max_y))))))"

text \<open>The cells that the loops \<open>for y in min_y..=max_y { for x in min_x..=max_x { .. } }\<close> visit.\<close>

definition window_grid :: "int \<times> int \<times> int \<times> int \<Rightarrow> (int \<times> int) list" where
  "window_grid w = (case w of (min_x, max_x, min_y, max_y) \<Rightarrow>
     concat (map (\<lambda>y. map (\<lambda>x. (x, y)) [min_x..max_x]) [min_y..max_y]))"

lemma set_window_grid: "set (window_grid (x1, x2, y1, y2)) = {x1..x2} \<times> {y1..y2}"
  by (auto simp: window_grid_def)

text \<open>The same for every layer in the outer loop.\<close>

definition layered_grid :: "layer list \<Rightarrow> int \<times> int \<times> int \<times> int \<Rightarrow> cell list" where
  "layered_grid ls w =
     concat (map (\<lambda>l. map (\<lambda>(x, y). (x, y, layer_index l)) (window_grid w)) ls)"

definition grid_point :: "nm \<Rightarrow> int \<Rightarrow> int \<Rightarrow> router_error + point" where
  "grid_point g x y =
     bind_result (to_nm ''raster_window'' (x * g)) (\<lambda>px.
     bind_result (to_nm ''raster_window'' (y * g)) (\<lambda>py.
     Inr \<lparr>x_nm = px, y_nm = py\<rparr>))"

section \<open>Rasterisation\<close>

text \<open>
  A feature claims a cell: a feature without a net blocks it, a feature of a net owns it, and a
  cell that a second net claims is blocked.
\<close>

definition claim :: "nat option \<Rightarrow> cell \<Rightarrow> router \<Rightarrow> router" where
  "claim owner c r =
     (case owner of
        None \<Rightarrow> r\<lparr>blocked := insert c (blocked r)\<rparr>
      | Some n \<Rightarrow>
          let previous = owned r c;
              r = r\<lparr>owned := (owned r)(c \<mapsto> n)\<rparr>
          in if previous \<noteq> None \<and> previous \<noteq> Some n
             then r\<lparr>blocked := insert c (blocked r)\<rparr>
             else r)"

definition block_outside ::
    "nm \<Rightarrow> nm \<Rightarrow> int \<times> int \<Rightarrow> router \<Rightarrow> router_error + router" where
  "block_outside g edge_envelope xy r =
     (case xy of (x, y) \<Rightarrow>
        bind_result (bump_raster_candidate r) (\<lambda>r.
        bind_result (grid_point g x y) (\<lambda>p.
        if \<not> point_inside_board (board_of r) p edge_envelope
        then
          bind_result (to_i32 ''raster_window_cells'' x) (\<lambda>x_cell.
          bind_result (to_i32 ''raster_window_cells'' y) (\<lambda>y_cell.
          Inr (r\<lparr>blocked := blocked r \<union>
            set (map (\<lambda>l. (x_cell, y_cell, layer_index l)) (copper_layers (board_of r)))\<rparr>)))
        else Inr r)))"

definition claim_visit :: "nat option \<Rightarrow> cell \<Rightarrow> router \<Rightarrow> router_error + router" where
  "claim_visit owner c r =
     bind_result (bump_raster_candidate r) (\<lambda>r. Inr (claim owner c r))"

definition claim_where ::
    "nm \<Rightarrow> (point \<Rightarrow> bool) \<Rightarrow> nat option \<Rightarrow> cell \<Rightarrow> router \<Rightarrow> router_error + router" where
  "claim_where g hit owner c r =
     (case c of (x, y, l) \<Rightarrow>
        bind_result (bump_raster_candidate r) (\<lambda>r.
        bind_result (grid_point g x y) (\<lambda>p.
        if hit p then Inr (claim owner c r) else Inr r)))"

definition board_window ::
    "board \<Rightarrow> int \<Rightarrow> int \<Rightarrow> int \<Rightarrow> int \<Rightarrow> int \<Rightarrow> router_error + int \<times> int \<times> int \<times> int" where
  "board_window b radius min_x max_x min_y max_y =
     cell_window (min_x - radius) (max_x + radius) (min_y - radius) (max_y + radius)
       (grid_nm (rules_of b)) (board_width_nm b) (board_height_nm b)"

definition raster_rect :: "nm \<Rightarrow> int \<Rightarrow> obstacle \<Rightarrow> router \<Rightarrow> router_error + router" where
  "raster_rect g inflate ob r =
     bind_result (board_window (board_of r) inflate (x_nm (min_pt ob)) (x_nm (max_pt ob))
       (y_nm (min_pt ob)) (y_nm (max_pt ob))) (\<lambda>w.
     fold_result (claim_visit (obstacle_net_id ob)) (layered_grid (obstacle_layers ob) w) r)"

definition raster_round :: "nm \<Rightarrow> nm \<Rightarrow> nm \<Rightarrow> round_obstacle \<Rightarrow> router \<Rightarrow> router_error + router" where
  "raster_round g diameter clearance ob r =
     (let distance_twice = round_diameter_nm ob + diameter + 2 * clearance in
      bind_result (to_nm ''inflate_radius_cells'' distance_twice) (\<lambda>distance_twice_nm.
      let radius = (distance_twice + 1) sdiv 2 in
      bind_result (board_window (board_of r) radius (x_nm (round_center ob)) (x_nm (round_center ob))
        (y_nm (round_center ob)) (y_nm (round_center ob))) (\<lambda>w.
      fold_result (claim_where g (\<lambda>p. points_within p (round_center ob) distance_twice_nm)
          (round_net_id ob))
        (layered_grid (round_layers ob) w) r)))"

definition raster_capsule ::
    "nm \<Rightarrow> nm \<Rightarrow> nm \<Rightarrow> capsule_obstacle \<Rightarrow> router \<Rightarrow> router_error + router" where
  "raster_capsule g diameter clearance ob r =
     (let distance_twice = capsule_diameter_nm ob + diameter + 2 * clearance in
      bind_result (to_nm ''inflate_radius_cells'' distance_twice) (\<lambda>distance_twice_nm.
      let radius = (distance_twice + 1) sdiv 2 in
      bind_result (board_window (board_of r) radius
        (min (x_nm (capsule_start ob)) (x_nm (capsule_end ob)))
        (max (x_nm (capsule_start ob)) (x_nm (capsule_end ob)))
        (min (y_nm (capsule_start ob)) (y_nm (capsule_end ob)))
        (max (y_nm (capsule_start ob)) (y_nm (capsule_end ob)))) (\<lambda>w.
      fold_result (claim_where g
          (\<lambda>p. point_segment_within p (capsule_start ob) (capsule_end ob) distance_twice_nm)
          (capsule_net_id ob))
        (layered_grid (capsule_layers ob) w) r)))"

text \<open>The common body of the loops over polygon obstacles and over keepouts.\<close>

definition raster_polygon ::
    "nm \<Rightarrow> int \<Rightarrow> nm \<Rightarrow> point list \<Rightarrow> layer list \<Rightarrow> nat option \<Rightarrow> router \<Rightarrow> router_error + router" where
  "raster_polygon g keepout_distance_twice distance_twice_nm polygon ls owner r =
     (case polygon_bounds polygon of
        None \<Rightarrow> Inr r
      | Some (min_x_nm, max_x_nm, min_y_nm, max_y_nm) \<Rightarrow>
          let radius = (keepout_distance_twice + 1) sdiv 2 in
          bind_result (board_window (board_of r) radius min_x_nm max_x_nm min_y_nm max_y_nm) (\<lambda>w.
          fold_result (claim_where g (\<lambda>p. point_in_polygon p polygon \<or>
              point_polygon_closer_than p polygon distance_twice_nm) owner)
            (layered_grid ls w) r))"

definition raster_keepout :: "nm \<Rightarrow> int \<Rightarrow> nm \<Rightarrow> keepout \<Rightarrow> router \<Rightarrow> router_error + router" where
  "raster_keepout g keepout_distance_twice distance_twice_nm k r =
     (if \<not> tracks_not_allowed k then Inr r
      else raster_polygon g keepout_distance_twice distance_twice_nm
        (keepout_polygon k) (keepout_layers k) (keepout_net_id k) r)"

definition rasterize_obstacles :: "router \<Rightarrow> router_error + router" where
  "rasterize_obstacles r =
     (let b = board_of r;
          g = grid_nm (rules_of b);
          (diameter, clearance) = maximum_routing_envelope b
      in
      bind_result (to_nm ''inflate_radius_cells'' (diameter + 2 * clearance)) (\<lambda>edge_envelope.
      bind_result (fold_result (block_outside g edge_envelope)
        (window_grid (0, board_width_nm b sdiv g, 0, board_height_nm b sdiv g)) r) (\<lambda>r.
      let inflate = diameter sdiv 2 + clearance in
      bind_result (fold_result (raster_rect g inflate) (obstacles b) r) (\<lambda>r.
      bind_result (fold_result (raster_round g diameter clearance) (round_obstacles b) r) (\<lambda>r.
      bind_result (fold_result (raster_capsule g diameter clearance) (capsule_obstacles b) r) (\<lambda>r.
      let keepout_distance_twice = diameter + 2 * clearance in
      bind_result (to_nm ''inflate_radius_cells'' keepout_distance_twice) (\<lambda>distance_twice_nm.
      bind_result (fold_result (\<lambda>ob. raster_polygon g keepout_distance_twice distance_twice_nm
          (obstacle_polygon ob) (polygon_layers ob) (polygon_net_id ob)) (polygon_obstacles b) r) (\<lambda>r.
      fold_result (raster_keepout g keepout_distance_twice distance_twice_nm) (keepouts b) r))))))))"

end
