(* ===== verification/RasterLine.thy ===== *)
theory RasterLine
  imports Raster
begin

text \<open>
  The digital line of a track segment, \<open>raster_line_cells\<close> of \<open>crates/pcbex-core/src/lib.rs\<close>. The loop is an integer line algorithm
  with an error term; the theorem says that it ends, how many cells it visits and how far they are
  from the ideal line.
\<close>

section \<open>The digital line of a segment\<close>

definition line_error :: router_error where
  "line_error = Limit_Error (Resource_Error ''raster_line_cells'' (int MAX_RASTER_LINE_CELLS) ''cells'')"

text \<open>
  The loop of \<open>raster_line_cells\<close>; the fuel is the capacity that the code reserves for the result.
  Running out of it would mean that the loop pushes more cells than that.
\<close>

definition line_fuel_error :: router_error where
  "line_fuel_error = Message ''raster line longer than its capacity''"

fun line_loop ::
    "nat \<Rightarrow> int \<Rightarrow> int \<Rightarrow> int \<Rightarrow> int \<Rightarrow> int \<Rightarrow> int \<Rightarrow> int \<Rightarrow> int \<Rightarrow> int \<Rightarrow>
       router_error + (int \<times> int) list" where
  "line_loop 0 dx dy step_x step_y end_x end_y err x y = Inl line_fuel_error"
| "line_loop (Suc fuel) dx dy step_x step_y end_x end_y err x y =
     bind_result (to_nm ''raster_line_cells'' x) (\<lambda>px.
     bind_result (to_nm ''raster_line_cells'' y) (\<lambda>py.
     if x = end_x \<and> y = end_y then Inr [(px, py)]
     else
       bind_result (ok_or (overflow_message ''raster_line_cells (checked arithmetic)'')
         (checked_i128 (err * 2))) (\<lambda>twice_error.
       let (err, x) = (if twice_error \<ge> dy then (err + dy, x + step_x) else (err, x));
           (err, y) = (if twice_error \<le> dx then (err + dx, y + step_y) else (err, y))
       in
       bind_result (line_loop fuel dx dy step_x step_y end_x end_y err x y) (\<lambda>cells.
       Inr ((px, py) # cells)))))"

definition raster_line_cells :: "nm \<Rightarrow> nm \<Rightarrow> nm \<Rightarrow> nm \<Rightarrow> router_error + (int \<times> int) list" where
  "raster_line_cells x y end_x end_y =
     (let dx = \<bar>end_x - x\<bar>;
          step_x = sgn (end_x - x);
          dy = - \<bar>end_y - y\<bar>;
          step_y = sgn (end_y - y)
      in
      bind_result (ok_or line_error (checked_i128 (max dx (- dy) + 1))) (\<lambda>line_cells.
      bind_result (ok_or line_error (if 0 \<le> line_cells \<and> line_cells < 2 ^ 64 then Some (nat line_cells) else None)) (\<lambda>line_cells.
      reject_if (line_cells > MAX_RASTER_LINE_CELLS) line_error
        (line_loop line_cells dx dy step_x step_y end_x end_y (dx + dy) x y))))"

text \<open>
  After \<open>i\<close> steps in the first axis and \<open>j\<close> in the second, the error term is the defect of the
  slope. It stays within half of the longer side, so the longer axis advances at every step and
  the loop ends exactly at the end cell.
\<close>

definition line_walk :: "int \<Rightarrow> int \<Rightarrow> int \<Rightarrow> int \<Rightarrow> bool" where
  "line_walk a b i j \<longleftrightarrow> 0 \<le> i \<and> i \<le> a \<and> 0 \<le> j \<and> j \<le> b \<and> 2 * \<bar>a * j - b * i\<bar> \<le> max a b"

lemma twice_abs_le: "2 * \<bar>x\<bar> \<le> a \<longleftrightarrow> 2 * x \<le> a \<and> - (2 * x) \<le> (a :: int)"
  by linarith

lemma line_walk_swap: "line_walk a b i j \<longleftrightarrow> line_walk b a j i"
  by (auto simp: line_walk_def max.commute abs_minus_commute)

lemma line_walk_end:
  assumes "line_walk a b a j" "b \<le> a"
  shows "j = b"
proof (rule ccontr)
  assume "j \<noteq> b"
  define k where "k = \<bar>j - b\<bar>"
  have "a * 1 \<le> a * k"
    using \<open>j \<noteq> b\<close> assms by (intro mult_left_mono) (auto simp: line_walk_def k_def)
  moreover have "\<bar>a * j - b * a\<bar> = a * k"
    using assms by (simp add: line_walk_def k_def abs_mult flip: right_diff_distrib' add: mult.commute[of b])
  moreover have "2 * \<bar>a * j - b * a\<bar> \<le> a" "0 \<le> a" using assms by (auto simp: line_walk_def)
  ultimately have "2 * (a * k) \<le> a" "a \<le> a * k" by simp_all
  then have "a = 0" using \<open>0 \<le> a\<close> by linarith
  then show False using assms \<open>j \<noteq> b\<close> by (simp add: line_walk_def)
qed

lemma line_walk_step_major:
  assumes w: "line_walk a b i j" and ne: "(i, j) \<noteq> (a, b)" and le: "b \<le> a"
  defines "t \<equiv> 2 * (a - b + (a * j - b * i))"
  shows "t \<ge> - b \<and> i < a \<and> line_walk a b (i + 1) (if t \<le> a then j + 1 else j)"
proof -
  have d: "2 * \<bar>a * j - b * i\<bar> \<le> a" and r: "0 \<le> i" "i \<le> a" "0 \<le> j" "j \<le> b"
    using w le by (auto simp: line_walk_def)
  have i: "i < a" using ne w r line_walk_end[OF _ le, of j] by (cases "i = a") auto
  have j: "j < b" if "t \<le> a"
  proof (rule ccontr)
    assume "\<not> j < b"
    then have "j = b" using r by simp
    moreover have "b * 1 \<le> b * (a - i)" using i r by (intro mult_left_mono) auto
    ultimately have "2 * a \<le> t" by (simp add: t_def algebra_simps)
    then show False using that i r by linarith
  qed
  have m: "max a b = a" using le by simp
  have up: "a * (j + 1) = a * j + a" "b * (i + 1) = b * i + b" by (simp_all add: algebra_simps)
  have "2 * \<bar>a * (if t \<le> a then j + 1 else j) - b * (i + 1)\<bar> \<le> a"
    using d le r unfolding t_def twice_abs_le by (cases "t \<le> a") (simp_all add: t_def up)
  then have "line_walk a b (i + 1) (if t \<le> a then j + 1 else j)"
    using i j r by (auto simp: line_walk_def m)
  moreover have "t \<ge> - b"
  proof -
    have "- (2 * (a * j - b * i)) \<le> a" using d by (simp only: twice_abs_le)
    then show ?thesis using le by (simp add: t_def)
  qed
  ultimately show ?thesis using i by blast
qed

lemma line_walk_step:
  assumes w: "line_walk a b i j" and ne: "(i, j) \<noteq> (a, b)"
  defines "t \<equiv> 2 * (a - b + (a * j - b * i))"
  shows "line_walk a b (if t \<ge> - b then i + 1 else i) (if t \<le> a then j + 1 else j)"
    and "b \<le> a \<Longrightarrow> t \<ge> - b" and "a \<le> b \<Longrightarrow> t \<le> a"
proof -
  consider (x) "b \<le> a" | (y) "a \<le> b" by linarith
  then have "line_walk a b (if t \<ge> - b then i + 1 else i) (if t \<le> a then j + 1 else j) \<and>
      (b \<le> a \<longrightarrow> t \<ge> - b) \<and> (a \<le> b \<longrightarrow> t \<le> a)"
  proof cases
    case x
    have "t \<le> a" if "a \<le> b"
    proof -
      have "a = b" using that x by simp
      then show ?thesis using w unfolding t_def line_walk_def twice_abs_le by simp
    qed
    then show ?thesis using line_walk_step_major[OF w ne x] by (simp add: t_def)
  next
    case y
    have w': "line_walk b a j i" and ne': "(j, i) \<noteq> (b, a)" using w ne by (auto simp: line_walk_swap)
    have t: "2 * (b - a + (b * i - a * j)) = - t" by (simp add: t_def)
    have "t \<ge> - b" if "b \<le> a"
    proof -
      have "a = b" using that y by simp
      then show ?thesis using w unfolding t_def line_walk_def twice_abs_le by simp
    qed
    moreover have "- b \<le> t \<longleftrightarrow> - t \<le> b" "- a \<le> - t \<longleftrightarrow> t \<le> a" by linarith+
    ultimately show ?thesis
      using line_walk_step_major[OF w' ne' y] line_walk_swap[of a b "if t \<ge> - b then i + 1 else i" "j + 1"]
      unfolding t by simp
  qed
  then show "line_walk a b (if t \<ge> - b then i + 1 else i) (if t \<le> a then j + 1 else j)"
    and "b \<le> a \<Longrightarrow> t \<ge> - b" and "a \<le> b \<Longrightarrow> t \<le> a" by auto
qed

text \<open>
  The cells of a walk from \<open>(i, j)\<close> to its end \<open>(a, b)\<close>, in the quadrant that the two signs give.
\<close>

definition walk_cells ::
    "int \<Rightarrow> int \<Rightarrow> int \<Rightarrow> int \<Rightarrow> int \<Rightarrow> int \<Rightarrow> int \<Rightarrow> int \<Rightarrow> (int \<times> int) list \<Rightarrow> bool" where
  "walk_cells x0 y0 sx sy a b i j cells \<longleftrightarrow>
     cells \<noteq> [] \<and> hd cells = (x0 + sx * i, y0 + sy * j) \<and> last cells = (x0 + sx * a, y0 + sy * b) \<and>
     (\<forall>(p, q) \<in> set (windows2 cells). p \<noteq> q \<and> \<bar>fst q - fst p\<bar> \<le> 1 \<and> \<bar>snd q - snd p\<bar> \<le> 1) \<and>
     (\<forall>c \<in> set cells. \<exists>i j. line_walk a b i j \<and> c = (x0 + sx * i, y0 + sy * j))"

lemma walk_cells_Cons:
  assumes "walk_cells x0 y0 sx sy a b i' j' cells" and "line_walk a b i j"
    and "i' \<in> {i, i + 1}" "j' \<in> {j, j + 1}" "(x0 + sx * i, y0 + sy * j) \<noteq> (x0 + sx * i', y0 + sy * j')"
    and "\<bar>sx\<bar> \<le> 1" "\<bar>sy\<bar> \<le> 1"
  shows "walk_cells x0 y0 sx sy a b i j ((x0 + sx * i, y0 + sy * j) # cells)"
proof -
  obtain c cs where cells: "cells = c # cs" "c = (x0 + sx * i', y0 + sy * j')"
    using assms(1) by (cases cells) (auto simp: walk_cells_def)
  have "\<bar>sx * i' - sx * i\<bar> \<le> 1" "\<bar>sy * j' - sy * j\<bar> \<le> 1"
    using assms(3,4,6,7) by (auto simp: algebra_simps)
  then show ?thesis
    using assms(1,2,5) unfolding walk_cells_def cells by auto
qed

lemma line_loop_walk:
  assumes "line_walk a b i j" and "fuel = nat (max a b - (if b \<le> a then i else j)) + 1"
    and "\<bar>sx\<bar> = (if a = 0 then 0 else 1)" "\<bar>sy\<bar> = (if b = 0 then 0 else 1)"
    and "\<And>i. 0 \<le> i \<Longrightarrow> i \<le> a \<Longrightarrow> i64_ok (x0 + sx * i)" "\<And>j. 0 \<le> j \<Longrightarrow> j \<le> b \<Longrightarrow> i64_ok (y0 + sy * j)"
    and "a \<le> 2 ^ 64" "b \<le> 2 ^ 64"
  shows "\<exists>cells. line_loop fuel a (- b) sx sy (x0 + sx * a) (y0 + sy * b)
      (a - b + (a * j - b * i)) (x0 + sx * i) (y0 + sy * j) = Inr cells \<and>
    length cells = fuel \<and> walk_cells x0 y0 sx sy a b i j cells"
  using assms(1,2)
proof (induction fuel arbitrary: i j)
  case (Suc fuel)
  note w = Suc.prems(1)
  have ij: "0 \<le> i" "i \<le> a" "0 \<le> j" "j \<le> b" using w by (auto simp: line_walk_def)
  have nm: "to_nm r (x0 + sx * i) = Inr (x0 + sx * i)" "to_nm r (y0 + sy * j) = Inr (y0 + sy * j)" for r
    using assms(5)[of i] assms(6)[of j] ij by (simp_all add: to_nm_def try_i64_def)
  have x_end: "x0 + sx * i = x0 + sx * a \<longleftrightarrow> i = a" and y_end: "y0 + sy * j = y0 + sy * b \<longleftrightarrow> j = b"
    using assms(3,4) ij by (auto split: if_splits)
  show ?case
  proof (cases "(i, j) = (a, b)")
    case True
    then show ?thesis using nm Suc.prems(2) w by (auto simp: walk_cells_def)
  next
    case False
    let ?t = "2 * (a - b + (a * j - b * i))"
    let ?i = "if ?t \<ge> - b then i + 1 else i" and ?j = "if ?t \<le> a then j + 1 else j"
    note step = line_walk_step[OF w False]
    have i': "?i \<in> {i, i + 1}" and j': "?j \<in> {j, j + 1}" by auto
    have "max a b \<le> 2 ^ 64" using assms(7,8) by simp
    then have "2 * \<bar>a * j - b * i\<bar> \<le> 2 ^ 64" using w unfolding line_walk_def by linarith
    then have "\<bar>a * j - b * i\<bar> \<le> 2 ^ 64" "\<bar>a - b\<bar> \<le> 2 ^ 64"
      using assms(7,8) ij by simp_all
    then have c: "checked_i128 ((a - b + (a * j - b * i)) * 2) = Some ?t"
      by (simp add: checked_i128_def i128_ok_def abs_le_iff)
    have "(if b \<le> a then ?i else ?j) = (if b \<le> a then i else j) + 1" using step(2,3) by simp
    moreover have "?i \<le> a" "?j \<le> b" using step(1) by (simp_all only: line_walk_def)
    then have "(if b \<le> a then ?i else ?j) \<le> max a b" by (simp split: if_splits)
    ultimately have "fuel = nat (max a b - (if b \<le> a then ?i else ?j)) + 1"
      using Suc.prems(2) by simp
    with Suc.IH[OF step(1)] obtain cells where
      cells: "line_loop fuel a (- b) sx sy (x0 + sx * a) (y0 + sy * b)
        (a - b + (a * ?j - b * ?i)) (x0 + sx * ?i) (y0 + sy * ?j) = Inr cells"
      "length cells = fuel" "walk_cells x0 y0 sx sy a b ?i ?j cells" by blast
    have "(x0 + sx * i, y0 + sy * j) \<noteq> (x0 + sx * ?i, y0 + sy * ?j)"
      using step ij assms(3,4) False by (auto simp: line_walk_def algebra_simps split: if_splits)
    then have "walk_cells x0 y0 sx sy a b i j ((x0 + sx * i, y0 + sy * j) # cells)"
      using cells(3) w i' j' assms(3,4) by (intro walk_cells_Cons) (auto split: if_splits)
    moreover have "line_loop (Suc fuel) a (- b) sx sy (x0 + sx * a) (y0 + sy * b)
        (a - b + (a * j - b * i)) (x0 + sx * i) (y0 + sy * j) = Inr ((x0 + sx * i, y0 + sy * j) # cells)"
      using cells(1) False unfolding line_loop.simps nm c x_end y_end bind_result_simps ok_or_simps
      by (auto simp: algebra_simps split: if_splits)
    ultimately show ?thesis using cells(2) by (intro exI conjI) auto
  qed
qed (use assms in \<open>auto simp: line_walk_def\<close>)

lemma walk_near_line:
  assumes "line_walk a b i j" "\<bar>sx\<bar> \<le> 1" "\<bar>sy\<bar> \<le> (1 :: int)"
  shows "2 * \<bar>(sx * a) * (sy * j) - (sy * b) * (sx * i)\<bar> \<le> max a b"
proof -
  have "(sx * a) * (sy * j) - (sy * b) * (sx * i) = sx * sy * (a * j - b * i)"
    by (simp add: algebra_simps)
  moreover have "\<bar>sx * sy\<bar> \<le> 1 * 1" unfolding abs_mult using assms by (intro mult_mono) auto
  then have "\<bar>sx * sy\<bar> * \<bar>a * j - b * i\<bar> \<le> 1 * \<bar>a * j - b * i\<bar>"
    by (intro mult_right_mono) auto
  ultimately show ?thesis
    using assms(1) by (simp add: line_walk_def abs_mult)
qed

lemma raster_line_cells_unfold:
  assumes "i64_ok x" "i64_ok y" "i64_ok ex" "i64_ok ey"
  defines "a \<equiv> \<bar>ex - x\<bar>" and "b \<equiv> \<bar>ey - y\<bar>"
  shows "raster_line_cells x y ex ey =
    (if nat (max a b) + 1 > MAX_RASTER_LINE_CELLS then Inl line_error
     else line_loop (nat (max a b) + 1) a (- b) (sgn (ex - x)) (sgn (ey - y)) ex ey (a - b) x y)"
proof -
  have "a < 2 ^ 64" "b < 2 ^ 64" "0 \<le> a" "0 \<le> b"
    using assms(1-4) by (auto simp: a_def b_def i64_ok_def)
  then have m: "0 \<le> max a b" "max a b < 2 ^ 64" by auto
  then have c: "checked_i128 (max a b + 1) = Some (max a b + 1)" by (simp add: checked_i128_def i128_ok_def)
  have n: "nat (max a b + 1) = nat (max a b) + 1" using m by simp
  show ?thesis
  proof (cases "max a b + 1 < 2 ^ 64")
    case True
    then show ?thesis
      unfolding raster_line_cells_def Let_def a_def[symmetric] b_def[symmetric]
      using m n by (simp add: c reject_if_def)
  next
    case False
    moreover have "int MAX_RASTER_LINE_CELLS + 1 < 2 ^ 64" by (simp add: MAX_RASTER_LINE_CELLS_def)
    ultimately have "int MAX_RASTER_LINE_CELLS < max a b" by linarith
    then have "MAX_RASTER_LINE_CELLS < nat (max a b) + 1" by linarith
    then show ?thesis
      unfolding raster_line_cells_def Let_def a_def[symmetric] b_def[symmetric]
      using False m n by (auto simp: c reject_if_def)
  qed
qed

text \<open>The digital line of a segment ends for all coordinates. When it fits the limit it has exactly
  one cell more than the longer of its two extents, starts and ends at the given cells, moves by at
  most one column and one row per step and never stands still, and every cell is within half a cell
  of the ideal line, measured along the shorter axis. Otherwise it is the limit error.\<close>

theorem raster_line_correct:
  assumes "i64_ok x" "i64_ok y" "i64_ok ex" "i64_ok ey"
  defines "m \<equiv> max \<bar>ex - x\<bar> \<bar>ey - y\<bar>"
  shows "if m + 1 \<le> int MAX_RASTER_LINE_CELLS
    then \<exists>cells. raster_line_cells x y ex ey = Inr cells \<and> int (length cells) = m + 1 \<and>
      hd cells = (x, y) \<and> last cells = (ex, ey) \<and>
      (\<forall>(p, q) \<in> set (windows2 cells). p \<noteq> q \<and> \<bar>fst q - fst p\<bar> \<le> 1 \<and> \<bar>snd q - snd p\<bar> \<le> 1) \<and>
      (\<forall>(cx, cy) \<in> set cells. 2 * \<bar>(ex - x) * (cy - y) - (ey - y) * (cx - x)\<bar> \<le> m)
    else raster_line_cells x y ex ey = Inl line_error"
proof -
  define a b where "a = \<bar>ex - x\<bar>" and "b = \<bar>ey - y\<bar>"
  define sx sy where "sx = sgn (ex - x)" and "sy = sgn (ey - y)"
  have m: "m = max a b" by (simp add: m_def a_def b_def)
  have ends: "x + sx * a = ex" "y + sy * b = ey"
    by (simp_all add: sx_def sy_def a_def b_def mult_sgn_abs)
  have walk0: "line_walk a b 0 0" by (simp add: line_walk_def a_def b_def)
  have signs: "\<bar>sx\<bar> = (if a = 0 then 0 else 1)" "\<bar>sy\<bar> = (if b = 0 then 0 else 1)"
    by (simp_all add: sx_def sy_def a_def b_def sgn_if)
  have ranges: "i64_ok (x + sx * i)" if "0 \<le> i" "i \<le> a" for i
    using that assms(1,3) by (auto simp: sx_def a_def sgn_if i64_ok_def split: if_splits)
  have ranges': "i64_ok (y + sy * j)" if "0 \<le> j" "j \<le> b" for j
    using that assms(2,4) by (auto simp: sy_def b_def sgn_if i64_ok_def split: if_splits)
  have big: "a \<le> 2 ^ 64" "b \<le> 2 ^ 64"
    using assms(1-4) by (auto simp: a_def b_def i64_ok_def)
  note unfold = raster_line_cells_unfold[OF assms(1-4), folded a_def b_def sx_def sy_def]
  show ?thesis
  proof (cases "m + 1 \<le> int MAX_RASTER_LINE_CELLS")
    case True
    then have "\<not> nat (max a b) + 1 > MAX_RASTER_LINE_CELLS" using walk0 unfolding m line_walk_def by linarith
    then have eq: "raster_line_cells x y ex ey =
        line_loop (nat (max a b) + 1) a (- b) sx sy ex ey (a - b) x y"
      using unfold by simp
    obtain cells where cells: "raster_line_cells x y ex ey = Inr cells"
      "length cells = nat (max a b) + 1" "walk_cells x y sx sy a b 0 0 cells"
      using line_loop_walk[OF walk0 refl signs ranges ranges' big] unfolding ends eq by auto
    have "2 * \<bar>(ex - x) * (cy - y) - (ey - y) * (cx - x)\<bar> \<le> m" if "(cx, cy) \<in> set cells" for cx cy
    proof -
      obtain i j where "line_walk a b i j" "cx = x + sx * i" "cy = y + sy * j"
        using cells(3) \<open>(cx, cy) \<in> set cells\<close> unfolding walk_cells_def by (metis prod.inject)
      moreover have "ex - x = sx * a" "ey - y = sy * b" using ends by linarith+
      ultimately show ?thesis using walk_near_line[of a b i j sx sy] signs m by (simp split: if_splits)
    qed
    then show ?thesis
      using True cells walk0 unfolding walk_cells_def ends m
      by (auto simp: line_walk_def)
  next
    case False
    then have "nat (max a b) + 1 > MAX_RASTER_LINE_CELLS" unfolding m by linarith
    then show ?thesis using False unfold by simp
  qed
qed

theorem raster_line_correct_witness:
  "\<exists>cells. raster_line_cells 2 1 (- 3) 3 = Inr cells \<and> length cells = 6 \<and> last cells = (- 3, 3)"
  using raster_line_correct[of 2 1 "- 3" 3] by (auto simp: i64_ok_def MAX_RASTER_LINE_CELLS_def)

end
