(* ===== verification/RasterExact.thy ===== *)
theory RasterExact
  imports Raster
begin

text \<open>
  What the rasterisation computes. The abstract state of a cell is the set of claims on it: the
  net of every feature that covers the cell, or no net. The router refines it: a cell is blocked
  when a feature without a net or two different nets claim it, and an owner is one of the claims.
\<close>

section \<open>The abstraction\<close>

definition contested :: "nat option set \<Rightarrow> bool" where
  "contested K \<longleftrightarrow> None \<in> K \<or> (\<exists>m n. m \<noteq> n \<and> Some m \<in> K \<and> Some n \<in> K)"

definition cell_state :: "bool \<Rightarrow> nat option \<Rightarrow> bool \<Rightarrow> nat option set \<Rightarrow> bool" where
  "cell_state blk own out K \<longleftrightarrow>
     (blk \<longleftrightarrow> out \<or> contested K) \<and>
     (\<forall>n. own = Some n \<longrightarrow> Some n \<in> K) \<and> (\<forall>n. Some n \<in> K \<longrightarrow> own \<noteq> None)"

definition represents :: "router \<Rightarrow> cell set \<Rightarrow> (cell \<Rightarrow> nat option set) \<Rightarrow> bool" where
  "represents r outside M \<longleftrightarrow>
     (\<forall>c. cell_state (c \<in> blocked r) (owned r c) (c \<in> outside) (M c))"

lemma represents_fresh: "represents (fresh_router b v) {} (\<lambda>_. {})"
  by (simp add: represents_def cell_state_def contested_def fresh_router_def)

lemma claim_fields:
  "blocked (claim w c r) =
     (if w = None \<or> owned r c \<noteq> None \<and> owned r c \<noteq> w then insert c (blocked r) else blocked r)"
  "owned (claim w c r) = (if w = None then owned r else (owned r)(c := w))"
  "board_of (claim w c r) = board_of r"
  by (auto simp: claim_def Let_def split: option.splits)

lemma cell_state_claim:
  assumes "cell_state blk own out K"
  shows "cell_state (blk \<or> w = None \<or> own \<noteq> None \<and> own \<noteq> w) (if w = None then own else w) out (insert w K)"
  using assms unfolding cell_state_def contested_def
  by (cases w; cases own; auto)

lemma represents_claim:
  assumes "represents r outside M"
  shows "represents (claim w c r) outside (M(c := insert w (M c)))"
  unfolding represents_def
proof
  fix c'
  have old: "cell_state (c' \<in> blocked r) (owned r c') (c' \<in> outside) (M c')"
    using assms unfolding represents_def by blast
  show "cell_state (c' \<in> blocked (claim w c r)) (owned (claim w c r) c') (c' \<in> outside)
      ((M(c := insert w (M c))) c')"
  proof (cases "c' = c")
    case True
    then show ?thesis
      using cell_state_claim[OF old, of w]
      by (cases w; cases "owned r c") (auto simp: claim_fields split: if_splits)
  qed (use old in \<open>simp add: claim_fields\<close>)
qed

text \<open>The counters of visits do not touch the grid.\<close>

lemma bump_unfold:
  assumes "bump_raster_candidate r = Inr r'"
  shows "\<exists>v n. r' = r\<lparr>raster_candidate_visits := v, rasterized_candidate_cells := n\<rparr>"
  using assms
  by (auto simp: bump_raster_candidate_def bump_raster_visit_def bind_result_Inr reject_if_Inr ok_or_Inr)

lemma bump_keeps:
  assumes "bump_raster_candidate r = Inr r'"
  shows "board_of r' = board_of r" "represents r' outside M \<longleftrightarrow> represents r outside M"
  using bump_unfold[OF assms] by (auto simp: represents_def)

definition grid_at :: "nm \<Rightarrow> cell \<Rightarrow> point" where
  "grid_at g c = (case c of (x, y, l) \<Rightarrow> \<lparr>x_nm = x * g, y_nm = y * g\<rparr>)"

lemma grid_point_Inr: "grid_point g x y = Inr p \<Longrightarrow> p = grid_at g (x, y, l)"
  by (auto simp: grid_point_def grid_at_def bind_result_Inr to_nm_def ok_or_Inr try_i64_def split: if_splits)

definition add_claims ::
    "(cell \<Rightarrow> nat option set) \<Rightarrow> cell set \<Rightarrow> nat option \<Rightarrow> cell \<Rightarrow> nat option set" where
  "add_claims M S w = (\<lambda>c. if c \<in> S then insert w (M c) else M c)"

lemma add_claims_empty [simp]: "add_claims M {} w = M"
  by (simp add: add_claims_def)

lemma add_claims_insert: "add_claims (M(c := insert w (M c))) S w = add_claims M (insert c S) w"
  by (rule ext) (simp add: add_claims_def)

text \<open>A fold of claiming visits adds the claims of the cells that are hit.\<close>

lemma claim_where_Inr:
  assumes "claim_where g hit w c r = Inr r'"
  shows "\<exists>r1. bump_raster_candidate r = Inr r1 \<and> r' = (if hit (grid_at g c) then claim w c r1 else r1)"
  using assms grid_point_Inr
  by (cases c) (fastforce simp: claim_where_def bind_result_Inr split: if_splits)

lemma represents_visit:
  assumes "claim_where g hit w c r = Inr r'" and "represents r outside M"
  shows "represents r' outside (add_claims M (if hit (grid_at g c) then {c} else {}) w) \<and> board_of r' = board_of r"
proof -
  obtain r1 where b: "bump_raster_candidate r = Inr r1" and r': "r' = (if hit (grid_at g c) then claim w c r1 else r1)"
    using claim_where_Inr[OF assms(1)] by blast
  have "represents r1 outside M" "board_of r1 = board_of r"
    using bump_keeps[OF b] assms(2) by auto
  then show ?thesis
    using represents_claim[of r1 outside M w c] add_claims_insert[of M c w "{}"]
    by (simp add: r' claim_fields)
qed

lemma add_claims_twice: "add_claims (add_claims M S w) T w = add_claims M (S \<union> T) w"
  by (rule ext) (simp add: add_claims_def)

lemma represents_claim_where:
  assumes "fold_result (claim_where g hit w) cells r = Inr r'" and "represents r outside M"
  shows "represents r' outside (add_claims M {c \<in> set cells. hit (grid_at g c)} w) \<and> board_of r' = board_of r"
  using assms
proof (induction cells arbitrary: r M)
  case (Cons c cells)
  then obtain r1 where r1: "claim_where g hit w c r = Inr r1" and rest: "fold_result (claim_where g hit w) cells r1 = Inr r'"
    by (auto simp: bind_result_Inr)
  have sets: "{d \<in> set (c # cells). hit (grid_at g d)} =
      (if hit (grid_at g c) then {c} else {}) \<union> {d \<in> set cells. hit (grid_at g d)}" by auto
  from represents_visit[OF r1 Cons.prems(2)] have
    "represents r1 outside (add_claims M (if hit (grid_at g c) then {c} else {}) w)" "board_of r1 = board_of r"
    by blast+
  with Cons.IH[OF rest this(1)] show ?case
    unfolding sets add_claims_twice[symmetric] by simp
qed simp

lemma claim_visit_Inr:
  "claim_visit w c r = Inr r' \<Longrightarrow> \<exists>r1. bump_raster_candidate r = Inr r1 \<and> r' = claim w c r1"
  by (auto simp: claim_visit_def bind_result_Inr)

lemma represents_claim_visit:
  assumes "fold_result (claim_visit w) cells r = Inr r'" and "represents r outside M"
  shows "represents r' outside (add_claims M (set cells) w) \<and> board_of r' = board_of r"
  using assms
proof (induction cells arbitrary: r M)
  case (Cons c cells)
  then obtain r1 where r1: "bump_raster_candidate r = Inr r1"
    and rest: "fold_result (claim_visit w) cells (claim w c r1) = Inr r'"
    using claim_visit_Inr[of w c r] by (auto simp: bind_result_Inr simp del: claim_visit_def)
  have "represents (claim w c r1) outside (add_claims M {c} w)"
    using represents_claim[of r1 outside M w c] bump_keeps[OF r1] Cons.prems(2)
      add_claims_insert[of M c w "{}"] by simp
  from Cons.IH[OF rest this] show ?case
    using bump_keeps[OF r1] by (simp add: add_claims_twice claim_fields)
qed simp

section \<open>Steps that add claims\<close>

definition join_claims :: "(cell \<Rightarrow> nat option set) \<Rightarrow> (cell \<Rightarrow> nat option set) \<Rightarrow> cell \<Rightarrow> nat option set" where
  "join_claims M N = (\<lambda>c. M c \<union> N c)"

lemma join_claims_assoc: "join_claims (join_claims M N) N' = join_claims M (\<lambda>c. N c \<union> N' c)"
  by (simp add: join_claims_def Un_assoc)

lemma join_claims_nothing: "join_claims M (\<lambda>_. {}) = M"
  by (simp add: join_claims_def)

definition adds_claims :: "board \<Rightarrow> (router \<Rightarrow> router_error + router) \<Rightarrow> (cell \<Rightarrow> nat option set) \<Rightarrow> bool" where
  "adds_claims b f N \<longleftrightarrow>
     (\<forall>r r' outside M. board_of r = b \<longrightarrow> f r = Inr r' \<longrightarrow> represents r outside M \<longrightarrow>
        represents r' outside (join_claims M N) \<and> board_of r' = b)"

lemma adds_claimsD:
  "adds_claims b f N \<Longrightarrow> board_of r = b \<Longrightarrow> f r = Inr r' \<Longrightarrow> represents r outside M \<Longrightarrow>
     represents r' outside (join_claims M N) \<and> board_of r' = b"
  unfolding adds_claims_def by iprover

lemma adds_claimsI:
  assumes "\<And>r r' outside M. board_of r = b \<Longrightarrow> f r = Inr r' \<Longrightarrow> represents r outside M \<Longrightarrow>
     represents r' outside (join_claims M N) \<and> board_of r' = b"
  shows "adds_claims b f N"
  unfolding adds_claims_def using assms by iprover

lemma adds_claims_skip: "adds_claims b Inr (\<lambda>_. {})"
  by (rule adds_claimsI) (simp add: join_claims_nothing)

lemma adds_claims_bind:
  assumes "adds_claims b f N" and "adds_claims b g N'"
  shows "adds_claims b (\<lambda>r. bind_result (f r) g) (\<lambda>c. N c \<union> N' c)"
proof (rule adds_claimsI)
  fix r r' outside M
  assume r0: "board_of r = b" "bind_result (f r) g = Inr r'" "represents r outside M"
  then obtain r1 where r: "board_of r = b" "f r = Inr r1" "g r1 = Inr r'" "represents r outside M"
    by (auto simp: bind_result_Inr)
  from adds_claimsD[OF assms(1) r(1,2,4)] have r1: "represents r1 outside (join_claims M N)" "board_of r1 = b"
    by blast+
  from adds_claimsD[OF assms(2) r1(2) r(3) r1(1)]
  show "represents r' outside (join_claims M (\<lambda>c. N c \<union> N' c)) \<and> board_of r' = b"
    by (simp add: join_claims_assoc)
qed

lemma adds_claims_fold:
  assumes "\<And>i. i \<in> set items \<Longrightarrow> adds_claims b (f i) (N i)"
  shows "adds_claims b (fold_result f items) (\<lambda>c. \<Union>i \<in> set items. N i c)"
  using assms
proof (induction items)
  case Nil
  have "fold_result f [] = Inr" by (rule ext) simp
  then show ?case using adds_claims_skip by simp
next
  case (Cons i items)
  have "fold_result f (i # items) = (\<lambda>r. bind_result (f i r) (fold_result f items))" by (rule ext) simp
  then show ?case
    using adds_claims_bind[of b "f i" "N i"] Cons by simp
qed

lemma adds_claims_let:
  assumes "\<And>w. x = Inr w \<Longrightarrow> adds_claims b (f w) N"
  shows "adds_claims b (\<lambda>r. bind_result x (\<lambda>w. f w r)) N"
proof (rule adds_claimsI)
  fix r r' outside M
  assume r: "board_of r = b" "bind_result x (\<lambda>w. f w r) = Inr r'" "represents r outside M"
  then obtain w where "x = Inr w" "f w r = Inr r'" by (auto simp: bind_result_Inr)
  then show "represents r' outside (join_claims M N) \<and> board_of r' = b"
    using adds_claimsD[OF assms] r by blast
qed

lemma adds_claims_board:
  assumes "adds_claims b (f b) N"
  shows "adds_claims b (\<lambda>r. f (board_of r) r) N"
proof (rule adds_claimsI)
  fix r r' outside M
  assume r: "board_of r = b" "f (board_of r) r = Inr r'" "represents r outside M"
  then have "f b r = Inr r'" by simp
  then show "represents r' outside (join_claims M N) \<and> board_of r' = b"
    using adds_claimsD[OF assms] r by blast
qed

lemma add_claims_Un: "add_claims M S w = join_claims M (\<lambda>c. if c \<in> S then {w} else {})"
  by (rule ext) (simp add: add_claims_def join_claims_def)

lemma adds_claims_where:
  "adds_claims b (fold_result (claim_where g hit w) cells)
     (\<lambda>c. if c \<in> set cells \<and> hit (grid_at g c) then {w} else {})"
proof (rule adds_claimsI)
  fix r r' outside M
  assume "board_of r = b" "fold_result (claim_where g hit w) cells r = Inr r'" "represents r outside M"
  then show "represents r' outside (join_claims M (\<lambda>c. if c \<in> set cells \<and> hit (grid_at g c) then {w} else {})) \<and>
      board_of r' = b"
    using represents_claim_where[of g hit w cells r r' outside M] by (simp add: add_claims_Un)
qed

lemma adds_claims_visit:
  "adds_claims b (fold_result (claim_visit w) cells) (\<lambda>c. if c \<in> set cells then {w} else {})"
proof (rule adds_claimsI)
  fix r r' outside M
  assume "board_of r = b" "fold_result (claim_visit w) cells r = Inr r'" "represents r outside M"
  then show "represents r' outside (join_claims M (\<lambda>c. if c \<in> set cells then {w} else {})) \<and> board_of r' = b"
    using represents_claim_visit[of w cells r r' outside M] by (simp add: add_claims_Un)
qed

section \<open>The claims of a board\<close>

text \<open>
  The specification, for the cells of the board grid: the layers of a feature and its geometric
  test at the grid point. A rectangle claims the cells of its inflated bounds; the window of any
  other feature contains every grid point that passes the test, so it does not appear.
\<close>

definition on_grid :: "board \<Rightarrow> cell \<Rightarrow> bool" where
  "on_grid b c = (case c of (x, y, l) \<Rightarrow>
     0 \<le> x \<and> x \<le> board_width_nm b div grid_nm (rules_of b) \<and>
     0 \<le> y \<and> y \<le> board_height_nm b div grid_nm (rules_of b))"

definition on_layer :: "layer list \<Rightarrow> cell \<Rightarrow> bool" where
  "on_layer ls c = (snd (snd c) \<in> layer_index ` set ls)"

definition rect_window_cells :: "board \<Rightarrow> int \<Rightarrow> obstacle \<Rightarrow> cell \<Rightarrow> bool" where
  "rect_window_cells b inflate ob c =
     (let g = grid_nm (rules_of b) in case c of (x, y, l) \<Rightarrow>
        max (x_nm (min_pt ob) - inflate) 0 sdiv g \<le> x \<and>
        x \<le> min (x_nm (max_pt ob) + inflate) (board_width_nm b) sdiv g \<and>
        max (y_nm (min_pt ob) - inflate) 0 sdiv g \<le> y \<and>
        y \<le> min (y_nm (max_pt ob) + inflate) (board_height_nm b) sdiv g)"

definition polygon_reaches :: "point list \<Rightarrow> int \<Rightarrow> point \<Rightarrow> bool" where
  "polygon_reaches polygon d p \<longleftrightarrow> point_in_polygon p polygon \<or> point_polygon_closer_than p polygon d"

definition board_claims :: "board \<Rightarrow> cell \<Rightarrow> nat option set" where
  "board_claims b c =
     (let p = grid_at (grid_nm (rules_of b)) c;
          (diameter, clearance) = maximum_routing_envelope b;
          d = diameter + 2 * clearance
      in
      {obstacle_net_id ob |ob. ob \<in> set (obstacles b) \<and> on_layer (obstacle_layers ob) c \<and>
         rect_window_cells b (diameter sdiv 2 + clearance) ob c} \<union>
      {round_net_id ob |ob. ob \<in> set (round_obstacles b) \<and> on_layer (round_layers ob) c \<and>
         points_within p (round_center ob) (round_diameter_nm ob + d)} \<union>
      {capsule_net_id ob |ob. ob \<in> set (capsule_obstacles b) \<and> on_layer (capsule_layers ob) c \<and>
         point_segment_within p (capsule_start ob) (capsule_end ob) (capsule_diameter_nm ob + d)} \<union>
      {polygon_net_id ob |ob. ob \<in> set (polygon_obstacles b) \<and> on_layer (polygon_layers ob) c \<and>
         polygon_reaches (obstacle_polygon ob) d p} \<union>
      {keepout_net_id k |k. k \<in> set (keepouts b) \<and> tracks_not_allowed k \<and>
         on_layer (keepout_layers k) c \<and> polygon_reaches (keepout_polygon k) d p})"

definition outside_cells :: "board \<Rightarrow> nm \<Rightarrow> cell set" where
  "outside_cells b edge_envelope =
     {c. on_grid b c \<and> on_layer (copper_layers b) c \<and>
         \<not> point_inside_board b (grid_at (grid_nm (rules_of b)) c) edge_envelope}"

section \<open>The windows lose nothing\<close>

lemma square_interval: "z\<^sup>2 \<le> d\<^sup>2 \<Longrightarrow> 0 \<le> d \<Longrightarrow> - d \<le> z \<and> z \<le> (d :: real)"
  using abs_le_square_iff[of z d] by (simp add: abs_le_iff)

lemma near_coordinate:
  assumes "near i d (dist_sq (real_pt p) q)" and "0 \<le> d"
  shows "- of_int d \<le> 2 * (of_int (x_nm p) - fst q)" "2 * (of_int (x_nm p) - fst q) \<le> of_int d"
    "- of_int d \<le> 2 * (of_int (y_nm p) - snd q)" "2 * (of_int (y_nm p) - snd q) \<le> of_int d"
proof -
  have le: "4 * dist_sq (real_pt p) q \<le> (of_int d)\<^sup>2"
    using assms(1) by (simp add: near_def split: if_splits)
  have "(2 * (of_int (x_nm p) - fst q))\<^sup>2 \<le> 4 * dist_sq (real_pt p) q"
    "(2 * (of_int (y_nm p) - snd q))\<^sup>2 \<le> 4 * dist_sq (real_pt p) q"
    unfolding power_mult_distrib by (simp_all add: dist_sq_def real_pt_def)
  then have "(2 * (of_int (x_nm p) - fst q))\<^sup>2 \<le> (real_of_int d)\<^sup>2"
    "(2 * (of_int (y_nm p) - snd q))\<^sup>2 \<le> (real_of_int d)\<^sup>2"
    using le by linarith+
  then show "- of_int d \<le> 2 * (of_int (x_nm p) - fst q)" "2 * (of_int (x_nm p) - fst q) \<le> of_int d"
    "- of_int d \<le> 2 * (of_int (y_nm p) - snd q)" "2 * (of_int (y_nm p) - snd q) \<le> of_int d"
    using square_interval[of "2 * (of_int (x_nm p) - fst q)" "of_int d"]
      square_interval[of "2 * (of_int (y_nm p) - snd q)" "of_int d"] assms(2) by auto
qed

lemma convex_box:
  fixes a b t :: real
  assumes "0 \<le> t" "t \<le> 1"
  shows "min a b \<le> a + t * (b - a)" "a + t * (b - a) \<le> max a b"
proof -
  have eq: "a + t * (b - a) = (1 - t) * a + t * b" by (simp add: algebra_simps)
  have "(1 - t) * min a b + t * min a b \<le> (1 - t) * a + t * b"
    "(1 - t) * a + t * b \<le> (1 - t) * max a b + t * max a b"
    using assms by (intro add_mono mult_left_mono; simp)+
  then show "min a b \<le> a + t * (b - a)" "a + t * (b - a) \<le> max a b"
    unfolding eq by (simp_all add: algebra_simps)
qed

lemma on_segment_box:
  assumes "on_segment s e q"
  shows "of_int (min (x_nm s) (x_nm e)) \<le> fst q" "fst q \<le> of_int (max (x_nm s) (x_nm e))"
    "of_int (min (y_nm s) (y_nm e)) \<le> snd q" "snd q \<le> of_int (max (y_nm s) (y_nm e))"
proof -
  obtain t where t: "0 \<le> t" "t \<le> 1" and q: "q = seg_at s e t"
    using assms by (auto simp: on_segment_def)
  show "of_int (min (x_nm s) (x_nm e)) \<le> fst q" "fst q \<le> of_int (max (x_nm s) (x_nm e))"
    "of_int (min (y_nm s) (y_nm e)) \<le> snd q" "snd q \<le> of_int (max (y_nm s) (y_nm e))"
    unfolding q seg_at_def fst_conv snd_conv of_int_min of_int_max of_int_diff
    using convex_box[OF t] by blast+
qed

lemma half_up: "0 \<le> d \<Longrightarrow> (d + 1) sdiv 2 = (d + 1) div (2 :: int)"
  by (rule sdiv_nonneg) auto

text \<open>A point that reaches a segment lies in the bounds of the segment widened by half the
  doubled distance, rounded up.\<close>

lemma segment_reach_box:
  assumes "point_segment_compare p s e d i" and "0 \<le> d"
  shows "min (x_nm s) (x_nm e) - (d + 1) sdiv 2 \<le> x_nm p \<and> x_nm p \<le> max (x_nm s) (x_nm e) + (d + 1) sdiv 2 \<and>
    min (y_nm s) (y_nm e) - (d + 1) sdiv 2 \<le> y_nm p \<and> y_nm p \<le> max (y_nm s) (y_nm e) + (d + 1) sdiv 2"
proof -
  obtain q where q: "on_segment s e q" and n: "near i d (dist_sq (real_pt p) q)"
    using assms point_segment_compare_near by blast
  have reach: "lo - (d + 1) div 2 \<le> v \<and> v \<le> hi + (d + 1) div 2"
    if "- of_int d \<le> 2 * (of_int v - z)" "2 * (of_int v - z) \<le> real_of_int d" "of_int lo \<le> z" "z \<le> of_int hi" for v lo hi z
  proof -
    have "2 * real_of_int lo - of_int d \<le> 2 * of_int v" using that by (simp add: algebra_simps)
    moreover have "2 * real_of_int v \<le> 2 * of_int hi + of_int d" using that by (simp add: algebra_simps)
    ultimately have "real_of_int (2 * lo - d) \<le> of_int (2 * v)" "real_of_int (2 * v) \<le> of_int (2 * hi + d)"
      by simp_all
    then have "2 * lo - d \<le> 2 * v" "2 * v \<le> 2 * hi + d" unfolding of_int_le_iff by auto
    then show ?thesis by linarith
  qed
  show ?thesis
    unfolding half_up[OF assms(2)]
    by (intro conjI) (use near_coordinate[OF n assms(2)] on_segment_box[OF q] reach in blast)+
qed

lemma points_within_segment: "points_within p q d = point_segment_compare p q q d True"
  by (simp add: points_within_def point_segment_compare_def squared_difference_def Let_def)

lemma negative_reach: "d < 0 \<Longrightarrow> \<not> point_segment_compare p s e d i"
  by (simp add: point_segment_compare_def compare_ratio_def Let_def)

lemma polygon_reach_box:
  assumes "polygon_reaches polygon d p" and "0 \<le> d" and "polygon_bounds polygon = Some (x1, x2, y1, y2)"
  shows "x1 - (d + 1) sdiv 2 \<le> x_nm p \<and> x_nm p \<le> x2 + (d + 1) sdiv 2 \<and>
    y1 - (d + 1) sdiv 2 \<le> y_nm p \<and> y_nm p \<le> y2 + (d + 1) sdiv 2"
proof -
  have r: "0 \<le> (d + 1) sdiv 2" using assms(2) by (simp add: half_up)
  have bounds: "x1 \<le> x_nm q \<and> x_nm q \<le> x2 \<and> y1 \<le> y_nm q \<and> y_nm q \<le> y2" if "q \<in> set polygon" for q
    using that assms(3) by (auto simp: polygon_bounds_def split: if_splits)
  from assms(1) consider "point_in_polygon p polygon"
    | s e where "(s, e) \<in> set (cyclic_pairs polygon)" "point_segment_compare p s e d False"
    by (auto simp: polygon_reaches_def point_polygon_closer_than_def point_segment_closer_than_def polygon_edges_def)
  then show ?thesis
  proof cases
    case 1
    then show ?thesis using accepted_in_bounding_box[OF 1] bounds r by force
  next
    case 2
    have "s \<in> set polygon" "e \<in> set polygon" using cyclic_pairs_set[OF 2(1)] by auto
    then show ?thesis using segment_reach_box[OF 2(2) assms(2)] bounds[of s] bounds[of e] by auto
  qed
qed

lemma set_layered_grid: "c \<in> set (layered_grid ls w) \<longleftrightarrow> on_layer ls c \<and> (fst c, fst (snd c)) \<in> set (window_grid w)"
  by (cases c) (auto simp: layered_grid_def on_layer_def)

definition positive_board :: "board \<Rightarrow> bool" where
  "positive_board b \<longleftrightarrow> 0 < grid_nm (rules_of b) \<and> 0 < board_width_nm b \<and> 0 < board_height_nm b"

lemma board_window_Inr:
  assumes "board_window b radius x1 x2 y1 y2 = Inr w"
  defines "g \<equiv> grid_nm (rules_of b)"
  shows "w = (max (x1 - radius) 0 sdiv g, min (x2 + radius) (board_width_nm b) sdiv g,
    max (y1 - radius) 0 sdiv g, min (y2 + radius) (board_height_nm b) sdiv g)"
  using assms
  by (auto simp: board_window_def cell_window_def bind_result_Inr to_i32_def ok_or_Inr try_i32_def
      split: if_splits)

lemma axis_covers:
  fixes g :: int
  assumes "0 < g" "0 \<le> x" "x \<le> w div g" "lo \<le> x * g" "x * g \<le> hi"
  shows "max lo 0 sdiv g \<le> x \<and> x \<le> min hi w sdiv g"
proof -
  have "x * g \<le> w div g * g" using assms by (intro mult_right_mono) auto
  also have "\<dots> \<le> w" using div_mult_mod_eq[of w g] pos_mod_sign[of g w] assms(1) by linarith
  finally have w: "x * g \<le> w" .
  have "max lo 0 div g \<le> x * g div g" using assms by (intro zdiv_mono1) auto
  moreover have "x * g div g \<le> min hi w div g" using assms w by (intro zdiv_mono1) auto
  moreover have "0 \<le> x * g" using assms(1,2) by simp
  then have "0 \<le> hi" "0 \<le> w" using assms(5) w by linarith+
  then have "0 \<le> max lo 0" "0 \<le> min hi w" by auto
  ultimately show ?thesis using assms(1) by (simp add: sdiv_nonneg del: min_le_iff_disj le_max_iff_disj)
qed

lemma window_covers:
  assumes "board_window b radius x1 x2 y1 y2 = Inr w" and "positive_board b" and "on_grid b c"
  defines "p \<equiv> grid_at (grid_nm (rules_of b)) c"
  assumes "x1 - radius \<le> x_nm p \<and> x_nm p \<le> x2 + radius \<and> y1 - radius \<le> y_nm p \<and> y_nm p \<le> y2 + radius"
  shows "(fst c, fst (snd c)) \<in> set (window_grid w)"
  using assms axis_covers[of "grid_nm (rules_of b)" "fst c" "board_width_nm b" "x1 - radius" "x2 + radius"]
    axis_covers[of "grid_nm (rules_of b)" "fst (snd c)" "board_height_nm b" "y1 - radius" "y2 + radius"]
  unfolding board_window_Inr[OF assms(1)] set_window_grid
  by (cases c) (simp add: grid_at_def on_grid_def positive_board_def)

section \<open>The claims of the features\<close>

definition claims_on_grid :: "board \<Rightarrow> (router \<Rightarrow> router_error + router) \<Rightarrow> (cell \<Rightarrow> nat option set) \<Rightarrow> bool" where
  "claims_on_grid b f S \<longleftrightarrow> (\<exists>N. adds_claims b f N \<and> (\<forall>c. on_grid b c \<longrightarrow> N c = S c))"

lemma claims_on_gridI: "adds_claims b f N \<Longrightarrow> (\<And>c. on_grid b c \<Longrightarrow> N c = S c) \<Longrightarrow> claims_on_grid b f S"
  by (auto simp: claims_on_grid_def)

lemma claims_on_grid_bind:
  assumes "claims_on_grid b f S" and "claims_on_grid b g T"
  shows "claims_on_grid b (\<lambda>r. bind_result (f r) g) (\<lambda>c. S c \<union> T c)"
proof -
  obtain N N' where n: "adds_claims b f N" "adds_claims b g N'"
    "\<And>c. on_grid b c \<Longrightarrow> N c = S c" "\<And>c. on_grid b c \<Longrightarrow> N' c = T c"
    using assms unfolding claims_on_grid_def by blast
  show ?thesis
    by (rule claims_on_gridI[OF adds_claims_bind[OF n(1,2)]]) (simp add: n(3,4))
qed

lemma claims_on_grid_fold:
  assumes "\<And>i. i \<in> set is \<Longrightarrow> claims_on_grid b (f i) (S i)"
  shows "claims_on_grid b (fold_result f is) (\<lambda>c. \<Union>i \<in> set is. S i c)"
proof -
  have "\<forall>i \<in> set is. \<exists>N. adds_claims b (f i) N \<and> (\<forall>c. on_grid b c \<longrightarrow> N c = S i c)"
    using assms by (simp add: claims_on_grid_def)
  then obtain N where n: "\<And>i. i \<in> set is \<Longrightarrow> adds_claims b (f i) (N i)"
    "\<And>i c. i \<in> set is \<Longrightarrow> on_grid b c \<Longrightarrow> N i c = S i c"
    by metis
  show ?thesis
    by (rule claims_on_gridI[OF adds_claims_fold[OF n(1)]]) (auto simp: n(2))
qed

lemma claims_on_grid_let:
  assumes "\<And>w. x = Inr w \<Longrightarrow> claims_on_grid b (f w) S"
  shows "claims_on_grid b (\<lambda>r. bind_result x (\<lambda>w. f w r)) S"
proof (cases x)
  case (Inl e)
  then have "adds_claims b (\<lambda>r. bind_result x (\<lambda>w. f w r)) S" by (intro adds_claims_let) simp
  then show ?thesis by (rule claims_on_gridI) simp
next
  case (Inr w)
  have "(\<lambda>r. bind_result x (\<lambda>w. f w r)) = f w" by (rule ext) (simp add: Inr)
  then show ?thesis using assms[OF Inr] by simp
qed

lemma claims_on_grid_cong:
  assumes eq: "\<And>r. board_of r = b \<Longrightarrow> f r = h r" and h: "claims_on_grid b h S"
  shows "claims_on_grid b f S"
proof -
  obtain N where n: "adds_claims b h N" "\<And>c. on_grid b c \<Longrightarrow> N c = S c"
    using h by (auto simp: claims_on_grid_def)
  have "adds_claims b f N"
    by (rule adds_claimsI) (use adds_claimsD[OF n(1)] eq in metis)
  then show ?thesis using n(2) by (rule claims_on_gridI)
qed

lemma claims_on_grid_window:
  assumes "\<And>r. board_of r = b \<Longrightarrow> f r = bind_result x (\<lambda>w. F w r)"
    and "\<And>w. x = Inr w \<Longrightarrow> claims_on_grid b (F w) S"
  shows "claims_on_grid b f S"
  by (rule claims_on_grid_cong[OF assms(1) claims_on_grid_let[OF assms(2)]])

text \<open>A claiming window that loses no grid point that passes the test.\<close>

lemma claims_of_window:
  assumes pos: "positive_board b" and window: "board_window b radius x1 x2 y1 y2 = Inr w"
    and reach: "\<And>p. hit p \<Longrightarrow> x1 - radius \<le> x_nm p \<and> x_nm p \<le> x2 + radius \<and>
      y1 - radius \<le> y_nm p \<and> y_nm p \<le> y2 + radius"
  shows "claims_on_grid b (fold_result (claim_where (grid_nm (rules_of b)) hit own) (layered_grid ls w))
    (\<lambda>c. if on_layer ls c \<and> hit (grid_at (grid_nm (rules_of b)) c) then {own} else {})"
proof (rule claims_on_gridI[OF adds_claims_where])
  fix c assume on: "on_grid b c"
  show "(if c \<in> set (layered_grid ls w) \<and> hit (grid_at (grid_nm (rules_of b)) c) then {own} else {}) =
      (if on_layer ls c \<and> hit (grid_at (grid_nm (rules_of b)) c) then {own} else {})"
  proof (cases "hit (grid_at (grid_nm (rules_of b)) c)")
    case True
    from window_covers[OF window pos on reach[OF True]] show ?thesis by (simp add: set_layered_grid)
  qed simp
qed

lemma to_nm_Inr: "to_nm s v = Inr w \<Longrightarrow> w = v"
  by (auto simp: to_nm_def ok_or_Inr try_i64_def split: if_splits)

lemma claims_windowed:
  assumes pos: "positive_board b"
    and f: "\<And>r. board_of r = b \<Longrightarrow> f r = bind_result (to_nm s d) (\<lambda>dn.
      bind_result (board_window b radius x1 x2 y1 y2) (\<lambda>w.
      fold_result (claim_where (grid_nm (rules_of b)) (hit dn) own) (layered_grid ls w) r))"
    and reach: "\<And>p. hit d p \<Longrightarrow> x1 - radius \<le> x_nm p \<and> x_nm p \<le> x2 + radius \<and>
      y1 - radius \<le> y_nm p \<and> y_nm p \<le> y2 + radius"
  shows "claims_on_grid b f
    (\<lambda>c. if on_layer ls c \<and> hit d (grid_at (grid_nm (rules_of b)) c) then {own} else {})" (is "claims_on_grid b f ?S")
proof (rule claims_on_grid_cong[OF f], assumption, rule claims_on_grid_let)
  fix dn assume dn: "to_nm s d = Inr dn"
  have eq: "dn = d" by (rule to_nm_Inr[OF dn])
  show "claims_on_grid b (\<lambda>r. bind_result (board_window b radius x1 x2 y1 y2) (\<lambda>w.
      fold_result (claim_where (grid_nm (rules_of b)) (hit dn) own) (layered_grid ls w) r)) ?S"
    unfolding eq by (rule claims_on_grid_let) (rule claims_of_window[OF pos _ reach])
qed

lemma claims_round:
  assumes "positive_board b"
  shows "claims_on_grid b (raster_round (grid_nm (rules_of b)) diameter clearance ob)
    (\<lambda>c. if on_layer (round_layers ob) c \<and>
         points_within (grid_at (grid_nm (rules_of b)) c) (round_center ob)
           (round_diameter_nm ob + diameter + 2 * clearance)
       then {round_net_id ob} else {})"
proof (rule claims_windowed[OF assms])
  fix p assume "points_within p (round_center ob) (round_diameter_nm ob + diameter + 2 * clearance)"
  then show "x_nm (round_center ob) - (round_diameter_nm ob + diameter + 2 * clearance + 1) sdiv 2 \<le> x_nm p \<and>
      x_nm p \<le> x_nm (round_center ob) + (round_diameter_nm ob + diameter + 2 * clearance + 1) sdiv 2 \<and>
      y_nm (round_center ob) - (round_diameter_nm ob + diameter + 2 * clearance + 1) sdiv 2 \<le> y_nm p \<and>
      y_nm p \<le> y_nm (round_center ob) + (round_diameter_nm ob + diameter + 2 * clearance + 1) sdiv 2"
    unfolding points_within_segment using segment_reach_box negative_reach by (metis linorder_not_less max.idem min.idem)
qed (simp add: raster_round_def Let_def)

lemma claims_capsule:
  assumes "positive_board b"
  shows "claims_on_grid b (raster_capsule (grid_nm (rules_of b)) diameter clearance ob)
    (\<lambda>c. if on_layer (capsule_layers ob) c \<and>
         point_segment_within (grid_at (grid_nm (rules_of b)) c) (capsule_start ob) (capsule_end ob)
           (capsule_diameter_nm ob + diameter + 2 * clearance)
       then {capsule_net_id ob} else {})"
proof (rule claims_windowed[OF assms])
  let ?r = "(capsule_diameter_nm ob + diameter + 2 * clearance + 1) sdiv 2"
  fix p assume "point_segment_within p (capsule_start ob) (capsule_end ob)
    (capsule_diameter_nm ob + diameter + 2 * clearance)"
  then show "min (x_nm (capsule_start ob)) (x_nm (capsule_end ob)) - ?r \<le> x_nm p \<and>
      x_nm p \<le> max (x_nm (capsule_start ob)) (x_nm (capsule_end ob)) + ?r \<and>
      min (y_nm (capsule_start ob)) (y_nm (capsule_end ob)) - ?r \<le> y_nm p \<and>
      y_nm p \<le> max (y_nm (capsule_start ob)) (y_nm (capsule_end ob)) + ?r"
    unfolding point_segment_within_def using segment_reach_box negative_reach by (metis linorder_not_less)
qed (simp add: raster_capsule_def Let_def)

lemma claims_polygon:
  assumes pos: "positive_board b" and d: "0 \<le> d"
  shows "claims_on_grid b (raster_polygon (grid_nm (rules_of b)) d d polygon ls own)
    (\<lambda>c. if on_layer ls c \<and> polygon_reaches polygon d (grid_at (grid_nm (rules_of b)) c) then {own} else {})"
proof (cases "polygon_bounds polygon")
  case None
  then have "polygon = []" by (simp add: polygon_bounds_def split: if_splits)
  then have "raster_polygon (grid_nm (rules_of b)) d d polygon ls own = Inr" "\<And>p. \<not> polygon_reaches polygon d p"
    by (auto simp: raster_polygon_def polygon_bounds_def polygon_reaches_def point_in_polygon_def
        point_polygon_closer_than_def polygon_edges_def cyclic_pairs_def)
  then show ?thesis using claims_on_gridI[OF adds_claims_skip] by simp
next
  case (Some bounds)
  then obtain x1 x2 y1 y2 where bounds: "polygon_bounds polygon = Some (x1, x2, y1, y2)"
    by (cases bounds) auto
  show ?thesis
  proof (rule claims_on_grid_cong)
    fix r :: router assume "board_of r = b"
    then show "raster_polygon (grid_nm (rules_of b)) d d polygon ls own r =
        bind_result (board_window b ((d + 1) sdiv 2) x1 x2 y1 y2) (\<lambda>w.
          fold_result (claim_where (grid_nm (rules_of b)) (polygon_reaches polygon d) own) (layered_grid ls w) r)"
      by (simp add: raster_polygon_def bounds polygon_reaches_def[abs_def])
  next
    show "claims_on_grid b (\<lambda>r. bind_result (board_window b ((d + 1) sdiv 2) x1 x2 y1 y2) (\<lambda>w.
          fold_result (claim_where (grid_nm (rules_of b)) (polygon_reaches polygon d) own) (layered_grid ls w) r))
      (\<lambda>c. if on_layer ls c \<and> polygon_reaches polygon d (grid_at (grid_nm (rules_of b)) c) then {own} else {})"
      by (rule claims_on_grid_let) (rule claims_of_window[OF pos _ polygon_reach_box[OF _ d bounds]])
  qed
qed

lemma claims_keepout:
  assumes "positive_board b" and "0 \<le> d"
  shows "claims_on_grid b (raster_keepout (grid_nm (rules_of b)) d d k)
    (\<lambda>c. if tracks_not_allowed k \<and> on_layer (keepout_layers k) c \<and>
         polygon_reaches (keepout_polygon k) d (grid_at (grid_nm (rules_of b)) c)
       then {keepout_net_id k} else {})"
proof (cases "tracks_not_allowed k")
  case True
  then have "raster_keepout (grid_nm (rules_of b)) d d k =
      raster_polygon (grid_nm (rules_of b)) d d (keepout_polygon k) (keepout_layers k) (keepout_net_id k)"
    by (simp add: raster_keepout_def fun_eq_iff)
  then show ?thesis using claims_polygon[OF assms] True by simp
next
  case False
  then have "raster_keepout (grid_nm (rules_of b)) d d k = Inr"
    by (simp add: raster_keepout_def fun_eq_iff)
  then show ?thesis using claims_on_gridI[OF adds_claims_skip] False by simp
qed

lemma claims_rect:
  "claims_on_grid b (raster_rect g inflate ob)
    (\<lambda>c. if on_layer (obstacle_layers ob) c \<and> rect_window_cells b inflate ob c
       then {obstacle_net_id ob} else {})" (is "claims_on_grid b _ ?S")
proof (rule claims_on_grid_cong)
  fix r :: router assume "board_of r = b"
  then show "raster_rect g inflate ob r =
      bind_result (board_window b inflate (x_nm (min_pt ob)) (x_nm (max_pt ob)) (y_nm (min_pt ob)) (y_nm (max_pt ob)))
        (\<lambda>w. fold_result (claim_visit (obstacle_net_id ob)) (layered_grid (obstacle_layers ob) w) r)"
    by (simp add: raster_rect_def)
next
  show "claims_on_grid b (\<lambda>r.
      bind_result (board_window b inflate (x_nm (min_pt ob)) (x_nm (max_pt ob)) (y_nm (min_pt ob)) (y_nm (max_pt ob)))
        (\<lambda>w. fold_result (claim_visit (obstacle_net_id ob)) (layered_grid (obstacle_layers ob) w) r)) ?S"
  proof (rule claims_on_grid_let)
    fix w assume w: "board_window b inflate (x_nm (min_pt ob)) (x_nm (max_pt ob)) (y_nm (min_pt ob)) (y_nm (max_pt ob)) = Inr w"
    show "claims_on_grid b (fold_result (claim_visit (obstacle_net_id ob)) (layered_grid (obstacle_layers ob) w)) ?S"
      by (rule claims_on_gridI[OF adds_claims_visit])
         (auto simp: set_layered_grid board_window_Inr[OF w] set_window_grid rect_window_cells_def Let_def split: prod.splits)
  qed
qed

section \<open>The whole rasterisation\<close>

lemma representsD:
  "represents r outside M \<Longrightarrow> cell_state (c \<in> blocked r) (owned r c) (c \<in> outside) (M c)"
  unfolding represents_def by blast

lemma represents_outside:
  "represents r outside M \<Longrightarrow> represents (r\<lparr>blocked := blocked r \<union> S\<rparr>) (outside \<union> S) M"
  by (auto simp: represents_def cell_state_def)

lemma represents_block_outside:
  assumes "fold_result (block_outside g env) xys r = Inr r'" and "represents r outside M"
  shows "represents r' (outside \<union> {c. (fst c, fst (snd c)) \<in> set xys \<and> on_layer (copper_layers (board_of r)) c \<and>
      \<not> point_inside_board (board_of r) (grid_at g c) env}) M \<and> board_of r' = board_of r"
  using assms
proof (induction xys arbitrary: r outside)
  case (Cons xy xys)
  obtain x y where xy: "xy = (x, y)" by (cases xy)
  from Cons.prems obtain r1 where step: "block_outside g env xy r = Inr r1"
    and rest: "fold_result (block_outside g env) xys r1 = Inr r'"
    by (auto simp: bind_result_Inr)
  let ?S = "{c. (fst c, fst (snd c)) = xy \<and> on_layer (copper_layers (board_of r)) c \<and>
      \<not> point_inside_board (board_of r) (grid_at g c) env}"
  from step obtain r0 p where b: "bump_raster_candidate r = Inr r0" and p: "grid_point g x y = Inr p"
    and r1: "r1 = (if \<not> point_inside_board (board_of r0) p env
      then r0\<lparr>blocked := blocked r0 \<union> set (map (\<lambda>l. (x, y, layer_index l)) (copper_layers (board_of r0)))\<rparr>
      else r0)"
    by (auto simp: block_outside_def xy bind_result_Inr to_i32_def ok_or_Inr try_i32_def split: if_splits)
  have p': "p = grid_at g (x, y, l)" for l using grid_point_Inr[OF p] by simp
  have S: "?S = (if \<not> point_inside_board (board_of r) p env
      then set (map (\<lambda>l. (x, y, layer_index l)) (copper_layers (board_of r))) else {})"
    by (auto simp: xy on_layer_def p'[symmetric])
  have "represents r0 outside M" "board_of r0 = board_of r"
    using bump_keeps[OF b] Cons.prems(2) by auto
  then have "represents r1 (outside \<union> ?S) M" "board_of r1 = board_of r"
    unfolding S r1 using represents_outside by auto
  with Cons.IH[OF rest this(1)] show ?case
    by (auto simp: Un_assoc Un_def elim!: back_subst[of "\<lambda>S. represents r' S M"])
qed simp

definition envelope_step :: "nm \<times> nm \<Rightarrow> net_class_rules \<Rightarrow> nm \<times> nm" where
  "envelope_step = (\<lambda>(d, c) r. (max (max d (class_track_width_nm r)) (class_via_diameter_nm r),
     max c (class_clearance_nm r)))"

lemma envelope_fold:
  "d \<le> fst (foldl envelope_step (d, c) rs) \<and> c \<le> snd (foldl envelope_step (d, c) rs) \<and>
   (\<forall>r \<in> set rs. class_track_width_nm r \<le> fst (foldl envelope_step (d, c) rs) \<and>
      class_via_diameter_nm r \<le> fst (foldl envelope_step (d, c) rs) \<and>
      class_clearance_nm r \<le> snd (foldl envelope_step (d, c) rs))"
proof (induction rs arbitrary: d c)
  case (Cons r rs)
  show ?case
    using Cons.IH[of "max (max d (class_track_width_nm r)) (class_via_diameter_nm r)" "max c (class_clearance_nm r)"]
    by (simp add: envelope_step_def)
qed simp

lemma envelope_bounds:
  "track_width_nm (rules_of b) \<le> fst (maximum_routing_envelope b)"
  "via_diameter_nm (rules_of b) \<le> fst (maximum_routing_envelope b)"
  "clearance_nm (rules_of b) \<le> snd (maximum_routing_envelope b)"
  "r \<in> snd ` set (net_classes b) \<Longrightarrow> class_track_width_nm r \<le> fst (maximum_routing_envelope b) \<and>
     class_via_diameter_nm r \<le> fst (maximum_routing_envelope b) \<and>
     class_clearance_nm r \<le> snd (maximum_routing_envelope b)"
  using envelope_fold[of "max (track_width_nm (rules_of b)) (via_diameter_nm (rules_of b))"
      "clearance_nm (rules_of b)" "map snd (net_classes b)"]
  by (auto simp: maximum_routing_envelope_def envelope_step_def[symmetric])

definition routable_board :: "board \<Rightarrow> bool" where
  "routable_board b \<longleftrightarrow> positive_board b \<and> 0 < track_width_nm (rules_of b) \<and> 0 \<le> clearance_nm (rules_of b)"

lemma rasterization:
  assumes ok: "rasterize_obstacles (fresh_router b v) = Inr r" and board: "routable_board b"
    and env: "maximum_routing_envelope b = (diameter, clearance)" and c: "on_grid b c"
  shows "cell_state (c \<in> blocked r) (owned r c) (c \<in> outside_cells b (diameter + 2 * clearance)) (board_claims b c)"
proof -
  let ?g = "grid_nm (rules_of b)" and ?d = "diameter + 2 * clearance"
  have pos: "positive_board b" and d: "0 \<le> ?d"
    using board envelope_bounds(1,3)[of b] by (auto simp: routable_board_def env)
  let ?items = "\<lambda>r. bind_result (fold_result (raster_rect ?g (diameter sdiv 2 + clearance)) (obstacles b) r)
     (\<lambda>r. bind_result (fold_result (raster_round ?g diameter clearance) (round_obstacles b) r)
     (\<lambda>r. bind_result (fold_result (raster_capsule ?g diameter clearance) (capsule_obstacles b) r)
     (\<lambda>r. bind_result (fold_result (\<lambda>ob. raster_polygon ?g ?d ?d (obstacle_polygon ob) (polygon_layers ob)
        (polygon_net_id ob)) (polygon_obstacles b) r)
     (\<lambda>r. fold_result (raster_keepout ?g ?d ?d) (keepouts b) r))))"
  have items: "claims_on_grid b ?items (board_claims b)"
  proof -
    have sets: "{f ob |ob. ob \<in> set obs \<and> P ob \<and> Q ob} = (\<Union>ob \<in> set obs. if P ob \<and> Q ob then {f ob} else {})"
      for f :: "'x \<Rightarrow> nat option" and obs P Q by auto
    have sets3: "{f ob |ob. ob \<in> set obs \<and> P ob \<and> Q ob \<and> R ob} =
        (\<Union>ob \<in> set obs. if P ob \<and> Q ob \<and> R ob then {f ob} else {})"
      for f :: "'x \<Rightarrow> nat option" and obs P Q R by auto
    show ?thesis
      unfolding board_claims_def[abs_def] env Let_def prod.case sets sets3 add.assoc[symmetric] Un_assoc
      by (intro claims_on_grid_bind claims_on_grid_fold claims_rect claims_round[OF pos] claims_capsule[OF pos]
          claims_polygon[OF pos d] claims_keepout[OF pos d])
  qed
  obtain r1 where edge: "fold_result (block_outside ?g ?d)
      (window_grid (0, board_width_nm b sdiv ?g, 0, board_height_nm b sdiv ?g)) (fresh_router b v) = Inr r1"
    and rest: "?items r1 = Inr r"
    using ok unfolding rasterize_obstacles_def Let_def
    by (auto simp: env fresh_router_def bind_result_Inr dest!: to_nm_Inr)
  let ?out = "{c. (fst c, fst (snd c)) \<in> set (window_grid (0, board_width_nm b sdiv ?g, 0, board_height_nm b sdiv ?g)) \<and>
      on_layer (copper_layers b) c \<and> \<not> point_inside_board b (grid_at ?g c) ?d}"
  have board_r: "board_of (fresh_router b v) = b" by (simp add: fresh_router_def)
  have "represents r1 ?out (\<lambda>_. {})" "board_of r1 = b"
    using represents_block_outside[OF edge represents_fresh] board_r by simp_all
  moreover obtain N where N: "adds_claims b ?items N" "\<And>c. on_grid b c \<Longrightarrow> N c = board_claims b c"
    using items unfolding claims_on_grid_def by blast
  ultimately have "represents r ?out (join_claims (\<lambda>_. {}) N)"
    using adds_claimsD[OF N(1) _ rest] by blast
  from representsD[OF this, of c] have "cell_state (c \<in> blocked r) (owned r c) (c \<in> ?out) (N c)"
    by (simp add: join_claims_def)
  moreover have "c \<in> ?out \<longleftrightarrow> c \<in> outside_cells b ?d"
    using c pos by (cases c) (auto simp: outside_cells_def on_grid_def set_window_grid positive_board_def sdiv_nonneg)
  ultimately show ?thesis using N(2)[OF c] by simp
qed

section \<open>Free cells keep the clearance\<close>

definition free_for :: "router \<Rightarrow> nat \<Rightarrow> cell \<Rightarrow> bool" where
  "free_for r n c \<longleftrightarrow> c \<notin> blocked r \<and> (owned r c = None \<or> owned r c = Some n)"

lemma free_claims: "cell_state (c \<in> blocked r) (owned r c) out K \<Longrightarrow> free_for r n c \<Longrightarrow> K \<subseteq> {Some n}"
proof
  fix w assume k: "cell_state (c \<in> blocked r) (owned r c) out K" and f: "free_for r n c" and w: "w \<in> K"
  show "w \<in> {Some n}"
  proof (cases w)
    case None
    then show ?thesis using k f w by (auto simp: cell_state_def free_for_def contested_def)
  next
    case (Some m)
    then have "owned r c = Some n" using k f w by (auto simp: cell_state_def free_for_def)
    then have "Some n \<in> K" using k by (simp add: cell_state_def)
    then show ?thesis using k f w Some by (auto simp: cell_state_def free_for_def contested_def)
  qed
qed

text \<open>A board of three by three cells, whose rasterisation is evaluated.\<close>

definition tiny_board :: board where
  "tiny_board = blank_board\<lparr>board_width_nm := 20, board_height_nm := 20,
     rules_of := \<lparr>grid_nm = 10, track_width_nm = 2, clearance_nm = 1, via_diameter_nm = 4, via_drill_nm = 2,
       bend_cost = 5, via_cost = 20\<rparr>, copper_layers := [Front],
     round_obstacles := [\<lparr>round_center = \<lparr>x_nm = 18, y_nm = 10\<rparr>, round_diameter_nm = 2,
       round_layers = [Front], round_net_id = Some 7\<rparr>]\<rparr>"

lemmas raster_defs = rasterize_obstacles_def fresh_router_def maximum_routing_envelope_def
  to_nm_def to_i32_def try_i64_def try_i32_def i64_ok_def i32_ok_def
  block_outside_def bump_raster_candidate_def bump_raster_visit_def checked_add_usize_def reject_if_def
  grid_point_def window_grid_def layered_grid_def point_inside_board_def effective_outline_def
  point_in_polygon_def polygon_edges_def cyclic_pairs_def orientation_def point_on_segment_def
  point_polygon_closer_than_def point_segment_closer_than_def point_segment_compare_def compare_ratio_def
  raster_rect_def raster_round_def raster_capsule_def raster_polygon_def raster_keepout_def
  board_window_def cell_window_def claim_where_def claim_visit_def claim_def points_within_def squared_difference_def
  layer_index_def MAX_RASTER_CANDIDATE_VISITS_def signed_divide_int_def sgn_if

lemma tiny_raster:
  "\<exists>r. rasterize_obstacles (fresh_router tiny_board 0) = Inr r \<and> free_for r 3 (1, 1, 0) \<and> (2, 1, 0) \<in> blocked r"
  by (simp add: raster_defs tiny_board_def blank_board_def Let_def upto_rec1 free_for_def)


lemma tiny_board_facts:
  "routable_board tiny_board" "on_grid tiny_board (1, 1, 0)" "on_grid tiny_board (2, 1, 0)"
  "on_layer (copper_layers tiny_board) (1, 1, 0)" "maximum_routing_envelope tiny_board = (4, 1)"
  by (simp_all add: tiny_board_def blank_board_def routable_board_def positive_board_def on_grid_def
      on_layer_def layer_index_def maximum_routing_envelope_def)

text \<open>C6: The rasterisation computes exactly the grid that the geometry prescribes. For every cell of
  the board grid, the cell is blocked just when its grid point is too close to the board edge or to
  a cutout, when a feature without a net covers it, or when features of two different nets do; an
  owner is one of the nets that cover it, and a covered cell has an owner.\<close>

theorem rasterization_exact:
  assumes "rasterize_obstacles (fresh_router b v) = Inr r" and "routable_board b" and "on_grid b c"
  shows "(c \<in> blocked r \<longleftrightarrow>
      c \<in> outside_cells b (fst (maximum_routing_envelope b) + 2 * snd (maximum_routing_envelope b)) \<or>
      None \<in> board_claims b c \<or>
      (\<exists>m n. m \<noteq> n \<and> Some m \<in> board_claims b c \<and> Some n \<in> board_claims b c)) \<and>
    (\<forall>n. owned r c = Some n \<longrightarrow> Some n \<in> board_claims b c) \<and>
    (\<forall>n. Some n \<in> board_claims b c \<longrightarrow> owned r c \<noteq> None)"
  using rasterization[OF assms(1,2) _ assms(3)]
  by (cases "maximum_routing_envelope b") (simp add: cell_state_def contested_def)

theorem rasterization_exact_witness:
  "(2, 1, 0) \<in> outside_cells tiny_board 6 \<or> contested (board_claims tiny_board (2, 1, 0))"
proof -
  obtain r where r: "rasterize_obstacles (fresh_router tiny_board 0) = Inr r" "(2, 1, 0) \<in> blocked r"
    using tiny_raster by blast
  from rasterization_exact[OF r(1) tiny_board_facts(1,3)] r(2) show ?thesis
    by (simp add: tiny_board_facts contested_def)
qed

lemma far_from_segment:
  assumes "\<not> point_segment_compare p s e d i" "0 \<le> d" "on_segment s e q"
  shows "\<not> near i d (dist_sq (real_pt p) q)"
  using assms point_segment_compare_near by blast

text \<open>The claims of one feature, for cells that only the net \<open>n\<close> may claim.\<close>

lemma in_board_claims:
  assumes "maximum_routing_envelope b = (diameter, clearance)" and "p = grid_at (grid_nm (rules_of b)) c"
  shows "ob1 \<in> set (obstacles b) \<Longrightarrow> on_layer (obstacle_layers ob1) c \<Longrightarrow>
      rect_window_cells b (diameter sdiv 2 + clearance) ob1 c \<Longrightarrow> obstacle_net_id ob1 \<in> board_claims b c"
    and "ob2 \<in> set (round_obstacles b) \<Longrightarrow> on_layer (round_layers ob2) c \<Longrightarrow>
      points_within p (round_center ob2) (round_diameter_nm ob2 + (diameter + 2 * clearance)) \<Longrightarrow>
      round_net_id ob2 \<in> board_claims b c"
    and "ob3 \<in> set (capsule_obstacles b) \<Longrightarrow> on_layer (capsule_layers ob3) c \<Longrightarrow>
      point_segment_within p (capsule_start ob3) (capsule_end ob3) (capsule_diameter_nm ob3 + (diameter + 2 * clearance)) \<Longrightarrow>
      capsule_net_id ob3 \<in> board_claims b c"
    and "ob4 \<in> set (polygon_obstacles b) \<Longrightarrow> on_layer (polygon_layers ob4) c \<Longrightarrow>
      polygon_reaches (obstacle_polygon ob4) (diameter + 2 * clearance) p \<Longrightarrow> polygon_net_id ob4 \<in> board_claims b c"
    and "k \<in> set (keepouts b) \<Longrightarrow> tracks_not_allowed k \<Longrightarrow> on_layer (keepout_layers k) c \<Longrightarrow>
      polygon_reaches (keepout_polygon k) (diameter + 2 * clearance) p \<Longrightarrow> keepout_net_id k \<in> board_claims b c"
  unfolding board_claims_def Let_def assms prod.case by blast+

lemma clear_of_segment:
  assumes "\<not> point_segment_compare p s e (diameter + (d + 2 * clearance)) True" "0 \<le> diameter" "0 < d + 2 * clearance"
    and "on_segment s e q"
  shows "(of_int (diameter + d + 2 * clearance))\<^sup>2 < 4 * dist_sq (real_pt p) q"
  using far_from_segment[OF assms(1) _ assms(4)] assms(2,3) by (simp add: near_def add.assoc)

definition outside_with_margin :: "point list \<Rightarrow> int \<Rightarrow> point \<Rightarrow> bool" where
  "outside_with_margin polygon d p \<longleftrightarrow>
     \<not> point_in_polygon p polygon \<and>
     (\<forall>(s, e) \<in> set (polygon_edges polygon). \<forall>q. on_segment s e q \<longrightarrow>
        (of_int d)\<^sup>2 \<le> 4 * dist_sq (real_pt p) q)"

lemma clear_of_polygon:
  assumes "\<not> polygon_reaches polygon d p" "0 < d"
  shows "outside_with_margin polygon d p"
proof -
  have edges: "\<not> point_segment_compare p s e d False" if "(s, e) \<in> set (polygon_edges polygon)" for s e
    using assms(1) that by (auto simp: polygon_reaches_def point_polygon_closer_than_def point_segment_closer_than_def)
  have "(of_int d)\<^sup>2 \<le> 4 * dist_sq (real_pt p) q"
    if "(s, e) \<in> set (polygon_edges polygon)" "on_segment s e q" for s e q
    using far_from_segment[OF edges[OF that(1)] _ that(2)] assms(2) by (simp add: near_def not_less)
  then show ?thesis using assms(1) by (auto simp: polygon_reaches_def outside_with_margin_def)
qed

lemma in_rect_window:
  assumes "positive_board b" "on_grid b c" "p = grid_at (grid_nm (rules_of b)) c"
    and "x_nm (min_pt ob) - inflate \<le> x_nm p" "x_nm p \<le> x_nm (max_pt ob) + inflate"
      "y_nm (min_pt ob) - inflate \<le> y_nm p" "y_nm p \<le> y_nm (max_pt ob) + inflate"
  shows "rect_window_cells b inflate ob c"
  using assms axis_covers[of "grid_nm (rules_of b)" "fst c" "board_width_nm b"]
    axis_covers[of "grid_nm (rules_of b)" "fst (snd c)" "board_height_nm b"]
  by (cases c) (simp add: rect_window_cells_def Let_def grid_at_def on_grid_def positive_board_def)

text \<open>What a free cell promises to copper of the largest width on its grid point.\<close>

definition clear_spot :: "board \<Rightarrow> nat \<Rightarrow> cell \<Rightarrow> bool" where
  "clear_spot b n c \<longleftrightarrow>
    (let (diameter, clearance) = maximum_routing_envelope b; p = grid_at (grid_nm (rules_of b)) c in
    point_inside_board b p (diameter + 2 * clearance) \<and>
    (\<forall>ob \<in> set (round_obstacles b). on_layer (round_layers ob) c \<and> round_net_id ob \<noteq> Some n \<and>
       0 \<le> round_diameter_nm ob \<longrightarrow>
       (of_int (round_diameter_nm ob + diameter + 2 * clearance))\<^sup>2 < 4 * dist_sq (real_pt p) (real_pt (round_center ob))) \<and>
    (\<forall>ob \<in> set (capsule_obstacles b). on_layer (capsule_layers ob) c \<and> capsule_net_id ob \<noteq> Some n \<and>
       0 \<le> capsule_diameter_nm ob \<longrightarrow>
       (\<forall>q. on_segment (capsule_start ob) (capsule_end ob) q \<longrightarrow>
         (of_int (capsule_diameter_nm ob + diameter + 2 * clearance))\<^sup>2 < 4 * dist_sq (real_pt p) q)) \<and>
    (\<forall>ob \<in> set (obstacles b). on_layer (obstacle_layers ob) c \<and> obstacle_net_id ob \<noteq> Some n \<longrightarrow>
       x_nm p < x_nm (min_pt ob) - (diameter sdiv 2 + clearance) \<or> x_nm (max_pt ob) + (diameter sdiv 2 + clearance) < x_nm p \<or>
       y_nm p < y_nm (min_pt ob) - (diameter sdiv 2 + clearance) \<or> y_nm (max_pt ob) + (diameter sdiv 2 + clearance) < y_nm p) \<and>
    (\<forall>(polygon, ls, own) \<in> set (map (\<lambda>ob. (obstacle_polygon ob, polygon_layers ob, polygon_net_id ob)) (polygon_obstacles b) @
        map (\<lambda>k. (keepout_polygon k, keepout_layers k, keepout_net_id k)) (filter tracks_not_allowed (keepouts b))).
       on_layer ls c \<and> own \<noteq> Some n \<longrightarrow> outside_with_margin polygon (diameter + 2 * clearance) p))"

lemma free_cell_clear:
  assumes raster: "rasterize_obstacles (fresh_router b v) = Inr r" and board: "routable_board b"
    and c: "on_grid b c" "on_layer (copper_layers b) c" and free: "free_for r n c"
  shows "clear_spot b n c"
proof -
  obtain diameter clearance where env: "maximum_routing_envelope b = (diameter, clearance)"
    by (cases "maximum_routing_envelope b")
  define p where p: "p = grid_at (grid_nm (rules_of b)) c"
  have d: "0 < diameter + 2 * clearance"
    using board envelope_bounds(1,3)[of b] by (auto simp: routable_board_def env)
  have pos: "positive_board b" using board by (simp add: routable_board_def)
  note state = rasterization[OF raster board env c(1)]
  have claims: "w = Some n" if "w \<in> board_claims b c" for w
    using free_claims[OF state free] that by blast
  note inside = in_board_claims[OF env p]
  have "c \<notin> outside_cells b (diameter + 2 * clearance)"
    using state free by (auto simp: cell_state_def free_for_def)
  then have edge: "point_inside_board b p (diameter + 2 * clearance)"
    using c by (simp add: outside_cells_def p)
  have rounds: "(of_int (round_diameter_nm ob + diameter + 2 * clearance))\<^sup>2 < 4 * dist_sq (real_pt p) (real_pt (round_center ob))"
    if "ob \<in> set (round_obstacles b)" "on_layer (round_layers ob) c" "round_net_id ob \<noteq> Some n" "0 \<le> round_diameter_nm ob" for ob
    using clear_of_segment[OF _ that(4) d on_segment_start] inside(2)[OF that(1,2)] claims that(3)
    unfolding points_within_segment by blast
  have capsules: "(of_int (capsule_diameter_nm ob + diameter + 2 * clearance))\<^sup>2 < 4 * dist_sq (real_pt p) q"
    if "ob \<in> set (capsule_obstacles b)" "on_layer (capsule_layers ob) c" "capsule_net_id ob \<noteq> Some n"
      "0 \<le> capsule_diameter_nm ob" "on_segment (capsule_start ob) (capsule_end ob) q" for ob q
    using clear_of_segment[OF _ that(4) d that(5)] inside(3)[OF that(1,2)] claims that(3)
    unfolding point_segment_within_def by blast
  have rects: "x_nm p < x_nm (min_pt ob) - (diameter sdiv 2 + clearance) \<or> x_nm (max_pt ob) + (diameter sdiv 2 + clearance) < x_nm p \<or>
       y_nm p < y_nm (min_pt ob) - (diameter sdiv 2 + clearance) \<or> y_nm (max_pt ob) + (diameter sdiv 2 + clearance) < y_nm p"
    if "ob \<in> set (obstacles b)" "on_layer (obstacle_layers ob) c" "obstacle_net_id ob \<noteq> Some n" for ob
    using inside(1)[OF that(1,2)] claims that(3) in_rect_window[OF pos c(1) p] not_le by metis
  have polygons: "\<not> polygon_reaches (obstacle_polygon ob) (diameter + 2 * clearance) p"
    if "ob \<in> set (polygon_obstacles b)" "on_layer (polygon_layers ob) c" "polygon_net_id ob \<noteq> Some n" for ob
    using inside(4)[OF that(1,2)] claims that(3) by blast
  have areas: "\<not> polygon_reaches (keepout_polygon k) (diameter + 2 * clearance) p"
    if "k \<in> set (keepouts b)" "tracks_not_allowed k" "on_layer (keepout_layers k) c" "keepout_net_id k \<noteq> Some n" for k
    using inside(5)[OF that(1-3)] claims that(4) by blast
  have reached: "\<not> polygon_reaches polygon (diameter + 2 * clearance) p"
    if "(polygon, ls, own) \<in> set (map (\<lambda>ob. (obstacle_polygon ob, polygon_layers ob, polygon_net_id ob)) (polygon_obstacles b) @
        map (\<lambda>k. (keepout_polygon k, keepout_layers k, keepout_net_id k)) (filter tracks_not_allowed (keepouts b)))"
      "on_layer ls c" "own \<noteq> Some n" for polygon ls own
    using that polygons areas by auto
  show ?thesis
    unfolding clear_spot_def env prod.case Let_def p[symmetric]
    by (intro conjI ballI allI impI edge)
       (use rounds capsules rects clear_of_polygon[OF reached d] in \<open>auto simp del: set_map set_append\<close>)
qed

text \<open>C7: A cell that the router may use for a net keeps the clearance. Let the envelope be the
  largest track or via diameter of the board and its largest clearance. Copper of that diameter
  centred on the grid point of the cell lies inside the board with the clearance to its edge and
  cutouts, is farther than the clearance from every round or capsule obstacle of another net on the
  layer, lies outside the bounds of every such rectangle grown by the clearance, and outside every
  such polygon or track keepout with at least the clearance to each of its edges.\<close>

theorem free_cell_keeps_clearance:
  assumes "rasterize_obstacles (fresh_router b v) = Inr r" and "routable_board b"
    and "on_grid b c" "on_layer (copper_layers b) c" and "free_for r n c"
    and "maximum_routing_envelope b = (diameter, clearance)"
    and "p = grid_at (grid_nm (rules_of b)) c"
  shows "point_inside_board b p (diameter + 2 * clearance) \<and>
    (\<forall>ob \<in> set (round_obstacles b). on_layer (round_layers ob) c \<and> round_net_id ob \<noteq> Some n \<and>
       0 \<le> round_diameter_nm ob \<longrightarrow>
       (of_int (round_diameter_nm ob + diameter + 2 * clearance))\<^sup>2 < 4 * dist_sq (real_pt p) (real_pt (round_center ob))) \<and>
    (\<forall>ob \<in> set (capsule_obstacles b). on_layer (capsule_layers ob) c \<and> capsule_net_id ob \<noteq> Some n \<and>
       0 \<le> capsule_diameter_nm ob \<longrightarrow>
       (\<forall>q. on_segment (capsule_start ob) (capsule_end ob) q \<longrightarrow>
         (of_int (capsule_diameter_nm ob + diameter + 2 * clearance))\<^sup>2 < 4 * dist_sq (real_pt p) q)) \<and>
    (\<forall>ob \<in> set (obstacles b). on_layer (obstacle_layers ob) c \<and> obstacle_net_id ob \<noteq> Some n \<longrightarrow>
       x_nm p < x_nm (min_pt ob) - (diameter sdiv 2 + clearance) \<or> x_nm (max_pt ob) + (diameter sdiv 2 + clearance) < x_nm p \<or>
       y_nm p < y_nm (min_pt ob) - (diameter sdiv 2 + clearance) \<or> y_nm (max_pt ob) + (diameter sdiv 2 + clearance) < y_nm p) \<and>
    (\<forall>(polygon, ls, own) \<in> set (map (\<lambda>ob. (obstacle_polygon ob, polygon_layers ob, polygon_net_id ob)) (polygon_obstacles b) @
        map (\<lambda>k. (keepout_polygon k, keepout_layers k, keepout_net_id k)) (filter tracks_not_allowed (keepouts b))).
       on_layer ls c \<and> own \<noteq> Some n \<longrightarrow> outside_with_margin polygon (diameter + 2 * clearance) p)"
  using free_cell_clear[OF assms(1-5)] unfolding clear_spot_def assms(6) prod.case Let_def assms(7)[symmetric] .

theorem free_cell_keeps_clearance_witness:
  "point_inside_board tiny_board \<lparr>x_nm = 10, y_nm = 10\<rparr> 6 \<and>
   (8 :: real)\<^sup>2 < 4 * dist_sq (10, 10) (18, 10)"
proof -
  obtain r where r: "rasterize_obstacles (fresh_router tiny_board 0) = Inr r" "free_for r 3 (1, 1, 0)"
    using tiny_raster by blast
  have p: "\<lparr>x_nm = 10, y_nm = 10\<rparr> = grid_at (grid_nm (rules_of tiny_board)) (1, 1, 0)"
    by (simp add: grid_at_def tiny_board_def)
  from free_cell_keeps_clearance[OF r(1) tiny_board_facts(1,2,4) r(2) tiny_board_facts(5) p]
  show ?thesis
    by (simp add: tiny_board_def blank_board_def on_layer_def layer_index_def real_pt_def)
qed

end
