(* ===== verification/Commit.thy ===== *)
theory Commit
  imports RasterLine RasterExact
begin

text \<open>
  The commitment of a finished route to the grid, \<open>Router::commit\<close> of
  \<open>crates/pcbex-core/src/lib.rs\<close>: every cell near its copper becomes occupied by its net, and the
  congestion counters around all occupied cells grow. The theorem gives the occupied set exactly.
\<close>

section \<open>Committing a route\<close>

text \<open>One cell of the inflated square around \<open>(x, y)\<close>; cells outside the disc are only counted.\<close>

definition stamp ::
    "string \<Rightarrow> int \<Rightarrow> nat \<Rightarrow> int \<Rightarrow> int \<Rightarrow> nat \<Rightarrow> int \<times> int \<Rightarrow> router \<Rightarrow> router_error + router" where
  "stamp resource radius n x y l offset r =
     (case offset of (ox, oy) \<Rightarrow>
        bind_result (bump_raster_visit r) (\<lambda>r.
        if ox * ox + oy * oy \<le> radius * radius
        then
          bind_result (to_i32 resource (x + ox)) (\<lambda>cx.
          bind_result (to_i32 resource (y + oy)) (\<lambda>cy.
          Inr (r\<lparr>occupied := insert (cx, cy, l) (occupied r),
                 occupied_by := (occupied_by r)((cx, cy, l) \<mapsto> n)\<rparr>)))
        else Inr r))"

definition stamp_disc ::
    "string \<Rightarrow> int \<Rightarrow> nat \<Rightarrow> nat \<Rightarrow> int \<times> int \<Rightarrow> router \<Rightarrow> router_error + router" where
  "stamp_disc resource radius n l xy r =
     (case xy of (x, y) \<Rightarrow>
        fold_result (stamp resource radius n x y l) (window_grid (- radius, radius, - radius, radius)) r)"

definition clearance_cells :: "board \<Rightarrow> nm \<Rightarrow> router_error + int" where
  "clearance_cells b diameter_or_width =
     (let g = grid_nm (rules_of b);
          (diameter, clearance) = maximum_routing_envelope b
      in ok_or (Limit_Error (Resource_Error ''inflate_radius_cells'' (int MAX_INFLATE_RADIUS_CELLS) ''cells''))
           (try_i32 ((diameter_or_width sdiv 2 + diameter sdiv 2 + clearance + g - 1) sdiv g)))"

definition commit_line_cell ::
    "int \<Rightarrow> nat \<Rightarrow> nat \<Rightarrow> int \<times> int \<Rightarrow> router \<Rightarrow> router_error + router" where
  "commit_line_cell radius n l xy r =
     (case xy of (x, y) \<Rightarrow>
        bind_result (to_i32 ''raster_line_cells'' x) (\<lambda>x.
        bind_result (to_i32 ''raster_line_cells'' y) (\<lambda>y.
        stamp_disc ''raster_line_cells'' radius n l (x, y) r)))"

definition commit_segment :: "nat \<Rightarrow> segment \<Rightarrow> router \<Rightarrow> router_error + router" where
  "commit_segment n s r =
     (let g = grid_nm (rules_of (board_of r)) in
      bind_result (clearance_cells (board_of r) (width_nm s)) (\<lambda>radius.
      bind_result (raster_line_cells (x_nm (seg_start s) sdiv g) (y_nm (seg_start s) sdiv g)
        (x_nm (seg_end s) sdiv g) (y_nm (seg_end s) sdiv g)) (\<lambda>cells.
      fold_result (commit_line_cell radius n (layer_index (seg_layer s))) cells r)))"

definition commit_via :: "nat \<Rightarrow> via \<Rightarrow> router \<Rightarrow> router_error + router" where
  "commit_via n v r =
     (let g = grid_nm (rules_of (board_of r)) in
      bind_result (clearance_cells (board_of r) (diameter_nm v)) (\<lambda>radius.
      bind_result (to_i32 ''raster_window_cells'' (x_nm (via_position v) sdiv g)) (\<lambda>cx.
      bind_result (to_i32 ''raster_window_cells'' (y_nm (via_position v) sdiv g)) (\<lambda>cy.
      fold_result (\<lambda>l. stamp_disc ''raster_window_cells'' radius n (layer_index l) (cx, cy))
        (filter (spans_layer v) (copper_layers (board_of r))) r))))"

text \<open>
  Every occupied cell adds one to the counters of the 25 cells around it. A counter is a \<open>u16\<close>
  incremented without a check: it wraps (a build with overflow checks panics).
\<close>

definition congestion_step :: "cell set \<Rightarrow> (cell \<rightharpoonup> nat) \<Rightarrow> cell \<rightharpoonup> nat" where
  "congestion_step occ m c =
     (case c of (x, y, l) \<Rightarrow>
        let k = length (filter (\<lambda>(dx, dy). (x - dx, y - dy, l) \<in> occ) (window_grid (- 2, 2, - 2, 2)))
        in if k = 0 then m c
           else Some (((case m c of None \<Rightarrow> 0 | Some v \<Rightarrow> v) + k) mod 2 ^ 16))"

definition commit :: "route \<Rightarrow> router \<Rightarrow> router_error + router" where
  "commit rt r =
     bind_result (fold_result (commit_segment (net_id rt)) (segments rt) r) (\<lambda>r.
     bind_result (fold_result (commit_via (net_id rt)) (vias rt) r) (\<lambda>r.
     Inr (r\<lparr>congestion := congestion_step (occupied r) (congestion r)\<rparr>)))"

section \<open>What a commitment occupies\<close>

text \<open>
  A step that marks exactly the cells of a set as occupied by the net \<open>n\<close>, and leaves the board and
  the obstacles of the router alone.
\<close>

definition occupies :: "nat \<Rightarrow> cell set \<Rightarrow> router \<Rightarrow> router \<Rightarrow> bool" where
  "occupies n S r r' \<longleftrightarrow>
     occupied r' = occupied r \<union> S \<and>
     occupied_by r' = (\<lambda>c. if c \<in> S then Some n else occupied_by r c) \<and>
     board_of r' = board_of r \<and> blocked r' = blocked r \<and> owned r' = owned r \<and>
     congestion r' = congestion r"

lemma occupies_nothing: "occupies n {} r r"
  by (simp add: occupies_def)

lemma occupies_trans: "occupies n S r r1 \<Longrightarrow> occupies n T r1 r2 \<Longrightarrow> occupies n (S \<union> T) r r2"
  by (auto simp: occupies_def fun_eq_iff)

lemma occupies_fold:
  assumes "fold_result f xs r = Inr r'"
    and "\<And>x r r'. x \<in> set xs \<Longrightarrow> board_of r = b \<Longrightarrow> f x r = Inr r' \<Longrightarrow> occupies n (S x) r r'"
    and "board_of r = b"
  shows "occupies n (\<Union>x \<in> set xs. S x) r r'"
  using assms
proof (induction xs arbitrary: r)
  case Nil
  then show ?case by (simp add: occupies_nothing)
next
  case (Cons x xs)
  then obtain r1 where r1: "f x r = Inr r1" "fold_result f xs r1 = Inr r'" by (auto simp: bind_result_Inr)
  have o: "occupies n (S x) r r1" using Cons.prems(2,3) r1(1) by simp
  then have "board_of r1 = b" using Cons.prems(3) by (simp add: occupies_def)
  then have "occupies n (\<Union>x \<in> set xs. S x) r1 r'"
    using Cons.IH[OF r1(2)] Cons.prems(2) by simp
  with o show ?case using occupies_trans by fastforce
qed

lemma bump_visit_unfold: "bump_raster_visit r = Inr r' \<Longrightarrow> \<exists>v. r' = r\<lparr>raster_candidate_visits := v\<rparr>"
  by (auto simp: bump_raster_visit_def bind_result_Inr reject_if_Inr ok_or_Inr)

lemma to_i32_Inr: "to_i32 s v = Inr w \<Longrightarrow> w = v"
  by (auto simp: to_i32_def ok_or_Inr try_i32_def split: if_splits)

lemma stamp_occupies:
  assumes "stamp s radius n x y l oo r = Inr r'"
  shows "occupies n (if fst oo * fst oo + snd oo * snd oo \<le> radius * radius
    then {(x + fst oo, y + snd oo, l)} else {}) r r'"
proof -
  obtain r1 where "bump_raster_visit r = Inr r1" and r': "r' =
      (if fst oo * fst oo + snd oo * snd oo \<le> radius * radius
       then r1\<lparr>occupied := insert (x + fst oo, y + snd oo, l) (occupied r1),
               occupied_by := (occupied_by r1)((x + fst oo, y + snd oo, l) \<mapsto> n)\<rparr>
       else r1)"
    using assms
    by (cases "fst oo * fst oo + snd oo * snd oo \<le> radius * radius")
       (auto simp: stamp_def bind_result_Inr case_prod_unfold dest!: to_i32_Inr)
  then obtain v where "r1 = r\<lparr>raster_candidate_visits := v\<rparr>" using bump_visit_unfold by blast
  then show ?thesis by (simp add: r' occupies_def fun_eq_iff)
qed

definition disc :: "int \<Rightarrow> int \<times> int \<Rightarrow> nat \<Rightarrow> cell set" where
  "disc radius xy l = {(cx, cy, l) |cx cy. (cx - fst xy) * (cx - fst xy) + (cy - snd xy) * (cy - snd xy) \<le> radius * radius}"

lemma disc_bound:
  assumes "0 \<le> radius" "a * a + b * b \<le> radius * (radius :: int)"
  shows "\<bar>a\<bar> \<le> radius"
proof -
  have "a * a \<le> radius * radius" using assms(2) zero_le_square[of b] by linarith
  then show ?thesis using assms(1) by (metis abs_le_square_iff abs_of_nonneg power2_eq_square)
qed

lemma stamp_disc_occupies:
  assumes "stamp_disc s radius n l xy r = Inr r'" and "0 \<le> radius"
  shows "occupies n (disc radius xy l) r r'"
proof -
  obtain x y where xy: "xy = (x, y)" by (cases xy)
  let ?S = "\<lambda>oo. if fst oo * fst oo + snd oo * snd oo \<le> radius * radius then {(x + fst oo, y + snd oo, l)} else {}"
  have "fold_result (stamp s radius n x y l) (window_grid (- radius, radius, - radius, radius)) r = Inr r'"
    using assms(1) by (simp add: stamp_disc_def xy)
  then have "occupies n (\<Union>oo \<in> set (window_grid (- radius, radius, - radius, radius)). ?S oo) r r'"
    by (rule occupies_fold[where b = "board_of r"]) (rule stamp_occupies, assumption, rule refl)
  moreover have "(\<Union>oo \<in> set (window_grid (- radius, radius, - radius, radius)). ?S oo) = disc radius xy l"
  proof (intro equalityI subsetI)
    fix c assume "c \<in> disc radius xy l"
    then obtain cx cy where c: "c = (cx, cy, l)"
      and near: "(cx - x) * (cx - x) + (cy - y) * (cy - y) \<le> radius * radius"
      by (auto simp: disc_def xy)
    have "\<bar>cx - x\<bar> \<le> radius" "\<bar>cy - y\<bar> \<le> radius"
      using disc_bound[OF assms(2) near] disc_bound[OF assms(2), of "cy - y" "cx - x"] near
      by (simp_all add: add.commute)
    then have "(cx - x, cy - y) \<in> set (window_grid (- radius, radius, - radius, radius))"
      by (simp add: set_window_grid abs_le_iff)
    then show "c \<in> (\<Union>oo \<in> set (window_grid (- radius, radius, - radius, radius)). ?S oo)"
      by (rule UN_I) (use near in \<open>simp add: c\<close>)
  qed (auto simp: disc_def xy split: if_splits)
  ultimately show ?thesis by simp
qed

text \<open>The cells that a segment and a via occupy.\<close>

definition segment_cells :: "board \<Rightarrow> segment \<Rightarrow> cell set" where
  "segment_cells b s =
     (let g = grid_nm (rules_of b) in
      case (clearance_cells b (width_nm s),
            raster_line_cells (x_nm (seg_start s) sdiv g) (y_nm (seg_start s) sdiv g)
              (x_nm (seg_end s) sdiv g) (y_nm (seg_end s) sdiv g)) of
        (Inr radius, Inr cells) \<Rightarrow> \<Union>xy \<in> set cells. disc radius xy (layer_index (seg_layer s))
      | _ \<Rightarrow> {})"

definition via_cells :: "board \<Rightarrow> via \<Rightarrow> cell set" where
  "via_cells b v =
     (let g = grid_nm (rules_of b) in
      case clearance_cells b (diameter_nm v) of
        Inr radius \<Rightarrow> \<Union>l \<in> set (filter (spans_layer v) (copper_layers b)).
          disc radius (x_nm (via_position v) sdiv g, y_nm (via_position v) sdiv g) (layer_index l)
      | Inl e \<Rightarrow> {})"

definition route_cells :: "board \<Rightarrow> route \<Rightarrow> cell set" where
  "route_cells b rt = (\<Union>s \<in> set (segments rt). segment_cells b s) \<union> (\<Union>v \<in> set (vias rt). via_cells b v)"

text \<open>The inflation radius is not negative: the copper and the envelope have positive sizes.\<close>

definition positive_route :: "route \<Rightarrow> bool" where
  "positive_route rt \<longleftrightarrow> (\<forall>s \<in> set (segments rt). 0 \<le> width_nm s) \<and> (\<forall>v \<in> set (vias rt). 0 \<le> diameter_nm v)"

lemma clearance_cells_nonneg:
  assumes "clearance_cells b w = Inr radius" "0 \<le> w" "0 < grid_nm (rules_of b)"
    and "0 \<le> fst (maximum_routing_envelope b)" "0 \<le> snd (maximum_routing_envelope b)"
  shows "0 \<le> radius"
proof -
  have "radius = (w sdiv 2 + fst (maximum_routing_envelope b) sdiv 2 + snd (maximum_routing_envelope b) +
      grid_nm (rules_of b) - 1) sdiv grid_nm (rules_of b)"
    using assms(1) by (auto simp: clearance_cells_def Let_def case_prod_unfold ok_or_Inr try_i32_def split: if_splits)
  moreover have "0 \<le> w sdiv 2" "0 \<le> fst (maximum_routing_envelope b) sdiv 2"
    using assms by (simp_all add: sdiv_nonneg)
  then have "0 \<le> w sdiv 2 + fst (maximum_routing_envelope b) sdiv 2 + snd (maximum_routing_envelope b) +
      grid_nm (rules_of b) - 1" using assms(3,5) by linarith
  then have "0 \<le> (w sdiv 2 + fst (maximum_routing_envelope b) sdiv 2 + snd (maximum_routing_envelope b) +
      grid_nm (rules_of b) - 1) sdiv grid_nm (rules_of b)"
    using assms(3) by (simp only: sdiv_nonneg pos_imp_zdiv_nonneg_iff)
  ultimately show ?thesis by simp
qed

lemma commit_line_cell_occupies:
  assumes "commit_line_cell radius n l xy r = Inr r'" and "0 \<le> radius"
  shows "occupies n (disc radius xy l) r r'"
  using assms by (cases xy) (auto simp: commit_line_cell_def bind_result_Inr dest!: to_i32_Inr intro!: stamp_disc_occupies)

lemma commit_segment_occupies:
  assumes "commit_segment n s r = Inr r'" and "board_of r = b" and w: "0 \<le> width_nm s"
    and env: "0 < grid_nm (rules_of b)" "0 \<le> fst (maximum_routing_envelope b)" "0 \<le> snd (maximum_routing_envelope b)"
  shows "occupies n (segment_cells b s) r r'"
proof -
  let ?g = "grid_nm (rules_of b)"
  obtain radius cells where radius: "clearance_cells b (width_nm s) = Inr radius"
    and cells: "raster_line_cells (x_nm (seg_start s) sdiv ?g) (y_nm (seg_start s) sdiv ?g)
      (x_nm (seg_end s) sdiv ?g) (y_nm (seg_end s) sdiv ?g) = Inr cells"
    and fold: "fold_result (commit_line_cell radius n (layer_index (seg_layer s))) cells r = Inr r'"
    using assms(1,2) by (auto simp: commit_segment_def Let_def bind_result_Inr)
  have "0 \<le> radius" by (rule clearance_cells_nonneg[OF radius w env])
  then have "occupies n (\<Union>xy \<in> set cells. disc radius xy (layer_index (seg_layer s))) r r'"
    by (intro occupies_fold[OF fold, where b = b]) (use assms(2) in \<open>auto intro: commit_line_cell_occupies\<close>)
  then show ?thesis by (simp add: segment_cells_def Let_def radius cells)
qed

lemma commit_via_occupies:
  assumes "commit_via n v r = Inr r'" and "board_of r = b" and w: "0 \<le> diameter_nm v"
    and env: "0 < grid_nm (rules_of b)" "0 \<le> fst (maximum_routing_envelope b)" "0 \<le> snd (maximum_routing_envelope b)"
  shows "occupies n (via_cells b v) r r'"
proof -
  let ?g = "grid_nm (rules_of b)"
  let ?xy = "(x_nm (via_position v) sdiv ?g, y_nm (via_position v) sdiv ?g)"
  obtain radius where radius: "clearance_cells b (diameter_nm v) = Inr radius"
    and fold: "fold_result (\<lambda>l. stamp_disc ''raster_window_cells'' radius n (layer_index l) ?xy)
      (filter (spans_layer v) (copper_layers b)) r = Inr r'"
    using assms(1,2) by (auto simp: commit_via_def Let_def bind_result_Inr dest!: to_i32_Inr)
  have "0 \<le> radius" by (rule clearance_cells_nonneg[OF radius w env])
  then have "occupies n (\<Union>l \<in> set (filter (spans_layer v) (copper_layers b)). disc radius ?xy (layer_index l)) r r'"
    by (intro occupies_fold[OF fold, where b = b]) (use assms(2) in \<open>auto intro: stamp_disc_occupies\<close>)
  then show ?thesis by (simp add: via_cells_def Let_def radius)
qed

text \<open>Committing a route occupies exactly the discs around the cells of its segments, on their
  layer, and around its vias, on every copper layer they span, with the radius that covers half the
  copper, half the largest diameter and the largest clearance. Those cells now belong to the net of
  the route, all other cells keep their owner, and the obstacles of the router do not change.\<close>

theorem commit_exact:
  assumes ok: "commit rt r = Inr r'" and pos: "positive_route rt"
    and env: "0 < grid_nm (rules_of (board_of r))" "0 \<le> fst (maximum_routing_envelope (board_of r))"
      "0 \<le> snd (maximum_routing_envelope (board_of r))"
  shows "occupied r' = occupied r \<union> route_cells (board_of r) rt \<and>
    occupied_by r' = (\<lambda>c. if c \<in> route_cells (board_of r) rt then Some (net_id rt) else occupied_by r c) \<and>
    blocked r' = blocked r \<and> owned r' = owned r \<and> board_of r' = board_of r \<and>
    congestion r' = congestion_step (occupied r') (congestion r)"
proof -
  obtain r1 r2 where s: "fold_result (commit_segment (net_id rt)) (segments rt) r = Inr r1"
    and v: "fold_result (commit_via (net_id rt)) (vias rt) r1 = Inr r2"
    and r': "r' = r2\<lparr>congestion := congestion_step (occupied r2) (congestion r2)\<rparr>"
    using ok by (auto simp: commit_def bind_result_Inr)
  have "occupies (net_id rt) (\<Union>s \<in> set (segments rt). segment_cells (board_of r) s) r r1"
    by (rule occupies_fold[OF s, where b = "board_of r"])
       (use pos in \<open>auto intro!: commit_segment_occupies env simp: positive_route_def\<close>)
  moreover from this have "board_of r1 = board_of r" by (simp add: occupies_def)
  then have "occupies (net_id rt) (\<Union>v \<in> set (vias rt). via_cells (board_of r) v) r1 r2"
    by (intro occupies_fold[OF v, where b = "board_of r"])
       (use pos in \<open>auto intro!: commit_via_occupies env simp: positive_route_def\<close>)
  ultimately have "occupies (net_id rt) (route_cells (board_of r) rt) r r2"
    unfolding route_cells_def by (rule occupies_trans)
  then show ?thesis by (simp add: occupies_def r')
qed

text \<open>A route of one horizontal segment on the board of three by three cells.\<close>

definition tiny_route :: route where
  "tiny_route = \<lparr>net_id = 7, segments = [\<lparr>seg_start = \<lparr>x_nm = 10, y_nm = 10\<rparr>, seg_end = \<lparr>x_nm = 20, y_nm = 10\<rparr>,
     seg_layer = Front, width_nm = 2\<rparr>], arcs = [], vias = [], teardrops = [], zones = []\<rparr>"

lemma tiny_line: "raster_line_cells 1 1 2 1 = Inr [(1, 1), (2, 1)]"
  by (simp add: raster_line_cells_def Let_def checked_i128_def i128_ok_def MAX_RASTER_LINE_CELLS_def
      reject_if_def numeral_2_eq_2 to_nm_def try_i64_def i64_ok_def)

lemma tiny_radius: "clearance_cells tiny_board 2 = Inr 1"
  by (simp add: clearance_cells_def tiny_board_facts(5)) (simp add: tiny_board_def try_i32_def i32_ok_def signed_divide_int_def sgn_if)

lemma bump_visit_small:
  "raster_candidate_visits r \<le> 1000 \<Longrightarrow>
    bump_raster_visit r = Inr (r\<lparr>raster_candidate_visits := Suc (raster_candidate_visits r)\<rparr>)"
  by (simp add: bump_raster_visit_def checked_add_usize_def reject_if_def MAX_RASTER_CANDIDATE_VISITS_def)

lemma tiny_window: "window_grid (- 1, 1, - 1, 1) =
    [(-1, -1), (0, -1), (1, -1), (-1, 0), (0, 0), (1, 0), (-1, 1), (0, 1), (1, 1)]"
  by (simp add: window_grid_def upto_rec1)

lemma tiny_commit:
  "\<exists>r'. commit tiny_route (fresh_router tiny_board 0) = Inr r' \<and> (1, 1, 0) \<in> occupied r'"
proof -
  have g: "grid_nm (rules_of tiny_board) = 10" by (simp add: tiny_board_def)
  have "\<exists>r'. commit_segment 7 \<lparr>seg_start = \<lparr>x_nm = 10, y_nm = 10\<rparr>, seg_end = \<lparr>x_nm = 20, y_nm = 10\<rparr>,
     seg_layer = Front, width_nm = 2\<rparr> (fresh_router tiny_board 0) = Inr r' \<and> (1, 1, 0) \<in> occupied r'"
    by (simp add: commit_segment_def fresh_router_def Let_def tiny_radius g tiny_line signed_divide_int_def sgn_if
        commit_line_cell_def to_i32_def try_i32_def i32_ok_def stamp_disc_def tiny_window stamp_def bump_visit_small
        layer_index_def)
  then show ?thesis by (auto simp: commit_def tiny_route_def)
qed

theorem commit_exact_witness:
  "(1, 1, 0) \<in> route_cells tiny_board tiny_route"
proof -
  obtain r' where r': "commit tiny_route (fresh_router tiny_board 0) = Inr r'" "(1, 1, 0) \<in> occupied r'"
    using tiny_commit by blast
  have b: "board_of (fresh_router tiny_board 0) = tiny_board" "occupied (fresh_router tiny_board 0) = {}"
    by (simp_all add: fresh_router_def)
  have "positive_route tiny_route" by (simp add: positive_route_def tiny_route_def)
  moreover have "0 < grid_nm (rules_of tiny_board)" by (simp add: tiny_board_def)
  ultimately have "occupied r' = route_cells tiny_board tiny_route"
    using commit_exact[OF r'(1), unfolded b] by (simp add: tiny_board_facts(5))
  then show ?thesis using r'(2) by simp
qed

end
