(* ===== verification/Heap.thy ===== *)
theory Heap
  imports Prelude
begin

text \<open>
  The priority queue of the router's search: \<open>std::collections::BinaryHeap\<close>, the array heap of the
  Rust standard library, with the order of its elements as a parameter. \<open>push\<close> appends and sifts up;
  \<open>pop\<close> takes the root, moves the last element into the hole, lets the hole sink to the bottom and
  sifts the element up from there. The interface \<open>priority_queue\<close> states what the search relies on,
  and the array heap is its interpretation.
\<close>

section \<open>The array heap\<close>

text \<open>The element \<open>x\<close> is held outside the array while the hole at \<open>pos\<close> moves.\<close>

fun sift_up :: "('a \<Rightarrow> 'a \<Rightarrow> bool) \<Rightarrow> 'a \<Rightarrow> nat \<Rightarrow> 'a list \<Rightarrow> 'a list" where
  "sift_up le x pos xs =
     (if pos = 0 then xs[pos := x]
      else
        let parent = (pos - 1) div 2
        in if le x (xs ! parent) then xs[pos := x]
           else sift_up le x parent (xs[pos := xs ! parent]))"

definition larger_child :: "('a \<Rightarrow> 'a \<Rightarrow> bool) \<Rightarrow> 'a list \<Rightarrow> nat \<Rightarrow> nat" where
  "larger_child le xs child = (if le (xs ! child) (xs ! (child + 1)) then child + 1 else child)"

lemma larger_child_range: "larger_child le xs child \<in> {child, child + 1}"
  by (simp add: larger_child_def)

function sift_down_to_bottom :: "('a \<Rightarrow> 'a \<Rightarrow> bool) \<Rightarrow> 'a \<Rightarrow> nat \<Rightarrow> 'a list \<Rightarrow> 'a list" where
  "sift_down_to_bottom le x pos xs =
     (let child = 2 * pos + 1
      in if child \<le> length xs - 2
         then
           let child = larger_child le xs child
           in sift_down_to_bottom le x child (xs[pos := xs ! child])
         else if child = length xs - 1
         then sift_up le x child (xs[pos := xs ! child])
         else sift_up le x pos xs)"
  by pat_completeness auto
termination
  by (relation "measure (\<lambda>(le, x, pos, xs). length xs - pos)")
     (auto simp: larger_child_def split: if_splits)

declare sift_up.simps [simp del]
declare sift_down_to_bottom.simps [simp del]

definition heap_push :: "('a \<Rightarrow> 'a \<Rightarrow> bool) \<Rightarrow> 'a \<Rightarrow> 'a list \<Rightarrow> 'a list" where
  "heap_push le x xs = sift_up le x (length xs) (xs @ [x])"

definition heap_pop :: "('a \<Rightarrow> 'a \<Rightarrow> bool) \<Rightarrow> 'a list \<Rightarrow> ('a \<times> 'a list) option" where
  "heap_pop le xs =
     (if xs = [] then None
      else
        let item = last xs;
            rest = butlast xs
        in if rest = [] then Some (item, rest)
           else Some (rest ! 0, sift_down_to_bottom le item 0 rest))"

section \<open>The contents of the heap\<close>

lemma length_sift_up [simp]: "length (sift_up le x pos xs) = length xs"
  by (induction le x pos xs rule: sift_up.induct) (subst sift_up.simps, simp add: Let_def)

lemma mset_move_hole:
  assumes "i < length xs" "j < length xs" "i \<noteq> j"
  shows "mset (xs[i := xs ! j, j := x]) = mset (xs[i := x])"
proof -
  have "xs[i := xs ! j, j := x] = (xs[i := x])[i := xs[i := x] ! j, j := xs[i := x] ! i]"
    using assms by simp
  then show ?thesis using mset_swap[of i "xs[i := x]" j] assms
    by (metis length_list_update list_update_swap mset_swap)
qed

lemma mset_sift_up: "pos < length xs \<Longrightarrow> mset (sift_up le x pos xs) = mset (xs[pos := x])"
proof (induction le x pos xs rule: sift_up.induct)
  case (1 le x pos xs)
  show ?case
  proof (cases "pos = 0 \<or> le x (xs ! ((pos - 1) div 2))")
    case True
    then show ?thesis by (subst sift_up.simps) (auto simp: Let_def)
  next
    case False
    then have "(pos - 1) div 2 < length xs" "(pos - 1) div 2 \<noteq> pos" using 1(2) by auto
    then show ?thesis
      using False 1(1)[of "(pos - 1) div 2"] 1(2) mset_move_hole[of pos xs "(pos - 1) div 2" x]
      by (subst sift_up.simps) (auto simp: Let_def)
  qed
qed

lemma mset_sift_down:
  "pos < length xs \<Longrightarrow> mset (sift_down_to_bottom le x pos xs) = mset (xs[pos := x])"
proof (induction le x pos xs rule: sift_down_to_bottom.induct)
  case (1 le x pos xs)
  let ?c = "larger_child le xs (2 * pos + 1)"
  consider (two) "2 * pos + 1 \<le> length xs - 2" | (one) "\<not> 2 * pos + 1 \<le> length xs - 2" "2 * pos + 1 = length xs - 1"
    | (none) "\<not> 2 * pos + 1 \<le> length xs - 2" "2 * pos + 1 \<noteq> length xs - 1" by blast
  then show ?case
  proof cases
    case two
    then have "?c < length xs" "?c \<noteq> pos" using larger_child_range[of le xs "2 * pos + 1"] by auto
    then show ?thesis
      using two 1(1)[OF refl two refl] mset_move_hole[OF 1(2), of ?c x]
      by (subst sift_down_to_bottom.simps) (simp add: Let_def)
  next
    case one
    then have "2 * pos + 1 < length xs" using 1(2) by simp
    then show ?thesis
      using one mset_move_hole[OF 1(2), of "2 * pos + 1" x]
      by (subst sift_down_to_bottom.simps) (simp add: Let_def mset_sift_up)
  next
    case none
    then show ?thesis using 1(2) by (subst sift_down_to_bottom.simps) (simp add: Let_def mset_sift_up)
  qed
qed

section \<open>The heap order\<close>

definition heap_ordered :: "('a \<Rightarrow> 'a \<Rightarrow> bool) \<Rightarrow> 'a list \<Rightarrow> bool" where
  "heap_ordered le xs \<longleftrightarrow> (\<forall>i. 0 < i \<and> i < length xs \<longrightarrow> le (xs ! i) (xs ! ((i - 1) div 2)))"

text \<open>
  The order with a hole: it holds between all places other than the hole, and what is below the hole
  is also below the parent of the hole.
\<close>

definition hole_ordered :: "('a \<Rightarrow> 'a \<Rightarrow> bool) \<Rightarrow> nat \<Rightarrow> 'a list \<Rightarrow> bool" where
  "hole_ordered le pos xs \<longleftrightarrow>
     (\<forall>i. 0 < i \<and> i < length xs \<and> i \<noteq> pos \<and> (i - 1) div 2 \<noteq> pos \<longrightarrow> le (xs ! i) (xs ! ((i - 1) div 2))) \<and>
     (\<forall>i. 0 < i \<and> i < length xs \<and> 0 < pos \<and> (i - 1) div 2 = pos \<longrightarrow> le (xs ! i) (xs ! ((pos - 1) div 2)))"

lemma hole_orderedD:
  assumes "hole_ordered le pos xs" "0 < i" "i < length xs"
  shows "i \<noteq> pos \<Longrightarrow> (i - 1) div 2 \<noteq> pos \<Longrightarrow> le (xs ! i) (xs ! ((i - 1) div 2))"
    and "0 < pos \<Longrightarrow> (i - 1) div 2 = pos \<Longrightarrow> le (xs ! i) (xs ! ((pos - 1) div 2))"
  using assms by (simp_all add: hole_ordered_def)

text \<open>The places below the hole hold nothing above \<open>x\<close>.\<close>

definition children_below :: "('a \<Rightarrow> 'a \<Rightarrow> bool) \<Rightarrow> 'a \<Rightarrow> nat \<Rightarrow> 'a list \<Rightarrow> bool" where
  "children_below le x pos xs \<longleftrightarrow> (\<forall>i. 0 < i \<and> i < length xs \<and> (i - 1) div 2 = pos \<longrightarrow> le (xs ! i) x)"

locale heap_order =
  fixes le :: "'a \<Rightarrow> 'a \<Rightarrow> bool"
  assumes le_total: "le x y \<or> le y x"
    and le_trans: "le x y \<Longrightarrow> le y z \<Longrightarrow> le x z"
begin

lemma le_refl: "le x x"
  using le_total by blast

lemma fill_hole:
  assumes "hole_ordered le pos xs" "children_below le x pos xs" "pos < length xs"
    and "pos = 0 \<or> le x (xs ! ((pos - 1) div 2))"
  shows "heap_ordered le (xs[pos := x])"
  unfolding heap_ordered_def
proof (intro allI impI)
  fix i assume i: "0 < i \<and> i < length (xs[pos := x])"
  have neq: "(i - 1) div 2 \<noteq> i" using i by auto
  show "le (xs[pos := x] ! i) (xs[pos := x] ! ((i - 1) div 2))"
    using assms i neq by (cases "i = pos"; cases "(i - 1) div 2 = pos")
      (auto simp: hole_ordered_def children_below_def nth_list_update)
qed

lemma heap_sift_up:
  "hole_ordered le pos xs \<Longrightarrow> children_below le x pos xs \<Longrightarrow> pos < length xs \<Longrightarrow>
    heap_ordered le (sift_up le x pos xs)"
proof (induction pos arbitrary: xs rule: less_induct)
  case (less pos)
  let ?p = "(pos - 1) div 2"
  show ?case
  proof (cases "pos = 0 \<or> le x (xs ! ?p)")
    case True
    then show ?thesis
      using fill_hole[OF less.prems] by (subst sift_up.simps) (auto simp: Let_def)
  next
    case False
    then have p: "?p < pos" "0 < pos" by auto
    have above: "le (xs ! ?p) x" using False le_total by blast
    have "hole_ordered le ?p (xs[pos := xs ! ?p])"
      unfolding hole_ordered_def
    proof (intro conjI allI impI; elim conjE)
      fix i assume i: "0 < i" "i < length (xs[pos := xs ! ?p])" "i \<noteq> ?p" "(i - 1) div 2 \<noteq> ?p"
      then have "i \<noteq> pos" by auto
      then show "le (xs[pos := xs ! ?p] ! i) (xs[pos := xs ! ?p] ! ((i - 1) div 2))"
        using hole_orderedD[OF less.prems(1), of i] i p by (cases "(i - 1) div 2 = pos") auto
    next
      fix i assume i: "0 < i" "i < length (xs[pos := xs ! ?p])" "0 < ?p" "(i - 1) div 2 = ?p"
      have "(?p - 1) div 2 \<noteq> ?p" "?p \<noteq> pos" "(?p - 1) div 2 \<noteq> pos" using i(3) p by auto
      then have up: "le (xs ! ?p) (xs ! ((?p - 1) div 2))"
        using hole_orderedD(1)[OF less.prems(1), of ?p] less.prems(3) i(3) p by simp
      have "le (xs ! i) (xs ! ?p)" if "i \<noteq> pos"
        using hole_orderedD(1)[OF less.prems(1), of i] that i p by simp
      then show "le (xs[pos := xs ! ?p] ! i) (xs[pos := xs ! ?p] ! ((?p - 1) div 2))"
        using up le_trans[OF _ up, of "xs ! i"] i(4) p \<open>(?p - 1) div 2 \<noteq> pos\<close> less.prems(3)
        by (cases "i = pos") simp_all
    qed
    moreover have "children_below le x ?p (xs[pos := xs ! ?p])"
      unfolding children_below_def
    proof (intro allI impI; elim conjE)
      fix i assume i: "0 < i" "i < length (xs[pos := xs ! ?p])" "(i - 1) div 2 = ?p"
      have "le (xs ! i) (xs ! ?p)" if "i \<noteq> pos"
        using hole_orderedD(1)[OF less.prems(1), of i] that i p by simp
      then show "le (xs[pos := xs ! ?p] ! i) x"
        using above le_trans[OF _ above, of "xs ! i"] less.prems(3) by (cases "i = pos") simp_all
    qed
    ultimately have "heap_ordered le (sift_up le x ?p (xs[pos := xs ! ?p]))"
      using less.prems(3) p by (intro less.IH) auto
    then show ?thesis using False by (subst sift_up.simps) (simp add: Let_def)
  qed
qed

lemma hole_descends:
  assumes hole: "hole_ordered le pos xs" and c: "0 < c" "c < length xs" "(c - 1) div 2 = pos"
    and largest: "\<And>i. 0 < i \<Longrightarrow> i < length xs \<Longrightarrow> (i - 1) div 2 = pos \<Longrightarrow> le (xs ! i) (xs ! c)"
  shows "hole_ordered le c (xs[pos := xs ! c])"
  unfolding hole_ordered_def
proof (intro conjI allI impI; elim conjE)
  have pc: "pos \<noteq> c" "pos < length xs" using c by auto
  fix i assume i: "0 < i" "i < length (xs[pos := xs ! c])" "i \<noteq> c" "(i - 1) div 2 \<noteq> c"
  show "le (xs[pos := xs ! c] ! i) (xs[pos := xs ! c] ! ((i - 1) div 2))"
  proof (cases "(i - 1) div 2 = pos")
    case True
    then have "i \<noteq> pos" using i by auto
    then show ?thesis using True i largest pc by simp
  next
    case False
    show ?thesis
      using False i hole_orderedD[OF hole, of i] hole_orderedD[OF hole, of c] c pc by (cases "i = pos") auto
  qed
next
  have pc: "pos \<noteq> c" "pos < length xs" using c by auto
  fix i assume i: "0 < i" "i < length (xs[pos := xs ! c])" "0 < c" "(i - 1) div 2 = c"
  then have "i \<noteq> pos" using c by auto
  then show "le (xs[pos := xs ! c] ! i) (xs[pos := xs ! c] ! ((c - 1) div 2))"
    using i hole_orderedD[OF hole, of i] c pc by simp
qed

lemma heap_sift_down:
  "hole_ordered le pos xs \<Longrightarrow> pos < length xs \<Longrightarrow> heap_ordered le (sift_down_to_bottom le x pos xs)"
proof (induction "length xs - pos" arbitrary: pos xs rule: less_induct)
  case less
  let ?a = "2 * pos + 1"
  let ?c = "larger_child le xs ?a"
  consider (two) "?a \<le> length xs - 2" | (one) "\<not> ?a \<le> length xs - 2" "?a = length xs - 1"
    | (none) "\<not> ?a \<le> length xs - 2" "?a \<noteq> length xs - 1" by blast
  then show ?case
  proof cases
    case two
    then have c: "0 < ?c" "?c < length xs" "(?c - 1) div 2 = pos" "pos < ?c"
      using larger_child_range[of le xs ?a] by auto
    have "le (xs ! i) (xs ! ?c)" if "0 < i" "(i - 1) div 2 = pos" for i
    proof -
      have "i = ?a \<or> i = ?a + 1" using that by presburger
      then show ?thesis using le_total le_refl by (auto simp: larger_child_def)
    qed
    then have "hole_ordered le ?c (xs[pos := xs ! ?c])"
      using hole_descends[OF less.prems(1) c(1-3)] by blast
    then have "heap_ordered le (sift_down_to_bottom le x ?c (xs[pos := xs ! ?c]))"
      using c by (intro less.hyps) auto
    then show ?thesis using two by (subst sift_down_to_bottom.simps) (simp add: Let_def)
  next
    case one
    then have c: "0 < ?a" "?a < length xs" "(?a - 1) div 2 = pos" using less.prems(2) by auto
    have "le (xs ! i) (xs ! ?a)" if "0 < i" "i < length xs" "(i - 1) div 2 = pos" for i
    proof -
      have "i = ?a \<or> i = ?a + 1" using that by presburger
      then show ?thesis using le_refl one that by auto
    qed
    then have "hole_ordered le ?a (xs[pos := xs ! ?a])"
      using hole_descends[OF less.prems(1) c] by blast
    moreover have "children_below le x ?a (xs[pos := xs ! ?a])"
      using one by (auto simp: children_below_def)
    ultimately have "heap_ordered le (sift_up le x ?a (xs[pos := xs ! ?a]))"
      using c by (intro heap_sift_up) auto
    then show ?thesis using one by (subst sift_down_to_bottom.simps) (simp add: Let_def)
  next
    case none
    have "children_below le x pos xs"
      using none less.prems(2) by (auto simp: children_below_def)
    then show ?thesis
      using none less.prems heap_sift_up by (subst sift_down_to_bottom.simps) (simp add: Let_def)
  qed
qed

lemma heap_push_ordered:
  assumes "heap_ordered le xs"
  shows "heap_ordered le (heap_push le x xs)"
proof -
  have "(i - 1) div 2 \<noteq> length xs" if "i < Suc (length xs)" "0 < i" for i using that by auto
  then have "hole_ordered le (length xs) (xs @ [x])" "children_below le x (length xs) (xs @ [x])"
    using assms by (auto simp: hole_ordered_def children_below_def heap_ordered_def nth_append)
  then show ?thesis unfolding heap_push_def by (intro heap_sift_up) auto
qed

lemma heap_root:
  assumes "heap_ordered le xs" "i < length xs"
  shows "le (xs ! i) (xs ! 0)"
  using assms(2)
proof (induction i rule: less_induct)
  case (less i)
  show ?case
  proof (cases "i = 0")
    case False
    then have "le (xs ! i) (xs ! ((i - 1) div 2))" using assms(1) less.prems by (simp add: heap_ordered_def)
    moreover have "le (xs ! ((i - 1) div 2)) (xs ! 0)" using False less by auto
    ultimately show ?thesis by (rule le_trans)
  qed (simp add: le_refl)
qed

lemma heap_pop_ordered:
  assumes "heap_ordered le xs" "heap_pop le xs = Some (x, ys)"
  shows "heap_ordered le ys \<and> mset xs = add_mset x (mset ys) \<and> (\<forall>y \<in># mset ys. le y x)"
proof -
  let ?rest = "butlast xs"
  have ne: "xs \<noteq> []" using assms(2) by (auto simp: heap_pop_def)
  then have split: "xs = ?rest @ [last xs]" by simp
  then have m: "mset xs = add_mset (last xs) (mset ?rest)" by (metis mset_append mset_single_iff_right union_mset_add_mset_right add.right_neutral mset.simps)
  show ?thesis
  proof (cases "?rest = []")
    case True
    then show ?thesis using assms(2) m ne by (auto simp: heap_pop_def Let_def heap_ordered_def)
  next
    case False
    have nth: "?rest ! i = xs ! i" if "i < length ?rest" for i using that by (rule nth_butlast)
    have x: "x = xs ! 0" and ys: "ys = sift_down_to_bottom le (last xs) 0 ?rest"
      using assms(2) False ne nth[of 0, unfolded length_greater_0_conv, OF False]
      unfolding heap_pop_def Let_def by simp_all
    have "heap_ordered le ?rest" using assms(1) by (auto simp: heap_ordered_def nth_butlast)
    then have hole: "hole_ordered le 0 ?rest" by (simp add: hole_ordered_def heap_ordered_def)
    have pos: "0 < length ?rest" unfolding length_greater_0_conv by (rule False)
    have o: "heap_ordered le ys" unfolding ys by (rule heap_sift_down) fact+
    have "mset ys = mset (?rest[0 := last xs])" unfolding ys by (rule mset_sift_down) fact
    also have "\<dots> = add_mset (last xs) (mset ?rest - {#x#})"
      using mset_update[OF pos] by (simp only: x nth[OF pos])
    finally have "add_mset x (mset ys) = add_mset (last xs) (add_mset x (mset ?rest - {#x#}))" by simp
    also have "x \<in># mset ?rest" using nth_mem[OF pos] unfolding nth[OF pos] x set_mset_mset .
    then have "add_mset x (mset ?rest - {#x#}) = mset ?rest" by simp
    finally have "mset xs = add_mset x (mset ys)" using m by simp
    moreover have "le y x" if "y \<in># mset ys" for y
    proof -
      have "y \<in> set xs" using that calculation by (metis insert_iff set_mset_add_mset_insert set_mset_mset)
      then show ?thesis using heap_root[OF assms(1)] by (auto simp: x in_set_conv_nth)
    qed
    ultimately show ?thesis using o by blast
  qed
qed

end

section \<open>The interface of the queue\<close>

text \<open>
  What the search relies on: the queue is a bag of elements, \<open>push\<close> adds one, \<open>pop\<close> takes one that no
  other element is above. Which of several greatest elements it takes is left open.
\<close>

locale priority_queue =
  fixes le :: "'a \<Rightarrow> 'a \<Rightarrow> bool"
    and valid :: "'h \<Rightarrow> bool"
    and items :: "'h \<Rightarrow> 'a multiset"
    and empty :: 'h
    and push :: "'a \<Rightarrow> 'h \<Rightarrow> 'h"
    and pop :: "'h \<Rightarrow> ('a \<times> 'h) option"
  assumes empty_valid: "valid empty" and empty_items: "items empty = {#}"
    and push_valid: "valid h \<Longrightarrow> valid (push x h)"
    and push_items: "valid h \<Longrightarrow> items (push x h) = add_mset x (items h)"
    and pop_none: "valid h \<Longrightarrow> pop h = None \<longleftrightarrow> items h = {#}"
    and pop_some: "valid h \<Longrightarrow> pop h = Some (x, h') \<Longrightarrow>
      valid h' \<and> items h = add_mset x (items h') \<and> (\<forall>y \<in># items h'. le y x)"
begin

lemma pop_valid: "valid h \<Longrightarrow> pop h = Some (x, h') \<Longrightarrow> valid h'"
  using pop_some by blast

lemma pop_items: "valid h \<Longrightarrow> pop h = Some (x, h') \<Longrightarrow> items h = add_mset x (items h')"
  using pop_some by blast

lemma pop_in: "valid h \<Longrightarrow> pop h = Some (x, h') \<Longrightarrow> x \<in># items h"
  using pop_items by fastforce

lemma pop_greatest: "valid h \<Longrightarrow> pop h = Some (x, h') \<Longrightarrow> y \<in># items h \<Longrightarrow> y = x \<or> le y x"
  using pop_some by fastforce

lemma fold_push:
  "valid h \<Longrightarrow> valid (fold push xs h) \<and> items (fold push xs h) = mset xs + items h"
  by (induction xs arbitrary: h) (simp_all add: push_valid push_items)

text \<open>Popping everything yields the elements, each one above all later ones.\<close>

lemma pop_size: "valid h \<Longrightarrow> pop h = Some (x, h') \<Longrightarrow> size (items h) = Suc (size (items h'))"
  using pop_items by simp

end

text \<open>The array heap on any total order is such a queue.\<close>

sublocale heap_order \<subseteq> pq: priority_queue le "heap_ordered le" mset "[]" "heap_push le" "heap_pop le"
proof unfold_locales
  show "heap_ordered le h \<Longrightarrow> heap_ordered le (heap_push le x h)" for h x by (rule heap_push_ordered)
  show "mset (heap_push le x h) = add_mset x (mset h)" for h x
    by (simp add: heap_push_def mset_sift_up)
  show "heap_pop le h = None \<longleftrightarrow> mset h = {#}" for h
    by (auto simp: heap_pop_def Let_def)
  show "heap_ordered le h' \<and> mset h = add_mset x (mset h') \<and> (\<forall>y \<in># mset h'. le y x)"
    if "heap_ordered le h" "heap_pop le h = Some (x, h')" for h x h'
    using heap_pop_ordered[OF that] .
qed (auto simp: heap_ordered_def)

end
