(* ===== verification/Search.thy ===== *)
theory Search
  imports Commit Heap
begin

text \<open>
  The search of the router in \<open>crates/pcbex-core/src/lib.rs\<close>: the work budget, the search nodes and
  the order of the queue, the octile heuristic, the obstacles that a net must avoid, relaxation, the
  track and via steps of an expansion, and the loop of \<open>Router::astar_to_tree\<close> with the
  reconstruction of the path. A \<open>u64\<close> cost is a natural number: the theory \<open>Astar\<close> proves
  that it stays below \<open>2 ^ 64\<close>. A panic of the code is the ending \<open>Panicked\<close>.
\<close>

section \<open>The work budget\<close>

type_synonym work_budget = nat

definition consume :: "work_budget \<Rightarrow> work_budget option" where
  "consume b = (if b = 0 then None else Some (b - 1))"

definition debit :: "work_budget \<Rightarrow> nat \<Rightarrow> work_budget option" where
  "debit b units = (if units \<le> b then Some (b - units) else None)"

text \<open>\<open>WorkBudget::used\<close>; \<open>None\<close> is the panic of its \<open>expect\<close>.\<close>

definition used :: "work_budget \<Rightarrow> nat \<Rightarrow> nat option" where
  "used b limit = (if b \<le> limit then Some (limit - b) else None)"

section \<open>Nodes, the queue and the heuristic\<close>

record node =
  node_x :: int
  node_y :: int
  node_layer :: nat
  node_dir :: nat

record queue_item =
  item_score :: nat
  item_cost :: nat
  item_node :: node

text \<open>\<open>Ord for QueueItem\<close> reverses the order, so that the heap of Rust yields the least score.\<close>

definition queue_le :: "queue_item \<Rightarrow> queue_item \<Rightarrow> bool" where
  "queue_le i j \<longleftrightarrow> item_score j < item_score i \<or> (item_score i = item_score j \<and> item_cost j \<le> item_cost i)"

definition heuristic :: "int \<Rightarrow> int \<Rightarrow> int \<Rightarrow> int \<Rightarrow> nat" where
  "heuristic x y gx gy =
     (let dx = nat \<bar>x - gx\<bar>;
          dy = nat \<bar>y - gy\<bar>
      in 14 * min dx dy + 10 * (max dx dy - min dx dy))"

text \<open>The goal cells, a \<open>HashSet\<close> that the heuristic iterates over, are a list: in what order, and
  whether with repetitions, does not matter.\<close>

definition heuristic_to_tree :: "int \<Rightarrow> int \<Rightarrow> cell list \<Rightarrow> nat" where
  "heuristic_to_tree x y goals =
     (case map (\<lambda>(gx, gy, l). heuristic x y gx gy) goals of
        [] \<Rightarrow> 0
      | k # ks \<Rightarrow> fold min ks k)"

definition nearest_grid :: "nm \<Rightarrow> nm \<Rightarrow> nm" where
  "nearest_grid v g = (v + g sdiv 2) sdiv g"

definition allowed_layer :: "board \<Rightarrow> nat \<Rightarrow> layer \<Rightarrow> bool" where
  "allowed_layer b n l = (case layers_for_net b n of None \<Rightarrow> True | Some allowed \<Rightarrow> l \<in> set allowed)"

definition terminal_nodes :: "router \<Rightarrow> nat \<Rightarrow> terminal \<Rightarrow> rules \<Rightarrow> node list" where
  "terminal_nodes r n t rs =
     (let x = wrap_i32 (nearest_grid (x_nm (position_nm t)) (grid_nm rs));
          y = wrap_i32 (nearest_grid (y_nm (position_nm t)) (grid_nm rs))
      in map (\<lambda>l. \<lparr>node_x = x, node_y = y, node_layer = layer_index l, node_dir = 8\<rparr>)
           (filter (allowed_layer (board_of r) n) (terminal_layers t)))"

section \<open>Obstacles and proximity\<close>

definition restricting_keepout :: "rules \<Rightarrow> nat \<Rightarrow> layer \<Rightarrow> point \<Rightarrow> keepout \<Rightarrow> bool" where
  "restricting_keepout rs n l p area \<longleftrightarrow>
     keepout_net_id area \<noteq> Some n \<and> l \<in> set (keepout_layers area) \<and>
     point_in_polygon p (keepout_polygon area) \<and>
     ((case minimum_track_width_nm area of None \<Rightarrow> False | Some w \<Rightarrow> track_width_nm rs < w) \<or>
      (case minimum_clearance_nm area of None \<Rightarrow> False | Some c \<Rightarrow> clearance_nm rs < c))"

text \<open>\<open>None\<close> is the panic of \<open>index_layer\<close> on an index that is not a layer.\<close>

definition foreign_obstacle :: "router \<Rightarrow> cell \<Rightarrow> nat \<Rightarrow> bool option" where
  "foreign_obstacle r c n =
     (case c of (x, y, l) \<Rightarrow>
        if (case owned r c of None \<Rightarrow> False | Some owner \<Rightarrow> owner \<noteq> n) then Some True
        else
          Option.bind (layer_from_index l) (\<lambda>layer.
            let rs = rules_for_net (board_of r) n;
                p = \<lparr>x_nm = x * grid_nm rs, y_nm = y * grid_nm rs\<rparr>
            in Some (\<exists>area \<in> set (keepouts (board_of r)). restricting_keepout rs n layer p area)))"

text \<open>\<open>self.blocked.contains(&cell) || self.foreign_obstacle(cell, net_id)\<close>, and \<open>Iterator::any\<close>.\<close>

definition obstructed :: "router \<Rightarrow> nat \<Rightarrow> cell \<Rightarrow> bool option" where
  "obstructed r n c = (if c \<in> blocked r then Some True else foreign_obstacle r c n)"

fun any_option :: "('a \<Rightarrow> bool option) \<Rightarrow> 'a list \<Rightarrow> bool option" where
  "any_option f [] = Some False"
| "any_option f (x # xs) = Option.bind (f x) (\<lambda>b. if b then Some True else any_option f xs)"

text \<open>The saturating \<open>u16\<close> penalty of congested and nearby occupied cells.\<close>

definition proximity :: "router \<Rightarrow> int \<Rightarrow> int \<Rightarrow> nat \<Rightarrow> nat" where
  "proximity r x y l =
     fold (\<lambda>(dx, dy) p. if (x + dx, y + dy, l) \<in> occupied r then min 65535 (p + 3) else p)
       (window_grid (- 1, 1, - 1, 1))
       (case congestion r (x, y, l) of None \<Rightarrow> 0 | Some p \<Rightarrow> p)"

section \<open>The state of a search\<close>

text \<open>What a search reads: the router, the net, the rules, the goal cells, the cell of its start
  and the range of track cells.\<close>

record search_env =
  env_router :: router
  env_net :: nat
  env_rules :: rules
  env_goals :: "cell list"
  start_x :: int
  start_y :: int
  min_track_cell :: int
  max_x :: int
  max_y :: int

text \<open>What it changes.\<close>

record search =
  open_items :: "queue_item list"
  costs :: "node \<rightharpoonup> nat"
  prev :: "node \<rightharpoonup> node"
  blocker_ids :: "nat set"
  expanded_nodes :: nat
  budget_left :: work_budget

text \<open>How it ends: with a path and its cost, without budget, without a path, or in a panic. The last
  ending stands for a walk along \<open>prev\<close> that does not end.\<close>

datatype search_end = Reached "node list" nat | Exhausted | No_Path | Panicked | Endless_Path

abbreviation u64_limit :: nat where
  "u64_limit \<equiv> 2 ^ 64 - 1"

definition known_cost :: "search \<Rightarrow> node \<Rightarrow> nat" where
  "known_cost s n = (case costs s n of None \<Rightarrow> u64_limit | Some c \<Rightarrow> c)"

definition node_heuristic :: "search_env \<Rightarrow> node \<Rightarrow> nat" where
  "node_heuristic e n = heuristic_to_tree (node_x n) (node_y n) (env_goals e)"

definition queue_item_for :: "search_env \<Rightarrow> nat \<Rightarrow> node \<Rightarrow> queue_item" where
  "queue_item_for e cost n =
     \<lparr>item_score = cost + node_heuristic e n, item_cost = cost, item_node = n\<rparr>"

definition relax ::
    "search_env \<Rightarrow> node \<Rightarrow> node \<Rightarrow> nat \<Rightarrow> search \<Rightarrow> (search_end \<times> search) + search" where
  "relax e n m cost s =
     (if cost < known_cost s m
      then
        bind_result (ok_or (Exhausted, s) (consume (budget_left s))) (\<lambda>b.
        Inr (s\<lparr>budget_left := b, costs := (costs s)(m \<mapsto> cost), prev := (prev s)(m \<mapsto> n),
               open_items := heap_push queue_le (queue_item_for e cost m) (open_items s)\<rparr>))
      else Inr s)"

section \<open>The steps of an expansion\<close>

definition DIRS :: "(int \<times> int) list" where
  "DIRS = [(1, 0), (1, 1), (0, 1), (- 1, 1), (- 1, 0), (- 1, - 1), (0, - 1), (1, - 1)]"

definition endpoint_cell :: "search_env \<Rightarrow> cell \<Rightarrow> bool" where
  "endpoint_cell e c = (case c of (x, y, l) \<Rightarrow> c \<in> set (env_goals e) \<or> (x = start_x e \<and> y = start_y e))"

definition track_cost :: "search_env \<Rightarrow> node \<Rightarrow> nat \<Rightarrow> int \<Rightarrow> int \<Rightarrow> nat" where
  "track_cost e n dir x y =
     (let (dx, dy) = DIRS ! dir;
          step = (if dx \<noteq> 0 \<and> dy \<noteq> 0 then 14 else 10);
          bend = (if node_dir n < 8 \<and> node_dir n \<noteq> dir then bend_cost (env_rules e) else 0)
      in step + bend + proximity (env_router e) x y (node_layer n))"

definition direction_step ::
    "search_env \<Rightarrow> node \<Rightarrow> nat \<Rightarrow> nat \<Rightarrow> search \<Rightarrow> (search_end \<times> search) + search" where
  "direction_step e n cost offset s =
     (let r = env_router e;
          dir = (offset + search_variant r) mod 8;
          (dx, dy) = DIRS ! dir;
          nx = node_x n + dx;
          ny = node_y n + dy
      in
      if nx < min_track_cell e \<or> ny < min_track_cell e \<or> nx > max_x e \<or> ny > max_y e then Inr s
      else
        let cell = (nx, ny, node_layer n);
            endpoint = endpoint_cell e cell
        in
        bind_result (ok_or (Panicked, s) (if endpoint then Some False else obstructed r (env_net e) cell))
          (\<lambda>obstacle.
        if obstacle then Inr s
        else if \<not> endpoint \<and> cell \<in> occupied r
        then Inr (case occupied_by r cell of None \<Rightarrow> s
                  | Some owner \<Rightarrow> s\<lparr>blocker_ids := insert owner (blocker_ids s)\<rparr>)
        else
          bind_result (ok_or (Panicked, s)
            (if dx \<noteq> 0 \<and> dy \<noteq> 0
             then any_option (obstructed r (env_net e))
               [(node_x n + dx, node_y n, node_layer n), (node_x n, node_y n + dy, node_layer n)]
             else Some False)) (\<lambda>corner.
          if corner then Inr s
          else relax e n \<lparr>node_x = nx, node_y = ny, node_layer = node_layer n, node_dir = dir\<rparr>
            (cost + track_cost e n dir nx ny) s)))"

definition via_inside_board :: "search_env \<Rightarrow> node \<Rightarrow> bool" where
  "via_inside_board e n \<longleftrightarrow>
     (let b = board_of (env_router e);
          g = grid_nm (env_rules e);
          via_radius = via_diameter_nm (env_rules e) sdiv 2
      in node_x n * g \<ge> via_radius \<and> node_y n * g \<ge> via_radius \<and>
         node_x n * g + via_radius \<le> board_width_nm b \<and> node_y n * g + via_radius \<le> board_height_nm b)"

text \<open>The via between two layers at a node, with its cost multiplier.\<close>

definition search_via :: "search_env \<Rightarrow> node \<Rightarrow> layer \<Rightarrow> (via \<times> nat) option" where
  "search_via e n other_layer =
     Option.bind (layer_from_index (node_layer n)) (\<lambda>layer.
     Option.bind (via_for_transition (board_of (env_router e)) layer other_layer) (\<lambda>(k, first, final, multiplier).
       Some (\<lparr>via_position = \<lparr>x_nm = node_x n * grid_nm (env_rules e), y_nm = node_y n * grid_nm (env_rules e)\<rparr>,
          diameter_nm = via_diameter_nm (env_rules e), drill_nm = via_drill_nm (env_rules e),
          via_kind_of = k, start_layer = first, end_layer = final\<rparr>, multiplier)))"

definition column_cells :: "search_env \<Rightarrow> node \<Rightarrow> via \<Rightarrow> cell list" where
  "column_cells e n v =
     map (\<lambda>l. (node_x n, node_y n, layer_index l))
       (filter (spans_layer v) (copper_layers (board_of (env_router e))))"

definition via_step ::
    "search_env \<Rightarrow> node \<Rightarrow> nat \<Rightarrow> layer \<Rightarrow> search \<Rightarrow> (search_end \<times> search) + search" where
  "via_step e n cost other_layer s =
     (let r = env_router e;
          other = layer_index other_layer
      in
      if other = node_layer n \<or> \<not> allowed_layer (board_of r) (env_net e) other_layer then Inr s
      else
        bind_result (ok_or (Panicked, s) (search_via e n other_layer)) (\<lambda>(candidate, multiplier).
        let cells = column_cells e n candidate in
        bind_result (ok_or (Panicked, s) (any_option (obstructed r (env_net e)) cells)) (\<lambda>obstacle.
        if obstacle then Inr s
        else
          let owners = set (List.map_filter (occupied_by r) cells)
          in if owners \<noteq> {} then Inr (s\<lparr>blocker_ids := blocker_ids s \<union> owners\<rparr>)
             else relax e n (n\<lparr>node_layer := other\<rparr>) (cost + via_cost (env_rules e) * multiplier) s)))"

definition expand :: "search_env \<Rightarrow> node \<Rightarrow> nat \<Rightarrow> search \<Rightarrow> (search_end \<times> search) + search" where
  "expand e n cost s =
     bind_result (fold_result (direction_step e n cost) [0..<8] s) (\<lambda>s.
     if via_inside_board e n
     then fold_result (via_step e n cost) (copper_layers (board_of (env_router e))) s
     else Inr s)"

section \<open>The loop\<close>

text \<open>No step gains work budget, so the loop ends: each round takes one unit.\<close>

lemma relax_budget: "relax e n m cost s = Inr s' \<Longrightarrow> budget_left s' \<le> budget_left s"
  by (auto simp: relax_def consume_def bind_result_Inr ok_or_Inr split: if_splits)

lemma direction_step_budget: "direction_step e n cost k s = Inr s' \<Longrightarrow> budget_left s' \<le> budget_left s"
  by (auto simp: direction_step_def Let_def bind_result_Inr split: if_splits option.splits prod.splits
      dest!: relax_budget)

lemma via_step_budget: "via_step e n cost l s = Inr s' \<Longrightarrow> budget_left s' \<le> budget_left s"
  by (auto simp: via_step_def Let_def bind_result_Inr split: if_splits prod.splits dest!: relax_budget)

lemma expand_budget: "expand e n cost s = Inr s' \<Longrightarrow> budget_left s' \<le> budget_left s"
proof -
  have dirs: "budget_left s2 \<le> budget_left s"
    if "fold_result (direction_step e n cost) [0..<8] s = Inr s2" for s2
    using that by (rule fold_result_invariant[where P = "\<lambda>t. budget_left t \<le> budget_left s"])
      (auto dest: direction_step_budget)
  have vias: "budget_left s' \<le> budget_left s2"
    if "fold_result (via_step e n cost) (copper_layers (board_of (env_router e))) s2 = Inr s'" for s2
    using that by (rule fold_result_invariant[where P = "\<lambda>t. budget_left t \<le> budget_left s2"])
      (auto dest: via_step_budget)
  assume "expand e n cost s = Inr s'"
  then show ?thesis
    unfolding expand_def bind_result_Inr using dirs vias by (fastforce split: if_splits)
qed

text \<open>The walk from the goal back to a start node.\<close>

partial_function (option) walk_back :: "(node \<rightharpoonup> node) \<Rightarrow> node \<Rightarrow> node list \<Rightarrow> node list option" where
  "walk_back p cur path =
     (case p cur of None \<Rightarrow> Some path
      | Some before \<Rightarrow> walk_back p before (before # path))"

definition reach :: "search \<Rightarrow> queue_item \<Rightarrow> search_end" where
  "reach s item =
     (case walk_back (prev s) (item_node item) [item_node item] of
        None \<Rightarrow> Endless_Path
      | Some path \<Rightarrow> Reached path (item_cost item))"

function search_loop :: "search_env \<Rightarrow> search \<Rightarrow> search_end \<times> search" where
  "search_loop e s =
     (if open_items s = [] then (No_Path, s)
      else case consume (budget_left s) of
        None \<Rightarrow> (Exhausted, s)
      | Some b \<Rightarrow>
          (case heap_pop queue_le (open_items s) of
             None \<Rightarrow> (Panicked, s)
           | Some (item, rest) \<Rightarrow>
               let s = s\<lparr>budget_left := b, open_items := rest\<rparr>;
                   n = item_node item
               in
               if item_cost item \<noteq> known_cost s n then search_loop e s
               else
                 let s = s\<lparr>expanded_nodes := expanded_nodes s + 1\<rparr>
                 in
                 if (node_x n, node_y n, node_layer n) \<in> set (env_goals e) then (reach s item, s)
                 else
                   (case expand e n (item_cost item) s of
                      Inl ending \<Rightarrow> ending
                    | Inr s \<Rightarrow> search_loop e s)))"
  by pat_completeness auto
termination
  by (relation "measure (\<lambda>(e, s). budget_left s)")
     (auto simp: consume_def split: if_splits dest!: expand_budget)

declare search_loop.simps [simp del]

definition search_env_for :: "router \<Rightarrow> nat \<Rightarrow> terminal \<Rightarrow> cell list \<Rightarrow> rules \<Rightarrow> search_env" where
  "search_env_for r n t goals rs =
     (let g = grid_nm rs;
          track_radius = track_width_nm rs sdiv 2
      in \<lparr>env_router = r, env_net = n, env_rules = rs, env_goals = goals,
          start_x = wrap_i32 (nearest_grid (x_nm (position_nm t)) g),
          start_y = wrap_i32 (nearest_grid (y_nm (position_nm t)) g),
          min_track_cell = wrap_i32 ((track_radius + g - 1) sdiv g),
          max_x = wrap_i32 ((board_width_nm (board_of r) - track_radius) sdiv g),
          max_y = wrap_i32 ((board_height_nm (board_of r) - track_radius) sdiv g)\<rparr>)"

definition seed :: "search_env \<Rightarrow> node \<Rightarrow> search \<Rightarrow> search" where
  "seed e n s =
     s\<lparr>costs := (costs s)(n \<mapsto> 0),
       open_items := heap_push queue_le
         \<lparr>item_score = heuristic_to_tree (start_x e) (start_y e) (env_goals e), item_cost = 0, item_node = n\<rparr>
         (open_items s)\<rparr>"

definition initial_search :: "search_env \<Rightarrow> node list \<Rightarrow> work_budget \<Rightarrow> search" where
  "initial_search e starts budget =
     fold (seed e) starts
       \<lparr>open_items = [], costs = Map.empty, prev = Map.empty, blocker_ids = {}, expanded_nodes = 0,
        budget_left = budget\<rparr>"

definition astar_to_tree ::
    "router \<Rightarrow> nat \<Rightarrow> terminal \<Rightarrow> cell list \<Rightarrow> rules \<Rightarrow> work_budget \<Rightarrow> search_end \<times> search" where
  "astar_to_tree r n t goals rs budget =
     (let e = search_env_for r n t goals rs
      in search_loop e (initial_search e (terminal_nodes r n t rs) budget))"

end
