(* ===== verification/BestFirst.thy ===== *)
theory BestFirst
  imports Prelude
begin

text \<open>
  The abstract search that \<open>Router::astar_to_tree\<close> implements: best-first search with lazy deletion on
  a weighted graph. The state is a cost map, a map of predecessors and a bag of queue entries; the
  locale holds the invariants of its three transitions (seed, pop, relax) and what they give at the
  end: a path that the predecessors describe, of least cost, or the absence of any path.
\<close>

section \<open>Paths\<close>

inductive weighted_path :: "('n \<Rightarrow> ('n \<times> nat) set) \<Rightarrow> 'n list \<Rightarrow> nat \<Rightarrow> bool"
  for mv :: "'n \<Rightarrow> ('n \<times> nat) set" where
  start: "weighted_path mv [n] 0"
| step: "weighted_path mv ns W \<Longrightarrow> (m, w) \<in> mv (last ns) \<Longrightarrow> weighted_path mv (ns @ [m]) (W + w)"

lemma weighted_path_nonempty: "weighted_path mv ns W \<Longrightarrow> ns \<noteq> []"
  by (induction rule: weighted_path.induct) auto

lemma windows2_append_one: "xs \<noteq> [] \<Longrightarrow> windows2 (xs @ [y]) = windows2 xs @ [(last xs, y)]"
  by (induction xs rule: windows2.induct) auto

lemma weighted_path_steps:
  "weighted_path mv ns W \<Longrightarrow> (a, b) \<in> set (windows2 ns) \<Longrightarrow> \<exists>w. (b, w) \<in> mv a"
proof (induction arbitrary: a b rule: weighted_path.induct)
  case (step ns W m w)
  then show ?case using weighted_path_nonempty[OF step.hyps(1)] by (auto simp: windows2_append_one)
qed simp

text \<open>Following the predecessors of a node to a node without one.\<close>

inductive traced :: "('n \<rightharpoonup> 'n) \<Rightarrow> 'n \<Rightarrow> 'n list \<Rightarrow> bool" for p :: "'n \<rightharpoonup> 'n" where
  root: "p n = None \<Longrightarrow> traced p n [n]"
| follow: "p n = Some m \<Longrightarrow> traced p m ns \<Longrightarrow> traced p n (ns @ [n])"

lemma traced_last: "traced p n ns \<Longrightarrow> ns \<noteq> [] \<and> last ns = n"
  by (induction rule: traced.induct) auto

lemma traced_unchanged: "traced p n ns \<Longrightarrow> m \<notin> set ns \<Longrightarrow> traced (p(m \<mapsto> k)) n ns"
  by (induction rule: traced.induct) (auto intro: traced.intros)

lemma traced_extend:
  "traced p k ks \<Longrightarrow> m \<notin> set ks \<Longrightarrow> traced (p(m \<mapsto> k)) m (ks @ [m])"
  by (rule traced.follow[where m = k]) (simp_all add: traced_unchanged)

lemma traced_redirect:
  assumes "traced p n ns" and "traced p k ks" and "m \<notin> set ks"
  shows "\<exists>ns'. traced (p(m \<mapsto> k)) n ns'"
  using assms(1)
proof (induction rule: traced.induct)
  case (root n)
  show ?case
  proof (cases "n = m")
    case True
    then show ?thesis using traced_extend[OF assms(2,3)] by blast
  next
    case False
    then have "traced (p(m \<mapsto> k)) n [n]" using root by (intro traced.root) simp
    then show ?thesis by blast
  qed
next
  case (follow n k' ns)
  show ?case
  proof (cases "n = m")
    case True
    then show ?thesis using traced_extend[OF assms(2,3)] by blast
  next
    case False
    then obtain ns' where "traced (p(m \<mapsto> k)) k' ns'" using follow.IH by blast
    then have "traced (p(m \<mapsto> k)) n (ns' @ [n])"
      using follow.hyps(1) False by (intro traced.follow[where m = k']) simp_all
    then show ?thesis by blast
  qed
qed

section \<open>Best-first search\<close>

locale best_first =
  fixes moves :: "'n \<Rightarrow> ('n \<times> nat) set"
    and h :: "'n \<Rightarrow> nat"
    and goals :: "'n set"
    and starts :: "'n set"
  assumes consistent: "(m, w) \<in> moves n \<Longrightarrow> h n \<le> w + h m"
    and goal_zero: "g \<in> goals \<Longrightarrow> h g = 0"
begin

text \<open>The costs are costs of real paths: the predecessors lead to a start, at most at the cost noted.\<close>

definition sound :: "('n \<rightharpoonup> nat) \<Rightarrow> ('n \<rightharpoonup> 'n) \<Rightarrow> (nat \<times> 'n) multiset \<Rightarrow> bool" where
  "sound c p q \<longleftrightarrow>
     (\<forall>n \<in> starts. c n = Some 0) \<and>
     (\<forall>n m. p n = Some m \<longrightarrow>
        (\<exists>cm cn w. c m = Some cm \<and> c n = Some cn \<and> (n, w) \<in> moves m \<and> cm + w \<le> cn)) \<and>
     (\<forall>n cn. c n = Some cn \<and> p n = None \<longrightarrow> n \<in> starts) \<and>
     (\<forall>n \<in> dom c. \<exists>ns. traced p n ns) \<and>
     (\<forall>k n. (k, n) \<in># q \<longrightarrow> (\<exists>cn \<le> k. c n = Some cn))"

text \<open>Every node with a cost, other than those in \<open>X\<close>, waits in the queue or has been expanded.\<close>

definition settled :: "('n \<rightharpoonup> nat) \<Rightarrow> 'n \<Rightarrow> nat \<Rightarrow> bool" where
  "settled c n k \<longleftrightarrow> n \<notin> goals \<and> (\<forall>m w. (m, w) \<in> moves n \<longrightarrow> (\<exists>cm. c m = Some cm \<and> cm \<le> k + w))"

definition complete :: "'n set \<Rightarrow> ('n \<rightharpoonup> nat) \<Rightarrow> (nat \<times> 'n) multiset \<Rightarrow> bool" where
  "complete X c q \<longleftrightarrow>
     (\<forall>n cn. c n = Some cn \<and> n \<notin> X \<longrightarrow> (cn, n) \<in># q \<or> settled c n cn)"

lemma soundD:
  assumes "sound c p q"
  shows "n \<in> starts \<Longrightarrow> c n = Some 0"
    and "p n = Some m \<Longrightarrow> \<exists>cm cn w. c m = Some cm \<and> c n = Some cn \<and> (n, w) \<in> moves m \<and> cm + w \<le> cn"
    and "c n = Some cn \<Longrightarrow> p n = None \<Longrightarrow> n \<in> starts"
    and "c n = Some cn \<Longrightarrow> \<exists>ns. traced p n ns"
    and "(k, n) \<in># q \<Longrightarrow> \<exists>cn \<le> k. c n = Some cn"
  using assms unfolding sound_def by blast+

lemma completeD:
  assumes "complete X c q" "c n = Some cn" "n \<notin> X" "(cn, n) \<notin># q"
  shows "n \<notin> goals" and "(m, w) \<in> moves n \<Longrightarrow> \<exists>cm. c m = Some cm \<and> cm \<le> cn + w"
  using assms unfolding complete_def settled_def by blast+

subsection \<open>The transitions\<close>

lemma initial_sound:
  assumes "\<And>n. c n = (if n \<in> starts then Some 0 else None)" and "\<And>k n. (k, n) \<in># q \<Longrightarrow> k = 0 \<and> n \<in> starts"
  shows "sound c Map.empty q"
  unfolding sound_def using assms by (auto intro: traced.root split: if_splits)

lemma initial_complete:
  assumes "\<And>n. c n = (if n \<in> starts then Some 0 else None)" and "\<And>n. n \<in> starts \<Longrightarrow> (0, n) \<in># q"
  shows "complete {} c q"
  unfolding complete_def using assms by (auto split: if_splits)

lemma pop_sound: "sound c p (add_mset x q) \<Longrightarrow> sound c p q"
  unfolding sound_def by simp

lemma pop_stale: "complete X c (add_mset (k, n) q) \<Longrightarrow> c n \<noteq> Some k \<Longrightarrow> complete X c q"
  unfolding complete_def by auto

lemma pop_fresh: "complete {} c (add_mset (k, n) q) \<Longrightarrow> complete {n} c q"
  unfolding complete_def by auto

lemma settle:
  assumes "complete {n} c q" and "n \<notin> goals"
    and "\<And>m w. (m, w) \<in> moves n \<Longrightarrow> \<exists>cm. c m = Some cm \<and> cm \<le> k + w" and "c n = Some k"
  shows "complete {} c q"
  unfolding complete_def
proof (intro allI impI; elim conjE)
  fix n' cn assume "c n' = Some cn" "n' \<notin> {}"
  then show "(cn, n') \<in># q \<or> settled c n' cn"
    using assms unfolding complete_def settled_def by (cases "n' = n") auto
qed

text \<open>Along the predecessors of a node the costs do not grow.\<close>

lemma traced_costs:
  assumes "traced p n ns" and "sound c p q" and "m \<in> set ns" and "c n = Some cn"
  shows "\<exists>cm \<le> cn. c m = Some cm"
  using assms(1,3,4)
proof (induction arbitrary: cn rule: traced.induct)
  case (follow n k ns)
  obtain ck cn' w where k: "c k = Some ck" "c n = Some cn'" "ck + w \<le> cn'"
    using soundD(2)[OF assms(2) follow.hyps(1)] by blast
  show ?case
  proof (cases "m = n")
    case False
    then have "\<exists>cm \<le> ck. c m = Some cm" using follow k by simp
    then show ?thesis using k follow.prems by fastforce
  qed (use follow.prems in auto)
qed auto

lemma relax_sound:
  assumes s: "sound c p q" and n: "c n = Some cn" and move: "(m, w) \<in> moves n"
    and better: "\<And>cm. c m = Some cm \<Longrightarrow> cn + w < cm"
  shows "sound (c(m \<mapsto> cn + w)) (p(m \<mapsto> n)) (add_mset (cn + w, m) q)"
proof -
  have nm: "n \<noteq> m" using better[of cn] n by auto
  obtain ns where ns: "traced p n ns" using soundD(4)[OF s n] by blast
  have fresh: "m \<notin> set ns"
    using traced_costs[OF ns s _ n] better by fastforce
  have traces: "\<exists>ns'. traced (p(m \<mapsto> n)) k ns'" if k: "k \<in> dom (c(m \<mapsto> cn + w))" for k
  proof (cases "k = m")
    case True
    then show ?thesis using traced_extend[OF ns fresh] by blast
  next
    case False
    then obtain ck where "c k = Some ck" using k by auto
    then show ?thesis using soundD(4)[OF s] traced_redirect[OF _ ns fresh] by blast
  qed
  have edges: "\<exists>ca cb v. (c(m \<mapsto> cn + w)) a = Some ca \<and> (c(m \<mapsto> cn + w)) b = Some cb \<and> (b, v) \<in> moves a \<and> ca + v \<le> cb"
    if pb: "(p(m \<mapsto> n)) b = Some a" for a b
  proof (cases "b = m")
    case True
    then show ?thesis using pb n move nm by auto
  next
    case False
    then obtain ca cb v where ab: "c a = Some ca" "c b = Some cb" "(b, v) \<in> moves a" "ca + v \<le> cb"
      using soundD(2)[OF s, of b a] pb by auto
    show ?thesis
    proof (cases "a = m")
      case True
      then have "cn + w + v \<le> cb" using ab better[of ca] by simp
      then show ?thesis using ab False True by auto
    qed (use ab False in auto)
  qed
  have start: "(c(m \<mapsto> cn + w)) k = Some 0" if "k \<in> starts" for k
    using soundD(1)[OF s that] better[of 0] by (cases "k = m") auto
  have queue: "\<exists>ck \<le> j. (c(m \<mapsto> cn + w)) k = Some ck" if jk: "(j, k) \<in># add_mset (cn + w, m) q" for j k
  proof (cases "k = m \<and> j \<noteq> cn + w")
    case True
    then obtain ck where "c m = Some ck" "ck \<le> j" using jk soundD(5)[OF s, of j k] by auto
    then show ?thesis using better[of ck] True by auto
  qed (use jk soundD(5)[OF s, of j k] in auto)
  show ?thesis
    unfolding sound_def using start edges traces queue soundD(3)[OF s] by (auto split: if_splits)
qed

lemma relax_complete:
  assumes "complete X c q" and "\<And>cm. c m = Some cm \<Longrightarrow> k < cm" and "m \<notin> X"
  shows "complete X (c(m \<mapsto> k)) (add_mset (k, m) q)"
  unfolding complete_def
proof (intro allI impI; elim conjE)
  fix n cn assume n: "(c(m \<mapsto> k)) n = Some cn" "n \<notin> X"
  show "(cn, n) \<in># add_mset (k, m) q \<or> settled (c(m \<mapsto> k)) n cn"
  proof (cases "n = m \<or> (cn, n) \<in># q")
    case False
    then have "c n = Some cn" "(cn, n) \<notin># q" using n by auto
    note old = completeD[OF assms(1) this(1) n(2) this(2)]
    have "\<exists>ca. (c(m \<mapsto> k)) a = Some ca \<and> ca \<le> cn + w" if "(a, w) \<in> moves n" for a w
      using old(2)[OF that] assms(2) by (cases "a = m") fastforce+
    then show ?thesis using old(1) unfolding settled_def by blast
  qed (use n in auto)
qed

subsection \<open>What the search finds\<close>

text \<open>The heuristic does not overestimate: on a path it drops at most by the cost of the path.\<close>

lemma path_heuristic: "weighted_path moves ns W \<Longrightarrow> h (hd ns) \<le> W + h (last ns)"
proof (induction rule: weighted_path.induct)
  case (step ns W m w)
  then show ?case
    using consistent[of m w "last ns"] weighted_path_nonempty[OF step.hyps(1)] by simp
qed simp

text \<open>
  On a path from a start some entry of the queue is as good as the path so far, or the end of the
  path has a cost as good as the path and has been expanded.
\<close>

lemma frontier:
  assumes c: "complete {} c q" and s: "sound c p q"
  shows "weighted_path moves ns W \<Longrightarrow> hd ns \<in> starts \<Longrightarrow>
    (\<exists>k n. (k, n) \<in># q \<and> k + h n \<le> W + h (last ns)) \<or>
    (\<exists>k \<le> W. c (last ns) = Some k \<and> (k, last ns) \<notin># q)"
proof (induction rule: weighted_path.induct)
  case (start n)
  then have "c n = Some 0" using soundD(1)[OF s] by simp
  then show ?case by (cases "(0, n) \<in># q") (auto intro!: exI[of _ 0] exI[of _ n])
next
  case (step ns W m w)
  have ne: "ns \<noteq> []" using weighted_path_nonempty[OF step.hyps(1)] .
  then consider k n where "(k, n) \<in># q" "k + h n \<le> W + h (last ns)"
    | k where "k \<le> W" "c (last ns) = Some k" "(k, last ns) \<notin># q"
    using step.IH step.prems by auto
  then show ?case
  proof cases
    case 1
    then have "k + h n \<le> W + w + h m" using consistent[OF step.hyps(2)] by linarith
    then show ?thesis using 1 by auto
  next
    case 2
    then obtain cm where cm: "c m = Some cm" "cm \<le> k + w"
      using completeD(2)[OF c] step.hyps(2) by blast
    then show ?thesis
    proof (cases "(cm, m) \<in># q")
      case True
      then show ?thesis using cm 2 by (intro disjI1 exI[of _ cm] exI[of _ m]) auto
    next
      case False
      then show ?thesis using cm 2 by (intro disjI2 exI[of _ cm]) auto
    qed
  qed
qed

lemma popped_goal_optimal:
  assumes "complete {} c q" and "sound c p q" and "(k, g) \<in># q" and "g \<in> goals"
    and "\<And>k' n'. (k', n') \<in># q \<Longrightarrow> k + h g \<le> k' + h n'"
    and path: "weighted_path moves ns W" "hd ns \<in> starts" "last ns \<in> goals"
  shows "k \<le> W"
proof -
  have "\<not> (\<exists>k \<le> W. c (last ns) = Some k \<and> (k, last ns) \<notin># q)"
    using completeD(1)[OF assms(1)] path(3) by blast
  then obtain k' n' where "(k', n') \<in># q" "k' + h n' \<le> W + h (last ns)"
    using frontier[OF assms(1,2) path(1,2)] by blast
  then have "k + h g \<le> W + h (last ns)" using assms(5)[of k' n'] by linarith
  then show ?thesis using goal_zero[OF path(3)] by simp
qed

lemma empty_queue_no_path:
  assumes "complete {} c {#}" and "sound c p {#}"
    and path: "weighted_path moves ns W" "hd ns \<in> starts"
  shows "last ns \<notin> goals"
  using frontier[OF assms] completeD(1)[OF assms(1)] by fastforce

lemma traced_path:
  assumes "traced p n ns" and s: "sound c p q" and "c n = Some k"
  shows "\<exists>W \<le> k. weighted_path moves ns W \<and> hd ns \<in> starts \<and> last ns = n"
  using assms(1,3)
proof (induction arbitrary: k rule: traced.induct)
  case (root n)
  then show ?case using soundD(3)[OF s] by (auto intro: weighted_path.start)
next
  case (follow n m ns)
  obtain cm cn w where m: "c m = Some cm" "c n = Some cn" "(n, w) \<in> moves m" "cm + w \<le> cn"
    using soundD(2)[OF s follow.hyps(1)] by blast
  then obtain W where W: "W \<le> cm" "weighted_path moves ns W" "hd ns \<in> starts" "last ns = m"
    using follow.IH by blast
  moreover have "ns \<noteq> []" using weighted_path_nonempty[OF W(2)] .
  moreover have "weighted_path moves (ns @ [n]) (W + w)" using W m by (intro weighted_path.step) auto
  moreover have "W + w \<le> k" using W m follow.prems by simp
  ultimately show ?case by auto
qed

end

end
