(* ===== verification/SearchMoves.thy ===== *)
theory SearchMoves
  imports Search BestFirst
begin

text \<open>
  The graph that the search of \<open>Search\<close> explores: which nodes the guards of a track step and of a via
  step let a node reach, and at what cost. An expansion relaxes exactly these moves, in the order of
  the code, and apart from that only records blockers.
\<close>

section \<open>Targets of the steps\<close>

definition clear_cell :: "search_env \<Rightarrow> cell \<Rightarrow> bool" where
  "clear_cell e c \<longleftrightarrow> obstructed (env_router e) (env_net e) c = Some False"

definition track_target :: "search_env \<Rightarrow> node \<Rightarrow> nat \<Rightarrow> (node \<times> nat) option" where
  "track_target e n offset =
     (let dir = (offset + search_variant (env_router e)) mod 8;
          (dx, dy) = DIRS ! dir;
          x = node_x n + dx;
          y = node_y n + dy;
          cell = (x, y, node_layer n)
      in
      if x < min_track_cell e \<or> y < min_track_cell e \<or> x > max_x e \<or> y > max_y e then None
      else if \<not> endpoint_cell e cell \<and> (\<not> clear_cell e cell \<or> cell \<in> occupied (env_router e)) then None
      else if dx \<noteq> 0 \<and> dy \<noteq> 0 \<and>
        (\<not> clear_cell e (x, node_y n, node_layer n) \<or> \<not> clear_cell e (node_x n, y, node_layer n)) then None
      else Some (\<lparr>node_x = x, node_y = y, node_layer = node_layer n, node_dir = dir\<rparr>, track_cost e n dir x y))"

definition via_target :: "search_env \<Rightarrow> node \<Rightarrow> layer \<Rightarrow> (node \<times> nat) option" where
  "via_target e n other_layer =
     (if layer_index other_layer = node_layer n \<or> \<not> allowed_layer (board_of (env_router e)) (env_net e) other_layer
      then None
      else Option.bind (search_via e n other_layer) (\<lambda>(candidate, multiplier).
        if list_all (\<lambda>c. clear_cell e c \<and> occupied_by (env_router e) c = None) (column_cells e n candidate)
        then Some (n\<lparr>node_layer := layer_index other_layer\<rparr>, via_cost (env_rules e) * multiplier)
        else None))"

definition moves :: "search_env \<Rightarrow> node \<Rightarrow> (node \<times> nat) list" where
  "moves e n =
     List.map_filter (track_target e n) [0..<8] @
     (if via_inside_board e n
      then List.map_filter (via_target e n) (copper_layers (board_of (env_router e))) else [])"

section \<open>The steps relax their targets\<close>

lemma any_option_False: "any_option f xs = Some False \<longleftrightarrow> (\<forall>x \<in> set xs. f x = Some False)"
  by (induction xs) (auto simp: bind_eq_Some_conv split: if_splits)

lemma blocker_ids_same: "s\<lparr>blocker_ids := blocker_ids s\<rparr> = (s :: search)"
  by simp

lemma direction_step_track:
  assumes "direction_step e n cost k s = Inr s'"
  shows "(\<exists>m w. track_target e n k = Some (m, w) \<and> relax e n m (cost + w) s = Inr s') \<or>
    (track_target e n k = None \<and> (\<exists>B. s' = s\<lparr>blocker_ids := B\<rparr>))"
proof -
  let ?r = "env_router e"
  define dir where "dir = (k + search_variant ?r) mod 8"
  obtain dx dy where d: "DIRS ! dir = (dx, dy)" by (cases "DIRS ! dir")
  define x y where "x = node_x n + dx" and "y = node_y n + dy"
  let ?cell = "(x, y, node_layer n)"
  let ?corners = "[(x, node_y n, node_layer n), (node_x n, y, node_layer n)]"
  let ?outside = "x < min_track_cell e \<or> y < min_track_cell e \<or> x > max_x e \<or> y > max_y e"
  let ?diagonal = "dx \<noteq> 0 \<and> dy \<noteq> 0"
  let ?m = "\<lparr>node_x = x, node_y = y, node_layer = node_layer n, node_dir = dir\<rparr>"
  let ?w = "track_cost e n dir x y"
  note unfold_step = direction_step_def[of e n cost k s] Let_def dir_def[symmetric] d prod.case
    x_def[symmetric] y_def[symmetric]
  note unfold_target = track_target_def[of e n k] Let_def dir_def[symmetric] d prod.case
    x_def[symmetric] y_def[symmetric]
  show ?thesis
  proof (cases ?outside)
    case True
    then show ?thesis using assms unfolding unfold_step unfold_target
      by (auto intro: blocker_ids_same[symmetric])
  next
    case inside: False
    obtain obstacle where o: "(if endpoint_cell e ?cell then Some False else obstructed ?r (env_net e) ?cell) = Some obstacle"
      using assms inside unfolding unfold_step by (auto simp: bind_result_Inr ok_or_Inr)
    have clear: "obstacle \<longleftrightarrow> \<not> endpoint_cell e ?cell \<and> \<not> clear_cell e ?cell"
      using o by (auto simp: clear_cell_def split: if_splits)
    show ?thesis
    proof (cases "obstacle \<or> \<not> endpoint_cell e ?cell \<and> ?cell \<in> occupied ?r")
      case True
      then have "track_target e n k = None" unfolding unfold_target using clear by auto
      moreover have "\<exists>B. s' = s\<lparr>blocker_ids := B\<rparr>"
        using assms True o inside unfolding unfold_step
        by (auto split: option.splits if_splits intro: blocker_ids_same[symmetric])
      ultimately show ?thesis by blast
    next
      case False
      obtain corner where c: "(if ?diagonal then any_option (obstructed ?r (env_net e)) ?corners else Some False) = Some corner"
        using assms inside o False unfolding unfold_step by (auto simp: bind_result_Inr ok_or_Inr split: if_splits)
      have corner: "corner \<longleftrightarrow> ?diagonal \<and> \<not> (\<forall>c \<in> set ?corners. clear_cell e c)"
        using c any_option_False[of "obstructed ?r (env_net e)" ?corners]
        by (auto simp: clear_cell_def split: if_splits)
      have "direction_step e n cost k s = (if corner then Inr s else relax e n ?m (cost + ?w) s)"
        using inside o c False unfolding unfold_step by (cases "endpoint_cell e ?cell") auto
      moreover have "track_target e n k = (if corner then None else Some (?m, ?w))"
        using inside False clear corner unfolding unfold_target by auto
      ultimately show ?thesis using assms by (auto split: if_splits intro: blocker_ids_same[symmetric])
    qed
  qed
qed

lemma via_step_via:
  assumes "via_step e n cost l s = Inr s'"
  shows "(\<exists>m w. via_target e n l = Some (m, w) \<and> relax e n m (cost + w) s = Inr s') \<or>
    (via_target e n l = None \<and> (\<exists>B. s' = s\<lparr>blocker_ids := B\<rparr>))"
proof (cases "layer_index l = node_layer n \<or> \<not> allowed_layer (board_of (env_router e)) (env_net e) l")
  case True
  then show ?thesis using assms by (auto simp: via_step_def via_target_def intro: blocker_ids_same[symmetric])
next
  case False
  obtain v k where v: "search_via e n l = Some (v, k)"
    using assms False by (auto simp: via_step_def Let_def bind_result_Inr ok_or_Inr)
  let ?cells = "column_cells e n v"
  let ?owners = "set (List.map_filter (occupied_by (env_router e)) ?cells)"
  have owners: "?owners = {} \<longleftrightarrow> (\<forall>c \<in> set ?cells. occupied_by (env_router e) c = None)"
    by (auto simp: map_filter_def)
  obtain obstacle where o: "any_option (obstructed (env_router e) (env_net e)) ?cells = Some obstacle"
    using assms False v by (auto simp: via_step_def bind_result_Inr ok_or_Inr Let_def)
  have clear: "\<not> obstacle \<longleftrightarrow> (\<forall>c \<in> set ?cells. clear_cell e c)"
    using o any_option_False[of "obstructed (env_router e) (env_net e)" ?cells]
    by (auto simp: clear_cell_def)
  have target: "via_target e n l = (if \<not> obstacle \<and> ?owners = {}
      then Some (n\<lparr>node_layer := layer_index l\<rparr>, via_cost (env_rules e) * k) else None)"
    unfolding via_target_def using False v owners clear by (auto simp: list_all_iff)
  have step: "via_step e n cost l s =
      (if obstacle then Inr s
       else if ?owners \<noteq> {} then Inr (s\<lparr>blocker_ids := blocker_ids s \<union> ?owners\<rparr>)
       else relax e n (n\<lparr>node_layer := layer_index l\<rparr>) (cost + via_cost (env_rules e) * k) s)"
    using False v o by (simp add: via_step_def Let_def)
  show ?thesis using assms unfolding target step
    by (auto split: if_splits intro: blocker_ids_same[symmetric])
qed

section \<open>Rules for an expansion\<close>

text \<open>A property that survives recording blockers and relaxing moves survives an expansion.\<close>

lemma set_moves:
  "(m, w) \<in> set (moves e n) \<longleftrightarrow>
    (\<exists>k < 8. track_target e n k = Some (m, w)) \<or>
    (via_inside_board e n \<and> (\<exists>l \<in> set (copper_layers (board_of (env_router e))). via_target e n l = Some (m, w)))"
  by (auto simp: moves_def map_filter_def image_iff Bex_def)

lemma expand_split:
  assumes "expand e n cost s = Inr s'"
  obtains s1 where "fold_result (direction_step e n cost) [0..<8] s = Inr s1"
    and "if via_inside_board e n
      then fold_result (via_step e n cost) (copper_layers (board_of (env_router e))) s1 = Inr s' else s' = s1"
  using assms that by (auto simp: expand_def bind_result_Inr split: if_splits)

lemma expand_invariant:
  assumes "expand e n cost s = Inr s'" and "P s"
    and blockers: "\<And>s B. P s \<Longrightarrow> P (s\<lparr>blocker_ids := B\<rparr>)"
    and relax: "\<And>m w s s'. (m, w) \<in> set (moves e n) \<Longrightarrow> P s \<Longrightarrow> relax e n m (cost + w) s = Inr s' \<Longrightarrow> P s'"
  shows "P s'"
proof -
  obtain s1 where s1: "fold_result (direction_step e n cost) [0..<8] s = Inr s1"
    "if via_inside_board e n
      then fold_result (via_step e n cost) (copper_layers (board_of (env_router e))) s1 = Inr s' else s' = s1"
    using expand_split[OF assms(1)] .
  have "P s1"
    using s1(1) assms(2)
  proof (rule fold_result_invariant)
    fix k t t' assume k: "k \<in> set [0..<8]" and t: "P t" "direction_step e n cost k t = Inr t'"
    from direction_step_track[OF t(2)] show "P t'"
    proof (elim disjE exE conjE)
      fix m w assume "track_target e n k = Some (m, w)" "relax e n m (cost + w) t = Inr t'"
      then show "P t'" using k t(1) relax[of m w t t'] by (auto simp: set_moves)
    qed (use blockers t(1) in simp)
  qed
  show ?thesis
  proof (cases "via_inside_board e n")
    case True
    with s1(2) have "fold_result (via_step e n cost) (copper_layers (board_of (env_router e))) s1 = Inr s'" by simp
    then show ?thesis using \<open>P s1\<close>
    proof (rule fold_result_invariant)
      fix l t t' assume l: "l \<in> set (copper_layers (board_of (env_router e)))"
        and t: "P t" "via_step e n cost l t = Inr t'"
      from via_step_via[OF t(2)] show "P t'"
      proof (elim disjE exE conjE)
        fix m w assume "via_target e n l = Some (m, w)" "relax e n m (cost + w) t = Inr t'"
        then show "P t'" using True l t(1) relax[of m w t t'] by (auto simp: set_moves)
      qed (use blockers t(1) in simp)
    qed
  qed (use s1(2) \<open>P s1\<close> in simp)
qed

text \<open>What relaxing a move establishes, and later relaxations keep, holds for every move at the end.\<close>

lemma fold_result_each:
  assumes "fold_result f xs s = Inr t" and "x \<in> set xs"
    and "\<And>s s'. f x s = Inr s' \<Longrightarrow> Q s'" and "\<And>y s s'. f y s = Inr s' \<Longrightarrow> Q s \<Longrightarrow> Q s'"
  shows "Q t"
  using assms(1,2)
proof (induction xs arbitrary: s)
  case (Cons y ys)
  then obtain s1 where s1: "f y s = Inr s1" "fold_result f ys s1 = Inr t" by (auto simp: bind_result_Inr)
  show ?case
  proof (cases "x = y")
    case True
    then have "Q s1" using s1(1) assms(3) by simp
    with s1(2) show ?thesis by (rule fold_result_invariant) (rule assms(4))
  qed (use Cons s1 in auto)
qed simp

lemma relax_known_mono:
  "relax e n m cost s = Inr s' \<Longrightarrow> known_cost s' k \<le> known_cost s k"
  by (auto simp: relax_def bind_result_Inr ok_or_Inr known_cost_def split: if_splits)

lemma relax_known: "relax e n m cost s = Inr s' \<Longrightarrow> known_cost s' m \<le> cost"
  by (auto simp: relax_def bind_result_Inr ok_or_Inr known_cost_def split: if_splits)

lemma expand_known:
  assumes "expand e n cost s = Inr s'" and "(m, w) \<in> set (moves e n)"
  shows "known_cost s' m \<le> cost + w"
proof -
  let ?Q = "\<lambda>t. known_cost t m \<le> cost + w"
  obtain s1 where s1: "fold_result (direction_step e n cost) [0..<8] s = Inr s1"
    "if via_inside_board e n
      then fold_result (via_step e n cost) (copper_layers (board_of (env_router e))) s1 = Inr s' else s' = s1"
    using expand_split[OF assms(1)] .
  have keep_track: "?Q t \<Longrightarrow> ?Q t'" if "direction_step e n cost k t = Inr t'" for k t t'
    using direction_step_track[OF that] relax_known_mono[of e n _ _ t t' m]
    by (elim disjE exE conjE) (auto simp: known_cost_def intro: order.trans)
  have keep_via: "?Q t \<Longrightarrow> ?Q t'" if "via_step e n cost k t = Inr t'" for k t t'
    using via_step_via[OF that] relax_known_mono[of e n _ _ t t' m]
    by (elim disjE exE conjE) (auto simp: known_cost_def intro: order.trans)
  consider (track) k where "k < 8" "track_target e n k = Some (m, w)"
    | (via) l where "via_inside_board e n" "l \<in> set (copper_layers (board_of (env_router e)))" "via_target e n l = Some (m, w)"
    using assms(2) unfolding set_moves by blast
  then show ?thesis
  proof cases
    case track
    have set_k: "?Q t'" if "direction_step e n cost k t = Inr t'" for t t'
      using direction_step_track[OF that] track(2) relax_known by auto
    have "?Q s1"
      by (rule fold_result_each[OF s1(1), where x = k and Q = ?Q]) (use track set_k keep_track in auto)
    then show ?thesis
      using s1(2) fold_result_invariant[of "via_step e n cost" _ s1 s' ?Q] keep_via by (auto split: if_splits)
  next
    case via
    with s1(2) have "fold_result (via_step e n cost) (copper_layers (board_of (env_router e))) s1 = Inr s'" by simp
    moreover have "?Q t'" if "via_step e n cost l t = Inr t'" for t t'
      using via_step_via[OF that] via(3) relax_known by auto
    ultimately show ?thesis
      using fold_result_each[where x = l and Q = ?Q and f = "via_step e n cost"] via(2) keep_via by blast
  qed
qed

end
