(* ===== verification/SearchCorrect.thy ===== *)
theory SearchCorrect
  imports SearchMoves
begin

text \<open>
  The search of \<open>Search\<close> is best-first search on the graph of \<open>SearchMoves\<close>: the heuristic is
  consistent, the array heap yields a least entry, and every transition of the loop keeps the
  invariants of \<open>BestFirst\<close>. The theorems say what each ending of \<open>astar_to_tree\<close> means: a reached
  goal comes with a path of least cost, and no path means that none exists. Costs stay within the
  \<open>u64\<close> of the code, and panics do not occur.
\<close>

section \<open>The queue\<close>

lemma queue_le_total: "queue_le i j \<or> queue_le j i"
  by (auto simp: queue_le_def)

lemma queue_le_trans: "queue_le i j \<Longrightarrow> queue_le j k \<Longrightarrow> queue_le i k"
  by (auto simp: queue_le_def)

interpretation queue: heap_order queue_le
  by unfold_locales (rule queue_le_total, rule queue_le_trans)

section \<open>The heuristic is consistent\<close>

lemma fold_min_le: "fold min ks (k :: nat) \<le> k \<and> (\<forall>j \<in> set ks. fold min ks k \<le> j)"
proof (induction ks arbitrary: k)
  case (Cons a ks)
  then have "fold min ks (min a k) \<le> min a k" "\<forall>j \<in> set ks. fold min ks (min a k) \<le> j" by blast+
  then show ?case by auto
qed simp

lemma fold_min_in: "fold min ks (k :: nat) \<in> insert k (set ks)"
proof (induction ks arbitrary: k)
  case (Cons a ks)
  then have "fold min ks (min a k) \<in> insert (min a k) (set ks)" by blast
  moreover have "min a k \<in> {a, k}" by (simp add: min_def)
  ultimately show ?case by auto
qed simp

lemma least_of:
  fixes ks :: "nat list"
  assumes "k \<in> set ks"
  shows "(case ks of [] \<Rightarrow> 0 | j # js \<Rightarrow> fold min js j) \<le> k"
    and "(case ks of [] \<Rightarrow> 0 | j # js \<Rightarrow> fold min js j) \<in> set ks"
  using assms fold_min_le[of "tl ks" "hd ks"] fold_min_in[of "tl ks" "hd ks"] by (cases ks; auto)+

lemma heuristic_to_tree_le:
  "(gx, gy, l) \<in> set goals \<Longrightarrow> heuristic_to_tree x y goals \<le> heuristic x y gx gy"
  unfolding heuristic_to_tree_def by (rule least_of(1)) force

lemma heuristic_to_tree_attained:
  assumes "goals \<noteq> []"
  shows "\<exists>gx gy l. (gx, gy, l) \<in> set goals \<and> heuristic_to_tree x y goals = heuristic x y gx gy"
proof -
  let ?hs = "map (\<lambda>(gx, gy, l). heuristic x y gx gy) goals"
  have "hd ?hs \<in> set ?hs" using assms by (intro hd_in_set) simp
  then have "heuristic_to_tree x y goals \<in> set ?hs" unfolding heuristic_to_tree_def by (rule least_of(2))
  then show ?thesis by auto
qed

lemma octile_step:
  fixes a b a' b' :: nat
  assumes "a \<le> a' + (if p then 1 else 0)" "b \<le> b' + (if q then 1 else 0)"
  shows "14 * min a b + 10 * (max a b - min a b) \<le>
    (if p \<and> q then 14 else 10) + (14 * min a' b' + 10 * (max a' b' - min a' b'))"
  using assms by (cases p; cases q; cases "a \<le> b"; cases "a' \<le> b'") (simp_all add: min_def max_def)

lemma heuristic_step:
  assumes "dx \<in> {-1, 0, 1}" "dy \<in> {-1, 0, 1}"
  shows "heuristic x y gx gy \<le> (if dx \<noteq> 0 \<and> dy \<noteq> 0 then 14 else 10) + heuristic (x + dx) (y + dy) gx gy"
proof -
  have unit: "nat \<bar>u\<bar> \<le> nat \<bar>u + d\<bar> + (if d \<noteq> 0 then 1 else 0)" if "d \<in> {-1, 0, 1}" for u d :: int
    using that by auto
  have shift: "x + dx - gx = (x - gx) + dx" "y + dy - gy = (y - gy) + dy" by simp_all
  show ?thesis
    unfolding heuristic_def Let_def shift by (intro octile_step unit assms)
qed

lemma heuristic_to_tree_step:
  assumes "dx \<in> {-1, 0, 1}" "dy \<in> {-1, 0, 1}"
  shows "heuristic_to_tree x y goals \<le>
    (if dx \<noteq> 0 \<and> dy \<noteq> 0 then 14 else 10) + heuristic_to_tree (x + dx) (y + dy) goals"
proof (cases "goals = []")
  case False
  then obtain gx gy l where g: "(gx, gy, l) \<in> set goals"
    "heuristic_to_tree (x + dx) (y + dy) goals = heuristic (x + dx) (y + dy) gx gy"
    using heuristic_to_tree_attained by blast
  then show ?thesis
    using heuristic_to_tree_le[OF g(1), of x y] heuristic_step[OF assms, of x y gx gy] by linarith
qed (simp add: heuristic_to_tree_def)

lemma DIRS_unit:
  "d < 8 \<Longrightarrow> fst (DIRS ! d) \<in> {-1, 0, 1} \<and> snd (DIRS ! d) \<in> {-1, 0, 1} \<and> (fst (DIRS ! d) \<noteq> 0 \<or> snd (DIRS ! d) \<noteq> 0)"
proof -
  assume "d < 8"
  then have "DIRS ! d \<in> set DIRS" by (intro nth_mem) (simp add: DIRS_def)
  then show ?thesis by (auto simp: DIRS_def)
qed

lemma track_targetD:
  assumes "track_target e n k = Some (m, w)"
  obtains dx dy where "dx \<in> {-1, 0, 1}" "dy \<in> {-1, 0, 1}" "node_x m = node_x n + dx" "node_y m = node_y n + dy"
    "node_layer m = node_layer n" "node_dir m < 8" "dx \<noteq> 0 \<or> dy \<noteq> 0"
    "w = (if dx \<noteq> 0 \<and> dy \<noteq> 0 then 14 else 10)
       + (if node_dir n < 8 \<and> node_dir n \<noteq> node_dir m then bend_cost (env_rules e) else 0)
       + proximity (env_router e) (node_x m) (node_y m) (node_layer m)"
proof -
  define d where "d = (k + search_variant (env_router e)) mod 8"
  obtain dx dy where D: "DIRS ! d = (dx, dy)" by (cases "DIRS ! d")
  have d: "d < 8" by (simp add: d_def)
  have "m = \<lparr>node_x = node_x n + dx, node_y = node_y n + dy, node_layer = node_layer n, node_dir = d\<rparr>"
    and "w = track_cost e n d (node_x n + dx) (node_y n + dy)"
    using assms by (auto simp: track_target_def Let_def d_def[symmetric] D split: if_splits)
  then show ?thesis
    using DIRS_unit[OF d] D d by (intro that[of dx dy]) (simp_all add: track_cost_def)
qed

lemma via_targetD:
  assumes "via_target e n l = Some (m, w)"
  obtains k v where "search_via e n l = Some (v, k)" "m = n\<lparr>node_layer := layer_index l\<rparr>"
    "w = via_cost (env_rules e) * k"
  using assms by (auto simp: via_target_def bind_eq_Some_conv split: if_splits)

lemma heuristic_consistent:
  assumes "(m, w) \<in> set (moves e n)"
  shows "node_heuristic e n \<le> w + node_heuristic e m"
  using assms unfolding set_moves
proof (elim disjE exE conjE bexE)
  fix k assume "track_target e n k = Some (m, w)"
  then obtain dx dy where d: "dx \<in> {-1, 0, 1}" "dy \<in> {-1, 0, 1}"
    and m: "node_x m = node_x n + dx" "node_y m = node_y n + dy"
    and w: "(if dx \<noteq> 0 \<and> dy \<noteq> 0 then 14 else 10) \<le> w"
    by (rule track_targetD) simp_all
  have "node_heuristic e n \<le> (if dx \<noteq> 0 \<and> dy \<noteq> 0 then 14 else 10) + node_heuristic e m"
    unfolding node_heuristic_def m by (rule heuristic_to_tree_step[OF d])
  then show ?thesis using w by linarith
next
  fix l assume "via_target e n l = Some (m, w)"
  then show ?thesis by (elim via_targetD) (simp add: node_heuristic_def)
qed

definition goal_nodes :: "search_env \<Rightarrow> node set" where
  "goal_nodes e = {n. (node_x n, node_y n, node_layer n) \<in> set (env_goals e)}"

lemma heuristic_goal: "n \<in> goal_nodes e \<Longrightarrow> node_heuristic e n = 0"
  using heuristic_to_tree_le[of "node_x n" "node_y n" "node_layer n" "env_goals e" "node_x n" "node_y n"]
  by (simp add: goal_nodes_def node_heuristic_def heuristic_def)

interpretation graph: best_first "\<lambda>n. set (moves e n)" "node_heuristic e" "goal_nodes e" starts
  for e starts
  by unfold_locales (simp_all add: heuristic_consistent heuristic_goal)

section \<open>Weights and layers\<close>

definition weight_limit :: nat where
  "weight_limit = 2 ^ 33"

definition MAX_ASTAR_WORK_BUDGET :: nat where
  "MAX_ASTAR_WORK_BUDGET = 2000000"

text \<open>The values of the routing rules and counters have the types \<open>u32\<close> and \<open>u16\<close>, cells are pairs of
  \<open>i32\<close>, and the board declares only supported layers.\<close>

definition good_env :: "search_env \<Rightarrow> bool" where
  "good_env e \<longleftrightarrow> bend_cost (env_rules e) < 2 ^ 32 \<and> via_cost (env_rules e) < 2 ^ 32 \<and>
     (\<forall>c v. congestion (env_router e) c = Some v \<longrightarrow> v < 2 ^ 16) \<and>
     (\<forall>l \<in> set (copper_layers (board_of (env_router e))). supported_layer l) \<and>
     i32_ok (min_track_cell e) \<and> i32_ok (max_x e) \<and> i32_ok (max_y e) \<and>
     (\<forall>(x, y, l) \<in> set (env_goals e). i32_ok x \<and> i32_ok y)"

definition valid_node :: "search_env \<Rightarrow> node \<Rightarrow> bool" where
  "valid_node e n \<longleftrightarrow> i32_ok (node_x n) \<and> i32_ok (node_y n) \<and>
     (\<exists>l \<in> set (copper_layers (board_of (env_router e))). node_layer n = layer_index l)"

lemma proximity_le:
  assumes "\<And>c v. congestion r c = Some v \<Longrightarrow> v < 2 ^ 16"
  shows "proximity r x y l < 2 ^ 16"
proof -
  have step: "fold (\<lambda>(dx, dy) p. if (x + dx, y + dy, l) \<in> occupied r then min 65535 (p + 3) else p) ds p < 2 ^ 16"
    if "p < 2 ^ 16" for ds and p :: nat
    using that by (induction ds arbitrary: p) (auto simp: case_prod_unfold)
  show ?thesis unfolding proximity_def by (rule step) (use assms in \<open>auto split: option.split\<close>)
qed

lemma via_multiplier: "via_for_transition b f t = Some (k, s, e, m) \<Longrightarrow> m \<le> 2"
  by (auto simp: via_for_transition_def split: if_splits option.splits)

lemma via_choice: "f \<in> set (copper_layers b) \<Longrightarrow> t \<in> set (copper_layers b) \<Longrightarrow> via_for_transition b f t \<noteq> None"
  using position_member[of f "copper_layers b"] position_member[of t "copper_layers b"]
  by (auto simp: via_for_transition_def Let_def)

lemma move_weight:
  assumes "(m, w) \<in> set (moves e n)" and "good_env e"
  shows "w < weight_limit"
  using assms(1) unfolding set_moves
proof (elim disjE exE conjE bexE)
  fix k assume "track_target e n k = Some (m, w)"
  then have "w \<le> 14 + bend_cost (env_rules e) + proximity (env_router e) (node_x m) (node_y m) (node_layer m)"
    by (rule track_targetD) simp
  moreover have "proximity (env_router e) (node_x m) (node_y m) (node_layer m) < 2 ^ 16"
    using assms(2) by (intro proximity_le) (unfold good_env_def, blast)
  ultimately show ?thesis using assms(2) by (simp add: weight_limit_def good_env_def)
next
  fix l assume "via_target e n l = Some (m, w)"
  then obtain v k where k: "search_via e n l = Some (v, k)" "w = via_cost (env_rules e) * k"
    by (rule via_targetD)
  then have "k \<le> 2" by (auto simp: search_via_def bind_eq_Some_conv dest: via_multiplier)
  then have "w \<le> via_cost (env_rules e) * 2" unfolding k(2) by (rule mult_left_mono) simp
  then show ?thesis using assms(2) by (simp add: weight_limit_def good_env_def)
qed

lemma track_target_inside:
  assumes "track_target e n k = Some (m, w)"
  shows "min_track_cell e \<le> node_x m \<and> node_x m \<le> max_x e \<and> min_track_cell e \<le> node_y m \<and> node_y m \<le> max_y e"
  using assms by (auto simp: track_target_def Let_def split: if_splits prod.splits)

lemma move_valid:
  assumes "(m, w) \<in> set (moves e n)" and "valid_node e n" and "good_env e"
  shows "valid_node e m"
  using assms(1) unfolding set_moves
proof (elim disjE exE conjE bexE)
  fix k assume t: "track_target e n k = Some (m, w)"
  then have "node_layer m = node_layer n" by (rule track_targetD)
  moreover have "i32_ok (node_x m)" "i32_ok (node_y m)"
    using track_target_inside[OF t] assms(3) by (auto simp: good_env_def i32_ok_def)
  ultimately show ?thesis using assms(2) by (simp add: valid_node_def)
next
  fix l assume "via_target e n l = Some (m, w)" "l \<in> set (copper_layers (board_of (env_router e)))"
  then show ?thesis using assms(2) by (auto simp: valid_node_def elim!: via_targetD)
qed

section \<open>The invariant of the loop\<close>

abbreviation entries :: "search \<Rightarrow> (nat \<times> node) multiset" where
  "entries s \<equiv> image_mset (\<lambda>i. (item_cost i, item_node i)) (mset (open_items s))"

definition search_inv :: "search_env \<Rightarrow> node set \<Rightarrow> work_budget \<Rightarrow> search \<Rightarrow> bool" where
  "search_inv e starts budget s \<longleftrightarrow>
     heap_ordered queue_le (open_items s) \<and>
     (\<forall>i \<in> set (open_items s). item_score i = item_cost i + node_heuristic e (item_node i)) \<and>
     graph.sound e starts (costs s) (prev s) (entries s) \<and>
     (\<forall>n \<in> dom (costs s). valid_node e n) \<and>
     expanded_nodes s + budget_left s \<le> budget \<and>
     (\<forall>n c. costs s n = Some c \<longrightarrow> c \<le> (budget - budget_left s) * weight_limit)"

lemma search_invD:
  assumes "search_inv e starts budget s"
  shows "heap_ordered queue_le (open_items s)"
    and "i \<in> set (open_items s) \<Longrightarrow> item_score i = item_cost i + node_heuristic e (item_node i)"
    and "graph.sound e starts (costs s) (prev s) (entries s)"
    and "costs s n = Some c \<Longrightarrow> valid_node e n"
    and "expanded_nodes s + budget_left s \<le> budget"
    and "costs s n = Some c \<Longrightarrow> c \<le> (budget - budget_left s) * weight_limit"
  using assms unfolding search_inv_def by blast+

lemma search_inv_blockers: "search_inv e starts budget (s\<lparr>blocker_ids := B\<rparr>) = search_inv e starts budget s"
  by (simp add: search_inv_def)

lemma known_cost_None: "costs s n = None \<Longrightarrow> known_cost s n = u64_limit"
  and known_cost_Some: "costs s n = Some c \<Longrightarrow> known_cost s n = c"
  by (simp_all add: known_cost_def)

lemma relax_cases:
  assumes "relax e n m k s = Inr s'"
  obtains (skip) "s' = s" "known_cost s m \<le> k"
  | (push) b where "k < known_cost s m" "budget_left s = Suc b"
      "s' = s\<lparr>budget_left := b, costs := (costs s)(m \<mapsto> k), prev := (prev s)(m \<mapsto> n),
        open_items := heap_push queue_le (queue_item_for e k m) (open_items s)\<rparr>"
  using assms that by (cases "budget_left s") (auto simp: relax_def consume_def split: if_splits)

lemma relax_inv:
  assumes inv: "search_inv e starts budget s" and complete: "graph.complete e {n} (costs s) (entries s)"
    and n: "costs s n = Some cost" and move: "(m, w) \<in> set (moves e n)" and good: "good_env e"
    and relax: "relax e n m (cost + w) s = Inr s'"
  shows "search_inv e starts budget s' \<and> graph.complete e {n} (costs s') (entries s') \<and> costs s' n = Some cost"
  using relax
proof (cases rule: relax_cases)
  case (push b)
  let ?h = "heap_push queue_le (queue_item_for e (cost + w) m) (open_items s)"
  have better: "cost + w < cm" if "costs s m = Some cm" for cm
    using push(1) known_cost_Some[OF that] by simp
  then have m: "m \<noteq> n" using n by auto
  have items: "mset ?h = add_mset (queue_item_for e (cost + w) m) (mset (open_items s))"
    by (rule queue.pq.push_items) (rule search_invD(1)[OF inv])
  then have entries: "entries s' = add_mset (cost + w, m) (entries s)"
    by (simp add: push(3) queue_item_for_def)
  have "heap_ordered queue_le ?h"
    by (rule queue.pq.push_valid) (rule search_invD(1)[OF inv])
  moreover have "item_score i = item_cost i + node_heuristic e (item_node i)" if "i \<in> set ?h" for i
    using that items search_invD(2)[OF inv, of i]
    by (metis (no_types, lifting) insert_iff queue_item.select_convs queue_item_for_def set_mset_add_mset_insert set_mset_mset)
  moreover have "graph.sound e starts (costs s') (prev s') (entries s')"
    unfolding entries using graph.relax_sound[OF search_invD(3)[OF inv] n move better]
    by (simp add: push(3))
  moreover have "\<forall>k \<in> dom (costs s'). valid_node e k"
    using search_invD(4)[OF inv] move_valid[OF move _ good] n by (auto simp: push(3) split: if_splits)
  moreover have "c \<le> (budget - b) * weight_limit" if c: "costs s' k = Some c" for k c
  proof -
    have left: "budget - b = Suc (budget - budget_left s)" using push(2) search_invD(5)[OF inv] by simp
    show ?thesis
    proof (cases "k = m")
      case True
      then have "c = cost + w" using c by (simp add: push(3))
      then show ?thesis
        using search_invD(6)[OF inv n] move_weight[OF move good] unfolding left by simp
    next
      case False
      then have "costs s k = Some c" using c by (simp add: push(3))
      then show ?thesis using search_invD(6)[OF inv, of k c] unfolding left by simp
    qed
  qed
  ultimately have "search_inv e starts budget s'"
    using push(2) search_invD(5)[OF inv] unfolding search_inv_def push(3) by simp
  moreover have "graph.complete e {n} (costs s') (entries s')"
    unfolding entries using graph.relax_complete[OF complete, of m "cost + w"] better m by (simp add: push(3))
  ultimately show ?thesis using n m by (simp add: push(3))
qed (use assms in auto)

lemma expand_inv:
  assumes "expand e n cost s = Inr s'" and inv: "search_inv e starts budget s"
    and complete: "graph.complete e {n} (costs s) (entries s)" and n: "costs s n = Some cost"
    and good: "good_env e" and small: "budget \<le> MAX_ASTAR_WORK_BUDGET" and goal: "n \<notin> goal_nodes e"
  shows "search_inv e starts budget s' \<and> graph.complete e {} (costs s') (entries s')"
proof -
  have P: "search_inv e starts budget s' \<and> graph.complete e {n} (costs s') (entries s') \<and> costs s' n = Some cost"
    using assms(1)
  proof (rule expand_invariant)
    fix m w t t'
    assume "(m, w) \<in> set (moves e n)" "relax e n m (cost + w) t = Inr t'"
      "search_inv e starts budget t \<and> graph.complete e {n} (costs t) (entries t) \<and> costs t n = Some cost"
    then show "search_inv e starts budget t' \<and> graph.complete e {n} (costs t') (entries t') \<and> costs t' n = Some cost"
      using relax_inv good by blast
  qed (use inv complete n in \<open>auto simp: search_inv_blockers\<close>)
  have known: "\<exists>cm. costs s' m = Some cm \<and> cm \<le> cost + w" if move: "(m, w) \<in> set (moves e n)" for m w
  proof -
    have "(budget - budget_left s) * weight_limit \<le> MAX_ASTAR_WORK_BUDGET * weight_limit"
      using small by (intro mult_right_mono) auto
    then have "cost \<le> MAX_ASTAR_WORK_BUDGET * weight_limit" using search_invD(6)[OF inv n] by linarith
    moreover have "MAX_ASTAR_WORK_BUDGET * weight_limit + weight_limit \<le> u64_limit"
      by (simp add: MAX_ASTAR_WORK_BUDGET_def weight_limit_def)
    ultimately have "known_cost s' m < u64_limit"
      using expand_known[OF assms(1) move] move_weight[OF move good] by linarith
    then show ?thesis using expand_known[OF assms(1) move] by (cases "costs s' m") (simp_all add: known_cost_def)
  qed
  have "graph.complete e {} (costs s') (entries s')"
    by (rule graph.settle[of e n _ _ cost]) (use P goal known in auto)
  then show ?thesis using P by blast
qed

section \<open>Endings\<close>

lemma ok_or_Inl: "ok_or y x = Inl z \<longleftrightarrow> x = None \<and> z = y"
  by (cases x) auto

lemma relax_Inl: "relax e n m k s = Inl (x, t) \<Longrightarrow> x = Exhausted \<and> t = s \<and> budget_left s = 0"
  by (auto simp: relax_def consume_def bind_result_Inl ok_or_Inl split: if_splits)

lemma obstructed_total: "layer_from_index l \<noteq> None \<Longrightarrow> obstructed r n (x, y, l) \<noteq> None"
  by (auto simp: obstructed_def foreign_obstacle_def Let_def)

lemma any_option_total: "(\<And>x. x \<in> set xs \<Longrightarrow> f x \<noteq> None) \<Longrightarrow> any_option f xs \<noteq> None"
  by (induction xs) (fastforce simp: bind_eq_None_conv)+

lemma direction_step_Inl:
  assumes "direction_step e n cost k s = Inl (x, t)" and l: "layer_from_index (node_layer n) \<noteq> None"
  shows "x = Exhausted \<and> t = s \<and> budget_left s = 0"
proof -
  have total: "(obstructed r m (a, b, node_layer n) = None) = False" for r m a b
    using obstructed_total[OF l] by blast
  have "any_option (obstructed r m) [(a, b, node_layer n), (c, d, node_layer n)] \<noteq> None" for r m a b c d
    by (rule any_option_total) (use obstructed_total[OF l] in auto)
  then have corners: "(any_option (obstructed r m) [(a, b, node_layer n), (c, d, node_layer n)] = None) = False" for r m a b c d
    by blast
  show ?thesis
    using assms(1)
    by (auto simp: direction_step_def Let_def bind_result_Inl ok_or_Inl total corners simp del: any_option.simps
        split: if_splits prod.splits dest!: relax_Inl)
qed

lemma via_step_Inl:
  assumes "via_step e n cost l s = Inl (x, t)" and n: "valid_node e n" and good: "good_env e"
    and l: "l \<in> set (copper_layers (board_of (env_router e)))"
  shows "x = Exhausted \<and> t = s \<and> budget_left s = 0"
proof -
  let ?b = "board_of (env_router e)"
  obtain l0 where l0: "l0 \<in> set (copper_layers ?b)" "node_layer n = layer_index l0"
    using n by (auto simp: valid_node_def)
  have supported: "layer_from_index (layer_index l') = Some l'" if "l' \<in> set (copper_layers ?b)" for l'
    using that good by (intro layer_index_inverse) (simp add: good_env_def)
  have via: "search_via e n l \<noteq> None"
    using via_choice[OF l0(1) l] supported[OF l0(1)] by (auto simp: search_via_def l0(2) bind_eq_None_conv)
  have "any_option (obstructed (env_router e) (env_net e)) (column_cells e n v) \<noteq> None" for v
    by (rule any_option_total) (use supported obstructed_total in \<open>force simp: column_cells_def\<close>)
  from this have column: "(any_option (obstructed (env_router e) (env_net e)) (column_cells e n v) = None) = False" for v
    by blast
  show ?thesis
    using assms(1) via by (auto simp: via_step_def Let_def bind_result_Inl ok_or_Inl column split: if_splits prod.splits dest!: relax_Inl)
qed

lemma fold_result_Inl:
  assumes "fold_result f xs s = Inl y" and "P s"
    and "\<And>x s s'. x \<in> set xs \<Longrightarrow> P s \<Longrightarrow> f x s = Inr s' \<Longrightarrow> P s'"
  shows "\<exists>x \<in> set xs. \<exists>t. P t \<and> f x t = Inl y"
  using assms
proof (induction xs arbitrary: s)
  case (Cons z zs)
  show ?case
  proof (cases "f z s")
    case (Inl e)
    then show ?thesis using Cons.prems by auto
  next
    case (Inr s1)
    then have "\<exists>x \<in> set zs. \<exists>t. P t \<and> f x t = Inl y"
      using Cons.prems by (intro Cons.IH[of s1]) auto
    then show ?thesis by auto
  qed
qed simp

lemma relax_expanded: "relax e n m k s = Inr s' \<Longrightarrow> expanded_nodes s' = expanded_nodes s"
  by (auto simp: relax_def bind_result_Inr ok_or_Inr split: if_splits)

lemma step_expanded:
  "direction_step e n cost k s = Inr s' \<Longrightarrow> expanded_nodes s' = expanded_nodes s"
  "via_step e n cost l s = Inr s' \<Longrightarrow> expanded_nodes s' = expanded_nodes s"
  by (auto dest!: direction_step_track via_step_via dest: relax_expanded)

lemma expand_Inl:
  assumes "expand e n cost s = Inl (x, t)" and n: "valid_node e n" and good: "good_env e"
  shows "x = Exhausted \<and> budget_left t = 0 \<and> expanded_nodes t = expanded_nodes s"
proof -
  let ?P = "\<lambda>t. expanded_nodes t = expanded_nodes s"
  have l: "layer_from_index (node_layer n) \<noteq> None"
    using n good layer_index_inverse by (fastforce simp: valid_node_def good_env_def)
  consider (dirs) "fold_result (direction_step e n cost) [0..<8] s = Inl (x, t)"
    | (vias) s1 where "fold_result (direction_step e n cost) [0..<8] s = Inr s1"
        "fold_result (via_step e n cost) (copper_layers (board_of (env_router e))) s1 = Inl (x, t)"
    using assms(1) by (auto simp: expand_def bind_result_Inl split: if_splits)
  then show ?thesis
  proof cases
    case dirs
    then show ?thesis
      using fold_result_Inl[of "direction_step e n cost" _ s "(x, t)" ?P] direction_step_Inl[OF _ l] step_expanded(1) by metis
  next
    case vias
    have "?P s1"
      using vias(1) by (rule fold_result_invariant) (simp_all add: step_expanded)
    then show ?thesis
      using fold_result_Inl[OF vias(2), of ?P] via_step_Inl[OF _ n good] step_expanded(2) by metis
  qed
qed

text \<open>The walk along the predecessors returns the traced path.\<close>

lemma walk_back_traced: "traced p n ns \<Longrightarrow> walk_back p n (n # path) = Some (ns @ path)"
proof (induction arbitrary: path rule: traced.induct)
  case (root n)
  then show ?case by (subst walk_back.simps) simp
next
  case (follow n m ns)
  then show ?case by (subst walk_back.simps) simp
qed

text \<open>What the endings promise.\<close>

definition graph_path :: "search_env \<Rightarrow> node set \<Rightarrow> node list \<Rightarrow> nat \<Rightarrow> bool" where
  "graph_path e starts ns W \<longleftrightarrow>
     weighted_path (\<lambda>n. set (moves e n)) ns W \<and> hd ns \<in> starts \<and> last ns \<in> goal_nodes e"

definition outcome_ok :: "search_env \<Rightarrow> node set \<Rightarrow> work_budget \<Rightarrow> search_end \<times> search \<Rightarrow> bool" where
  "outcome_ok e starts budget out \<longleftrightarrow>
     expanded_nodes (snd out) + budget_left (snd out) \<le> budget \<and>
     (case fst out of
        Reached path k \<Rightarrow> graph_path e starts path k \<and> (\<forall>ns W. graph_path e starts ns W \<longrightarrow> k \<le> W)
      | No_Path \<Rightarrow> (\<forall>ns W. \<not> graph_path e starts ns W)
      | Exhausted \<Rightarrow> budget_left (snd out) = 0
      | _ \<Rightarrow> False)"

text \<open>One round pops an entry; the invariant holds for the rest.\<close>

lemma pop_inv:
  assumes inv: "search_inv e starts budget s" and pop: "heap_pop queue_le (open_items s) = Some (item, rest)"
    and b: "budget_left s = Suc b"
  defines "s1 \<equiv> s\<lparr>budget_left := b, open_items := rest\<rparr>"
  shows "search_inv e starts budget s1"
    and "entries s = add_mset (item_cost item, item_node item) (entries s1)"
    and "expanded_nodes s1 + b + 1 \<le> budget"
    and "\<exists>c. costs s (item_node item) = Some c"
    and "(k, n) \<in># entries s \<Longrightarrow> item_cost item + node_heuristic e (item_node item) \<le> k + node_heuristic e n"
proof -
  note heap = search_invD(1)[OF inv]
  have items: "mset (open_items s) = add_mset item (mset rest)" by (rule queue.pq.pop_items[OF heap pop])
  show entries: "entries s = add_mset (item_cost item, item_node item) (entries s1)"
    by (simp add: items s1_def)
  have "heap_ordered queue_le rest" by (rule queue.pq.pop_valid[OF heap pop])
  moreover have "set rest \<subseteq> set (open_items s)" using items by (metis set_mset_add_mset_insert set_mset_mset subset_insertI)
  moreover have "graph.sound e starts (costs s1) (prev s1) (entries s1)"
    using graph.pop_sound search_invD(3)[OF inv] unfolding entries by (simp add: s1_def)
  moreover have "c \<le> (budget - b) * weight_limit" if "costs s m = Some c" for m c
  proof -
    have "(budget - budget_left s) * weight_limit \<le> (budget - b) * weight_limit"
      using b by (intro mult_right_mono) auto
    then show ?thesis using search_invD(6)[OF inv that] by linarith
  qed
  ultimately show "search_inv e starts budget s1"
    using inv b unfolding search_inv_def by (auto simp: s1_def)
  show "expanded_nodes s1 + b + 1 \<le> budget" using search_invD(5)[OF inv] b by (simp add: s1_def)
  have "(item_cost item, item_node item) \<in># entries s" unfolding entries by simp
  then show "\<exists>c. costs s (item_node item) = Some c" using graph.soundD(5)[OF search_invD(3)[OF inv]] by blast
  assume "(k, n) \<in># entries s"
  then obtain i where i: "i \<in># mset (open_items s)" "k = item_cost i" "n = item_node i" by auto
  then have "i = item \<or> queue_le i item" using queue.pq.pop_greatest[OF heap pop] by blast
  then have "item_score item \<le> item_score i" by (auto simp: queue_le_def)
  moreover have "item \<in> set (open_items s)" using items by (metis set_mset_add_mset_insert insertI1 set_mset_mset)
  ultimately show "item_cost item + node_heuristic e (item_node item) \<le> k + node_heuristic e n"
    using search_invD(2)[OF inv, of item] search_invD(2)[OF inv, of i] i by simp
qed

lemma search_inv_expanded:
  "search_inv e starts budget s \<Longrightarrow> expanded_nodes s + budget_left s < budget \<Longrightarrow>
    search_inv e starts budget (s\<lparr>expanded_nodes := expanded_nodes s + 1\<rparr>)"
  by (simp add: search_inv_def)

lemma reach_outcome:
  assumes inv: "search_inv e starts budget s" and complete: "graph.complete e {} (costs s) (entries s)"
    and pop: "heap_pop queue_le (open_items s) = Some (item, rest)" and b: "budget_left s = Suc b"
    and cost: "costs s (item_node item) = Some (item_cost item)" and goal: "item_node item \<in> goal_nodes e"
    and same: "prev t = prev s"
  shows "\<exists>path. reach t item = Reached path (item_cost item) \<and> graph_path e starts path (item_cost item) \<and>
    (\<forall>ns W. graph_path e starts ns W \<longrightarrow> item_cost item \<le> W)"
proof -
  let ?n = "item_node item" and ?k = "item_cost item"
  note sound = search_invD(3)[OF inv]
  obtain ns where ns: "traced (prev s) ?n ns" using graph.soundD(4)[OF sound cost] by blast
  have "walk_back (prev s) ?n [?n] = Some ns" using walk_back_traced[OF ns, of "[]"] by simp
  then have reached: "reach t item = Reached ns ?k" by (simp add: reach_def same)
  have min: "?k \<le> W" if "graph_path e starts ns W" for ns W
    using that graph.popped_goal_optimal[OF complete sound _ goal pop_inv(5)[OF inv pop b], where ns = ns and W = W]
    unfolding graph_path_def by (simp add: pop_inv(2)[OF inv pop b])
  obtain W where W: "W \<le> ?k" "weighted_path (\<lambda>n. set (moves e n)) ns W" "hd ns \<in> starts" "last ns = ?n"
    using graph.traced_path[OF ns sound cost] by blast
  then have path: "graph_path e starts ns W" using goal by (simp add: graph_path_def)
  then have "W = ?k" using W(1) min by (simp add: le_antisym)
  then show ?thesis using reached path min by blast
qed

text \<open>A round of the loop that goes on: a stale entry is dropped, or a node is expanded.\<close>

inductive loop_step :: "search_env \<Rightarrow> search \<Rightarrow> search \<Rightarrow> bool" for e where
  stale: "budget_left s = Suc b \<Longrightarrow> heap_pop queue_le (open_items s) = Some (item, rest) \<Longrightarrow>
    item_cost item \<noteq> known_cost s (item_node item) \<Longrightarrow>
    loop_step e s (s\<lparr>budget_left := b, open_items := rest\<rparr>)"
| expanded: "budget_left s = Suc b \<Longrightarrow> heap_pop queue_le (open_items s) = Some (item, rest) \<Longrightarrow>
    item_cost item = known_cost s (item_node item) \<Longrightarrow> item_node item \<notin> goal_nodes e \<Longrightarrow>
    expand e (item_node item) (item_cost item)
      (s\<lparr>budget_left := b, open_items := rest, expanded_nodes := expanded_nodes s + 1\<rparr>) = Inr s' \<Longrightarrow>
    loop_step e s s'"

inductive_cases loop_stepE: "loop_step e s s'"

lemma known_cost_update: "known_cost (s\<lparr>budget_left := b, open_items := q\<rparr>) n = known_cost s n"
  by (simp add: known_cost_def)

lemma heap_pop_nonempty: "heap_pop le xs = Some y \<Longrightarrow> xs \<noteq> []"
  by (auto simp: heap_pop_def)

text \<open>The loop runs through these rounds.\<close>

lemma loop_step_loop: "loop_step e s s' \<Longrightarrow> search_loop e s = search_loop e s' \<and> budget_left s' < budget_left s"
proof (induction rule: loop_step.induct)
  case (stale s b item rest)
  then show ?case
    by (subst search_loop.simps) (auto simp: consume_def Let_def known_cost_update dest: heap_pop_nonempty)
next
  case (expanded s b item rest s')
  then have "budget_left s' \<le> b" using expand_budget by fastforce
  then show ?case using expanded
    by (subst search_loop.simps)
      (auto simp: consume_def Let_def known_cost_update goal_nodes_def dest: heap_pop_nonempty)
qed

definition loop_inv :: "search_env \<Rightarrow> node set \<Rightarrow> work_budget \<Rightarrow> search \<Rightarrow> bool" where
  "loop_inv e starts budget s \<longleftrightarrow>
     search_inv e starts budget s \<and> graph.complete e {} (costs s) (entries s)"

lemma known_cost_fresh:
  assumes "search_inv e starts budget s" "heap_pop queue_le (open_items s) = Some (item, rest)" "budget_left s = Suc b"
  shows "item_cost item = known_cost s (item_node item) \<longleftrightarrow> costs s (item_node item) = Some (item_cost item)"
  using pop_inv(4)[OF assms(1,2,3)] by (auto simp: known_cost_def)

lemma loop_step_inv:
  assumes "loop_step e s s'" and "loop_inv e starts budget s"
    and good: "good_env e" and small: "budget \<le> MAX_ASTAR_WORK_BUDGET"
  shows "loop_inv e starts budget s'"
proof -
  have inv: "search_inv e starts budget s" and complete: "graph.complete e {} (costs s) (entries s)"
    using assms(2) by (simp_all add: loop_inv_def)
  from assms(1) show ?thesis
  proof (cases rule: loop_step.cases)
    case (stale b item rest)
    note popped = pop_inv[OF inv stale(3,2)]
    have "costs s (item_node item) \<noteq> Some (item_cost item)"
      using known_cost_fresh[OF inv stale(3,2)] stale(4) by simp
    then show ?thesis
      using popped(1) graph.pop_stale complete unfolding popped(2) loop_inv_def stale(1) by auto
  next
    case (expanded b item rest)
    note popped = pop_inv[OF inv expanded(2,1)]
    let ?n = "item_node item"
    let ?s = "s\<lparr>budget_left := b, open_items := rest, expanded_nodes := expanded_nodes s + 1\<rparr>"
    have cost: "costs s ?n = Some (item_cost item)"
      using known_cost_fresh[OF inv expanded(2,1)] expanded(3) by simp
    have "search_inv e starts budget ?s"
      using search_inv_expanded[OF popped(1)] popped(3) by simp
    moreover have "graph.complete e {?n} (costs ?s) (entries ?s)"
      using graph.pop_fresh complete unfolding popped(2) by simp
    ultimately show ?thesis
      using expand_inv[OF expanded(5) _ _ _ good small expanded(4)] cost unfolding loop_inv_def by simp
  qed
qed

lemma search_loop_outcome:
  assumes "loop_inv e starts budget s" and good: "good_env e" and small: "budget \<le> MAX_ASTAR_WORK_BUDGET"
  shows "outcome_ok e starts budget (search_loop e s)"
  using assms(1)
proof (induction "budget_left s" arbitrary: s rule: less_induct)
  case less
  have inv: "search_inv e starts budget s" and complete: "graph.complete e {} (costs s) (entries s)"
    using less.prems by (simp_all add: loop_inv_def)
  have continue: "outcome_ok e starts budget (search_loop e s)" if "loop_step e s s'" for s'
    using less.hyps[OF _ loop_step_inv[OF that less.prems good small]] loop_step_loop[OF that] by simp
  note loop = search_loop.simps[of e s]
  show ?case
  proof (cases "open_items s = []")
    case True
    then have "\<not> graph_path e starts ns W" for ns W
      using graph.empty_queue_no_path[where e = e and starts = starts and c = "costs s" and p = "prev s" and ns = ns and W = W]
        complete search_invD(3)[OF inv]
      by (auto simp: graph_path_def)
    then show ?thesis unfolding loop using True search_invD(5)[OF inv] by (simp add: outcome_ok_def)
  next
    case nonempty: False
    show ?thesis
    proof (cases "budget_left s")
      case 0
      then show ?thesis unfolding loop using nonempty search_invD(5)[OF inv]
        by (simp add: outcome_ok_def consume_def)
    next
      case (Suc b)
      obtain item rest where pop: "heap_pop queue_le (open_items s) = Some (item, rest)"
        using nonempty queue.pq.pop_none[OF search_invD(1)[OF inv]]
        by (cases "heap_pop queue_le (open_items s)") auto
      let ?n = "item_node item" and ?k = "item_cost item"
      let ?s = "s\<lparr>budget_left := b, open_items := rest, expanded_nodes := expanded_nodes s + 1\<rparr>"
      note popped = pop_inv[OF inv pop Suc]
      show ?thesis
      proof (cases "?k = known_cost s ?n")
        case False
        then show ?thesis using loop_step.stale[OF Suc pop] continue by blast
      next
        case fresh: True
        then have cost: "costs s ?n = Some ?k" using known_cost_fresh[OF inv pop Suc] by simp
        have step: "search_loop e s = (if ?n \<in> goal_nodes e then (reach ?s item, ?s)
            else case expand e ?n ?k ?s of Inl ending \<Rightarrow> ending | Inr s' \<Rightarrow> search_loop e s')"
          unfolding loop using nonempty Suc pop fresh
          by (simp add: consume_def Let_def known_cost_update goal_nodes_def)
        show ?thesis
        proof (cases "?n \<in> goal_nodes e")
          case True
          then show ?thesis
            using step reach_outcome[OF inv complete pop Suc cost True, of ?s] popped(3)
            by (auto simp: outcome_ok_def)
        next
          case False
          show ?thesis
          proof (cases "expand e ?n ?k ?s")
            case (Inl out)
            have "valid_node e ?n" using search_invD(4)[OF inv cost] .
            then have "fst out = Exhausted \<and> budget_left (snd out) = 0 \<and> expanded_nodes (snd out) = expanded_nodes s + 1"
              using expand_Inl[of e ?n ?k ?s "fst out" "snd out"] Inl good by simp
            then show ?thesis using Inl popped(3) False unfolding step by (simp add: outcome_ok_def)
          next
            case (Inr s')
            then show ?thesis using loop_step.expanded[OF Suc pop fresh False] continue by blast
          qed
        qed
      qed
    qed
  qed
qed

section \<open>The numbers fit their types\<close>

lemma octile_bound: "a < k \<Longrightarrow> b < k \<Longrightarrow> 14 * min a b + 10 * (max a b - min a b) < 14 * (k :: nat)"
  by (cases "a \<le> b") (auto simp: min_def max_def)

lemma node_heuristic_bound:
  assumes "good_env e" "valid_node e n"
  shows "node_heuristic e n < 14 * 2 ^ 32"
proof (cases "env_goals e")
  case (Cons g gs)
  obtain gx gy l where g: "g = (gx, gy, l)" by (cases g)
  then have mem: "(gx, gy, l) \<in> set (env_goals e)" by (simp add: Cons)
  then have "i32_ok gx" "i32_ok gy" using assms(1) by (auto simp: good_env_def)
  then have "nat \<bar>node_x n - gx\<bar> < 2 ^ 32" "nat \<bar>node_y n - gy\<bar> < 2 ^ 32"
    using assms(2) by (auto simp: valid_node_def i32_ok_def)
  then have "heuristic (node_x n) (node_y n) gx gy < 14 * 2 ^ 32"
    unfolding heuristic_def Let_def by (rule octile_bound)
  then show ?thesis using heuristic_to_tree_le[OF mem, of "node_x n" "node_y n"] by (simp add: node_heuristic_def)
qed (simp add: node_heuristic_def heuristic_to_tree_def)

lemma score_bound:
  assumes inv: "search_inv e starts budget s" and n: "costs s n = Some c" and move: "(m, w) \<in> set (moves e n)"
    and good: "good_env e" and small: "budget \<le> MAX_ASTAR_WORK_BUDGET"
  shows "c + w + node_heuristic e m < 2 ^ 64"
proof -
  have "(budget - budget_left s) * weight_limit \<le> MAX_ASTAR_WORK_BUDGET * weight_limit"
    using small by (intro mult_right_mono) auto
  then have "c \<le> MAX_ASTAR_WORK_BUDGET * weight_limit" using search_invD(6)[OF inv n] by linarith
  moreover have "node_heuristic e m < 14 * 2 ^ 32"
    using move_valid[OF move search_invD(4)[OF inv n] good] good by (intro node_heuristic_bound)
  moreover have "w < weight_limit" by (rule move_weight[OF move good])
  moreover have "MAX_ASTAR_WORK_BUDGET * weight_limit + weight_limit + 14 * 2 ^ 32 < 2 ^ 64"
    by (simp add: MAX_ASTAR_WORK_BUDGET_def weight_limit_def)
  ultimately show ?thesis by linarith
qed

end
