(* ===== verification/Astar.thy ===== *)
theory Astar
  imports SearchCorrect
begin

text \<open>
  The properties of \<open>Router::astar_to_tree\<close>, from the invariants of \<open>SearchCorrect\<close>: the start
  nodes, the assumptions on its inputs, what its endings mean, the bounds on its costs and the
  clearance of the cells on its paths.
\<close>

section \<open>The start of a search\<close>

definition seeded :: "search_env \<Rightarrow> node list \<Rightarrow> work_budget \<Rightarrow> search \<Rightarrow> bool" where
  "seeded e ns budget s \<longleftrightarrow>
     heap_ordered queue_le (open_items s) \<and>
     (\<forall>i \<in> set (open_items s). item_score i = item_cost i + node_heuristic e (item_node i)) \<and>
     entries s = image_mset (Pair 0) (mset ns) \<and>
     costs s = (\<lambda>n. if n \<in> set ns then Some 0 else None) \<and>
     prev s = Map.empty \<and> budget_left s = budget \<and> expanded_nodes s = 0"

lemma seed_seeded:
  assumes "seeded e ns budget s" and "node_x n = start_x e" "node_y n = start_y e"
  shows "seeded e (ns @ [n]) budget (seed e n s)"
proof -
  define item where "item = \<lparr>item_score = heuristic_to_tree (start_x e) (start_y e) (env_goals e), item_cost = 0, item_node = n\<rparr>"
  have item: "item_cost item = 0" "item_node item = n" by (simp_all add: item_def)
  note heap = assms(1)[unfolded seeded_def, THEN conjunct1]
  have items: "mset (heap_push queue_le item (open_items s)) = add_mset item (mset (open_items s))"
    by (rule queue.pq.push_items[OF heap])
  then have "set (heap_push queue_le item (open_items s)) = insert item (set (open_items s))"
    by (metis set_mset_add_mset_insert set_mset_mset)
  moreover have "item_score item = item_cost item + node_heuristic e (item_node item)"
    using assms by (simp add: item_def node_heuristic_def)
  moreover have "heap_ordered queue_le (heap_push queue_le item (open_items s))"
    by (rule queue.pq.push_valid[OF heap])
  ultimately show ?thesis
    using assms(1) items unfolding seeded_def seed_def item_def[symmetric]
    by (auto simp: fun_eq_iff item)
qed

lemma fold_seeded:
  "seeded e ms budget s \<Longrightarrow> (\<forall>n \<in> set ns. node_x n = start_x e \<and> node_y n = start_y e) \<Longrightarrow>
    seeded e (ms @ ns) budget (fold (seed e) ns s)"
proof (induction ns arbitrary: ms s)
  case (Cons n ns)
  have "seeded e (ms @ [n]) budget (seed e n s)" using Cons.prems by (intro seed_seeded) simp_all
  then have "seeded e ((ms @ [n]) @ ns) budget (fold (seed e) ns (seed e n s))"
    by (rule Cons.IH) (use Cons.prems in simp)
  then show ?case by simp
qed simp

lemma initial_seeded:
  assumes "\<forall>n \<in> set ns. node_x n = start_x e \<and> node_y n = start_y e"
  shows "seeded e ns budget (initial_search e ns budget)"
proof -
  have "seeded e ([] @ ns) budget (initial_search e ns budget)"
    unfolding initial_search_def by (rule fold_seeded[OF _ assms]) (simp add: seeded_def heap_ordered_def)
  then show ?thesis by simp
qed

lemma initial_inv:
  assumes "\<forall>n \<in> set ns. node_x n = start_x e \<and> node_y n = start_y e \<and> valid_node e n"
  shows "loop_inv e (set ns) budget (initial_search e ns budget)"
proof -
  let ?s = "initial_search e ns budget"
  have s: "seeded e ns budget ?s" using assms by (intro initial_seeded) blast
  then have c: "costs ?s n = (if n \<in> set ns then Some 0 else None)" and q: "entries ?s = image_mset (Pair 0) (mset ns)" for n
    unfolding seeded_def by (elim conjE, simp only:)+
  have p: "prev ?s = Map.empty" using s unfolding seeded_def by blast
  have "graph.sound e (set ns) (costs ?s) (prev ?s) (entries ?s)"
    unfolding p by (rule graph.initial_sound[OF c]) (auto simp: q)
  moreover have "graph.complete e {} (costs ?s) (entries ?s)"
    by (rule graph.initial_complete[OF c]) (simp add: q)
  moreover have "valid_node e n" if "n \<in> dom (costs ?s)" for n
    using that assms c[of n] by (auto split: if_splits)
  moreover have "k \<le> (budget - budget_left ?s) * weight_limit" if "costs ?s n = Some k" for n k
    using that c[of n] by (simp split: if_splits)
  ultimately show ?thesis
    using s unfolding loop_inv_def search_inv_def seeded_def by auto
qed

section \<open>The input of a search\<close>

text \<open>Values in the ranges of their types, declared and supported layers.\<close>

definition search_input :: "router \<Rightarrow> terminal \<Rightarrow> cell list \<Rightarrow> rules \<Rightarrow> work_budget \<Rightarrow> bool" where
  "search_input r t goals rs budget \<longleftrightarrow>
     bend_cost rs < 2 ^ 32 \<and> via_cost rs < 2 ^ 32 \<and>
     (\<forall>c v. congestion r c = Some v \<longrightarrow> v < 2 ^ 16) \<and>
     (\<forall>l \<in> set (copper_layers (board_of r)). supported_layer l) \<and>
     (\<forall>l \<in> set (terminal_layers t). l \<in> set (copper_layers (board_of r))) \<and>
     (\<forall>(x, y, l) \<in> set goals. i32_ok x \<and> i32_ok y) \<and>
     budget \<le> MAX_ASTAR_WORK_BUDGET"

lemma search_input_good: "search_input r t goals rs budget \<Longrightarrow> good_env (search_env_for r n t goals rs)"
  by (auto simp: search_input_def good_env_def search_env_for_def Let_def wrap_i32_ok)

lemma terminal_nodes_start:
  assumes "m \<in> set (terminal_nodes r n t rs)"
  shows "node_x m = start_x (search_env_for r n t goals rs)" "node_y m = start_y (search_env_for r n t goals rs)"
  using assms by (auto simp: terminal_nodes_def search_env_for_def Let_def)

lemma terminal_nodes_valid:
  assumes "search_input r t goals rs budget" "m \<in> set (terminal_nodes r n t rs)"
  shows "valid_node (search_env_for r n t goals rs) m"
  using assms by (auto simp: terminal_nodes_def search_env_for_def Let_def valid_node_def search_input_def wrap_i32_ok)

lemma astar_initial:
  assumes "search_input r t goals rs budget"
  shows "loop_inv (search_env_for r n t goals rs) (set (terminal_nodes r n t rs)) budget
    (initial_search (search_env_for r n t goals rs) (terminal_nodes r n t rs) budget)"
  by (rule initial_inv) (use terminal_nodes_start terminal_nodes_valid[OF assms] in blast)

lemma astar_outcome:
  assumes "search_input r t goals rs budget"
  shows "outcome_ok (search_env_for r n t goals rs) (set (terminal_nodes r n t rs)) budget
    (astar_to_tree r n t goals rs budget)"
  unfolding astar_to_tree_def Let_def
  by (rule search_loop_outcome[OF astar_initial[OF assms] search_input_good[OF assms]])
    (use assms in \<open>simp add: search_input_def\<close>)

section \<open>What the endings mean\<close>

text \<open>The paths of the search: moves of the router from a node of the terminal to a goal cell.\<close>

definition route_path :: "router \<Rightarrow> nat \<Rightarrow> terminal \<Rightarrow> cell list \<Rightarrow> rules \<Rightarrow> node list \<Rightarrow> nat \<Rightarrow> bool" where
  "route_path r n t goals rs ns W \<longleftrightarrow>
     graph_path (search_env_for r n t goals rs) (set (terminal_nodes r n t rs)) ns W"

text \<open>C1: When the search returns a path, the path starts at a node of the terminal, ends in a goal
  cell, every step of it is a move that the guards of the router allow, the returned cost is the sum
  of the costs of its moves, and no other path of allowed moves from the terminal to a goal is
  cheaper.\<close>

theorem astar_shortest_path:
  assumes "search_input r t goals rs budget"
    and "astar_to_tree r n t goals rs budget = (Reached path cost, s)"
  shows "route_path r n t goals rs path cost \<and> (\<forall>ns W. route_path r n t goals rs ns W \<longrightarrow> cost \<le> W)"
  using astar_outcome[OF assms(1), of n] assms(2) by (simp add: outcome_ok_def route_path_def)

text \<open>C2: When the search reports that there is no path, no sequence of allowed moves leads from the
  terminal to a goal cell.\<close>

theorem astar_no_path_exists:
  assumes "search_input r t goals rs budget"
    and "astar_to_tree r n t goals rs budget = (No_Path, s)"
  shows "\<nexists>ns W. route_path r n t goals rs ns W"
  using astar_outcome[OF assms(1), of n] assms(2) by (simp add: outcome_ok_def route_path_def)

text \<open>C4: Every search within the production budget ends with a path, without a path or with its
  budget used up; it never panics and its predecessors never form a cycle. Every expanded node has
  cost a unit of the budget.\<close>

theorem astar_ends:
  assumes "search_input r t goals rs budget"
    and "astar_to_tree r n t goals rs budget = (ending, s)"
  shows "((\<exists>path cost. ending = Reached path cost) \<or> ending = No_Path \<or> (ending = Exhausted \<and> budget_left s = 0)) \<and>
    expanded_nodes s + budget_left s \<le> budget"
  using astar_outcome[OF assms(1), of n] assms(2) by (cases ending) (auto simp: outcome_ok_def)

section \<open>Arithmetic\<close>

lemma loop_steps_inv:
  assumes "(loop_step e)\<^sup>*\<^sup>* s s'" "loop_inv e starts budget s" "good_env e" "budget \<le> MAX_ASTAR_WORK_BUDGET"
  shows "loop_inv e starts budget s'"
  using assms(1,2) by (induction rule: rtranclp_induct) (auto intro: loop_step_inv assms(3,4))

text \<open>C5: No cost and no score of the search overflows its \<open>u64\<close>: in every state that the loop
  reaches within the production budget, the cost of a move from any node with a noted cost, and the
  score of the entry that the relaxation would push, are below \<open>2 ^ 64\<close>.\<close>

theorem astar_fits_u64:
  assumes "search_input r t goals rs budget" and "e = search_env_for r n t goals rs"
    and "(loop_step e)\<^sup>*\<^sup>* (initial_search e (terminal_nodes r n t rs) budget) s"
    and "costs s m = Some c" and "(m', w) \<in> set (moves e m)"
  shows "c + w + node_heuristic e m' < 2 ^ 64"
proof -
  note good = search_input_good[OF assms(1), of n, folded assms(2)]
  have small: "budget \<le> MAX_ASTAR_WORK_BUDGET" using assms(1) by (simp add: search_input_def)
  have "loop_inv e (set (terminal_nodes r n t rs)) budget s"
    using loop_steps_inv[OF assms(3) astar_initial[OF assms(1), of n, folded assms(2)] good small] .
  then show ?thesis using score_bound[OF _ assms(4,5) good small] unfolding loop_inv_def by blast
qed

section \<open>Clearance of the paths\<close>

lemma obstructed_free: "obstructed r n c = Some False \<Longrightarrow> free_for r n c"
  by (cases c) (auto simp: obstructed_def foreign_obstacle_def free_for_def split: if_splits option.splits)

lemma track_target_clear:
  assumes "track_target e n k = Some (m, w)"
  defines "c \<equiv> (node_x m, node_y m, node_layer m)"
  shows "endpoint_cell e c \<or> (free_for (env_router e) (env_net e) c \<and> c \<notin> occupied (env_router e))"
    and "node_x m \<noteq> node_x n \<Longrightarrow> node_y m \<noteq> node_y n \<Longrightarrow>
      free_for (env_router e) (env_net e) (node_x m, node_y n, node_layer n) \<and>
      free_for (env_router e) (env_net e) (node_x n, node_y m, node_layer n)"
  using assms(1) unfolding c_def
  by (auto simp: track_target_def Let_def clear_cell_def intro: obstructed_free split: if_splits prod.splits)

lemma via_target_clear:
  assumes "via_target e n l = Some (m, w)"
  obtains v k where "search_via e n l = Some (v, k)" "m = n\<lparr>node_layer := layer_index l\<rparr>"
    "\<And>l'. l' \<in> set (copper_layers (board_of (env_router e))) \<Longrightarrow> spans_layer v l' \<Longrightarrow>
      free_for (env_router e) (env_net e) (node_x n, node_y n, layer_index l') \<and>
      occupied_by (env_router e) (node_x n, node_y n, layer_index l') = None"
  using assms
  by (auto simp: via_target_def bind_eq_Some_conv list_all_iff column_cells_def clear_cell_def
      intro: obstructed_free split: if_splits)


section \<open>A concrete search\<close>

text \<open>A board whose track area has two cells.\<close>

definition strip_board :: board where
  "strip_board = tiny_board\<lparr>board_width_nm := 30, round_obstacles := []\<rparr>"

definition strip_terminal :: terminal where
  "strip_terminal = \<lparr>position_nm = \<lparr>x_nm = 10, y_nm = 10\<rparr>, terminal_layers = [Front]\<rparr>"

lemma strip_facts: "grid_nm (rules_of strip_board) = 10" "track_width_nm (rules_of strip_board) = 2"
  "via_diameter_nm (rules_of strip_board) = 4" "bend_cost (rules_of strip_board) = 5" 
  "board_width_nm strip_board = 30" "board_height_nm strip_board = 20" "copper_layers strip_board = [Front]"
  "keepouts strip_board = []" "net_classes strip_board = []" "nets strip_board = []"
  by (simp_all add: strip_board_def tiny_board_def blank_board_def)

abbreviation strip_node :: "int \<Rightarrow> nat \<Rightarrow> node" where
  "strip_node x d \<equiv> \<lparr>node_x = x, node_y = 1, node_layer = 0, node_dir = d\<rparr>"

definition strip_env :: search_env where
  "strip_env = \<lparr>env_router = fresh_router strip_board 0, env_net = 3, env_rules = rules_of strip_board, env_goals = [(2, 1, 0)],
     start_x = 1, start_y = 1, min_track_cell = 1, max_x = 2, max_y = 1\<rparr>"

lemma strip_env_fields: "env_goals strip_env = [(2, 1, 0)]" "start_x strip_env = 1" "start_y strip_env = 1"
  "env_router strip_env = fresh_router strip_board 0" "env_rules strip_env = rules_of strip_board"
  "env_net strip_env = 3" "min_track_cell strip_env = 1" "max_x strip_env = 2" "max_y strip_env = 1"
  "search_variant (fresh_router strip_board 0) = 0" "occupied (fresh_router strip_board 0) = {}"
  "board_of (fresh_router strip_board 0) = strip_board"
  by (simp_all add: strip_env_def fresh_router_def)

lemma strip_env: "search_env_for (fresh_router strip_board 0) 3 strip_terminal [(2, 1, 0)] (rules_of strip_board) = strip_env"
  by (simp add: search_env_for_def strip_terminal_def strip_facts strip_env_fields(10-12) strip_env_def nearest_grid_def sdiv_nonneg
      wrap_i32_id i32_ok_def)

lemma strip_obstructed: "obstructed (fresh_router strip_board 0) 3 (x, y, 0) = Some False"
  by (simp add: obstructed_def fresh_router_def foreign_obstacle_def layer_from_index_def strip_facts Let_def)

lemma strip_proximity: "proximity (fresh_router strip_board 0) x y l = 0"
  by (simp add: proximity_def fresh_router_def window_grid_def upto_rec1)

lemmas heap_defs = heap_push_def heap_pop_def sift_up.simps sift_down_to_bottom.simps queue_le_def

lemma strip_steps:
  "direction_step strip_env (strip_node 1 8) 0 0 s = relax strip_env (strip_node 1 8) (strip_node 2 0) 10 s"
  "k \<in> {Suc 0, 2, 3, 4, 5, 6, 7} \<Longrightarrow> direction_step strip_env (strip_node 1 8) 0 k s = Inr s"
  by (auto simp: direction_step_def DIRS_def strip_env_fields endpoint_cell_def track_cost_def strip_proximity)

lemma strip_expand:
  "expand strip_env (strip_node 1 8) 0 s = relax strip_env (strip_node 1 8) (strip_node 2 0) 10 s"
proof -
  have eight: "[0..<8] = [0, Suc 0, 2, 3, 4, 5, 6, 7]" by (simp add: upt_rec)
  have "via_step strip_env (strip_node 1 8) 0 Front t = Inr t" for t
    by (simp add: via_step_def layer_index_def)
  then show ?thesis
    by (cases "relax strip_env (strip_node 1 8) (strip_node 2 0) 10 s")
       (simp_all add: expand_def eight strip_steps strip_env_fields strip_facts)
qed

lemma strip_search:
  "\<exists>s. search_loop strip_env (initial_search strip_env [strip_node 1 8] 20) = (Reached [strip_node 1 8, strip_node 2 0] 10, s)"
proof -
  have start: "initial_search strip_env [strip_node 1 8] 20 =
      \<lparr>open_items = [\<lparr>item_score = 10, item_cost = 0, item_node = strip_node 1 8\<rparr>], costs = [strip_node 1 8 \<mapsto> 0],
       prev = Map.empty, blocker_ids = {}, expanded_nodes = 0, budget_left = 20\<rparr>"
    by (simp add: initial_search_def seed_def heap_defs strip_env_fields heuristic_to_tree_def heuristic_def)
  show ?thesis
    unfolding start
    by (subst search_loop.simps,
        simp add: consume_def heap_defs known_cost_def Let_def strip_env_fields strip_expand relax_def)
       (subst search_loop.simps,
        simp add: consume_def heap_defs known_cost_def Let_def strip_env_fields queue_item_for_def reach_def walk_back.simps)
qed

abbreviation strip_router :: router where
  "strip_router \<equiv> fresh_router strip_board 0"

abbreviation strip_rules :: rules where
  "strip_rules \<equiv> rules_of strip_board"

lemma strip_input: "search_input strip_router (strip_terminal\<lparr>terminal_layers := ls\<rparr>) [(2, 1, 0)] strip_rules 20"
  if "set ls \<subseteq> {Front}" for ls
  using that
  by (auto simp: search_input_def fresh_router_def strip_terminal_def strip_board_def tiny_board_def blank_board_def
      i32_ok_def MAX_ASTAR_WORK_BUDGET_def)

lemma strip_input_front: "search_input strip_router strip_terminal [(2, 1, 0)] strip_rules 20"
  using strip_input[of "[Front]"] by (simp add: strip_terminal_def)

lemma strip_nodes: "terminal_nodes strip_router 3 strip_terminal strip_rules = [strip_node 1 8]"
  by (simp add: terminal_nodes_def strip_terminal_def strip_facts strip_env_fields allowed_layer_def layers_for_net_def
      class_for_net_def nearest_grid_def sdiv_nonneg wrap_i32_id i32_ok_def layer_index_def)

lemma strip_astar:
  "\<exists>s. astar_to_tree strip_router 3 strip_terminal [(2, 1, 0)] strip_rules 20 = (Reached [strip_node 1 8, strip_node 2 0] 10, s)"
  using strip_search by (simp add: astar_to_tree_def strip_env strip_nodes)

lemma strip_move: "(strip_node 2 0, 10) \<in> set (moves strip_env (strip_node 1 8))"
  unfolding set_moves
  by (intro disjI1 exI[of _ 0])
    (simp add: track_target_def DIRS_def strip_env_fields endpoint_cell_def track_cost_def strip_proximity)

theorem astar_shortest_path_witness:
  "route_path strip_router 3 strip_terminal [(2, 1, 0)] strip_rules [strip_node 1 8, strip_node 2 0] 10"
  using strip_astar astar_shortest_path[OF strip_input_front, of 3] by blast

theorem astar_no_path_exists_witness:
  "\<not> route_path strip_router 3 (strip_terminal\<lparr>terminal_layers := []\<rparr>) [(2, 1, 0)] strip_rules [strip_node 1 8, strip_node 2 0] 10"
proof -
  have "terminal_nodes strip_router 3 (strip_terminal\<lparr>terminal_layers := []\<rparr>) strip_rules = []"
    by (simp add: terminal_nodes_def)
  then have "\<exists>s. astar_to_tree strip_router 3 (strip_terminal\<lparr>terminal_layers := []\<rparr>) [(2, 1, 0)] strip_rules 20 = (No_Path, s)"
    by (simp add: astar_to_tree_def initial_search_def) (subst search_loop.simps, simp)
  then show ?thesis using astar_no_path_exists[OF strip_input[of "[]"], of 3] by auto
qed

theorem astar_ends_witness:
  "\<exists>s. astar_to_tree strip_router 3 strip_terminal [(2, 1, 0)] strip_rules 20 = (Reached [strip_node 1 8, strip_node 2 0] 10, s) \<and>
    expanded_nodes s + budget_left s \<le> 20"
  using strip_astar astar_ends[OF strip_input_front, of 3] by blast

theorem astar_fits_u64_witness: "10 + node_heuristic strip_env (strip_node 2 0) < 2 ^ 64"
proof -
  have "costs (initial_search strip_env [strip_node 1 8] 20) (strip_node 1 8) = Some 0"
    by (simp add: initial_search_def seed_def)
  then show ?thesis
    using astar_fits_u64[OF strip_input_front strip_env[symmetric], of "initial_search strip_env [strip_node 1 8] 20"
        "strip_node 1 8" 0 "strip_node 2 0" 10] strip_move
    by (simp add: strip_nodes)
qed


end
