(* ===== verification/Emission.thy ===== *)
theory Emission
  imports Astar
begin

text \<open>
  From a node path to copper: \<open>append_path\<close>, \<open>append_terminal_access\<close> and \<open>push_segment\<close> of
  \<open>crates/pcbex-core/src/lib.rs\<close>. A path is cut into straight runs, each one a segment, and layer
  changes, each one a via; \<open>None\<close> is the panic on an index that is not a layer or on a via between
  undeclared layers. The theorem says that the runs and changes spell out the path cell by cell.
\<close>

section \<open>The code\<close>

definition node_point :: "nm \<Rightarrow> node \<Rightarrow> point" where
  "node_point g n = \<lparr>x_nm = node_x n * g, y_nm = node_y n * g\<rparr>"

definition push_segment :: "route \<Rightarrow> node \<Rightarrow> node \<Rightarrow> nm \<Rightarrow> nm \<Rightarrow> route option" where
  "push_segment rt a b g w =
     Option.bind (layer_from_index (node_layer a)) (\<lambda>l.
       Some (rt\<lparr>segments := segments rt @
         [\<lparr>seg_start = node_point g a, seg_end = node_point g b, seg_layer = l, width_nm = w\<rparr>]\<rparr>))"

definition push_via :: "route \<Rightarrow> node \<Rightarrow> node \<Rightarrow> rules \<Rightarrow> board \<Rightarrow> route option" where
  "push_via rt a b rs bd =
     Option.bind (layer_from_index (node_layer a)) (\<lambda>l.
     Option.bind (layer_from_index (node_layer b)) (\<lambda>m.
     Option.bind (via_for_transition bd l m) (\<lambda>(k, first, final, multiplier).
       Some (rt\<lparr>vias := vias rt @
         [\<lparr>via_position = node_point (grid_nm rs) a, diameter_nm = via_diameter_nm rs, drill_nm = via_drill_nm rs,
           via_kind_of = k, start_layer = first, end_layer = final\<rparr>]\<rparr>))))"

text \<open>The loop over \<open>nodes.windows(2)\<close>; \<open>start\<close> is the first node of the current run and \<open>last\<close> the
  node before the pair.\<close>

fun append_path_loop ::
    "rules \<Rightarrow> board \<Rightarrow> (node \<times> node) list \<Rightarrow> node \<Rightarrow> node \<Rightarrow> route \<Rightarrow> (route \<times> node) option" where
  "append_path_loop rs bd [] start final rt = Some (rt, start)"
| "append_path_loop rs bd ((p, q) # pairs) start final rt =
     (if node_layer p \<noteq> node_layer q
      then
        Option.bind (if start \<noteq> p then push_segment rt start p (grid_nm rs) (track_width_nm rs) else Some rt) (\<lambda>rt.
        Option.bind (push_via rt p q rs bd) (\<lambda>rt.
        append_path_loop rs bd pairs q q rt))
      else
        let old_dir = sgn (node_x final - node_x start);
            old_dy = sgn (node_y final - node_y start);
            new_dir = sgn (node_x q - node_x p);
            new_dy = sgn (node_y q - node_y p)
        in
        if final \<noteq> start \<and> (old_dir \<noteq> new_dir \<or> old_dy \<noteq> new_dy)
        then
          Option.bind (push_segment rt start p (grid_nm rs) (track_width_nm rs)) (\<lambda>rt.
          append_path_loop rs bd pairs p q rt)
        else append_path_loop rs bd pairs start q rt)"

definition append_path :: "route \<Rightarrow> node list \<Rightarrow> rules \<Rightarrow> board \<Rightarrow> route option" where
  "append_path rt nodes rs bd =
     (if length nodes < 2 then Some rt
      else
        Option.bind (append_path_loop rs bd (windows2 nodes) (hd nodes) (hd nodes) rt) (\<lambda>(rt, start).
        if start \<noteq> last nodes
        then push_segment rt start (last nodes) (grid_nm rs) (track_width_nm rs)
        else Some rt))"

definition append_terminal_access :: "route \<Rightarrow> point \<Rightarrow> node \<Rightarrow> rules \<Rightarrow> bool \<Rightarrow> route option" where
  "append_terminal_access rt t n rs terminal_first =
     (let grid = node_point (grid_nm rs) n in
      if t = grid then Some rt
      else
        let corner = \<lparr>x_nm = x_nm grid, y_nm = y_nm t\<rparr>;
            points = (if terminal_first then [t, corner, grid] else [grid, corner, t]);
            pairs = filter (\<lambda>(p, q). p \<noteq> q) (windows2 points)
        in
        if pairs = [] then Some rt
        else Option.bind (layer_from_index (node_layer n)) (\<lambda>l.
          Some (rt\<lparr>segments := segments rt @
            map (\<lambda>(p, q). \<lparr>seg_start = p, seg_end = q, seg_layer = l, width_nm = track_width_nm rs\<rparr>) pairs\<rparr>)))"

section \<open>Runs and hops\<close>

datatype piece = Run node node | Hop node node

definition node_cell :: "node \<Rightarrow> cell" where
  "node_cell n = (node_x n, node_y n, node_layer n)"

text \<open>The cells of a straight run after its first one.\<close>

definition run_length :: "node \<Rightarrow> node \<Rightarrow> nat" where
  "run_length a b = nat (max \<bar>node_x b - node_x a\<bar> \<bar>node_y b - node_y a\<bar>)"

definition run_cell :: "node \<Rightarrow> node \<Rightarrow> nat \<Rightarrow> cell" where
  "run_cell a b i =
     (node_x a + int i * sgn (node_x b - node_x a), node_y a + int i * sgn (node_y b - node_y a), node_layer a)"

definition run_cells :: "node \<Rightarrow> node \<Rightarrow> cell list" where
  "run_cells a b = map (run_cell a b) [1..<Suc (run_length a b)]"

definition straight :: "node \<Rightarrow> node \<Rightarrow> bool" where
  "straight a b \<longleftrightarrow> node_layer a = node_layer b \<and> 0 < run_length a b \<and>
     run_cell a b (run_length a b) = node_cell b"

fun piece_cells :: "piece \<Rightarrow> cell list" where
  "piece_cells (Run a b) = run_cells a b"
| "piece_cells (Hop a b) = [node_cell b]"

fun piece_ok :: "piece \<Rightarrow> bool" where
  "piece_ok (Run a b) = straight a b"
| "piece_ok (Hop a b) = (node_x a = node_x b \<and> node_y a = node_y b \<and> node_layer a \<noteq> node_layer b)"

text \<open>Each piece starts where the previous one ends.\<close>

fun chained :: "node \<Rightarrow> piece list \<Rightarrow> node \<Rightarrow> bool" where
  "chained a [] b = (a = b)"
| "chained a (Run p q # ps) b = (p = a \<and> chained q ps b)"
| "chained a (Hop p q # ps) b = (p = a \<and> chained q ps b)"

fun emit_piece :: "rules \<Rightarrow> board \<Rightarrow> piece \<Rightarrow> route \<Rightarrow> route option" where
  "emit_piece rs bd (Run a b) rt = push_segment rt a b (grid_nm rs) (track_width_nm rs)"
| "emit_piece rs bd (Hop a b) rt = push_via rt a b rs bd"

fun emit_pieces :: "rules \<Rightarrow> board \<Rightarrow> piece list \<Rightarrow> route \<Rightarrow> route option" where
  "emit_pieces rs bd [] rt = Some rt"
| "emit_pieces rs bd (p # ps) rt = Option.bind (emit_piece rs bd p rt) (emit_pieces rs bd ps)"

text \<open>A step of a path: to a neighbouring cell of the layer, or to another layer.\<close>

definition grid_step :: "node \<Rightarrow> node \<Rightarrow> bool" where
  "grid_step p q \<longleftrightarrow>
     (if node_layer p = node_layer q then run_length p q = 1 else node_x p = node_x q \<and> node_y p = node_y q)"

lemma run_of:
  assumes "d \<in> {-1, 0, 1}" "e \<in> {-1, 0, 1}" "d \<noteq> 0 \<or> e \<noteq> 0" "0 < k"
    and "node_x b = node_x a + int k * d" "node_y b = node_y a + int k * e"
  shows "run_length a b = k" "sgn (node_x b - node_x a) = d" "sgn (node_y b - node_y a) = e"
  using assms by (auto simp: run_length_def sgn_mult)

lemma straightI:
  assumes "d \<in> {-1, 0, 1}" "e \<in> {-1, 0, 1}" "d \<noteq> 0 \<or> e \<noteq> 0" "0 < k" "node_layer a = node_layer b"
    and "node_x b = node_x a + int k * d" "node_y b = node_y a + int k * e"
  shows "straight a b"
  using assms(4-7) run_of[OF assms(1-4,6,7)] by (simp add: straight_def run_cell_def node_cell_def)

lemma straightE:
  assumes "straight a b"
  obtains d e where "d \<in> {-1, 0, 1}" "e \<in> {-1, 0, 1}" "d \<noteq> 0 \<or> e \<noteq> 0" "0 < run_length a b"
    "node_layer a = node_layer b" "node_x b = node_x a + int (run_length a b) * d"
    "node_y b = node_y a + int (run_length a b) * e" "d = sgn (node_x b - node_x a)" "e = sgn (node_y b - node_y a)"
proof
  have "run_cell a b (run_length a b) = node_cell b" using assms by (simp add: straight_def)
  then have "node_x a + int (run_length a b) * sgn (node_x b - node_x a) = node_x b \<and>
      node_y a + int (run_length a b) * sgn (node_y b - node_y a) = node_y b"
    by (simp only: run_cell_def node_cell_def prod.inject)
  then show "node_x b = node_x a + int (run_length a b) * sgn (node_x b - node_x a)"
    "node_y b = node_y a + int (run_length a b) * sgn (node_y b - node_y a)" by linarith+
  show "sgn (node_x b - node_x a) \<in> {-1, 0, 1}" "sgn (node_y b - node_y a) \<in> {-1, 0, 1}" by (auto simp: sgn_if)
  show "sgn (node_x b - node_x a) \<noteq> 0 \<or> sgn (node_y b - node_y a) \<noteq> 0"
    using assms by (auto simp: straight_def run_length_def sgn_if)
  show "0 < run_length a b" "node_layer a = node_layer b" using assms by (simp_all add: straight_def)
qed (rule refl)+

lemma straight_ne: "straight a b \<Longrightarrow> a \<noteq> b"
  by (auto simp: straight_def run_length_def)

lemma step_offset:
  assumes "grid_step p q" "node_layer p = node_layer q"
  shows "node_x q = node_x p + sgn (node_x q - node_x p)" "node_y q = node_y p + sgn (node_y q - node_y p)"
    "sgn (node_x q - node_x p) \<noteq> 0 \<or> sgn (node_y q - node_y p) \<noteq> 0"
  using assms by (auto simp: grid_step_def run_length_def sgn_if max_def split: if_splits)

lemma straight_step:
  assumes "node_layer p = node_layer q" "grid_step p q"
  shows "straight p q \<and> run_cells p q = [node_cell q]"
proof -
  note off = step_offset[OF assms(2,1)]
  have "straight p q"
    by (rule straightI[where k = 1 and d = "sgn (node_x q - node_x p)" and e = "sgn (node_y q - node_y p)"])
      (use assms off in \<open>auto simp: sgn_if split: if_splits\<close>)
  moreover have "run_length p q = 1" using assms by (simp add: grid_step_def)
  ultimately show ?thesis by (simp add: run_cells_def straight_def)
qed

lemma straight_extend:
  assumes "straight a p" "node_layer p = node_layer q" "grid_step p q"
    and "sgn (node_x p - node_x a) = sgn (node_x q - node_x p)" "sgn (node_y p - node_y a) = sgn (node_y q - node_y p)"
  shows "straight a q \<and> run_cells a q = run_cells a p @ [node_cell q]"
proof -
  obtain d e where d: "d \<in> {-1, 0, 1}" "e \<in> {-1, 0, 1}" "d \<noteq> 0 \<or> e \<noteq> 0"
    and p: "0 < run_length a p" "node_layer a = node_layer p" "node_x p = node_x a + int (run_length a p) * d"
      "node_y p = node_y a + int (run_length a p) * e"
    and s: "d = sgn (node_x p - node_x a)" "e = sgn (node_y p - node_y a)"
    using straightE[OF assms(1)] .
  let ?k = "Suc (run_length a p)"
  have q: "node_x q = node_x a + int ?k * d" "node_y q = node_y a + int ?k * e"
  proof -
    have "node_x q = node_x p + d" "node_y q = node_y p + e"
      using step_offset(1,2)[OF assms(3,2)] s assms(4,5) by (simp_all only:)
    then show "node_x q = node_x a + int ?k * d" "node_y q = node_y a + int ?k * e"
      using p(3,4) by (simp_all add: distrib_right)
  qed
  note run = run_of[OF d _ q]
  have same: "run_cell a q i = run_cell a p i" for i
    using run(2,3) s by (simp add: run_cell_def)
  have straight: "straight a q" by (rule straightI[OF d _ _ q]) (use p assms(2) in simp_all)
  then have "run_cell a q ?k = node_cell q" using run(1) by (simp add: straight_def)
  then have "run_cells a q = run_cells a p @ [node_cell q]"
    using p run(1) by (simp add: run_cells_def same[abs_def])
  then show ?thesis using straight by blast
qed

section \<open>The path is spelled out\<close>

text \<open>The cells of a finished prefix of pieces and of the run that is still open.\<close>

lemma append_path_loop_pieces:
  assumes "append_path_loop rs bd (windows2 (p # nodes)) start p rt = Some (rt', start')"
    and "\<forall>(a, b) \<in> set (windows2 (p # nodes)). grid_step a b"
    and "start = p \<or> straight start p"
  shows "\<exists>ps. emit_pieces rs bd ps rt = Some rt' \<and> (\<forall>x \<in> set ps. piece_ok x) \<and> chained start ps start' \<and>
    (start' = last (p # nodes) \<or> straight start' (last (p # nodes))) \<and>
    concat (map piece_cells ps) @ (if start' = last (p # nodes) then [] else run_cells start' (last (p # nodes))) =
    (if start = p then [] else run_cells start p) @ map node_cell nodes"
  using assms
proof (induction nodes arbitrary: p start rt)
  case Nil
  then show ?case by (intro exI[of _ "[]"]) auto
next
  case (Cons q nodes)
  have step: "grid_step p q" and steps: "\<forall>(a, b) \<in> set (windows2 (q # nodes)). grid_step a b"
    using Cons.prems(2) by auto
  show ?case
  proof (cases "node_layer p = node_layer q")
    case False
    obtain rt1 rt2 where rt1: "(if start \<noteq> p then push_segment rt start p (grid_nm rs) (track_width_nm rs) else Some rt) = Some rt1"
      and rt2: "push_via rt1 p q rs bd = Some rt2"
      and loop: "append_path_loop rs bd (windows2 (q # nodes)) q q rt2 = Some (rt', start')"
      using Cons.prems(1) False by (auto simp: bind_eq_Some_conv)
    obtain ps where ps: "emit_pieces rs bd ps rt2 = Some rt'" "\<forall>x \<in> set ps. piece_ok x" "chained q ps start'"
      "start' = last (q # nodes) \<or> straight start' (last (q # nodes))"
      "concat (map piece_cells ps) @ (if start' = last (q # nodes) then [] else run_cells start' (last (q # nodes))) =
        map node_cell nodes"
      using Cons.IH[OF loop steps] by auto
    let ?ps = "(if start \<noteq> p then [Run start p] else []) @ Hop p q # ps"
    have "emit_pieces rs bd ?ps rt = Some rt'" using rt1 rt2 ps(1) by (auto split: if_splits)
    moreover have "chained start ?ps start'" using ps(3) by simp
    moreover have "\<forall>x \<in> set ?ps. piece_ok x" using ps(2) Cons.prems(3) step False by (auto simp: grid_step_def)
    ultimately show ?thesis using ps(4,5) by (intro exI[of _ ?ps]) auto
  next
    case same: True
    let ?turn = "sgn (node_x p - node_x start) \<noteq> sgn (node_x q - node_x p) \<or> sgn (node_y p - node_y start) \<noteq> sgn (node_y q - node_y p)"
    show ?thesis
    proof (cases "p \<noteq> start \<and> ?turn")
      case True
      then obtain rt1 where rt1: "push_segment rt start p (grid_nm rs) (track_width_nm rs) = Some rt1"
        and loop: "append_path_loop rs bd (windows2 (q # nodes)) p q rt1 = Some (rt', start')"
        using Cons.prems(1) same by (auto simp: bind_eq_Some_conv Let_def)
      obtain ps where ps: "emit_pieces rs bd ps rt1 = Some rt'" "\<forall>x \<in> set ps. piece_ok x" "chained p ps start'"
        "start' = last (q # nodes) \<or> straight start' (last (q # nodes))"
        "concat (map piece_cells ps) @ (if start' = last (q # nodes) then [] else run_cells start' (last (q # nodes))) =
          (if p = q then [] else run_cells p q) @ map node_cell nodes"
        using Cons.IH[OF loop steps] straight_step[OF same step] by blast
      have "p \<noteq> q" "run_cells p q = [node_cell q]" using straight_step[OF same step] straight_ne by auto
      then show ?thesis
        using ps rt1 True Cons.prems(3) by (intro exI[of _ "Run start p # ps"]) auto
    next
      case False
      then have no_turn: "(p \<noteq> start \<and> ?turn) = False" by blast
      have loop: "append_path_loop rs bd (windows2 (q # nodes)) start q rt = Some (rt', start')"
        using Cons.prems(1) same unfolding windows2.simps append_path_loop.simps Let_def no_turn by simp
      have run: "straight start q \<and> run_cells start q = (if start = p then [] else run_cells start p) @ [node_cell q]"
        using straight_step[OF same step] straight_extend[OF _ same step, of start] Cons.prems(3) False by auto
      obtain ps where "emit_pieces rs bd ps rt = Some rt'" "\<forall>x \<in> set ps. piece_ok x" "chained start ps start'"
        "start' = last (q # nodes) \<or> straight start' (last (q # nodes))"
        "concat (map piece_cells ps) @ (if start' = last (q # nodes) then [] else run_cells start' (last (q # nodes))) =
          (if start = q then [] else run_cells start q) @ map node_cell nodes"
        using Cons.IH[OF loop steps] run by blast
      moreover have "start \<noteq> q" using run straight_ne by blast
      ultimately show ?thesis using run by (intro exI[of _ ps]) auto
    qed
  qed
qed

lemma chained_snoc: "chained a ps b \<Longrightarrow> chained a (ps @ [Run b c]) c"
  by (induction a ps b rule: chained.induct) auto

lemma emit_pieces_append: "emit_pieces rs bd (ps @ qs) rt = Option.bind (emit_pieces rs bd ps rt) (emit_pieces rs bd qs)"
  by (induction ps arbitrary: rt) (simp_all split: Option.bind_split)

definition spells :: "node list \<Rightarrow> piece list \<Rightarrow> bool" where
  "spells nodes ps \<longleftrightarrow>
     (\<forall>x \<in> set ps. piece_ok x) \<and> chained (hd nodes) ps (last nodes) \<and>
     node_cell (hd nodes) # concat (map piece_cells ps) = map node_cell nodes"

lemma append_path_pieces:
  assumes "append_path rt nodes rs bd = Some rt'" and "nodes \<noteq> []"
    and "\<forall>(a, b) \<in> set (windows2 nodes). grid_step a b"
  shows "\<exists>ps. emit_pieces rs bd ps rt = Some rt' \<and> spells nodes ps"
proof (cases "tl nodes")
  case Nil
  then obtain p where "nodes = [p]" using assms(2) by (cases nodes) auto
  then show ?thesis using assms(1) by (intro exI[of _ "[]"]) (auto simp: append_path_def spells_def)
next
  case (Cons q qs)
  then obtain p where nodes: "nodes = p # q # qs" using assms(2) by (cases nodes) auto
  obtain rt1 start where loop: "append_path_loop rs bd (windows2 (p # q # qs)) p p rt = Some (rt1, start)"
    and "(if start \<noteq> last (p # q # qs) then push_segment rt1 start (last (p # q # qs)) (grid_nm rs) (track_width_nm rs)
      else Some rt1) = Some rt'"
    using assms(1) unfolding append_path_def nodes
    by (auto simp: bind_eq_Some_conv simp del: windows2.simps append_path_loop.simps last.simps)
  then have rt': "(if start \<noteq> last nodes then push_segment rt1 start (last nodes) (grid_nm rs) (track_width_nm rs)
      else Some rt1) = Some rt'" unfolding nodes by blast
  let ?spelled = "\<lambda>ps. emit_pieces rs bd ps rt = Some rt1 \<and> (\<forall>x \<in> set ps. piece_ok x) \<and> chained p ps start \<and>
    (start = last nodes \<or> straight start (last nodes)) \<and>
    concat (map piece_cells ps) @ (if start = last nodes then [] else run_cells start (last nodes)) = map node_cell (q # qs)"
  have "Ex ?spelled"
    using append_path_loop_pieces[OF loop assms(3)[unfolded nodes] disjI1[OF refl]]
    unfolding nodes if_P[OF refl] append_Nil .
  then obtain ps where sp: "?spelled ps" by (rule exE)
  note ps = sp[THEN conjunct1] sp[THEN conjunct2, THEN conjunct1] sp[THEN conjunct2, THEN conjunct2, THEN conjunct1]
    sp[THEN conjunct2, THEN conjunct2, THEN conjunct2]
  have hd: "hd nodes = p" by (simp add: nodes)
  have cells: "map node_cell nodes = node_cell p # map node_cell (q # qs)" by (simp add: nodes)
  show ?thesis
  proof (cases "start = last nodes")
    case True
    then show ?thesis using ps rt' unfolding spells_def hd cells by (intro exI[of _ ps]) simp
  next
    case False
    have "emit_pieces rs bd (ps @ [Run start (last nodes)]) rt = Some rt'"
      using ps(1) rt' False by (simp add: emit_pieces_append)
    moreover have "chained p (ps @ [Run start (last nodes)]) (last nodes)" using ps(3) by (rule chained_snoc)
    ultimately show ?thesis using ps(2,4) False unfolding spells_def hd cells
      by (intro exI[of _ "ps @ [Run start (last nodes)]"]) simp
  qed
qed

section \<open>The copper connects\<close>

text \<open>A spot is a point on a layer. The points of a segment are joined with each other on its layer,
  a via joins the layers that it spans at its position.\<close>

type_synonym spot = "point \<times> layer"

definition segment_spots :: "segment \<Rightarrow> spot set" where
  "segment_spots s = {(p, seg_layer s) |p. on_segment (seg_start s) (seg_end s) (real_pt p)}"

definition via_spots :: "via \<Rightarrow> spot set" where
  "via_spots v = {(via_position v, l) |l. spans_layer v l}"

definition joined :: "route \<Rightarrow> spot rel" where
  "joined rt = (\<Union>s \<in> set (segments rt). segment_spots s \<times> segment_spots s) \<union>
     (\<Union>v \<in> set (vias rt). via_spots v \<times> via_spots v)"

definition wired :: "spot rel \<Rightarrow> spot \<Rightarrow> spot \<Rightarrow> bool" where
  "wired R p q \<longleftrightarrow> (p, q) \<in> R\<^sup>*"

definition cell_spot :: "nm \<Rightarrow> cell \<Rightarrow> spot" where
  "cell_spot g c = (grid_at g c, the (layer_from_index (snd (snd c))))"

lemma wired_refl: "wired R p p"
  by (simp add: wired_def)

lemma wired_trans: "wired R p q \<Longrightarrow> wired R q r \<Longrightarrow> wired R p r"
  unfolding wired_def by (rule rtrancl_trans)

lemma wired_mono: "R \<subseteq> S \<Longrightarrow> wired R p q \<Longrightarrow> wired S p q"
  unfolding wired_def using rtrancl_mono by blast

lemma wired_sym: "sym R \<Longrightarrow> wired R p q \<Longrightarrow> wired R q p"
  unfolding wired_def by (meson symD sym_rtrancl)

lemma joined_sym: "sym (joined rt)"
  by (auto simp: sym_def joined_def)

lemma joined_segmentI:
  assumes "s \<in> set (segments rt)" "on_segment (seg_start s) (seg_end s) (real_pt p)" "on_segment (seg_start s) (seg_end s) (real_pt q)"
  shows "((p, seg_layer s), (q, seg_layer s)) \<in> joined rt"
  using assms unfolding joined_def segment_spots_def by blast

lemma joined_viaI:
  assumes "v \<in> set (vias rt)" "spans_layer v l" "spans_layer v m"
  shows "((via_position v, l), (via_position v, m)) \<in> joined rt"
  using assms unfolding joined_def via_spots_def by blast

lemma node_point_cell: "node_point g n = grid_at g (node_cell n)"
  by (simp add: node_point_def grid_at_def node_cell_def)

lemma run_cell_on_segment:
  assumes "straight a b" "i \<le> run_length a b"
  shows "on_segment (node_point g a) (node_point g b) (real_pt (grid_at g (run_cell a b i)))"
proof -
  obtain d e where "0 < run_length a b" and b: "node_x b = node_x a + int (run_length a b) * d"
      "node_y b = node_y a + int (run_length a b) * e"
    and d: "d = sgn (node_x b - node_x a)" "e = sgn (node_y b - node_y a)"
    using straightE[OF assms(1)] by metis
  let ?t = "real i / real (run_length a b)"
  have "0 \<le> ?t" "?t \<le> 1" using assms(2) \<open>0 < run_length a b\<close> by simp_all
  moreover have "real_pt (grid_at g (run_cell a b i)) = seg_at (node_point g a) (node_point g b) ?t"
    using \<open>0 < run_length a b\<close> unfolding run_cell_def d[symmetric]
    by (simp add: real_pt_def seg_at_def grid_at_def node_point_def b field_simps)
  ultimately show ?thesis unfolding on_segment_def by blast
qed

lemma emit_piece_grows: "emit_piece rs bd p rt = Some rt' \<Longrightarrow> joined rt \<subseteq> joined rt'"
  by (cases p) (auto simp: push_segment_def push_via_def bind_eq_Some_conv joined_def)

lemma emit_pieces_grows: "emit_pieces rs bd ps rt = Some rt' \<Longrightarrow> joined rt \<subseteq> joined rt'"
proof (induction ps arbitrary: rt)
  case (Cons p ps)
  then obtain rt1 where "emit_piece rs bd p rt = Some rt1" "emit_pieces rs bd ps rt1 = Some rt'"
    by (auto simp: bind_eq_Some_conv)
  then show ?case using Cons.IH[of rt1] emit_piece_grows[of rs bd p rt rt1] by auto
qed simp

lemma via_choice_spans:
  assumes "via_for_transition b f t = Some (k, s, e, m)" "supported_layer f" "supported_layer t"
    and "start_layer v = s" "end_layer v = e"
  shows "spans_layer v f \<and> spans_layer v t"
proof -
  have "layer_index f \<le> 31" "layer_index t \<le> 31" using assms(2,3) supported_index by auto
  then show ?thesis using assms(1,4,5)
    by (auto simp: via_for_transition_def spans_layer_def layer_index_def Let_def split: if_splits option.splits layer.splits)
qed

lemma emit_piece_joins:
  assumes "emit_piece rs bd p rt = Some rt'" "piece_ok p" "c \<in> set (piece_cells p)"
  shows "(cell_spot (grid_nm rs) (node_cell (case p of Run a b \<Rightarrow> a | Hop a b \<Rightarrow> a)), cell_spot (grid_nm rs) c) \<in> joined rt'"
proof (cases p)
  case (Run a b)
  obtain l where l: "layer_from_index (node_layer a) = Some l" and rt': "rt' = rt\<lparr>segments := segments rt @
      [\<lparr>seg_start = node_point (grid_nm rs) a, seg_end = node_point (grid_nm rs) b, seg_layer = l, width_nm = track_width_nm rs\<rparr>]\<rparr>"
    using assms(1) by (auto simp: Run push_segment_def bind_eq_Some_conv)
  let ?s = "\<lparr>seg_start = node_point (grid_nm rs) a, seg_end = node_point (grid_nm rs) b, seg_layer = l, width_nm = track_width_nm rs\<rparr>"
  obtain i where "i < Suc (run_length a b)" "c = run_cell a b i"
    using assms(3) unfolding Run piece_cells.simps run_cells_def set_map set_upt by auto
  then have i: "i \<le> run_length a b" "c = run_cell a b i" by simp_all
  have spot: "cell_spot (grid_nm rs) (run_cell a b j) = (grid_at (grid_nm rs) (run_cell a b j), l)" for j
    by (simp add: cell_spot_def run_cell_def l)
  have first: "node_cell a = run_cell a b 0" by (simp add: run_cell_def node_cell_def)
  have on: "on_segment (seg_start ?s) (seg_end ?s) (real_pt (grid_at (grid_nm rs) (run_cell a b j)))"
    if "j \<le> run_length a b" for j
    using run_cell_on_segment[OF _ that] assms(2) by (simp add: Run)
  have "?s \<in> set (segments rt')" by (simp add: rt')
  from joined_segmentI[OF this on[of 0] on[OF i(1)]] show ?thesis
    unfolding Run piece.case first spot i(2) by simp
next
  case (Hop a b)
  obtain l m k s e f where l: "layer_from_index (node_layer a) = Some l" "layer_from_index (node_layer b) = Some m"
    and v: "via_for_transition bd l m = Some (k, s, e, f)"
    and rt': "rt' = rt\<lparr>vias := vias rt @ [\<lparr>via_position = node_point (grid_nm rs) a, diameter_nm = via_diameter_nm rs,
      drill_nm = via_drill_nm rs, via_kind_of = k, start_layer = s, end_layer = e\<rparr>]\<rparr>"
    using assms(1) by (auto simp: Hop push_via_def bind_eq_Some_conv)
  let ?v = "\<lparr>via_position = node_point (grid_nm rs) a, diameter_nm = via_diameter_nm rs,
      drill_nm = via_drill_nm rs, via_kind_of = k, start_layer = s, end_layer = e\<rparr>"
  have "spans_layer ?v l" "spans_layer ?v m"
    using via_choice_spans[OF v, of ?v] layer_from_index_supported l by auto
  moreover have "?v \<in> set (vias rt')" by (simp add: rt')
  ultimately have "((via_position ?v, l), (via_position ?v, m)) \<in> joined rt'" by (intro joined_viaI)
  moreover have "cell_spot (grid_nm rs) (node_cell a) = (via_position ?v, l)"
    by (simp add: cell_spot_def node_point_cell) (simp add: node_cell_def l)
  moreover have "cell_spot (grid_nm rs) (node_cell b) = (via_position ?v, m)"
    using assms(2) by (simp add: Hop cell_spot_def node_point_def grid_at_def node_cell_def l)
  ultimately show ?thesis using assms(3) by (simp add: Hop)
qed

lemma chained_connects:
  assumes "emit_pieces rs bd ps rt = Some rt'" "\<forall>p \<in> set ps. piece_ok p" "chained a ps b"
    and "c \<in> insert (node_cell a) (set (concat (map piece_cells ps)))"
  shows "wired (joined rt') (cell_spot (grid_nm rs) (node_cell a)) (cell_spot (grid_nm rs) c)"
  using assms
proof (induction ps arbitrary: rt a)
  case Nil
  then show ?case by (simp add: wired_refl)
next
  case (Cons p ps)
  obtain rt1 where rt1: "emit_piece rs bd p rt = Some rt1" "emit_pieces rs bd ps rt1 = Some rt'"
    using Cons.prems(1) by (auto simp: bind_eq_Some_conv)
  have ok: "piece_ok p" "\<forall>p \<in> set ps. piece_ok p" using Cons.prems(2) by auto
  have near: "wired (joined rt') (cell_spot (grid_nm rs) (node_cell a)) (cell_spot (grid_nm rs) x)"
    if "x \<in> set (piece_cells p)" for x
  proof -
    have "(case p of Run a b \<Rightarrow> a | Hop a b \<Rightarrow> a) = a" using Cons.prems(3) by (cases p) auto
    then have "(cell_spot (grid_nm rs) (node_cell a), cell_spot (grid_nm rs) x) \<in> joined rt1"
      using emit_piece_joins[OF rt1(1) ok(1) that] by simp
    then show ?thesis using emit_pieces_grows[OF rt1(2)] by (auto simp: wired_def)
  qed
  obtain q where q: "chained q ps b" "node_cell q \<in> set (piece_cells p)"
  proof (cases p)
    case (Run x y)
    then have "run_cell x y (run_length x y) = node_cell y" "0 < run_length x y" using ok(1) by (auto simp: straight_def)
    then have "node_cell y \<in> set (run_cells x y)" unfolding run_cells_def by (force intro: rev_image_eqI)
    then show ?thesis using that Cons.prems(3) Run by auto
  qed (use that Cons.prems(3) in auto)
  show ?case
  proof (cases "c = node_cell a \<or> c \<in> set (piece_cells p)")
    case True
    then show ?thesis using near wired_refl by blast
  next
    case False
    then have "wired (joined rt') (cell_spot (grid_nm rs) (node_cell q)) (cell_spot (grid_nm rs) c)"
      using Cons.IH[OF rt1(2) ok(2) q(1)] Cons.prems(4) by auto
    then show ?thesis using near[OF q(2)] wired_trans by blast
  qed
qed

lemma access_joins:
  assumes "append_terminal_access rt t n rs tf = Some rt'" and "layer_from_index (node_layer n) = Some l"
  shows "joined rt \<subseteq> joined rt' \<and> wired (joined rt') (t, l) (node_point (grid_nm rs) n, l)"
proof (cases "t = node_point (grid_nm rs) n")
  case True
  then show ?thesis using assms(1) by (simp add: append_terminal_access_def wired_refl)
next
  case False
  let ?grid = "node_point (grid_nm rs) n"
  let ?corner = "\<lparr>x_nm = x_nm ?grid, y_nm = y_nm t\<rparr>"
  let ?points = "if tf then [t, ?corner, ?grid] else [?grid, ?corner, t]"
  let ?pairs = "filter (\<lambda>(p, q). p \<noteq> q) (windows2 ?points)"
  let ?seg = "\<lambda>(p, q). \<lparr>seg_start = p, seg_end = q, seg_layer = l, width_nm = track_width_nm rs\<rparr>"
  have rt': "rt' = (if ?pairs = [] then rt else rt\<lparr>segments := segments rt @ map ?seg ?pairs\<rparr>)"
    using assms False by (simp add: append_terminal_access_def Let_def split: if_splits)
  then have grows: "joined rt \<subseteq> joined rt'" by (auto simp: joined_def)
  have segs: "?seg pq \<in> set (segments rt')" if "pq \<in> set ?pairs" for pq
  proof -
    have "?pairs \<noteq> []" using that by (metis empty_iff empty_set)
    then have "segments rt' = segments rt @ map ?seg ?pairs" using rt' by simp
    moreover have "?seg pq \<in> set (map ?seg ?pairs)" unfolding set_map using that by (rule imageI)
    ultimately show ?thesis by simp
  qed
  have edge: "wired (joined rt') (p, l) (q, l)" if "(p, q) \<in> set (windows2 ?points) \<or> (q, p) \<in> set (windows2 ?points)" for p q
  proof (cases "p = q")
    case False
    with that consider "(p, q) \<in> set ?pairs" | "(q, p) \<in> set ?pairs" by auto
    then have "((p, l), (q, l)) \<in> joined rt'"
    proof cases
      case 1
      from joined_segmentI[OF segs[OF this], of p q] show ?thesis by simp
    next
      case 2
      from joined_segmentI[OF segs[OF this], of p q] show ?thesis by simp
    qed
    then show ?thesis by (auto simp: wired_def)
  qed (simp add: wired_refl)
  have "wired (joined rt') (t, l) (?corner, l)" "wired (joined rt') (?corner, l) (?grid, l)"
    by (rule edge, simp)+
  then show ?thesis using grows wired_trans by blast
qed

text \<open>A path of the search consists of grid steps on declared layers.\<close>

lemma move_grid_step:
  assumes "(q, w) \<in> set (moves e p)"
  shows "grid_step p q"
  using assms unfolding set_moves
proof (elim disjE exE conjE bexE)
  fix k assume "track_target e p k = Some (q, w)"
  then obtain dx dy where "dx \<in> {-1, 0, 1}" "dy \<in> {-1, 0, 1}" "node_x q = node_x p + dx" "node_y q = node_y p + dy"
    "node_layer q = node_layer p" "dx \<noteq> 0 \<or> dy \<noteq> 0"
    by (rule track_targetD)
  then show ?thesis by (auto simp: grid_step_def run_length_def)
next
  fix l assume v: "via_target e p l = Some (q, w)"
  then have "layer_index l \<noteq> node_layer p" by (auto simp: via_target_def split: if_splits)
  then show ?thesis using v by (auto simp: grid_step_def elim: via_targetD)
qed

section \<open>The property\<close>

text \<open>C12: The copper that a path is turned into spells out the path. It is a chain of straight runs,
  each a segment, and layer changes, each a via, where every piece starts at the node at which the
  previous one ended; the cells that the pieces pass are exactly the cells of the path in their
  order, and all of them are connected by the copper with the first.\<close>

theorem append_path_spells_path:
  assumes "append_path rt nodes rs bd = Some rt'" and "nodes \<noteq> []"
    and "\<forall>(a, b) \<in> set (windows2 nodes). grid_step a b"
  shows "(\<exists>ps. emit_pieces rs bd ps rt = Some rt' \<and> spells nodes ps) \<and>
    (\<forall>n \<in> set nodes. wired (joined rt') (cell_spot (grid_nm rs) (node_cell (hd nodes)))
      (cell_spot (grid_nm rs) (node_cell n)))"
proof -
  obtain ps where ps: "emit_pieces rs bd ps rt = Some rt'" and spells: "spells nodes ps"
    using append_path_pieces[OF assms] by blast
  note parts = spells[unfolded spells_def, THEN conjunct1] spells[unfolded spells_def, THEN conjunct2, THEN conjunct1]
    spells[unfolded spells_def, THEN conjunct2, THEN conjunct2]
  have "node_cell n \<in> insert (node_cell (hd nodes)) (set (concat (map piece_cells ps)))" if "n \<in> set nodes" for n
  proof -
    have "node_cell n \<in> set (map node_cell nodes)" using that by simp
    then show ?thesis unfolding parts(3)[symmetric] by simp
  qed
  then show ?thesis using ps spells chained_connects[OF ps parts(1,2)] by blast
qed

text \<open>A path with a corner.\<close>

definition corner_path :: "node list" where
  "corner_path = map (\<lambda>(x, y, d). \<lparr>node_x = x, node_y = y, node_layer = 0, node_dir = d\<rparr>)
     [(1, 1, 8), (2, 1, 0), (3, 1, 0), (3, 2, 2)]"

definition bare_route :: route where
  "bare_route = \<lparr>net_id = 7, segments = [], arcs = [], vias = [], teardrops = [], zones = []\<rparr>"

theorem append_path_spells_path_witness:
  "\<exists>rt'. append_path bare_route corner_path (rules_of tiny_board) tiny_board = Some rt' \<and>
    length (segments rt') = 2 \<and>
    wired (joined rt') (cell_spot 10 (1, 1, 0)) (cell_spot 10 (3, 2, 0))"
proof -
  have g: "grid_nm (rules_of tiny_board) = 10" by (simp add: tiny_board_def)
  have "\<exists>rt'. append_path bare_route corner_path (rules_of tiny_board) tiny_board = Some rt' \<and> length (segments rt') = 2"
    by (simp add: append_path_def corner_path_def push_segment_def layer_from_index_def bare_route_def)
  then obtain rt' where rt': "append_path bare_route corner_path (rules_of tiny_board) tiny_board = Some rt'"
    "length (segments rt') = 2" by blast
  have "\<forall>(a, b) \<in> set (windows2 corner_path). grid_step a b" "corner_path \<noteq> []"
    by (simp_all add: corner_path_def grid_step_def run_length_def)
  from append_path_spells_path[OF rt'(1) this(2,1)]
  have "wired (joined rt') (cell_spot 10 (node_cell (hd corner_path))) (cell_spot 10 (node_cell (last corner_path)))"
    unfolding g by (simp add: corner_path_def)
  then show ?thesis using rt' by (auto simp: corner_path_def node_cell_def)
qed

end
