(* ===== verification/NetRouting.thy ===== *)
theory NetRouting
  imports Emission
begin

text \<open>
  Routing one net, \<open>Router::route_net\<close> of \<open>crates/pcbex-core/src/lib.rs\<close>, and the order in which nets
  are tried: \<open>compare_nets\<close>, \<open>net_span\<close> and \<open>steiner_root_index\<close>. A net grows a tree from a central
  terminal; each round searches a path from every terminal that is left and keeps the cheapest.
\<close>

section \<open>The order of the nets\<close>

datatype ordering = Less | Equal | Greater

definition compare_val :: "'a :: linorder \<Rightarrow> 'a \<Rightarrow> ordering" where
  "compare_val x y = (if x < y then Less else if x = y then Equal else Greater)"

definition then_with :: "ordering \<Rightarrow> ordering \<Rightarrow> ordering" where
  "then_with o1 o2 = (if o1 = Equal then o2 else o1)"

definition net_span :: "net \<Rightarrow> nm" where
  "net_span n =
     sum_list (map (\<lambda>(p, q). \<bar>x_nm (position_nm p) - x_nm (position_nm q)\<bar> + \<bar>y_nm (position_nm p) - y_nm (position_nm q)\<bar>)
       (windows2 (terminals n)))"

definition compare_nets :: "router \<Rightarrow> net \<Rightarrow> net \<Rightarrow> ordering" where
  "compare_nets r left right =
     then_with (compare_val (net_priority right) (net_priority left))
       (let v = search_variant r mod 5 in
        if v = 0 then
          then_with (compare_val (length (terminals right)) (length (terminals left)))
            (compare_val (net_span right) (net_span left))
        else if v = 1 then
          then_with (compare_val (net_span left) (net_span right))
            (then_with (compare_val (length (terminals right)) (length (terminals left)))
              (compare_val (net_ident left) (net_ident right)))
        else if v = 2 then
          then_with (compare_val (length (terminals left)) (length (terminals right)))
            (then_with (compare_val (net_span right) (net_span left))
              (compare_val (net_ident left) (net_ident right)))
        else if v = 3 then compare_val (net_ident left) (net_ident right)
        else compare_val (net_ident right) (net_ident left))"

section \<open>The root of the tree\<close>

text \<open>The order of tuples, component by component.\<close>

definition key_less :: "nat \<times> nm \<times> nm \<times> nat \<Rightarrow> nat \<times> nm \<times> nm \<times> nat \<Rightarrow> bool" where
  "key_less k l =
     (case (k, l) of ((a, b, c, d), (a', b', c', d')) \<Rightarrow>
        a < a' \<or> (a = a' \<and> (b < b' \<or> (b = b' \<and> (c < c' \<or> (c = c' \<and> d < d'))))))"

definition steiner_key :: "net \<Rightarrow> rules \<Rightarrow> nat \<Rightarrow> nat \<times> nm \<times> nm \<times> nat" where
  "steiner_key n rs i =
     (let grid_positions = map (\<lambda>t.
            (wrap_i32 (nearest_grid (x_nm (position_nm t)) (grid_nm rs)),
             wrap_i32 (nearest_grid (y_nm (position_nm t)) (grid_nm rs)))) (terminals n);
          (x, y) = grid_positions ! i
      in (sum_list (map (\<lambda>(ox, oy). heuristic x y ox oy) grid_positions),
          x_nm (position_nm (terminals n ! i)), y_nm (position_nm (terminals n ! i)), i))"

definition steiner_root_index :: "net \<Rightarrow> rules \<Rightarrow> nat" where
  "steiner_root_index n rs =
     (if terminals n = [] then 0
      else fold (\<lambda>i best. if key_less (steiner_key n rs i) (steiner_key n rs best) then i else best)
        [1..<length (terminals n)] 0)"

section \<open>Routing a net\<close>

definition empty_route :: "nat \<Rightarrow> route" where
  "empty_route n = \<lparr>net_id = n, segments = [], arcs = [], vias = [], teardrops = [], zones = []\<rparr>"

text \<open>The result of \<open>route_net\<close>: a route with the expanded nodes, or the failure with the expanded
  nodes, the blocking nets and whether the budget ran out, or a panic.\<close>

datatype net_end = Routed route nat | Net_Failed nat "nat set" bool | Net_Panicked

record scan =
  best_candidate :: "(nat \<times> nm \<times> nm \<times> nat \<times> node list) option"
  scan_expanded :: nat
  scan_blockers :: "nat set"
  scan_budget :: work_budget

text \<open>One terminal of \<open>for &terminal_index in &remaining\<close>.\<close>

definition scan_terminal ::
    "router \<Rightarrow> net \<Rightarrow> rules \<Rightarrow> cell list \<Rightarrow> nat \<Rightarrow> scan \<Rightarrow> (net_end \<times> work_budget) + scan" where
  "scan_terminal r n rs tree i st =
     (let t = terminals n ! i;
          (ending, s) = astar_to_tree r (net_ident n) t tree rs (scan_budget st);
          all_expanded = scan_expanded st + expanded_nodes s
      in
      case ending of
        Reached path cost \<Rightarrow>
          let candidate = (cost, x_nm (position_nm t), y_nm (position_nm t), i);
              better = (case best_candidate st of None \<Rightarrow> True
                | Some (c, x, y, j, p) \<Rightarrow> key_less candidate (c, x, y, j))
          in Inr (st\<lparr>scan_expanded := all_expanded, scan_budget := budget_left s,
               best_candidate := (if better then Some (cost, x_nm (position_nm t), y_nm (position_nm t), i, path)
                 else best_candidate st)\<rparr>)
      | Exhausted \<Rightarrow> Inl (Net_Failed all_expanded (scan_blockers st) True, budget_left s)
      | No_Path \<Rightarrow> Inr (st\<lparr>scan_expanded := all_expanded, scan_budget := budget_left s,
               scan_blockers := scan_blockers st \<union> blocker_ids s\<rparr>)
      | _ \<Rightarrow> Inl (Net_Panicked, budget_left s))"

record growth =
  grown :: route
  tree_cells :: "cell list"
  to_do :: "nat list"
  root_access_added :: bool
  growth_expanded :: nat
  growth_budget :: work_budget

definition terminal_cells :: "router \<Rightarrow> nat \<Rightarrow> terminal \<Rightarrow> rules \<Rightarrow> cell list" where
  "terminal_cells r k t rs = map node_cell (terminal_nodes r k t rs)"

text \<open>The copper of a new branch: the access to its terminal, the path, and the first time the access
  to the root.\<close>

definition add_branch :: "router \<Rightarrow> rules \<Rightarrow> terminal \<Rightarrow> terminal \<Rightarrow> node list \<Rightarrow> bool \<Rightarrow> route \<Rightarrow> route option" where
  "add_branch r rs root_terminal t nodes root_done rt =
     Option.bind (append_terminal_access rt (position_nm t) (hd nodes) rs True) (\<lambda>rt.
     Option.bind (append_path rt nodes rs (board_of r)) (\<lambda>rt.
     if root_done then Some rt
     else append_terminal_access rt (position_nm root_terminal) (last nodes) rs False))"

definition grow_round :: "router \<Rightarrow> net \<Rightarrow> rules \<Rightarrow> terminal \<Rightarrow> growth \<Rightarrow> (net_end \<times> work_budget) + growth" where
  "grow_round r n rs root_terminal g =
     bind_result (fold_result (scan_terminal r n rs (tree_cells g)) (to_do g)
       \<lparr>best_candidate = None, scan_expanded = growth_expanded g, scan_blockers = {}, scan_budget = growth_budget g\<rparr>) (\<lambda>st.
     case best_candidate st of
       None \<Rightarrow> Inl (Net_Failed (scan_expanded st) (scan_blockers st) False, scan_budget st)
     | Some (cost, x, y, i, nodes) \<Rightarrow>
         let t = terminals n ! i in
         case add_branch r rs root_terminal t nodes (root_access_added g) (grown g) of
           None \<Rightarrow> Inl (Net_Panicked, scan_budget st)
         | Some rt \<Rightarrow>
             Inr (g\<lparr>grown := rt, root_access_added := True,
               tree_cells := tree_cells g @ map node_cell nodes @ terminal_cells r (net_ident n) t rs,
               to_do := filter (\<lambda>j. j \<noteq> i) (to_do g),
               growth_expanded := scan_expanded st, growth_budget := scan_budget st\<rparr>))"

text \<open>The chosen terminal is one of those left, so every round shortens the list.\<close>

lemma scan_choice:
  assumes "fold_result (scan_terminal r n rs tree) is st = Inr st'"
    and "\<And>c x y i p. best_candidate st = Some (c, x, y, i, p) \<Longrightarrow> i \<in> I" and "set is \<subseteq> I"
  shows "best_candidate st' = Some (c, x, y, i, p) \<Longrightarrow> i \<in> I"
proof -
  have "\<forall>c x y i p. best_candidate st' = Some (c, x, y, i, p) \<longrightarrow> i \<in> I"
    using assms(1)
  proof (rule fold_result_invariant)
    fix j t t' assume "j \<in> set is" "\<forall>c x y i p. best_candidate t = Some (c, x, y, i, p) \<longrightarrow> i \<in> I"
      "scan_terminal r n rs tree j t = Inr t'"
    then show "\<forall>c x y i p. best_candidate t' = Some (c, x, y, i, p) \<longrightarrow> i \<in> I"
      using assms(3)
      by (auto simp: scan_terminal_def Let_def split: prod.splits search_end.splits option.splits if_splits)
  qed (use assms(2) in blast)
  then show "best_candidate st' = Some (c, x, y, i, p) \<Longrightarrow> i \<in> I" by blast
qed

abbreviation scan_start :: "growth \<Rightarrow> scan" where
  "scan_start g \<equiv> \<lparr>best_candidate = None, scan_expanded = growth_expanded g, scan_blockers = {}, scan_budget = growth_budget g\<rparr>"

lemma grow_round_Inr:
  assumes "grow_round r n rs root_terminal g = Inr g'"
  obtains st cost x y i nodes rt where
    "fold_result (scan_terminal r n rs (tree_cells g)) (to_do g) (scan_start g) = Inr st"
    "best_candidate st = Some (cost, x, y, i, nodes)"
    "add_branch r rs root_terminal (terminals n ! i) nodes (root_access_added g) (grown g) = Some rt"
    "g' = g\<lparr>grown := rt, root_access_added := True,
       tree_cells := tree_cells g @ map node_cell nodes @ terminal_cells r (net_ident n) (terminals n ! i) rs,
       to_do := filter (\<lambda>j. j \<noteq> i) (to_do g),
       growth_expanded := scan_expanded st, growth_budget := scan_budget st\<rparr>"
proof -
  obtain st where st: "fold_result (scan_terminal r n rs (tree_cells g)) (to_do g) (scan_start g) = Inr st"
    using assms by (auto simp: grow_round_def bind_result_Inr)
  show ?thesis
  proof (cases "best_candidate st")
    case None
    then show ?thesis using assms st by (simp add: grow_round_def)
  next
    case (Some b)
    obtain cost x y i nodes where b: "b = (cost, x, y, i, nodes)" by (rule prod_cases5)
    show ?thesis
      using assms st Some that[OF st, of cost x y i nodes] unfolding b
      by (auto simp: grow_round_def Let_def split: option.splits)
  qed
qed

lemma grow_round_shrinks:
  assumes "grow_round r n rs root_terminal g = Inr g'"
  shows "length (to_do g') < length (to_do g)"
  using assms
proof (cases rule: grow_round_Inr)
  case (1 st cost x y i nodes rt)
  have "i \<in> set (to_do g)" using scan_choice[OF 1(1) _ subset_refl 1(2)] by simp
  then show ?thesis unfolding 1(4) by (simp add: length_filter_less)
qed

function grow_loop :: "router \<Rightarrow> net \<Rightarrow> rules \<Rightarrow> terminal \<Rightarrow> growth \<Rightarrow> net_end \<times> work_budget" where
  "grow_loop r n rs root_terminal g =
     (if to_do g = [] then (Routed (grown g) (growth_expanded g), growth_budget g)
      else case grow_round r n rs root_terminal g of
        Inl ending \<Rightarrow> ending
      | Inr g \<Rightarrow> grow_loop r n rs root_terminal g)"
  by pat_completeness auto
termination
  by (relation "measure (\<lambda>(r, n, rs, root_terminal, g). length (to_do g))") (auto dest: grow_round_shrinks)

declare grow_loop.simps [simp del]

definition route_net :: "router \<Rightarrow> net \<Rightarrow> work_budget \<Rightarrow> net_end \<times> work_budget" where
  "route_net r n budget =
     (if length (terminals n) < 2 then (Routed (empty_route (net_ident n)) 0, budget)
      else
        let rs = rules_for_net (board_of r) (net_ident n);
            root_index = steiner_root_index n rs;
            root_terminal = terminals n ! root_index;
            tree = terminal_cells r (net_ident n) root_terminal rs
        in
        if tree = [] then (Net_Failed 0 {} False, budget)
        else grow_loop r n rs root_terminal
          \<lparr>grown = empty_route (net_ident n), tree_cells = tree,
           to_do = filter (\<lambda>i. i \<noteq> root_index) [0..<length (terminals n)],
           root_access_added = False, growth_expanded = 0, growth_budget = budget\<rparr>)"

section \<open>The order is total\<close>

text \<open>A comparison that sorting may use: \<open>Less\<close> and \<open>Greater\<close> mirror each other and "not greater" is
  transitive.\<close>

definition consistent_order :: "('a \<Rightarrow> 'a \<Rightarrow> ordering) \<Rightarrow> bool" where
  "consistent_order c \<longleftrightarrow>
     (\<forall>x y. c x y = Less \<longleftrightarrow> c y x = Greater) \<and> (\<forall>x y. c x y = Equal \<longleftrightarrow> c y x = Equal) \<and>
     (\<forall>x y z. c x y \<noteq> Greater \<longrightarrow> c y z \<noteq> Greater \<longrightarrow> c x z \<noteq> Greater)"

lemma order_of_key: "consistent_order (\<lambda>x y. compare_val (f x) (f y))"
  by (auto simp: consistent_order_def compare_val_def)

lemma order_reversed: "consistent_order c \<Longrightarrow> consistent_order (\<lambda>x y. c y x)"
  unfolding consistent_order_def by blast

lemma order_then:
  assumes "consistent_order c" "consistent_order d"
  shows "consistent_order (\<lambda>x y. then_with (c x y) (d x y))"
proof -
  have mirror: "c x y = Less \<longleftrightarrow> c y x = Greater" "c x y = Equal \<longleftrightarrow> c y x = Equal"
    "d x y = Less \<longleftrightarrow> d y x = Greater" "d x y = Equal \<longleftrightarrow> d y x = Equal" for x y
    using assms unfolding consistent_order_def by blast+
  have trans: "c x y \<noteq> Greater \<Longrightarrow> c y z \<noteq> Greater \<Longrightarrow> c x z \<noteq> Greater"
    "d x y \<noteq> Greater \<Longrightarrow> d y z \<noteq> Greater \<Longrightarrow> d x z \<noteq> Greater" for x y z
    using assms unfolding consistent_order_def by blast+
  have "then_with (c x z) (d x z) \<noteq> Greater"
    if "then_with (c x y) (d x y) \<noteq> Greater" "then_with (c y z) (d y z) \<noteq> Greater" for x y z
  proof -
    have "c x y \<noteq> Greater" "c y z \<noteq> Greater" using that by (auto simp: then_with_def split: if_splits)
    then have xz: "c x z \<noteq> Greater" by (rule trans(1))
    show ?thesis
    proof (cases "c x z = Equal")
      case True
      then have zx: "c z x = Equal" using mirror(2) by blast
      have "c y x \<noteq> Greater" using trans(1)[of y z x] \<open>c y z \<noteq> Greater\<close> zx by simp
      then have xy: "c x y = Equal" using mirror(1)[of y x] \<open>c x y \<noteq> Greater\<close> mirror(1)[of x y] by (metis ordering.exhaust)
      have "c z y \<noteq> Greater" using trans(1)[of z x y] \<open>c x y \<noteq> Greater\<close> zx by simp
      then have yz: "c y z = Equal" using mirror(1)[of z y] \<open>c y z \<noteq> Greater\<close> mirror(1)[of y z] by (metis ordering.exhaust)
      show ?thesis using that True xy yz trans(2)[of x y z] by (simp add: then_with_def)
    qed (use xz in \<open>simp add: then_with_def\<close>)
  qed
  then show ?thesis unfolding consistent_order_def using mirror
    by (auto simp: then_with_def)
qed

text \<open>The comparison of nets is consistent for every search variant.\<close>

lemma compare_nets_order: "consistent_order (compare_nets r)"
proof -
  note parts = order_of_key order_reversed[OF order_of_key]
  consider "search_variant r mod 5 = 0" | "search_variant r mod 5 = 1" | "search_variant r mod 5 = 2"
    | "search_variant r mod 5 = 3" | "search_variant r mod 5 = 4" by linarith
  then show ?thesis
    unfolding compare_nets_def[abs_def] Let_def
    by cases (simp_all only: if_True if_False simp_thms zero_neq_one one_neq_zero numeral_eq_iff
        semiring_norm(85,86,87,88,89,90) zero_neq_numeral numeral_neq_zero one_eq_numeral_iff numeral_eq_one_iff
        order_then parts)
qed

section \<open>The root\<close>

definition key_order :: "nat \<times> nm \<times> nm \<times> nat \<Rightarrow> nat \<times> nm \<times> nm \<times> nat \<Rightarrow> bool" where
  "key_order k l \<longleftrightarrow> k = l \<or> key_less k l"

lemma key_less_trans: "key_less j k \<Longrightarrow> key_less k l \<Longrightarrow> key_less j l"
  by (cases j; cases k; cases l) (auto simp: key_less_def)

lemma key_order_trans: "key_order j k \<Longrightarrow> key_order k l \<Longrightarrow> key_order j l"
  unfolding key_order_def using key_less_trans[of j k l] by auto

lemma key_less_total: "key_less j k \<or> j = k \<or> key_less k j"
  by (cases j; cases k) (auto simp: key_less_def)

lemma fold_least_key:
  "let m = fold (\<lambda>i best. if key_less (key i) (key best) then i else best) is b in
     m \<in> insert b (set is) \<and> (\<forall>i \<in> insert b (set is). key_order (key m) (key i))"
proof (induction "is" arbitrary: b)
  case (Cons i "is")
  let ?b = "if key_less (key i) (key b) then i else b"
  let ?m = "fold (\<lambda>i best. if key_less (key i) (key best) then i else best) is ?b"
  have m: "?m \<in> insert ?b (set is)" "\<And>j. j \<in> insert ?b (set is) \<Longrightarrow> key_order (key ?m) (key j)"
    using Cons.IH[of ?b] unfolding Let_def by blast+
  have "key_order (key ?b) (key b)" "key_order (key ?b) (key i)"
    using key_less_total[of "key i" "key b"] by (auto simp: key_order_def)
  then have "key_order (key ?m) (key b)" "key_order (key ?m) (key i)"
    using m(2)[OF insertI1] key_order_trans by blast+
  moreover have "key_order (key ?m) (key j)" if "j \<in> set is" for j using m(2) that by blast
  moreover have "?m \<in> insert b (set (i # is))" using m(1) by (cases "key_less (key i) (key b)") auto
  ultimately show ?case unfolding Let_def fold_simps list.set by blast
qed (simp add: key_order_def)

lemma steiner_root_less: "terminals n \<noteq> [] \<Longrightarrow> steiner_root_index n rs < length (terminals n)"
  using fold_least_key[of "steiner_key n rs" "[1..<length (terminals n)]" 0]
  by (auto simp: steiner_root_index_def Let_def)

end
