(* ===== verification/NetConnect.thy ===== *)
theory NetConnect
  imports NetRouting
begin

text \<open>
  The routes of \<open>NetRouting\<close> connect their nets: the invariant of the growing tree, the property that a
  returned route joins the pads of all terminals, and what the failures mean.
\<close>

section \<open>Inputs and searches\<close>

text \<open>Values in the ranges of their types, declared and supported layers.\<close>

definition net_input :: "router \<Rightarrow> net \<Rightarrow> work_budget \<Rightarrow> bool" where
  "net_input r n budget \<longleftrightarrow>
     bend_cost (rules_for_net (board_of r) (net_ident n)) < 2 ^ 32 \<and>
     via_cost (rules_for_net (board_of r) (net_ident n)) < 2 ^ 32 \<and>
     (\<forall>c v. congestion r c = Some v \<longrightarrow> v < 2 ^ 16) \<and>
     (\<forall>l \<in> set (copper_layers (board_of r)). supported_layer l) \<and>
     (\<forall>t \<in> set (terminals n). \<forall>l \<in> set (terminal_layers t). l \<in> set (copper_layers (board_of r))) \<and>
     budget \<le> MAX_ASTAR_WORK_BUDGET"

definition i32_cells :: "cell list \<Rightarrow> bool" where
  "i32_cells cs \<longleftrightarrow> (\<forall>(x, y, l) \<in> set cs. i32_ok x \<and> i32_ok y)"

lemma net_input_search:
  assumes "net_input r n budget" "t \<in> set (terminals n)" "i32_cells tree" "b \<le> budget"
  shows "search_input r t tree (rules_for_net (board_of r) (net_ident n)) b"
  using assms unfolding net_input_def search_input_def i32_cells_def by (auto dest: order.trans)

definition declared_layer :: "board \<Rightarrow> node \<Rightarrow> bool" where
  "declared_layer b m \<longleftrightarrow> (\<exists>l \<in> set (copper_layers b). node_layer m = layer_index l)"

text \<open>What a successful search gives to the tree.\<close>

definition branch_path :: "router \<Rightarrow> nat \<Rightarrow> terminal \<Rightarrow> cell list \<Rightarrow> rules \<Rightarrow> node list \<Rightarrow> bool" where
  "branch_path r k t tree rs nodes \<longleftrightarrow>
     nodes \<noteq> [] \<and> hd nodes \<in> set (terminal_nodes r k t rs) \<and> node_cell (last nodes) \<in> set tree \<and>
     (\<forall>(a, b) \<in> set (windows2 nodes). grid_step a b) \<and> i32_cells (map node_cell nodes) \<and>
     (\<forall>m \<in> set nodes. declared_layer (board_of r) m)"

lemma path_valid:
  "weighted_path (\<lambda>n. set (moves e n)) ns W \<Longrightarrow> valid_node e (hd ns) \<Longrightarrow> good_env e \<Longrightarrow> \<forall>m \<in> set ns. valid_node e m"
proof (induction rule: weighted_path.induct)
  case (step ns W m w)
  have "ns \<noteq> []" using weighted_path_nonempty[OF step.hyps(1)] .
  then show ?case using step move_valid[OF step.hyps(2)] by auto
qed simp

lemma route_path_branch:
  assumes "route_path r k t tree rs nodes cost" and input: "search_input r t tree rs b"
  shows "branch_path r k t tree rs nodes"
proof -
  let ?e = "search_env_for r k t tree rs"
  have path: "weighted_path (\<lambda>n. set (moves ?e n)) nodes cost" "hd nodes \<in> set (terminal_nodes r k t rs)"
    "last nodes \<in> goal_nodes ?e"
    using assms(1) by (auto simp: route_path_def graph_path_def)
  have "\<forall>m \<in> set nodes. valid_node ?e m"
    using path_valid[OF path(1) terminal_nodes_valid[OF input path(2)] search_input_good[OF input]] .
  then have "i32_cells (map node_cell nodes)" "\<forall>m \<in> set nodes. declared_layer (board_of r) m"
    by (auto simp: i32_cells_def node_cell_def valid_node_def declared_layer_def search_env_for_def Let_def)
  moreover have "grid_step a b" if "(a, b) \<in> set (windows2 nodes)" for a b
    using weighted_path_steps[OF path(1) that] move_grid_step by blast
  moreover have "node_cell (last nodes) \<in> set tree"
    using path(3) by (simp add: goal_nodes_def node_cell_def search_env_for_def Let_def)
  ultimately show ?thesis using path(2) weighted_path_nonempty[OF path(1)] by (auto simp: branch_path_def)
qed

lemma astar_reached:
  assumes "astar_to_tree r k t tree rs b = (Reached path cost, s)" "search_input r t tree rs b"
  shows "branch_path r k t tree rs path"
  using astar_outcome[OF assms(2), of k] assms route_path_branch[OF _ assms(2)]
  by (auto simp: outcome_ok_def route_path_def)

lemma astar_budget:
  assumes "astar_to_tree r k t tree rs b = (ending, s)" "search_input r t tree rs b"
  shows "expanded_nodes s + budget_left s \<le> b" "ending \<noteq> Panicked" "ending \<noteq> Endless_Path"
    "ending = Exhausted \<Longrightarrow> budget_left s = 0"
    "ending = No_Path \<Longrightarrow> \<not> route_path r k t tree rs ns W"
  using astar_outcome[OF assms(2), of k] assms by (auto simp: outcome_ok_def route_path_def)

section \<open>A scan of the remaining terminals\<close>

definition no_branch :: "router \<Rightarrow> net \<Rightarrow> rules \<Rightarrow> cell list \<Rightarrow> nat \<Rightarrow> bool" where
  "no_branch r n rs tree i \<longleftrightarrow> (\<nexists>ns W. route_path r (net_ident n) (terminals n ! i) tree rs ns W)"

definition scan_inv :: "router \<Rightarrow> net \<Rightarrow> rules \<Rightarrow> cell list \<Rightarrow> nat \<Rightarrow> nat set \<Rightarrow> scan \<Rightarrow> bool" where
  "scan_inv r n rs tree units done_set st \<longleftrightarrow>
     scan_expanded st + scan_budget st \<le> units \<and>
     (best_candidate st = None \<longrightarrow> (\<forall>i \<in> done_set. no_branch r n rs tree i)) \<and>
     (\<forall>c x y i nodes. best_candidate st = Some (c, x, y, i, nodes) \<longrightarrow>
        i \<in> done_set \<and> branch_path r (net_ident n) (terminals n ! i) tree rs nodes)"

lemma scan_terminal_inv:
  assumes inv: "scan_inv r n rs tree units D st" and i: "i < length (terminals n)"
    and rs: "rs = rules_for_net (board_of r) (net_ident n)"
    and input: "net_input r n units" and tree: "i32_cells tree"
  shows "scan_terminal r n rs tree i st = Inr st' \<Longrightarrow> scan_inv r n rs tree units (insert i D) st'"
    and "scan_terminal r n rs tree i st = Inl out \<Longrightarrow>
      \<exists>x B. out = (Net_Failed x B True, 0) \<and> x \<le> units"
proof -
  let ?t = "terminals n ! i"
  obtain ending s where a: "astar_to_tree r (net_ident n) ?t tree rs (scan_budget st) = (ending, s)"
    by (cases "astar_to_tree r (net_ident n) ?t tree rs (scan_budget st)")
  have "scan_budget st \<le> units" using inv by (simp add: scan_inv_def)
  then have si: "search_input r ?t tree rs (scan_budget st)"
    unfolding rs using net_input_search[OF input _ tree, of ?t] i by simp
  note budget = astar_budget[OF a si]
  have sum: "scan_expanded st + expanded_nodes s + budget_left s \<le> units"
    using budget(1) inv by (simp add: scan_inv_def)
  note unfold = scan_terminal_def[of r n rs tree i st, unfolded Let_def a prod.case]
  show "scan_inv r n rs tree units (insert i D) st'" if "scan_terminal r n rs tree i st = Inr st'"
  proof (cases ending)
    case (Reached path cost)
    have "branch_path r (net_ident n) ?t tree rs path" using astar_reached a si Reached by blast
    then show ?thesis
      using that inv sum unfolding unfold Reached scan_inv_def by (auto split: option.splits if_splits)
  next
    case No_Path
    then have "no_branch r n rs tree i" using budget(5) by (simp add: no_branch_def)
    then show ?thesis using that inv sum unfolding unfold No_Path scan_inv_def by auto
  qed (use that budget in \<open>auto simp: unfold\<close>)
  show "\<exists>x B. out = (Net_Failed x B True, 0) \<and> x \<le> units" if "scan_terminal r n rs tree i st = Inl out"
    using that budget sum unfolding unfold by (cases ending) auto
qed

lemma scan_fold_inv:
  assumes rs: "rs = rules_for_net (board_of r) (net_ident n)" and input: "net_input r n units" and tree: "i32_cells tree"
    and "\<forall>i \<in> set is. i < length (terminals n)" and "scan_inv r n rs tree units D st"
  shows "fold_result (scan_terminal r n rs tree) is st = Inr st' \<Longrightarrow> scan_inv r n rs tree units (set is \<union> D) st'"
    and "fold_result (scan_terminal r n rs tree) is st = Inl out \<Longrightarrow>
      \<exists>x B. out = (Net_Failed x B True, 0) \<and> x \<le> units"
  using assms(4,5)
proof (induction "is" arbitrary: D st)
  case (Cons i "is")
  { case 1
    then obtain st1 where st1: "scan_terminal r n rs tree i st = Inr st1"
      "fold_result (scan_terminal r n rs tree) is st1 = Inr st'" by (auto simp: bind_result_Inr)
    have "scan_inv r n rs tree units (insert i D) st1"
      using scan_terminal_inv(1)[OF 1(3) _ rs input tree st1(1)] 1(2) by simp
    then have "scan_inv r n rs tree units (set is \<union> insert i D) st'"
      by (intro Cons.IH(1)[OF st1(2)]) (use 1(2) in simp_all)
    then show ?case by simp }
  { case 2
    show ?case
    proof (cases "scan_terminal r n rs tree i st")
      case (Inl e)
      then show ?thesis using scan_terminal_inv(2)[OF 2(3) _ rs input tree, of i out] 2(1,2) by simp
    next
      case (Inr st1)
      then have "scan_inv r n rs tree units (insert i D) st1"
        using scan_terminal_inv(1)[OF 2(3) _ rs input tree Inr] 2(2) by simp
      then show ?thesis using Cons.IH(2)[of st1] 2(1,2) Inr by simp
    qed }
qed auto

section \<open>A branch\<close>

lemma layer_of_declared:
  assumes "declared_layer b m" "\<forall>l \<in> set (copper_layers b). supported_layer l"
  obtains l where "l \<in> set (copper_layers b)" "layer_from_index (node_layer m) = Some l"
  using assms layer_index_inverse unfolding declared_layer_def by metis

lemma declared_index:
  assumes "declared_layer b m" "\<forall>l \<in> set (copper_layers b). supported_layer l"
  shows "\<exists>l \<in> set (copper_layers b). layer_from_index (node_layer m) = Some l"
  using layer_of_declared[OF assms] by metis

lemma push_segment_total:
  assumes "declared_layer b m" "\<forall>l \<in> set (copper_layers b). supported_layer l"
  shows "\<exists>rt'. push_segment rt m q g w = Some rt'"
proof -
  obtain l where "layer_from_index (node_layer m) = Some l" using declared_index[OF assms] by blast
  then show ?thesis by (simp add: push_segment_def)
qed

lemma push_via_total:
  assumes "declared_layer b p" "declared_layer b q" "\<forall>l \<in> set (copper_layers b). supported_layer l"
  shows "\<exists>rt'. push_via rt p q rs b = Some rt'"
proof -
  obtain l m where "l \<in> set (copper_layers b)" "layer_from_index (node_layer p) = Some l"
    "m \<in> set (copper_layers b)" "layer_from_index (node_layer q) = Some m"
    using declared_index[OF assms(1,3)] declared_index[OF assms(2,3)] by blast
  then show ?thesis using via_choice[of l b m] by (auto simp: push_via_def)
qed

lemma append_path_loop_total:
  assumes "\<forall>m \<in> insert start (set (p # nodes)). declared_layer bd m" "\<forall>l \<in> set (copper_layers bd). supported_layer l"
  shows "\<exists>rt' start'. append_path_loop rs bd (windows2 (p # nodes)) start final rt = Some (rt', start') \<and> declared_layer bd start'"
  using assms(1)
proof (induction nodes arbitrary: p start final rt)
  case (Cons q nodes)
  let ?P = "\<lambda>x. \<exists>rt' start'. x = Some (rt', start') \<and> declared_layer bd start'"
  have d: "declared_layer bd start" "declared_layer bd p" "declared_layer bd q" using Cons.prems by simp_all
  have IH: "?P (append_path_loop rs bd (windows2 (q # nodes)) s f rt2)" if "declared_layer bd s" for s f rt2
    using Cons.prems that by (intro Cons.IH) simp
  obtain rt1 where rt1: "push_segment rt start p (grid_nm rs) (track_width_nm rs) = Some rt1"
    using push_segment_total[OF d(1) assms(2)] by blast
  obtain rt2 where rt2: "push_via (if start \<noteq> p then rt1 else rt) p q rs bd = Some rt2"
    using push_via_total[OF d(2,3) assms(2)] by blast
  show ?case
  proof (cases "node_layer p = node_layer q")
    case False
    have "append_path_loop rs bd (windows2 (p # q # nodes)) start final rt = append_path_loop rs bd (windows2 (q # nodes)) q q rt2"
      using False rt1 rt2 by (cases "start = p") simp_all
    then show ?thesis using IH[OF d(3)] by simp
  next
    case True
    have "append_path_loop rs bd (windows2 (p # q # nodes)) start final rt \<in>
        {append_path_loop rs bd (windows2 (q # nodes)) p q rt1, append_path_loop rs bd (windows2 (q # nodes)) start q rt}"
      using True rt1 by (simp add: Let_def)
    then show ?thesis using IH[OF d(2)] IH[OF d(1)] by auto
  qed
qed (use assms in auto)

lemma append_path_total:
  assumes "\<forall>m \<in> set nodes. declared_layer bd m" "\<forall>l \<in> set (copper_layers bd). supported_layer l"
  shows "\<exists>rt'. append_path rt nodes rs bd = Some rt'"
proof (cases "length nodes < 2")
  case False
  then obtain p q qs where nodes: "nodes = p # q # qs" by (cases nodes; cases "tl nodes") auto
  obtain rt1 start where loop: "append_path_loop rs bd (windows2 nodes) p p rt = Some (rt1, start)" "declared_layer bd start"
    using append_path_loop_total[of p p "q # qs" bd rs p rt] assms unfolding nodes by auto
  obtain rt2 where "push_segment rt1 start (last nodes) (grid_nm rs) (track_width_nm rs) = Some rt2"
    using push_segment_total[OF loop(2) assms(2)] by blast
  moreover have "hd nodes = p" by (simp add: nodes)
  ultimately show ?thesis using loop(1) False by (cases "start = last nodes") (simp_all add: append_path_def)
qed (simp add: append_path_def)

lemma access_total:
  assumes "declared_layer b m" "\<forall>l \<in> set (copper_layers b). supported_layer l"
  shows "\<exists>rt'. append_terminal_access rt t m rs tf = Some rt'"
proof -
  obtain l where "layer_from_index (node_layer m) = Some l" using declared_index[OF assms] by blast
  then show ?thesis by (simp add: append_terminal_access_def Let_def)
qed

lemma add_branch_total:
  assumes "branch_path r k t tree rs nodes" "\<forall>l \<in> set (copper_layers (board_of r)). supported_layer l"
  shows "\<exists>rt'. add_branch r rs root_terminal t nodes done rt = Some rt'"
proof -
  have d: "\<forall>m \<in> set nodes. declared_layer (board_of r) m" "nodes \<noteq> []" using assms(1) by (auto simp: branch_path_def)
  then have ends: "declared_layer (board_of r) (hd nodes)" "declared_layer (board_of r) (last nodes)" by simp_all
  obtain rt1 where rt1: "append_terminal_access rt (position_nm t) (hd nodes) rs True = Some rt1"
    using access_total[OF ends(1) assms(2)] by blast
  obtain rt2 where rt2: "append_path rt1 nodes rs (board_of r) = Some rt2"
    using append_path_total[OF d(1) assms(2)] by blast
  obtain rt3 where "append_terminal_access rt2 (position_nm root_terminal) (last nodes) rs False = Some rt3"
    using access_total[OF ends(2) assms(2)] by blast
  then show ?thesis using rt1 rt2 by (cases "done") (simp_all add: add_branch_def)
qed

section \<open>What is connected\<close>

text \<open>The copper of the route, and the pads of the terminals, which join their layers.\<close>

definition pad_spots :: "terminal \<Rightarrow> spot set" where
  "pad_spots t = {(position_nm t, l) |l. l \<in> set (terminal_layers t)}"

definition wiring :: "net \<Rightarrow> route \<Rightarrow> spot rel" where
  "wiring n rt = joined rt \<union> (\<Union>t \<in> set (terminals n). pad_spots t \<times> pad_spots t)"

lemma wiring_sym: "sym (wiring n rt)"
  unfolding wiring_def by (intro sym_Un joined_sym) (auto simp: sym_def)

lemma wiring_mono: "joined rt \<subseteq> joined rt' \<Longrightarrow> wiring n rt \<subseteq> wiring n rt'"
  by (auto simp: wiring_def)

lemma wiring_joined: "wired (joined rt) p q \<Longrightarrow> wired (wiring n rt) p q"
  by (rule wired_mono) (auto simp: wiring_def)

lemma wiring_pad:
  "t \<in> set (terminals n) \<Longrightarrow> p \<in> pad_spots t \<Longrightarrow> q \<in> pad_spots t \<Longrightarrow> wired (wiring n rt) p q"
  unfolding wired_def by (rule r_into_rtrancl) (auto simp: wiring_def)

text \<open>The terminal is a grid point, or the net reaches it on one layer only. Otherwise the access to its
  position is laid on the first layer used, and copper that a later branch ends on another layer
  beside the pad is not connected.\<close>

definition anchored :: "router \<Rightarrow> nat \<Rightarrow> rules \<Rightarrow> terminal \<Rightarrow> bool" where
  "anchored r k rs t \<longleftrightarrow>
     (\<forall>m \<in> set (terminal_nodes r k t rs). node_point (grid_nm rs) m = position_nm t) \<or>
     length (terminal_nodes r k t rs) \<le> 1"

lemma terminal_node_layer:
  assumes "m \<in> set (terminal_nodes r k t rs)" "\<forall>l \<in> set (terminal_layers t). supported_layer l"
  shows "\<exists>l \<in> set (terminal_layers t). layer_from_index (node_layer m) = Some l"
  using assms by (auto simp: terminal_nodes_def Let_def layer_index_inverse)

lemma anchored_cells:
  assumes "anchored r k rs t" "t \<in> set (terminals n)" "\<forall>l \<in> set (terminal_layers t). supported_layer l"
    and "m \<in> set (terminal_nodes r k t rs)" "m' \<in> set (terminal_nodes r k t rs)"
  shows "wired (wiring n rt) (cell_spot (grid_nm rs) (node_cell m)) (cell_spot (grid_nm rs) (node_cell m'))"
  using assms(1) unfolding anchored_def
proof
  assume on: "\<forall>m \<in> set (terminal_nodes r k t rs). node_point (grid_nm rs) m = position_nm t"
  have "cell_spot (grid_nm rs) (node_cell x) \<in> pad_spots t" if x: "x \<in> set (terminal_nodes r k t rs)" for x
  proof -
    have "node_point (grid_nm rs) x = position_nm t" using on x by blast
    moreover obtain l where "l \<in> set (terminal_layers t)" "layer_from_index (node_layer x) = Some l"
      using terminal_node_layer[OF x assms(3)] by blast
    ultimately show ?thesis by (simp add: cell_spot_def node_point_cell pad_spots_def) (simp add: node_cell_def)
  qed
  then show ?thesis using wiring_pad[OF assms(2)] assms(4,5) by blast
next
  assume "length (terminal_nodes r k t rs) \<le> 1"
  then have "m = m'" using assms(4,5) by (cases "terminal_nodes r k t rs") auto
  then show ?thesis by (simp add: wired_refl)
qed

lemma path_wired:
  assumes "append_path rt nodes rs bd = Some rt'" and "branch_path r k t tree rs nodes" and "m \<in> set nodes"
  shows "joined rt \<subseteq> joined rt'"
    and "wired (joined rt') (cell_spot (grid_nm rs) (node_cell (hd nodes))) (cell_spot (grid_nm rs) (node_cell m))"
proof -
  have nodes: "nodes \<noteq> []" "\<forall>(a, b) \<in> set (windows2 nodes). grid_step a b" using assms(2) by (simp_all add: branch_path_def)
  obtain ps where ps: "emit_pieces rs bd ps rt = Some rt'" and spells: "spells nodes ps"
    using append_path_pieces[OF assms(1) nodes] by blast
  show "joined rt \<subseteq> joined rt'" using emit_pieces_grows[OF ps] .
  have "node_cell m \<in> set (map node_cell nodes)" using assms(3) by simp
  then have "node_cell m \<in> insert (node_cell (hd nodes)) (set (concat (map piece_cells ps)))"
    unfolding spells[unfolded spells_def, THEN conjunct2, THEN conjunct2, symmetric] by simp
  then show "wired (joined rt') (cell_spot (grid_nm rs) (node_cell (hd nodes))) (cell_spot (grid_nm rs) (node_cell m))"
    using chained_connects[OF ps] spells unfolding spells_def by blast
qed

lemma access_spot:
  assumes "append_terminal_access rt p m rs tf = Some rt'" "layer_from_index (node_layer m) = Some l"
  shows "joined rt \<subseteq> joined rt'" "wired (joined rt') (p, l) (cell_spot (grid_nm rs) (node_cell m))"
proof -
  have "(node_point (grid_nm rs) m, l) = cell_spot (grid_nm rs) (node_cell m)"
    using assms(2) by (simp add: cell_spot_def node_point_cell) (simp add: node_cell_def)
  then show "joined rt \<subseteq> joined rt'" "wired (joined rt') (p, l) (cell_spot (grid_nm rs) (node_cell m))"
    using access_joins[OF assms] by simp_all
qed

lemma branch_wired:
  assumes add: "add_branch r rs root_terminal t nodes root_done rt = Some rt'"
    and path: "branch_path r (net_ident n) t tree rs nodes"
    and layers: "\<forall>l \<in> set (terminal_layers t). supported_layer l" "layer_from_index (node_layer (last nodes)) \<noteq> None"
  shows "joined rt \<subseteq> joined rt'"
    and "m \<in> set nodes \<Longrightarrow> wired (wiring n rt') (cell_spot (grid_nm rs) (node_cell (hd nodes))) (cell_spot (grid_nm rs) (node_cell m))"
    and "\<exists>p \<in> pad_spots t. wired (wiring n rt') p (cell_spot (grid_nm rs) (node_cell (hd nodes)))"
    and "\<not> root_done \<Longrightarrow> layer_from_index (node_layer (last nodes)) = Some l \<Longrightarrow>
      wired (wiring n rt') (position_nm root_terminal, l) (cell_spot (grid_nm rs) (node_cell (last nodes)))"
proof -
  obtain rt1 rt2 where steps: "append_terminal_access rt (position_nm t) (hd nodes) rs True = Some rt1"
    "append_path rt1 nodes rs (board_of r) = Some rt2"
    "if root_done then rt2 = rt' else append_terminal_access rt2 (position_nm root_terminal) (last nodes) rs False = Some rt'"
    using add by (auto simp: add_branch_def bind_eq_Some_conv split: if_splits)
  have ends: "hd nodes \<in> set (terminal_nodes r (net_ident n) t rs)" "hd nodes \<in> set nodes"
    using path by (simp_all add: branch_path_def)
  obtain k where k: "k \<in> set (terminal_layers t)" "layer_from_index (node_layer (hd nodes)) = Some k"
    using terminal_node_layer[OF ends(1) layers(1)] by blast
  obtain j where j: "layer_from_index (node_layer (last nodes)) = Some j" using layers(2) by blast
  note first = access_spot[OF steps(1) k(2)]
  note middle = path_wired[OF steps(2) path ends(2)]
  have last: "joined rt2 \<subseteq> joined rt'" using steps(3) access_spot(1)[OF _ j] by (cases root_done) auto
  show grows: "joined rt \<subseteq> joined rt'" using first(1) middle(1) last by blast
  show "wired (wiring n rt') (cell_spot (grid_nm rs) (node_cell (hd nodes))) (cell_spot (grid_nm rs) (node_cell m))"
    if "m \<in> set nodes"
    using path_wired(2)[OF steps(2) path that] last wiring_joined wired_mono by blast
  have "wired (wiring n rt') (position_nm t, k) (cell_spot (grid_nm rs) (node_cell (hd nodes)))"
    using first(2) middle(1) last wiring_joined wired_mono by (meson order.trans)
  then show "\<exists>p \<in> pad_spots t. wired (wiring n rt') p (cell_spot (grid_nm rs) (node_cell (hd nodes)))"
    using k(1) unfolding pad_spots_def by blast
  show "wired (wiring n rt') (position_nm root_terminal, l) (cell_spot (grid_nm rs) (node_cell (last nodes)))"
    if "\<not> root_done" "layer_from_index (node_layer (last nodes)) = Some l"
    using access_spot(2)[OF _ that(2), of rt2 "position_nm root_terminal" rs False rt'] steps(3) that(1) wiring_joined by simp
qed

section \<open>The growing tree\<close>

abbreviation spot_of :: "rules \<Rightarrow> cell \<Rightarrow> spot" where
  "spot_of rs \<equiv> cell_spot (grid_nm rs)"

definition attached :: "net \<Rightarrow> rules \<Rightarrow> growth \<Rightarrow> terminal \<Rightarrow> bool" where
  "attached n rs g t \<longleftrightarrow>
     (\<exists>p \<in> pad_spots t. \<exists>c \<in> set (tree_cells g). wired (wiring n (grown g)) p (spot_of rs c))"

definition tree_wired :: "net \<Rightarrow> rules \<Rightarrow> growth \<Rightarrow> bool" where
  "tree_wired n rs g \<longleftrightarrow>
     (\<forall>c \<in> set (tree_cells g). \<forall>d \<in> set (tree_cells g). wired (wiring n (grown g)) (spot_of rs c) (spot_of rs d))"

definition growth_inv :: "router \<Rightarrow> net \<Rightarrow> rules \<Rightarrow> nat \<Rightarrow> nat \<Rightarrow> growth \<Rightarrow> bool" where
  "growth_inv r n rs k units g \<longleftrightarrow>
     growth_expanded g + growth_budget g \<le> units \<and> i32_cells (tree_cells g) \<and> tree_cells g \<noteq> [] \<and>
     set (to_do g) \<subseteq> {..<length (terminals n)} - {k} \<and>
     set (terminal_cells r (net_ident n) (terminals n ! k) rs) \<subseteq> set (tree_cells g) \<and>
     (\<not> root_access_added g \<longrightarrow>
        tree_cells g = terminal_cells r (net_ident n) (terminals n ! k) rs \<and>
        set (to_do g) = {..<length (terminals n)} - {k})"

definition connected_inv :: "net \<Rightarrow> rules \<Rightarrow> nat \<Rightarrow> growth \<Rightarrow> bool" where
  "connected_inv n rs k g \<longleftrightarrow>
     tree_wired n rs g \<and>
     (root_access_added g \<longrightarrow> (\<forall>i < length (terminals n). i \<notin> set (to_do g) \<longrightarrow> attached n rs g (terminals n ! i)))"

lemma terminal_cells_i32: "i32_cells (terminal_cells r k t rs)"
  by (auto simp: i32_cells_def terminal_cells_def terminal_nodes_def node_cell_def Let_def wrap_i32_ok)

lemma net_input_layers:
  assumes "net_input r n budget" "t \<in> set (terminals n)"
  shows "\<forall>l \<in> set (terminal_layers t). supported_layer l" "\<forall>l \<in> set (copper_layers (board_of r)). supported_layer l"
  using assms by (auto simp: net_input_def)

text \<open>A round: what its ending says, and that it keeps the invariant of the budget and the indices.\<close>

lemma round_scan:
  assumes inv: "growth_inv r n rs k units g" and input: "net_input r n units"
    and rs: "rs = rules_for_net (board_of r) (net_ident n)"
  shows "fold_result (scan_terminal r n rs (tree_cells g)) (to_do g) (scan_start g) = Inr st \<Longrightarrow>
      scan_inv r n rs (tree_cells g) units (set (to_do g)) st"
    and "fold_result (scan_terminal r n rs (tree_cells g)) (to_do g) (scan_start g) = Inl out \<Longrightarrow>
      \<exists>x B. out = (Net_Failed x B True, 0) \<and> x \<le> units"
proof -
  have "i32_cells (tree_cells g)" "\<forall>i \<in> set (to_do g). i < length (terminals n)"
    "scan_inv r n rs (tree_cells g) units {} (scan_start g)"
    using inv by (auto simp: growth_inv_def scan_inv_def)
  note facts = scan_fold_inv[OF rs input this(1,2,3)]
  show "scan_inv r n rs (tree_cells g) units (set (to_do g)) st"
    if "fold_result (scan_terminal r n rs (tree_cells g)) (to_do g) (scan_start g) = Inr st"
    using facts(1)[OF that] by simp
  show "\<exists>x B. out = (Net_Failed x B True, 0) \<and> x \<le> units"
    if "fold_result (scan_terminal r n rs (tree_cells g)) (to_do g) (scan_start g) = Inl out"
    using facts(2)[OF that] .
qed

lemma round_chosen:
  assumes inv: "growth_inv r n rs k units g" and input: "net_input r n units"
    and rs: "rs = rules_for_net (board_of r) (net_ident n)"
    and st: "fold_result (scan_terminal r n rs (tree_cells g)) (to_do g) (scan_start g) = Inr st"
      "best_candidate st = Some (cost, x, y, i, nodes)"
  shows "i \<in> set (to_do g)" "i < length (terminals n)" "i \<noteq> k"
    "branch_path r (net_ident n) (terminals n ! i) (tree_cells g) rs nodes" "scan_expanded st + scan_budget st \<le> units"
proof -
  note s = round_scan(1)[OF inv input rs st(1)]
  show "i \<in> set (to_do g)" "branch_path r (net_ident n) (terminals n ! i) (tree_cells g) rs nodes"
    "scan_expanded st + scan_budget st \<le> units"
    using s st(2) by (simp_all add: scan_inv_def)
  then show "i < length (terminals n)" "i \<noteq> k" using inv by (auto simp: growth_inv_def)
qed

lemma round_keeps_growth:
  assumes inv: "growth_inv r n rs k units g" and input: "net_input r n units"
    and rs: "rs = rules_for_net (board_of r) (net_ident n)"
    and "grow_round r n rs (terminals n ! k) g = Inr g'"
  shows "growth_inv r n rs k units g'"
  using assms(4)
proof (cases rule: grow_round_Inr)
  case (1 st cost x y i nodes rt)
  note chosen = round_chosen[OF inv input rs 1(1,2)]
  have "i32_cells (map node_cell nodes)" using chosen(4) by (simp add: branch_path_def)
  then have "i32_cells (tree_cells g')"
    using inv terminal_cells_i32[of r "net_ident n" "terminals n ! i" rs] unfolding 1(4) growth_inv_def i32_cells_def by auto
  then show ?thesis using inv chosen(5) unfolding growth_inv_def 1(4) by auto
qed

lemma round_fails:
  assumes inv: "growth_inv r n rs k units g" and input: "net_input r n units"
    and rs: "rs = rules_for_net (board_of r) (net_ident n)"
    and failed: "grow_round r n rs (terminals n ! k) g = Inl (ending, left)"
  shows "(\<exists>x B. ending = Net_Failed x B True \<and> left = 0 \<and> x \<le> units) \<or>
    (\<exists>x B. ending = Net_Failed x B False \<and> x + left \<le> units \<and> (\<forall>i \<in> set (to_do g). no_branch r n rs (tree_cells g) i))"
proof (cases "fold_result (scan_terminal r n rs (tree_cells g)) (to_do g) (scan_start g)")
  case (Inl out)
  then show ?thesis using round_scan(2)[OF inv input rs Inl] failed by (auto simp: grow_round_def)
next
  case (Inr st)
  show ?thesis
  proof (cases "best_candidate st")
    case None
    have "scan_inv r n rs (tree_cells g) units (set (to_do g)) st" using round_scan(1)[OF inv input rs Inr] .
    then show ?thesis using failed Inr None by (auto simp: grow_round_def scan_inv_def)
  next
    case (Some b)
    obtain cost x y i nodes where b: "b = (cost, x, y, i, nodes)" by (rule prod_cases5)
    note chosen = round_chosen[OF inv input rs Inr Some[unfolded b]]
    have "\<exists>rt. add_branch r rs (terminals n ! k) (terminals n ! i) nodes (root_access_added g) (grown g) = Some rt"
      using add_branch_total[OF chosen(4)] input by (simp add: net_input_def)
    then show ?thesis using failed Inr Some b by (auto simp: grow_round_def)
  qed
qed

lemma wired_star:
  assumes "\<And>c. c \<in> C \<Longrightarrow> wired (wiring n rt) hub (f c)"
  shows "\<forall>c \<in> C. \<forall>d \<in> C. wired (wiring n rt) (f c) (f d)"
proof (intro ballI)
  fix c d assume "c \<in> C" "d \<in> C"
  then show "wired (wiring n rt) (f c) (f d)"
    using wired_trans[OF wired_sym[OF wiring_sym assms[of c]] assms[of d]] by simp
qed

lemma attached_mono:
  assumes "attached n rs g t" "joined (grown g) \<subseteq> joined (grown g')" "set (tree_cells g) \<subseteq> set (tree_cells g')"
  shows "attached n rs g' t"
  using assms(1,3) wired_mono[OF wiring_mono[OF assms(2)]] unfolding attached_def by blast

lemma round_keeps_connected:
  assumes inv: "growth_inv r n rs k units g" and input: "net_input r n units"
    and rs: "rs = rules_for_net (board_of r) (net_ident n)" and k: "k < length (terminals n)"
    and anchors: "\<forall>t \<in> set (terminals n). anchored r (net_ident n) rs t"
    and conn: "connected_inv n rs k g"
    and step: "grow_round r n rs (terminals n ! k) g = Inr g'"
  shows "connected_inv n rs k g'"
  using step
proof (cases rule: grow_round_Inr)
  case (1 st cost x y i nodes rt)
  note chosen = round_chosen[OF inv input rs 1(1,2)]
  let ?t = "terminals n ! i" and ?hub = "spot_of rs (node_cell (hd nodes))"
  have t: "?t \<in> set (terminals n)" using chosen(2) by simp
  note layers = net_input_layers[OF input t]
  have path: "nodes \<noteq> []" "hd nodes \<in> set (terminal_nodes r (net_ident n) ?t rs)" "node_cell (last nodes) \<in> set (tree_cells g)"
    "declared_layer (board_of r) (last nodes)"
    using chosen(4) by (simp_all add: branch_path_def)
  obtain l where l: "layer_from_index (node_layer (last nodes)) = Some l" using declared_index[OF path(4) layers(2)] by blast
  have "layer_from_index (node_layer (last nodes)) \<noteq> None" by (simp add: l)
  note wires = branch_wired[OF 1(3) chosen(4) layers(1) this]
  have g': "grown g' = rt" "set (tree_cells g') = set (tree_cells g) \<union> node_cell ` set nodes \<union> set (terminal_cells r (net_ident n) ?t rs)"
    "set (to_do g') = set (to_do g) - {i}" "root_access_added g'"
    unfolding 1(4) by auto
  have old: "wired (wiring n rt) (spot_of rs c) (spot_of rs d)" if "c \<in> set (tree_cells g)" "d \<in> set (tree_cells g)" for c d
    using conn that wired_mono[OF wiring_mono[OF wires(1)]] unfolding connected_inv_def tree_wired_def by blast
  have "wired (wiring n rt) ?hub (spot_of rs c)" if c: "c \<in> set (tree_cells g')" for c
    using c unfolding g'(2)
  proof (elim UnE)
    assume "c \<in> set (tree_cells g)"
    then show ?thesis using wires(2)[of "last nodes"] path(1) old[OF path(3)] wired_trans by fastforce
  next
    assume "c \<in> node_cell ` set nodes"
    then show ?thesis using wires(2) by blast
  next
    assume "c \<in> set (terminal_cells r (net_ident n) ?t rs)"
    then obtain m where "c = node_cell m" "m \<in> set (terminal_nodes r (net_ident n) ?t rs)"
      unfolding terminal_cells_def by auto
    then show ?thesis using anchored_cells[OF _ t layers(1) path(2)] anchors t by blast
  qed
  then have tree: "tree_wired n rs g'" unfolding tree_wired_def g'(1) by (rule wired_star)
  have "attached n rs g' (terminals n ! j)" if j: "j < length (terminals n)" "j \<notin> set (to_do g')" for j
  proof (cases "j = i")
    case True
    have "node_cell (hd nodes) \<in> set (tree_cells g')" unfolding g'(2) using path(1) by simp
    then show ?thesis using wires(3) unfolding attached_def g'(1) True by blast
  next
    case other: False
    then have todo: "j \<notin> set (to_do g)" using j(2) g'(3) by simp
    show ?thesis
    proof (cases "root_access_added g")
      case True
      then have "attached n rs g (terminals n ! j)" using conn j(1) todo unfolding connected_inv_def by blast
      then show ?thesis by (rule attached_mono) (use wires(1) g'(1,2) in auto)
    next
      case False
      then have start: "tree_cells g = terminal_cells r (net_ident n) (terminals n ! k) rs" "j = k"
        using inv todo j(1) unfolding growth_inv_def by auto
      have root_terminal: "terminals n ! k \<in> set (terminals n)" using k by simp
      obtain m where m: "m \<in> set (terminal_nodes r (net_ident n) (terminals n ! k) rs)" "node_cell m = node_cell (last nodes)"
        using path(3) unfolding start(1) terminal_cells_def by auto
      then have "node_layer m = node_layer (last nodes)" by (simp add: node_cell_def)
      then have "l \<in> set (terminal_layers (terminals n ! k))"
        using terminal_node_layer[OF m(1) net_input_layers(1)[OF input root_terminal]] l by auto
      then have "(position_nm (terminals n ! k), l) \<in> pad_spots (terminals n ! k)" by (simp add: pad_spots_def)
      moreover have "node_cell (last nodes) \<in> set (tree_cells g')" using path(3) g'(2) by simp
      ultimately show ?thesis
        using wires(4)[OF False l] unfolding attached_def g'(1) start(2) by blast
    qed
  qed
  then show ?thesis using tree g'(4) unfolding connected_inv_def by blast
qed

section \<open>All rounds\<close>

definition all_wired :: "net \<Rightarrow> route \<Rightarrow> bool" where
  "all_wired n rt \<longleftrightarrow>
     (\<forall>t \<in> set (terminals n). \<forall>u \<in> set (terminals n). \<forall>p \<in> pad_spots t. \<forall>q \<in> pad_spots u. wired (wiring n rt) p q)"

lemma attached_all:
  assumes "tree_wired n rs g" and "\<forall>t \<in> set (terminals n). attached n rs g t"
  shows "all_wired n (grown g)"
  unfolding all_wired_def
proof (intro ballI)
  fix t u p q assume t: "t \<in> set (terminals n)" "p \<in> pad_spots t" and u: "u \<in> set (terminals n)" "q \<in> pad_spots u"
  obtain p' c q' d where "p' \<in> pad_spots t" "c \<in> set (tree_cells g)" "wired (wiring n (grown g)) p' (spot_of rs c)"
    "q' \<in> pad_spots u" "d \<in> set (tree_cells g)" "wired (wiring n (grown g)) q' (spot_of rs d)"
    using assms(2) t u unfolding attached_def by metis
  moreover from this have "wired (wiring n (grown g)) (spot_of rs c) (spot_of rs d)" using assms(1) unfolding tree_wired_def by blast
  ultimately show "wired (wiring n (grown g)) p q"
    using wiring_pad[OF t(1) t(2)] wiring_pad[OF u(1) _ u(2)] wired_sym[OF wiring_sym] wired_trans by metis
qed

text \<open>Fewer goals allow fewer moves and fewer paths.\<close>

lemma fewer_goals_moves:
  assumes "set goals \<subseteq> set wider" and "(m, w) \<in> set (moves (search_env_for r k t goals rs) p)"
  shows "(m, w) \<in> set (moves (search_env_for r k t wider rs) p)"
proof -
  let ?e = "search_env_for r k t goals rs" and ?f = "search_env_for r k t wider rs"
  have same: "env_router ?f = env_router ?e" "env_net ?f = env_net ?e" "env_rules ?f = env_rules ?e"
    "min_track_cell ?f = min_track_cell ?e" "max_x ?f = max_x ?e" "max_y ?f = max_y ?e"
    by (simp_all add: search_env_for_def Let_def)
  have clear: "clear_cell ?f = clear_cell ?e" by (simp add: fun_eq_iff clear_cell_def same)
  have "search_via ?f p = search_via ?e p" "column_cells ?f p = column_cells ?e p"
    unfolding fun_eq_iff search_via_def column_cells_def same by simp_all
  then have vias: "via_inside_board ?f p = via_inside_board ?e p" "via_target ?f p = via_target ?e p"
    unfolding fun_eq_iff via_inside_board_def via_target_def same clear by simp_all
  have endpoint: "endpoint_cell ?e c \<Longrightarrow> endpoint_cell ?f c" for c
    using assms(1) by (auto simp: endpoint_cell_def search_env_for_def Let_def)
  have "track_target ?f p i = Some (m, w)" if t: "track_target ?e p i = Some (m, w)" for i
  proof -
    obtain dx dy where d: "DIRS ! ((i + search_variant (env_router ?e)) mod 8) = (dx, dy)"
      by (cases "DIRS ! ((i + search_variant (env_router ?e)) mod 8)")
    let ?x = "node_x p + dx" and ?y = "node_y p + dy" and ?l = "node_layer p"
    have cost: "track_cost ?f = track_cost ?e" unfolding fun_eq_iff track_cost_def same by simp
    note unfolded = track_target_def[of ?e] track_target_def[of ?f] cost same clear Let_def d prod.case
    have inside: "\<not> (?x < min_track_cell ?e \<or> ?y < min_track_cell ?e \<or> ?x > max_x ?e \<or> ?y > max_y ?e)"
      using t unfolding unfolded by (meson option.distinct(1))
    have free: "endpoint_cell ?e (?x, ?y, ?l) \<or> (clear_cell ?e (?x, ?y, ?l) \<and> (?x, ?y, ?l) \<notin> occupied (env_router ?e))"
      using t unfolding unfolded by (auto split: if_split_asm)
    have corner: "\<not> (dx \<noteq> 0 \<and> dy \<noteq> 0 \<and> (\<not> clear_cell ?e (?x, node_y p, ?l) \<or> \<not> clear_cell ?e (node_x p, ?y, ?l)))"
      using t unfolding unfolded by (auto split: if_split_asm)
    have "track_target ?f p i = track_target ?e p i"
      unfolding unfolded if_not_P[OF inside] if_not_P[OF corner] using free endpoint by auto
    then show ?thesis using t by simp
  qed
  then show ?thesis using assms(2) unfolding set_moves same vias by blast
qed

lemma weighted_path_more:
  "weighted_path succ ns W \<Longrightarrow> (\<And>p. succ p \<subseteq> succ' p) \<Longrightarrow> weighted_path succ' ns W"
  by (induction rule: weighted_path.induct) (auto intro: weighted_path.intros)

lemma no_branch_smaller:
  assumes "no_branch r n rs wider i" "set goals \<subseteq> set wider"
  shows "no_branch r n rs goals i"
proof -
  have "route_path r k t wider rs ns W" if "route_path r k t goals rs ns W" for k t ns W
    using that assms(2) fewer_goals_moves[OF assms(2)] unfolding route_path_def graph_path_def
    by (auto intro: weighted_path_more simp: goal_nodes_def search_env_for_def Let_def)
  then show ?thesis using assms(1) unfolding no_branch_def by blast
qed

text \<open>What the end of \<open>route_net\<close> tells.\<close>

definition net_outcome :: "router \<Rightarrow> net \<Rightarrow> rules \<Rightarrow> nat \<Rightarrow> nat \<Rightarrow> net_end \<times> work_budget \<Rightarrow> bool" where
  "net_outcome r n rs k units out \<longleftrightarrow>
     (case out of
        (Routed rt x, left) \<Rightarrow> x + left \<le> units
      | (Net_Failed x B True, left) \<Rightarrow> left = 0 \<and> x \<le> units
      | (Net_Failed x B False, left) \<Rightarrow> x + left \<le> units \<and>
          (\<exists>i < length (terminals n). i \<noteq> k \<and> no_branch r n rs (terminal_cells r (net_ident n) (terminals n ! k) rs) i)
      | (Net_Panicked, left) \<Rightarrow> False)"

lemma loop_outcome:
  assumes "growth_inv r n rs k units g" and input: "net_input r n units"
    and rs: "rs = rules_for_net (board_of r) (net_ident n)"
  shows "net_outcome r n rs k units (grow_loop r n rs (terminals n ! k) g)"
  using assms(1)
proof (induction "length (to_do g)" arbitrary: g rule: less_induct)
  case less
  show ?case
  proof (cases "to_do g = []")
    case True
    then show ?thesis using less.prems by (simp add: grow_loop.simps[of r n rs _ g] net_outcome_def growth_inv_def)
  next
    case some: False
    show ?thesis
    proof (cases "grow_round r n rs (terminals n ! k) g")
      case (Inl out)
      then have "grow_loop r n rs (terminals n ! k) g = out" using some by (simp add: grow_loop.simps[of r n rs _ g])
      moreover obtain i where i: "i \<in> set (to_do g)" using some by (cases "to_do g") auto
      then have "i < length (terminals n)" "i \<noteq> k"
        "set (terminal_cells r (net_ident n) (terminals n ! k) rs) \<subseteq> set (tree_cells g)"
        using less.prems by (auto simp: growth_inv_def)
      moreover obtain ending left where out: "out = (ending, left)" by (cases out)
      moreover have "no_branch r n rs (terminal_cells r (net_ident n) (terminals n ! k) rs) i"
        if "\<forall>i \<in> set (to_do g). no_branch r n rs (tree_cells g) i"
        using that i no_branch_smaller[OF _ calculation(4)] by blast
      ultimately show ?thesis
        using round_fails[OF less.prems input rs Inl[unfolded out]]
        unfolding net_outcome_def by (elim disjE exE) auto
    next
      case (Inr g')
      then have "grow_loop r n rs (terminals n ! k) g = grow_loop r n rs (terminals n ! k) g'"
        using some by (simp add: grow_loop.simps[of r n rs _ g])
      then show ?thesis
        using less.hyps[OF grow_round_shrinks[OF Inr] round_keeps_growth[OF less.prems input rs Inr]] by simp
    qed
  qed
qed

lemma loop_connects:
  assumes "growth_inv r n rs k units g" "connected_inv n rs k g" and input: "net_input r n units"
    and rs: "rs = rules_for_net (board_of r) (net_ident n)" and k: "k < length (terminals n)"
    and anchors: "\<forall>t \<in> set (terminals n). anchored r (net_ident n) rs t"
    and "root_access_added g \<or> to_do g \<noteq> []"
    and "grow_loop r n rs (terminals n ! k) g = (Routed rt x, left)"
  shows "all_wired n rt"
  using assms(1,2,7,8)
proof (induction "length (to_do g)" arbitrary: g rule: less_induct)
  case less
  show ?case
  proof (cases "to_do g = []")
    case True
    then have "rt = grown g" "root_access_added g" using less.prems(3,4) by (simp_all add: grow_loop.simps[of r n rs _ g])
    then show ?thesis
      using less.prems(2) True attached_all[of n rs g] by (force simp: connected_inv_def in_set_conv_nth)
  next
    case some: False
    obtain g' where g': "grow_round r n rs (terminals n ! k) g = Inr g'"
      using less.prems(1,4) some round_fails[OF less.prems(1) input rs, of "Routed rt x" left]
      by (cases "grow_round r n rs (terminals n ! k) g") (auto simp: grow_loop.simps[of r n rs _ g])
    have "root_access_added g'" using g' by (cases rule: grow_round_Inr) simp
    moreover have "grow_loop r n rs (terminals n ! k) g' = (Routed rt x, left)"
      using less.prems(4) some g' by (simp add: grow_loop.simps[of r n rs _ g])
    ultimately show ?thesis
      using less.hyps[OF grow_round_shrinks[OF g'] round_keeps_growth[OF less.prems(1) input rs g']
          round_keeps_connected[OF less.prems(1) input rs k anchors less.prems(2) g']] by simp
  qed
qed

text \<open>The start of \<open>route_net\<close>.\<close>

lemma start_inv:
  assumes "2 \<le> length (terminals n)" and "terminal_cells r (net_ident n) (terminals n ! k) rs \<noteq> []"
  shows "growth_inv r n rs k units
    \<lparr>grown = empty_route (net_ident n), tree_cells = terminal_cells r (net_ident n) (terminals n ! k) rs,
     to_do = filter (\<lambda>i. i \<noteq> k) [0..<length (terminals n)],
     root_access_added = False, growth_expanded = 0, growth_budget = units\<rparr>"
  using assms terminal_cells_i32 by (auto simp: growth_inv_def)

lemma start_connected:
  assumes input: "net_input r n units" and k: "k < length (terminals n)"
    and anchors: "\<forall>t \<in> set (terminals n). anchored r (net_ident n) rs t"
  shows "connected_inv n rs k
    \<lparr>grown = rt, tree_cells = terminal_cells r (net_ident n) (terminals n ! k) rs, to_do = left_over,
     root_access_added = False, growth_expanded = 0, growth_budget = units\<rparr>"
proof -
  have t: "terminals n ! k \<in> set (terminals n)" using k by simp
  have "wired (wiring n rt) (spot_of rs c) (spot_of rs d)"
    if "c \<in> set (terminal_cells r (net_ident n) (terminals n ! k) rs)"
      "d \<in> set (terminal_cells r (net_ident n) (terminals n ! k) rs)" for c d
    using that anchored_cells[OF bspec[OF anchors t] t net_input_layers(1)[OF input t]]
    unfolding terminal_cells_def by auto
  then show ?thesis by (simp add: connected_inv_def tree_wired_def)
qed

abbreviation net_root :: "router \<Rightarrow> net \<Rightarrow> nat" where
  "net_root r n \<equiv> steiner_root_index n (rules_for_net (board_of r) (net_ident n))"

abbreviation net_rules :: "router \<Rightarrow> net \<Rightarrow> rules" where
  "net_rules r n \<equiv> rules_for_net (board_of r) (net_ident n)"

lemma route_net_many:
  assumes "2 \<le> length (terminals n)"
    and "terminal_cells r (net_ident n) (terminals n ! net_root r n) (net_rules r n) \<noteq> []"
  shows "route_net r n budget = grow_loop r n (net_rules r n) (terminals n ! net_root r n)
    \<lparr>grown = empty_route (net_ident n),
     tree_cells = terminal_cells r (net_ident n) (terminals n ! net_root r n) (net_rules r n),
     to_do = filter (\<lambda>i. i \<noteq> net_root r n) [0..<length (terminals n)],
     root_access_added = False, growth_expanded = 0, growth_budget = budget\<rparr>"
  using assms by (simp add: route_net_def Let_def)

lemma route_wired:
  assumes "net_input r n budget" and "2 \<le> length (terminals n)"
    and "\<forall>t \<in> set (terminals n). anchored r (net_ident n) (net_rules r n) t"
    and "route_net r n budget = (Routed rt x, left)"
  shows "all_wired n rt"
proof (cases "terminal_cells r (net_ident n) (terminals n ! net_root r n) (net_rules r n) = []")
  case True
  then show ?thesis using assms(2,4) by (simp add: route_net_def Let_def)
next
  case False
  have root_terminal: "net_root r n < length (terminals n)" using assms(2) by (intro steiner_root_less) auto
  let ?other = "if net_root r n = 0 then 1 else 0 :: nat"
  have "?other \<in> set (filter (\<lambda>i. i \<noteq> net_root r n) [0..<length (terminals n)])" using assms(2) by auto
  then have "filter (\<lambda>i. i \<noteq> net_root r n) [0..<length (terminals n)] \<noteq> []" by (metis empty_iff empty_set)
  then show ?thesis
    using loop_connects[OF start_inv[OF assms(2) False] start_connected[OF assms(1) root_terminal assms(3)] assms(1) refl
        root_terminal assms(3)] assms(4)
    unfolding route_net_many[OF assms(2) False] by simp
qed

lemma route_outcome:
  assumes "net_input r n budget"
  shows "(length (terminals n) < 2 \<and> route_net r n budget = (Routed (empty_route (net_ident n)) 0, budget)) \<or>
    (terminal_nodes r (net_ident n) (terminals n ! net_root r n) (net_rules r n) = [] \<and>
       route_net r n budget = (Net_Failed 0 {} False, budget)) \<or>
    net_outcome r n (net_rules r n) (net_root r n) budget (route_net r n budget)"
proof (cases "length (terminals n) < 2 \<or> terminal_cells r (net_ident n) (terminals n ! net_root r n) (net_rules r n) = []")
  case True
  then show ?thesis by (auto simp: route_net_def Let_def terminal_cells_def)
next
  case False
  then have many: "2 \<le> length (terminals n)"
    "terminal_cells r (net_ident n) (terminals n ! net_root r n) (net_rules r n) \<noteq> []" by auto
  show ?thesis
    unfolding route_net_many[OF many] by (intro disjI2, rule loop_outcome[OF start_inv[OF many] assms(1) refl])
qed

section \<open>The properties\<close>


text \<open>C11: Routing a net ends in a route or in one of two failures; it does not panic on a declared layer
  and what it expanded and what is left of the budget never exceed the budget. A failure that blames
  the budget has used it up. Any other failure is final: the root terminal has no layer that is
  allowed, or there is a terminal from which no sequence of allowed moves reaches the root terminal.\<close>

theorem route_net_ends:
  assumes "net_input r n budget" and "route_net r n budget = (ending, left)"
  shows "(\<exists>rt x. ending = Routed rt x \<and> x + left \<le> budget) \<or>
    (\<exists>x B. ending = Net_Failed x B True \<and> left = 0 \<and> x \<le> budget) \<or>
    (\<exists>x B. ending = Net_Failed x B False \<and> x + left \<le> budget \<and>
      (terminal_nodes r (net_ident n) (terminals n ! net_root r n) (net_rules r n) = [] \<or>
       (\<exists>i < length (terminals n). i \<noteq> net_root r n \<and>
         (\<nexists>ns W. route_path r (net_ident n) (terminals n ! i)
           (map node_cell (terminal_nodes r (net_ident n) (terminals n ! net_root r n) (net_rules r n))) (net_rules r n) ns W))))"
  using route_outcome[OF assms(1)] unfolding assms(2) net_outcome_def no_branch_def terminal_cells_def
  by (auto split: net_end.splits bool.splits)

section \<open>A concrete net\<close>

text \<open>Two terminals on the strip board, a cell apart.\<close>

definition strip_end :: terminal where
  "strip_end = \<lparr>position_nm = \<lparr>x_nm = 20, y_nm = 10\<rparr>, terminal_layers = [Front]\<rparr>"

definition strip_net :: net where
  "strip_net = \<lparr>net_ident = 3, net_name = ''n3'', terminals = [strip_terminal, strip_end],
     class_of = None, net_priority = 0\<rparr>"

lemma strip_net_facts: "net_ident strip_net = 3" "terminals strip_net = [strip_terminal, strip_end]"
  by (simp_all add: strip_net_def)

lemma strip_net_rules: "rules_for_net (board_of strip_router) 3 = strip_rules"
  by (simp add: fresh_router_def rules_for_net_def class_for_net_def strip_facts)

lemma strip_net_input: "net_input strip_router strip_net 20"
  unfolding net_input_def strip_net_facts strip_net_rules
  using strip_input_front
  by (auto simp: search_input_def fresh_router_def strip_terminal_def strip_end_def strip_facts MAX_ASTAR_WORK_BUDGET_def)

lemma strip_end_nodes: "terminal_nodes strip_router 3 strip_end strip_rules = [strip_node 2 8]"
  by (simp add: terminal_nodes_def strip_end_def strip_facts strip_env_fields allowed_layer_def layers_for_net_def
      class_for_net_def nearest_grid_def sdiv_nonneg wrap_i32_id i32_ok_def layer_index_def)

text \<open>The search back to the cell of the root.\<close>

definition back_env :: search_env where
  "back_env = strip_env\<lparr>env_goals := [(1, 1, 0)], start_x := 2\<rparr>"

lemma back_env_fields: "env_goals back_env = [(1, 1, 0)]" "start_x back_env = 2" "start_y back_env = 1"
  "env_router back_env = fresh_router strip_board 0" "env_rules back_env = rules_of strip_board"
  "env_net back_env = 3" "min_track_cell back_env = 1" "max_x back_env = 2" "max_y back_env = 1"
  "search_variant (fresh_router strip_board 0) = 0" "occupied (fresh_router strip_board 0) = {}"
  "board_of (fresh_router strip_board 0) = strip_board"
  by (simp_all add: back_env_def strip_env_fields)

lemma back_env: "search_env_for strip_router 3 strip_end [(1, 1, 0)] strip_rules = back_env"
  by (simp add: search_env_for_def strip_end_def strip_facts strip_env_fields(10-12) back_env_def strip_env_def
      nearest_grid_def sdiv_nonneg wrap_i32_id i32_ok_def)

lemma back_steps:
  "direction_step back_env (strip_node 2 8) 0 4 s = relax back_env (strip_node 2 8) (strip_node 1 4) 10 s"
  "k \<in> {0, Suc 0, 2, 3, 5, 6, 7} \<Longrightarrow> direction_step back_env (strip_node 2 8) 0 k s = Inr s"
  by (auto simp: direction_step_def DIRS_def back_env_fields endpoint_cell_def track_cost_def strip_proximity)

lemma back_expand:
  "expand back_env (strip_node 2 8) 0 s = relax back_env (strip_node 2 8) (strip_node 1 4) 10 s"
proof -
  have eight: "[0..<8] = [0, Suc 0, 2, 3, 4, 5, 6, 7]" by (simp add: upt_rec)
  have "via_step back_env (strip_node 2 8) 0 Front t = Inr t" for t
    by (simp add: via_step_def layer_index_def)
  then show ?thesis
    by (cases "relax back_env (strip_node 2 8) (strip_node 1 4) 10 s")
       (simp_all add: expand_def eight back_steps back_env_fields strip_facts)
qed

lemma back_search:
  "\<exists>s. search_loop back_env (initial_search back_env [strip_node 2 8] 20) = (Reached [strip_node 2 8, strip_node 1 4] 10, s)"
proof -
  have start: "initial_search back_env [strip_node 2 8] 20 =
      \<lparr>open_items = [\<lparr>item_score = 10, item_cost = 0, item_node = strip_node 2 8\<rparr>], costs = [strip_node 2 8 \<mapsto> 0],
       prev = Map.empty, blocker_ids = {}, expanded_nodes = 0, budget_left = 20\<rparr>"
    by (simp add: initial_search_def seed_def heap_defs back_env_fields heuristic_to_tree_def heuristic_def)
  show ?thesis
    unfolding start
    by (subst search_loop.simps,
        simp add: consume_def heap_defs known_cost_def Let_def back_env_fields back_expand relax_def)
       (subst search_loop.simps,
        simp add: consume_def heap_defs known_cost_def Let_def back_env_fields queue_item_for_def reach_def walk_back.simps)
qed

lemma strip_root: "steiner_root_index strip_net strip_rules = 0"
  by (simp add: steiner_root_index_def steiner_key_def strip_net_facts strip_terminal_def strip_end_def strip_facts
      nearest_grid_def sdiv_nonneg wrap_i32_id i32_ok_def key_less_def heuristic_def Let_def)

lemma strip_branch:
  "\<exists>rt. add_branch strip_router strip_rules strip_terminal strip_end [strip_node 2 8, strip_node 1 4] False (empty_route 3) = Some rt"
  by (simp add: add_branch_def append_terminal_access_def append_path_def push_segment_def node_point_def
      strip_end_def strip_terminal_def strip_facts layer_from_index_def empty_route_def strip_env_fields(12))

lemma strip_route: "\<exists>rt x left. route_net strip_router strip_net 20 = (Routed rt x, left)"
proof -
  have root_terminal: "net_root strip_router strip_net = 0" by (simp add: strip_net_facts strip_net_rules strip_root)
  have cells: "terminal_cells strip_router 3 strip_terminal strip_rules = [(1, 1, 0)]"
    by (simp add: terminal_cells_def strip_nodes node_cell_def)
  obtain s where s: "astar_to_tree strip_router 3 strip_end [(1, 1, 0)] strip_rules 20 = (Reached [strip_node 2 8, strip_node 1 4] 10, s)"
    using back_search by (auto simp: astar_to_tree_def back_env strip_end_nodes)
  obtain rt where rt: "add_branch strip_router strip_rules strip_terminal strip_end [strip_node 2 8, strip_node 1 4] False (empty_route 3) = Some rt"
    using strip_branch by blast
  let ?g = "\<lparr>grown = empty_route 3, tree_cells = [(1, 1, 0)], to_do = [Suc 0], root_access_added = False,
    growth_expanded = 0, growth_budget = 20\<rparr>"
  obtain g where g: "grow_round strip_router strip_net strip_rules strip_terminal ?g = Inr g" "to_do g = []"
    by (simp add: grow_round_def scan_terminal_def s rt strip_net_facts Let_def)
  have "route_net strip_router strip_net 20 = grow_loop strip_router strip_net strip_rules strip_terminal ?g"
    unfolding route_net_def Let_def by (simp add: strip_net_facts strip_net_rules strip_root cells)
  also have "\<dots> = (Routed (grown g) (growth_expanded g), growth_budget g)"
    using g by (simp add: grow_loop.simps[of _ _ _ _ ?g] grow_loop.simps[of _ _ _ _ g])
  finally show ?thesis by blast
qed


theorem route_net_ends_witness:
  "\<exists>rt x left. route_net strip_router strip_net 20 = (Routed rt x, left) \<and> x + left \<le> 20"
  using strip_route route_net_ends[OF strip_net_input] by fastforce

end
