(* ===== verification/Validation.thy ===== *)
theory Validation
  imports NetConnect
begin

text \<open>
  The checks of \<open>Router::new_with_variant\<close> in \<open>crates/pcbex-core/src/lib.rs\<close>, in their order and with
  their messages, and the construction of a router. The checks are compared with a declarative
  description of a valid board; an accepted board meets the assumptions of the theories on
  rasterisation, search and net routing. Strings are their UTF-8 bytes.
\<close>

section \<open>Comparisons of floating-point numbers\<close>

text \<open>Tests on the bits of an \<open>f64\<close>: sign, exponent and mantissa.\<close>

definition f64_negative :: "f64_bits \<Rightarrow> bool" where
  "f64_negative b \<longleftrightarrow> b div 2 ^ 63 mod 2 = 1"

definition f64_exponent :: "f64_bits \<Rightarrow> nat" where
  "f64_exponent b = b div 2 ^ 52 mod 2048"

definition f64_mantissa :: "f64_bits \<Rightarrow> nat" where
  "f64_mantissa b = b mod 2 ^ 52"

definition f64_is_finite :: "f64_bits \<Rightarrow> bool" where
  "f64_is_finite b \<longleftrightarrow> f64_exponent b \<noteq> 2047"

definition f64_is_nan :: "f64_bits \<Rightarrow> bool" where
  "f64_is_nan b \<longleftrightarrow> f64_exponent b = 2047 \<and> f64_mantissa b \<noteq> 0"

definition f64_le_zero :: "f64_bits \<Rightarrow> bool" where
  "f64_le_zero b \<longleftrightarrow> \<not> f64_is_nan b \<and> (f64_negative b \<or> b mod 2 ^ 63 = 0)"

definition f64_lt_zero :: "f64_bits \<Rightarrow> bool" where
  "f64_lt_zero b \<longleftrightarrow> \<not> f64_is_nan b \<and> f64_negative b \<and> b mod 2 ^ 63 \<noteq> 0"

definition f64_le_one :: "f64_bits \<Rightarrow> bool" where
  "f64_le_one b \<longleftrightarrow> \<not> f64_is_nan b \<and> (f64_negative b \<or> b mod 2 ^ 63 \<le> 1023 * 2 ^ 52)"

text \<open>The number that the bits of a finite \<open>f64\<close> stand for.\<close>

definition f64_real :: "f64_bits \<Rightarrow> real" where
  "f64_real b =
     (if f64_negative b then - 1 else 1) *
     (if f64_exponent b = 0 then real (f64_mantissa b) * 2 powr - 1074
      else (2 ^ 52 + real (f64_mantissa b)) * 2 powr (real (f64_exponent b) - 1075))"

lemma f64_magnitude: "b mod 2 ^ 63 = f64_exponent b * 2 ^ 52 + f64_mantissa b"
proof -
  have "b mod (2 ^ 52 * 2048) = 2 ^ 52 * (b div 2 ^ 52 mod 2048) + b mod 2 ^ 52"
    by (rule mod_mult2_eq)
  then show ?thesis by (simp add: f64_exponent_def f64_mantissa_def mult.commute)
qed

lemma f64_mantissa_less: "f64_mantissa b < 2 ^ 52"
  by (simp add: f64_mantissa_def)

lemma f64_mantissa_real: "real (f64_mantissa b) < 2 ^ 52"
  using f64_mantissa_less[of b] by (simp only: of_nat_less_numeral_power_cancel_iff)

lemma f64_abs_positive: "f64_exponent b \<noteq> 0 \<Longrightarrow> 0 < (2 ^ 52 + real (f64_mantissa b)) * 2 powr (real (f64_exponent b) - 1075)"
  by (intro mult_pos_pos) (simp_all add: add_pos_nonneg)

lemma f64_le_zero_exact: "f64_is_finite b \<Longrightarrow> f64_le_zero b \<longleftrightarrow> f64_real b \<le> 0"
  using f64_abs_positive[of b] unfolding f64_le_zero_def f64_magnitude f64_real_def f64_is_nan_def f64_is_finite_def
  by (cases "f64_exponent b = 0"; cases "f64_negative b") (auto simp: mult_le_0_iff not_le)

lemma f64_lt_zero_exact: "f64_is_finite b \<Longrightarrow> f64_lt_zero b \<longleftrightarrow> f64_real b < 0"
  using f64_abs_positive[of b] unfolding f64_lt_zero_def f64_magnitude f64_real_def f64_is_nan_def f64_is_finite_def
  by (cases "f64_exponent b = 0"; cases "f64_negative b") (auto simp: mult_less_0_iff zero_less_mult_iff not_less)

lemma f64_abs_one:
  "(if f64_exponent b = 0 then real (f64_mantissa b) * 2 powr - 1074
    else (2 ^ 52 + real (f64_mantissa b)) * 2 powr (real (f64_exponent b) - 1075)) \<le> 1 \<longleftrightarrow>
   f64_exponent b * 2 ^ 52 + f64_mantissa b \<le> 1023 * 2 ^ 52"
  (is "?v \<le> 1 \<longleftrightarrow> ?small")
proof -
  let ?e = "f64_exponent b" and ?m = "f64_mantissa b"
  have p52: "(2 :: real) ^ 52 = 2 powr 52" by (simp flip: powr_realpow)
  consider "?e = 0" | "0 < ?e" "?e < 1023" | "?e = 1023" | "1023 < ?e" by linarith
  then show ?thesis
  proof cases
    case 1
    have "(2 :: real) powr - 1074 \<le> 2 powr - 52" by (rule powr_mono) auto
    then have "real ?m * 2 powr - 1074 \<le> 2 ^ 52 * 2 powr - 52"
      using f64_mantissa_real[of b] by (intro mult_mono) auto
    also have "\<dots> = 1" by (simp add: powr_minus)
    finally show ?thesis using 1 f64_mantissa_less[of b] by simp
  next
    case 2
    have "(2 :: real) powr (real ?e - 1075) \<le> 2 powr - 53" using 2 by (intro powr_mono) auto
    then have "(2 ^ 52 + real ?m) * 2 powr (real ?e - 1075) \<le> 2 powr 53 * 2 powr - 53"
      using f64_mantissa_real[of b] by (intro mult_mono) auto
    also have "\<dots> = 1" by (simp add: powr_minus)
    finally have "?v \<le> 1" using 2 by simp
    moreover have "?e * 2 ^ 52 \<le> 1022 * 2 ^ 52" using 2 by (intro mult_right_mono) auto
    then have "?small" using f64_mantissa_less[of b] by simp
    ultimately show ?thesis by simp
  next
    case 3
    have "(2 ^ 52 + real ?m) * 2 powr (real ?e - 1075) = 1 + real ?m / 2 ^ 52"
      unfolding 3 by (simp add: powr_minus field_simps flip: powr_numeral)
    then show ?thesis using 3 by simp
  next
    case 4
    have "(2 :: real) powr - 51 \<le> 2 powr (real ?e - 1075)" using 4 by (intro powr_mono) auto
    then have "2 powr 52 * 2 powr - 51 \<le> (2 ^ 52 + real ?m) * 2 powr (real ?e - 1075)"
      unfolding p52 by (intro mult_mono) auto
    moreover have "(2 :: real) powr 52 * 2 powr - 51 = 2" by (simp add: powr_minus)
    ultimately have "\<not> ?v \<le> 1" using 4 by simp
    moreover have "1024 * 2 ^ 52 \<le> ?e * 2 ^ 52" using 4 by (intro mult_right_mono) auto
    then have "\<not> ?small" by simp
    ultimately show ?thesis by simp
  qed
qed

lemma f64_real_negative: "f64_negative b \<Longrightarrow> f64_real b \<le> 0"
  using f64_abs_positive[of b] by (cases "f64_exponent b = 0") (simp_all add: f64_real_def mult_le_0_iff)

lemma f64_le_one_exact: "f64_is_finite b \<Longrightarrow> f64_le_one b \<longleftrightarrow> f64_real b \<le> 1"
proof (cases "f64_negative b")
  case True
  then show "f64_is_finite b \<Longrightarrow> ?thesis" using f64_real_negative[OF True]
    by (simp add: f64_le_one_def f64_is_nan_def f64_is_finite_def)
next
  case False
  then show "f64_is_finite b \<Longrightarrow> ?thesis" using f64_abs_one[of b]
    unfolding f64_le_one_def f64_magnitude f64_real_def f64_is_nan_def f64_is_finite_def by simp
qed

section \<open>Small helpers\<close>

text \<open>\<open>value.is_some_and(p)\<close>, and a run of \<open>HashSet::insert\<close> calls that stops at a duplicate.\<close>

definition some_and :: "'a option \<Rightarrow> ('a \<Rightarrow> bool) \<Rightarrow> bool" where
  "some_and x p = (case x of None \<Rightarrow> False | Some v \<Rightarrow> p v)"

lemma some_and_simps [simp]: "some_and None p = False" "some_and (Some v) p = p v"
  by (simp_all add: some_and_def)

fun insert_all :: "'k list \<Rightarrow> 'k set \<Rightarrow> 'k set option" where
  "insert_all [] S = Some S"
| "insert_all (k # ks) S = (if k \<in> S then None else insert_all ks (insert k S))"

lemma insert_all_Some: "insert_all ks S = Some T \<longleftrightarrow> distinct ks \<and> set ks \<inter> S = {} \<and> T = set ks \<union> S"
  by (induction ks arbitrary: S) auto

text \<open>A loop that rejects an entry that is bad, or one of whose keys it has met before.\<close>

definition unique_step :: "('a \<Rightarrow> bool) \<Rightarrow> ('a \<Rightarrow> 'e) \<Rightarrow> ('a \<Rightarrow> 'k list) \<Rightarrow> 'a \<Rightarrow> 'k set \<Rightarrow> 'e + 'k set" where
  "unique_step bad err ks x S = (if bad x then Inl (err x) else ok_or (err x) (insert_all (ks x) S))"

lemma unique_step_loop:
  "(\<exists>T. fold_result (unique_step bad err ks) xs S = Inr T) \<longleftrightarrow>
     (\<forall>x \<in> set xs. \<not> bad x) \<and> distinct (concat (map ks xs)) \<and> set (concat (map ks xs)) \<inter> S = {}"
proof (induction xs arbitrary: S)
  case (Cons x xs)
  have "(\<exists>T. fold_result (unique_step bad err ks) (x # xs) S = Inr T) \<longleftrightarrow>
      (\<exists>U. unique_step bad err ks x S = Inr U \<and> (\<exists>T. fold_result (unique_step bad err ks) xs U = Inr T))"
    by (auto simp: bind_result_Inr)
  also have "\<dots> \<longleftrightarrow> \<not> bad x \<and> distinct (ks x) \<and> set (ks x) \<inter> S = {} \<and>
      (\<exists>T. fold_result (unique_step bad err ks) xs (set (ks x) \<union> S) = Inr T)"
    by (auto simp: unique_step_def ok_or_Inr insert_all_Some)
  also have "\<dots> \<longleftrightarrow> (\<forall>y \<in> set (x # xs). \<not> bad y) \<and> distinct (concat (map ks (x # xs))) \<and>
      set (concat (map ks (x # xs))) \<inter> S = {}"
    unfolding Cons.IH by (auto simp: Int_Un_distrib2 Int_Un_distrib Int_commute)
  finally show ?case .
qed simp

text \<open>The same with a name and a list of identifiers.\<close>

definition named_step ::
    "('a \<Rightarrow> bool) \<Rightarrow> ('a \<Rightarrow> 'e) \<Rightarrow> ('a \<Rightarrow> string) \<Rightarrow> ('a \<Rightarrow> nat list) \<Rightarrow> 'a \<Rightarrow> string set \<times> nat set \<Rightarrow> 'e + string set \<times> nat set" where
  "named_step bad err name ids x seen =
     (if blank_name (name x) then Inl (err x)
      else
        bind_result (ok_or (err x) (insert_all [name x] (fst seen))) (\<lambda>names.
        if bad x then Inl (err x)
        else
          bind_result (ok_or (err x) (insert_all (ids x) (snd seen))) (\<lambda>known. Inr (names, known))))"

lemma named_step_loop:
  "(\<exists>T. fold_result (named_step bad err name ids) xs S = Inr T) \<longleftrightarrow>
     (\<forall>x \<in> set xs. \<not> bad x \<and> \<not> blank_name (name x)) \<and>
     distinct (map name xs) \<and> set (map name xs) \<inter> fst S = {} \<and>
     distinct (concat (map ids xs)) \<and> set (concat (map ids xs)) \<inter> snd S = {}"
proof (induction xs arbitrary: S)
  case (Cons x xs)
  have "(\<exists>T. fold_result (named_step bad err name ids) (x # xs) S = Inr T) \<longleftrightarrow>
      (\<exists>U. named_step bad err name ids x S = Inr U \<and> (\<exists>T. fold_result (named_step bad err name ids) xs U = Inr T))"
    by (auto simp: bind_result_Inr)
  also have "\<dots> \<longleftrightarrow> \<not> blank_name (name x) \<and> name x \<notin> fst S \<and> \<not> bad x \<and> distinct (ids x) \<and> set (ids x) \<inter> snd S = {} \<and>
      (\<exists>T. fold_result (named_step bad err name ids) xs (insert (name x) (fst S), set (ids x) \<union> snd S) = Inr T)"
    by (auto simp: named_step_def bind_result_Inr ok_or_Inr insert_all_Some simp del: insert_all.simps)
  also have "\<dots> \<longleftrightarrow> (\<forall>y \<in> set (x # xs). \<not> bad y \<and> \<not> blank_name (name y)) \<and>
      distinct (map name (x # xs)) \<and> set (map name (x # xs)) \<inter> fst S = {} \<and>
      distinct (concat (map ids (x # xs))) \<and> set (concat (map ids (x # xs))) \<inter> snd S = {}"
    unfolding Cons.IH by (auto simp: Int_Un_distrib2 Int_Un_distrib Int_commute)
  finally show ?case .
qed simp

section \<open>The checks\<close>

definition invalid :: "string \<Rightarrow> router_error" where
  "invalid message = Message message"

definition bad_dimensions :: "nm \<Rightarrow> nm \<Rightarrow> nm \<Rightarrow> nm \<Rightarrow> bool" where
  "bad_dimensions track clearance drill diameter \<longleftrightarrow> track \<le> 0 \<or> clearance < 0 \<or> drill \<le> 0 \<or> diameter \<le> drill"

definition check_base :: "board \<Rightarrow> router_error + unit" where
  "check_base b =
     (let rs = rules_of b in
      if grid_nm rs \<le> 0 then Inl (invalid ''grid_nm must be positive'')
      else if bad_dimensions (track_width_nm rs) (clearance_nm rs) (via_drill_nm rs) (via_diameter_nm rs)
      then Inl (invalid ''base routing rules have invalid dimensions'')
      else if board_width_nm b \<le> 0 \<or> board_height_nm b \<le> 0 then Inl (invalid ''board dimensions must be positive'')
      else if \<exists>ob \<in> set (obstacles b). x_nm (min_pt ob) \<ge> x_nm (max_pt ob) \<or> y_nm (min_pt ob) \<ge> y_nm (max_pt ob)
      then Inl (invalid ''rectangular obstacle bounds must have positive area'')
      else if copper_layers b = [] \<or> \<not> list_all supported_layer (copper_layers b) \<or> \<not> distinct (copper_layers b)
      then Inl (invalid ''board copper layers must be unique supported layers'')
      else Inr ())"

definition known_layers :: "board \<Rightarrow> layer list \<Rightarrow> bool" where
  "known_layers b ls \<longleftrightarrow> ls \<noteq> [] \<and> list_all (\<lambda>l. l \<in> set (copper_layers b)) ls \<and> distinct ls"

definition check_item_layers :: "board \<Rightarrow> router_error + unit" where
  "check_item_layers b =
     (if (\<exists>t \<in> set (concat (map terminals (nets b))). \<not> known_layers b (terminal_layers t)) \<or>
         (\<exists>ob \<in> set (obstacles b). \<not> known_layers b (obstacle_layers ob)) \<or>
         (\<exists>ob \<in> set (round_obstacles b). \<not> known_layers b (round_layers ob)) \<or>
         (\<exists>ob \<in> set (capsule_obstacles b). \<not> known_layers b (capsule_layers ob)) \<or>
         (\<exists>ob \<in> set (polygon_obstacles b). \<not> known_layers b (polygon_layers ob)) \<or>
         (\<exists>k \<in> set (keepouts b). \<not> known_layers b (keepout_layers k)) \<or>
         (\<exists>s \<in> set (concat (map segments (routes b))). seg_layer s \<notin> set (copper_layers b))
      then Inl (invalid ''board items reference undeclared copper layers'')
      else if \<exists>n \<in> set (nets b). some_and (class_of n) (\<lambda>c. c \<notin> fst ` set (net_classes b))
      then Inl (invalid ''net references an undeclared net class'')
      else Inr ())"

definition bad_keepout :: "keepout \<Rightarrow> bool" where
  "bad_keepout k \<longleftrightarrow>
     \<not> polygon_is_simple (keepout_polygon k) \<or>
     \<not> (tracks_not_allowed k \<or> vias_not_allowed k \<or> zones_not_allowed k \<or> footprints_not_allowed k \<or>
        minimum_track_width_nm k \<noteq> None \<or> minimum_clearance_nm k \<noteq> None) \<or>
     some_and (minimum_track_width_nm k) (\<lambda>v. v \<le> 0) \<or> some_and (minimum_clearance_nm k) (\<lambda>v. v < 0)"

definition check_shapes :: "board \<Rightarrow> router_error + unit" where
  "check_shapes b =
     (if outline b \<noteq> [] \<and>
         (\<not> polygon_is_simple (outline b) \<or>
          (\<exists>p \<in> set (outline b). x_nm p < 0 \<or> y_nm p < 0 \<or> x_nm p > board_width_nm b \<or> y_nm p > board_height_nm b))
      then Inl (invalid ''board outline must be a simple polygon inside its bounds'')
      else if \<exists>c \<in> set (cutouts b). \<not> polygon_is_simple c \<or> (\<exists>p \<in> set c. \<not> point_in_polygon p (effective_outline b))
      then Inl (invalid ''board cutouts must be simple polygons inside the outline'')
      else if \<exists>k \<in> set (keepouts b). bad_keepout k then Inl (invalid ''keepout must be a simple polygon'')
      else if \<exists>ob \<in> set (polygon_obstacles b). \<not> polygon_is_simple (obstacle_polygon ob)
      then Inl (invalid ''polygon obstacle must be a simple polygon'')
      else if \<exists>ob \<in> set (round_obstacles b). round_diameter_nm ob \<le> 0
      then Inl (invalid ''round obstacle diameter must be positive'')
      else if \<exists>ob \<in> set (capsule_obstacles b). capsule_diameter_nm ob \<le> 0
      then Inl (invalid ''capsule obstacle diameter must be positive'')
      else Inr ())"

text \<open>The limits on impedances: a value that is not finite or not positive, or not finite or negative.\<close>

definition not_positive :: "f64_bits \<Rightarrow> bool" where
  "not_positive v \<longleftrightarrow> \<not> f64_is_finite v \<or> f64_le_zero v"

definition not_natural :: "f64_bits \<Rightarrow> bool" where
  "not_natural v \<longleftrightarrow> \<not> f64_is_finite v \<or> f64_lt_zero v"

definition check_net_class :: "board \<Rightarrow> string \<times> net_class_rules \<Rightarrow> router_error + unit" where
  "check_net_class b entry =
     (let (name, c) = entry;
          net_class = (\<lambda>message. invalid (''net class '' @ name @ message))
      in
      if blank_name name then Inl (invalid ''net class names must not be blank'')
      else if bad_dimensions (class_track_width_nm c) (class_clearance_nm c) (class_via_drill_nm c) (class_via_diameter_nm c)
      then Inl (net_class '' has invalid dimensions'')
      else if some_and (class_layers c) (\<lambda>ls. ls = []) then Inl (net_class '' must allow at least one layer'')
      else if some_and (class_minimum_length_nm c) (\<lambda>v. v \<le> 0) \<or> some_and (class_maximum_length_nm c) (\<lambda>v. v \<le> 0) \<or>
        some_and (class_minimum_length_nm c) (\<lambda>low. some_and (class_maximum_length_nm c) (\<lambda>high. low > high))
      then Inl (net_class '' has invalid length limits'')
      else if some_and (class_layers c) (\<lambda>ls. \<not> known_layers b ls) then Inl (net_class '' references undeclared layers'')
      else if (target_impedance_ohms c \<noteq> None) \<noteq> (impedance_tolerance_ohms c \<noteq> None) \<or>
        some_and (target_impedance_ohms c) not_positive \<or> some_and (impedance_tolerance_ohms c) not_natural \<or>
        some_and (maximum_impedance_step_ohms c) not_natural
      then Inl (net_class '' has invalid impedance limits'')
      else if some_and (differential_width_nm c) (\<lambda>v. v \<le> 0) \<or> some_and (differential_gap_nm c) (\<lambda>v. v < 0)
      then Inl (net_class '' has invalid differential dimensions'')
      else Inr ())"

definition not_above_one :: "f64_bits \<Rightarrow> bool" where
  "not_above_one v \<longleftrightarrow> \<not> f64_is_finite v \<or> f64_le_one v"

definition bad_stackup_layer :: "board \<Rightarrow> stackup_layer \<Rightarrow> bool" where
  "bad_stackup_layer b e \<longleftrightarrow>
     stackup_layer_of e \<notin> set (copper_layers b) \<or> dielectric_height_nm e \<le> 0 \<or> copper_thickness_nm e < 0 \<or>
     not_above_one (dielectric_constant e) \<or>
     some_and (reference_layer e) (\<lambda>l. l \<notin> set (copper_layers b) \<or> l = stackup_layer_of e) \<or>
     (secondary_reference_layer e \<noteq> None) \<noteq> (secondary_dielectric_height_nm e \<noteq> None) \<or>
     (secondary_reference_layer e \<noteq> None) \<noteq> (secondary_dielectric_constant e \<noteq> None) \<or>
     secondary_reference_layer e \<noteq> None \<and> reference_layer e = None \<or>
     some_and (secondary_reference_layer e)
       (\<lambda>l. l \<notin> set (copper_layers b) \<or> l = stackup_layer_of e \<or> Some l = reference_layer e) \<or>
     some_and (secondary_dielectric_height_nm e) (\<lambda>v. v \<le> 0) \<or>
     some_and (secondary_dielectric_constant e) not_above_one"

definition check_stackup :: "board \<Rightarrow> router_error + unit" where
  "check_stackup b =
     bind_result (fold_result (unique_step (bad_stackup_layer b)
         (\<lambda>_. invalid ''stackup has invalid or duplicate layer entries'') (\<lambda>e. [stackup_layer_of e])) (stackup b) {})
       (\<lambda>_. Inr ())"

text \<open>Tuning parameters of differential pairs and length groups.\<close>

definition bad_tuning :: "nm option \<Rightarrow> nm option \<Rightarrow> nat \<Rightarrow> bool" where
  "bad_tuning amplitude pitch sections \<longleftrightarrow>
     some_and amplitude (\<lambda>v. v \<le> 0) \<or> some_and pitch (\<lambda>v. v \<le> 0) \<or> \<not> (1 \<le> sections \<and> sections \<le> 16)"

abbreviation net_ids :: "board \<Rightarrow> nat set" where
  "net_ids b \<equiv> set (map net_ident (nets b))"

definition bad_pair :: "board \<Rightarrow> differential_pair \<Rightarrow> bool" where
  "bad_pair b p \<longleftrightarrow>
     positive_net_id p = negative_net_id p \<or> positive_net_id p \<notin> net_ids b \<or> negative_net_id p \<notin> net_ids b \<or>
     gap_nm p < 0 \<or> gap_tolerance_nm p < 0 \<or> pair_max_skew_nm p < 0 \<or> min_coupled_percent p > 100 \<or>
     some_and (target_differential_impedance_ohms p) not_positive \<or>
     some_and (differential_impedance_tolerance_ohms p) not_natural \<or>
     some_and (maximum_differential_impedance_step_ohms p) not_natural \<or>
     (target_differential_impedance_ohms p \<noteq> None) \<noteq> (differential_impedance_tolerance_ohms p \<noteq> None) \<or>
     some_and (pair_minimum_length_nm p) (\<lambda>v. v \<le> 0) \<or>
     bad_tuning (pair_tuning_amplitude_nm p) (pair_tuning_pitch_nm p) (pair_max_tuning_sections p)"

definition check_pairs_of :: "board \<Rightarrow> router_error + unit" where
  "check_pairs_of b =
     bind_result (fold_result (named_step (bad_pair b)
         (\<lambda>p. invalid (''differential pair '' @ pair_name p @ '' is invalid''))
         pair_name (\<lambda>p. [positive_net_id p, negative_net_id p])) (differential_pairs b) ({}, {}))
       (\<lambda>_. Inr ())"

definition bad_length_group :: "board \<Rightarrow> length_group \<Rightarrow> bool" where
  "bad_length_group b g \<longleftrightarrow>
     group_max_skew_nm g < 0 \<or> bad_tuning (tuning_amplitude_nm g) (tuning_pitch_nm g) (max_tuning_sections g) \<or>
     card (set (group_net_ids g)) < 2 \<or> card (set (group_net_ids g)) \<noteq> length (group_net_ids g) \<or>
     \<not> list_all (\<lambda>n. n \<in> net_ids b) (group_net_ids g)"

definition check_length_groups :: "board \<Rightarrow> router_error + unit" where
  "check_length_groups b =
     bind_result (fold_result (named_step (bad_length_group b)
         (\<lambda>g. invalid (''length group '' @ group_name g @ '' is invalid'')) group_name (\<lambda>_. []))
         (length_groups b) ({}, {}))
       (\<lambda>_. Inr ())"

text \<open>A net of an escape group starts at a front terminal and has no route yet.\<close>

definition bad_escape_net :: "board \<Rightarrow> nat \<Rightarrow> bool" where
  "bad_escape_net b n \<longleftrightarrow>
     n \<notin> net_ids b \<or>
     (case find (\<lambda>m. net_ident m = n) (nets b) of
        None \<Rightarrow> True
      | Some m \<Rightarrow> terminals m = [] \<or> Front \<notin> set (terminal_layers (terminals m ! 0))) \<or>
     (\<exists>rt \<in> set (routes b). net_id rt = n)"

definition bad_escape_group :: "board \<Rightarrow> escape_group \<Rightarrow> bool" where
  "bad_escape_group b g \<longleftrightarrow>
     escape_net_ids g = [] \<or> fanout_distance_nm g \<le> 0 \<or> some_and (via_grid_nm g) (\<lambda>v. v \<le> 0) \<or>
     \<not> (1 \<le> max_rings g \<and> max_rings g \<le> 8) \<or> target_layer g = Front \<or>
     target_layer g \<notin> set (copper_layers b) \<or> (\<exists>n \<in> set (escape_net_ids g). bad_escape_net b n)"

definition check_escape_groups :: "board \<Rightarrow> router_error + unit" where
  "check_escape_groups b =
     bind_result (fold_result (named_step (bad_escape_group b)
         (\<lambda>g. invalid (''escape group '' @ escape_name g @ '' is invalid'')) escape_name escape_net_ids)
         (escape_groups b) ({}, {}))
       (\<lambda>_. Inr ())"

definition bad_return_path :: "board \<Rightarrow> return_path_rule \<Rightarrow> bool" where
  "bad_return_path b rule \<longleftrightarrow>
     max_via_distance_nm rule \<le> 0 \<or> some_and (plane_sample_spacing_nm rule) (\<lambda>v. v \<le> 0) \<or>
     reference_net_id rule \<notin> net_ids b \<or> set (signal_net_ids rule) = {} \<or>
     card (set (signal_net_ids rule)) \<noteq> length (signal_net_ids rule) \<or>
     (\<exists>n \<in> set (signal_net_ids rule). n = reference_net_id rule \<or> n \<notin> net_ids b)"

definition check_return_paths :: "board \<Rightarrow> router_error + unit" where
  "check_return_paths b =
     bind_result (fold_result (named_step (bad_return_path b)
         (\<lambda>rule. invalid (''return path rule '' @ return_name rule @ '' is invalid'')) return_name (\<lambda>_. []))
         (return_path_rules b) ({}, {}))
       (\<lambda>_. Inr ())"

definition bad_power_rule :: "board \<Rightarrow> power_net_rule \<Rightarrow> bool" where
  "bad_power_rule b rule \<longleftrightarrow>
     power_net_id rule \<notin> net_ids b \<or> not_positive (current_ma rule) \<or> not_positive (maximum_voltage_drop_mv rule)"

definition check_power_rules :: "board \<Rightarrow> router_error + unit" where
  "check_power_rules b =
     bind_result (fold_result (unique_step (bad_power_rule b)
         (\<lambda>rule. invalid (''power-net rule for net '' @ show_nat (power_net_id rule) @ '' is invalid''))
         (\<lambda>rule. [power_net_id rule])) (power_net_rules b) {})
       (\<lambda>_. Inr ())"

definition check_existing :: "board \<Rightarrow> router_error + unit" where
  "check_existing b =
     bind_result (fold_result (unique_step (\<lambda>_. False)
         (\<lambda>rt. invalid (''net '' @ show_nat (net_id rt) @ '' has more than one existing route'')) (\<lambda>rt. [net_id rt]))
         (routes b) {})
       (\<lambda>_. Inr ())"

section \<open>The construction of a router\<close>

definition new_checks :: "board \<Rightarrow> router_error + unit" where
  "new_checks b =
     bind_result (check_base b) (\<lambda>_.
     bind_result (check_item_layers b) (\<lambda>_.
     bind_result (check_shapes b) (\<lambda>_.
     bind_result (all_result (check_net_class b) (net_classes b)) (\<lambda>_.
     bind_result (check_stackup b) (\<lambda>_.
     bind_result (check_pairs_of b) (\<lambda>_.
     bind_result (check_length_groups b) (\<lambda>_.
     bind_result (check_escape_groups b) (\<lambda>_.
     bind_result (check_return_paths b) (\<lambda>_.
     bind_result (check_power_rules b) (\<lambda>_.
     check_existing b))))))))))"

definition map_error :: "('e \<Rightarrow> 'f) \<Rightarrow> 'e + 'a \<Rightarrow> 'f + 'a" where
  "map_error f x = (case x of Inl e \<Rightarrow> Inl (f e) | Inr v \<Rightarrow> Inr v)"

definition new_with_variant :: "board \<Rightarrow> nat \<Rightarrow> router_error + router" where
  "new_with_variant b variant =
     bind_result (map_error Limit_Error (validate_routing_resource_bounds b)) (\<lambda>_.
     bind_result (new_checks b) (\<lambda>_.
     rasterize_obstacles (fresh_router b variant)))"

definition new :: "board \<Rightarrow> router_error + router" where
  "new b = new_with_variant b 0"

section \<open>Valid boards\<close>

text \<open>What the checks ask for, over sets, real numbers and lists without repetition.\<close>

definition optionally :: "'a option \<Rightarrow> ('a \<Rightarrow> bool) \<Rightarrow> bool" where
  "optionally x p \<longleftrightarrow> (\<forall>v. x = Some v \<longrightarrow> p v)"

definition declared_layers :: "board \<Rightarrow> layer list \<Rightarrow> bool" where
  "declared_layers b ls \<longleftrightarrow> ls \<noteq> [] \<and> set ls \<subseteq> set (copper_layers b) \<and> distinct ls"

definition positive_real :: "f64_bits \<Rightarrow> bool" where
  "positive_real v \<longleftrightarrow> f64_is_finite v \<and> 0 < f64_real v"

definition natural_real :: "f64_bits \<Rightarrow> bool" where
  "natural_real v \<longleftrightarrow> f64_is_finite v \<and> 0 \<le> f64_real v"

definition valid_dimensions :: "nm \<Rightarrow> nm \<Rightarrow> nm \<Rightarrow> nm \<Rightarrow> bool" where
  "valid_dimensions track clearance drill diameter \<longleftrightarrow> 0 < track \<and> 0 \<le> clearance \<and> 0 < drill \<and> drill < diameter"

definition valid_base :: "board \<Rightarrow> bool" where
  "valid_base b \<longleftrightarrow>
     0 < grid_nm (rules_of b) \<and>
     valid_dimensions (track_width_nm (rules_of b)) (clearance_nm (rules_of b)) (via_drill_nm (rules_of b)) (via_diameter_nm (rules_of b)) \<and>
     0 < board_width_nm b \<and> 0 < board_height_nm b \<and>
     (\<forall>ob \<in> set (obstacles b). x_nm (min_pt ob) < x_nm (max_pt ob) \<and> y_nm (min_pt ob) < y_nm (max_pt ob)) \<and>
     copper_layers b \<noteq> [] \<and> (\<forall>l \<in> set (copper_layers b). supported_layer l) \<and> distinct (copper_layers b)"

definition item_layers :: "board \<Rightarrow> layer list set" where
  "item_layers b =
     terminal_layers ` (\<Union>n \<in> set (nets b). set (terminals n)) \<union> obstacle_layers ` set (obstacles b) \<union>
     round_layers ` set (round_obstacles b) \<union> capsule_layers ` set (capsule_obstacles b) \<union>
     polygon_layers ` set (polygon_obstacles b) \<union> keepout_layers ` set (keepouts b)"

definition valid_items :: "board \<Rightarrow> bool" where
  "valid_items b \<longleftrightarrow>
     (\<forall>ls \<in> item_layers b. declared_layers b ls) \<and>
     (\<forall>rt \<in> set (routes b). \<forall>s \<in> set (segments rt). seg_layer s \<in> set (copper_layers b)) \<and>
     (\<forall>n \<in> set (nets b). optionally (class_of n) (\<lambda>c. c \<in> fst ` set (net_classes b)))"

definition valid_shapes :: "board \<Rightarrow> bool" where
  "valid_shapes b \<longleftrightarrow>
     (outline b \<noteq> [] \<longrightarrow> polygon_is_simple (outline b) \<and>
       (\<forall>p \<in> set (outline b). 0 \<le> x_nm p \<and> x_nm p \<le> board_width_nm b \<and> 0 \<le> y_nm p \<and> y_nm p \<le> board_height_nm b)) \<and>
     (\<forall>c \<in> set (cutouts b). polygon_is_simple c \<and> (\<forall>p \<in> set c. point_in_polygon p (effective_outline b))) \<and>
     (\<forall>k \<in> set (keepouts b). polygon_is_simple (keepout_polygon k) \<and>
       (tracks_not_allowed k \<or> vias_not_allowed k \<or> zones_not_allowed k \<or> footprints_not_allowed k \<or>
        minimum_track_width_nm k \<noteq> None \<or> minimum_clearance_nm k \<noteq> None) \<and>
       optionally (minimum_track_width_nm k) (\<lambda>v. 0 < v) \<and> optionally (minimum_clearance_nm k) (\<lambda>v. 0 \<le> v)) \<and>
     (\<forall>ob \<in> set (polygon_obstacles b). polygon_is_simple (obstacle_polygon ob)) \<and>
     (\<forall>ob \<in> set (round_obstacles b). 0 < round_diameter_nm ob) \<and>
     (\<forall>ob \<in> set (capsule_obstacles b). 0 < capsule_diameter_nm ob)"

definition valid_impedance :: "f64_bits option \<Rightarrow> f64_bits option \<Rightarrow> f64_bits option \<Rightarrow> bool" where
  "valid_impedance target tolerance step \<longleftrightarrow>
     (target = None \<longleftrightarrow> tolerance = None) \<and> optionally target positive_real \<and> optionally tolerance natural_real \<and>
     optionally step natural_real"

definition valid_class :: "board \<Rightarrow> string \<times> net_class_rules \<Rightarrow> bool" where
  "valid_class b entry \<longleftrightarrow>
     (case entry of (name, c) \<Rightarrow>
        \<not> blank_name name \<and>
        valid_dimensions (class_track_width_nm c) (class_clearance_nm c) (class_via_drill_nm c) (class_via_diameter_nm c) \<and>
        optionally (class_layers c) (declared_layers b) \<and>
        optionally (class_minimum_length_nm c) (\<lambda>low. 0 < low \<and> optionally (class_maximum_length_nm c) (\<lambda>high. low \<le> high)) \<and>
        optionally (class_maximum_length_nm c) (\<lambda>high. 0 < high) \<and>
        valid_impedance (target_impedance_ohms c) (impedance_tolerance_ohms c) (maximum_impedance_step_ohms c) \<and>
        optionally (differential_width_nm c) (\<lambda>v. 0 < v) \<and> optionally (differential_gap_nm c) (\<lambda>v. 0 \<le> v))"

definition dielectric :: "f64_bits \<Rightarrow> bool" where
  "dielectric v \<longleftrightarrow> f64_is_finite v \<and> 1 < f64_real v"

definition valid_stackup :: "board \<Rightarrow> bool" where
  "valid_stackup b \<longleftrightarrow>
     distinct (map stackup_layer_of (stackup b)) \<and>
     (\<forall>e \<in> set (stackup b).
        stackup_layer_of e \<in> set (copper_layers b) \<and> 0 < dielectric_height_nm e \<and> 0 \<le> copper_thickness_nm e \<and>
        dielectric (dielectric_constant e) \<and>
        optionally (reference_layer e) (\<lambda>l. l \<in> set (copper_layers b) - {stackup_layer_of e}) \<and>
        (secondary_reference_layer e = None \<longleftrightarrow> secondary_dielectric_height_nm e = None) \<and>
        (secondary_reference_layer e = None \<longleftrightarrow> secondary_dielectric_constant e = None) \<and>
        optionally (secondary_reference_layer e)
          (\<lambda>l. l \<in> set (copper_layers b) - {stackup_layer_of e} \<and> (\<exists>m. reference_layer e = Some m \<and> m \<noteq> l)) \<and>
        optionally (secondary_dielectric_height_nm e) (\<lambda>v. 0 < v) \<and>
        optionally (secondary_dielectric_constant e) dielectric)"

definition valid_tuning :: "nm option \<Rightarrow> nm option \<Rightarrow> nat \<Rightarrow> bool" where
  "valid_tuning amplitude pitch sections \<longleftrightarrow>
     optionally amplitude (\<lambda>v. 0 < v) \<and> optionally pitch (\<lambda>v. 0 < v) \<and> sections \<in> {1..16}"

definition valid_pairs :: "board \<Rightarrow> bool" where
  "valid_pairs b \<longleftrightarrow>
     distinct (map pair_name (differential_pairs b)) \<and>
     distinct (concat (map (\<lambda>p. [positive_net_id p, negative_net_id p]) (differential_pairs b))) \<and>
     (\<forall>p \<in> set (differential_pairs b).
        \<not> blank_name (pair_name p) \<and> {positive_net_id p, negative_net_id p} \<subseteq> net_ids b \<and>
        0 \<le> gap_nm p \<and> 0 \<le> gap_tolerance_nm p \<and> 0 \<le> pair_max_skew_nm p \<and> min_coupled_percent p \<le> 100 \<and>
        valid_impedance (target_differential_impedance_ohms p) (differential_impedance_tolerance_ohms p)
          (maximum_differential_impedance_step_ohms p) \<and>
        optionally (pair_minimum_length_nm p) (\<lambda>v. 0 < v) \<and>
        valid_tuning (pair_tuning_amplitude_nm p) (pair_tuning_pitch_nm p) (pair_max_tuning_sections p))"

definition valid_groups :: "board \<Rightarrow> bool" where
  "valid_groups b \<longleftrightarrow>
     distinct (map group_name (length_groups b)) \<and>
     (\<forall>g \<in> set (length_groups b).
        \<not> blank_name (group_name g) \<and> 0 \<le> group_max_skew_nm g \<and> 2 \<le> length (group_net_ids g) \<and>
        distinct (group_net_ids g) \<and> set (group_net_ids g) \<subseteq> net_ids b \<and>
        valid_tuning (tuning_amplitude_nm g) (tuning_pitch_nm g) (max_tuning_sections g))"

definition valid_escapes :: "board \<Rightarrow> bool" where
  "valid_escapes b \<longleftrightarrow>
     distinct (map escape_name (escape_groups b)) \<and> distinct (concat (map escape_net_ids (escape_groups b))) \<and>
     (\<forall>g \<in> set (escape_groups b).
        \<not> blank_name (escape_name g) \<and> escape_net_ids g \<noteq> [] \<and> 0 < fanout_distance_nm g \<and>
        optionally (via_grid_nm g) (\<lambda>v. 0 < v) \<and> max_rings g \<in> {1..8} \<and>
        target_layer g \<in> set (copper_layers b) - {Front} \<and>
        (\<forall>n \<in> set (escape_net_ids g). \<not> bad_escape_net b n))"

definition valid_rules :: "board \<Rightarrow> bool" where
  "valid_rules b \<longleftrightarrow>
     distinct (map return_name (return_path_rules b)) \<and>
     (\<forall>rule \<in> set (return_path_rules b).
        \<not> blank_name (return_name rule) \<and> 0 < max_via_distance_nm rule \<and>
        optionally (plane_sample_spacing_nm rule) (\<lambda>v. 0 < v) \<and> reference_net_id rule \<in> net_ids b \<and>
        signal_net_ids rule \<noteq> [] \<and> distinct (signal_net_ids rule) \<and>
        set (signal_net_ids rule) \<subseteq> net_ids b - {reference_net_id rule}) \<and>
     distinct (map power_net_id (power_net_rules b)) \<and>
     (\<forall>rule \<in> set (power_net_rules b).
        power_net_id rule \<in> net_ids b \<and> positive_real (current_ma rule) \<and> positive_real (maximum_voltage_drop_mv rule)) \<and>
     distinct (map net_id (routes b))"

definition valid_board :: "board \<Rightarrow> bool" where
  "valid_board b \<longleftrightarrow>
     valid_base b \<and> valid_items b \<and> valid_shapes b \<and> (\<forall>c \<in> set (net_classes b). valid_class b c) \<and>
     valid_stackup b \<and> valid_pairs b \<and> valid_groups b \<and> valid_escapes b \<and> valid_rules b"

section \<open>The checks accept the valid boards\<close>

lemma some_and_optionally [simp]: "some_and x p \<longleftrightarrow> \<not> optionally x (\<lambda>v. \<not> p v)"
  by (cases x) (simp_all add: optionally_def)

lemma reals_exact:
  "not_positive v \<longleftrightarrow> \<not> positive_real v" "not_natural v \<longleftrightarrow> \<not> natural_real v" "not_above_one v \<longleftrightarrow> \<not> dielectric v"
  by (auto simp: not_positive_def positive_real_def not_natural_def natural_real_def not_above_one_def dielectric_def
      f64_le_zero_exact f64_lt_zero_exact f64_le_one_exact)

lemma known_layers_exact: "known_layers b ls \<longleftrightarrow> declared_layers b ls"
  by (auto simp: known_layers_def declared_layers_def list_all_iff)

lemma bad_dimensions_exact: "bad_dimensions t c d v \<longleftrightarrow> \<not> valid_dimensions t c d v"
  by (auto simp: bad_dimensions_def valid_dimensions_def)

lemma bad_tuning_exact: "bad_tuning a p k \<longleftrightarrow> \<not> valid_tuning a p k"
  by (auto simp: bad_tuning_def valid_tuning_def not_le)

lemma check_base_exact: "check_base b = Inr () \<longleftrightarrow> valid_base b"
  by (auto simp: check_base_def valid_base_def bad_dimensions_exact Let_def list_all_iff not_le not_less)

lemma check_item_layers_exact: "check_item_layers b = Inr () \<longleftrightarrow> valid_items b"
  by (auto simp: check_item_layers_def valid_items_def item_layers_def known_layers_exact ball_Un)

lemma check_shapes_exact: "check_shapes b = Inr () \<longleftrightarrow> valid_shapes b"
  by (auto simp: check_shapes_def valid_shapes_def bad_keepout_def not_le not_less)

lemma check_net_class_exact: "check_net_class b entry = Inr () \<longleftrightarrow> valid_class b entry"
proof (cases entry)
  case (Pair name c)
  have layers: "optionally (class_layers c) (\<lambda>ls. ls \<noteq> []) \<and> optionally (class_layers c) (known_layers b) \<longleftrightarrow>
      optionally (class_layers c) (declared_layers b)"
    by (auto simp: optionally_def known_layers_exact declared_layers_def)
  show ?thesis
    unfolding Pair check_net_class_def valid_class_def valid_impedance_def Let_def prod.case layers[symmetric]
    by (simp add: bad_dimensions_exact reals_exact not_le not_less) (auto simp: optionally_def)
qed

lemma check_loop_Inr: "bind_result x (\<lambda>_. Inr ()) = Inr () \<longleftrightarrow> (\<exists>T. x = Inr T)"
  by (auto simp: bind_result_Inr)

lemma check_stackup_exact: "check_stackup b = Inr () \<longleftrightarrow> valid_stackup b"
proof -
  have "\<not> bad_stackup_layer b e \<longleftrightarrow>
      stackup_layer_of e \<in> set (copper_layers b) \<and> 0 < dielectric_height_nm e \<and> 0 \<le> copper_thickness_nm e \<and>
      dielectric (dielectric_constant e) \<and>
      optionally (reference_layer e) (\<lambda>l. l \<in> set (copper_layers b) - {stackup_layer_of e}) \<and>
      (secondary_reference_layer e = None \<longleftrightarrow> secondary_dielectric_height_nm e = None) \<and>
      (secondary_reference_layer e = None \<longleftrightarrow> secondary_dielectric_constant e = None) \<and>
      optionally (secondary_reference_layer e)
        (\<lambda>l. l \<in> set (copper_layers b) - {stackup_layer_of e} \<and> (\<exists>m. reference_layer e = Some m \<and> m \<noteq> l)) \<and>
      optionally (secondary_dielectric_height_nm e) (\<lambda>v. 0 < v) \<and>
      optionally (secondary_dielectric_constant e) dielectric" for e
    unfolding bad_stackup_layer_def some_and_optionally reals_exact
    by (cases "reference_layer e"; cases "secondary_reference_layer e") (auto simp: optionally_def not_le not_less)
  then show ?thesis
    unfolding check_stackup_def check_loop_Inr unique_step_loop valid_stackup_def by (auto simp: concat_map_singleton)
qed

lemma check_pairs_exact: "check_pairs_of b = Inr () \<longleftrightarrow> valid_pairs b"
proof -
  have bad: "bad_pair b p \<longleftrightarrow> \<not> (positive_net_id p \<noteq> negative_net_id p \<and> {positive_net_id p, negative_net_id p} \<subseteq> net_ids b \<and>
      0 \<le> gap_nm p \<and> 0 \<le> gap_tolerance_nm p \<and> 0 \<le> pair_max_skew_nm p \<and> min_coupled_percent p \<le> 100 \<and>
      valid_impedance (target_differential_impedance_ohms p) (differential_impedance_tolerance_ohms p)
        (maximum_differential_impedance_step_ohms p) \<and>
      optionally (pair_minimum_length_nm p) (\<lambda>v. 0 < v) \<and>
      valid_tuning (pair_tuning_amplitude_nm p) (pair_tuning_pitch_nm p) (pair_max_tuning_sections p))" for p
    unfolding bad_pair_def valid_impedance_def some_and_optionally reals_exact bad_tuning_exact by (auto simp: not_le not_less)
  have pos: "distinct (concat (map (\<lambda>p. [positive_net_id p, negative_net_id p]) ps)) \<Longrightarrow>
      p \<in> set ps \<Longrightarrow> positive_net_id p \<noteq> negative_net_id p" for ps p
    by (induction ps) auto
  show ?thesis
    unfolding check_pairs_of_def check_loop_Inr named_step_loop valid_pairs_def bad
    using pos[of "differential_pairs b"] by auto
qed

lemma card_length_distinct: "card (set xs) = length xs \<longleftrightarrow> distinct xs"
  using card_distinct distinct_card by blast

lemma no_keys: "concat (map (\<lambda>_. []) xs) = []"
  by (induction xs) simp_all

lemma check_groups_exact: "check_length_groups b = Inr () \<longleftrightarrow> valid_groups b"
proof -
  have "\<not> bad_length_group b g \<longleftrightarrow> 0 \<le> group_max_skew_nm g \<and> 2 \<le> length (group_net_ids g) \<and>
        distinct (group_net_ids g) \<and> set (group_net_ids g) \<subseteq> net_ids b \<and>
        valid_tuning (tuning_amplitude_nm g) (tuning_pitch_nm g) (max_tuning_sections g)" for g
    unfolding bad_length_group_def bad_tuning_exact card_length_distinct
    by (auto simp: list_all_iff not_less distinct_card subset_eq)
  then show ?thesis
    unfolding check_length_groups_def check_loop_Inr named_step_loop valid_groups_def no_keys by auto
qed

lemma check_escapes_exact: "check_escape_groups b = Inr () \<longleftrightarrow> valid_escapes b"
  unfolding check_escape_groups_def check_loop_Inr named_step_loop valid_escapes_def bad_escape_group_def
    some_and_optionally by (auto simp: not_le)

lemma check_rules_exact:
  "(check_return_paths b = Inr () \<and> check_power_rules b = Inr () \<and> check_existing b = Inr ()) \<longleftrightarrow> valid_rules b"
proof -
  have "\<not> bad_return_path b rule \<longleftrightarrow> 0 < max_via_distance_nm rule \<and>
        optionally (plane_sample_spacing_nm rule) (\<lambda>v. 0 < v) \<and> reference_net_id rule \<in> net_ids b \<and>
        signal_net_ids rule \<noteq> [] \<and> distinct (signal_net_ids rule) \<and>
        set (signal_net_ids rule) \<subseteq> net_ids b - {reference_net_id rule}" for rule
    unfolding bad_return_path_def some_and_optionally card_length_distinct set_empty by (auto simp: not_le)
  moreover have "\<not> bad_power_rule b rule \<longleftrightarrow> power_net_id rule \<in> net_ids b \<and> positive_real (current_ma rule) \<and>
      positive_real (maximum_voltage_drop_mv rule)" for rule
    unfolding bad_power_rule_def reals_exact by blast
  ultimately show ?thesis
    unfolding check_return_paths_def check_power_rules_def check_existing_def check_loop_Inr named_step_loop
      unique_step_loop valid_rules_def concat_map_singleton no_keys by auto
qed

lemma all_classes_exact:
  "all_result (check_net_class b) cs = Inr () \<longleftrightarrow> (\<forall>c \<in> set cs. valid_class b c)"
  by (simp add: all_result_Inr check_net_class_exact)

lemma new_checks_valid: "new_checks b = Inr () \<longleftrightarrow> valid_board b"
  unfolding new_checks_def valid_board_def bind_result_Inr check_rules_exact[symmetric]
  by (auto simp: check_base_exact check_item_layers_exact check_shapes_exact all_classes_exact check_stackup_exact
      check_pairs_exact check_groups_exact check_escapes_exact)

section \<open>What an accepted board gives to the router\<close>

text \<open>The rasterisation only claims cells.\<close>

definition same_frame :: "router \<Rightarrow> router \<Rightarrow> bool" where
  "same_frame r r' \<longleftrightarrow>
     board_of r' = board_of r \<and> occupied r' = occupied r \<and> occupied_by r' = occupied_by r \<and>
     congestion r' = congestion r \<and> search_variant r' = search_variant r"

lemma same_frame_refl: "same_frame r r"
  by (simp add: same_frame_def)

lemma same_frame_trans: "same_frame r s \<Longrightarrow> same_frame s t \<Longrightarrow> same_frame r t"
  by (simp add: same_frame_def)

lemma fold_frame:
  assumes "fold_result f xs r = Inr r'" "\<And>x r r'. f x r = Inr r' \<Longrightarrow> same_frame r r'"
  shows "same_frame r r'"
  using fold_result_invariant[of f xs r r' "same_frame r"] assms same_frame_refl same_frame_trans by blast

lemma bump_frame: "bump_raster_candidate r = Inr r' \<Longrightarrow> same_frame r r'" "bump_raster_visit r = Inr r' \<Longrightarrow> same_frame r r'"
  by (auto simp: bump_raster_candidate_def bump_raster_visit_def bind_result_Inr ok_or_Inr reject_if_Inr same_frame_def)

lemma claim_frame: "same_frame r (claim owner c r)"
  by (simp add: claim_def same_frame_def Let_def split: option.splits)

lemma claim_visit_frame: "claim_visit owner c r = Inr r' \<Longrightarrow> same_frame r r'"
  unfolding claim_visit_def bind_result_Inr using bump_frame(1) claim_frame same_frame_trans by blast

lemma claim_where_frame: "claim_where g hit owner c r = Inr r' \<Longrightarrow> same_frame r r'"
  unfolding claim_where_def
  by (auto simp: bind_result_Inr dest!: bump_frame(1) intro: same_frame_trans[OF _ claim_frame] split: prod.splits if_splits)

lemma folded_claims:
  "fold_result (claim_visit owner) cs r = Inr r' \<Longrightarrow> same_frame r r'"
  "fold_result (claim_where g hit owner) cs r = Inr r' \<Longrightarrow> same_frame r r'"
  by (erule fold_frame, rule claim_visit_frame, assumption) (erule fold_frame, rule claim_where_frame, assumption)

lemma block_outside_frame: "block_outside g e xy r = Inr r' \<Longrightarrow> same_frame r r'"
proof -
  assume "block_outside g e xy r = Inr r'"
  then obtain r1 where "bump_raster_candidate r = Inr r1" "r' = r1 \<or> (\<exists>B. r' = r1\<lparr>blocked := B\<rparr>)"
    unfolding block_outside_def by (cases xy) (auto simp: bind_result_Inr split: if_splits)
  then have "same_frame r r1" "same_frame r1 r'" by (auto dest: bump_frame(1) simp: same_frame_def)
  then show ?thesis by (rule same_frame_trans)
qed

lemma feature_frame:
  "raster_rect g i ob1 r = Inr r' \<Longrightarrow> same_frame r r'"
  "raster_round g d c ob2 r = Inr r' \<Longrightarrow> same_frame r r'"
  "raster_capsule g d c ob3 r = Inr r' \<Longrightarrow> same_frame r r'"
  "raster_polygon g k n polygon ls owner r = Inr r' \<Longrightarrow> same_frame r r'"
  "raster_keepout g k n area r = Inr r' \<Longrightarrow> same_frame r r'"
  unfolding raster_rect_def raster_round_def raster_capsule_def raster_keepout_def raster_polygon_def Let_def
  by (auto simp: bind_result_Inr same_frame_refl split: if_splits option.splits prod.splits
      dest!: folded_claims)

lemma folded_features:
  "fold_result (block_outside g e) cells r = Inr r' \<Longrightarrow> same_frame r r'"
  "fold_result (raster_rect g i) obs1 r = Inr r' \<Longrightarrow> same_frame r r'"
  "fold_result (raster_round g d c) obs2 r = Inr r' \<Longrightarrow> same_frame r r'"
  "fold_result (raster_capsule g d c) obs3 r = Inr r' \<Longrightarrow> same_frame r r'"
  "fold_result (\<lambda>ob. raster_polygon g k m (obstacle_polygon ob) (polygon_layers ob) (polygon_net_id ob)) obs4 r = Inr r' \<Longrightarrow>
    same_frame r r'"
  "fold_result (raster_keepout g k m) areas r = Inr r' \<Longrightarrow> same_frame r r'"
  by (erule fold_frame, erule block_outside_frame feature_frame)+

lemma rasterize_frame:
  assumes "rasterize_obstacles r = Inr r'"
  shows "same_frame r r'"
  using assms unfolding rasterize_obstacles_def Let_def
    by (auto simp: bind_result_Inr split: prod.splits dest!: folded_features elim!: same_frame_trans)

lemma accepted:
  assumes "new_with_variant b v = Inr r"
  shows "validate_routing_resource_bounds b = Inr ()" "valid_board b" "rasterize_obstacles (fresh_router b v) = Inr r"
    "same_frame (fresh_router b v) r"
  using assms new_checks_valid[of b] rasterize_frame[of "fresh_router b v" r]
  by (auto simp: new_with_variant_def bind_result_Inr map_error_def split: sum.splits)

lemma valid_routable: "valid_board b \<Longrightarrow> routable_board b"
  by (simp add: valid_board_def valid_base_def valid_dimensions_def routable_board_def positive_board_def)

text \<open>The types of the fields that the code gives by unsigned types.\<close>

definition u32_costs :: "board \<Rightarrow> bool" where
  "u32_costs b \<longleftrightarrow> bend_cost (rules_of b) < 2 ^ 32 \<and> via_cost (rules_of b) < 2 ^ 32"

lemma rules_for_net_costs:
  "bend_cost (rules_for_net b n) = bend_cost (rules_of b)" "via_cost (rules_for_net b n) = via_cost (rules_of b)"
  "grid_nm (rules_for_net b n) = grid_nm (rules_of b)"
  by (auto simp: rules_for_net_def merged_with_def Let_def split: option.splits)

lemma accepted_net_input:
  assumes "new_with_variant b v = Inr r" "u32_costs b" "n \<in> set (nets b)" "budget \<le> MAX_ASTAR_WORK_BUDGET"
  shows "net_input r n budget"
proof -
  note a = accepted[OF assms(1)]
  have r: "board_of r = b" "congestion r = Map.empty" using a(4) by (simp_all add: same_frame_def fresh_router_def)
  have "terminal_layers t \<in> item_layers b" if "t \<in> set (terminals n)" for t
    using that assms(3) unfolding item_layers_def by blast
  then have "\<forall>t \<in> set (terminals n). declared_layers b (terminal_layers t)" "\<forall>l \<in> set (copper_layers b). supported_layer l"
    using a(2) by (simp_all add: valid_board_def valid_items_def valid_base_def)
  then show ?thesis
    using assms(2,4) by (auto simp: net_input_def r rules_for_net_costs u32_costs_def declared_layers_def)
qed

section \<open>The property\<close>

text \<open>C13: The checks of \<open>Router::new\<close> accept exactly the valid boards: their tests on the bits of
  floating-point numbers, on names already met and on layers and identifiers amount to the
  description over real numbers, lists without repetition and sets of declared layers and nets.\<close>

theorem new_checks_exact: "new_checks b = Inr () \<longleftrightarrow> valid_board b"
  by (rule new_checks_valid)

end
