(* ===== verification/Accepted.thy ===== *)
theory Accepted
  imports Validation
begin

text \<open>
  What an accepted board promises end to end: a router that \<open>Router::new\<close> of
  \<open>crates/pcbex-core/src/lib.rs\<close> returns meets the assumptions of net routing, and the cells of its
  paths keep the clearance that the geometry asks for.
\<close>

section \<open>The grid of an accepted board\<close>

lemma sdiv_bounds:
  fixes a g :: int
  assumes "0 < g"
  shows "\<bar>a sdiv g\<bar> \<le> \<bar>a\<bar>" "a \<le> w \<Longrightarrow> 0 \<le> w \<Longrightarrow> a sdiv g \<le> w div g"
proof -
  have le: "\<bar>a\<bar> div g \<le> \<bar>a\<bar>" using assms zdiv_mono2[of "\<bar>a\<bar>" 1 g] by simp
  have sdiv: "a sdiv g = sgn a * (\<bar>a\<bar> div g)" using assms by (simp add: signed_divide_int_def sgn_if)
  have nonneg: "0 \<le> \<bar>a\<bar> div g" using assms by (simp add: pos_imp_zdiv_nonneg_iff)
  show "\<bar>a sdiv g\<bar> \<le> \<bar>a\<bar>" unfolding sdiv using le nonneg
    by (cases a "0 :: int" rule: linorder_cases) simp_all
  show "a sdiv g \<le> w div g" if "a \<le> w" "0 \<le> w"
  proof (cases "0 \<le> a")
    case True
    then show ?thesis using that assms zdiv_mono1[of a w g] by (simp add: sdiv_nonneg)
  next
    case False
    then have "a sdiv g \<le> 0" unfolding sdiv using nonneg by (simp add: sgn_if)
    also have "0 \<le> w div g" using that assms by (simp add: pos_imp_zdiv_nonneg_iff)
    finally show ?thesis .
  qed
qed

lemma accepted_dimensions:
  assumes "validate_routing_resource_bounds b = Inr ()" "v \<in> set (board_dimensions b)"
  shows "\<bar>v\<bar> \<le> 1000000000"
  using validated_phases(3)[of b PRODUCTION] assms
  by (simp add: validate_routing_resource_bounds_def PRODUCTION_def MAX_BOARD_EXTENT_NM_def)

lemma class_of_netD: "class_for_net b n = Some c \<Longrightarrow> c \<in> snd ` set (net_classes b)"
  by (auto simp: class_for_net_def bind_eq_Some_conv image_iff dest!: map_of_SomeD intro!: bexI)

lemma track_width_bounds:
  assumes "validate_routing_resource_bounds b = Inr ()" "valid_board b"
  shows "0 < track_width_nm (rules_for_net b n)" "track_width_nm (rules_for_net b n) \<le> 1000000000"
proof -
  have base: "0 < track_width_nm (rules_of b)" "track_width_nm (rules_of b) \<in> set (board_dimensions b)"
    using assms(2) by (simp_all add: valid_board_def valid_base_def valid_dimensions_def board_dimensions_def rule_dimensions_def Let_def)
  have of_class: "0 < class_track_width_nm c \<and> class_track_width_nm c \<in> set (board_dimensions b) \<and>
      (\<forall>w. differential_width_nm c = Some w \<longrightarrow> 0 < w \<and> w \<in> set (board_dimensions b))"
    if found: "class_for_net b n = Some c" for c
  proof -
    obtain name where c: "(name, c) \<in> set (net_classes b)" using class_of_netD[OF found] by auto
    then have "valid_class b (name, c)" using assms(2) by (simp add: valid_board_def)
    then have "0 < class_track_width_nm c" "\<forall>w. differential_width_nm c = Some w \<longrightarrow> 0 < w"
      by (auto simp: valid_class_def valid_dimensions_def optionally_def)
    moreover have "class_track_width_nm c \<in> set (board_dimensions b)" "or_zero (differential_width_nm c) \<in> set (board_dimensions b)"
      using c by (force simp: board_dimensions_def rule_dimensions_def Let_def)+
    ultimately show ?thesis by (auto simp: or_zero_def)
  qed
  have "0 < track_width_nm (rules_for_net b n) \<and> track_width_nm (rules_for_net b n) \<in> set (board_dimensions b)"
    using base of_class by (auto simp: rules_for_net_def merged_with_def Let_def split: option.splits)
  then show "0 < track_width_nm (rules_for_net b n)" "track_width_nm (rules_for_net b n) \<le> 1000000000"
    using accepted_dimensions[OF assms(1), of "track_width_nm (rules_for_net b n)"] by auto
qed

lemma accepted_positive:
  assumes "validate_routing_resource_bounds b = Inr ()" "valid_board b"
  shows "0 < grid_nm (rules_of b)" "0 < board_width_nm b" "0 < board_height_nm b" "board_width_nm b \<le> 1000000000"
    "board_height_nm b \<le> 1000000000" "grid_nm (rules_of b) \<le> 1000000000"
proof -
  show "0 < grid_nm (rules_of b)" "0 < board_width_nm b" "0 < board_height_nm b"
    using assms(2) by (simp_all add: valid_board_def valid_base_def)
  have "board_width_nm b \<in> set (board_dimensions b)" "board_height_nm b \<in> set (board_dimensions b)"
    "grid_nm (rules_of b) \<in> set (board_dimensions b)"
    by (simp_all add: board_dimensions_def rule_dimensions_def Let_def)
  from this[THEN accepted_dimensions[OF assms(1)]]
  show "board_width_nm b \<le> 1000000000" "board_height_nm b \<le> 1000000000" "grid_nm (rules_of b) \<le> 1000000000"
    by linarith+
qed

text \<open>The casts to \<open>i32\<close> of the range of track cells are exact, and the range lies on the grid.\<close>

lemma track_range:
  assumes "validate_routing_resource_bounds b = Inr ()" "valid_board b" "board_of r = b"
    and e: "e = search_env_for r n t goals (rules_for_net b n)"
  shows "0 \<le> min_track_cell e" "max_x e \<le> board_width_nm b div grid_nm (rules_of b)"
    "max_y e \<le> board_height_nm b div grid_nm (rules_of b)"
proof -
  let ?g = "grid_nm (rules_of b)"
  define radius where "radius = track_width_nm (rules_for_net b n) sdiv 2"
  note pos = accepted_positive[OF assms(1,2)]
  note w = track_width_bounds[OF assms(1,2), of n]
  have radius: "0 \<le> radius" "radius \<le> 500000000" using w by (simp_all add: radius_def sdiv_nonneg)
  have fields: "min_track_cell e = wrap_i32 ((radius + ?g - 1) sdiv ?g)" "max_x e = wrap_i32 ((board_width_nm b - radius) sdiv ?g)"
    "max_y e = wrap_i32 ((board_height_nm b - radius) sdiv ?g)"
    by (simp_all add: e search_env_for_def Let_def assms(3) rules_for_net_costs radius_def)
  have small: "i32_ok (x sdiv ?g)" if "\<bar>x\<bar> \<le> 2000000000" for x
    using order.trans[OF sdiv_bounds(1)[OF pos(1)] that] by (auto simp: i32_ok_def)
  have "i32_ok ((radius + ?g - 1) sdiv ?g)" "i32_ok ((board_width_nm b - radius) sdiv ?g)" "i32_ok ((board_height_nm b - radius) sdiv ?g)"
    by (rule small, use radius pos in linarith)+
  then have cells: "min_track_cell e = (radius + ?g - 1) sdiv ?g" "max_x e = (board_width_nm b - radius) sdiv ?g"
    "max_y e = (board_height_nm b - radius) sdiv ?g"
    unfolding fields by (simp_all add: wrap_i32_id)
  show "0 \<le> min_track_cell e" unfolding cells using radius pos by (simp add: sdiv_nonneg pos_imp_zdiv_nonneg_iff)
  show "max_x e \<le> board_width_nm b div ?g" "max_y e \<le> board_height_nm b div ?g"
    unfolding cells using radius pos by (simp_all add: sdiv_bounds(2)[OF pos(1)])
qed

section \<open>Steps keep to free cells of the grid\<close>

lemma move_target:
  assumes "(m, w) \<in> set (moves e p)" "valid_node e p" "good_env e"
  shows "(endpoint_cell e (node_cell m) \<or> free_for (env_router e) (env_net e) (node_cell m)) \<and>
    ((min_track_cell e \<le> node_x m \<and> node_x m \<le> max_x e \<and> min_track_cell e \<le> node_y m \<and> node_y m \<le> max_y e) \<or>
     (via_inside_board e p \<and> node_x m = node_x p \<and> node_y m = node_y p))"
  using assms(1) unfolding set_moves
proof (elim disjE exE conjE bexE)
  fix k assume "track_target e p k = Some (m, w)"
  then show ?thesis using track_target_clear(1) track_target_inside unfolding node_cell_def by blast
next
  fix l assume l: "via_inside_board e p" "l \<in> set (copper_layers (board_of (env_router e)))" "via_target e p l = Some (m, w)"
  obtain v k where v: "search_via e p l = Some (v, k)" "m = p\<lparr>node_layer := layer_index l\<rparr>"
    "\<And>l'. l' \<in> set (copper_layers (board_of (env_router e))) \<Longrightarrow> spans_layer v l' \<Longrightarrow>
      free_for (env_router e) (env_net e) (node_x p, node_y p, layer_index l')"
    using via_target_clear[OF l(3)] by metis
  have good: "\<forall>l \<in> set (copper_layers (board_of (env_router e))). supported_layer l" using assms(3) by (simp add: good_env_def)
  obtain f where f: "f \<in> set (copper_layers (board_of (env_router e)))" "node_layer p = layer_index f"
    using assms(2) by (auto simp: valid_node_def)
  then have "layer_from_index (node_layer p) = Some f" using good layer_index_inverse by simp
  then obtain kind first final where "via_for_transition (board_of (env_router e)) f l = Some (kind, first, final, k)"
    "start_layer v = first" "end_layer v = final"
    using v(1) by (auto simp: search_via_def bind_eq_Some_conv)
  then have "spans_layer v l" using via_choice_spans good f(1) l(2) by blast
  then show ?thesis using v(2) v(3)[OF l(2)] l(1) by (simp add: node_cell_def)
qed

lemma via_radius:
  assumes "valid_board b"
  shows "0 < via_diameter_nm (rules_for_net b n)"
proof -
  have "0 < class_via_diameter_nm c" if found: "class_for_net b n = Some c" for c
  proof -
    obtain name where "(name, c) \<in> set (net_classes b)" using class_of_netD[OF found] by auto
    then have "valid_class b (name, c)" using assms by (simp add: valid_board_def)
    then show ?thesis by (auto simp: valid_class_def valid_dimensions_def)
  qed
  moreover have "0 < via_diameter_nm (rules_of b)"
    using assms by (simp add: valid_board_def valid_base_def valid_dimensions_def)
  ultimately show ?thesis by (auto simp: rules_for_net_def merged_with_def Let_def split: option.splits)
qed

lemma grid_axis:
  fixes g :: int
  assumes "0 < g" "0 \<le> radius" "radius \<le> x * g" "x * g + radius \<le> w"
  shows "0 \<le> x \<and> x \<le> w div g"
proof -
  have "0 \<le> x * g" "x * g \<le> w" using assms by linarith+
  then show ?thesis using assms(1) zdiv_mono1[of "x * g" w g] by (simp add: zero_le_mult_iff)
qed

lemma move_on_grid:
  assumes new: "new_with_variant b v = Inr r" and move: "(m, w) \<in> set (moves e p)" "valid_node e p" "good_env e"
    and e: "e = search_env_for r n t goals (rules_for_net b n)"
    and "\<not> endpoint_cell e (node_cell m)"
  shows "clear_spot b n (node_cell m)"
proof -
  note a = accepted[OF new]
  have r: "board_of r = b" using a(4) by (simp add: same_frame_def fresh_router_def)
  note range = track_range[OF a(1,2) r e]
  have fields: "env_router e = r" "env_net e = n" "grid_nm (env_rules e) = grid_nm (rules_of b)"
    "env_rules e = rules_for_net b n"
    by (simp_all add: e search_env_for_def Let_def rules_for_net_costs)
  note target = move_target[OF move]
  have free: "free_for r n (node_cell m)" using target assms(6) by (simp add: fields)
  have "on_grid b (node_cell m)"
    using target[THEN conjunct2]
  proof
    assume via: "via_inside_board e p \<and> node_x m = node_x p \<and> node_y m = node_y p"
    let ?radius = "via_diameter_nm (rules_for_net b n) sdiv 2"
    have "0 \<le> ?radius" using via_radius[OF a(2), of n] by (simp add: sdiv_nonneg pos_imp_zdiv_nonneg_iff)
    note axis = grid_axis[OF accepted_positive(1)[OF a(1,2)] this]
    have "?radius \<le> node_x m * grid_nm (rules_of b)" "node_x m * grid_nm (rules_of b) + ?radius \<le> board_width_nm b"
      "?radius \<le> node_y m * grid_nm (rules_of b)" "node_y m * grid_nm (rules_of b) + ?radius \<le> board_height_nm b"
      using via unfolding via_inside_board_def Let_def fields r by (simp_all add: rules_for_net_costs)
    then show ?thesis using axis by (simp add: on_grid_def node_cell_def)
  qed (use range in \<open>simp add: on_grid_def node_cell_def\<close>)
  moreover have "on_layer (copper_layers b) (node_cell m)"
    using move_valid[OF move] by (auto simp: valid_node_def fields r on_layer_def node_cell_def)
  ultimately show ?thesis using free_cell_clear[OF a(3) valid_routable[OF a(2)] _ _ free] by blast
qed

section \<open>The properties\<close>


text \<open>C9: A router that \<open>Router::new\<close> returns can route every net of its board: within the production
  budget \<open>route_net\<close> does not panic, whatever the classes, layers and terminals of the board, and a
  route that it returns for a net with anchored terminals connects all pads of the net.\<close>

theorem accepted_board_routes:
  assumes "new_with_variant b v = Inr r" and "u32_costs b" and "n \<in> set (nets b)"
    and "budget \<le> MAX_ASTAR_WORK_BUDGET" and "route_net r n budget = (ending, left)"
  shows "ending \<noteq> Net_Panicked \<and> left \<le> budget \<and>
    (\<forall>rt x. ending = Routed rt x \<longrightarrow> 2 \<le> length (terminals n) \<longrightarrow>
      (\<forall>t \<in> set (terminals n). anchored r (net_ident n) (net_rules r n) t) \<longrightarrow> all_wired n rt)"
proof -
  note input = accepted_net_input[OF assms(1-4)]
  have "ending \<noteq> Net_Panicked \<and> left \<le> budget"
    using route_outcome[OF input] unfolding assms(5) net_outcome_def by (auto split: net_end.splits bool.splits)
  then show ?thesis using route_wired[OF input _ _ assms(5)[THEN trans]] route_wired[OF input] assms(5) by blast
qed

section \<open>A concrete board\<close>

text \<open>A board with three track cells in a row.\<close>

definition row_board :: board where
  "row_board = strip_board\<lparr>board_width_nm := 40, nets := [strip_net]\<rparr>"

lemmas row_board_defs = row_board_def strip_board_def tiny_board_def blank_board_def strip_net_def strip_terminal_def strip_end_def

lemma row_validates: "validate_routing_resource_bounds row_board = Inr ()"
  by (simp add: validate_routing_resource_bounds_def Let_def validation_defs row_board_defs)

lemma row_valid: "new_checks row_board = Inr ()"
  by (simp add: new_checks_valid valid_board_def valid_base_def valid_dimensions_def valid_items_def item_layers_def
      valid_shapes_def valid_stackup_def valid_pairs_def valid_groups_def valid_escapes_def valid_rules_def
      declared_layers_def optionally_def row_board_defs)

lemma row_raster:
  "\<exists>r. rasterize_obstacles (fresh_router row_board 0) = Inr r \<and> (2, 1, 0) \<notin> blocked r \<and> owned r (2, 1, 0) = None"
  by (simp add: raster_defs row_board_defs Let_def upto_rec1)

lemma row_facts: "rules_of row_board = strip_rules" "copper_layers row_board = [Front]" "keepouts row_board = []"
  "nets row_board = [strip_net]" "board_width_nm row_board = 40" "board_height_nm row_board = 20"
  by (simp_all add: row_board_def strip_board_def tiny_board_def blank_board_def)

lemma row_rules: "rules_for_net row_board 3 = strip_rules"
  by (simp add: rules_for_net_def class_for_net_def row_facts strip_net_def)

definition row_router :: "router \<Rightarrow> bool" where
  "row_router r \<longleftrightarrow> new_with_variant row_board 0 = Inr r \<and> (2, 1, 0) \<notin> blocked r \<and> owned r (2, 1, 0) = None"

lemma row_router_exists: "\<exists>r. row_router r"
  using row_raster by (auto simp: row_router_def new_with_variant_def row_validates row_valid map_error_def)

lemma row_router_frame:
  assumes "row_router r"
  shows "board_of r = row_board" "occupied r = {}" "congestion r = Map.empty" "search_variant r = 0"
  using accepted(4)[of row_board 0 r] assms by (simp_all add: row_router_def same_frame_def fresh_router_def)

definition row_env :: "router \<Rightarrow> search_env" where
  "row_env r = \<lparr>env_router = r, env_net = 3, env_rules = strip_rules, env_goals = [(3, 1, 0)],
     start_x = 1, start_y = 1, min_track_cell = 1, max_x = 3, max_y = 1\<rparr>"

lemma row_env: "row_router r \<Longrightarrow> search_env_for r 3 strip_terminal [(3, 1, 0)] strip_rules = row_env r"
  by (simp add: search_env_for_def strip_terminal_def strip_facts row_facts row_router_frame row_env_def
      nearest_grid_def sdiv_nonneg wrap_i32_id i32_ok_def)

lemma row_moves:
  assumes "row_router r"
  shows "(strip_node 2 0, 10) \<in> set (moves (row_env r) (strip_node 1 8))"
    "(strip_node 3 0, 10) \<in> set (moves (row_env r) (strip_node 2 0))"
proof -
  have near: "proximity r x y l = 0" for x y l
    by (simp add: proximity_def row_router_frame[OF assms] window_grid_def upto_rec1)
  have free: "clear_cell (row_env r) (2, 1, 0)"
    using assms by (simp add: clear_cell_def obstructed_def foreign_obstacle_def row_env_def row_router_def layer_from_index_def
        row_router_frame[OF assms] row_facts Let_def)
  have "track_target (row_env r) (strip_node 1 8) 0 = Some (strip_node 2 0, 10)"
    "track_target (row_env r) (strip_node 2 0) 0 = Some (strip_node 3 0, 10)"
    using free by (simp_all add: track_target_def DIRS_def row_env_def endpoint_cell_def track_cost_def near row_router_frame[OF assms])
  then show "(strip_node 2 0, 10) \<in> set (moves (row_env r) (strip_node 1 8))"
    "(strip_node 3 0, 10) \<in> set (moves (row_env r) (strip_node 2 0))"
    unfolding set_moves by auto
qed

lemma row_path:
  assumes "row_router r"
  shows "route_path r 3 strip_terminal [(3, 1, 0)] strip_rules [strip_node 1 8, strip_node 2 0, strip_node 3 0] 20"
proof -
  have "weighted_path (\<lambda>n. set (moves (row_env r) n)) [strip_node 1 8] 0" by (rule weighted_path.start)
  from weighted_path.step[OF this, of "strip_node 2 0" 10] row_moves(1)[OF assms]
  have "weighted_path (\<lambda>n. set (moves (row_env r) n)) [strip_node 1 8, strip_node 2 0] 10" by simp
  from weighted_path.step[OF this, of "strip_node 3 0" 10] row_moves(2)[OF assms]
  have "weighted_path (\<lambda>n. set (moves (row_env r) n)) [strip_node 1 8, strip_node 2 0, strip_node 3 0] 20" by simp
  moreover have "strip_node 1 8 \<in> set (terminal_nodes r 3 strip_terminal strip_rules)"
    by (simp add: terminal_nodes_def strip_terminal_def strip_facts row_facts row_router_frame[OF assms] allowed_layer_def
        layers_for_net_def class_for_net_def strip_net_def nearest_grid_def sdiv_nonneg wrap_i32_id i32_ok_def layer_index_def)
  ultimately show ?thesis
    by (simp add: route_path_def graph_path_def row_env[OF assms] goal_nodes_def row_env_def[of r])
qed


theorem accepted_board_routes_witness:
  "\<exists>r. new_with_variant row_board 0 = Inr r \<and> fst (route_net r strip_net 20) \<noteq> Net_Panicked \<and>
    snd (route_net r strip_net 20) \<le> 20"
proof -
  obtain r where r: "row_router r" using row_router_exists by blast
  have "u32_costs row_board" "20 \<le> MAX_ASTAR_WORK_BUDGET" "strip_net \<in> set (nets row_board)"
    by (simp_all add: u32_costs_def row_facts strip_facts MAX_ASTAR_WORK_BUDGET_def)
      (use strip_input_front in \<open>simp_all add: search_input_def\<close>)
  then show ?thesis
    using accepted_board_routes[of row_board 0 r strip_net 20 "fst (route_net r strip_net 20)" "snd (route_net r strip_net 20)"] r
    by (auto simp: row_router_def)
qed

end
