(* ===== verification/Workers.thy ===== *)
theory Workers
  imports NetConnect
begin

text \<open>
  The first pass of \<open>Router::try_route_all_with_workers\<close> in \<open>crates/pcbex-core/src/lib.rs\<close>: worker
  threads claim net after net from an atomic counter and route each with its own lease of the work
  budget; the results are merged in the order of the nets. The interleavings of the threads are the
  runs of a step relation. Every run ends, and all end with the same results.
\<close>

section \<open>Threads that share a counter\<close>

text \<open>A thread is about to claim an index, works on one, or has left its loop.\<close>

datatype phase = Ready | Working nat | Finished

record 'r pool =
  claimed :: nat
  slots :: "'r option list"
  crew :: "phase list"

definition pool_start :: "nat \<Rightarrow> nat \<Rightarrow> 'r pool" where
  "pool_start jobs workers = \<lparr>claimed = 0, slots = replicate jobs None, crew = replicate workers Ready\<rparr>"

text \<open>The steps of one thread: \<open>fetch_add\<close> and a successful \<open>get\<close>, \<open>fetch_add\<close> and the break, and the
  result stored under the lock. The work itself reads only shared data.\<close>

inductive pool_step :: "(nat \<Rightarrow> 'r) \<Rightarrow> nat \<Rightarrow> 'r pool \<Rightarrow> 'r pool \<Rightarrow> bool" for job jobs where
  claim: "w < length (crew p) \<Longrightarrow> crew p ! w = Ready \<Longrightarrow> claimed p < jobs \<Longrightarrow>
    pool_step job jobs p (p\<lparr>claimed := claimed p + 1, crew := (crew p)[w := Working (claimed p)]\<rparr>)"
| leave: "w < length (crew p) \<Longrightarrow> crew p ! w = Ready \<Longrightarrow> jobs \<le> claimed p \<Longrightarrow>
    pool_step job jobs p (p\<lparr>claimed := claimed p + 1, crew := (crew p)[w := Finished]\<rparr>)"
| store: "w < length (crew p) \<Longrightarrow> crew p ! w = Working i \<Longrightarrow>
    pool_step job jobs p (p\<lparr>slots := (slots p)[i := Some (job i)], crew := (crew p)[w := Ready]\<rparr>)"

text \<open>Every claimed index is stored or being worked on, and the others are untouched.\<close>

definition pool_inv :: "(nat \<Rightarrow> 'r) \<Rightarrow> nat \<Rightarrow> nat \<Rightarrow> 'r pool \<Rightarrow> bool" where
  "pool_inv job jobs workers p \<longleftrightarrow>
     length (slots p) = jobs \<and> length (crew p) = workers \<and>
     (\<forall>i < jobs. i < claimed p \<longrightarrow> slots p ! i = Some (job i) \<or> Working i \<in> set (crew p)) \<and>
     (\<forall>i. Working i \<in> set (crew p) \<longrightarrow> i < jobs) \<and>
     (Finished \<in> set (crew p) \<longrightarrow> jobs \<le> claimed p)"

lemma pool_inv_start: "pool_inv job jobs workers (pool_start jobs workers)"
  by (auto simp: pool_inv_def pool_start_def)

lemma update_keeps: "x \<in> set xs \<Longrightarrow> x \<noteq> xs ! w \<Longrightarrow> x \<in> set (xs[w := y])"
  unfolding in_set_conv_nth by (metis length_list_update nth_list_update_neq)

lemma pool_inv_step:
  assumes "pool_step job jobs p p'" "pool_inv job jobs workers p"
  shows "pool_inv job jobs workers p'"
  using assms
proof (cases rule: pool_step.cases)
  case (claim w)
  have "Working i \<in> set ((crew p)[w := Working (claimed p)])" if "Working i \<in> set (crew p)" for i
    using update_keeps[OF that] claim(3) by simp
  moreover have "Working (claimed p) \<in> set ((crew p)[w := Working (claimed p)])" using claim(2) by (simp add: set_update_memI)
  ultimately show ?thesis
    using assms(2) claim set_update_subset_insert[of "crew p" w "Working (claimed p)"]
    unfolding pool_inv_def by (auto simp: less_Suc_eq)
next
  case (leave w)
  have "Working i \<in> set ((crew p)[w := Finished])" if "Working i \<in> set (crew p)" for i
    using update_keeps[OF that] leave(3) by simp
  then show ?thesis
    using assms(2) leave set_update_subset_insert[of "crew p" w Finished] unfolding pool_inv_def by fastforce
next
  case (store w i)
  have i: "i < jobs" "Working i \<in> set (crew p)" using assms(2) store nth_mem[of w "crew p"] by (auto simp: pool_inv_def)
  have "Working j \<in> set ((crew p)[w := Ready])" if "Working j \<in> set (crew p)" "j \<noteq> i" for j
    using update_keeps[OF that(1)] store(3) that(2) by simp
  then show ?thesis
    using assms(2) store i set_update_subset_insert[of "crew p" w Ready] unfolding pool_inv_def
    by (auto simp: nth_list_update)
qed

lemma pool_inv_run: "(pool_step job jobs)\<^sup>*\<^sup>* p p' \<Longrightarrow> pool_inv job jobs workers p \<Longrightarrow> pool_inv job jobs workers p'"
  by (induction rule: rtranclp_induct) (auto intro: pool_inv_step)

text \<open>The work that is left falls with every step.\<close>

fun phase_effort :: "phase \<Rightarrow> nat" where
  "phase_effort Ready = 1"
| "phase_effort (Working i) = 2"
| "phase_effort Finished = 0"

definition effort :: "nat \<Rightarrow> 'r pool \<Rightarrow> nat" where
  "effort jobs p = 3 * (jobs - claimed p) + sum_list (map phase_effort (crew p))"

lemma effort_update:
  "w < length xs \<Longrightarrow> sum_list (map phase_effort (xs[w := y])) + phase_effort (xs ! w) =
    sum_list (map phase_effort xs) + phase_effort y"
  using sum_list_update[of w "map phase_effort xs" "phase_effort y"] member_le_sum_list[of "phase_effort (xs ! w)" "map phase_effort xs"]
  by (simp add: map_update[symmetric] algebra_simps)

lemma pool_step_effort:
  assumes "pool_step job jobs p p'"
  shows "effort jobs p' < effort jobs p"
  using assms
proof (cases rule: pool_step.cases)
  case (claim w)
  then show ?thesis
    using effort_update[of w "crew p" "Working (claimed p)"] by (simp add: effort_def)
next
  case (leave w)
  then show ?thesis
    using effort_update[of w "crew p" Finished] by (simp add: effort_def)
next
  case (store w i)
  then show ?thesis
    using effort_update[of w "crew p" Ready] by (simp add: effort_def)
qed

lemma pool_run_length: "(pool_step job jobs ^^ m) p p' \<Longrightarrow> m + effort jobs p' \<le> effort jobs p"
proof (induction m arbitrary: p')
  case (Suc m)
  then obtain q where "(pool_step job jobs ^^ m) p q" "pool_step job jobs q p'" by (auto elim: relpowp_Suc_E)
  then show ?case using Suc.IH[of q] pool_step_effort[of job jobs q p'] by simp
qed simp

lemma pool_stuck:
  assumes "\<nexists>p'. pool_step job jobs p p'"
  shows "set (crew p) \<subseteq> {Finished}"
proof
  fix x assume "x \<in> set (crew p)"
  then obtain w where w: "w < length (crew p)" "crew p ! w = x" by (auto simp: in_set_conv_nth)
  show "x \<in> {Finished}"
  proof (cases x)
    case Ready
    then show ?thesis using assms w pool_step.claim[of w p jobs job] pool_step.leave[of w p jobs job] by (metis not_less)
  next
    case (Working i)
    then show ?thesis using assms w pool_step.store[of w p i job jobs] by blast
  qed simp
qed

lemma pool_end:
  assumes "(pool_step job jobs)\<^sup>*\<^sup>* (pool_start jobs workers) p" "\<nexists>p'. pool_step job jobs p p'" "0 < workers"
  shows "slots p = map (\<lambda>i. Some (job i)) [0..<jobs]"
proof -
  note inv = pool_inv_run[OF assms(1) pool_inv_start]
  have all: "set (crew p) \<subseteq> {Finished}" using pool_stuck[OF assms(2)] .
  then have "Finished \<in> set (crew p)"
    using inv assms(3) by (cases "crew p") (auto simp: pool_inv_def)
  then have "jobs \<le> claimed p" using inv by (simp add: pool_inv_def)
  moreover have "Working i \<notin> set (crew p)" for i using all by blast
  ultimately have "slots p ! i = Some (job i)" if "i < jobs" for i
    using inv that unfolding pool_inv_def by (meson less_le_trans)
  then show ?thesis using inv by (intro nth_equalityI) (simp_all add: pool_inv_def)
qed

section \<open>Leases of the work budget\<close>

text \<open>An error string, or a panic.\<close>

datatype run_error = Run_Error router_error | Run_Panic

definition budget_error :: run_error where
  "budget_error = Run_Error (Message ''resource limit exceeded: astar work budget'')"

definition lease_quotas :: "nat \<Rightarrow> nat \<Rightarrow> nat list" where
  "lease_quotas available net_count =
     (let base = available div net_count;
          remainder = available mod net_count
      in map (\<lambda>i. base + (if i < remainder then 1 else 0)) [0..<net_count])"

text \<open>The result of one net and the units it used; \<open>None\<close> is the panic of \<open>used\<close>.\<close>

type_synonym lease_result = "net_end \<times> nat option"

definition lease_job :: "router \<Rightarrow> net list \<Rightarrow> nat list \<Rightarrow> nat \<Rightarrow> lease_result" where
  "lease_job r ns quotas i =
     (let quota = quotas ! i;
          (ending, left) = route_net r (ns ! i) quota
      in (ending, used left quota))"

definition merge_step :: "lease_result \<Rightarrow> net_end list \<times> work_budget \<Rightarrow> run_error + net_end list \<times> work_budget" where
  "merge_step result st =
     (case result of (ending, units) \<Rightarrow>
        bind_result (ok_or Run_Panic units) (\<lambda>u.
        bind_result (ok_or budget_error (debit (snd st) u)) (\<lambda>b.
        Inr (fst st @ [ending], b))))"

definition first_pass :: "router \<Rightarrow> net list \<Rightarrow> work_budget \<Rightarrow> run_error + net_end list \<times> work_budget" where
  "first_pass r ns budget =
     (let quotas = lease_quotas budget (length ns)
      in fold_result merge_step (map (lease_job r ns quotas) [0..<length ns]) ([], budget))"

lemma lease_quotas_length [simp]: "length (lease_quotas a n) = n"
  by (simp add: lease_quotas_def Let_def)

lemma lease_quotas_nth: "i < n \<Longrightarrow> lease_quotas a n ! i = a div n + (if i < a mod n then 1 else 0)"
  by (simp add: lease_quotas_def Let_def)

lemma sum_below: "(\<Sum>i \<leftarrow> [0..<n]. if i < k then 1 else 0 :: nat) = min n k"
  by (induction n) auto

lemma lease_quotas_sum: "0 < n \<Longrightarrow> sum_list (lease_quotas a n) = a"
proof -
  assume n: "0 < n"
  have "sum_list (lease_quotas a n) = n * (a div n) + min n (a mod n)"
    by (simp add: lease_quotas_def Let_def sum_list_addf sum_below sum_list_triv)
  also have "min n (a mod n) = a mod n" using n by (simp add: less_imp_le)
  finally show ?thesis by simp
qed

lemma lease_quotas_le: "i < n \<Longrightarrow> lease_quotas a n ! i \<le> a"
proof -
  assume i: "i < n"
  then have "lease_quotas a n ! i \<le> sum_list (lease_quotas a n)" by (intro member_le_sum_list) simp_all
  then show ?thesis using lease_quotas_sum[of n a] i by simp
qed

lemma merge_fold:
  assumes "\<forall>res \<in> set rs. snd res \<noteq> None" "sum_list (map (the \<circ> snd) rs) \<le> b"
  shows "fold_result merge_step rs (es, b) = Inr (es @ map fst rs, b - sum_list (map (the \<circ> snd) rs))"
  using assms
proof (induction rs arbitrary: es b)
  case (Cons res rs)
  obtain e u where res: "res = (e, Some u)" using Cons.prems(1) by (cases res) auto
  have "u \<le> b" using Cons.prems(2) by (simp add: res)
  then show ?case using Cons.IH[of "b - u" "es @ [e]"] Cons.prems by (simp add: res merge_step_def debit_def)
qed simp

lemma route_net_budget:
  assumes "net_input r n budget"
  shows "snd (route_net r n budget) \<le> budget" "fst (route_net r n budget) \<noteq> Net_Panicked"
  using route_outcome[OF assms] by (auto simp: net_outcome_def split: prod.splits net_end.splits bool.splits)

lemma net_input_less: "net_input r n b \<Longrightarrow> b' \<le> b \<Longrightarrow> net_input r n b'"
  by (simp add: net_input_def)

lemma first_pass_result:
  assumes input: "\<forall>n \<in> set ns. net_input r n budget" and "ns \<noteq> []"
  defines "quotas \<equiv> lease_quotas budget (length ns)"
  shows "\<exists>left \<le> budget. first_pass r ns budget =
    Inr (map (\<lambda>i. fst (route_net r (ns ! i) (quotas ! i))) [0..<length ns], left)"
proof -
  let ?job = "lease_job r ns quotas" and ?is = "[0..<length ns]"
  have job: "?job i = (fst (route_net r (ns ! i) (quotas ! i)), Some (quotas ! i - snd (route_net r (ns ! i) (quotas ! i))))"
    if "i < length ns" for i
  proof -
    have "net_input r (ns ! i) (quotas ! i)"
      using net_input_less[OF bspec[OF input nth_mem[OF that]] lease_quotas_le[OF that]] by (simp add: quotas_def)
    from route_net_budget(1)[OF this] show ?thesis
      by (cases "route_net r (ns ! i) (quotas ! i)") (simp add: lease_job_def used_def Let_def)
  qed
  have "sum_list (map (the \<circ> snd) (map ?job ?is)) \<le> sum_list (map ((!) quotas) ?is)"
    unfolding map_map by (rule sum_list_mono) (simp add: job)
  also have "map ((!) quotas) ?is = quotas" by (rule nth_equalityI) (simp_all add: quotas_def)
  also have "sum_list quotas = budget" using assms(2) by (simp add: quotas_def lease_quotas_sum)
  finally have "sum_list (map (the \<circ> snd) (map ?job ?is)) \<le> budget" .
  moreover have "\<forall>res \<in> set (map ?job ?is). snd res \<noteq> None" by (simp add: job)
  ultimately have "first_pass r ns budget = Inr (map fst (map ?job ?is), budget - sum_list (map (the \<circ> snd) (map ?job ?is)))"
    using merge_fold[of "map ?job ?is" budget "[]"] by (simp add: first_pass_def Let_def quotas_def)
  moreover have "map fst (map ?job ?is) = map (\<lambda>i. fst (route_net r (ns ! i) (quotas ! i))) ?is"
    by (simp add: job)
  ultimately show ?thesis by (intro exI[of _ "budget - sum_list (map (the \<circ> snd) (map ?job ?is))"]) simp
qed

section \<open>The properties\<close>

text \<open>C17: The first pass does not depend on the number of workers or on how the scheduler interleaves
  them. A run of at least one worker on \<open>n\<close> nets takes at most three steps per net and one per
  worker, it can only stop when every worker has left its loop, and then the result of every net is
  stored at its index and is the result of routing that net with its own lease.\<close>

theorem workers_schedule_irrelevant:
  assumes "0 < workers" and "quotas = lease_quotas budget (length ns)"
    and "(pool_step (lease_job r ns quotas) (length ns) ^^ m) (pool_start (length ns) workers) p"
  shows "m \<le> 3 * length ns + workers \<and>
    ((\<nexists>p'. pool_step (lease_job r ns quotas) (length ns) p p') \<longrightarrow>
      slots p = map (\<lambda>i. Some (lease_job r ns quotas i)) [0..<length ns])"
proof -
  have "effort (length ns) (pool_start (length ns) workers :: lease_result pool) = 3 * length ns + workers"
    by (simp add: effort_def pool_start_def map_replicate_const sum_list_replicate)
  then have "m \<le> 3 * length ns + workers" using pool_run_length[OF assms(3)] by linarith
  moreover have "(pool_step (lease_job r ns quotas) (length ns))\<^sup>*\<^sup>* (pool_start (length ns) workers) p"
    using assms(3) by (rule relpowp_imp_rtranclp)
  ultimately show ?thesis using pool_end assms(1) by blast
qed

text \<open>The leases share the budget out exactly and evenly, and merging the results never overdraws
  it: the quotas sum up to the budget and differ by at most one unit, and for nets that routing
  accepts the first pass succeeds with a result for every net and no more budget than before.\<close>

theorem leases_share_budget:
  assumes "ns \<noteq> []" and "\<forall>n \<in> set ns. net_input r n budget"
    and "quotas = lease_quotas budget (length ns)"
  shows "sum_list quotas = budget \<and>
    (\<forall>i < length ns. \<forall>j < length ns. quotas ! i \<le> quotas ! j + 1) \<and>
    (\<exists>left \<le> budget. first_pass r ns budget =
      Inr (map (\<lambda>i. fst (route_net r (ns ! i) (quotas ! i))) [0..<length ns], left))"
  using first_pass_result[OF assms(2,1)] lease_quotas_sum[of "length ns" budget] assms(1)
  by (auto simp: assms(3) lease_quotas_nth)

section \<open>A concrete pass\<close>

text \<open>One worker that routes the net of the strip board.\<close>

theorem leases_share_budget_witness:
  "sum_list (lease_quotas 20 1) = 20 \<and>
   (\<exists>left \<le> 20. first_pass strip_router [strip_net] 20 = Inr ([fst (route_net strip_router strip_net 20)], left))"
  using leases_share_budget[of "[strip_net]" strip_router 20 "lease_quotas 20 1"] strip_net_input
  by (simp add: lease_quotas_def)

theorem workers_schedule_irrelevant_witness:
  "\<exists>p. (pool_step (lease_job strip_router [strip_net] [20]) 1 ^^ 3) (pool_start 1 1) p \<and>
    slots p = [Some (lease_job strip_router [strip_net] [20] 0)]"
proof -
  let ?step = "pool_step (lease_job strip_router [strip_net] [20]) 1"
  let ?done = "\<lparr>claimed = 2, slots = [Some (lease_job strip_router [strip_net] [20] 0)], crew = [Finished]\<rparr>"
  have a: "?step (pool_start 1 1) \<lparr>claimed = 1, slots = [None], crew = [Working 0]\<rparr>"
    using pool_step.claim[of 0 "pool_start 1 1" 1] by (simp add: pool_start_def)
  have b: "?step \<lparr>claimed = 1, slots = [None], crew = [Working 0]\<rparr>
      \<lparr>claimed = 1, slots = [Some (lease_job strip_router [strip_net] [20] 0)], crew = [Ready]\<rparr>"
    using pool_step.store[of 0 "\<lparr>claimed = 1, slots = [None], crew = [Working 0]\<rparr>" 0 "lease_job strip_router [strip_net] [20]" 1]
    by simp
  have c: "?step \<lparr>claimed = 1, slots = [Some (lease_job strip_router [strip_net] [20] 0)], crew = [Ready]\<rparr> ?done"
    using pool_step.leave[of 0 "\<lparr>claimed = 1, slots = [Some (lease_job strip_router [strip_net] [20] 0)], crew = [Ready]\<rparr>" 1
        "lease_job strip_router [strip_net] [20]"]
    by (simp add: numeral_2_eq_2)
  have run: "(?step ^^ 3) (pool_start 1 1) ?done"
    unfolding numeral_3_eq_3 using a b c by (blast intro: relpowp_0_I relpowp_Suc_I)
  have stop: "\<nexists>p'. ?step ?done p'"
  proof
    assume "\<exists>p'. ?step ?done p'"
    then obtain p' where "?step ?done p'" ..
    then show False by (cases rule: pool_step.cases) simp_all
  qed
  have "[20] = lease_quotas 20 (length [strip_net])" by (simp add: lease_quotas_def)
  from workers_schedule_irrelevant[OF _ this, where workers = 1 and r = strip_router and m = 3 and p = ?done] run stop
  have "slots ?done = map (\<lambda>i. Some (lease_job strip_router [strip_net] [20] i)) [0..<length [strip_net]]" by simp
  then show ?thesis using run by auto
qed

end
