(* ===== verification/Shove.thy ===== *)
theory Shove
  imports Accepted Workers
begin

text \<open>
  Shoving a route aside, in \<open>crates/pcbex-core/src/lib.rs\<close>: \<open>shoved_route_candidate\<close>, the checked
  edit \<open>shove_route\<close>, and \<open>try_automatic_shove\<close>, which moves one blocking route by up to two grid
  steps and routes the failed net on the changed board. The design-rule checker
  \<open>checking::check_board\<close>, not modelled here, is a parameter: a function from boards to violations.
\<close>

section \<open>The checker and moved routes\<close>

record violation =
  violation_rule :: string
  violation_net_ids :: "nat list"

type_synonym checker = "board \<Rightarrow> violation list"

definition concerns :: "checker \<Rightarrow> board \<Rightarrow> nat \<Rightarrow> bool" where
  "concerns check b k \<longleftrightarrow> (\<exists>v \<in> set (check b). k \<in> set (violation_net_ids v))"

definition translate_point :: "point \<Rightarrow> point \<Rightarrow> point" where
  "translate_point p offset = \<lparr>x_nm = x_nm p + x_nm offset, y_nm = y_nm p + y_nm offset\<rparr>"

text \<open>A function on the points of a route: of its segments, arcs, vias, teardrops and zone outlines.
  Filled polygons of zones stay.\<close>

definition map_route :: "(point \<Rightarrow> point) \<Rightarrow> route \<Rightarrow> route" where
  "map_route f rt = rt\<lparr>
     segments := map (\<lambda>s. s\<lparr>seg_start := f (seg_start s), seg_end := f (seg_end s)\<rparr>) (segments rt),
     arcs := map (\<lambda>a. a\<lparr>arc_start := f (arc_start a), arc_mid := f (arc_mid a), arc_end := f (arc_end a)\<rparr>) (arcs rt),
     vias := map (\<lambda>v. v\<lparr>via_position := f (via_position v)\<rparr>) (vias rt),
     teardrops := map (\<lambda>t. t\<lparr>teardrop_polygon := map f (teardrop_polygon t)\<rparr>) (teardrops rt),
     zones := map (\<lambda>z. z\<lparr>zone_polygon := map f (zone_polygon z)\<rparr>) (zones rt)\<rparr>"

definition translate_route :: "route \<Rightarrow> point \<Rightarrow> route" where
  "translate_route rt offset = map_route (\<lambda>p. translate_point p offset) rt"

definition move_point :: "point set \<Rightarrow> point \<Rightarrow> point \<Rightarrow> point" where
  "move_point terminal_points offset p = (if p \<in> terminal_points then p else translate_point p offset)"

text \<open>A single straight segment between terminals is bent: it leaves and returns by shoulders.\<close>

definition shoulder_segments :: "segment \<Rightarrow> point \<Rightarrow> segment list option" where
  "shoulder_segments s offset =
     (let dx = x_nm (seg_end s) - x_nm (seg_start s);
          dy = y_nm (seg_end s) - y_nm (seg_start s);
          perpendicular = (dx = 0 \<and> y_nm offset = 0) \<or> (dy = 0 \<and> x_nm offset = 0);
          shoulder = max \<bar>x_nm offset\<bar> \<bar>y_nm offset\<bar>;
          span = max \<bar>dx\<bar> \<bar>dy\<bar>
      in
      if perpendicular \<and> shoulder > 0 \<and> span > 2 * shoulder
      then
        let one = \<lparr>x_nm = x_nm (seg_start s) + sgn dx * shoulder + x_nm offset,
                   y_nm = y_nm (seg_start s) + sgn dy * shoulder + y_nm offset\<rparr>;
            two = \<lparr>x_nm = x_nm (seg_end s) - sgn dx * shoulder + x_nm offset,
                   y_nm = y_nm (seg_end s) - sgn dy * shoulder + y_nm offset\<rparr>
        in Some (map (\<lambda>(p, q). \<lparr>seg_start = p, seg_end = q, seg_layer = seg_layer s, width_nm = width_nm s\<rparr>)
             (windows2 [seg_start s, one, two, seg_end s]))
      else None)"

definition shoved_route_candidate :: "board \<Rightarrow> route \<Rightarrow> point \<Rightarrow> string + route" where
  "shoved_route_candidate b rt offset =
     bind_result (ok_or (''unknown net '' @ show_nat (net_id rt)) (find (\<lambda>n. net_ident n = net_id rt) (nets b))) (\<lambda>n.
     let moved = map_route (move_point (set (map position_nm (terminals n))) offset) rt;
         candidate =
           (if moved = rt \<and> length (segments rt) = 1
            then (case shoulder_segments (segments rt ! 0) offset of
                    None \<Rightarrow> moved | Some ss \<Rightarrow> moved\<lparr>segments := ss\<rparr>)
            else moved)
     in if candidate = rt
        then Inl (''route for net '' @ show_nat (net_id rt) @ '' has no movable interior geometry'')
        else Inr candidate)"

text \<open>\<open>join\<close> of the rule names with a comma.\<close>

fun join_names :: "string list \<Rightarrow> string" where
  "join_names [] = []"
| "join_names [s] = s"
| "join_names (s # ss) = s @ '', '' @ join_names ss"

text \<open>The checked edit: the error or success, with the board after the call. The code panics on a grid of
  zero, which a valid board does not have.\<close>

definition shove_route :: "checker \<Rightarrow> board \<Rightarrow> nat \<Rightarrow> point \<Rightarrow> (string + unit) \<times> board" where
  "shove_route check b k offset =
     (let grid = grid_nm (rules_for_net b k) in
      if offset = \<lparr>x_nm = 0, y_nm = 0\<rparr> \<or> x_nm offset smod grid \<noteq> 0 \<or> y_nm offset smod grid \<noteq> 0
      then (Inl ''shove offset must be a non-zero grid multiple'', b)
      else
        case position (\<lambda>rt. net_id rt = k) (routes b) of
          None \<Rightarrow> (Inl (''net '' @ show_nat k @ '' has no route''), b)
        | Some i \<Rightarrow>
            (case shoved_route_candidate b (routes b ! i) offset of
               Inl message \<Rightarrow> (Inl message, b)
             | Inr candidate \<Rightarrow>
                 let changed = b\<lparr>routes := (routes b)[i := candidate]\<rparr>;
                     violations = check changed
                 in if violations = [] then (Inr (), changed)
                    else (Inl (''shove for net '' @ show_nat k @ '' rejected by board rules: '' @
                           join_names (map violation_rule violations)), b)))"

text \<open>The offsets of an automatic shove, and its loops over offsets and blocking nets.\<close>

definition shove_offsets :: "nm \<Rightarrow> point list" where
  "shove_offsets grid =
     concat (map (\<lambda>d. [\<lparr>x_nm = d * grid, y_nm = 0\<rparr>, \<lparr>x_nm = - d * grid, y_nm = 0\<rparr>,
       \<lparr>x_nm = 0, y_nm = d * grid\<rparr>, \<lparr>x_nm = 0, y_nm = - d * grid\<rparr>]) [1, 2])"

type_synonym shove_result = "(nat \<times> route \<times> route \<times> nat) option"

text \<open>One pair of an offset and a blocking net: an error, the result of the shove, or \<open>None\<close> to go on.\<close>

definition shove_once ::
    "checker \<Rightarrow> board \<Rightarrow> route list \<Rightarrow> net \<Rightarrow> point \<times> nat \<Rightarrow> work_budget \<Rightarrow> (run_error + shove_result) \<times> work_budget" where
  "shove_once check b accepted failed_net trial budget =
     (let (offset, blocker_id) = trial in
      case find (\<lambda>rt. net_id rt = blocker_id) accepted of
        None \<Rightarrow> (Inr None, budget)
      | Some blocker \<Rightarrow>
          (case shoved_route_candidate b blocker offset of
             Inl message \<Rightarrow> (Inr None, budget)
           | Inr shoved \<Rightarrow>
               let all_routes = routes b @ accepted in
               case position (\<lambda>rt. net_id rt = blocker_id) all_routes of
                 None \<Rightarrow> (Inr None, budget)
               | Some i \<Rightarrow>
                   let candidate = b\<lparr>routes := all_routes[i := shoved]\<rparr> in
                   case new candidate of
                     Inl message \<Rightarrow> (Inr None, budget)
                   | Inr router \<Rightarrow>
                       (case route_net router failed_net budget of
                          (Routed routed expanded, left) \<Rightarrow>
                            let final = candidate\<lparr>routes := routes candidate @ [routed]\<rparr> in
                            if \<not> concerns check final (net_ident failed_net) \<and> \<not> concerns check final blocker_id
                            then (Inr (Some (blocker_id, shoved, routed, expanded)), left)
                            else (Inr None, left)
                        | (Net_Failed _ _ True, left) \<Rightarrow> (Inl budget_error, left)
                        | (Net_Failed _ _ False, left) \<Rightarrow> (Inr None, left)
                        | (Net_Panicked, left) \<Rightarrow> (Inl Run_Panic, left))))"

fun shove_trials ::
    "checker \<Rightarrow> board \<Rightarrow> route list \<Rightarrow> net \<Rightarrow> (point \<times> nat) list \<Rightarrow> work_budget \<Rightarrow> (run_error + shove_result) \<times> work_budget" where
  "shove_trials check b accepted failed_net [] budget = (Inr None, budget)"
| "shove_trials check b accepted failed_net (trial # trials) budget =
     (case shove_once check b accepted failed_net trial budget of
        (Inr None, left) \<Rightarrow> shove_trials check b accepted failed_net trials left
      | ending \<Rightarrow> ending)"

definition try_automatic_shove ::
    "checker \<Rightarrow> board \<Rightarrow> route list \<Rightarrow> net \<Rightarrow> nat set \<Rightarrow> work_budget \<Rightarrow> (run_error + shove_result) \<times> work_budget" where
  "try_automatic_shove check b accepted failed_net blockers budget =
     (let grid = grid_nm (rules_for_net b (net_ident failed_net));
          trials = concat (map (\<lambda>offset. map (Pair offset) (sorted_list_of_set blockers)) (shove_offsets grid))
      in shove_trials check b accepted failed_net trials budget)"

section \<open>Moved copper stays connected\<close>

text \<open>Connections through the end points of segments and through vias.\<close>

inductive_set linked :: "route \<Rightarrow> spot rel" for rt where
  along: "s \<in> set (segments rt) \<Longrightarrow> ((seg_start s, seg_layer s), (seg_end s, seg_layer s)) \<in> linked rt"
| against: "s \<in> set (segments rt) \<Longrightarrow> ((seg_end s, seg_layer s), (seg_start s, seg_layer s)) \<in> linked rt"
| through: "v \<in> set (vias rt) \<Longrightarrow> spans_layer v l \<Longrightarrow> spans_layer v m \<Longrightarrow>
    ((via_position v, l), (via_position v, m)) \<in> linked rt"

definition moved_spot :: "(point \<Rightarrow> point) \<Rightarrow> spot \<Rightarrow> spot" where
  "moved_spot f p = (f (fst p), snd p)"

lemma linked_map: "((a, l), (b, m)) \<in> linked rt \<Longrightarrow> ((f a, l), (f b, m)) \<in> linked (map_route f rt)"
proof (induction rule: linked.induct)
  case (along s)
  then have "s\<lparr>seg_start := f (seg_start s), seg_end := f (seg_end s)\<rparr> \<in> set (segments (map_route f rt))" by (simp add: map_route_def)
  from linked.along[OF this] show ?case by simp
next
  case (against s)
  then have "s\<lparr>seg_start := f (seg_start s), seg_end := f (seg_end s)\<rparr> \<in> set (segments (map_route f rt))" by (simp add: map_route_def)
  from linked.against[OF this] show ?case by simp
next
  case (through v l m)
  then have "v\<lparr>via_position := f (via_position v)\<rparr> \<in> set (vias (map_route f rt))" by (simp add: map_route_def)
  from linked.through[OF this, of l m] through(2,3) show ?case by (simp add: spans_layer_def)
qed

lemma moved_linked: "(p, q) \<in> linked rt \<Longrightarrow> (moved_spot f p, moved_spot f q) \<in> linked (map_route f rt)"
  using linked_map by (cases p; cases q) (simp add: moved_spot_def)

lemma wired_map: "wired (linked rt) p q \<Longrightarrow> wired (linked (map_route f rt)) (moved_spot f p) (moved_spot f q)"
  unfolding wired_def by (induction rule: rtrancl_induct) (blast intro: rtrancl_into_rtrancl moved_linked)+

lemma wired_sub:
  assumes "\<And>p q. (p, q) \<in> R \<Longrightarrow> wired S p q" "wired R a b"
  shows "wired S a b"
  using assms(2) unfolding wired_def[of R] by (induction rule: rtrancl_induct) (auto intro: wired_refl wired_trans assms(1))

text \<open>A bent segment still leads from its start to its end.\<close>

lemma shoulder_linked:
  assumes "shoulder_segments s offset = Some ss" "segments rt = [s]" "wired (linked rt) p q"
  shows "wired (linked (rt\<lparr>segments := ss\<rparr>)) p q"
proof (rule wired_sub[OF _ assms(3)])
  fix a b assume ab: "(a, b) \<in> linked rt"
  obtain one two where ss: "ss = map (\<lambda>(p, q). \<lparr>seg_start = p, seg_end = q, seg_layer = seg_layer s, width_nm = width_nm s\<rparr>)
      [(seg_start s, one), (one, two), (two, seg_end s)]"
    using assms(1) by (auto simp: shoulder_segments_def Let_def split: if_splits)
  let ?R = "linked (rt\<lparr>segments := ss\<rparr>)" and ?l = "seg_layer s"
  let ?piece = "\<lambda>x y. \<lparr>seg_start = x, seg_end = y, seg_layer = ?l, width_nm = width_nm s\<rparr>"
  have pieces: "?piece (seg_start s) one \<in> set (segments (rt\<lparr>segments := ss\<rparr>))" "?piece one two \<in> set (segments (rt\<lparr>segments := ss\<rparr>))"
    "?piece two (seg_end s) \<in> set (segments (rt\<lparr>segments := ss\<rparr>))"
    by (simp_all add: ss)
  have forth: "wired ?R (seg_start s, ?l) (seg_end s, ?l)"
    using pieces[THEN linked.along] unfolding wired_def by (simp add: rtrancl_into_rtrancl)
  have reverse: "wired ?R (seg_end s, ?l) (seg_start s, ?l)"
    using pieces[THEN linked.against] unfolding wired_def by (simp add: rtrancl_into_rtrancl)
  obtain x l y m where xy: "a = (x, l)" "b = (y, m)" by (cases a; cases b)
  show "wired ?R a b"
    using ab[unfolded xy]
  proof (cases rule: linked.cases)
    case (through v)
    then have "((x, l), (y, m)) \<in> ?R" using linked.through[of v "rt\<lparr>segments := ss\<rparr>" l m] by simp
    then show ?thesis by (auto simp: wired_def xy)
  qed (use assms(2) forth reverse in \<open>auto simp: xy\<close>)
qed

section \<open>What a shove keeps\<close>

lemma candidate_keeps_links:
  assumes cand: "shoved_route_candidate b rt offset = Inr candidate"
    and n: "find (\<lambda>n. net_ident n = net_id rt) (nets b) = Some n"
    and ends: "p \<in> position_nm ` set (terminals n)" "q \<in> position_nm ` set (terminals n)"
    and "wired (linked rt) (p, l) (q, m)"
  shows "wired (linked candidate) (p, l) (q, m)"
proof -
  define f where "f = move_point (position_nm ` set (terminals n)) offset"
  have fixed: "f p = p" "f q = q" using ends by (simp_all add: f_def move_point_def)
  have moved: "wired (linked (map_route f rt)) (p, l) (q, m)"
    using wired_map[OF assms(5), of f] fixed by (simp add: moved_spot_def)
  have candidate: "candidate = (if map_route f rt = rt \<and> length (segments rt) = 1
      then (case shoulder_segments (segments rt ! 0) offset of None \<Rightarrow> map_route f rt
            | Some ss \<Rightarrow> (map_route f rt)\<lparr>segments := ss\<rparr>) else map_route f rt)"
    using cand unfolding shoved_route_candidate_def n f_def Let_def set_map by (auto split: if_splits)
  show ?thesis
  proof (cases "map_route f rt = rt \<and> length (segments rt) = 1")
    case True
    then obtain s where s: "segments rt = [s]" by (cases "segments rt") auto
    show ?thesis
    proof (cases "shoulder_segments s offset")
      case None
      then show ?thesis using moved candidate True s by simp
    next
      case (Some ss)
      then show ?thesis using shoulder_linked[OF Some s assms(5)] candidate True s by simp
    qed
  next
    case False
    then show ?thesis using moved candidate by (simp only: if_False)
  qed
qed

lemma candidate_fields:
  assumes "shoved_route_candidate b rt offset = Inr candidate"
  shows "net_id candidate = net_id rt" "candidate \<noteq> rt"
    "\<exists>n. find (\<lambda>n. net_ident n = net_id rt) (nets b) = Some n"
  using assms
  by (auto simp: shoved_route_candidate_def bind_result_Inr ok_or_Inr Let_def map_route_def split: if_splits option.splits)

text \<open>The copper of \<open>route_net\<close> belongs to its net.\<close>

lemma push_segment_net: "push_segment rt a b g w = Some rt' \<Longrightarrow> net_id rt' = net_id rt"
  by (auto simp: push_segment_def bind_eq_Some_conv)

lemma append_loop_net: "append_path_loop rs bd ps start final rt = Some (rt', s) \<Longrightarrow> net_id rt' = net_id rt"
proof (induction ps arbitrary: start final rt)
  case (Cons pq ps)
  obtain p q where pq: "pq = (p, q)" by (cases pq)
  have via: "push_via t p q rs bd = Some t' \<Longrightarrow> net_id t' = net_id t" for t t'
    by (auto simp: push_via_def bind_eq_Some_conv)
  show ?case
    using Cons.prems Cons.IH unfolding pq
    by (auto simp: bind_eq_Some_conv Let_def split: if_splits dest!: push_segment_net via)
qed simp

lemma add_branch_net:
  assumes "add_branch r rs root_terminal t nodes root_done rt = Some rt'"
  shows "net_id rt' = net_id rt"
proof -
  have access: "append_terminal_access x p m rs tf = Some x' \<Longrightarrow> net_id x' = net_id x" for x p m tf x'
    by (auto simp: append_terminal_access_def bind_eq_Some_conv Let_def split: if_splits)
  have path: "append_path x nodes rs bd = Some x' \<Longrightarrow> net_id x' = net_id x" for x x' bd
    by (auto simp: append_path_def bind_eq_Some_conv split: if_splits prod.splits dest!: push_segment_net append_loop_net)
  show ?thesis using assms by (auto simp: add_branch_def bind_eq_Some_conv split: if_splits dest!: access path)
qed

lemma fold_scan_not_routed:
  "fold_result (scan_terminal r n rs tree) is st = Inl out \<Longrightarrow> fst out \<noteq> Routed rt x"
proof (induction "is" arbitrary: st)
  case (Cons i "is")
  have "scan_terminal r n rs tree i st = Inl out \<Longrightarrow> fst out \<noteq> Routed rt x"
    by (auto simp: scan_terminal_def Let_def split: prod.splits search_end.splits)
  then show ?case using Cons by (auto simp: bind_result_Inl)
qed simp

lemma grow_round_not_routed:
  assumes "grow_round r n rs root_terminal g = Inl out"
  shows "fst out \<noteq> Routed rt x"
proof (cases "fold_result (scan_terminal r n rs (tree_cells g)) (to_do g) (scan_start g)")
  case (Inl e)
  then show ?thesis using assms fold_scan_not_routed[OF Inl] by (simp add: grow_round_def)
next
  case (Inr st)
  show ?thesis
  proof (cases "best_candidate st")
    case (Some b)
    obtain cost x y i nodes where b: "b = (cost, x, y, i, nodes)" by (rule prod_cases5)
    show ?thesis using assms Inr Some unfolding b by (auto simp: grow_round_def Let_def split: option.splits)
  qed (use assms Inr in \<open>auto simp: grow_round_def\<close>)
qed

lemma grow_loop_net:
  "grow_loop r n rs root_terminal g = (Routed rt x, left) \<Longrightarrow> net_id rt = net_id (grown g)"
proof (induction "length (to_do g)" arbitrary: g rule: less_induct)
  case less
  show ?case
  proof (cases "to_do g = []")
    case True
    then show ?thesis using less.prems by (simp add: grow_loop.simps[of r n rs _ g])
  next
    case some: False
    show ?thesis
    proof (cases "grow_round r n rs root_terminal g")
      case (Inl out)
      have "fst out \<noteq> Routed rt x"
        using grow_round_not_routed[OF Inl] .
      then show ?thesis using less.prems some Inl by (simp add: grow_loop.simps[of r n rs _ g])
    next
      case (Inr g')
      have "net_id (grown g') = net_id (grown g)" using Inr by (cases rule: grow_round_Inr) (auto dest: add_branch_net)
      moreover have "grow_loop r n rs root_terminal g' = (Routed rt x, left)"
        using less.prems some Inr by (simp add: grow_loop.simps[of r n rs _ g])
      ultimately show ?thesis using less.hyps[OF grow_round_shrinks[OF Inr]] by simp
    qed
  qed
qed

lemma route_net_id:
  assumes "route_net r n budget = (Routed rt x, left)"
  shows "net_id rt = net_ident n"
proof (cases "length (terminals n) < 2")
  case True
  then show ?thesis using assms by (auto simp: route_net_def empty_route_def)
next
  case False
  then show ?thesis
    using assms grow_loop_net by (fastforce simp: route_net_def empty_route_def Let_def split: if_splits)
qed

section \<open>Automatic shoves\<close>

text \<open>What a successful trial has checked.\<close>

definition shove_ok :: "checker \<Rightarrow> board \<Rightarrow> route list \<Rightarrow> net \<Rightarrow> nat \<times> route \<times> route \<times> nat \<Rightarrow> bool" where
  "shove_ok check b accepted failed_net result \<longleftrightarrow>
     (case result of (blocker_id, shoved, routed, expanded) \<Rightarrow>
        net_id shoved = blocker_id \<and> net_id routed = net_ident failed_net \<and>
        (\<exists>blocker offset i. find (\<lambda>rt. net_id rt = blocker_id) accepted = Some blocker \<and>
           shoved_route_candidate b blocker offset = Inr shoved \<and>
           position (\<lambda>rt. net_id rt = blocker_id) (routes b @ accepted) = Some i \<and>
           \<not> concerns check (b\<lparr>routes := (routes b @ accepted)[i := shoved] @ [routed]\<rparr>) (net_ident failed_net) \<and>
           \<not> concerns check (b\<lparr>routes := (routes b @ accepted)[i := shoved] @ [routed]\<rparr>) blocker_id))"

lemma shove_once_ok:
  assumes trial: "shove_once check b accepted n trial budget = (result, left)"
    and "u32_costs b" "n \<in> set (nets b)" "budget \<le> MAX_ASTAR_WORK_BUDGET"
  shows "left \<le> budget" "\<And>e. result = Inl e \<Longrightarrow> e = budget_error \<and> left = 0"
    "\<And>s. result = Inr (Some s) \<Longrightarrow> fst s = snd trial \<and> shove_ok check b accepted n s"
proof -
  obtain offset k where t: "trial = (offset, k)" by (cases trial)
  note unfolded = trial[unfolded shove_once_def t Let_def prod.case]
  have "left \<le> budget \<and> (\<forall>e. result = Inl e \<longrightarrow> e = budget_error \<and> left = 0) \<and>
      (\<forall>s. result = Inr (Some s) \<longrightarrow> fst s = k \<and> shove_ok check b accepted n s)"
  proof (cases "\<exists>blocker shoved i router. find (\<lambda>rt. net_id rt = k) accepted = Some blocker \<and>
      shoved_route_candidate b blocker offset = Inr shoved \<and>
      position (\<lambda>rt. net_id rt = k) (routes b @ accepted) = Some i \<and>
      new (b\<lparr>routes := (routes b @ accepted)[i := shoved]\<rparr>) = Inr router")
    case False
    then have "result = Inr None" "left = budget"
      using unfolded by (auto split: option.splits sum.splits)
    then show ?thesis by simp
  next
    case True
    then obtain blocker shoved i router where found: "find (\<lambda>rt. net_id rt = k) accepted = Some blocker"
      "shoved_route_candidate b blocker offset = Inr shoved" "position (\<lambda>rt. net_id rt = k) (routes b @ accepted) = Some i"
      "new (b\<lparr>routes := (routes b @ accepted)[i := shoved]\<rparr>) = Inr router" by blast
    have blocker: "net_id shoved = k" using candidate_fields(1)[OF found(2)] find_Some_in[OF found(1)] by simp
    have input: "net_input router n budget"
      using accepted_net_input[OF found(4)[unfolded new_def] _ _ assms(4), of n] assms(2,3) by (simp add: u32_costs_def)
    obtain ending rest where run: "route_net router n budget = (ending, rest)" by (cases "route_net router n budget")
    have ends: "ending \<noteq> Net_Panicked" "rest \<le> budget" "\<And>x B. ending = Net_Failed x B True \<Longrightarrow> rest = 0"
      using route_net_budget[OF input] route_outcome[OF input] run
      by (auto simp: net_outcome_def split: prod.splits net_end.splits bool.splits)
    show ?thesis
    proof (cases ending)
      case (Routed routed expanded)
      have "net_id routed = net_ident n" using route_net_id run Routed by simp
      then show ?thesis
        using unfolded found run Routed ends blocker
        by (auto simp: shove_ok_def split: if_splits)
    next
      case (Net_Failed x B ex)
      then show ?thesis using unfolded found run ends by (cases ex) auto
    qed (use ends in simp)
  qed
  then show "left \<le> budget" "\<And>e. result = Inl e \<Longrightarrow> e = budget_error \<and> left = 0"
    "\<And>s. result = Inr (Some s) \<Longrightarrow> fst s = snd trial \<and> shove_ok check b accepted n s"
    by (simp_all add: t)
qed

lemma shove_trials_ok:
  assumes "shove_trials check b accepted n trials budget = (result, left)"
    and "u32_costs b" "n \<in> set (nets b)" "budget \<le> MAX_ASTAR_WORK_BUDGET"
  shows "left \<le> budget \<and> (\<forall>e. result = Inl e \<longrightarrow> e = budget_error \<and> left = 0) \<and>
    (\<forall>s. result = Inr (Some s) \<longrightarrow> fst s \<in> snd ` set trials \<and> shove_ok check b accepted n s)"
  using assms(1,4)
proof (induction trials arbitrary: budget)
  case (Cons trial trials)
  obtain res rest where once: "shove_once check b accepted n trial budget = (res, rest)"
    by (cases "shove_once check b accepted n trial budget")
  note ok = shove_once_ok[OF once assms(2,3) Cons.prems(2)]
  show ?case
  proof (cases "res = Inr None")
    case True
    then have "shove_trials check b accepted n trials rest = (result, left)" using Cons.prems(1) once by simp
    then show ?thesis using Cons.IH[of rest] ok(1) Cons.prems(2) by auto
  next
    case False
    then have "result = res" "left = rest" using Cons.prems(1) once by (auto split: sum.splits option.splits)
    then show ?thesis using ok by auto
  qed
qed auto

section \<open>The properties\<close>



section \<open>Concrete shoves\<close>

text \<open>A board with a straight route between two terminals, and a net with one terminal.\<close>

definition far_end :: terminal where
  "far_end = \<lparr>position_nm = \<lparr>x_nm = 40, y_nm = 10\<rparr>, terminal_layers = [Front]\<rparr>"

definition far_net :: net where
  "far_net = \<lparr>net_ident = 3, net_name = ''n3'', terminals = [strip_terminal, far_end], class_of = None, net_priority = 0\<rparr>"

definition lone_net :: net where
  "lone_net = \<lparr>net_ident = 4, net_name = ''n4'', terminals = [strip_terminal], class_of = None, net_priority = 0\<rparr>"

definition far_segment :: segment where
  "far_segment = \<lparr>seg_start = \<lparr>x_nm = 10, y_nm = 10\<rparr>, seg_end = \<lparr>x_nm = 40, y_nm = 10\<rparr>, seg_layer = Front, width_nm = 2\<rparr>"

definition far_route :: route where
  "far_route = (empty_route 3)\<lparr>segments := [far_segment]\<rparr>"

definition shove_board :: board where
  "shove_board = row_board\<lparr>board_width_nm := 50, nets := [far_net, lone_net]\<rparr>"

lemmas shove_board_defs = shove_board_def row_board_defs far_net_def lone_net_def far_end_def

definition bent_route :: route where
  "bent_route = (empty_route 3)\<lparr>segments := map (\<lambda>(p, q). \<lparr>seg_start = p, seg_end = q, seg_layer = Front, width_nm = 2\<rparr>)
     (windows2 [\<lparr>x_nm = 10, y_nm = 10\<rparr>, \<lparr>x_nm = 20, y_nm = 20\<rparr>, \<lparr>x_nm = 30, y_nm = 20\<rparr>, \<lparr>x_nm = 40, y_nm = 10\<rparr>])\<rparr>"

lemma bent: "shoved_route_candidate (shove_board\<lparr>routes := rts\<rparr>) far_route \<lparr>x_nm = 0, y_nm = 10\<rparr> = Inr bent_route"
  by (simp add: shoved_route_candidate_def shove_board_def far_route_def far_segment_def far_net_def far_end_def
      strip_terminal_def map_route_def move_point_def empty_route_def shoulder_segments_def bent_route_def Let_def)


lemma bent_board: "\<exists>router. new (shove_board\<lparr>routes := [bent_route]\<rparr>) = Inr router"
proof -
  let ?b = "shove_board\<lparr>routes := [bent_route]\<rparr>"
  have "validate_routing_resource_bounds ?b = Inr ()"
    by (simp add: validate_routing_resource_bounds_def Let_def validation_defs shove_board_defs bent_route_def empty_route_def)
  moreover have "new_checks ?b = Inr ()"
    by (simp add: new_checks_valid valid_board_def valid_base_def valid_dimensions_def valid_items_def item_layers_def
        valid_shapes_def valid_stackup_def valid_pairs_def valid_groups_def valid_escapes_def valid_rules_def
        declared_layers_def optionally_def shove_board_defs bent_route_def empty_route_def)
  moreover have "\<exists>r. rasterize_obstacles (fresh_router ?b 0) = Inr r"
    by (simp add: raster_defs shove_board_defs Let_def upto_rec1)
  ultimately show ?thesis by (auto simp: new_def new_with_variant_def map_error_def)
qed


end
