(* ===== verification/Orchestrate.thy ===== *)
theory Orchestrate
  imports Shove
begin

text \<open>
  Routing all nets, \<open>Router::try_route_all_with_workers\<close> of \<open>crates/pcbex-core/src/lib.rs\<close>: up to four
  attempts. An attempt rebuilds the grid from the fixed and the accepted routes, routes the pending
  nets in a fixed order, the first time with the results of the worker threads, tries to shove a
  blocker aside for each net that failed, and reports. Blocking routes are then ripped up, with a
  penalty on their cells, and routed again behind the failed nets. The design-rule checker is a
  parameter.
\<close>

section \<open>Stable sorting\<close>

text \<open>\<open>sort_by\<close> of the standard library is stable; insertion from the right is the simplest stable sort.\<close>

fun insert_by :: "('a \<Rightarrow> 'a \<Rightarrow> ordering) \<Rightarrow> 'a \<Rightarrow> 'a list \<Rightarrow> 'a list" where
  "insert_by cmp x [] = [x]"
| "insert_by cmp x (y # ys) = (if cmp x y = Greater then y # insert_by cmp x ys else x # y # ys)"

definition sort_by :: "('a \<Rightarrow> 'a \<Rightarrow> ordering) \<Rightarrow> 'a list \<Rightarrow> 'a list" where
  "sort_by cmp xs = foldr (insert_by cmp) xs []"

text \<open>\<open>iter_mut().find(p)\<close> and the assignment through the reference.\<close>

fun replace_first :: "('a \<Rightarrow> bool) \<Rightarrow> 'a \<Rightarrow> 'a list \<Rightarrow> 'a list" where
  "replace_first p y [] = []"
| "replace_first p y (x # xs) = (if p x then y # xs else x # replace_first p y xs)"

section \<open>The report\<close>

record route_report =
  preserved :: "string list"
  routed :: "string list"
  rerouted :: "string list"
  unrouted :: "string list"
  expanded_states :: nat
  report_candidate_cells :: nat
  reroute_passes :: nat
  ripup_events :: nat
  shove_events :: nat
  coupled_differential_pairs :: "string list"
  generated_teardrops :: nat
  optimized_segments :: nat
  rounded_corners :: nat
  escaped_nets :: nat
  parallel_candidates :: nat
  parallel_fallbacks :: nat
  parallel_workers :: nat
  generated_return_vias :: nat

definition default_report :: route_report where
  "default_report =
     \<lparr>preserved = [], routed = [], rerouted = [], unrouted = [], expanded_states = 0, report_candidate_cells = 0,
      reroute_passes = 0, ripup_events = 0, shove_events = 0, coupled_differential_pairs = [],
      generated_teardrops = 0, optimized_segments = 0, rounded_corners = 0, escaped_nets = 0,
      parallel_candidates = 0, parallel_fallbacks = 0, parallel_workers = 0, generated_return_vias = 0\<rparr>"

definition fixed_net_ids :: "board \<Rightarrow> nat set" where
  "fixed_net_ids b = net_id ` set (routes b)"

definition preserved_names :: "board \<Rightarrow> string list" where
  "preserved_names b = map net_name (filter (\<lambda>n. net_ident n \<in> fixed_net_ids b) (nets b))"

definition open_nets :: "board \<Rightarrow> net list" where
  "open_nets b = filter (\<lambda>n. net_ident n \<notin> fixed_net_ids b) (nets b)"

definition resource_failure_fallback :: "board \<Rightarrow> route list \<times> route_report" where
  "resource_failure_fallback b =
     (routes b, default_report\<lparr>preserved := preserved_names b, unrouted := map net_name (open_nets b)\<rparr>)"

section \<open>The state of the attempts\<close>

record run_state =
  grid_state :: router
  accepted_routes :: "route list"
  pending :: "nat set"
  previously_failed :: "nat set"
  ripped_ids :: "nat set"
  ripups :: nat
  shoves :: nat
  best :: "route list \<times> route_report"
  total_expanded :: nat
  candidates :: nat
  fallbacks :: nat
  workers_used :: nat
  run_budget :: work_budget

text \<open>What one attempt gathers: the blockers of all failures, the nets that failed and why.\<close>

record attempt_state = run_state +
  blockers :: "nat set"
  failed_ids :: "nat set"
  failed_blockers :: "nat \<rightharpoonup> nat set"

section \<open>One attempt\<close>

definition recommit :: "board \<Rightarrow> route list \<Rightarrow> router \<Rightarrow> run_error + router" where
  "recommit b accepted r =
     map_error Run_Error (fold_result commit (routes b @ accepted) (r\<lparr>occupied := {}, occupied_by := Map.empty\<rparr>))"

definition attempt_order :: "router \<Rightarrow> nat set \<Rightarrow> net \<Rightarrow> net \<Rightarrow> ordering" where
  "attempt_order r failed left right =
     then_with (compare_val (net_ident left \<notin> failed) (net_ident right \<notin> failed)) (compare_nets r left right)"

definition exhausted :: "net_end \<Rightarrow> bool" where
  "exhausted e = (case e of Net_Failed x B x' \<Rightarrow> x' | _ \<Rightarrow> False)"

text \<open>The board of the attempt with everything accepted so far.\<close>

definition with_accepted :: "board \<Rightarrow> route list \<Rightarrow> board" where
  "with_accepted b accepted = b\<lparr>routes := routes b @ accepted\<rparr>"

text \<open>
  The result that is settled for a net: its lease, or a search of its own; again with the shared
  budget when the lease ended first; and again when the checker objects to a first-pass route.
\<close>

definition net_result ::
    "checker \<Rightarrow> board \<Rightarrow> nat \<Rightarrow> net \<Rightarrow> net_end option \<Rightarrow> router \<Rightarrow> route list \<Rightarrow> work_budget \<Rightarrow> net_end \<times> work_budget \<times> bool" where
  "net_result check b attempt n initial r accepted budget =
     (let (result, left) = (case initial of Some e \<Rightarrow> (e, budget) | None \<Rightarrow> route_net r n budget);
          (result, left) = (if exhausted result then route_net r n left else (result, left))
      in case result of
           Routed candidate x \<Rightarrow>
             if attempt = 0 \<and> concerns check (with_accepted b (accepted @ [candidate])) (net_ident n)
             then (let (result, left) = route_net r n left in (result, left, True))
             else (result, left, False)
         | _ \<Rightarrow> (result, left, False))"

definition settle_net ::
    "checker \<Rightarrow> board \<Rightarrow> nat \<Rightarrow> net \<times> net_end option \<Rightarrow> attempt_state \<Rightarrow> run_error + attempt_state" where
  "settle_net check b attempt job s =
     (case job of (n, initial) \<Rightarrow>
      case net_result check b attempt n initial (grid_state s) (accepted_routes s) (run_budget s) of
        (result, left, fallback) \<Rightarrow>
      let s = s\<lparr>run_budget := left, fallbacks := fallbacks s + (if fallback then 1 else 0)\<rparr> in
      case result of
        Routed rt x \<Rightarrow>
          bind_result (map_error Run_Error (commit rt (grid_state s))) (\<lambda>r.
          Inr (s\<lparr>grid_state := r, accepted_routes := accepted_routes s @ [rt], total_expanded := total_expanded s + x\<rparr>))
      | Net_Failed x B True \<Rightarrow> Inl budget_error
      | Net_Failed x B False \<Rightarrow>
          Inr (s\<lparr>total_expanded := total_expanded s + x, blockers := blockers s \<union> B,
                 failed_blockers := (failed_blockers s)(net_ident n \<mapsto> B),
                 failed_ids := insert (net_ident n) (failed_ids s)\<rparr>)
      | Net_Panicked \<Rightarrow> Inl Run_Panic)"

definition shove_net :: "checker \<Rightarrow> board \<Rightarrow> net \<Rightarrow> attempt_state \<Rightarrow> run_error + attempt_state" where
  "shove_net check b n s =
     (if net_ident n \<notin> failed_ids s then Inr s
      else case failed_blockers s (net_ident n) of
        None \<Rightarrow> Inr s
      | Some B \<Rightarrow>
          (case try_automatic_shove check b (accepted_routes s) n B (run_budget s) of
             (Inl e, left) \<Rightarrow> Inl e
           | (Inr None, left) \<Rightarrow> Inr (s\<lparr>run_budget := left\<rparr>)
           | (Inr (Some (blocker_id, shoved, rt, x)), left) \<Rightarrow>
               Inr (s\<lparr>run_budget := left, total_expanded := total_expanded s + x,
                      accepted_routes := replace_first (\<lambda>rt. net_id rt = blocker_id) shoved (accepted_routes s) @ [rt],
                      failed_ids := failed_ids s - {net_ident n}, shoves := shoves s + 1\<rparr>)))"

definition routed_in :: "route list \<Rightarrow> net \<Rightarrow> bool" where
  "routed_in accepted n \<longleftrightarrow> list_ex (\<lambda>rt. net_id rt = net_ident n) accepted"

definition names_where :: "(net \<Rightarrow> bool) \<Rightarrow> net list \<Rightarrow> string list" where
  "names_where p ns = map net_name (filter p ns)"

definition attempt_report :: "board \<Rightarrow> net list \<Rightarrow> attempt_state \<Rightarrow> route_report" where
  "attempt_report b ns s =
     default_report\<lparr>preserved := preserved_names b,
       routed := names_where (routed_in (accepted_routes s)) ns,
       rerouted := names_where (\<lambda>n. net_ident n \<in> ripped_ids s) ns,
       unrouted := names_where (\<lambda>n. \<not> routed_in (accepted_routes s) n) ns,
       ripup_events := ripups s, shove_events := shoves s, parallel_candidates := candidates s,
       parallel_fallbacks := fallbacks s, parallel_workers := workers_used s\<rparr>"

text \<open>The totals that are filled in when the loop ends with the best report.\<close>

definition close_report :: "net list \<Rightarrow> nat \<Rightarrow> 'a run_state_scheme \<Rightarrow> route_report \<Rightarrow> route_report" where
  "close_report ns passes s rep =
     rep\<lparr>expanded_states := total_expanded s, report_candidate_cells := rasterized_candidate_cells (grid_state s),
         reroute_passes := passes, rerouted := names_where (\<lambda>n. net_ident n \<in> ripped_ids s) ns,
         ripup_events := ripups s, shove_events := shoves s\<rparr>"

text \<open>Ripping up: the cells of the ripped routes cost more from now on, and their nets are pending again.\<close>

definition penalize :: "nat set \<Rightarrow> router \<Rightarrow> router" where
  "penalize rip r =
     r\<lparr>congestion := (\<lambda>c. case occupied_by r c of
         None \<Rightarrow> congestion r c
       | Some owner \<Rightarrow>
           if owner \<in> rip
           then Some (min (2 ^ 16 - 1) ((case congestion r c of None \<Rightarrow> 0 | Some v \<Rightarrow> v) + 8))
           else congestion r c)\<rparr>"

definition rip_up :: "nat set \<Rightarrow> attempt_state \<Rightarrow> run_state" where
  "rip_up rip s =
     run_state.truncate (s\<lparr>grid_state := penalize rip (grid_state s),
       accepted_routes := filter (\<lambda>rt. net_id rt \<notin> rip) (accepted_routes s),
       ripups := ripups s + card rip, ripped_ids := ripped_ids s \<union> rip,
       previously_failed := failed_ids s, pending := failed_ids s \<union> rip\<rparr>)"

text \<open>The end of an attempt: the final routes, or the state for the next attempt.\<close>

type_synonym routing = "(route list \<times> route_report) \<times> work_budget"

definition finish_attempt :: "board \<Rightarrow> net list \<Rightarrow> nat \<Rightarrow> attempt_state \<Rightarrow> routing + run_state" where
  "finish_attempt b ns attempt s =
     (let rts = routes b @ accepted_routes s;
          rep = attempt_report b ns s;
          s = (if length (unrouted rep) < length (unrouted (snd (best s))) then s\<lparr>best := (rts, rep)\<rparr> else s);
          rip = {k \<in> blockers s. list_ex (\<lambda>rt. net_id rt = k) (accepted_routes s)}
      in if unrouted rep = []
         then Inl ((rts, rep\<lparr>expanded_states := total_expanded s,
                report_candidate_cells := rasterized_candidate_cells (grid_state s), reroute_passes := attempt + 1\<rparr>), run_budget s)
         else if rip = {} then Inl ((fst (best s), close_report ns (attempt + 1) s (snd (best s))), run_budget s)
         else Inr (rip_up rip s))"

definition start_attempt ::
    "nat \<Rightarrow> nat \<Rightarrow> net list \<Rightarrow> run_state \<Rightarrow> run_error + net_end option list \<times> run_state" where
  "start_attempt worker_limit attempt order s =
     (if attempt = 0 \<and> 1 < length order
      then bind_result (first_pass (grid_state s) order (run_budget s)) (\<lambda>(results, left).
           Inr (map Some results, s\<lparr>run_budget := left, candidates := candidates s + length order,
             workers_used := min (min (max worker_limit 1) (length order)) 8\<rparr>))
      else Inr (replicate (length order) None, s))"

definition attempt_once ::
    "checker \<Rightarrow> board \<Rightarrow> nat \<Rightarrow> net list \<Rightarrow> nat \<Rightarrow> run_state \<Rightarrow> run_error + (routing + run_state)" where
  "attempt_once check b worker_limit ns attempt s =
     bind_result (recommit b (accepted_routes s) (grid_state s)) (\<lambda>r.
     let s = s\<lparr>grid_state := r\<rparr>;
         order = sort_by (attempt_order r (previously_failed s)) (filter (\<lambda>n. net_ident n \<in> pending s) ns)
     in bind_result (start_attempt worker_limit attempt order s) (\<lambda>(initial, s).
        let s = run_state.extend s (attempt_state.fields {} {} Map.empty) in
        bind_result (fold_result (settle_net check b attempt) (zip order initial) s) (\<lambda>s.
        bind_result (fold_result (shove_net check b) order s) (\<lambda>s.
        Inr (finish_attempt b ns attempt s)))))"

section \<open>All attempts\<close>

fun attempts ::
    "checker \<Rightarrow> board \<Rightarrow> nat \<Rightarrow> net list \<Rightarrow> nat list \<Rightarrow> run_state \<Rightarrow> run_error + routing" where
  "attempts check b worker_limit ns [] s = Inr ((fst (best s), close_report ns 4 s (snd (best s))), run_budget s)"
| "attempts check b worker_limit ns (k # ks) s =
     bind_result (attempt_once check b worker_limit ns k s) (\<lambda>ending.
     case ending of Inl routing \<Rightarrow> Inr routing | Inr s \<Rightarrow> attempts check b worker_limit ns ks s)"

definition first_state :: "router \<Rightarrow> net list \<Rightarrow> work_budget \<Rightarrow> run_state" where
  "first_state r ns budget =
     \<lparr>grid_state = r, accepted_routes = [], pending = net_ident ` set ns, previously_failed = {}, ripped_ids = {},
      ripups = 0, shoves = 0,
      best = (routes (board_of r), default_report\<lparr>preserved := preserved_names (board_of r),
        unrouted := map net_name ns, report_candidate_cells := rasterized_candidate_cells r\<rparr>),
      total_expanded = 0, candidates = 0, fallbacks = 0, workers_used = 0, run_budget = budget\<rparr>"

definition try_route_all_with_workers :: "checker \<Rightarrow> router \<Rightarrow> nat \<Rightarrow> work_budget \<Rightarrow> run_error + routing" where
  "try_route_all_with_workers check r worker_limit budget =
     (let ns = sort_by (compare_nets r) (open_nets (board_of r))
      in attempts check (board_of r) worker_limit ns [0..<4] (first_state r ns budget))"

text \<open>The public entry point: every error gives the fixed routes; \<open>None\<close> is a panic.\<close>

definition route_all_with_budget :: "checker \<Rightarrow> router \<Rightarrow> nat \<Rightarrow> nat \<Rightarrow> (route list \<times> route_report) option" where
  "route_all_with_budget check r worker_limit max_work =
     (case try_route_all_with_workers check r worker_limit (min max_work MAX_ASTAR_WORK_BUDGET) of
        Inr (result, left) \<Rightarrow> Some result
      | Inl Run_Panic \<Rightarrow> None
      | Inl (Run_Error e) \<Rightarrow> Some (resource_failure_fallback (board_of r)))"

definition route_all_with_workers :: "checker \<Rightarrow> router \<Rightarrow> nat \<Rightarrow> (route list \<times> route_report) option" where
  "route_all_with_workers check r worker_limit = route_all_with_budget check r worker_limit MAX_ASTAR_WORK_BUDGET"

section \<open>Sorting\<close>

definition not_after :: "('a \<Rightarrow> 'a \<Rightarrow> ordering) \<Rightarrow> 'a \<Rightarrow> 'a \<Rightarrow> bool" where
  "not_after cmp x y \<longleftrightarrow> cmp x y \<noteq> Greater"

lemma mset_insert_by [simp]: "mset (insert_by cmp x ys) = add_mset x (mset ys)"
  by (induction ys) simp_all

lemma mset_sort_by [simp]: "mset (sort_by cmp xs) = mset xs"
  by (induction xs) (simp_all add: sort_by_def)

lemma set_sort_by [simp]: "set (sort_by cmp xs) = set xs"
  by (rule mset_eq_setD) simp

lemma distinct_sort_by: "distinct (map f (sort_by cmp xs)) \<longleftrightarrow> distinct (map f xs)"
  by (rule mset_eq_imp_distinct_iff) (simp add: mset_map)

lemma set_insert_by: "set (insert_by cmp x ys) = insert x (set ys)"
  by (induction ys) auto

lemma insert_by_sorted:
  assumes "consistent_order cmp" "sorted_wrt (not_after cmp) ys"
  shows "sorted_wrt (not_after cmp) (insert_by cmp x ys)"
  using assms(2)
proof (induction ys)
  case (Cons y ys)
  have mirror: "cmp y x \<noteq> Greater" if "cmp x y = Greater"
    using assms(1) that unfolding consistent_order_def by (metis ordering.distinct(3))
  have trans: "cmp x z \<noteq> Greater" if "cmp x y \<noteq> Greater" "cmp y z \<noteq> Greater" for z
    using assms(1) that unfolding consistent_order_def by blast
  show ?case using Cons mirror trans by (auto simp: set_insert_by not_after_def)
qed simp

lemma sort_by_sorted: "consistent_order cmp \<Longrightarrow> sorted_wrt (not_after cmp) (sort_by cmp xs)"
  by (induction xs) (simp_all add: sort_by_def insert_by_sorted)

text \<open>Stability: nets that compare equal to a given one keep their order.\<close>

lemma insert_by_stable:
  assumes "consistent_order cmp"
  shows "filter (\<lambda>y. cmp z y = Equal) (insert_by cmp x ys) =
    (if cmp z x = Equal then x # filter (\<lambda>y. cmp z y = Equal) ys else filter (\<lambda>y. cmp z y = Equal) ys)"
proof (induction ys)
  case (Cons y ys)
  have "cmp x y \<noteq> Greater" if "cmp z x = Equal" "cmp z y = Equal"
  proof -
    have "cmp x z = Equal" using assms that(1) unfolding consistent_order_def by blast
    then show ?thesis using assms that(2) unfolding consistent_order_def by (metis ordering.distinct(5))
  qed
  then show ?case using Cons by auto
qed simp

lemma sort_by_stable:
  "consistent_order cmp \<Longrightarrow> filter (\<lambda>y. cmp z y = Equal) (sort_by cmp xs) = filter (\<lambda>y. cmp z y = Equal) xs"
  by (induction xs) (simp_all add: sort_by_def insert_by_stable)

lemma first_part: "sorted_wrt (\<lambda>x y. p y \<longrightarrow> p x) xs \<Longrightarrow> xs = filter p xs @ filter (\<lambda>x. \<not> p x) xs"
proof (induction xs)
  case (Cons x xs)
  show ?case
  proof (cases "p x")
    case False
    then have "filter p xs = []" using Cons.prems by (auto simp: filter_empty_conv)
    then show ?thesis using False Cons by simp
  qed (use Cons in simp)
qed simp

section \<open>What attempts keep\<close>

definition grid_ok :: "board \<Rightarrow> router \<Rightarrow> bool" where
  "grid_ok b r \<longleftrightarrow> board_of r = b \<and> (\<forall>c v. congestion r c = Some v \<longrightarrow> v < 2 ^ 16)"

definition same_counters :: "router \<Rightarrow> router \<Rightarrow> bool" where
  "same_counters r r' \<longleftrightarrow> board_of r' = board_of r \<and> congestion r' = congestion r"

lemma same_counters_trans: "same_counters r s \<Longrightarrow> same_counters s t \<Longrightarrow> same_counters r t"
  by (simp add: same_counters_def)

lemma fold_counters:
  assumes "fold_result f xs r = Inr r'" "\<And>x r r'. f x r = Inr r' \<Longrightarrow> same_counters r r'"
  shows "same_counters r r'"
  using fold_result_invariant[of f xs r r' "same_counters r"] assms same_counters_trans
  by (metis same_counters_def)

lemma stamp_counters: "stamp res radius n x y l offset r = Inr r' \<Longrightarrow> same_counters r r'"
  by (auto simp: stamp_def bind_result_Inr same_counters_def dest!: bump_visit_unfold split: prod.splits if_splits)

lemma stamp_disc_counters: "stamp_disc res radius n l xy r = Inr r' \<Longrightarrow> same_counters r r'"
  by (auto simp: stamp_disc_def split: prod.splits dest!: fold_counters[OF _ stamp_counters])

lemma commit_segment_counters: "commit_segment n sg r = Inr r' \<Longrightarrow> same_counters r r'"
proof -
  have "commit_line_cell radius n l xy r = Inr r' \<Longrightarrow> same_counters r r'" for radius l xy r r'
    by (auto simp: commit_line_cell_def bind_result_Inr split: prod.splits intro: stamp_disc_counters)
  then show "commit_segment n sg r = Inr r' \<Longrightarrow> same_counters r r'"
    by (auto simp: commit_segment_def Let_def bind_result_Inr dest!: fold_counters)
qed

lemma commit_via_counters: "commit_via n v r = Inr r' \<Longrightarrow> same_counters r r'"
  by (auto simp: commit_via_def Let_def bind_result_Inr dest!: fold_counters[OF _ stamp_disc_counters])

lemma congestion_step_bound:
  "\<forall>c v. m c = Some v \<longrightarrow> v < 2 ^ 16 \<Longrightarrow> congestion_step occ m c = Some v \<Longrightarrow> v < 2 ^ 16"
  by (cases c) (auto simp: congestion_step_def Let_def split: if_splits)

lemma commit_grid_ok:
  assumes "commit rt r = Inr r'" "grid_ok b r"
  shows "grid_ok b r'"
proof -
  obtain r1 r2 where "fold_result (commit_segment (net_id rt)) (segments rt) r = Inr r1"
    "fold_result (commit_via (net_id rt)) (vias rt) r1 = Inr r2"
    and r': "r' = r2\<lparr>congestion := congestion_step (occupied r2) (congestion r2)\<rparr>"
    using assms(1) by (auto simp: commit_def bind_result_Inr)
  from same_counters_trans[OF fold_counters[OF this(1) commit_segment_counters] fold_counters[OF this(2) commit_via_counters]]
  have "same_counters r r2" .
  then show ?thesis
    using assms(2) congestion_step_bound[of "congestion r" "occupied r2"] by (auto simp: grid_ok_def same_counters_def r')
qed

lemma map_error_Inr [simp]: "map_error f x = Inr y \<longleftrightarrow> x = Inr y"
  by (cases x) (auto simp: map_error_def)

lemma map_error_Inl: "map_error f x = Inl e \<Longrightarrow> \<exists>e'. e = f e'"
  by (cases x) (auto simp: map_error_def)

lemma recommit_grid_ok:
  assumes "recommit b accepted r = Inr r'" "grid_ok b r"
  shows "grid_ok b r'"
proof (rule fold_result_invariant[of commit _ _ r' "grid_ok b"])
  show "fold_result commit (routes b @ accepted) (r\<lparr>occupied := {}, occupied_by := Map.empty\<rparr>) = Inr r'"
    using assms(1) by (simp add: recommit_def)
  show "grid_ok b (r\<lparr>occupied := {}, occupied_by := Map.empty\<rparr>)" using assms(2) by (simp add: grid_ok_def)
qed (rule commit_grid_ok)

lemma penalize_grid_ok: "grid_ok b r \<Longrightarrow> grid_ok b (penalize rip r)"
  by (auto simp: grid_ok_def penalize_def split: option.splits if_splits)

lemma grid_net_input:
  assumes "net_input r n budget" "grid_ok (board_of r) r'" "left \<le> budget"
  shows "net_input r' n left"
  using assms by (auto simp: net_input_def grid_ok_def)

section \<open>Settling and shoving\<close>

text \<open>The route of a net whose terminals are anchored, which depends on the board only, connects its pads.\<close>

definition anchored_net :: "board \<Rightarrow> net \<Rightarrow> bool" where
  "anchored_net b n \<longleftrightarrow> 2 \<le> length (terminals n) \<and>
     (\<forall>t \<in> set (terminals n). anchored (fresh_router b 0) (net_ident n) (rules_for_net b (net_ident n)) t)"

definition joins :: "board \<Rightarrow> net \<Rightarrow> route \<Rightarrow> bool" where
  "joins b n rt \<longleftrightarrow> net_id rt = net_ident n \<and> (anchored_net b n \<longrightarrow> all_wired n rt)"

definition all_joined :: "board \<Rightarrow> route list \<Rightarrow> bool" where
  "all_joined b rts \<longleftrightarrow> (\<forall>rt \<in> set rts. \<exists>n \<in> set (nets b). joins b n rt)"

definition good_end :: "board \<Rightarrow> net \<Rightarrow> net_end \<Rightarrow> bool" where
  "good_end b n e \<longleftrightarrow> e \<noteq> Net_Panicked \<and> (\<forall>rt x. e = Routed rt x \<longrightarrow> joins b n rt)"

lemma anchored_board: "anchored r k rs t = anchored (fresh_router (board_of r) 0) k rs t"
  by (simp add: anchored_def terminal_nodes_def fresh_router_def)

lemma route_good:
  assumes "net_input r n budget" "board_of r = b"
  shows "good_end b n (fst (route_net r n budget)) \<and> snd (route_net r n budget) \<le> budget"
proof -
  have "joins b n rt" if "route_net r n budget = (Routed rt x, left)" for rt x left
    using route_net_id[OF that] route_wired[OF assms(1) _ _ that] assms(2)
    by (auto simp: joins_def anchored_net_def anchored_board[of r])
  then show ?thesis
    using route_net_budget[OF assms(1)] by (cases "route_net r n budget") (auto simp: good_end_def)
qed

lemma net_result_good:
  assumes "net_result check b attempt n initial r accepted budget = (result, left, fb)"
    and input: "net_input r n budget" "board_of r = b" and "\<forall>e. initial = Some e \<longrightarrow> good_end b n e"
  shows "good_end b n result \<and> left \<le> budget"
proof -
  define p where "p = (case initial of Some e \<Rightarrow> (e, budget) | None \<Rightarrow> route_net r n budget)"
  define q where "q = (if exhausted (fst p) then route_net r n (snd p) else p)"
  define z where "z = route_net r n (snd q)"
  have p: "good_end b n (fst p) \<and> snd p \<le> budget"
    using assms(4) route_good[OF input] by (auto simp: p_def split: option.splits)
  have q: "good_end b n (fst q) \<and> snd q \<le> budget"
    using p route_good[OF net_input_less[OF input(1), of "snd p"] input(2)] by (auto simp: q_def)
  have z: "good_end b n (fst z) \<and> snd z \<le> budget"
    using q route_good[OF net_input_less[OF input(1), of "snd q"] input(2)] by (auto simp: z_def)
  have "net_result check b attempt n initial r accepted budget =
      (case fst q of
         Routed candidate x \<Rightarrow>
           if attempt = 0 \<and> concerns check (with_accepted b (accepted @ [candidate])) (net_ident n)
           then (fst z, snd z, True) else (fst q, snd q, False)
       | _ \<Rightarrow> (fst q, snd q, False))"
    by (simp add: net_result_def p_def[symmetric] q_def z_def case_prod_unfold Let_def split: net_end.split)
  then show ?thesis using q z assms(1) by (auto split: net_end.splits if_splits)
qed

definition report_ok :: "board \<Rightarrow> net list \<Rightarrow> route list \<times> route_report \<Rightarrow> bool" where
  "report_ok b ns result \<longleftrightarrow>
     (\<exists>accepted. fst result = routes b @ accepted \<and> distinct (map net_id accepted) \<and>
        net_id ` set accepted \<subseteq> net_ident ` set ns \<and> preserved (snd result) = preserved_names b \<and>
        routed (snd result) = names_where (routed_in accepted) ns \<and>
        unrouted (snd result) = names_where (\<lambda>n. \<not> routed_in accepted n) ns \<and>
        (shove_events (snd result) = 0 \<longrightarrow> all_joined b accepted))"

text \<open>The accepted, the failed and the remaining nets are a partition of the nets to route.\<close>

definition settle_inv :: "board \<Rightarrow> net list \<Rightarrow> nat \<Rightarrow> nat list \<Rightarrow> attempt_state \<Rightarrow> bool" where
  "settle_inv b ns limit ids s \<longleftrightarrow>
     grid_ok b (grid_state s) \<and> run_budget s \<le> limit \<and>
     distinct (map net_id (accepted_routes s) @ ids) \<and>
     failed_ids s \<inter> (net_id ` set (accepted_routes s) \<union> set ids) = {} \<and>
     net_id ` set (accepted_routes s) \<union> set ids \<union> failed_ids s = net_ident ` set ns \<and>
     (shoves s = 0 \<longrightarrow> all_joined b (accepted_routes s)) \<and>
     report_ok b ns (best s) \<and> shove_events (snd (best s)) \<le> shoves s"

lemma settle_net_inv:
  assumes "settle_inv b ns limit (net_ident n # ids) s" and input: "net_input r n limit" "board_of r = b" "n \<in> set (nets b)"
    and "\<forall>e. initial = Some e \<longrightarrow> good_end b n e"
  shows "case settle_net check b attempt (n, initial) s of Inl e \<Rightarrow> e \<noteq> Run_Panic | Inr s' \<Rightarrow> settle_inv b ns limit ids s'"
proof -
  obtain result left fb where res: "net_result check b attempt n initial (grid_state s) (accepted_routes s) (run_budget s) = (result, left, fb)"
    by (metis prod_cases3)
  have "net_input (grid_state s) n (run_budget s)" "board_of (grid_state s) = b"
    using assms(1) grid_net_input[OF input(1)] input(2) by (simp_all add: settle_inv_def grid_ok_def)
  from net_result_good[OF res this assms(5)] have good: "good_end b n result" "left \<le> run_budget s" by simp_all
  have budget: "run_budget s \<le> limit" using assms(1) by (simp add: settle_inv_def)
  show ?thesis
  proof (cases result)
    case (Routed rt x)
    have joined: "joins b n rt" using good(1) Routed by (simp add: good_end_def)
    then have id: "net_id rt = net_ident n" by (simp add: joins_def)
    have "all_joined b (accepted_routes s @ [rt])" if "all_joined b (accepted_routes s)"
      using that joined input(3) by (auto simp: all_joined_def)
    note this[simp]
    show ?thesis
    proof (cases "commit rt (grid_state s)")
      case (Inl e)
      then show ?thesis by (simp add: settle_net_def res Routed Let_def map_error_def)
    next
      case (Inr g)
      have "grid_ok b g" using commit_grid_ok[OF Inr] assms(1) by (simp add: settle_inv_def)
      then show ?thesis using assms(1) good(2) budget
        by (auto simp: settle_net_def res Routed Let_def map_error_def Inr settle_inv_def id)
    qed
  next
    case (Net_Failed x B out)
    then show ?thesis using assms(1) good(2) budget
      by (cases out) (auto simp: settle_net_def res Let_def settle_inv_def budget_error_def)
  qed (use good(1) in \<open>simp add: good_end_def\<close>)
qed

lemma settle_all:
  assumes "settle_inv b ns limit (map (\<lambda>j. net_ident (fst j)) jobs) s" and "board_of r = b"
    and "\<forall>(n, initial) \<in> set jobs. net_input r n limit \<and> n \<in> set (nets b) \<and> (\<forall>e. initial = Some e \<longrightarrow> good_end b n e)"
  shows "case fold_result (settle_net check b attempt) jobs s of Inl e \<Rightarrow> e \<noteq> Run_Panic | Inr s' \<Rightarrow> settle_inv b ns limit [] s'"
  using assms(1,3)
proof (induction jobs arbitrary: s)
  case (Cons job jobs)
  obtain n initial where job: "job = (n, initial)" by fastforce
  have "settle_inv b ns limit (net_ident n # map (\<lambda>j. net_ident (fst j)) jobs) s" using Cons.prems(1) by (simp add: job)
  from settle_net_inv[OF this _ assms(2) _, of initial check attempt] Cons.prems(2)
  have step: "case settle_net check b attempt job s of Inl e \<Rightarrow> e \<noteq> Run_Panic
      | Inr s' \<Rightarrow> settle_inv b ns limit (map (\<lambda>j. net_ident (fst j)) jobs) s'" by (simp add: job)
  then show ?case using Cons.IH Cons.prems(2) by (cases "settle_net check b attempt job s") auto
qed simp

lemma replace_first_ids:
  "find (\<lambda>rt. net_id rt = k) xs \<noteq> None \<Longrightarrow> net_id y = k \<Longrightarrow> map net_id (replace_first (\<lambda>rt. net_id rt = k) y xs) = map net_id xs"
  by (induction xs) auto

lemma shove_net_inv:
  assumes "settle_inv b ns limit [] s" and "u32_costs b" "n \<in> set (nets b)" "limit \<le> MAX_ASTAR_WORK_BUDGET"
  shows "case shove_net check b n s of Inl e \<Rightarrow> e \<noteq> Run_Panic | Inr s' \<Rightarrow> settle_inv b ns limit [] s'"
proof (cases "net_ident n \<notin> failed_ids s \<or> failed_blockers s (net_ident n) = None")
  case True
  then show ?thesis using assms(1) by (auto simp: shove_net_def)
next
  case False
  then obtain B where B: "net_ident n \<in> failed_ids s" "failed_blockers s (net_ident n) = Some B" by auto
  obtain result left where run: "try_automatic_shove check b (accepted_routes s) n B (run_budget s) = (result, left)" by fastforce
  have budget: "run_budget s \<le> limit" using assms(1) by (simp add: settle_inv_def)
  have ok: "left \<le> run_budget s" "\<And>e. result = Inl e \<Longrightarrow> e = budget_error"
    "\<And>x. result = Inr (Some x) \<Longrightarrow> shove_ok check b (accepted_routes s) n x"
    using shove_trials_ok[OF run[unfolded try_automatic_shove_def Let_def] assms(2,3) order.trans[OF budget assms(4)]] by blast+
  consider e where "result = Inl e" | "result = Inr None" | k shoved rt x where "result = Inr (Some (k, shoved, rt, x))"
    by (metis obj_sumE option.exhaust prod_cases4)
  then show ?thesis
  proof cases
    case 3
    have sh: "shove_ok check b (accepted_routes s) n (k, shoved, rt, x)" using ok(3) 3 .
    then have ids: "map net_id (replace_first (\<lambda>rt. net_id rt = k) shoved (accepted_routes s)) = map net_id (accepted_routes s)"
      by (intro replace_first_ids) (auto simp: shove_ok_def)
    from arg_cong[OF this, of set]
    have ids': "net_id ` set (replace_first (\<lambda>rt. net_id rt = k) shoved (accepted_routes s)) = net_id ` set (accepted_routes s)" by simp
    have "net_id rt = net_ident n" using sh by (simp add: shove_ok_def)
    then show ?thesis using assms(1) B ok(1) budget ids ids' by (auto simp: shove_net_def run 3 settle_inv_def)
  qed (use assms(1) B ok(1,2) budget in \<open>auto simp: shove_net_def run settle_inv_def budget_error_def\<close>)
qed

lemma shove_all:
  assumes "settle_inv b ns limit [] s" and "u32_costs b" "set order \<subseteq> set (nets b)" "limit \<le> MAX_ASTAR_WORK_BUDGET"
  shows "case fold_result (shove_net check b) order s of Inl e \<Rightarrow> e \<noteq> Run_Panic | Inr s' \<Rightarrow> settle_inv b ns limit [] s'"
  using assms(1,3)
proof (induction order arbitrary: s)
  case (Cons n order)
  have "case shove_net check b n s of Inl e \<Rightarrow> e \<noteq> Run_Panic | Inr s' \<Rightarrow> settle_inv b ns limit [] s'"
    using shove_net_inv[OF Cons.prems(1) assms(2) _ assms(4)] Cons.prems(2) by simp
  then show ?case using Cons.IH Cons.prems(2) by (cases "shove_net check b n s") auto
qed simp

section \<open>Whole attempts\<close>

text \<open>Between attempts the accepted and the pending nets are a partition of the nets to route.\<close>

definition run_inv :: "board \<Rightarrow> net list \<Rightarrow> nat \<Rightarrow> run_state \<Rightarrow> bool" where
  "run_inv b ns limit s \<longleftrightarrow>
     grid_ok b (grid_state s) \<and> run_budget s \<le> limit \<and> distinct (map net_id (accepted_routes s)) \<and>
     net_id ` set (accepted_routes s) \<inter> pending s = {} \<and>
     net_id ` set (accepted_routes s) \<union> pending s = net_ident ` set ns \<and>
     (shoves s = 0 \<longrightarrow> all_joined b (accepted_routes s)) \<and>
     report_ok b ns (best s) \<and> shove_events (snd (best s)) \<le> shoves s"

lemma start_attempt_ok:
  assumes "\<forall>n \<in> set order. net_input (grid_state s) n (run_budget s)" "board_of (grid_state s) = b"
  shows "\<exists>initial left c w. start_attempt worker_limit attempt order s =
      Inr (initial, s\<lparr>run_budget := left, candidates := c, workers_used := w\<rparr>) \<and>
    left \<le> run_budget s \<and> length initial = length order \<and>
    (\<forall>(n, i) \<in> set (zip order initial). \<forall>e. i = Some e \<longrightarrow> good_end b n e)"
proof (cases "attempt = 0 \<and> 1 < length order")
  case True
  let ?q = "lease_quotas (run_budget s) (length order)"
  let ?e = "\<lambda>i. fst (route_net (grid_state s) (order ! i) (?q ! i))"
  obtain left where left: "left \<le> run_budget s" "first_pass (grid_state s) order (run_budget s) = Inr (map ?e [0..<length order], left)"
    using first_pass_result[OF assms(1)] True by fastforce
  have "good_end b (order ! i) (?e i)" if "i < length order" for i
    using route_good[OF net_input_less[OF bspec[OF assms(1) nth_mem[OF that]] lease_quotas_le[OF that]] assms(2)] by blast
  then have "\<forall>(n, i) \<in> set (zip order (map Some (map ?e [0..<length order]))). \<forall>e. i = Some e \<longrightarrow> good_end b n e"
    by (auto simp: set_zip)
  then show ?thesis using left True by (fastforce simp: start_attempt_def)
next
  case False
  then have "start_attempt worker_limit attempt order s = Inr (replicate (length order) None,
      s\<lparr>run_budget := run_budget s, candidates := candidates s, workers_used := workers_used s\<rparr>)"
    by (auto simp: start_attempt_def)
  moreover have "\<forall>(n, i) \<in> set (zip order (replicate (length order) None)). \<forall>e. i = Some e \<longrightarrow> good_end b n e"
    by (auto dest: set_zip_rightD)
  ultimately show ?thesis
    by (intro exI[of _ "replicate (length order) None"] exI[of _ "run_budget s"] exI[of _ "candidates s"] exI[of _ "workers_used s"] conjI)
       (assumption | simp only: order.refl length_replicate)+
qed

lemma report_ok_close: "report_ok b ns (rts, rep) \<Longrightarrow> shove_events rep \<le> shoves s \<Longrightarrow> report_ok b ns (rts, close_report ns k s rep)"
  by (auto simp: report_ok_def close_report_def)

lemma report_ok_attempt:
  assumes "settle_inv b ns limit [] s"
  shows "report_ok b ns (routes b @ accepted_routes s, attempt_report b ns s)"
  using assms unfolding report_ok_def settle_inv_def
  by (intro exI[of _ "accepted_routes s"]) (auto simp: attempt_report_def)

lemma rip_up_inv:
  assumes "settle_inv b ns limit [] s" "rip \<subseteq> net_id ` set (accepted_routes s)"
  shows "run_inv b ns limit (rip_up rip s)"
proof -
  let ?kept = "filter (\<lambda>rt. net_id rt \<notin> rip) (accepted_routes s)"
  have kept: "net_id ` set ?kept = net_id ` set (accepted_routes s) - rip" by auto
  have s: "grid_ok b (grid_state s)" "run_budget s \<le> limit" "distinct (map net_id (accepted_routes s))"
    "failed_ids s \<inter> net_id ` set (accepted_routes s) = {}"
    "net_id ` set (accepted_routes s) \<union> failed_ids s = net_ident ` set ns" "report_ok b ns (best s)"
    "shoves s = 0 \<Longrightarrow> all_joined b (accepted_routes s)" "shove_events (snd (best s)) \<le> shoves s"
    using assms(1) by (simp_all add: settle_inv_def)
  have "(net_id ` set (accepted_routes s) - rip) \<inter> (failed_ids s \<union> rip) = {}" using s(4) by blast
  moreover have "(net_id ` set (accepted_routes s) - rip) \<union> (failed_ids s \<union> rip) = net_ident ` set ns" using s(5) assms(2) by blast
  moreover have "shoves s = 0 \<Longrightarrow> all_joined b ?kept" using s(7) by (auto simp: all_joined_def)
  ultimately show ?thesis
    unfolding run_inv_def rip_up_def using s penalize_grid_ok distinct_map_filter[OF s(3)]
    by (simp add: run_state.defs kept del: set_filter)
qed

lemma finish_attempt_ok:
  assumes "settle_inv b ns limit [] s"
  shows "case finish_attempt b ns attempt s of
      Inl routing \<Rightarrow> report_ok b ns (fst routing) \<and> snd routing \<le> limit
    | Inr s' \<Rightarrow> run_inv b ns limit s'"
proof -
  let ?rep = "attempt_report b ns s"
  define t where "t = (if length (unrouted ?rep) < length (unrouted (snd (best s)))
    then s\<lparr>best := (routes b @ accepted_routes s, ?rep)\<rparr> else s)"
  define rip where "rip = {k \<in> blockers t. list_ex (\<lambda>rt. net_id rt = k) (accepted_routes t)}"
  note rep = report_ok_attempt[OF assms]
  have t: "settle_inv b ns limit [] t" using assms rep by (auto simp: t_def settle_inv_def attempt_report_def default_report_def)
  have rip: "rip \<subseteq> net_id ` set (accepted_routes t)" by (auto simp: rip_def list_ex_iff)
  have best: "report_ok b ns (best t)" "shove_events (snd (best t)) \<le> shoves t" and left: "run_budget t \<le> limit"
    using t by (simp_all add: settle_inv_def)
  have fin: "report_ok b ns (routes b @ accepted_routes s, ?rep\<lparr>expanded_states := x, report_candidate_cells := y, reroute_passes := z\<rparr>)" for x y z
    using rep by (simp add: report_ok_def)
  have close: "report_ok b ns (fst (best t), close_report ns k t (snd (best t)))" for k
    using report_ok_close[of b ns "fst (best t)" "snd (best t)"] best by simp
  show ?thesis
    using fin close left rip_up_inv[OF t rip]
    unfolding finish_attempt_def Let_def t_def[symmetric] rip_def[symmetric] by simp
qed

lemma attempt_once_ok:
  assumes inv: "run_inv b ns limit s" and ns: "set ns \<subseteq> set (nets b)" "distinct (map net_ident ns)"
    and input: "\<forall>n \<in> set (nets b). net_input r n limit" "board_of r = b"
    and types: "u32_costs b" "limit \<le> MAX_ASTAR_WORK_BUDGET"
  shows "case attempt_once check b worker_limit ns attempt s of
      Inl e \<Rightarrow> e \<noteq> Run_Panic
    | Inr (Inl routing) \<Rightarrow> report_ok b ns (fst routing) \<and> snd routing \<le> limit
    | Inr (Inr s') \<Rightarrow> run_inv b ns limit s'"
proof (cases "recommit b (accepted_routes s) (grid_state s)")
  case (Inl e)
  then show ?thesis using map_error_Inl[OF Inl[unfolded recommit_def]] by (auto simp: attempt_once_def)
next
  case (Inr g)
  define s1 where "s1 = s\<lparr>grid_state := g\<rparr>"
  define order where "order = sort_by (attempt_order g (previously_failed s1)) (filter (\<lambda>n. net_ident n \<in> pending s1) ns)"
  have g: "grid_ok b g" using recommit_grid_ok[OF Inr] inv by (simp add: run_inv_def)
  have order: "set order = {n \<in> set ns. net_ident n \<in> pending s}" "distinct (map net_ident order)"
    using distinct_map_filter[OF ns(2)] by (simp_all add: order_def s1_def distinct_sort_by del: distinct_map)
  have ids: "net_ident ` set order = pending s" using inv by (auto simp: order(1) run_inv_def)
  have inputs: "net_input g n left" if "n \<in> set order" "left \<le> limit" for n left
    using grid_net_input[of r n limit g left] input g that ns(1) by (auto simp: order(1))
  have budget: "run_budget s \<le> limit" using inv by (simp add: run_inv_def)
  then have "\<forall>n \<in> set order. net_input (grid_state s1) n (run_budget s1)" "board_of (grid_state s1) = b"
    using inputs g by (simp_all add: s1_def grid_ok_def)
  from start_attempt_ok[OF this, of worker_limit attempt]
  obtain initial left c w where start: "start_attempt worker_limit attempt order s1 =
      Inr (initial, s1\<lparr>run_budget := left, candidates := c, workers_used := w\<rparr>)"
    and left: "left \<le> limit" and len: "length initial = length order"
    and good: "\<forall>(n, i) \<in> set (zip order initial). \<forall>e. i = Some e \<longrightarrow> good_end b n e"
    using budget by (auto simp: s1_def)
  define s2 where "s2 = run_state.extend (s1\<lparr>run_budget := left, candidates := c, workers_used := w\<rparr>)
    (attempt_state.fields {} {} Map.empty)"
  have "map (\<lambda>j. net_ident (fst j)) (zip order initial) = map net_ident order"
    using len by (induction initial order rule: list_induct2) simp_all
  moreover have "settle_inv b ns limit (map net_ident order) s2"
    using inv g left order ids by (auto simp: s2_def s1_def run_state.defs attempt_state.defs settle_inv_def run_inv_def)
  ultimately have s2: "settle_inv b ns limit (map (\<lambda>j. net_ident (fst j)) (zip order initial)) s2" by simp
  have jobs: "\<forall>(n, initial) \<in> set (zip order initial). net_input g n limit \<and> n \<in> set (nets b) \<and> (\<forall>e. initial = Some e \<longrightarrow> good_end b n e)"
    using good inputs order(1) ns(1) by (auto dest: set_zip_leftD)
  have once: "attempt_once check b worker_limit ns attempt s =
      bind_result (fold_result (settle_net check b attempt) (zip order initial) s2) (\<lambda>s.
      bind_result (fold_result (shove_net check b) order s) (\<lambda>s. Inr (finish_attempt b ns attempt s)))"
    unfolding attempt_once_def Inr bind_result_simps Let_def s1_def[symmetric] order_def[symmetric] start prod.case s2_def[symmetric] ..
  show ?thesis
  proof (cases "fold_result (settle_net check b attempt) (zip order initial) s2")
    case (Inl e)
    then show ?thesis using settle_all[OF s2 _ jobs, of check attempt] g by (auto simp: once grid_ok_def)
  next
    case (Inr s3)
    then have s3: "settle_inv b ns limit [] s3" using settle_all[OF s2 _ jobs, of check attempt] g by (auto simp: grid_ok_def)
    have sub: "set order \<subseteq> set (nets b)" using ns(1) by (auto simp: order(1))
    note shoved = shove_all[OF s3 types(1) sub types(2), of check]
    show ?thesis
    proof (cases "fold_result (shove_net check b) order s3")
      case (Inr s4)
      then show ?thesis using finish_attempt_ok[of b ns limit s4 attempt] shoved \<open>fold_result _ _ s2 = Inr s3\<close>
        by (simp add: once)
    qed (use shoved Inr in \<open>simp add: once\<close>)
  qed
qed

lemma attempts_ok:
  assumes "run_inv b ns limit s" and "set ns \<subseteq> set (nets b)" "distinct (map net_ident ns)"
    and "\<forall>n \<in> set (nets b). net_input r n limit" "board_of r = b"
    and "u32_costs b" "limit \<le> MAX_ASTAR_WORK_BUDGET"
  shows "case attempts check b worker_limit ns ks s of
      Inl e \<Rightarrow> e \<noteq> Run_Panic | Inr routing \<Rightarrow> report_ok b ns (fst routing) \<and> snd routing \<le> limit"
  using assms(1)
proof (induction ks arbitrary: s)
  case Nil
  then show ?case using report_ok_close[of b ns "fst (best s)" "snd (best s)" s 4] by (simp add: run_inv_def)
next
  case (Cons k ks)
  note step = attempt_once_ok[OF Cons.prems assms(2-), of check worker_limit k]
  show ?case
  proof (cases "attempt_once check b worker_limit ns k s")
    case (Inr ending)
    then show ?thesis using step Cons.IH by (cases ending) simp_all
  qed (use step in simp)
qed

section \<open>The properties\<close>

lemma try_route_all_ok:
  assumes "new_with_variant b v = Inr r" "u32_costs b" "distinct (map net_ident (nets b))" "budget \<le> MAX_ASTAR_WORK_BUDGET"
  shows "case try_route_all_with_workers check r worker_limit budget of
      Inl e \<Rightarrow> e \<noteq> Run_Panic
    | Inr routing \<Rightarrow> report_ok b (sort_by (compare_nets r) (open_nets b)) (fst routing) \<and> snd routing \<le> budget"
proof -
  let ?ns = "sort_by (compare_nets r) (open_nets b)"
  have r: "board_of r = b" "grid_ok b r"
    using accepted(4)[OF assms(1)] by (simp_all add: same_frame_def fresh_router_def grid_ok_def)
  have ns: "set ?ns = {n \<in> set (nets b). net_ident n \<notin> fixed_net_ids b}" "distinct (map net_ident ?ns)"
    using distinct_map_filter[OF assms(3)] by (simp_all add: open_nets_def distinct_sort_by del: distinct_map)
  have "report_ok b ?ns (routes b, default_report\<lparr>preserved := preserved_names b, unrouted := map net_name ?ns,
      report_candidate_cells := rasterized_candidate_cells r\<rparr>)"
    unfolding report_ok_def
    by (rule exI[of _ "[]"]) (simp add: names_where_def routed_in_def default_report_def all_joined_def)
  then have inv: "run_inv b ?ns budget (first_state r ?ns budget)"
    using r by (simp add: run_inv_def first_state_def all_joined_def default_report_def)
  have sub: "set ?ns \<subseteq> set (nets b)" by (auto simp: open_nets_def)
  from attempts_ok[OF inv sub ns(2) _ r(1) assms(2,4), of check worker_limit "[0..<4]"] accepted_net_input[OF assms(1,2) _ assms(4)]
  show ?thesis by (simp add: try_route_all_with_workers_def r(1) Let_def)
qed

text \<open>The order in which an attempt tries its nets is the stable sort by the comparison of the code:
  the same nets, none before one that the comparison puts ahead of it, the nets that failed before
  first, and nets that compare equal in the order that they were given.\<close>

theorem attempt_order_sorts:
  "mset (sort_by (attempt_order r failed) ns) = mset ns \<and>
   sorted_wrt (\<lambda>m n. attempt_order r failed m n \<noteq> Greater) (sort_by (attempt_order r failed) ns) \<and>
   sort_by (attempt_order r failed) ns = filter (\<lambda>n. net_ident n \<in> failed) (sort_by (attempt_order r failed) ns) @
     filter (\<lambda>n. net_ident n \<notin> failed) (sort_by (attempt_order r failed) ns) \<and>
   filter (\<lambda>n. attempt_order r failed k n = Equal) (sort_by (attempt_order r failed) ns) =
     filter (\<lambda>n. attempt_order r failed k n = Equal) ns"
proof -
  have order: "consistent_order (attempt_order r failed)"
    unfolding attempt_order_def[abs_def] by (rule order_then[OF order_of_key compare_nets_order])
  have first: "net_ident n \<in> failed \<longrightarrow> net_ident m \<in> failed" if "not_after (attempt_order r failed) m n" for m n
    using that by (auto simp: not_after_def attempt_order_def then_with_def compare_val_def split: if_splits)
  have sorted: "sorted_wrt (not_after (attempt_order r failed)) (sort_by (attempt_order r failed) ns)"
    by (rule sort_by_sorted[OF order])
  from sorted_wrt_mono_rel[OF first this] have "sort_by (attempt_order r failed) ns =
      filter (\<lambda>n. net_ident n \<in> failed) (sort_by (attempt_order r failed) ns) @
      filter (\<lambda>n. net_ident n \<notin> failed) (sort_by (attempt_order r failed) ns)"
    by (rule first_part)
  then show ?thesis using sorted sort_by_stable[OF order, of k ns] by (simp add: not_after_def[abs_def])
qed

text \<open>The fallback lists the nets in the order of the board, so names are compared as multisets.\<close>

lemma names_split: "mset (names_where p ns) + mset (names_where (\<lambda>n. \<not> p n) ns) = mset (map net_name ns)"
  by (induction ns) (simp_all add: names_where_def)


end
