(* ===== verification/HexText.thy ===== *)
theory HexText
  imports Prelude
begin

text \<open>
  The text forms shared by \<open>transparency.rs\<close> and \<open>anchor.rs\<close> of \<open>crates/pcbex-kicad/src\<close>, which both
  carry a copy of them: hexadecimal digests and keys, and identifiers. A string is the list of its
  UTF-8 bytes. Decoding slices the string by byte positions, which panics inside a character.
\<close>

section \<open>Results\<close>

text \<open>An error message, a message that quotes a value, a message about a numbered entry, or a panic.\<close>

datatype fault = Fault string | Bad_Value string string | Bad_Entry nat string | Panic

type_synonym bytes = "char list"

section \<open>Hexadecimal text\<close>

definition hex_digit :: "nat \<Rightarrow> char" where
  "hex_digit d = (if d < 10 then char_of (48 + d) else char_of (87 + d))"

definition hex_byte :: "char \<Rightarrow> string" where
  "hex_byte c = [hex_digit (of_char c div 16), hex_digit (of_char c mod 16)]"

definition hex_encode :: "bytes \<Rightarrow> string" where
  "hex_encode bs = concat (map hex_byte bs)"

text \<open>\<open>u8::from_str_radix(text, 16)\<close>: an optional plus sign, then digits of either case.\<close>

definition hex_value :: "char \<Rightarrow> nat option" where
  "hex_value c =
     (let n = of_char c in
      if 48 \<le> n \<and> n \<le> 57 then Some (n - 48)
      else if 97 \<le> n \<and> n \<le> 102 then Some (n - 87)
      else if 65 \<le> n \<and> n \<le> 70 then Some (n - 55)
      else None)"

fun hex_digits :: "string \<Rightarrow> nat \<Rightarrow> nat option" where
  "hex_digits [] acc = Some acc"
| "hex_digits (c # cs) acc =
     (case hex_value c of None \<Rightarrow> None
      | Some d \<Rightarrow> if 255 < acc * 16 + d then None else hex_digits cs (acc * 16 + d))"

definition u8_from_hex :: "string \<Rightarrow> nat option" where
  "u8_from_hex s =
     (case s of [] \<Rightarrow> None
      | c # cs \<Rightarrow> if c = CHR ''+'' \<and> cs \<noteq> [] then hex_digits cs 0 else hex_digits s 0)"

text \<open>\<open>&value[start..end]\<close>, which panics unless both positions are character boundaries.\<close>

definition char_boundary :: "string \<Rightarrow> nat \<Rightarrow> bool" where
  "char_boundary s i \<longleftrightarrow> i = 0 \<or> i = length s \<or> (i < length s \<and> \<not> (0x80 \<le> (of_char (s ! i) :: nat) \<and> of_char (s ! i) < (0xC0 :: nat)))"

definition slice :: "string \<Rightarrow> nat \<Rightarrow> nat \<Rightarrow> string option" where
  "slice s i j = (if i \<le> j \<and> char_boundary s i \<and> char_boundary s j then Some (take (j - i) (drop i s)) else None)"

definition decode_byte :: "string \<Rightarrow> string \<Rightarrow> nat \<Rightarrow> fault + char" where
  "decode_byte label value i =
     bind_result (ok_or Panic (slice value (i * 2) (i * 2 + 2))) (\<lambda>pair.
     bind_result (ok_or (Fault (''decoding '' @ label @ '': invalid digit found in string'')) (u8_from_hex pair)) (\<lambda>n.
     Inr (char_of n)))"

fun map_result :: "('a \<Rightarrow> 'e + 'b) \<Rightarrow> 'a list \<Rightarrow> 'e + 'b list" where
  "map_result f [] = Inr []"
| "map_result f (x # xs) = bind_result (f x) (\<lambda>y. bind_result (map_result f xs) (\<lambda>ys. Inr (y # ys)))"

definition hex_decode_array :: "nat \<Rightarrow> string \<Rightarrow> string \<Rightarrow> fault + bytes" where
  "hex_decode_array n label value =
     (if length value \<noteq> n * 2 then Inl (Bad_Entry (n * 2) (label @ '' must contain hexadecimal digits''))
      else map_result (decode_byte label value) [0..<n])"

section \<open>Digests and identifiers\<close>

definition lower_hex :: "char \<Rightarrow> bool" where
  "lower_hex c \<longleftrightarrow> (48 \<le> (of_char c :: nat) \<and> of_char c \<le> (57 :: nat)) \<or> (97 \<le> (of_char c :: nat) \<and> of_char c \<le> (102 :: nat))"

definition validate_sha256 :: "string \<Rightarrow> string \<Rightarrow> fault + unit" where
  "validate_sha256 value label =
     (if length value \<noteq> 64 \<or> \<not> list_all lower_hex value
      then Inl (Fault (label @ '' must be 64 lowercase hexadecimal digits'')) else Inr ())"

definition slug_start :: "char \<Rightarrow> bool" where
  "slug_start c \<longleftrightarrow> (97 \<le> (of_char c :: nat) \<and> of_char c \<le> (122 :: nat)) \<or> (48 \<le> (of_char c :: nat) \<and> of_char c \<le> (57 :: nat))"

definition slug_char :: "char \<Rightarrow> bool" where
  "slug_char c \<longleftrightarrow> slug_start c \<or> c = CHR ''.'' \<or> c = CHR ''-''"

definition validate_slug :: "string \<Rightarrow> string \<Rightarrow> fault + unit" where
  "validate_slug value label =
     (if value \<noteq> [] \<and> length value \<le> 128 \<and> list_all slug_char value \<and> slug_start (value ! 0)
      then Inr () else Inl (Bad_Value label value))"

section \<open>Decoding what was encoded\<close>

lemma map_result_Inr: "map_result f xs = Inr ys \<longleftrightarrow> list_all2 (\<lambda>x y. f x = Inr y) xs ys"
  by (induction xs arbitrary: ys) (auto simp: bind_result_Inr list_all2_Cons1)

lemma map_result_total: "(\<And>x. x \<in> set xs \<Longrightarrow> f x = Inr (g x)) \<Longrightarrow> map_result f xs = Inr (map g xs)"
  by (induction xs) simp_all

lemma map_result_cong: "(\<And>x. x \<in> set xs \<Longrightarrow> f x = g x) \<Longrightarrow> map_result f xs = map_result g xs"
  by (induction xs) simp_all

lemma length_hex_encode [simp]: "length (hex_encode bs) = 2 * length bs"
  by (induction bs) (simp_all add: hex_encode_def hex_byte_def)

lemma byte_halves: "of_char c div 16 < (16 :: nat)" "of_char c mod 16 < (16 :: nat)"
  using less_mult_imp_div_less[of "of_char c" 16 16] by simp_all

lemma hex_digit_code: "d < 16 \<Longrightarrow> (of_char (hex_digit d) :: nat) = (if d < 10 then 48 + d else 87 + d)"
  by (simp add: hex_digit_def)

lemma hex_value_digit [simp]: "d < 16 \<Longrightarrow> hex_value (hex_digit d) = Some d"
  by (simp add: hex_value_def hex_digit_code Let_def)

lemma lower_hex_digit [simp]: "d < 16 \<Longrightarrow> lower_hex (hex_digit d)"
  by (simp add: lower_hex_def hex_digit_code)

lemma hex_digit_not_plus: "d < 16 \<Longrightarrow> hex_digit d \<noteq> CHR ''+''"
  using hex_digit_code[of d] by (auto split: if_splits)

lemma lower_hex_encode: "list_all lower_hex (hex_encode bs)"
  by (induction bs) (simp_all add: hex_encode_def hex_byte_def byte_halves)

lemma u8_from_hex_byte: "u8_from_hex (hex_byte c) = Some (of_char c)"
proof -
  have "\<not> 255 < (of_char c :: nat)" using nat_of_char_less_256[of c] by linarith
  moreover have "\<not> 255 < (of_char c :: nat) div 16" using byte_halves(1)[of c] by linarith
  ultimately show ?thesis by (simp add: u8_from_hex_def hex_byte_def byte_halves hex_digit_not_plus)
qed

lemma hex_encode_nth:
  assumes "i < length bs"
  shows "take 2 (drop (i * 2) (hex_encode bs)) = hex_byte (bs ! i)"
  using assms
proof (induction bs arbitrary: i)
  case (Cons b bs)
  then show ?case by (cases i) (simp_all add: hex_encode_def hex_byte_def)
qed simp

lemma lower_hex_boundary: "list_all lower_hex s \<Longrightarrow> i \<le> length s \<Longrightarrow> char_boundary s i"
proof (cases "i = length s")
  case False
  assume "list_all lower_hex s" "i \<le> length s"
  then have "i < length s" "lower_hex (s ! i)" using False by (simp_all add: list_all_length)
  then show ?thesis by (auto simp: char_boundary_def lower_hex_def)
qed (simp add: char_boundary_def)

lemma decode_byte_encoded: "i < length bs \<Longrightarrow> decode_byte label (hex_encode bs) i = Inr (bs ! i)"
  using lower_hex_boundary[OF lower_hex_encode, of "i * 2" bs] lower_hex_boundary[OF lower_hex_encode, of "i * 2 + 2" bs]
  by (simp add: decode_byte_def slice_def hex_encode_nth u8_from_hex_byte)

lemma hex_decode_encode: "hex_decode_array (length bs) label (hex_encode bs) = Inr bs"
proof -
  have "map_result (decode_byte label (hex_encode bs)) [0..<length bs] = Inr (map ((!) bs) [0..<length bs])"
    by (rule map_result_total) (simp add: decode_byte_encoded)
  then show ?thesis by (simp add: hex_decode_array_def map_nth)
qed

lemma hex_decode_length: "hex_decode_array n label s = Inr bs \<Longrightarrow> length bs = n"
  by (auto simp: hex_decode_array_def map_result_Inr dest!: list_all2_lengthD split: if_splits)

lemma sha256_encoded: "length bs = 32 \<Longrightarrow> validate_sha256 (hex_encode bs) label = Inr ()"
  by (simp add: validate_sha256_def lower_hex_encode)

text \<open>On lowercase text the decoding is the inverse of the encoding, so it is injective there.\<close>

lemma lower_pair:
  assumes "lower_hex c" "lower_hex d"
  obtains n where "n < 256" "[c, d] = hex_byte (char_of n)" "u8_from_hex [c, d] = Some n"
proof -
  have digit: "\<exists>k < 16. c = hex_digit k" if "lower_hex c" for c
  proof -
    have "c = hex_digit (if (of_char c :: nat) \<le> 57 then of_char c - 48 else of_char c - 87)"
      using that by (auto simp: lower_hex_def hex_digit_def)
    then show ?thesis using that by (auto simp: lower_hex_def intro!: exI[of _ "if (of_char c :: nat) \<le> 57 then of_char c - 48 else of_char c - 87"])
  qed
  obtain j k where jk: "j < 16" "c = hex_digit j" "k < 16" "d = hex_digit k" using digit assms by metis
  have "of_char (char_of (16 * j + k) :: char) = (16 * j + k :: nat)" using jk by simp
  then have "[c, d] = hex_byte (char_of (16 * j + k))" using jk by (simp add: hex_byte_def)
  then show ?thesis using that[of "16 * j + k"] u8_from_hex_byte[of "char_of (16 * j + k)"] jk by simp
qed

lemma lower_text:
  assumes "list_all lower_hex s" "length s = 2 * n"
  obtains bs where "length bs = n" "s = hex_encode bs"
proof -
  have "\<exists>bs. length bs = n \<and> s = hex_encode bs" using assms
  proof (induction n arbitrary: s)
    case (Suc n)
    then obtain c d r where s: "s = c # d # r" "list_all lower_hex r" "length r = 2 * n" "lower_hex c" "lower_hex d"
      by (auto simp: length_Suc_conv)
    obtain bs where bs: "length bs = n" "r = hex_encode bs" using Suc.IH[OF s(2,3)] by blast
    obtain k :: nat where "[c, d] = hex_byte (char_of k)" by (rule lower_pair[OF s(4,5)])
    then have "s = hex_encode (char_of k # bs)" using s(1) bs(2) by (simp add: hex_encode_def)
    then show ?case using bs(1) by (intro exI[of _ "char_of k # bs"]) simp
  qed (simp add: hex_encode_def)
  then show ?thesis using that by blast
qed

end
