(* ===== verification/Merkle.thy ===== *)
theory Merkle
  imports HexText
begin

text \<open>
  The Merkle tree of the public log, the private functions of \<open>crates/pcbex-kicad/src/anchor.rs\<close>:
  roots, audit paths, consistency paths and their verification. The hash function is a parameter. A
  path is read through a cursor. The proofs produced for a tree verify, and what verifies is true of
  the tree unless the hash function collides on the inputs at hand.
\<close>

section \<open>The largest power of two below a size\<close>

text \<open>\<open>value - 1\<close> underflows for zero; \<open>leading_zeros\<close> of a 64-bit word.\<close>

fun bit_length :: "nat \<Rightarrow> nat" where
  "bit_length n = (if n = 0 then 0 else Suc (bit_length (n div 2)))"

declare bit_length.simps [simp del]

definition leading_zeros :: "nat \<Rightarrow> nat" where
  "leading_zeros n = 64 - bit_length n"

definition largest_power_of_two_less_than :: "nat \<Rightarrow> nat" where
  "largest_power_of_two_less_than n = 2 ^ (64 - leading_zeros (n - 1) - 1)"

lemma bit_length_bounds: "0 < n \<Longrightarrow> 2 ^ (bit_length n - 1) \<le> n \<and> n < 2 ^ bit_length n \<and> 0 < bit_length n"
proof (induction n rule: bit_length.induct)
  case (1 n)
  show ?case
  proof (cases "n div 2 = 0")
    case True
    then have "n = 1" using 1(2) by (auto simp: div_eq_0_iff)
    then show ?thesis by (simp add: bit_length.simps)
  next
    case False
    then have ih: "2 ^ (bit_length (n div 2) - 1) \<le> n div 2 \<and> n div 2 < 2 ^ bit_length (n div 2) \<and> 0 < bit_length (n div 2)"
      using 1 by simp
    have b: "bit_length n = Suc (bit_length (n div 2))" using 1(2) by (simp add: bit_length.simps[of n])
    define p where "p = (2 :: nat) ^ (bit_length (n div 2) - 1)"
    have double: "2 ^ bit_length (n div 2) = 2 * p" using ih unfolding p_def by (simp flip: power_Suc)
    have "p \<le> n div 2" "n div 2 < 2 * p" using ih unfolding double p_def[symmetric] by simp_all
    then have "2 * p \<le> n" "n < 2 * (2 * p)" by presburger+
    then show ?thesis using b by (simp add: double)
  qed
qed

lemma split_exists:
  assumes "2 \<le> n" "n \<le> 2 ^ 64"
  shows "\<exists>j. largest_power_of_two_less_than n = 2 ^ j \<and> 2 ^ j < n \<and> n \<le> 2 * 2 ^ j"
proof -
  note b = bit_length_bounds[of "n - 1"]
  have "bit_length (n - 1) \<le> 64"
  proof (rule ccontr)
    assume "\<not> ?thesis"
    then have "(2 :: nat) ^ 64 \<le> 2 ^ (bit_length (n - 1) - 1)" by (intro power_increasing) simp_all
    then show False using b assms by linarith
  qed
  then have e: "largest_power_of_two_less_than n = 2 ^ (bit_length (n - 1) - 1)"
    by (simp add: largest_power_of_two_less_than_def leading_zeros_def)
  define p where "p = (2 :: nat) ^ (bit_length (n - 1) - 1)"
  have double: "2 ^ bit_length (n - 1) = 2 * p" using b assms(1) unfolding p_def by (simp flip: power_Suc)
  have "p \<le> n - 1" "n - 1 < 2 * p" using b assms(1) unfolding double p_def[symmetric] by simp_all
  then have "p < n" "n \<le> 2 * p" using assms(1) by linarith+
  then show ?thesis unfolding e p_def by blast
qed

lemma split_less: "2 \<le> n \<Longrightarrow> 0 < largest_power_of_two_less_than n \<and> largest_power_of_two_less_than n < n"
proof (cases "n \<le> 2 ^ 64")
  case False
  have "64 - leading_zeros (n - 1) - 1 \<le> 63" by simp
  then have "(2 :: nat) ^ (64 - leading_zeros (n - 1) - 1) \<le> 2 ^ 63" by (rule power_increasing) simp
  then show ?thesis using False by (simp add: largest_power_of_two_less_than_def)
qed (use split_exists[of n] in auto)

lemma split_shrinks [simp]:
  "n \<noteq> 0 \<Longrightarrow> n \<noteq> Suc 0 \<Longrightarrow> largest_power_of_two_less_than n < n"
  "n \<noteq> 0 \<Longrightarrow> n \<noteq> Suc 0 \<Longrightarrow> n - largest_power_of_two_less_than n < n"
  "Suc 0 < n \<Longrightarrow> largest_power_of_two_less_than n < n"
  "Suc 0 < n \<Longrightarrow> n - largest_power_of_two_less_than n < n"
  using split_less[of n] by linarith+

text \<open>A shorter tree that is longer than the split has the same split.\<close>

lemma split_same:
  assumes "2 \<le> n" "n \<le> 2 ^ 64" "largest_power_of_two_less_than n < m" "m \<le> n"
  shows "largest_power_of_two_less_than m = largest_power_of_two_less_than n"
proof -
  obtain j where j: "largest_power_of_two_less_than n = 2 ^ j" "2 ^ j < n" "n \<le> 2 * 2 ^ j"
    using split_exists[OF assms(1,2)] by blast
  have "2 \<le> m" using assms(3) split_less[OF assms(1)] by linarith
  then obtain i where i: "largest_power_of_two_less_than m = 2 ^ i" "2 ^ i < m" "m \<le> 2 * 2 ^ i"
    using split_exists[of m] assms by force
  have "(2 :: nat) ^ j < 2 ^ Suc i" "(2 :: nat) ^ i < 2 ^ Suc j" using i j assms by simp_all
  then have "i = j" by (simp only: power_strict_increasing_iff one_less_numeral_iff semiring_norm)
  then show ?thesis using i j by simp
qed

section \<open>Roots and paths\<close>

definition node_input :: "bytes \<Rightarrow> bytes \<Rightarrow> bytes" where
  "node_input left right = CHR 0x01 # left @ right"

definition node_hash :: "(bytes \<Rightarrow> bytes) \<Rightarrow> bytes \<Rightarrow> bytes \<Rightarrow> bytes" where
  "node_hash sha left right = sha (node_input left right)"

text \<open>An empty slice underflows; it does not occur behind the checks of the callers.\<close>

function merkle_root :: "(bytes \<Rightarrow> bytes) \<Rightarrow> bytes list \<Rightarrow> fault + bytes" where
  "merkle_root sha leaves =
     (if length leaves = 0 then Inl Panic
      else if length leaves = 1 then Inr (leaves ! 0)
      else
        let split = largest_power_of_two_less_than (length leaves) in
        bind_result (merkle_root sha (take split leaves)) (\<lambda>left.
        bind_result (merkle_root sha (drop split leaves)) (\<lambda>right.
        Inr (node_hash sha left right))))"
  by pat_completeness auto
termination by (relation "measure (length \<circ> snd)") (auto simp: min_less_iff_disj not_le)

function merkle_audit_path :: "(bytes \<Rightarrow> bytes) \<Rightarrow> bytes list \<Rightarrow> nat \<Rightarrow> fault + bytes list" where
  "merkle_audit_path sha leaves index =
     (if length leaves = 0 then Inl Panic
      else if length leaves = 1 then Inr []
      else
        let split = largest_power_of_two_less_than (length leaves) in
        if index < split
        then
          bind_result (merkle_audit_path sha (take split leaves) index) (\<lambda>path.
          bind_result (merkle_root sha (drop split leaves)) (\<lambda>right.
          Inr (path @ [right])))
        else
          bind_result (merkle_audit_path sha (drop split leaves) (index - split)) (\<lambda>path.
          bind_result (merkle_root sha (take split leaves)) (\<lambda>left.
          Inr (path @ [left]))))"
  by pat_completeness auto
termination by (relation "measure (\<lambda>(sha, leaves, index). length leaves)") (auto simp: min_less_iff_disj not_le)

function consistency_subproof :: "(bytes \<Rightarrow> bytes) \<Rightarrow> nat \<Rightarrow> bytes list \<Rightarrow> bool \<Rightarrow> fault + bytes list" where
  "consistency_subproof sha old_size leaves complete_subtree =
     (if old_size = length leaves
      then if complete_subtree then Inr [] else bind_result (merkle_root sha leaves) (\<lambda>r. Inr [r])
      else if length leaves \<le> 1 then Inl Panic
      else
        let split = largest_power_of_two_less_than (length leaves) in
        if old_size \<le> split
        then
          bind_result (consistency_subproof sha old_size (take split leaves) complete_subtree) (\<lambda>path.
          bind_result (merkle_root sha (drop split leaves)) (\<lambda>right.
          Inr (path @ [right])))
        else
          bind_result (consistency_subproof sha (old_size - split) (drop split leaves) False) (\<lambda>path.
          bind_result (merkle_root sha (take split leaves)) (\<lambda>left.
          Inr (path @ [left]))))"
  by pat_completeness auto
termination by (relation "measure (\<lambda>(sha, old_size, leaves, c). length leaves)")
  (auto simp: min_less_iff_disj not_le)

definition merkle_consistency_path :: "(bytes \<Rightarrow> bytes) \<Rightarrow> bytes list \<Rightarrow> nat \<Rightarrow> fault + bytes list" where
  "merkle_consistency_path sha leaves old_size =
     (if old_size = 0 \<or> length leaves < old_size
      then Inl (Fault ''approval consistency old tree size is outside the new tree'')
      else consistency_subproof sha old_size leaves True)"

text \<open>Reading the path.\<close>

definition next_node :: "string \<Rightarrow> bytes list \<Rightarrow> nat \<Rightarrow> fault + bytes \<times> nat" where
  "next_node message path cursor =
     (if cursor < length path then Inr (path ! cursor, cursor + 1) else Inl (Fault message))"

definition next_audit_node :: "bytes list \<Rightarrow> nat \<Rightarrow> fault + bytes \<times> nat" where
  "next_audit_node = next_node ''approval anchor audit path is incomplete''"

definition next_consistency_node :: "bytes list \<Rightarrow> nat \<Rightarrow> fault + bytes \<times> nat" where
  "next_consistency_node = next_node ''approval consistency path is incomplete''"

function root_from_audit_path ::
    "(bytes \<Rightarrow> bytes) \<Rightarrow> bytes \<Rightarrow> nat \<Rightarrow> nat \<Rightarrow> bytes list \<Rightarrow> nat \<Rightarrow> fault + bytes \<times> nat" where
  "root_from_audit_path sha leaf index tree_len path cursor =
     (if tree_len = 1 then Inr (leaf, cursor)
      else if tree_len = 0 then Inl Panic
      else
        let split = largest_power_of_two_less_than tree_len in
        if index < split
        then
          bind_result (root_from_audit_path sha leaf index split path cursor) (\<lambda>(left, cursor).
          bind_result (next_audit_node path cursor) (\<lambda>(right, cursor).
          Inr (node_hash sha left right, cursor)))
        else
          bind_result (root_from_audit_path sha leaf (index - split) (tree_len - split) path cursor) (\<lambda>(right, cursor).
          bind_result (next_audit_node path cursor) (\<lambda>(left, cursor).
          Inr (node_hash sha left right, cursor))))"
  by pat_completeness auto
termination by (relation "measure (\<lambda>(sha, leaf, index, tree_len, path, cursor). tree_len)")
  (auto simp: min_less_iff_disj not_le)

function roots_from_consistency_path ::
    "(bytes \<Rightarrow> bytes) \<Rightarrow> nat \<Rightarrow> nat \<Rightarrow> bool \<Rightarrow> bytes \<Rightarrow> bytes list \<Rightarrow> nat \<Rightarrow> fault + (bytes \<times> bytes) \<times> nat" where
  "roots_from_consistency_path sha old_size new_size complete_subtree trusted_old_root path cursor =
     (if old_size = new_size
      then
        bind_result (if complete_subtree then Inr (trusted_old_root, cursor) else next_consistency_node path cursor)
          (\<lambda>(r, cursor). Inr ((r, r), cursor))
      else if new_size \<le> 1 then Inl Panic
      else
        let split = largest_power_of_two_less_than new_size in
        if old_size \<le> split
        then
          bind_result (roots_from_consistency_path sha old_size split complete_subtree trusted_old_root path cursor)
            (\<lambda>((old_root, new_left), cursor).
          bind_result (next_consistency_node path cursor) (\<lambda>(new_right, cursor).
          Inr ((old_root, node_hash sha new_left new_right), cursor)))
        else
          bind_result (roots_from_consistency_path sha (old_size - split) (new_size - split) False trusted_old_root path cursor)
            (\<lambda>((old_right, new_right), cursor).
          bind_result (next_consistency_node path cursor) (\<lambda>(left, cursor).
          Inr ((node_hash sha left old_right, node_hash sha left new_right), cursor))))"
  by pat_completeness auto
termination by (relation "measure (\<lambda>(sha, old, new, c, t, path, cursor). new)")
  (auto simp: min_less_iff_disj not_le)

declare merkle_root.simps [simp del] merkle_audit_path.simps [simp del] consistency_subproof.simps [simp del]
  root_from_audit_path.simps [simp del] roots_from_consistency_path.simps [simp del]

section \<open>The tree behind the code\<close>

function tree_root :: "(bytes \<Rightarrow> bytes) \<Rightarrow> bytes list \<Rightarrow> bytes" where
  "tree_root sha leaves =
     (if length leaves \<le> 1 then leaves ! 0
      else
        let split = largest_power_of_two_less_than (length leaves) in
        node_hash sha (tree_root sha (take split leaves)) (tree_root sha (drop split leaves)))"
  by pat_completeness auto
termination by (relation "measure (length \<circ> snd)") (auto simp: min_less_iff_disj not_le)

declare tree_root.simps [simp del]

text \<open>Two parts make a tree when the first has the size of the split.\<close>

definition halves :: "nat \<Rightarrow> nat \<Rightarrow> bool" where
  "halves a b \<longleftrightarrow> 0 < a \<and> 0 < b \<and> largest_power_of_two_less_than (a + b) = a"

lemma halvesD: "halves a b \<Longrightarrow> 0 < a" "halves a b \<Longrightarrow> 0 < b" "halves a b \<Longrightarrow> largest_power_of_two_less_than (a + b) = a"
  "halves a b \<Longrightarrow> a + b \<noteq> Suc 0" "halves a b \<Longrightarrow> \<not> a + b \<le> Suc 0"
  by (auto simp: halves_def)

lemma tree_induct [consumes 1, case_names leaf node]:
  assumes "0 < length ls" and "\<And>x. P [x]"
    and "\<And>l r. halves (length l) (length r) \<Longrightarrow> P l \<Longrightarrow> P r \<Longrightarrow> P (l @ r)"
  shows "P ls"
  using assms(1)
proof (induction ls rule: length_induct)
  case (1 ls)
  show ?case
  proof (cases "length ls = 1")
    case True
    then show ?thesis using assms(2) by (auto simp: length_Suc_conv)
  next
    case False
    let ?k = "largest_power_of_two_less_than (length ls)"
    have k: "0 < ?k" "?k < length ls" using split_less[of "length ls"] False 1(2) by (simp_all add: Suc_lessI)
    then have "halves (length (take ?k ls)) (length (drop ?k ls))" by (simp add: halves_def)
    moreover have "P (take ?k ls)" by (rule 1(1)[rule_format]) (use k 1(2) in auto)
    moreover have "P (drop ?k ls)" by (rule 1(1)[rule_format]) (use k in auto)
    ultimately show ?thesis using assms(3)[of "take ?k ls" "drop ?k ls"] by simp
  qed
qed

lemma tree_root_leaf [simp]: "tree_root sha [x] = x"
  by (simp add: tree_root.simps)

lemma tree_root_node:
  "halves (length l) (length r) \<Longrightarrow> tree_root sha (l @ r) = node_hash sha (tree_root sha l) (tree_root sha r)"
  by (subst tree_root.simps) (simp add: halvesD Let_def)

lemma merkle_root_tree: "0 < length ls \<Longrightarrow> merkle_root sha ls = Inr (tree_root sha ls)"
proof (induction ls rule: tree_induct)
  case (node l r)
  then show ?case by (subst merkle_root.simps) (use halvesD[OF node(1)] in \<open>auto simp: Let_def tree_root_node\<close>)
qed (simp add: merkle_root.simps)

lemma audit_path_node:
  assumes "halves (length l) (length r)"
  shows "merkle_audit_path sha (l @ r) i =
    (if i < length l
     then bind_result (merkle_audit_path sha l i) (\<lambda>p. Inr (p @ [tree_root sha r]))
     else bind_result (merkle_audit_path sha r (i - length l)) (\<lambda>p. Inr (p @ [tree_root sha l])))"
  by (subst merkle_audit_path.simps) (use halvesD[OF assms] in \<open>simp add: Let_def merkle_root_tree\<close>)

lemma from_audit_node:
  assumes "halves a b"
  shows "root_from_audit_path sha x i (a + b) path c =
    (if i < a
     then bind_result (root_from_audit_path sha x i a path c) (\<lambda>(left, c).
          bind_result (next_audit_node path c) (\<lambda>(right, c). Inr (node_hash sha left right, c)))
     else bind_result (root_from_audit_path sha x (i - a) b path c) (\<lambda>(right, c).
          bind_result (next_audit_node path c) (\<lambda>(left, c). Inr (node_hash sha left right, c))))"
  by (subst root_from_audit_path.simps) (use halvesD[OF assms] in \<open>simp add: Let_def\<close>)

lemma from_audit_leaf [simp]: "root_from_audit_path sha x i (Suc 0) path c = Inr (x, c)"
  by (simp add: root_from_audit_path.simps)

lemma audit_complete:
  assumes "0 < length ls"
  shows "i < length ls \<Longrightarrow> \<exists>p. merkle_audit_path sha ls i = Inr p \<and>
    (\<forall>pre post. root_from_audit_path sha (ls ! i) i (length ls) (pre @ p @ post) (length pre) =
       Inr (tree_root sha ls, length pre + length p))"
  using assms
proof (induction ls arbitrary: i rule: tree_induct)
  case (leaf x)
  then show ?case by (simp add: merkle_audit_path.simps)
next
  case (node l r)
  have step: "next_audit_node (pre @ (p @ [y]) @ post) (length pre + length p) = Inr (y, length pre + length (p @ [y]))" for pre p y post
    by (simp add: next_audit_node_def next_node_def nth_append)
  show ?case
  proof (cases "i < length l")
    case True
    from node.IH(1)[OF this] obtain p where p: "merkle_audit_path sha l i = Inr p"
      "\<And>pre post. root_from_audit_path sha (l ! i) i (length l) (pre @ p @ post) (length pre) = Inr (tree_root sha l, length pre + length p)"
      by blast
    have "root_from_audit_path sha (l ! i) i (length l) (pre @ (p @ [tree_root sha r]) @ post) (length pre) =
        Inr (tree_root sha l, length pre + length p)" for pre post
      using p(2)[of pre "tree_root sha r # post"] by simp
    then show ?thesis using True node(1) step
      by (intro exI[of _ "p @ [tree_root sha r]"])
        (simp add: audit_path_node from_audit_node p(1) nth_append tree_root_node del: append_assoc)
  next
    case False
    then have "i - length l < length r" using node.prems by simp
    from node.IH(2)[OF this] obtain p where p: "merkle_audit_path sha r (i - length l) = Inr p"
      "\<And>pre post. root_from_audit_path sha (r ! (i - length l)) (i - length l) (length r) (pre @ p @ post) (length pre) =
        Inr (tree_root sha r, length pre + length p)" by blast
    have "root_from_audit_path sha (r ! (i - length l)) (i - length l) (length r) (pre @ (p @ [tree_root sha l]) @ post) (length pre) =
        Inr (tree_root sha r, length pre + length p)" for pre post
      using p(2)[of pre "tree_root sha l # post"] by simp
    then show ?thesis using False node(1) step
      by (intro exI[of _ "p @ [tree_root sha l]"])
        (simp add: audit_path_node from_audit_node p(1) nth_append tree_root_node del: append_assoc)
  qed
qed

text \<open>A path has at most one node per bit of the size.\<close>

lemma halves_power:
  assumes "halves a b" "a + b \<le> 2 ^ Suc j" "a + b \<le> 2 ^ 64"
  shows "a \<le> 2 ^ j" "b \<le> 2 ^ j"
proof -
  have "2 \<le> a + b" using assms(1) by (auto simp: halves_def)
  from split_exists[OF this assms(3)] obtain i where i: "a = 2 ^ i" "a < a + b" "a + b \<le> 2 * a"
    using halvesD(3)[OF assms(1)] by auto
  then have "(2 :: nat) ^ i < 2 ^ Suc j" using assms(2) by linarith
  then have "i \<le> j" by (simp only: power_strict_increasing_iff one_less_numeral_iff semiring_norm less_Suc_eq_le)
  then have "(2 :: nat) ^ i \<le> 2 ^ j" by (rule power_increasing) simp
  then show "a \<le> 2 ^ j" "b \<le> 2 ^ j" using i by linarith+
qed

lemma audit_path_length:
  assumes "0 < length ls"
  shows "length ls \<le> 2 ^ j \<Longrightarrow> length ls \<le> 2 ^ 64 \<Longrightarrow> merkle_audit_path sha ls i = Inr p \<Longrightarrow> length p \<le> j"
  using assms
proof (induction ls arbitrary: i j p rule: tree_induct)
  case (leaf x)
  then show ?case by (simp add: merkle_audit_path.simps)
next
  case (node l r)
  obtain k where j: "j = Suc k" using node.prems(1) halvesD[OF node(1)] by (cases j) auto
  have h: "length l \<le> 2 ^ k" "length r \<le> 2 ^ k"
    using halves_power[OF node(1), of k] node.prems by (simp_all add: j)
  have le: "length l \<le> 2 ^ 64" "length r \<le> 2 ^ 64" using node.prems(2) by simp_all
  show ?case
    using node.prems(3) node.IH(1)[OF h(1) le(1)] node.IH(2)[OF h(2) le(2)]
    by (auto simp: audit_path_node[OF node(1)] bind_result_Inr j split: if_splits)
qed

section \<open>What verification means\<close>

text \<open>The inputs that the nodes of a tree, and the steps of a verification, hand to the hash function.\<close>

function tree_inputs :: "(bytes \<Rightarrow> bytes) \<Rightarrow> bytes list \<Rightarrow> bytes set" where
  "tree_inputs sha leaves =
     (if length leaves \<le> 1 then {}
      else
        let split = largest_power_of_two_less_than (length leaves) in
        insert (node_input (tree_root sha (take split leaves)) (tree_root sha (drop split leaves)))
          (tree_inputs sha (take split leaves) \<union> tree_inputs sha (drop split leaves)))"
  by pat_completeness auto
termination by (relation "measure (length \<circ> snd)") (auto simp: min_less_iff_disj not_le)

function audit_inputs :: "(bytes \<Rightarrow> bytes) \<Rightarrow> bytes \<Rightarrow> nat \<Rightarrow> nat \<Rightarrow> bytes list \<Rightarrow> nat \<Rightarrow> bytes set" where
  "audit_inputs sha leaf index tree_len path cursor =
     (if tree_len \<le> 1 then {}
      else
        let split = largest_power_of_two_less_than tree_len in
        if index < split
        then (case root_from_audit_path sha leaf index split path cursor of
            Inl e \<Rightarrow> {}
          | Inr (left, c) \<Rightarrow> insert (node_input left (path ! c)) (audit_inputs sha leaf index split path cursor))
        else (case root_from_audit_path sha leaf (index - split) (tree_len - split) path cursor of
            Inl e \<Rightarrow> {}
          | Inr (right, c) \<Rightarrow>
              insert (node_input (path ! c) right) (audit_inputs sha leaf (index - split) (tree_len - split) path cursor)))"
  by pat_completeness auto
termination by (relation "measure (\<lambda>(sha, leaf, index, tree_len, path, cursor). tree_len)") (auto simp: not_le)

function consistency_inputs ::
    "(bytes \<Rightarrow> bytes) \<Rightarrow> nat \<Rightarrow> nat \<Rightarrow> bool \<Rightarrow> bytes \<Rightarrow> bytes list \<Rightarrow> nat \<Rightarrow> bytes set" where
  "consistency_inputs sha old_size new_size complete_subtree trusted_old_root path cursor =
     (if old_size = new_size \<or> new_size \<le> 1 then {}
      else
        let split = largest_power_of_two_less_than new_size in
        if old_size \<le> split
        then (case roots_from_consistency_path sha old_size split complete_subtree trusted_old_root path cursor of
            Inl e \<Rightarrow> {}
          | Inr ((old_root, new_left), c) \<Rightarrow>
              insert (node_input new_left (path ! c))
                (consistency_inputs sha old_size split complete_subtree trusted_old_root path cursor))
        else (case roots_from_consistency_path sha (old_size - split) (new_size - split) False trusted_old_root path cursor of
            Inl e \<Rightarrow> {}
          | Inr ((old_right, new_right), c) \<Rightarrow>
              insert (node_input (path ! c) old_right) (insert (node_input (path ! c) new_right)
                (consistency_inputs sha (old_size - split) (new_size - split) False trusted_old_root path cursor))))"
  by pat_completeness auto
termination by (relation "measure (\<lambda>(sha, old, new, c, t, path, cursor). new)") (auto simp: not_le)

declare tree_inputs.simps [simp del] audit_inputs.simps [simp del] consistency_inputs.simps [simp del]

text \<open>Digests have 32 bytes, and the hash function has no collision among the given inputs.\<close>

definition digests :: "(bytes \<Rightarrow> bytes) \<Rightarrow> bytes list \<Rightarrow> bool" where
  "digests sha ls \<longleftrightarrow> (\<forall>m. length (sha m) = 32) \<and> (\<forall>x \<in> set ls. length x = 32)"

lemma digests_append [simp]: "digests sha (xs @ ys) \<longleftrightarrow> digests sha xs \<and> digests sha ys"
  by (auto simp: digests_def)

lemma digests_Cons [simp]: "digests sha (x # xs) \<longleftrightarrow> length x = 32 \<and> digests sha xs"
  by (auto simp: digests_def)

lemma digests_none: "digests sha xs \<Longrightarrow> digests sha []"
  by (simp add: digests_def)

lemma tree_inputs_node:
  "halves (length l) (length r) \<Longrightarrow> tree_inputs sha (l @ r) =
     insert (node_input (tree_root sha l) (tree_root sha r)) (tree_inputs sha l \<union> tree_inputs sha r)"
  by (subst tree_inputs.simps) (simp add: halvesD Let_def)

lemma tree_root_length: "0 < length ls \<Longrightarrow> digests sha ls \<Longrightarrow> length (tree_root sha ls) = 32"
  by (induction ls rule: tree_induct) (simp_all add: tree_root_node node_hash_def digests_def)

lemma node_injective:
  assumes "node_hash sha l r = node_hash sha l' r'" "inj_on sha H" "node_input l r \<in> H" "node_input l' r' \<in> H"
    and "length l = length l'"
  shows "l = l' \<and> r = r'"
  using inj_onD[OF assms(2) _ assms(3,4)] assms(1,5) by (simp add: node_hash_def node_input_def)

lemma parts_of:
  assumes "halves (length l) (length r)" "length ms = length l + length r"
  obtains l' r' where "ms = l' @ r'" "length l' = length l" "length r' = length r" "halves (length l') (length r')"
  using assms that[of "take (length l) ms" "drop (length l) ms"] by (simp add: halves_def)

text \<open>The root determines the leaves.\<close>

lemma tree_root_injective:
  assumes "0 < length ls"
  shows "length ms = length ls \<Longrightarrow> tree_root sha ms = tree_root sha ls \<Longrightarrow> digests sha (ls @ ms) \<Longrightarrow>
    inj_on sha H \<Longrightarrow> tree_inputs sha ls \<union> tree_inputs sha ms \<subseteq> H \<Longrightarrow> ms = ls"
  using assms
proof (induction ls arbitrary: ms rule: tree_induct)
  case (leaf x)
  then show ?case by (auto simp: length_Suc_conv)
next
  case (node l r)
  obtain l' r' where ms: "ms = l' @ r'" "length l' = length l" "length r' = length r" "halves (length l') (length r')"
    using parts_of[OF node(1), of ms] node.prems(1) by auto
  note sub = node.prems(5)[unfolded ms(1) tree_inputs_node[OF node(1)] tree_inputs_node[OF ms(4)]]
  have "length (tree_root sha l') = 32" "length (tree_root sha l) = 32"
    using node.prems(3) ms halvesD(1)[OF node(1)] halvesD(1)[OF ms(4)] by (auto intro!: tree_root_length)
  then have "tree_root sha l' = tree_root sha l \<and> tree_root sha r' = tree_root sha r"
    using node_injective[of sha "tree_root sha l'" "tree_root sha r'" "tree_root sha l" "tree_root sha r" H]
      node.prems(2,4) sub by (simp add: ms tree_root_node node(1))
  then show ?case using node.IH(1)[of l'] node.IH(2)[of r'] node.prems(3,4) sub ms by simp
qed

lemma next_node_Inr: "next_node m path c = Inr (y, c') \<longleftrightarrow> c < length path \<and> y = path ! c \<and> c' = c + 1"
  by (auto simp: next_node_def)

lemma from_audit_length:
  assumes "0 < n"
  shows "root_from_audit_path sha x i n path c = Inr (y, c') \<Longrightarrow> digests sha [x] \<Longrightarrow> length y = 32"
  using assms
proof (induction n arbitrary: i c y c' rule: less_induct)
  case (less n)
  show ?case
  proof (cases "n = 1")
    case False
    then show ?thesis using less.prems
      by (subst (asm) root_from_audit_path.simps)
        (auto simp: Let_def bind_result_Inr node_hash_def digests_def split: if_splits)
  qed (use less.prems in simp)
qed

lemma audit_sound:
  assumes "0 < length ls"
  shows "i < length ls \<Longrightarrow> root_from_audit_path sha x i (length ls) path c = Inr (tree_root sha ls, c') \<Longrightarrow>
    digests sha (x # ls @ path) \<Longrightarrow> inj_on sha H \<Longrightarrow>
    tree_inputs sha ls \<union> audit_inputs sha x i (length ls) path c \<subseteq> H \<Longrightarrow> x = ls ! i"
  using assms
proof (induction ls arbitrary: i c c' rule: tree_induct)
  case (leaf y)
  then show ?case by simp
next
  case (node l r)
  note nd = halvesD[OF node(1)]
  have roots: "length (tree_root sha l) = 32" "length (tree_root sha r) = 32"
    using node.prems(3) nd by (auto intro!: tree_root_length)
  have digests: "digests sha [x]" using node.prems(3) by (simp add: digests_def)
  show ?case
  proof (cases "i < length l")
    case True
    obtain left c1 where step: "root_from_audit_path sha x i (length l) path c = Inr (left, c1)" "c1 < length path"
      "node_hash sha left (path ! c1) = node_hash sha (tree_root sha l) (tree_root sha r)"
      using node.prems(2) True
      by (auto simp: from_audit_node[OF node(1)] tree_root_node[OF node(1)] bind_result_Inr next_audit_node_def next_node_Inr)
    have inputs: "audit_inputs sha x i (length l + length r) path c =
        insert (node_input left (path ! c1)) (audit_inputs sha x i (length l) path c)"
      by (subst audit_inputs.simps) (use nd True step(1) in \<open>simp add: Let_def\<close>)
    note sub = node.prems(5)[unfolded length_append inputs tree_inputs_node[OF node(1)]]
    have "length left = 32" using from_audit_length[OF nd(1) step(1) digests] .
    then have "left = tree_root sha l"
      using node_injective[OF step(3) node.prems(4)] sub roots by simp
    then show ?thesis using node.IH(1)[OF True] step(1) node.prems(3,4) sub True by (simp add: nth_append)
  next
    case False
    then have i: "i - length l < length r" using node.prems(1) by simp
    obtain right c1 where step: "root_from_audit_path sha x (i - length l) (length r) path c = Inr (right, c1)" "c1 < length path"
      "node_hash sha (path ! c1) right = node_hash sha (tree_root sha l) (tree_root sha r)"
      using node.prems(2) False
      by (auto simp: from_audit_node[OF node(1)] tree_root_node[OF node(1)] bind_result_Inr next_audit_node_def next_node_Inr)
    have inputs: "audit_inputs sha x i (length l + length r) path c =
        insert (node_input (path ! c1) right) (audit_inputs sha x (i - length l) (length r) path c)"
      by (subst audit_inputs.simps) (use nd False step(1) in \<open>simp add: Let_def\<close>)
    note sub = node.prems(5)[unfolded length_append inputs tree_inputs_node[OF node(1)]]
    have "length (path ! c1) = 32" using node.prems(3) step(2) by (simp add: digests_def)
    then have "right = tree_root sha r"
      using node_injective[OF step(3) node.prems(4)] sub roots by simp
    then show ?thesis using node.IH(2)[OF i] step(1) node.prems(3,4) sub False by (simp add: nth_append)
  qed
qed

section \<open>Consistency\<close>

lemma subproof_node:
  assumes "halves (length l) (length r)" "m \<noteq> length l + length r"
  shows "consistency_subproof sha m (l @ r) b =
    (if m \<le> length l
     then bind_result (consistency_subproof sha m l b) (\<lambda>p. Inr (p @ [tree_root sha r]))
     else bind_result (consistency_subproof sha (m - length l) r False) (\<lambda>p. Inr (p @ [tree_root sha l])))"
  by (subst consistency_subproof.simps) (use halvesD[OF assms(1)] assms(2) in \<open>simp add: Let_def merkle_root_tree\<close>)

lemma subproof_length:
  assumes "0 < length ls"
  shows "length ls \<le> 2 ^ j \<Longrightarrow> length ls \<le> 2 ^ 64 \<Longrightarrow> consistency_subproof sha m ls full = Inr p \<Longrightarrow> length p \<le> Suc j"
  using assms
proof (induction ls arbitrary: m full j p rule: tree_induct)
  case (leaf x)
  then show ?case by (auto simp: consistency_subproof.simps bind_result_Inr split: if_splits)
next
  case (node l r)
  show ?case
  proof (cases "m = length l + length r")
    case True
    then show ?thesis using node.prems(3) by (auto simp: consistency_subproof.simps bind_result_Inr split: if_splits)
  next
    case False
    obtain k where j: "j = Suc k" using node.prems(1) halvesD[OF node(1)] by (cases j) auto
    have h: "length l \<le> 2 ^ k" "length r \<le> 2 ^ k"
      using halves_power[OF node(1), of k] node.prems by (simp_all add: j)
    have le: "length l \<le> 2 ^ 64" "length r \<le> 2 ^ 64" using node.prems(2) by simp_all
    show ?thesis
      using node.prems(3) node.IH(1)[OF h(1) le(1)] node.IH(2)[OF h(2) le(2)]
      by (auto simp: subproof_node[OF node(1) False] bind_result_Inr j split: if_splits)
  qed
qed

lemma from_consistency_node:
  assumes "halves a b" "m \<noteq> a + b"
  shows "roots_from_consistency_path sha m (a + b) full t path c =
    (if m \<le> a
     then bind_result (roots_from_consistency_path sha m a full t path c) (\<lambda>((old_root, new_left), c).
          bind_result (next_consistency_node path c) (\<lambda>(new_right, c). Inr ((old_root, node_hash sha new_left new_right), c)))
     else bind_result (roots_from_consistency_path sha (m - a) b False t path c) (\<lambda>((old_right, new_right), c).
          bind_result (next_consistency_node path c) (\<lambda>(left, c). Inr ((node_hash sha left old_right, node_hash sha left new_right), c))))"
  by (subst roots_from_consistency_path.simps) (use halvesD[OF assms(1)] assms(2) in \<open>simp add: Let_def\<close>)

lemma from_consistency_equal:
  "roots_from_consistency_path sha n n full t path c =
    bind_result (if full then Inr (t, c) else next_consistency_node path c) (\<lambda>(r, c). Inr ((r, r), c))"
  by (simp add: roots_from_consistency_path.simps)

lemma old_tree_node:
  assumes "halves (length l) (length r)" "length l < m" "m \<le> length l + length r" "length l + length r \<le> 2 ^ 64"
  shows "halves (length l) (m - length l)"
proof -
  have "2 \<le> length l + length r" using halvesD(1,2)[OF assms(1)] by linarith
  from split_same[OF this assms(4), of m] show ?thesis using assms halvesD[OF assms(1)] by (simp add: halves_def)
qed

lemma consistency_complete:
  assumes "0 < length ls"
  shows "0 < m \<Longrightarrow> m \<le> length ls \<Longrightarrow> length ls \<le> 2 ^ 64 \<Longrightarrow> \<exists>p. consistency_subproof sha m ls full = Inr p \<and>
    (\<forall>t pre post. (full \<longrightarrow> t = tree_root sha (take m ls)) \<longrightarrow>
      roots_from_consistency_path sha m (length ls) full t (pre @ p @ post) (length pre) =
        Inr ((tree_root sha (take m ls), tree_root sha ls), length pre + length p))"
  using assms
proof (induction ls arbitrary: m full rule: tree_induct)
  case (leaf x)
  then have "m = 1" by simp
  then show ?case
    by (cases full) (simp_all add: consistency_subproof.simps merkle_root.simps from_consistency_equal next_consistency_node_def next_node_def nth_append)
next
  case (node l r)
  have step: "next_consistency_node (pre @ (p @ [y]) @ post) (length pre + length p) = Inr (y, length pre + length (p @ [y]))" for pre p y post
    by (simp add: next_consistency_node_def next_node_def nth_append)
  consider "m = length l + length r" | "m \<noteq> length l + length r" "m \<le> length l" | "m \<noteq> length l + length r" "length l < m" by linarith
  then show ?case
  proof cases
    case 1
    then show ?thesis using halvesD[OF node(1)]
      by (cases full) (simp_all add: consistency_subproof.simps merkle_root_tree from_consistency_equal next_consistency_node_def next_node_def nth_append)
  next
    case 2
    have "length l \<le> 2 ^ 64" using node.prems(3) by simp
    from node.IH(1)[OF node.prems(1) 2(2) this, of full] obtain p where p: "consistency_subproof sha m l full = Inr p"
      "\<And>t pre post. full \<longrightarrow> t = tree_root sha (take m l) \<Longrightarrow>
        roots_from_consistency_path sha m (length l) full t (pre @ p @ post) (length pre) =
          Inr ((tree_root sha (take m l), tree_root sha l), length pre + length p)" by blast
    have "roots_from_consistency_path sha m (length l) full t (pre @ (p @ [tree_root sha r]) @ post) (length pre) =
        Inr ((tree_root sha (take m l), tree_root sha l), length pre + length p)" if "full \<longrightarrow> t = tree_root sha (take m l)" for t pre post
      using p(2)[OF that, of pre "tree_root sha r # post"] by simp
    then show ?thesis using 2 step
      by (intro exI[of _ "p @ [tree_root sha r]"])
        (simp add: subproof_node[OF node(1)] from_consistency_node[OF node(1)] p(1) tree_root_node[OF node(1)] del: append_assoc)
  next
    case 3
    have b: "0 < m - length l" "m - length l \<le> length r" "length r \<le> 2 ^ 64" using 3 node.prems by simp_all
    have old: "halves (length l) (length (take (m - length l) r))"
      using old_tree_node[OF node(1) 3(2)] node.prems b by simp
    from node.IH(2)[OF b, of False] obtain p where p: "consistency_subproof sha (m - length l) r False = Inr p"
      "\<And>t pre post. roots_from_consistency_path sha (m - length l) (length r) False t (pre @ p @ post) (length pre) =
          Inr ((tree_root sha (take (m - length l) r), tree_root sha r), length pre + length p)" by blast
    have "roots_from_consistency_path sha (m - length l) (length r) False t (pre @ (p @ [tree_root sha l]) @ post) (length pre) =
        Inr ((tree_root sha (take (m - length l) r), tree_root sha r), length pre + length p)" for t pre post
      using p(2)[of t pre "tree_root sha l # post"] by simp
    then show ?thesis using 3 step
      by (intro exI[of _ "p @ [tree_root sha l]"])
        (simp add: subproof_node[OF node(1)] from_consistency_node[OF node(1)] p(1) tree_root_node[OF node(1)] tree_root_node[OF old] del: append_assoc)
  qed
qed

lemma audit_path_digests:
  assumes "0 < length ls"
  shows "merkle_audit_path sha ls i = Inr p \<Longrightarrow> digests sha ls \<Longrightarrow> digests sha p"
  using assms
proof (induction ls arbitrary: i p rule: tree_induct)
  case (leaf x)
  then show ?case by (simp add: merkle_audit_path.simps digests_def)
next
  case (node l r)
  then show ?case using halvesD(1,2)[OF node(1)]
    by (auto simp: audit_path_node[OF node(1)] bind_result_Inr tree_root_length digests_none split: if_splits)
qed

lemma subproof_digests:
  assumes "0 < length ls"
  shows "consistency_subproof sha m ls full = Inr p \<Longrightarrow> digests sha ls \<Longrightarrow> digests sha p"
  using assms
proof (induction ls arbitrary: m full p rule: tree_induct)
  case (leaf x)
  then show ?case by (auto simp: consistency_subproof.simps merkle_root.simps bind_result_Inr digests_def split: if_splits)
next
  case (node l r)
  note nd = halvesD(1,2)[OF node(1)]
  show ?case
  proof (cases "m = length l + length r")
    case True
    have "length (tree_root sha (l @ r)) = 32" using node.prems(2) nd by (intro tree_root_length) simp_all
    then show ?thesis using node.prems nd True
      by (auto simp: consistency_subproof.simps merkle_root_tree digests_none split: if_splits)
  next
    case False
    then show ?thesis using node nd
      by (auto simp: subproof_node[OF node(1) False] bind_result_Inr tree_root_length digests_none split: if_splits)
  qed
qed

lemma from_consistency_length:
  assumes "0 < m" "m \<le> n"
  shows "roots_from_consistency_path sha m n full t path c = Inr ((x, y), c') \<Longrightarrow> digests sha (t # path) \<Longrightarrow>
    length x = 32 \<and> length y = 32"
  using assms
proof (induction n arbitrary: m full c x y c' rule: less_induct)
  case (less n)
  show ?case
  proof (cases "m = n")
    case True
    then show ?thesis using less.prems
      by (auto simp: from_consistency_equal bind_result_Inr next_consistency_node_def next_node_Inr digests_def split: if_splits)
  next
    case False
    let ?k = "largest_power_of_two_less_than n"
    have n: "2 \<le> n" using False less.prems(3,4) by linarith
    have k: "0 < ?k" "?k < n" using split_less[OF n] by auto
    then have h: "halves ?k (n - ?k)" "m \<noteq> ?k + (n - ?k)" using False by (auto simp: halves_def)
    have e: "?k + (n - ?k) = n" using k by simp
    note run = from_consistency_node[OF h, unfolded e]
    show ?thesis
    proof (cases "m \<le> ?k")
      case True
      then obtain z c1 where z: "roots_from_consistency_path sha m ?k full t path c = Inr ((x, z), c1)" "\<exists>u v. y = node_hash sha u v"
        using less.prems(1) by (auto simp: run bind_result_Inr)
      then show ?thesis using less.IH[OF k(2) z(1) less.prems(2,3) True] less.prems(2) by (auto simp: node_hash_def digests_def)
    next
      case False
      then show ?thesis using less.prems(1,2) by (auto simp: run bind_result_Inr node_hash_def digests_def)
    qed
  qed
qed

lemma consistency_sound:
  assumes "0 < length ls"
  shows "0 < m \<Longrightarrow> m \<le> length ls \<Longrightarrow> length ls \<le> 2 ^ 64 \<Longrightarrow> length ms = m \<Longrightarrow>
    roots_from_consistency_path sha m (length ls) full t path c = Inr ((tree_root sha ms, tree_root sha ls), c') \<Longrightarrow>
    digests sha (t # ms @ ls @ path) \<Longrightarrow> inj_on sha H \<Longrightarrow>
    tree_inputs sha ls \<union> tree_inputs sha ms \<union> consistency_inputs sha m (length ls) full t path c \<subseteq> H \<Longrightarrow> ms = take m ls"
  using assms
proof (induction ls arbitrary: m ms full c c' rule: tree_induct)
  case (leaf x)
  then have "m = 1" by simp
  then show ?case using leaf.prems(4,5) by (auto simp: from_consistency_equal bind_result_Inr length_Suc_conv)
next
  case (node l r)
  note nd = halvesD[OF node(1)]
  have whole: "0 < length (l @ r)" using nd by simp
  consider "m = length l + length r" | "m \<noteq> length l + length r" "m \<le> length l" | "m \<noteq> length l + length r" "length l < m" by linarith
  then show ?case
  proof cases
    case 1
    then have "tree_root sha ms = tree_root sha (l @ r)" using node.prems(5) by (auto simp: from_consistency_equal bind_result_Inr)
    then show ?thesis using tree_root_injective[OF whole, of ms sha H] 1 node.prems(4,6-8) by auto
  next
    case 2
    obtain new_left c1 where step: "roots_from_consistency_path sha m (length l) full t path c = Inr ((tree_root sha ms, new_left), c1)"
      "node_hash sha new_left (path ! c1) = node_hash sha (tree_root sha l) (tree_root sha r)"
      using node.prems(5) 2
      by (auto simp: from_consistency_node[OF node(1)] tree_root_node[OF node(1)] bind_result_Inr next_consistency_node_def next_node_Inr)
    have inputs: "consistency_inputs sha m (length l + length r) full t path c =
        insert (node_input new_left (path ! c1)) (consistency_inputs sha m (length l) full t path c)"
      by (subst consistency_inputs.simps) (use nd 2 step(1) in \<open>simp add: Let_def\<close>)
    note sub = node.prems(8)[unfolded length_append inputs tree_inputs_node[OF node(1)]]
    have "length new_left = 32" using from_consistency_length[OF node.prems(1) 2(2) step(1)] node.prems(6) by simp
    moreover have "length (tree_root sha l) = 32" using node.prems(6) nd by (intro tree_root_length) simp_all
    ultimately have "new_left = tree_root sha l"
      using node_injective[OF step(2) node.prems(7)] sub by simp
    then show ?thesis using node.IH(1)[of m ms full c c1] 2 step(1) node.prems sub by simp
  next
    case 3
    have b: "0 < m - length l" "m - length l \<le> length r" "length r \<le> 2 ^ 64" using 3 node.prems by simp_all
    define l' r' where "l' = take (length l) ms" and "r' = drop (length l) ms"
    have ms: "ms = l' @ r'" "length l' = length l" "length r' = m - length l"
      using 3 node.prems(4) by (simp_all add: l'_def r'_def)
    have old: "halves (length l') (length r')"
      using old_tree_node[OF node(1) 3(2)] node.prems b ms by simp
    obtain old_right new_right c1 where step:
      "roots_from_consistency_path sha (m - length l) (length r) False t path c = Inr ((old_right, new_right), c1)" "c1 < length path"
      "node_hash sha (path ! c1) old_right = node_hash sha (tree_root sha l') (tree_root sha r')"
      "node_hash sha (path ! c1) new_right = node_hash sha (tree_root sha l) (tree_root sha r)"
      using node.prems(5) 3
      by (auto simp: from_consistency_node[OF node(1)] tree_root_node[OF node(1)] tree_root_node[OF old] ms(1)
          bind_result_Inr next_consistency_node_def next_node_Inr)
    have inputs: "consistency_inputs sha m (length l + length r) full t path c =
        insert (node_input (path ! c1) old_right) (insert (node_input (path ! c1) new_right)
          (consistency_inputs sha (m - length l) (length r) False t path c))"
      by (subst consistency_inputs.simps) (use nd 3 step(1) in \<open>simp add: Let_def\<close>)
    note sub = node.prems(8)[unfolded length_append inputs ms(1) tree_inputs_node[OF node(1)] tree_inputs_node[OF old]]
    have len: "length (path ! c1) = 32" "length (tree_root sha l) = 32" "length (tree_root sha l') = 32"
      using node.prems(6) step(2) nd ms halvesD(1)[OF old] by (auto simp: digests_def intro!: tree_root_length)
    have "path ! c1 = tree_root sha l' \<and> old_right = tree_root sha r'"
      by (rule node_injective[OF step(3) node.prems(7)]) (use sub len in auto)
    moreover have "path ! c1 = tree_root sha l \<and> new_right = tree_root sha r"
      by (rule node_injective[OF step(4) node.prems(7)]) (use sub len in auto)
    ultimately have eq: "tree_root sha l' = tree_root sha l" "old_right = tree_root sha r'" "new_right = tree_root sha r" by auto
    have "l' = l"
      using tree_root_injective[OF nd(1), of l' sha H] ms eq(1) node.prems(6,7) sub by simp
    moreover have "r' = take (m - length l) r"
      using node.IH(2)[OF b, of r' False c c1] step(1) eq(2,3) node.prems(6,7) sub ms by simp
    ultimately show ?thesis using ms(1) 3 by simp
  qed
qed

end
