(* ===== verification/Transparency.thy ===== *)
theory Transparency
  imports HexText
begin

text \<open>
  The approval transparency log of \<open>crates/pcbex-kicad/src/transparency.rs\<close>: an append-only list of
  entries, each with the digest of its predecessor, signed checkpoints of the whole log, witnesses
  and witness quorums over a checkpoint, and the rotation of witness keys. Hashing, JSON text and
  signatures belong to libraries; they are the fields of a record that the functions take.
\<close>

section \<open>Records of the log\<close>

datatype artifact_kind =
    Signed_Ai_Approval | Ai_Quorum_Report | Signed_Human_Escalation | Human_Escalation_Report | Signed_Policy_Pack
  | Remote_Registry_History_Checkpoint_Witness_Receipt
  | Remote_Approval_Registry_History_Checkpoint_Witness_Receipt
  | Remote_Factory_Release_Registry_History_Checkpoint_Witness_Receipt
  | Remote_Factory_Release_Registry_History_Receipt_Quorum_Log_Checkpoint_Witness_Receipt
  | Remote_Factory_Release_Registry_History_Receipt_Quorum_Log_Checkpoint_Witness_Receipt_Quorum_Log_Checkpoint_Witness_Receipt
  | Remote_Factory_Release_Final_Checkpoint_Witness_Receipt_Quorum_Log_Checkpoint_Witness_Receipt

record event_descriptor =
  event_kind :: artifact_kind
  artifact_sha256 :: string
  subject_id :: string
  request_sha256 :: "string option"
  session_sha256 :: "string option"
  event_signer_id :: "string option"
  outcome :: string

record log_entry =
  entry_version :: nat
  entry_sequence :: nat
  previous_entry_sha256 :: "string option"
  recorded_at_unix :: nat
  entry_event :: event_descriptor
  entry_sha256 :: string

record transparency_log =
  log_version :: nat
  log_name :: string
  log_entries :: "log_entry list"
  head_sha256 :: "string option"

record checkpoint =
  ck_version :: nat
  ck_log_id :: string
  ck_entry_count :: nat
  ck_head :: "string option"
  ck_log_sha256 :: string
  ck_signer_id :: string
  ck_algorithm :: string
  ck_public_key :: string
  ck_signature :: string

record log_report =
  lr_version :: nat
  lr_log_id :: string
  lr_entry_count :: nat
  lr_head :: "string option"
  lr_log_sha256 :: string
  lr_signer_id :: string
  lr_public_key :: string
  lr_verified :: bool

record log_witness =
  wt_version :: nat
  wt_checkpoint_sha256 :: string
  wt_log_id :: string
  wt_entry_count :: nat
  wt_head :: "string option"
  witness_id :: string
  observed_at_unix :: nat
  wt_algorithm :: string
  wt_public_key :: string
  wt_signature :: string

record quorum_report =
  qr_version :: nat
  qr_checkpoint_sha256 :: string
  qr_log_id :: string
  qr_entry_count :: nat
  qr_head :: "string option"
  minimum_witnesses :: nat
  valid_witnesses :: nat
  witness_ids :: "string list"
  witness_public_keys :: "string list"
  quorum_met :: bool

record trust_state =
  ts_version :: nat
  ts_witness_id :: string
  generation :: nat
  current_public_key :: string
  last_rotation_sha256 :: "string option"
  last_rotated_at_unix :: "nat option"

record key_rotation =
  kr_version :: nat
  kr_witness_id :: string
  from_generation :: nat
  to_generation :: nat
  previous_rotation_sha256 :: "string option"
  old_public_key :: string
  new_public_key :: string
  rotated_at_unix :: nat
  kr_algorithm :: string
  old_signature :: string
  new_signature :: string

text \<open>What is signed.\<close>

record checkpoint_claim =
  cp_domain :: string
  cp_log_id :: string
  cp_entry_count :: nat
  cp_head :: "string option"
  cp_log_sha256 :: string
  cp_signer_id :: string

record witness_claim =
  wp_domain :: string
  wp_checkpoint_sha256 :: string
  wp_log_id :: string
  wp_entry_count :: nat
  wp_head :: "string option"
  wp_witness_id :: string
  wp_observed_at_unix :: nat

record rotation_claim =
  rp_domain :: string
  rp_witness_id :: string
  rp_from_generation :: nat
  rp_to_generation :: nat
  rp_previous_rotation_sha256 :: "string option"
  rp_old_public_key :: string
  rp_new_public_key :: string
  rp_rotated_at_unix :: nat

text \<open>
  The libraries: \<open>hex::encode(Sha256::digest(bytes))\<close>, \<open>serde_json::to_vec\<close> for each type, and
  Ed25519 keys and signatures. A serialisation may fail.
\<close>

record library =
  digest_hex :: "bytes \<Rightarrow> string"
  json_entry :: "log_entry \<Rightarrow> bytes option"
  json_log :: "transparency_log \<Rightarrow> bytes option"
  json_checkpoint :: "checkpoint \<Rightarrow> bytes option"
  json_rotation :: "key_rotation \<Rightarrow> bytes option"
  json_checkpoint_payload :: "checkpoint_claim \<Rightarrow> bytes option"
  json_witness_payload :: "witness_claim \<Rightarrow> bytes option"
  json_rotation_payload :: "rotation_claim \<Rightarrow> bytes option"
  verifying_key_of :: "bytes \<Rightarrow> bytes"
  sign_with :: "bytes \<Rightarrow> bytes \<Rightarrow> bytes"
  key_accepted :: "bytes \<Rightarrow> bool"
  verify_strict :: "bytes \<Rightarrow> bytes \<Rightarrow> bytes \<Rightarrow> bool"

definition MAX_LOG_ENTRIES :: nat where
  "MAX_LOG_ENTRIES = 100000"

definition MAX_TEXT_BYTES :: nat where
  "MAX_TEXT_BYTES = 256"

definition ED25519 :: string where
  "ED25519 = ''ed25519''"

section \<open>Entries\<close>

definition validate_text :: "string \<Rightarrow> string \<Rightarrow> fault + unit" where
  "validate_text value label =
     (if blank_name value \<or> MAX_TEXT_BYTES < length value
      then Inl (Fault (label @ '' must contain 1 to 256 bytes'')) else Inr ())"

definition validate_some :: "('a \<Rightarrow> fault + unit) \<Rightarrow> 'a option \<Rightarrow> fault + unit" where
  "validate_some f x = (case x of None \<Rightarrow> Inr () | Some v \<Rightarrow> f v)"

definition validate_event :: "event_descriptor \<Rightarrow> fault + unit" where
  "validate_event ev =
     bind_result (validate_sha256 (artifact_sha256 ev) ''approval event artifact SHA-256'') (\<lambda>_.
     bind_result (validate_text (subject_id ev) ''approval event subject id'') (\<lambda>_.
     bind_result (validate_text (outcome ev) ''approval event outcome'') (\<lambda>_.
     bind_result (validate_some (\<lambda>v. validate_sha256 v ''approval event request SHA-256'') (request_sha256 ev)) (\<lambda>_.
     bind_result (validate_some (\<lambda>v.
       bind_result (validate_sha256 v ''approval event session SHA-256'') (\<lambda>_.
       if request_sha256 ev = None
       then Inl (Fault ''session-bound approval events require a request digest'') else Inr ())) (session_sha256 ev)) (\<lambda>_.
     validate_some (\<lambda>v. validate_slug v ''approval event signer id'') (event_signer_id ev))))))"

definition entry_body_sha256 :: "library \<Rightarrow> log_entry \<Rightarrow> fault + string" where
  "entry_body_sha256 L entry =
     bind_result (ok_or (Fault ''serializing approval transparency entry'') (json_entry L (entry\<lparr>entry_sha256 := []\<rparr>)))
       (\<lambda>text. Inr (digest_hex L text))"

definition new_approval_transparency_log :: "string \<Rightarrow> fault + transparency_log" where
  "new_approval_transparency_log name =
     bind_result (validate_slug name ''approval transparency log id'') (\<lambda>_.
     Inr \<lparr>log_version = 1, log_name = name, log_entries = [], head_sha256 = None\<rparr>)"

text \<open>One round of the loop over the entries: the digest and the time of the predecessor go along.\<close>

definition check_entry ::
    "library \<Rightarrow> nat \<times> log_entry \<Rightarrow> string option \<times> nat option \<Rightarrow> fault + string option \<times> nat option" where
  "check_entry L indexed st =
     (case (indexed, st) of ((index, entry), (previous, previous_time)) \<Rightarrow>
      if entry_version entry \<noteq> 1 \<or> entry_sequence entry \<noteq> index
      then Inl (Bad_Entry index ''has an invalid version or sequence'')
      else if previous_entry_sha256 entry \<noteq> previous
      then Inl (Bad_Entry index ''breaks the hash chain'')
      else if (case previous_time of None \<Rightarrow> False | Some t \<Rightarrow> recorded_at_unix entry < t)
      then Inl (Fault ''approval transparency log timestamps are not monotonic'')
      else
        bind_result (validate_event (entry_event entry)) (\<lambda>_.
        bind_result (entry_body_sha256 L entry) (\<lambda>expected.
        if entry_sha256 entry \<noteq> expected
        then Inl (Bad_Entry index ''digest does not match its normalized content'')
        else Inr (Some (entry_sha256 entry), Some (recorded_at_unix entry)))))"

definition approval_transparency_log_sha256 :: "library \<Rightarrow> transparency_log \<Rightarrow> fault + string" where
  "approval_transparency_log_sha256 L lg =
     (if log_version lg \<noteq> 1 then Inl (Bad_Entry (log_version lg) ''unsupported approval transparency log schema version'')
      else
        bind_result (validate_slug (log_name lg) ''approval transparency log id'') (\<lambda>_.
        if MAX_LOG_ENTRIES < length (log_entries lg)
        then Inl (Fault ''approval transparency log cannot exceed 100000 entries'')
        else
          bind_result (fold_result (check_entry L) (enumerate 0 (log_entries lg)) (None, None)) (\<lambda>(previous, _).
          if head_sha256 lg \<noteq> previous
          then Inl (Fault ''approval transparency log head does not match its final entry'')
          else
            bind_result (ok_or (Fault ''serializing approval transparency log'') (json_log L lg)) (\<lambda>text.
            Inr (digest_hex L text)))))"

definition append_approval_transparency_event ::
    "library \<Rightarrow> transparency_log \<Rightarrow> event_descriptor \<Rightarrow> nat \<Rightarrow> (fault + string) \<times> transparency_log" where
  "append_approval_transparency_event L lg ev time =
     (case
        bind_result (approval_transparency_log_sha256 L lg) (\<lambda>_.
        bind_result (validate_event ev) (\<lambda>_.
        if MAX_LOG_ENTRIES \<le> length (log_entries lg)
        then Inl (Fault ''approval transparency log cannot exceed 100000 entries'')
        else if log_entries lg \<noteq> [] \<and> time < recorded_at_unix (last (log_entries lg))
        then Inl (Fault ''approval transparency log timestamps must be monotonic'')
        else
          let entry = \<lparr>entry_version = 1, entry_sequence = length (log_entries lg), previous_entry_sha256 = head_sha256 lg,
                       recorded_at_unix = time, entry_event = ev, entry_sha256 = []\<rparr>
          in bind_result (entry_body_sha256 L entry) (\<lambda>digest. Inr (entry\<lparr>entry_sha256 := digest\<rparr>))))
      of Inl e \<Rightarrow> (Inl e, lg)
       | Inr entry \<Rightarrow>
           (Inr (entry_sha256 entry),
            lg\<lparr>log_entries := log_entries lg @ [entry], head_sha256 := Some (entry_sha256 entry)\<rparr>))"

section \<open>Checkpoints\<close>

definition checkpoint_payload ::
    "library \<Rightarrow> string \<Rightarrow> nat \<Rightarrow> string option \<Rightarrow> string \<Rightarrow> string \<Rightarrow> fault + bytes" where
  "checkpoint_payload L name n head log_digest signer =
     ok_or (Fault ''serializing approval checkpoint payload'')
       (json_checkpoint_payload L
          \<lparr>cp_domain = ''pcbex-approval-transparency-checkpoint-v1'', cp_log_id = name, cp_entry_count = n, cp_head = head,
           cp_log_sha256 = log_digest, cp_signer_id = signer\<rparr>)"

definition sign_approval_log_checkpoint :: "library \<Rightarrow> transparency_log \<Rightarrow> string \<Rightarrow> bytes \<Rightarrow> fault + checkpoint" where
  "sign_approval_log_checkpoint L lg signer secret =
     bind_result (validate_slug signer ''approval checkpoint signer id'') (\<lambda>_.
     bind_result (approval_transparency_log_sha256 L lg) (\<lambda>digest.
     let n = length (log_entries lg) in
     bind_result (checkpoint_payload L (log_name lg) n (head_sha256 lg) digest signer) (\<lambda>payload.
     Inr \<lparr>ck_version = 1, ck_log_id = log_name lg, ck_entry_count = n, ck_head = head_sha256 lg, ck_log_sha256 = digest,
          ck_signer_id = signer, ck_algorithm = ED25519, ck_public_key = hex_encode (verifying_key_of L secret),
          ck_signature = hex_encode (sign_with L secret payload)\<rparr>)))"

text \<open>\<open>VerifyingKey::from_bytes\<close> and \<open>verify_strict\<close>, with the labels of their errors.\<close>

definition verify_with_key :: "library \<Rightarrow> string \<Rightarrow> string \<Rightarrow> bytes \<Rightarrow> bytes \<Rightarrow> bytes \<Rightarrow> fault + unit" where
  "verify_with_key L bad_key bad_signature key payload signature =
     (if \<not> key_accepted L key then Inl (Fault bad_key)
      else if \<not> verify_strict L key payload signature then Inl (Fault bad_signature)
      else Inr ())"

definition verify_approval_log_checkpoint ::
    "library \<Rightarrow> transparency_log \<Rightarrow> checkpoint \<Rightarrow> bytes \<Rightarrow> fault + log_report" where
  "verify_approval_log_checkpoint L lg ck trusted =
     (if ck_version ck \<noteq> 1 then Inl (Bad_Entry (ck_version ck) ''unsupported approval checkpoint schema version'')
      else if ck_algorithm ck \<noteq> ED25519
      then Inl (Fault (''unsupported approval checkpoint algorithm '' @ ck_algorithm ck))
      else
        bind_result (validate_slug (ck_signer_id ck) ''approval checkpoint signer id'') (\<lambda>_.
        bind_result (approval_transparency_log_sha256 L lg) (\<lambda>digest.
        if ck_log_id ck \<noteq> log_name lg \<or> ck_entry_count ck \<noteq> length (log_entries lg) \<or>
           ck_head ck \<noteq> head_sha256 lg \<or> ck_log_sha256 ck \<noteq> digest
        then Inl (Fault ''approval checkpoint is bound to a different log state'')
        else
          bind_result (hex_decode_array 32 ''approval checkpoint public key'' (ck_public_key ck)) (\<lambda>key.
          if key \<noteq> trusted then Inl (Fault ''approval checkpoint key does not match the trusted public key'')
          else
            bind_result (hex_decode_array 64 ''approval checkpoint signature'' (ck_signature ck)) (\<lambda>signature.
            bind_result (checkpoint_payload L (ck_log_id ck) (ck_entry_count ck) (ck_head ck) (ck_log_sha256 ck) (ck_signer_id ck)) (\<lambda>payload.
            bind_result (verify_with_key L ''invalid approval checkpoint public key'' ''invalid approval checkpoint signature''
              key payload signature) (\<lambda>_.
            Inr \<lparr>lr_version = 1, lr_log_id = log_name lg, lr_entry_count = ck_entry_count ck, lr_head = ck_head ck,
                 lr_log_sha256 = digest, lr_signer_id = ck_signer_id ck, lr_public_key = ck_public_key ck, lr_verified = True\<rparr>)))))))"

definition validate_checkpoint :: "checkpoint \<Rightarrow> fault + unit" where
  "validate_checkpoint ck =
     (if ck_version ck \<noteq> 1 \<or> ck_algorithm ck \<noteq> ED25519 then Inl (Fault ''unsupported approval checkpoint contract'')
      else
        bind_result (validate_slug (ck_log_id ck) ''approval transparency log id'') (\<lambda>_.
        bind_result (validate_slug (ck_signer_id ck) ''approval checkpoint signer id'') (\<lambda>_.
        bind_result (validate_sha256 (ck_log_sha256 ck) ''approval checkpoint log SHA-256'') (\<lambda>_.
        bind_result (validate_some (\<lambda>h. validate_sha256 h ''approval checkpoint head SHA-256'') (ck_head ck)) (\<lambda>_.
        bind_result (hex_decode_array 32 ''approval checkpoint public key'' (ck_public_key ck)) (\<lambda>_.
        bind_result (hex_decode_array 64 ''approval checkpoint signature'' (ck_signature ck)) (\<lambda>_.
        Inr ())))))))"

definition signed_approval_log_checkpoint_sha256 :: "library \<Rightarrow> checkpoint \<Rightarrow> fault + string" where
  "signed_approval_log_checkpoint_sha256 L ck =
     bind_result (validate_checkpoint ck) (\<lambda>_.
     bind_result (ok_or (Fault ''serializing approval checkpoint'') (json_checkpoint L ck)) (\<lambda>text.
     Inr (digest_hex L text)))"

section \<open>Witnesses\<close>

definition witness_payload ::
    "library \<Rightarrow> string \<Rightarrow> string \<Rightarrow> nat \<Rightarrow> string option \<Rightarrow> string \<Rightarrow> nat \<Rightarrow> fault + bytes" where
  "witness_payload L ck_digest name n head witness observed =
     ok_or (Fault ''serializing approval-log witness payload'')
       (json_witness_payload L
          \<lparr>wp_domain = ''pcbex-approval-transparency-witness-v1'', wp_checkpoint_sha256 = ck_digest, wp_log_id = name,
           wp_entry_count = n, wp_head = head, wp_witness_id = witness, wp_observed_at_unix = observed\<rparr>)"

definition sign_approval_log_witness :: "library \<Rightarrow> checkpoint \<Rightarrow> string \<Rightarrow> nat \<Rightarrow> bytes \<Rightarrow> fault + log_witness" where
  "sign_approval_log_witness L ck witness observed secret =
     bind_result (validate_slug witness ''approval-log witness id'') (\<lambda>_.
     bind_result (signed_approval_log_checkpoint_sha256 L ck) (\<lambda>digest.
     bind_result (witness_payload L digest (ck_log_id ck) (ck_entry_count ck) (ck_head ck) witness observed) (\<lambda>payload.
     Inr \<lparr>wt_version = 1, wt_checkpoint_sha256 = digest, wt_log_id = ck_log_id ck, wt_entry_count = ck_entry_count ck,
          wt_head = ck_head ck, witness_id = witness, observed_at_unix = observed, wt_algorithm = ED25519,
          wt_public_key = hex_encode (verifying_key_of L secret), wt_signature = hex_encode (sign_with L secret payload)\<rparr>)))"

definition verify_signed_approval_log_witness :: "library \<Rightarrow> checkpoint \<Rightarrow> log_witness \<Rightarrow> bytes \<Rightarrow> fault + unit" where
  "verify_signed_approval_log_witness L ck w trusted =
     bind_result (signed_approval_log_checkpoint_sha256 L ck) (\<lambda>digest.
     if wt_version w \<noteq> 1 \<or> wt_algorithm w \<noteq> ED25519 then Inl (Fault ''unsupported approval-log witness contract'')
     else
       bind_result (validate_slug (witness_id w) ''approval-log witness id'') (\<lambda>_.
       if wt_checkpoint_sha256 w \<noteq> digest \<or> wt_log_id w \<noteq> ck_log_id ck \<or> wt_entry_count w \<noteq> ck_entry_count ck \<or>
          wt_head w \<noteq> ck_head ck
       then Inl (Fault ''approval-log witness is bound to a different checkpoint'')
       else
         bind_result (hex_decode_array 32 ''approval-log witness public key'' (wt_public_key w)) (\<lambda>key.
         if key \<noteq> trusted then Inl (Fault ''approval-log witness key does not match its trusted public key'')
         else
           bind_result (hex_decode_array 64 ''approval-log witness signature'' (wt_signature w)) (\<lambda>signature.
           bind_result (witness_payload L (wt_checkpoint_sha256 w) (wt_log_id w) (wt_entry_count w) (wt_head w) (witness_id w)
             (observed_at_unix w)) (\<lambda>payload.
           verify_with_key L ''invalid approval-log witness public key'' ''invalid approval-log witness signature''
             key payload signature)))))"

definition quorum_step ::
    "library \<Rightarrow> checkpoint \<Rightarrow> log_witness \<times> bytes \<Rightarrow> string list \<times> string list \<Rightarrow> fault + string list \<times> string list" where
  "quorum_step L ck candidate st =
     (case (candidate, st) of ((w, trusted), (ids, keys)) \<Rightarrow>
      if witness_id w \<in> set ids \<or> wt_public_key w \<in> set keys
      then Inl (Fault ''approval-log witness identities and keys must be unique'')
      else
        bind_result (verify_signed_approval_log_witness L ck w trusted) (\<lambda>_.
        Inr (ids @ [witness_id w], keys @ [wt_public_key w])))"

definition verify_approval_log_witness_quorum ::
    "library \<Rightarrow> checkpoint \<Rightarrow> (log_witness \<times> bytes) list \<Rightarrow> nat \<Rightarrow> fault + quorum_report" where
  "verify_approval_log_witness_quorum L ck witnesses minimum =
     (if minimum < 2 then Inl (Fault ''approval-log witness quorum requires at least two witnesses'')
      else if 64 < length witnesses then Inl (Fault ''approval-log witness quorum cannot exceed 64 candidates'')
      else
        bind_result (signed_approval_log_checkpoint_sha256 L ck) (\<lambda>digest.
        bind_result (fold_result (quorum_step L ck) witnesses ([], [])) (\<lambda>(ids, keys).
        Inr \<lparr>qr_version = 1, qr_checkpoint_sha256 = digest, qr_log_id = ck_log_id ck, qr_entry_count = ck_entry_count ck,
             qr_head = ck_head ck, minimum_witnesses = minimum, valid_witnesses = length ids, witness_ids = ids,
             witness_public_keys = keys, quorum_met = (minimum \<le> length ids)\<rparr>)))"

section \<open>Trusted witness keys\<close>

definition new_approval_log_witness_trust_state :: "library \<Rightarrow> string \<Rightarrow> bytes \<Rightarrow> fault + trust_state" where
  "new_approval_log_witness_trust_state L witness key =
     bind_result (validate_slug witness ''approval-log witness id'') (\<lambda>_.
     if \<not> key_accepted L key then Inl (Fault ''invalid approval-log witness public key'')
     else Inr \<lparr>ts_version = 1, ts_witness_id = witness, generation = 0, current_public_key = hex_encode key,
               last_rotation_sha256 = None, last_rotated_at_unix = None\<rparr>)"

definition validate_witness_trust_state :: "library \<Rightarrow> trust_state \<Rightarrow> fault + unit" where
  "validate_witness_trust_state L ts =
     (if ts_version ts \<noteq> 1 then Inl (Fault ''unsupported approval-log witness trust state'')
      else
        bind_result (validate_slug (ts_witness_id ts) ''approval-log witness id'') (\<lambda>_.
        bind_result (hex_decode_array 32 ''current witness public key'' (current_public_key ts)) (\<lambda>key.
        if \<not> key_accepted L key then Inl (Fault ''invalid current witness public key'')
        else if generation ts = 0
        then if last_rotation_sha256 ts = None \<and> last_rotated_at_unix ts = None then Inr ()
             else Inl (Fault ''initial witness trust state cannot reference a rotation'')
        else
          (case (last_rotation_sha256 ts, last_rotated_at_unix ts) of
             (Some digest, Some time) \<Rightarrow> validate_sha256 digest ''last witness rotation SHA-256''
           | _ \<Rightarrow> Inl (Fault ''rotated witness trust state must reference its last rotation and time'')))))"

definition approval_log_witness_trusted_public_key :: "library \<Rightarrow> trust_state \<Rightarrow> fault + bytes" where
  "approval_log_witness_trusted_public_key L ts =
     bind_result (validate_witness_trust_state L ts) (\<lambda>_.
     hex_decode_array 32 ''current witness public key'' (current_public_key ts))"

definition checked_next_generation :: "nat \<Rightarrow> fault + nat" where
  "checked_next_generation g = (if g + 1 < 2 ^ 64 then Inr (g + 1) else Inl (Fault ''witness key generation overflow''))"

definition rotation_payload ::
    "library \<Rightarrow> string \<Rightarrow> nat \<Rightarrow> nat \<Rightarrow> string option \<Rightarrow> string \<Rightarrow> string \<Rightarrow> nat \<Rightarrow> fault + bytes" where
  "rotation_payload L witness g g' previous old_key new_key time =
     ok_or (Fault ''serializing witness key rotation payload'')
       (json_rotation_payload L
          \<lparr>rp_domain = ''pcbex-approval-transparency-witness-key-rotation-v1'', rp_witness_id = witness,
           rp_from_generation = g, rp_to_generation = g', rp_previous_rotation_sha256 = previous,
           rp_old_public_key = old_key, rp_new_public_key = new_key, rp_rotated_at_unix = time\<rparr>)"

definition earlier :: "nat \<Rightarrow> nat option \<Rightarrow> bool" where
  "earlier time previous \<longleftrightarrow> (case previous of None \<Rightarrow> False | Some t \<Rightarrow> time < t)"

definition sign_approval_log_witness_key_rotation ::
    "library \<Rightarrow> trust_state \<Rightarrow> bytes \<Rightarrow> bytes \<Rightarrow> nat \<Rightarrow> fault + key_rotation" where
  "sign_approval_log_witness_key_rotation L ts old_secret new_secret time =
     bind_result (validate_witness_trust_state L ts) (\<lambda>_.
     let old_key = hex_encode (verifying_key_of L old_secret);
         new_key = hex_encode (verifying_key_of L new_secret)
     in if old_key \<noteq> current_public_key ts then Inl (Fault ''old witness key does not match the current trust state'')
        else if new_key = old_key then Inl (Fault ''new witness key must differ from the current key'')
        else if earlier time (last_rotated_at_unix ts)
        then Inl (Fault ''witness key rotation timestamps must be monotonic'')
        else
          bind_result (checked_next_generation (generation ts)) (\<lambda>next_generation.
          bind_result (rotation_payload L (ts_witness_id ts) (generation ts) next_generation (last_rotation_sha256 ts)
            old_key new_key time) (\<lambda>payload.
          Inr \<lparr>kr_version = 1, kr_witness_id = ts_witness_id ts, from_generation = generation ts,
               to_generation = next_generation, previous_rotation_sha256 = last_rotation_sha256 ts,
               old_public_key = old_key, new_public_key = new_key, rotated_at_unix = time, kr_algorithm = ED25519,
               old_signature = hex_encode (sign_with L old_secret payload),
               new_signature = hex_encode (sign_with L new_secret payload)\<rparr>)))"

definition validate_witness_key_rotation :: "key_rotation \<Rightarrow> fault + unit" where
  "validate_witness_key_rotation kr =
     (if kr_version kr \<noteq> 1 \<or> kr_algorithm kr \<noteq> ED25519 then Inl (Fault ''unsupported approval-log witness key rotation'')
      else
        bind_result (validate_slug (kr_witness_id kr) ''approval-log witness id'') (\<lambda>_.
        bind_result (validate_some (\<lambda>d. validate_sha256 d ''previous witness rotation SHA-256'') (previous_rotation_sha256 kr)) (\<lambda>_.
        bind_result (hex_decode_array 32 ''old witness public key'' (old_public_key kr)) (\<lambda>_.
        bind_result (hex_decode_array 32 ''new witness public key'' (new_public_key kr)) (\<lambda>_.
        bind_result (hex_decode_array 64 ''old witness rotation signature'' (old_signature kr)) (\<lambda>_.
        bind_result (hex_decode_array 64 ''new witness rotation signature'' (new_signature kr)) (\<lambda>_.
        Inr ())))))))"

definition signed_approval_log_witness_key_rotation_sha256 :: "library \<Rightarrow> key_rotation \<Rightarrow> fault + string" where
  "signed_approval_log_witness_key_rotation_sha256 L kr =
     bind_result (validate_witness_key_rotation kr) (\<lambda>_.
     bind_result (ok_or (Fault ''serializing witness key rotation'') (json_rotation L kr)) (\<lambda>text.
     Inr (digest_hex L text)))"

definition apply_approval_log_witness_key_rotation :: "library \<Rightarrow> trust_state \<Rightarrow> key_rotation \<Rightarrow> fault + trust_state" where
  "apply_approval_log_witness_key_rotation L ts kr =
     bind_result (validate_witness_trust_state L ts) (\<lambda>_.
     bind_result (validate_witness_key_rotation kr) (\<lambda>_.
     if kr_witness_id kr \<noteq> ts_witness_id ts \<or> from_generation kr \<noteq> generation ts \<or>
        previous_rotation_sha256 kr \<noteq> last_rotation_sha256 ts \<or> old_public_key kr \<noteq> current_public_key ts
     then Inl (Fault ''witness key rotation does not extend the current trust state'')
     else
       bind_result (checked_next_generation (generation ts)) (\<lambda>expected.
       if to_generation kr \<noteq> expected then Inl (Fault ''witness key rotation must advance exactly one generation'')
       else if new_public_key kr = old_public_key kr then Inl (Fault ''new witness key must differ from the current key'')
       else if earlier (rotated_at_unix kr) (last_rotated_at_unix ts)
       then Inl (Fault ''witness key rotation timestamps must be monotonic'')
       else
         bind_result (hex_decode_array 32 ''old witness public key'' (old_public_key kr)) (\<lambda>old_key.
         bind_result (hex_decode_array 32 ''new witness public key'' (new_public_key kr)) (\<lambda>new_key.
         bind_result (hex_decode_array 64 ''old witness rotation signature'' (old_signature kr)) (\<lambda>old_sig.
         bind_result (hex_decode_array 64 ''new witness rotation signature'' (new_signature kr)) (\<lambda>new_sig.
         bind_result (rotation_payload L (kr_witness_id kr) (from_generation kr) (to_generation kr) (previous_rotation_sha256 kr)
           (old_public_key kr) (new_public_key kr) (rotated_at_unix kr)) (\<lambda>payload.
         bind_result (verify_with_key L ''invalid old witness public key'' ''invalid old witness rotation signature''
           old_key payload old_sig) (\<lambda>_.
         bind_result (verify_with_key L ''invalid new witness public key'' ''invalid new witness rotation signature''
           new_key payload new_sig) (\<lambda>_.
         bind_result (signed_approval_log_witness_key_rotation_sha256 L kr) (\<lambda>digest.
         Inr \<lparr>ts_version = 1, ts_witness_id = ts_witness_id ts, generation = to_generation kr,
              current_public_key = new_public_key kr, last_rotation_sha256 = Some digest,
              last_rotated_at_unix = Some (rotated_at_unix kr)\<rparr>)))))))))))"

section \<open>The chain of entries\<close>

fun chained :: "library \<Rightarrow> nat \<Rightarrow> string option \<Rightarrow> nat option \<Rightarrow> log_entry list \<Rightarrow> bool" where
  "chained L i previous time [] \<longleftrightarrow> True"
| "chained L i previous time (e # es) \<longleftrightarrow>
     entry_version e = 1 \<and> entry_sequence e = i \<and> previous_entry_sha256 e = previous \<and>
     \<not> earlier (recorded_at_unix e) time \<and> validate_event (entry_event e) = Inr () \<and>
     entry_body_sha256 L e = Inr (entry_sha256 e) \<and>
     chained L (i + 1) (Some (entry_sha256 e)) (Some (recorded_at_unix e)) es"

definition tip :: "('a \<Rightarrow> 'b) \<Rightarrow> 'b option \<Rightarrow> 'a list \<Rightarrow> 'b option" where
  "tip f start es = (if es = [] then start else Some (f (last es)))"

lemma tip_simps [simp]: "tip f start [] = start" "tip f start (es @ [e]) = Some (f e)"
  "tip f start (e # es) = tip f (Some (f e)) es"
  by (simp_all add: tip_def)

lemma check_entries:
  "fold_result (check_entry L) (enumerate i es) (previous, time) = Inr st \<longleftrightarrow>
     chained L i previous time es \<and> st = (tip entry_sha256 previous es, tip recorded_at_unix time es)"
proof (induction es arbitrary: i previous time)
  case (Cons e es)
  have step: "check_entry L (i, e) (previous, time) = Inr st1 \<longleftrightarrow>
      entry_version e = 1 \<and> entry_sequence e = i \<and> previous_entry_sha256 e = previous \<and>
      \<not> earlier (recorded_at_unix e) time \<and> validate_event (entry_event e) = Inr () \<and>
      entry_body_sha256 L e = Inr (entry_sha256 e) \<and> st1 = (Some (entry_sha256 e), Some (recorded_at_unix e))" for st1
    by (auto simp: check_entry_def earlier_def bind_result_Inr split: option.splits)
  show ?case using Cons.IH[of "i + 1" "Some (entry_sha256 e)" "Some (recorded_at_unix e)"]
    by (auto simp: bind_result_Inr step)
qed auto

lemma log_chained_snoc:
  "chained L i previous time (es @ [e]) \<longleftrightarrow> chained L i previous time es \<and>
     chained L (i + length es) (tip entry_sha256 previous es) (tip recorded_at_unix time es) [e]"
  by (induction es arbitrary: i previous time) auto

definition log_ok :: "library \<Rightarrow> transparency_log \<Rightarrow> bool" where
  "log_ok L lg \<longleftrightarrow> log_version lg = 1 \<and> validate_slug (log_name lg) ''approval transparency log id'' = Inr () \<and>
     length (log_entries lg) \<le> MAX_LOG_ENTRIES \<and> chained L 0 None None (log_entries lg) \<and>
     head_sha256 lg = tip entry_sha256 None (log_entries lg)"

lemma log_digest:
  "approval_transparency_log_sha256 L lg = Inr d \<longleftrightarrow> log_ok L lg \<and> (\<exists>text. json_log L lg = Some text \<and> d = digest_hex L text)"
  unfolding approval_transparency_log_sha256_def log_ok_def
  by (auto simp: bind_result_Inr ok_or_Inr check_entries split: if_splits prod.splits)

lemma log_digest_total: "log_ok L lg \<Longrightarrow> json_log L lg \<noteq> None \<Longrightarrow> \<exists>d. approval_transparency_log_sha256 L lg = Inr d"
  by (auto simp: log_digest)

lemma append_ok:
  assumes "append_approval_transparency_event L lg ev time = (Inr digest, lg')"
  shows "log_ok L lg \<and> log_ok L lg' \<and> (\<exists>e. log_entries lg' = log_entries lg @ [e] \<and> entry_event e = ev \<and>
    recorded_at_unix e = time \<and> entry_sha256 e = digest) \<and> head_sha256 lg' = Some digest \<and> log_name lg' = log_name lg"
proof -
  define body where "body = \<lparr>entry_version = 1, entry_sequence = length (log_entries lg),
    previous_entry_sha256 = head_sha256 lg, recorded_at_unix = time, entry_event = ev, entry_sha256 = []\<rparr>"
  obtain d bs where ok: "approval_transparency_log_sha256 L lg = Inr d" "validate_event ev = Inr ()"
    "length (log_entries lg) < MAX_LOG_ENTRIES" "\<not> (log_entries lg \<noteq> [] \<and> time < recorded_at_unix (last (log_entries lg)))"
    "json_entry L body = Some bs" "digest = digest_hex L bs"
    "lg' = lg\<lparr>log_entries := log_entries lg @ [body\<lparr>entry_sha256 := digest\<rparr>], head_sha256 := Some digest\<rparr>"
    using assms unfolding append_approval_transparency_event_def Let_def body_def[symmetric]
    by (auto simp: bind_result_Inr entry_body_sha256_def ok_or_Inr body_def split: sum.splits if_splits)
  have lg: "log_ok L lg" using ok(1) log_digest by blast
  have "entry_body_sha256 L (body\<lparr>entry_sha256 := digest\<rparr>) = Inr digest"
    using ok(5,6) by (simp add: entry_body_sha256_def body_def)
  moreover have "\<not> earlier time (tip recorded_at_unix None (log_entries lg))"
    using ok(4) by (auto simp: earlier_def tip_def)
  ultimately have "chained L 0 None None (log_entries lg @ [body\<lparr>entry_sha256 := digest\<rparr>])"
    using lg ok(2) by (simp add: log_chained_snoc log_ok_def body_def)
  then show ?thesis using lg ok(3) by (auto simp: log_ok_def ok(7) body_def)
qed

text \<open>The logs that the code can produce.\<close>

inductive grown :: "library \<Rightarrow> transparency_log \<Rightarrow> bool" for L where
  start: "new_approval_transparency_log name = Inr lg \<Longrightarrow> grown L lg"
| append: "grown L lg \<Longrightarrow> append_approval_transparency_event L lg ev time = (Inr digest, lg') \<Longrightarrow> grown L lg'"

inductive_cases grownE: "grown L lg"

lemma grown_ok: "grown L lg \<Longrightarrow> log_ok L lg"
proof (induction rule: grown.induct)
  case (start name lg)
  then show ?case by (auto simp: new_approval_transparency_log_def bind_result_Inr log_ok_def)
next
  case (append lg ev time digest lg')
  then show ?case using append_ok by blast
qed

lemma ok_grown:
  assumes total: "\<And>lg. json_log L lg \<noteq> None" and "log_ok L lg"
  shows "grown L lg"
  using assms(2)
proof (induction "log_entries lg" arbitrary: lg rule: rev_induct)
  case Nil
  then have "lg = \<lparr>log_version = 1, log_name = log_name lg, log_entries = [], head_sha256 = None\<rparr>"
    by (simp add: log_ok_def)
  moreover have "validate_slug (log_name lg) ''approval transparency log id'' = Inr ()" using Nil by (simp add: log_ok_def)
  ultimately have "new_approval_transparency_log (log_name lg) = Inr lg" by (simp add: new_approval_transparency_log_def)
  then show ?case by (rule grown.start)
next
  case (snoc e es)
  define lg0 where "lg0 = lg\<lparr>log_entries := es, head_sha256 := tip entry_sha256 None es\<rparr>"
  note es = snoc(2)[symmetric]
  have ok: "log_ok L lg" by fact
  then have chain: "chained L 0 None None es"
    "chained L (length es) (tip entry_sha256 None es) (tip recorded_at_unix None es) [e]" "length es < MAX_LOG_ENTRIES"
    by (simp_all add: log_ok_def es log_chained_snoc)
  have lg0: "log_ok L lg0" using ok chain by (simp add: log_ok_def lg0_def)
  have "es = log_entries lg0" by (simp add: lg0_def)
  then have "grown L lg0" using lg0 by (rule snoc(1))
  moreover have "append_approval_transparency_event L lg0 (entry_event e) (recorded_at_unix e) = (Inr (entry_sha256 e), lg)"
  proof -
    obtain d where d: "approval_transparency_log_sha256 L lg0 = Inr d" using log_digest_total[OF lg0 total] by blast
    define body where "body = \<lparr>entry_version = 1, entry_sequence = length (log_entries lg0),
      previous_entry_sha256 = head_sha256 lg0, recorded_at_unix = recorded_at_unix e, entry_event = entry_event e, entry_sha256 = []\<rparr>"
    have e: "e = body\<lparr>entry_sha256 := entry_sha256 e\<rparr>" using chain(2) by (simp add: body_def lg0_def)
    have "entry_body_sha256 L body = entry_body_sha256 L e" by (subst e) (simp add: entry_body_sha256_def body_def)
    then have digest: "entry_body_sha256 L body = Inr (entry_sha256 e)" using chain(2) by simp
    have lg: "lg = lg0\<lparr>log_entries := log_entries lg0 @ [e], head_sha256 := Some (entry_sha256 e)\<rparr>"
      using ok by (simp add: lg0_def log_ok_def es)
    have time: "\<not> (log_entries lg0 \<noteq> [] \<and> recorded_at_unix e < recorded_at_unix (last (log_entries lg0)))"
      using chain(2) by (auto simp: lg0_def earlier_def tip_def)
    have "validate_event (entry_event e) = Inr ()" "\<not> MAX_LOG_ENTRIES \<le> length (log_entries lg0)"
      using chain(2,3) by (simp_all add: lg0_def)
    then show ?thesis
      unfolding append_approval_transparency_event_def Let_def body_def[symmetric]
      using e lg time by (simp add: d digest)
  qed
  ultimately show ?case by (rule grown.append)
qed

text \<open>The head pins the entries, as long as no two of the entries at hand collide.\<close>

definition no_collision :: "library \<Rightarrow> log_entry list \<Rightarrow> log_entry list \<Rightarrow> bool" where
  "no_collision L xs ys \<longleftrightarrow>
     (\<forall>x \<in> set xs. \<forall>y \<in> set ys. entry_body_sha256 L x = entry_body_sha256 L y \<longrightarrow> x\<lparr>entry_sha256 := []\<rparr> = y\<lparr>entry_sha256 := []\<rparr>)"

lemma same_body: "x\<lparr>entry_sha256 := []\<rparr> = y\<lparr>entry_sha256 := []\<rparr> \<Longrightarrow> entry_sha256 x = entry_sha256 y \<Longrightarrow> x = (y :: log_entry)"
  by (cases x; cases y) simp

lemma same_tip:
  assumes "chained L 0 None None xs" "chained L 0 None None ys" "no_collision L xs ys"
    and "tip entry_sha256 None xs = tip entry_sha256 None ys"
  shows "xs = ys"
  using assms
proof (induction xs arbitrary: ys rule: rev_induct)
  case Nil
  then show ?case by (auto simp: tip_def split: if_splits)
next
  case (snoc x xs)
  obtain zs y where ys: "ys = zs @ [y]" using snoc.prems(4) by (cases ys rule: rev_cases) (auto simp: tip_def)
  have x: "chained L 0 None None xs" "previous_entry_sha256 x = tip entry_sha256 None xs" "entry_body_sha256 L x = Inr (entry_sha256 x)"
    and y: "chained L 0 None None zs" "previous_entry_sha256 y = tip entry_sha256 None zs" "entry_body_sha256 L y = Inr (entry_sha256 y)"
    using snoc.prems(1,2) by (simp_all add: ys log_chained_snoc)
  have sha: "entry_sha256 x = entry_sha256 y" using snoc.prems(4) by (simp add: ys)
  have "x\<lparr>entry_sha256 := []\<rparr> = y\<lparr>entry_sha256 := []\<rparr>"
    using snoc.prems(3) x(3) y(3) sha by (simp add: ys no_collision_def)
  then have "x = y" using sha by (rule same_body)
  moreover have "xs = zs"
    using snoc.IH[OF x(1) y(1)] snoc.prems(3) x(2) y(2) \<open>x = y\<close> by (simp add: ys no_collision_def)
  ultimately show ?case by (simp add: ys)
qed

section \<open>Signatures and quorums\<close>

text \<open>What the signature library documents: keys and signatures have fixed sizes, and what a secret key
  signs verifies under its public key.\<close>

definition signature_law :: "library \<Rightarrow> bool" where
  "signature_law L \<longleftrightarrow> (\<forall>secret m. length (verifying_key_of L secret) = 32 \<and> length (sign_with L secret m) = 64 \<and>
     key_accepted L (verifying_key_of L secret) \<and> verify_strict L (verifying_key_of L secret) m (sign_with L secret m))"

lemma signature_decodes:
  assumes "signature_law L"
  shows "hex_decode_array 32 label (hex_encode (verifying_key_of L secret)) = Inr (verifying_key_of L secret)"
    "hex_decode_array 64 label (hex_encode (sign_with L secret m)) = Inr (sign_with L secret m)"
    "verify_with_key L a b (verifying_key_of L secret) m (sign_with L secret m) = Inr ()"
  using assms hex_decode_encode[of "verifying_key_of L secret"] hex_decode_encode[of "sign_with L secret m"]
  by (auto simp: signature_law_def verify_with_key_def)

lemma verify_with_key_Inr:
  "verify_with_key L a b key m sig = Inr u \<longleftrightarrow> key_accepted L key \<and> verify_strict L key m sig"
  by (simp add: verify_with_key_def)

lemma sign_checkpoint:
  assumes "signature_law L" "sign_approval_log_checkpoint L lg signer secret = Inr ck"
  shows "\<exists>rep. verify_approval_log_checkpoint L lg ck (verifying_key_of L secret) = Inr rep"
  using assms(2) signature_decodes[OF assms(1)]
  by (auto simp: sign_approval_log_checkpoint_def verify_approval_log_checkpoint_def bind_result_Inr Let_def)

lemma sign_checkpoint_fields:
  assumes "sign_approval_log_checkpoint L lg signer secret = Inr ck"
  shows "log_ok L lg" "ck_log_id ck = log_name lg" "ck_head ck = head_sha256 lg"
  using assms log_digest by (auto simp: sign_approval_log_checkpoint_def bind_result_Inr Let_def)

lemma verify_checkpoint_fields:
  assumes "verify_approval_log_checkpoint L lg ck trusted = Inr rep"
  shows "log_ok L lg" "ck_log_id ck = log_name lg" "ck_head ck = head_sha256 lg"
  using assms log_digest by (auto simp: verify_approval_log_checkpoint_def bind_result_Inr split: if_splits)

text \<open>A witness that verifies carries a signature under the trusted key.\<close>

definition witnessed :: "library \<Rightarrow> checkpoint \<Rightarrow> log_witness \<Rightarrow> bytes \<Rightarrow> bool" where
  "witnessed L ck w trusted \<longleftrightarrow>
     (\<exists>digest payload signature.
        signed_approval_log_checkpoint_sha256 L ck = Inr digest \<and>
        witness_payload L digest (ck_log_id ck) (ck_entry_count ck) (ck_head ck) (witness_id w) (observed_at_unix w) = Inr payload \<and>
        hex_decode_array 32 ''approval-log witness public key'' (wt_public_key w) = Inr trusted \<and>
        hex_decode_array 64 ''approval-log witness signature'' (wt_signature w) = Inr signature \<and>
        verify_strict L trusted payload signature)"

lemma verified_witness: "verify_signed_approval_log_witness L ck w trusted = Inr () \<Longrightarrow> witnessed L ck w trusted"
  unfolding verify_signed_approval_log_witness_def witnessed_def
  by (auto simp: bind_result_Inr verify_with_key_Inr split: if_splits)

lemma quorum_step_Inr:
  "quorum_step L ck (w, k) (ids, keys) = Inr st \<longleftrightarrow> witness_id w \<notin> set ids \<and> wt_public_key w \<notin> set keys \<and>
     verify_signed_approval_log_witness L ck w k = Inr () \<and> st = (ids @ [witness_id w], keys @ [wt_public_key w])"
  by (auto simp: quorum_step_def bind_result_Inr)

lemma quorum_fold:
  "fold_result (quorum_step L ck) ws (ids, keys) = Inr (ids', keys') \<Longrightarrow> distinct ids \<Longrightarrow> distinct keys \<Longrightarrow>
    ids' = ids @ map (witness_id \<circ> fst) ws \<and> keys' = keys @ map (wt_public_key \<circ> fst) ws \<and> distinct ids' \<and> distinct keys' \<and>
    (\<forall>(w, k) \<in> set ws. verify_signed_approval_log_witness L ck w k = Inr ())"
proof (induction ws arbitrary: ids keys)
  case (Cons c ws)
  obtain w k where c: "c = (w, k)" by fastforce
  have ok: "witness_id w \<notin> set ids" "wt_public_key w \<notin> set keys" "verify_signed_approval_log_witness L ck w k = Inr ()"
    "fold_result (quorum_step L ck) ws (ids @ [witness_id w], keys @ [wt_public_key w]) = Inr (ids', keys')"
    using Cons.prems(1) by (auto simp: c quorum_step_Inr bind_result_Inr)
  have "distinct (ids @ [witness_id w])" "distinct (keys @ [wt_public_key w])" using ok(1,2) Cons.prems(2,3) by simp_all
  from Cons.IH[OF ok(4) this] ok(3) show ?case by (auto simp: c simp del: distinct_append distinct.simps)
qed simp

text \<open>Rotations.\<close>

definition digest_law :: "library \<Rightarrow> bool" where
  "digest_law L \<longleftrightarrow> (\<forall>bs. length (digest_hex L bs) = 64 \<and> list_all lower_hex (digest_hex L bs))"

text \<open>An accepted rotation is signed with the key in force and with the new one.\<close>

definition rotation_signed :: "library \<Rightarrow> trust_state \<Rightarrow> key_rotation \<Rightarrow> trust_state \<Rightarrow> bool" where
  "rotation_signed L ts kr ts' \<longleftrightarrow>
     (\<exists>old_key new_key payload old_sig new_sig.
        approval_log_witness_trusted_public_key L ts = Inr old_key \<and>
        hex_decode_array 32 ''current witness public key'' (current_public_key ts') = Inr new_key \<and>
        rotation_payload L (ts_witness_id ts) (generation ts) (generation ts') (last_rotation_sha256 ts)
          (current_public_key ts) (current_public_key ts') (rotated_at_unix kr) = Inr payload \<and>
        hex_decode_array 64 ''old witness rotation signature'' (old_signature kr) = Inr old_sig \<and>
        hex_decode_array 64 ''new witness rotation signature'' (new_signature kr) = Inr new_sig \<and>
        verify_strict L old_key payload old_sig \<and> verify_strict L new_key payload new_sig)"

lemma decode_label: "hex_decode_array n label s = Inr bs \<Longrightarrow> hex_decode_array n label' s = Inr bs"
  by (auto simp: hex_decode_array_def map_result_Inr decode_byte_def bind_result_Inr ok_or_Inr split: if_splits)

lemma apply_rotation:
  assumes "apply_approval_log_witness_key_rotation L ts kr = Inr ts'" "digest_law L"
  shows "validate_witness_trust_state L ts = Inr ()" "validate_witness_trust_state L ts' = Inr ()"
    "generation ts' = generation ts + 1" "ts_witness_id ts' = ts_witness_id ts"
    "current_public_key ts' \<noteq> current_public_key ts" "last_rotated_at_unix ts' = Some (rotated_at_unix kr)"
    "\<not> earlier (rotated_at_unix kr) (last_rotated_at_unix ts)" "rotation_signed L ts kr ts'"
proof -
  obtain digest old_key new_key old_sig new_sig payload where a:
    "validate_witness_trust_state L ts = Inr ()" "kr_witness_id kr = ts_witness_id ts" "from_generation kr = generation ts"
    "previous_rotation_sha256 kr = last_rotation_sha256 ts" "old_public_key kr = current_public_key ts"
    "checked_next_generation (generation ts) = Inr (to_generation kr)" "new_public_key kr \<noteq> old_public_key kr"
    "\<not> earlier (rotated_at_unix kr) (last_rotated_at_unix ts)"
    "hex_decode_array 32 ''old witness public key'' (old_public_key kr) = Inr old_key"
    "hex_decode_array 32 ''new witness public key'' (new_public_key kr) = Inr new_key"
    "hex_decode_array 64 ''old witness rotation signature'' (old_signature kr) = Inr old_sig"
    "hex_decode_array 64 ''new witness rotation signature'' (new_signature kr) = Inr new_sig"
    "rotation_payload L (kr_witness_id kr) (from_generation kr) (to_generation kr) (previous_rotation_sha256 kr)
       (old_public_key kr) (new_public_key kr) (rotated_at_unix kr) = Inr payload"
    "verify_strict L old_key payload old_sig" "key_accepted L new_key" "verify_strict L new_key payload new_sig"
    "signed_approval_log_witness_key_rotation_sha256 L kr = Inr digest"
    and ts': "ts' = \<lparr>ts_version = 1, ts_witness_id = ts_witness_id ts, generation = to_generation kr,
       current_public_key = new_public_key kr, last_rotation_sha256 = Some digest,
       last_rotated_at_unix = Some (rotated_at_unix kr)\<rparr>"
    using assms(1) unfolding apply_approval_log_witness_key_rotation_def
    by (auto simp: bind_result_Inr verify_with_key_Inr split: if_splits)
  have g: "to_generation kr = generation ts + 1" using a(6) by (auto simp: checked_next_generation_def split: if_splits)
  have digest: "validate_sha256 digest l = Inr ()" for l
    using a(17) assms(2) by (auto simp: signed_approval_log_witness_key_rotation_sha256_def bind_result_Inr digest_law_def validate_sha256_def)
  have slug: "validate_slug (ts_witness_id ts) ''approval-log witness id'' = Inr ()"
    using a(1) by (auto simp: validate_witness_trust_state_def bind_result_Inr split: if_splits)
  show "validate_witness_trust_state L ts = Inr ()" by fact
  show "validate_witness_trust_state L ts' = Inr ()"
    using slug decode_label[OF a(10), of "''current witness public key''"] a(15) digest g
    by (simp add: validate_witness_trust_state_def ts')
  show "generation ts' = generation ts + 1" "ts_witness_id ts' = ts_witness_id ts"
    "current_public_key ts' \<noteq> current_public_key ts" "last_rotated_at_unix ts' = Some (rotated_at_unix kr)"
    "\<not> earlier (rotated_at_unix kr) (last_rotated_at_unix ts)"
    using a g by (auto simp: ts')
  have "approval_log_witness_trusted_public_key L ts = Inr old_key"
    using a(1) decode_label[OF a(9)] by (simp add: approval_log_witness_trusted_public_key_def a(5))
  then show "rotation_signed L ts kr ts'"
    using a decode_label[OF a(10)] unfolding rotation_signed_def by (auto simp: ts')
qed

text \<open>The states that a witness's key goes through, with the number of rotations.\<close>

inductive trusted :: "library \<Rightarrow> trust_state \<Rightarrow> nat \<Rightarrow> bool" for L where
  first: "length key = 32 \<Longrightarrow> new_approval_log_witness_trust_state L witness key = Inr ts \<Longrightarrow> trusted L ts 0"
| rotate: "trusted L ts n \<Longrightarrow> apply_approval_log_witness_key_rotation L ts kr = Inr ts' \<Longrightarrow> trusted L ts' (n + 1)"

lemma trusted_valid: "trusted L ts n \<Longrightarrow> digest_law L \<Longrightarrow> validate_witness_trust_state L ts = Inr () \<and> generation ts = n"
proof (induction rule: trusted.induct)
  case (first key witness ts)
  then show ?case using hex_decode_encode[of key]
    by (auto simp: new_approval_log_witness_trust_state_def validate_witness_trust_state_def bind_result_Inr split: if_splits)
next
  case (rotate ts n kr ts')
  then show ?case using apply_rotation(2,3)[OF rotate(2,4)] by simp
qed

lemma sign_rotation:
  assumes "signature_law L" "\<And>kr. json_rotation L kr \<noteq> None"
    and "sign_approval_log_witness_key_rotation L ts old_secret new_secret time = Inr kr"
  shows "\<exists>ts'. apply_approval_log_witness_key_rotation L ts kr = Inr ts' \<and>
    hex_decode_array 32 ''current witness public key'' (current_public_key ts') = Inr (verifying_key_of L new_secret)"
proof -
  let ?old = "hex_encode (verifying_key_of L old_secret)" and ?new = "hex_encode (verifying_key_of L new_secret)"
  obtain payload where a: "validate_witness_trust_state L ts = Inr ()" "?old = current_public_key ts" "?new \<noteq> ?old"
    "\<not> earlier time (last_rotated_at_unix ts)" "checked_next_generation (generation ts) = Inr (to_generation kr)"
    "rotation_payload L (ts_witness_id ts) (generation ts) (to_generation kr) (last_rotation_sha256 ts) ?old ?new time = Inr payload"
    and kr: "kr = \<lparr>kr_version = 1, kr_witness_id = ts_witness_id ts, from_generation = generation ts,
       to_generation = to_generation kr, previous_rotation_sha256 = last_rotation_sha256 ts,
       old_public_key = ?old, new_public_key = ?new, rotated_at_unix = time, kr_algorithm = ED25519,
       old_signature = hex_encode (sign_with L old_secret payload), new_signature = hex_encode (sign_with L new_secret payload)\<rparr>"
    using assms(3) unfolding sign_approval_log_witness_key_rotation_def
    by (auto simp: bind_result_Inr Let_def split: if_splits)
  have f: "kr_version kr = 1" "kr_witness_id kr = ts_witness_id ts" "from_generation kr = generation ts"
    "previous_rotation_sha256 kr = last_rotation_sha256 ts" "old_public_key kr = ?old" "new_public_key kr = ?new"
    "rotated_at_unix kr = time" "kr_algorithm kr = ED25519" "old_signature kr = hex_encode (sign_with L old_secret payload)"
    "new_signature kr = hex_encode (sign_with L new_secret payload)"
    by (subst kr, simp)+
  have last: "validate_some (\<lambda>d. validate_sha256 d ''previous witness rotation SHA-256'') (last_rotation_sha256 ts) = Inr ()"
    "validate_slug (ts_witness_id ts) ''approval-log witness id'' = Inr ()"
    using a(1) by (auto simp: validate_witness_trust_state_def validate_some_def validate_sha256_def bind_result_Inr split: if_splits option.splits)
  obtain bs where bs: "json_rotation L kr = Some bs" using assms(2) by blast
  have valid: "validate_witness_key_rotation kr = Inr ()"
    using last signature_decodes[OF assms(1)] by (simp add: validate_witness_key_rotation_def f)
  then have digest: "signed_approval_log_witness_key_rotation_sha256 L kr = Inr (digest_hex L bs)"
    by (simp add: signed_approval_log_witness_key_rotation_sha256_def bs)
  show ?thesis
    using a(1,3-6) valid digest signature_decodes[OF assms(1)] unfolding apply_approval_log_witness_key_rotation_def
    by (simp add: f a(2)[symmetric])
qed

section \<open>The properties\<close>

text \<open>C21: The log is append-only by construction: verification accepts exactly the logs that
  \<open>new_approval_transparency_log\<close> and successful calls of \<open>append_approval_transparency_event\<close>
  produce, however the log at hand came about.\<close>

theorem verified_logs_are_grown:
  assumes "\<forall>lg. json_log L lg \<noteq> None"
  shows "(\<exists>d. approval_transparency_log_sha256 L lg = Inr d) \<longleftrightarrow> grown L lg"
  using ok_grown[of L lg] grown_ok[of L lg] log_digest_total[of L lg] assms by (auto simp: log_digest)

text \<open>C22: A signed checkpoint verifies on the log that it was made for, and on no other: unless two of
  the entries at hand have the same digest, a log on which it verifies, under whatever key, is the
  same log.\<close>

theorem checkpoint_pins_log:
  assumes "signature_law L" and "sign_approval_log_checkpoint L lg signer secret = Inr ck"
  shows "(\<exists>rep. verify_approval_log_checkpoint L lg ck (verifying_key_of L secret) = Inr rep) \<and>
    (\<forall>lg' key rep. verify_approval_log_checkpoint L lg' ck key = Inr rep \<longrightarrow>
       no_collision L (log_entries lg) (log_entries lg') \<longrightarrow> lg' = lg)"
proof (intro conjI allI impI)
  show "\<exists>rep. verify_approval_log_checkpoint L lg ck (verifying_key_of L secret) = Inr rep"
    by (rule sign_checkpoint[OF assms])
  fix lg' key rep
  assume v: "verify_approval_log_checkpoint L lg' ck key = Inr rep" and c: "no_collision L (log_entries lg) (log_entries lg')"
  note s = sign_checkpoint_fields[OF assms(2)] and v = verify_checkpoint_fields[OF v]
  have "log_entries lg = log_entries lg'"
    using same_tip[OF _ _ c] s v by (auto simp: log_ok_def)
  then show "lg' = lg" using s v by (cases lg; cases lg') (simp add: log_ok_def)
qed

text \<open>C23: What a witness quorum reports: it was computed from verified witnesses only, one per entry,
  with pairwise different identities and different key texts, each holding a signature on this
  checkpoint that verifies under the key trusted for it; and it is met exactly when there are at
  least as many as demanded, which is at least two.\<close>

theorem quorum_counts_witnesses:
  assumes "verify_approval_log_witness_quorum L ck witnesses minimum = Inr rep"
  shows "witness_ids rep = map (\<lambda>(w, k). witness_id w) witnesses \<and> distinct (witness_ids rep) \<and>
    witness_public_keys rep = map (\<lambda>(w, k). wt_public_key w) witnesses \<and> distinct (witness_public_keys rep) \<and>
    (\<forall>(w, k) \<in> set witnesses. witnessed L ck w k) \<and>
    (quorum_met rep \<longleftrightarrow> minimum \<le> length witnesses) \<and> 2 \<le> minimum \<and> length witnesses \<le> 64"
proof -
  obtain digest ids keys where q: "2 \<le> minimum" "length witnesses \<le> 64"
    "fold_result (quorum_step L ck) witnesses ([], []) = Inr (ids, keys)"
    "witness_ids rep = ids" "witness_public_keys rep = keys" "quorum_met rep = (minimum \<le> length ids)"
    using assms by (auto simp: verify_approval_log_witness_quorum_def bind_result_Inr split: if_splits)
  from quorum_fold[OF q(3)] verified_witness show ?thesis
    using q by (auto simp: case_prod_unfold comp_def)
qed

text \<open>C24: Key rotation. A rotation signed by the current and the new key is accepted and puts the new
  key in force. Whatever chain of accepted rotations led to a trust state, the state is valid and
  its generation is their number; and an accepted rotation is signed, over both keys and the
  digest of the previous rotation, with the key in force and with the new one, and does not go back in time.\<close>

theorem rotations_hand_over:
  assumes "signature_law L" and "digest_law L" and "\<forall>kr. json_rotation L kr \<noteq> None" and "trusted L ts n"
  shows "validate_witness_trust_state L ts = Inr () \<and> generation ts = n \<and>
    (\<forall>kr ts'. apply_approval_log_witness_key_rotation L ts kr = Inr ts' \<longrightarrow>
       generation ts' = n + 1 \<and> current_public_key ts' \<noteq> current_public_key ts \<and> rotation_signed L ts kr ts' \<and>
       \<not> earlier (rotated_at_unix kr) (last_rotated_at_unix ts)) \<and>
    (\<forall>old_secret new_secret time kr. sign_approval_log_witness_key_rotation L ts old_secret new_secret time = Inr kr \<longrightarrow>
       (\<exists>ts'. apply_approval_log_witness_key_rotation L ts kr = Inr ts' \<and>
          approval_log_witness_trusted_public_key L ts' = Inr (verifying_key_of L new_secret)))"
proof (intro conjI allI impI)
  note valid = trusted_valid[OF assms(4,2)]
  show "validate_witness_trust_state L ts = Inr ()" "generation ts = n" using valid by simp_all
  fix kr ts' assume a: "apply_approval_log_witness_key_rotation L ts kr = Inr ts'"
  show "generation ts' = n + 1" "current_public_key ts' \<noteq> current_public_key ts" "rotation_signed L ts kr ts'"
    "\<not> earlier (rotated_at_unix kr) (last_rotated_at_unix ts)"
    using apply_rotation[OF a assms(2)] valid by simp_all
next
  fix old_secret new_secret time kr
  assume "sign_approval_log_witness_key_rotation L ts old_secret new_secret time = Inr kr"
  from sign_rotation[OF assms(1) _ this] assms(3) obtain ts' where
    t: "apply_approval_log_witness_key_rotation L ts kr = Inr ts'"
    "hex_decode_array 32 ''current witness public key'' (current_public_key ts') = Inr (verifying_key_of L new_secret)" by blast
  then show "\<exists>ts'. apply_approval_log_witness_key_rotation L ts kr = Inr ts' \<and>
      approval_log_witness_trusted_public_key L ts' = Inr (verifying_key_of L new_secret)"
    using apply_rotation(2)[OF t(1) assms(2)] by (auto simp: approval_log_witness_trusted_public_key_def)
qed

section \<open>One key, two witnesses\<close>

text \<open>
  The decoding of keys accepts digits of both cases, and the quorum compares key texts. The holder of
  a single key whose text has a letter can therefore act as two witnesses, where both are trusted.
\<close>

definition upper :: "char \<Rightarrow> char" where
  "upper c = (if 97 \<le> (of_char c :: nat) \<and> of_char c \<le> (102 :: nat) then char_of (of_char c - 32 :: nat) else c)"

lemma upper_value: "lower_hex c \<Longrightarrow> hex_value (upper c) = hex_value c \<and> upper c \<noteq> CHR ''+'' \<and> (of_char (upper c) :: nat) < 0x80"
proof -
  assume c: "lower_hex c"
  have plus: "(of_char (CHR ''+'') :: nat) = 43" by simp
  show ?thesis
  proof (cases "97 \<le> (of_char c :: nat)")
    case True
    then have "(of_char (upper c) :: nat) = of_char c - 32" using c by (simp add: upper_def lower_hex_def)
    then show ?thesis using c True plus by (auto simp: hex_value_def lower_hex_def Let_def)
  next
    case False
    then have "upper c = c" by (simp add: upper_def)
    then show ?thesis using c False plus by (auto simp: lower_hex_def)
  qed
qed

lemma lower_plus: "lower_hex c \<Longrightarrow> c \<noteq> CHR ''+''"
  by (auto simp: lower_hex_def)

lemma upper_digits: "list_all lower_hex s \<Longrightarrow> hex_digits (map upper s) acc = hex_digits s acc"
  by (induction s arbitrary: acc) (auto simp: upper_value split: option.splits)

lemma upper_u8: "list_all lower_hex s \<Longrightarrow> u8_from_hex (map upper s) = u8_from_hex s"
  by (cases s) (auto simp: u8_from_hex_def upper_value upper_digits lower_plus split: option.splits)

lemma upper_boundary: "list_all lower_hex s \<Longrightarrow> i \<le> length s \<Longrightarrow> char_boundary (map upper s) i"
  using upper_value[of "s ! i"] by (cases "i = length s") (auto simp: char_boundary_def list_all_length)

lemma upper_decode:
  assumes "list_all lower_hex s"
  shows "hex_decode_array n label (map upper s) = hex_decode_array n label s"
proof -
  have "decode_byte label (map upper s) i = decode_byte label s i" if "i * 2 + 2 \<le> length s" for i
  proof -
    have "list_all lower_hex (take 2 (drop (i * 2) s))" using assms by (auto simp: list_all_iff dest: in_set_takeD in_set_dropD)
    note upper_u8[OF this]
    moreover have "slice s (i * 2) (i * 2 + 2) = Some (take 2 (drop (i * 2) s))"
      using that lower_hex_boundary[OF assms] by (simp add: slice_def)
    moreover have "slice (map upper s) (i * 2) (i * 2 + 2) = Some (map upper (take 2 (drop (i * 2) s)))"
      using that upper_boundary[OF assms] by (simp add: slice_def take_map drop_map)
    ultimately show ?thesis by (simp add: decode_byte_def)
  qed
  then have "map_result (decode_byte label (map upper s)) [0..<n] = map_result (decode_byte label s) [0..<n]" if "length s = n * 2"
    using that by (intro map_result_cong) (simp del: upt_Suc)
  then show ?thesis by (simp add: hex_decode_array_def)
qed

lemma one_key_meets_quorum:
  assumes "signature_law L" and "validate_checkpoint ck = Inr ()" and "json_checkpoint L ck \<noteq> None"
    and "\<forall>claim. json_witness_payload L claim \<noteq> None"
    and "map upper (hex_encode (verifying_key_of L secret)) \<noteq> hex_encode (verifying_key_of L secret)"
  shows "\<exists>w w' rep. verify_approval_log_witness_quorum L ck [(w, verifying_key_of L secret), (w', verifying_key_of L secret)] 2 = Inr rep \<and>
    quorum_met rep"
proof -
  let ?key = "verifying_key_of L secret"
  obtain bs where "json_checkpoint L ck = Some bs" using assms(3) by blast
  then have digest: "signed_approval_log_checkpoint_sha256 L ck = Inr (digest_hex L bs)"
    using assms(2) by (simp add: signed_approval_log_checkpoint_sha256_def)
  have payload: "\<exists>p. witness_payload L d name k head id time = Inr p" for d name k head id time
    using assms(4) by (auto simp: witness_payload_def ok_or_def split: option.splits)
  have one: "\<exists>w. witness_id w = id \<and> wt_public_key w = key \<and> verify_signed_approval_log_witness L ck w ?key = Inr ()"
    if id: "validate_slug id ''approval-log witness id'' = Inr ()"
      and key: "hex_decode_array 32 ''approval-log witness public key'' key = Inr ?key" for id key
  proof -
    obtain p where p: "witness_payload L (digest_hex L bs) (ck_log_id ck) (ck_entry_count ck) (ck_head ck) id 0 = Inr p"
      using payload by blast
    show ?thesis
      by (rule exI[of _ "\<lparr>wt_version = 1, wt_checkpoint_sha256 = digest_hex L bs, wt_log_id = ck_log_id ck,
          wt_entry_count = ck_entry_count ck, wt_head = ck_head ck, witness_id = id, observed_at_unix = 0,
          wt_algorithm = ED25519, wt_public_key = key, wt_signature = hex_encode (sign_with L secret p)\<rparr>"])
        (simp add: verify_signed_approval_log_witness_def digest id key p signature_decodes[OF assms(1)])
  qed
  have slugs: "validate_slug ''a'' ''approval-log witness id'' = Inr ()" "validate_slug ''b'' ''approval-log witness id'' = Inr ()"
    by (simp_all add: validate_slug_def slug_char_def slug_start_def)
  note key = signature_decodes(1)[OF assms(1)]
  obtain w where w: "witness_id w = ''a''" "wt_public_key w = hex_encode ?key" "verify_signed_approval_log_witness L ck w ?key = Inr ()"
    using one[OF slugs(1) key] by blast
  obtain w' where w': "witness_id w' = ''b''" "wt_public_key w' = map upper (hex_encode ?key)"
    "verify_signed_approval_log_witness L ck w' ?key = Inr ()"
    using one[OF slugs(2), of "map upper (hex_encode ?key)"] key by (auto simp: upper_decode[OF lower_hex_encode])
  show ?thesis
    by (rule exI[of _ w], rule exI[of _ w'])
      (simp add: verify_approval_log_witness_quorum_def digest quorum_step_def w w' assms(5))
qed

section \<open>A small log\<close>

text \<open>A library that satisfies the laws, and a log with one entry.\<close>

definition toy_library :: library where
  "toy_library =
     \<lparr>digest_hex = (\<lambda>_. replicate 64 CHR ''a''), json_entry = (\<lambda>_. Some []), json_log = (\<lambda>_. Some []),
      json_checkpoint = (\<lambda>_. Some []), json_rotation = (\<lambda>_. Some []), json_checkpoint_payload = (\<lambda>_. Some []),
      json_witness_payload = (\<lambda>_. Some []), json_rotation_payload = (\<lambda>_. Some []),
      verifying_key_of = (\<lambda>s. replicate 32 (if s = [] then CHR 0x01 else CHR 0xAB)),
      sign_with = (\<lambda>_ _. replicate 64 CHR 0x02), key_accepted = (\<lambda>_. True), verify_strict = (\<lambda>_ _ _. True)\<rparr>"

definition toy_event :: event_descriptor where
  "toy_event = \<lparr>event_kind = Signed_Policy_Pack, artifact_sha256 = replicate 64 CHR ''0'', subject_id = ''board'',
     request_sha256 = None, session_sha256 = None, event_signer_id = None, outcome = ''accepted''\<rparr>"

definition toy_start :: transparency_log where
  "toy_start = \<lparr>log_version = 1, log_name = ''log'', log_entries = [], head_sha256 = None\<rparr>"

lemma toy_laws: "signature_law toy_library" "digest_law toy_library" "\<forall>lg. json_log toy_library lg \<noteq> None"
  "\<forall>kr. json_rotation toy_library kr \<noteq> None"
  by (simp_all add: signature_law_def digest_law_def toy_library_def list_all_iff lower_hex_def)

lemma toy_new: "new_approval_transparency_log ''log'' = Inr toy_start"
  by (simp add: new_approval_transparency_log_def toy_start_def validate_slug_def slug_char_def slug_start_def)

lemma toy_append: "\<exists>digest lg. append_approval_transparency_event toy_library toy_start toy_event 7 = (Inr digest, lg) \<and>
    log_entries lg \<noteq> []"
proof -
  obtain d where d: "approval_transparency_log_sha256 toy_library toy_start = Inr d"
    using log_digest_total[OF grown_ok[OF grown.start[OF toy_new]]] toy_laws(3) by blast
  have "validate_event toy_event = Inr ()"
    by (simp add: validate_event_def toy_event_def validate_sha256_def validate_text_def validate_some_def list_all_iff lower_hex_def
        blank_name_def MAX_TEXT_BYTES_def)
  moreover have "entry_body_sha256 toy_library e = Inr (replicate 64 CHR ''a'')" for e
    by (simp add: entry_body_sha256_def) (simp add: toy_library_def)
  moreover have "log_entries toy_start = []" by (simp add: toy_start_def)
  ultimately show ?thesis
    by (simp add: append_approval_transparency_event_def d Let_def MAX_LOG_ENTRIES_def)
qed

theorem verified_logs_are_grown_witness:
  "\<exists>lg d. log_entries lg \<noteq> [] \<and> approval_transparency_log_sha256 toy_library lg = Inr d"
  using toy_append verified_logs_are_grown[OF toy_laws(3)] grown.append[OF grown.start[OF toy_new]] by metis

lemma toy_checkpoint: "\<exists>lg ck. log_entries lg \<noteq> [] \<and> sign_approval_log_checkpoint toy_library lg ''signer'' [] = Inr ck"
proof -
  obtain digest lg where a: "append_approval_transparency_event toy_library toy_start toy_event 7 = (Inr digest, lg)" "log_entries lg \<noteq> []"
    using toy_append by blast
  then have "log_ok toy_library lg" using append_ok by blast
  then obtain d where d: "approval_transparency_log_sha256 toy_library lg = Inr d" using log_digest_total toy_laws(3) by blast
  have "validate_slug ''signer'' l = Inr ()" for l by (simp add: validate_slug_def slug_char_def slug_start_def)
  moreover have "\<exists>p. checkpoint_payload toy_library name k head dg signer = Inr p" for name k head dg signer
    by (simp add: checkpoint_payload_def toy_library_def)
  then obtain p where "checkpoint_payload toy_library (log_name lg) (length (log_entries lg)) (head_sha256 lg) d ''signer'' = Inr p" by blast
  ultimately show ?thesis using a(2) d by (auto simp: sign_approval_log_checkpoint_def Let_def)
qed

theorem checkpoint_pins_log_witness:
  "\<exists>lg ck rep. log_entries lg \<noteq> [] \<and> sign_approval_log_checkpoint toy_library lg ''signer'' [] = Inr ck \<and>
    verify_approval_log_checkpoint toy_library lg ck (verifying_key_of toy_library []) = Inr rep"
  using toy_checkpoint checkpoint_pins_log[OF toy_laws(1)] by metis

definition toy_ck :: checkpoint where
  "toy_ck = \<lparr>ck_version = 1, ck_log_id = ''log'', ck_entry_count = 0, ck_head = None, ck_log_sha256 = replicate 64 CHR ''a'',
     ck_signer_id = ''signer'', ck_algorithm = ED25519, ck_public_key = hex_encode (verifying_key_of toy_library []),
     ck_signature = hex_encode (sign_with toy_library [] [])\<rparr>"

definition toy_witness :: "string \<Rightarrow> bytes \<Rightarrow> log_witness" where
  "toy_witness name secret = \<lparr>wt_version = 1, wt_checkpoint_sha256 = replicate 64 CHR ''a'', wt_log_id = ''log'', wt_entry_count = 0,
     wt_head = None, witness_id = name, observed_at_unix = 3, wt_algorithm = ED25519,
     wt_public_key = hex_encode (verifying_key_of toy_library secret), wt_signature = hex_encode (sign_with toy_library secret [])\<rparr>"

lemma toy_ck_valid: "validate_checkpoint toy_ck = Inr ()"
  using signature_decodes[OF toy_laws(1)]
  by (simp add: validate_checkpoint_def toy_ck_def validate_slug_def slug_char_def slug_start_def validate_sha256_def
      validate_some_def list_all_iff lower_hex_def)

lemma toy_keys_differ: "hex_encode (verifying_key_of toy_library [CHR 0x01]) \<noteq> hex_encode (verifying_key_of toy_library [])"
proof
  assume "hex_encode (verifying_key_of toy_library [CHR 0x01]) = hex_encode (verifying_key_of toy_library [])"
  then have "hex_decode_array 32 [] (hex_encode (verifying_key_of toy_library [CHR 0x01])) =
      hex_decode_array 32 [] (hex_encode (verifying_key_of toy_library []))" by simp
  then show False by (simp add: signature_decodes(1)[OF toy_laws(1)]) (simp add: toy_library_def)
qed

theorem quorum_counts_witnesses_witness:
  "\<exists>rep. verify_approval_log_witness_quorum toy_library toy_ck
     [(toy_witness ''one'' [], verifying_key_of toy_library []),
      (toy_witness ''two'' [CHR 0x01], verifying_key_of toy_library [CHR 0x01])] 2 = Inr rep \<and>
    quorum_met rep \<and> witness_ids rep = [''one'', ''two'']"
proof -
  have digest: "signed_approval_log_checkpoint_sha256 toy_library toy_ck = Inr (replicate 64 CHR ''a'')"
    using toy_ck_valid by (simp add: signed_approval_log_checkpoint_sha256_def) (simp add: toy_library_def)
  have verified: "verify_signed_approval_log_witness toy_library toy_ck (toy_witness name secret) (verifying_key_of toy_library secret) = Inr ()"
    if "validate_slug name ''approval-log witness id'' = Inr ()" for name secret
    using signature_decodes[OF toy_laws(1)] that
    by (simp add: verify_signed_approval_log_witness_def digest toy_witness_def) (simp add: toy_ck_def witness_payload_def toy_library_def verify_with_key_def)
  have slugs: "validate_slug ''one'' ''approval-log witness id'' = Inr ()" "validate_slug ''two'' ''approval-log witness id'' = Inr ()"
    by (simp_all add: validate_slug_def slug_char_def slug_start_def)
  have "\<exists>rep. verify_approval_log_witness_quorum toy_library toy_ck
     [(toy_witness ''one'' [], verifying_key_of toy_library []),
      (toy_witness ''two'' [CHR 0x01], verifying_key_of toy_library [CHR 0x01])] 2 = Inr rep"
    using toy_keys_differ verified[OF slugs(1)] verified[OF slugs(2)]
    by (simp add: verify_approval_log_witness_quorum_def digest quorum_step_Inr quorum_step_def) (simp add: toy_witness_def)
  then obtain rep where rep: "verify_approval_log_witness_quorum toy_library toy_ck
     [(toy_witness ''one'' [], verifying_key_of toy_library []),
      (toy_witness ''two'' [CHR 0x01], verifying_key_of toy_library [CHR 0x01])] 2 = Inr rep" by blast
  from quorum_counts_witnesses[OF rep] rep show ?thesis by (simp add: toy_witness_def)
qed

theorem rotations_hand_over_witness:
  "\<exists>ts kr ts'. trusted toy_library ts 0 \<and>
    sign_approval_log_witness_key_rotation toy_library ts [] [CHR 0x01] 5 = Inr kr \<and>
    apply_approval_log_witness_key_rotation toy_library ts kr = Inr ts' \<and> generation ts' = 1"
proof -
  define ts where "ts = \<lparr>ts_version = 1, ts_witness_id = ''one'', generation = 0,
    current_public_key = hex_encode (verifying_key_of toy_library []), last_rotation_sha256 = None, last_rotated_at_unix = None\<rparr>"
  have "new_approval_log_witness_trust_state toy_library ''one'' (verifying_key_of toy_library []) = Inr ts"
    by (simp add: new_approval_log_witness_trust_state_def validate_slug_def slug_char_def slug_start_def ts_def)
      (simp add: toy_library_def)
  then have ts: "trusted toy_library ts 0" by (intro trusted.first[of "verifying_key_of toy_library []"]) (simp_all add: toy_library_def)
  have "validate_witness_trust_state toy_library ts = Inr ()" using trusted_valid[OF ts toy_laws(2)] by simp
  moreover have "\<exists>p. rotation_payload toy_library w g g' prev old new t = Inr p" for w g g' prev old new t
    by (simp add: rotation_payload_def toy_library_def)
  then obtain p where "rotation_payload toy_library ''one'' 0 1 None (hex_encode (verifying_key_of toy_library []))
    (hex_encode (verifying_key_of toy_library [CHR 0x01])) 5 = Inr p" by blast
  ultimately obtain kr where "sign_approval_log_witness_key_rotation toy_library ts [] [CHR 0x01] 5 = Inr kr"
    using toy_keys_differ
    by (simp add: sign_approval_log_witness_key_rotation_def Let_def ts_def earlier_def checked_next_generation_def)
  then show ?thesis using rotations_hand_over[OF toy_laws(1,2,4) ts] ts by fastforce
qed

end
