(* ===== verification/Anchor.thy ===== *)
theory Anchor
  imports Merkle Transparency
begin

text \<open>
  Anchors of log checkpoints in a public log, \<open>crates/pcbex-kicad/src/anchor.rs\<close>: signed tree heads,
  proofs that a checkpoint is a leaf of the tree, and proofs that a later tree extends an earlier one.
  The proofs that the code creates verify. A proof that verifies is true of every log with the signed
  roots, as long as SHA-256 does not collide on the inputs that the log and the proof hash.
\<close>

section \<open>Records\<close>

record tree_head =
  th_version :: nat
  th_log_id :: string
  tree_len :: nat
  root_sha256 :: string
  th_observed_at_unix :: nat
  th_algorithm :: string
  th_public_key :: string
  th_signature :: string

record anchor_proof =
  ap_version :: nat
  ap_checkpoint_sha256 :: string
  leaf_index :: nat
  audit_path :: "string list"
  ap_tree_head :: tree_head

record anchor_report =
  ar_version :: nat
  ar_checkpoint_sha256 :: string
  ar_log_id :: string
  ar_leaf_index :: nat
  ar_tree_len :: nat
  ar_root_sha256 :: string
  ar_public_key :: string
  anchored :: bool

record consistency_proof =
  cn_version :: nat
  old_tree_head :: tree_head
  new_tree_head :: tree_head
  consistency_path :: "string list"

record consistency_report =
  cr_version :: nat
  cr_log_id :: string
  old_tree_len :: nat
  old_root_sha256 :: string
  old_observed_at_unix :: nat
  new_tree_len :: nat
  new_root_sha256 :: string
  new_observed_at_unix :: nat
  cr_public_key :: string
  consistent :: bool

record head_claim =
  hc_domain :: string
  hc_log_id :: string
  hc_tree_len :: nat
  hc_root_sha256 :: string
  hc_observed_at_unix :: nat

text \<open>The libraries of the log, with the digest as bytes and the JSON text of tree heads.\<close>

record anchor_library =
  base :: library
  sha256 :: "bytes \<Rightarrow> bytes"
  json_tree_head :: "tree_head \<Rightarrow> bytes option"
  json_head_payload :: "head_claim \<Rightarrow> bytes option"

definition LEAF_DOMAIN :: string where
  "LEAF_DOMAIN = ''pcbex-approval-public-log-leaf-v1''"

definition TREE_HEAD_DOMAIN :: string where
  "TREE_HEAD_DOMAIN = ''pcbex-approval-public-log-tree-head-v1''"

definition MAX_ANCHOR_LEAVES :: nat where
  "MAX_ANCHOR_LEAVES = 100000"

definition MAX_AUDIT_PATH :: nat where
  "MAX_AUDIT_PATH = 64"

section \<open>Leaves, payloads and shapes\<close>

definition leaf_input :: "bytes \<Rightarrow> bytes" where
  "leaf_input digest = CHR 0x00 # LEAF_DOMAIN @ digest"

definition leaf_hash :: "anchor_library \<Rightarrow> string \<Rightarrow> fault + bytes" where
  "leaf_hash A digest_text =
     bind_result (validate_sha256 digest_text ''approval public-log checkpoint SHA-256'') (\<lambda>_.
     bind_result (hex_decode_array 32 ''approval public-log checkpoint SHA-256'' digest_text) (\<lambda>digest.
     Inr (sha256 A (leaf_input digest))))"

definition tree_head_payload :: "anchor_library \<Rightarrow> string \<Rightarrow> nat \<Rightarrow> string \<Rightarrow> nat \<Rightarrow> fault + bytes" where
  "tree_head_payload A name n root_text observed =
     ok_or (Fault ''serializing approval public-log tree head'')
       (json_head_payload A
          \<lparr>hc_domain = TREE_HEAD_DOMAIN, hc_log_id = name, hc_tree_len = n, hc_root_sha256 = root_text,
           hc_observed_at_unix = observed\<rparr>)"

definition validate_tree_head_shape :: "tree_head \<Rightarrow> fault + unit" where
  "validate_tree_head_shape h =
     (if th_version h \<noteq> 1 \<or> th_algorithm h \<noteq> ED25519 \<or> tree_len h = 0 \<or> MAX_ANCHOR_LEAVES < tree_len h
      then Inl (Fault ''invalid approval public-log tree-head invariants'')
      else
        bind_result (validate_slug (th_log_id h) ''approval public-log id'') (\<lambda>_.
        bind_result (validate_sha256 (root_sha256 h) ''approval public-log root SHA-256'') (\<lambda>_.
        bind_result (hex_decode_array 32 ''approval public-log public key'' (th_public_key h)) (\<lambda>_.
        bind_result (hex_decode_array 64 ''approval public-log signature'' (th_signature h)) (\<lambda>_.
        Inr ())))))"

definition validate_approval_log_anchor_proof :: "anchor_proof \<Rightarrow> fault + unit" where
  "validate_approval_log_anchor_proof p =
     (if ap_version p \<noteq> 1 \<or> tree_len (ap_tree_head p) \<le> leaf_index p \<or> MAX_AUDIT_PATH < length (audit_path p)
      then Inl (Fault ''invalid approval public-log anchor invariants'')
      else
        bind_result (validate_sha256 (ap_checkpoint_sha256 p) ''approval anchor checkpoint SHA-256'') (\<lambda>_.
        bind_result (validate_tree_head_shape (ap_tree_head p)) (\<lambda>_.
        bind_result (all_result (\<lambda>node. validate_sha256 node ''approval anchor audit node'') (audit_path p)) (\<lambda>_.
        Inr ()))))"

definition validate_consistency_head_pair :: "tree_head \<Rightarrow> tree_head \<Rightarrow> fault + unit" where
  "validate_consistency_head_pair old new =
     (if th_log_id old \<noteq> th_log_id new
      then Inl (Fault ''approval consistency tree heads use different log identities'')
      else if th_public_key old \<noteq> th_public_key new
      then Inl (Fault ''approval consistency tree heads use different log keys'')
      else if tree_len new < tree_len old then Inl (Fault ''approval public-log tree size rolled back'')
      else if th_observed_at_unix new < th_observed_at_unix old
      then Inl (Fault ''approval public-log observation time rolled back'')
      else if tree_len new = tree_len old \<and> root_sha256 new \<noteq> root_sha256 old
      then Inl (Fault ''approval public log equivocated at one tree size'')
      else Inr ())"

definition validate_consistency_proof :: "consistency_proof \<Rightarrow> fault + unit" where
  "validate_consistency_proof p =
     (if cn_version p \<noteq> 1 \<or> MAX_AUDIT_PATH < length (consistency_path p)
      then Inl (Fault ''invalid approval public-log consistency invariants'')
      else
        bind_result (validate_tree_head_shape (old_tree_head p)) (\<lambda>_.
        bind_result (validate_tree_head_shape (new_tree_head p)) (\<lambda>_.
        bind_result (validate_consistency_head_pair (old_tree_head p) (new_tree_head p)) (\<lambda>_.
        bind_result (all_result (\<lambda>node. validate_sha256 node ''approval consistency node'') (consistency_path p)) (\<lambda>_.
        Inr ())))))"

definition verify_approval_public_log_tree_head :: "anchor_library \<Rightarrow> tree_head \<Rightarrow> bytes \<Rightarrow> fault + unit" where
  "verify_approval_public_log_tree_head A h trusted_key =
     bind_result (validate_tree_head_shape h) (\<lambda>_.
     bind_result (hex_decode_array 32 ''approval public-log public key'' (th_public_key h)) (\<lambda>key.
     if key \<noteq> trusted_key then Inl (Fault ''approval public-log key does not match the trusted public key'')
     else
       bind_result (hex_decode_array 64 ''approval public-log signature'' (th_signature h)) (\<lambda>signature.
       bind_result (tree_head_payload A (th_log_id h) (tree_len h) (root_sha256 h) (th_observed_at_unix h)) (\<lambda>payload.
       verify_with_key (base A) ''invalid approval public-log public key'' ''invalid approval public-log signature''
         key payload signature))))"

definition approval_public_log_tree_head_sha256 :: "anchor_library \<Rightarrow> tree_head \<Rightarrow> fault + string" where
  "approval_public_log_tree_head_sha256 A h =
     bind_result (validate_tree_head_shape h) (\<lambda>_.
     bind_result (ok_or (Fault ''serializing approval public-log tree head'') (json_tree_head A h)) (\<lambda>text.
     Inr (digest_hex (base A) text)))"

section \<open>Anchor proofs\<close>

definition create_approval_log_anchor_proof ::
    "anchor_library \<Rightarrow> checkpoint \<Rightarrow> string list \<Rightarrow> nat \<Rightarrow> string \<Rightarrow> nat \<Rightarrow> bytes \<Rightarrow> fault + anchor_proof" where
  "create_approval_log_anchor_proof A ck ordered index name observed secret =
     bind_result (validate_slug name ''approval public-log id'') (\<lambda>_.
     if ordered = [] \<or> MAX_ANCHOR_LEAVES < length ordered
     then Inl (Fault ''approval public log must contain 1 to 100000 leaves'')
     else if length ordered \<le> index then Inl (Fault ''approval anchor leaf index is outside the tree'')
     else
       bind_result (all_result (\<lambda>d. validate_sha256 d ''approval public-log checkpoint SHA-256'') ordered) (\<lambda>_.
       bind_result (signed_approval_log_checkpoint_sha256 (base A) ck) (\<lambda>ck_digest.
       if ordered ! index \<noteq> ck_digest
       then Inl (Fault ''approval anchor leaf does not match the supplied checkpoint'')
       else
         bind_result (map_result (leaf_hash A) ordered) (\<lambda>leaves.
         bind_result (merkle_root (sha256 A) leaves) (\<lambda>tree.
         bind_result (merkle_audit_path (sha256 A) leaves index) (\<lambda>path.
         bind_result (tree_head_payload A name (length leaves) (hex_encode tree) observed) (\<lambda>payload.
         Inr \<lparr>ap_version = 1, ap_checkpoint_sha256 = ck_digest, leaf_index = index, audit_path = map hex_encode path,
              ap_tree_head =
                \<lparr>th_version = 1, th_log_id = name, tree_len = length leaves, root_sha256 = hex_encode tree,
                 th_observed_at_unix = observed, th_algorithm = ED25519,
                 th_public_key = hex_encode (verifying_key_of (base A) secret),
                 th_signature = hex_encode (sign_with (base A) secret payload)\<rparr>\<rparr>)))))))"

definition verify_approval_log_anchor_proof ::
    "anchor_library \<Rightarrow> checkpoint \<Rightarrow> anchor_proof \<Rightarrow> bytes \<Rightarrow> fault + anchor_report" where
  "verify_approval_log_anchor_proof A ck p trusted_key =
     (if ap_version p \<noteq> 1 then Inl (Fault ''unsupported approval-log anchor proof'')
      else
        bind_result (signed_approval_log_checkpoint_sha256 (base A) ck) (\<lambda>ck_digest.
        if ap_checkpoint_sha256 p \<noteq> ck_digest
        then Inl (Fault ''approval-log anchor proof is bound to a different checkpoint'')
        else
          let h = ap_tree_head p in
          if th_version h \<noteq> 1 \<or> th_algorithm h \<noteq> ED25519
          then Inl (Fault ''unsupported approval public-log tree head'')
          else
            bind_result (validate_slug (th_log_id h) ''approval public-log id'') (\<lambda>_.
            bind_result (validate_sha256 (root_sha256 h) ''approval public-log root SHA-256'') (\<lambda>_.
            if tree_len h = 0 \<or> tree_len h \<le> leaf_index p
            then Inl (Fault ''approval anchor leaf index is outside the tree'')
            else if MAX_AUDIT_PATH < length (audit_path p)
            then Inl (Fault ''approval anchor audit path cannot exceed 64 nodes'')
            else
              bind_result (map_result (hex_decode_array 32 ''approval anchor audit node'') (audit_path p)) (\<lambda>path.
              bind_result (leaf_hash A ck_digest) (\<lambda>leaf.
              bind_result (root_from_audit_path (sha256 A) leaf (leaf_index p) (tree_len h) path 0) (\<lambda>(reconstructed, cursor).
              if cursor \<noteq> length path \<or> hex_encode reconstructed \<noteq> root_sha256 h
              then Inl (Fault ''approval anchor audit path does not reconstruct the signed root'')
              else
                bind_result (hex_decode_array 32 ''approval public-log public key'' (th_public_key h)) (\<lambda>key.
                if key \<noteq> trusted_key then Inl (Fault ''approval public-log key does not match the trusted public key'')
                else
                  bind_result (hex_decode_array 64 ''approval public-log signature'' (th_signature h)) (\<lambda>signature.
                  bind_result (tree_head_payload A (th_log_id h) (tree_len h) (root_sha256 h) (th_observed_at_unix h)) (\<lambda>payload.
                  bind_result (verify_with_key (base A) ''invalid approval public-log public key''
                      ''invalid approval public-log signature'' key payload signature) (\<lambda>_.
                  Inr \<lparr>ar_version = 1, ar_checkpoint_sha256 = ck_digest, ar_log_id = th_log_id h, ar_leaf_index = leaf_index p,
                       ar_tree_len = tree_len h, ar_root_sha256 = root_sha256 h, ar_public_key = th_public_key h,
                       anchored = True\<rparr>)))))))))))"

section \<open>Consistency proofs\<close>

definition create_approval_log_consistency_proof ::
    "anchor_library \<Rightarrow> anchor_proof \<Rightarrow> anchor_proof \<Rightarrow> string list \<Rightarrow> fault + consistency_proof" where
  "create_approval_log_consistency_proof A old_anchor new_anchor ordered =
     bind_result (validate_approval_log_anchor_proof old_anchor) (\<lambda>_.
     bind_result (validate_approval_log_anchor_proof new_anchor) (\<lambda>_.
     let old = ap_tree_head old_anchor; new = ap_tree_head new_anchor in
     bind_result (validate_consistency_head_pair old new) (\<lambda>_.
     if length ordered \<noteq> tree_len new
     then Inl (Fault ''approval consistency snapshot does not match the new tree size'')
     else
       bind_result (all_result (\<lambda>d. validate_sha256 d ''approval public-log checkpoint SHA-256'') ordered) (\<lambda>_.
       bind_result (map_result (leaf_hash A) ordered) (\<lambda>leaves.
       if length leaves < tree_len old then Inl Panic
       else
         bind_result (merkle_root (sha256 A) (take (tree_len old) leaves)) (\<lambda>old_tree.
         if hex_encode old_tree \<noteq> root_sha256 old
         then Inl (Fault ''approval consistency snapshot does not reconstruct the old signed root'')
         else
           bind_result (merkle_root (sha256 A) leaves) (\<lambda>new_tree.
           if hex_encode new_tree \<noteq> root_sha256 new
           then Inl (Fault ''approval consistency snapshot does not reconstruct the new signed root'')
           else
             bind_result (merkle_consistency_path (sha256 A) leaves (tree_len old)) (\<lambda>path.
             Inr \<lparr>cn_version = 1, old_tree_head = old, new_tree_head = new, consistency_path = map hex_encode path\<rparr>))))))))"

definition verify_approval_log_tree_head_consistency ::
    "anchor_library \<Rightarrow> consistency_proof \<Rightarrow> bytes \<Rightarrow> fault + consistency_report" where
  "verify_approval_log_tree_head_consistency A p trusted_key =
     bind_result (validate_consistency_proof p) (\<lambda>_.
     let old = old_tree_head p; new = new_tree_head p in
     bind_result (verify_approval_public_log_tree_head A old trusted_key) (\<lambda>_.
     bind_result (verify_approval_public_log_tree_head A new trusted_key) (\<lambda>_.
     bind_result (map_result (hex_decode_array 32 ''approval consistency node'') (consistency_path p)) (\<lambda>path.
     bind_result (hex_decode_array 32 ''approval old public-log root SHA-256'' (root_sha256 old)) (\<lambda>old_tree.
     bind_result (roots_from_consistency_path (sha256 A) (tree_len old) (tree_len new) True old_tree path 0)
       (\<lambda>((reconstructed_old, reconstructed_new), cursor).
     if cursor \<noteq> length path \<or> hex_encode reconstructed_old \<noteq> root_sha256 old \<or> hex_encode reconstructed_new \<noteq> root_sha256 new
     then Inl (Fault ''approval consistency path does not reconstruct both signed roots'')
     else
       Inr \<lparr>cr_version = 1, cr_log_id = th_log_id new, old_tree_len = tree_len old, old_root_sha256 = root_sha256 old,
            old_observed_at_unix = th_observed_at_unix old, new_tree_len = tree_len new, new_root_sha256 = root_sha256 new,
            new_observed_at_unix = th_observed_at_unix new, cr_public_key = th_public_key new, consistent = True\<rparr>))))))"

definition verify_approval_log_consistency_proof ::
    "anchor_library \<Rightarrow> anchor_proof \<Rightarrow> anchor_proof \<Rightarrow> consistency_proof \<Rightarrow> bytes \<Rightarrow> fault + consistency_report" where
  "verify_approval_log_consistency_proof A old_anchor new_anchor p trusted_key =
     bind_result (validate_approval_log_anchor_proof old_anchor) (\<lambda>_.
     bind_result (validate_approval_log_anchor_proof new_anchor) (\<lambda>_.
     bind_result (validate_consistency_proof p) (\<lambda>_.
     if old_tree_head p \<noteq> ap_tree_head old_anchor
     then Inl (Fault ''approval consistency proof does not match the previously accepted anchor'')
     else if new_tree_head p \<noteq> ap_tree_head new_anchor
     then Inl (Fault ''approval consistency proof does not match the current anchor'')
     else verify_approval_log_tree_head_consistency A p trusted_key)))"

section \<open>Digests as text\<close>

lemma sha256_text:
  assumes "validate_sha256 s label = Inr ()"
  obtains bs where "length bs = 32" "s = hex_encode bs"
  using lower_text[of s 32] assms by (auto simp: validate_sha256_def split: if_splits)

lemma hex_encode_inject: "length bs = length cs \<Longrightarrow> hex_encode bs = hex_encode cs \<Longrightarrow> bs = cs"
  by (metis hex_decode_encode sum.inject(2))

lemma decode_encoded: "length bs = n \<Longrightarrow> hex_decode_array n label (hex_encode bs) = Inr bs"
  using hex_decode_encode by blast

lemma decode_path: "\<forall>x \<in> set path. length x = n \<Longrightarrow> map_result (hex_decode_array n label) (map hex_encode path) = Inr path"
  by (induction path) (simp_all add: decode_encoded)

lemma decoded_path: "map_result (hex_decode_array n label) texts = Inr path \<Longrightarrow> \<forall>x \<in> set path. length x = n"
  by (auto simp: map_result_Inr list_all2_conv_all_nth in_set_conv_nth dest!: hex_decode_length)

text \<open>The leaves of a log.\<close>

lemma leaf_hash_encoded: "length bs = 32 \<Longrightarrow> leaf_hash A (hex_encode bs) = Inr (sha256 A (leaf_input bs))"
  by (simp add: leaf_hash_def sha256_encoded decode_encoded)

lemma leaf_hash_Inr:
  assumes "leaf_hash A s = Inr leaf"
  obtains bs where "length bs = 32" "s = hex_encode bs" "leaf = sha256 A (leaf_input bs)"
proof -
  obtain bs where bs: "length bs = 32" "s = hex_encode bs"
    using assms sha256_text[of s] by (auto simp: leaf_hash_def bind_result_Inr)
  then show ?thesis using that assms leaf_hash_encoded[OF bs(1)] by simp
qed

lemma leaves_total:
  assumes "all_result (\<lambda>d. validate_sha256 d label) ds = Inr ()"
  obtains leaves where "map_result (leaf_hash A) ds = Inr leaves" "length leaves = length ds"
proof -
  have "\<exists>leaves. map_result (leaf_hash A) ds = Inr leaves"
    using assms
  proof (induction ds)
    case (Cons d ds)
    then obtain leaves where "map_result (leaf_hash A) ds = Inr leaves" by (auto simp: all_result_Inr bind_result_Inr)
    moreover obtain bs where "length bs = 32" "d = hex_encode bs"
      using Cons.prems sha256_text[of d label] by (auto simp: bind_result_Inr)
    ultimately show ?case by (simp add: leaf_hash_encoded)
  qed simp
  then obtain leaves where "map_result (leaf_hash A) ds = Inr leaves" by blast
  then show ?thesis using that by (metis list_all2_lengthD map_result_Inr)
qed

definition sha256_law :: "anchor_library \<Rightarrow> bool" where
  "sha256_law A \<longleftrightarrow> (\<forall>m. length (sha256 A m) = 32)"

lemma leaves_digests:
  assumes "sha256_law A" "map_result (leaf_hash A) ds = Inr leaves"
  shows "digests (sha256 A) leaves"
proof -
  have "length leaf = 32" if "leaf_hash A d = Inr leaf" for d leaf
    using that assms(1) by (auto simp: sha256_law_def elim: leaf_hash_Inr)
  then show ?thesis
    using assms by (fastforce simp: digests_def sha256_law_def map_result_Inr list_all2_conv_all_nth in_set_conv_nth)
qed

section \<open>Created anchors\<close>

lemma anchor_created:
  assumes "create_approval_log_anchor_proof A ck ds i name t secret = Inr p"
  obtains leaves path payload where "validate_slug name ''approval public-log id'' = Inr ()"
    "map_result (leaf_hash A) ds = Inr leaves" "length leaves = length ds" "0 < length leaves" "length leaves \<le> MAX_ANCHOR_LEAVES"
    "i < length leaves" "signed_approval_log_checkpoint_sha256 (base A) ck = Inr (ds ! i)"
    "validate_sha256 (ds ! i) ''approval public-log checkpoint SHA-256'' = Inr ()"
    "merkle_audit_path (sha256 A) leaves i = Inr path"
    "tree_head_payload A name (length leaves) (hex_encode (tree_root (sha256 A) leaves)) t = Inr payload"
    "p = \<lparr>ap_version = 1, ap_checkpoint_sha256 = ds ! i, leaf_index = i, audit_path = map hex_encode path,
       ap_tree_head = \<lparr>th_version = 1, th_log_id = name, tree_len = length leaves,
         root_sha256 = hex_encode (tree_root (sha256 A) leaves), th_observed_at_unix = t, th_algorithm = ED25519,
         th_public_key = hex_encode (verifying_key_of (base A) secret),
         th_signature = hex_encode (sign_with (base A) secret payload)\<rparr>\<rparr>"
proof -
  from assms have v: "ds \<noteq> []" "length ds \<le> MAX_ANCHOR_LEAVES" "i < length ds"
    "all_result (\<lambda>d. validate_sha256 d ''approval public-log checkpoint SHA-256'') ds = Inr ()"
    by (auto simp: create_approval_log_anchor_proof_def bind_result_Inr split: if_splits)
  obtain leaves where l: "map_result (leaf_hash A) ds = Inr leaves" "length leaves = length ds" by (rule leaves_total[OF v(4)])
  have "0 < length leaves" using v(1) l(2) by simp
  note tree = merkle_root_tree[OF this, of "sha256 A"]
  have d: "validate_sha256 (ds ! i) ''approval public-log checkpoint SHA-256'' = Inr ()"
    using v(3,4) by (simp add: all_result_Inr)
  from assms show ?thesis using that[OF _ l(1,2)] v l d
    by (auto simp: create_approval_log_anchor_proof_def bind_result_Inr tree split: if_splits)
qed

lemma head_fields:
  assumes "signature_law (base A)" "sha256_law A" "digests (sha256 A) leaves" "0 < length leaves"
    "length leaves \<le> MAX_ANCHOR_LEAVES" "validate_slug name ''approval public-log id'' = Inr ()"
  shows "validate_tree_head_shape \<lparr>th_version = 1, th_log_id = name, tree_len = length leaves,
     root_sha256 = hex_encode (tree_root (sha256 A) leaves), th_observed_at_unix = t, th_algorithm = ED25519,
     th_public_key = hex_encode (verifying_key_of (base A) secret),
     th_signature = hex_encode (sign_with (base A) secret payload)\<rparr> = Inr ()"
  using assms(4-6) signature_decodes(1,2)[OF assms(1)] sha256_encoded[OF tree_root_length[OF assms(4,3)]]
  by (simp add: validate_tree_head_shape_def)

text \<open>The audit path of a tree of at most 100000 leaves has at most 17 nodes, a consistency path 18.\<close>

lemma small_tree: "n \<le> MAX_ANCHOR_LEAVES \<Longrightarrow> n \<le> 2 ^ 17" "n \<le> MAX_ANCHOR_LEAVES \<Longrightarrow> n \<le> 2 ^ 64"
  by (simp_all add: MAX_ANCHOR_LEAVES_def)

lemma valid_label: "validate_sha256 s label = Inr () \<Longrightarrow> validate_sha256 s label' = Inr ()"
  by (simp add: validate_sha256_def split: if_splits)

lemma valid_nodes: "digests sha path \<Longrightarrow> all_result (\<lambda>node. validate_sha256 node label) (map hex_encode path) = Inr ()"
  by (auto simp: all_result_Inr digests_def sha256_encoded)

lemma created_anchor_verifies:
  assumes "signature_law (base A)" "sha256_law A" "create_approval_log_anchor_proof A ck ds i name t secret = Inr p"
  shows "\<exists>rep. verify_approval_log_anchor_proof A ck p (verifying_key_of (base A) secret) = Inr rep \<and>
      anchored rep \<and> ar_tree_len rep = length ds \<and> ar_leaf_index rep = i \<and> ar_checkpoint_sha256 rep = ds ! i"
    and "validate_approval_log_anchor_proof p = Inr ()"
    and "verify_approval_public_log_tree_head A (ap_tree_head p) (verifying_key_of (base A) secret) = Inr ()"
proof -
  obtain leaves path payload where c: "validate_slug name ''approval public-log id'' = Inr ()"
    "map_result (leaf_hash A) ds = Inr leaves" "length leaves = length ds" "0 < length leaves" "length leaves \<le> MAX_ANCHOR_LEAVES"
    "i < length leaves" "signed_approval_log_checkpoint_sha256 (base A) ck = Inr (ds ! i)"
    "validate_sha256 (ds ! i) ''approval public-log checkpoint SHA-256'' = Inr ()"
    "merkle_audit_path (sha256 A) leaves i = Inr path"
    "tree_head_payload A name (length leaves) (hex_encode (tree_root (sha256 A) leaves)) t = Inr payload"
    "p = \<lparr>ap_version = 1, ap_checkpoint_sha256 = ds ! i, leaf_index = i, audit_path = map hex_encode path,
       ap_tree_head = \<lparr>th_version = 1, th_log_id = name, tree_len = length leaves,
         root_sha256 = hex_encode (tree_root (sha256 A) leaves), th_observed_at_unix = t, th_algorithm = ED25519,
         th_public_key = hex_encode (verifying_key_of (base A) secret),
         th_signature = hex_encode (sign_with (base A) secret payload)\<rparr>\<rparr>"
    by (rule anchor_created[OF assms(3)])
  note leaves = leaves_digests[OF assms(2) c(2)]
  have path: "length path \<le> MAX_AUDIT_PATH" "digests (sha256 A) path"
    using audit_path_length[OF c(4) small_tree[OF c(5)] c(9)] audit_path_digests[OF c(4,9) leaves] by (simp_all add: MAX_AUDIT_PATH_def)
  have nodes: "map_result (hex_decode_array 32 label) (map hex_encode path) = Inr path" for label
    using path(2) by (intro decode_path) (simp add: digests_def)
  have leaf: "leaf_hash A (ds ! i) = Inr (leaves ! i)"
    using c(2,3,6) by (simp add: map_result_Inr list_all2_conv_all_nth)
  have rebuild: "root_from_audit_path (sha256 A) (leaves ! i) i (length leaves) path 0 = Inr (tree_root (sha256 A) leaves, length path)"
    using audit_complete[OF c(4,6), of "sha256 A"] c(9) by (metis append.right_neutral append_Nil length_0_conv plus_nat.add_0 sum.inject(2))
  note shape = head_fields[OF assms(1,2) leaves c(4,5,1)]
  note keys = signature_decodes[OF assms(1)]
  have tree: "validate_sha256 (hex_encode (tree_root (sha256 A) leaves)) label = Inr ()" for label
    by (rule sha256_encoded) (rule tree_root_length[OF c(4) leaves])
  show "validate_approval_log_anchor_proof p = Inr ()"
    using path(1) c(6)
    by (simp add: validate_approval_log_anchor_proof_def c(11) shape valid_nodes[OF path(2)] valid_label[OF c(8)] del: One_nat_def)
  show "verify_approval_public_log_tree_head A (ap_tree_head p) (verifying_key_of (base A) secret) = Inr ()"
    using keys by (simp add: verify_approval_public_log_tree_head_def c(10,11) shape del: One_nat_def)
  show "\<exists>rep. verify_approval_log_anchor_proof A ck p (verifying_key_of (base A) secret) = Inr rep \<and>
      anchored rep \<and> ar_tree_len rep = length ds \<and> ar_leaf_index rep = i \<and> ar_checkpoint_sha256 rep = ds ! i"
    using c(4,6) keys path(1)
    by (simp add: verify_approval_log_anchor_proof_def c(1,7,10,11) Let_def tree nodes leaf rebuild flip: c(3))
qed

section \<open>Created consistency proofs\<close>

lemma map_result_take: "map_result f xs = Inr ys \<Longrightarrow> map_result f (take n xs) = Inr (take n ys)"
  by (auto simp: map_result_Inr)

lemma created_consistency_verifies:
  assumes "signature_law (base A)" "sha256_law A" "m \<le> length ds" "t \<le> t'"
    and old: "create_approval_log_anchor_proof A ck (take m ds) i name t secret = Inr old"
    and new: "create_approval_log_anchor_proof A ck' ds j name t' secret = Inr new"
  shows "\<exists>p rep. create_approval_log_consistency_proof A old new ds = Inr p \<and>
    verify_approval_log_consistency_proof A old new p (verifying_key_of (base A) secret) = Inr rep \<and>
    consistent rep \<and> old_tree_len rep = m \<and> new_tree_len rep = length ds"
proof -
  let ?sha = "sha256 A"
  obtain leaves where n: "map_result (leaf_hash A) ds = Inr leaves" "length leaves = length ds" "0 < length leaves"
    "length leaves \<le> MAX_ANCHOR_LEAVES"
    "tree_len (ap_tree_head new) = length leaves" "root_sha256 (ap_tree_head new) = hex_encode (tree_root ?sha leaves)"
    "th_log_id (ap_tree_head new) = name" "th_observed_at_unix (ap_tree_head new) = t'"
    "th_public_key (ap_tree_head new) = hex_encode (verifying_key_of (base A) secret)"
    by (rule anchor_created[OF new]) simp
  obtain leaves0 where o: "map_result (leaf_hash A) (take m ds) = Inr leaves0" "0 < length leaves0" "length leaves0 = length (take m ds)"
    "tree_len (ap_tree_head old) = length leaves0" "root_sha256 (ap_tree_head old) = hex_encode (tree_root ?sha leaves0)"
    "th_log_id (ap_tree_head old) = name" "th_observed_at_unix (ap_tree_head old) = t"
    "th_public_key (ap_tree_head old) = hex_encode (verifying_key_of (base A) secret)"
    by (rule anchor_created[OF old]) simp
  have "leaves0 = take m leaves" using o(1) map_result_take[OF n(1), of m] by simp
  then have m: "0 < m" "m \<le> length leaves" "leaves0 = take m leaves" "tree_len (ap_tree_head old) = m"
    using o(2,4) assms(3) n(2) by auto
  note valid = created_anchor_verifies[OF assms(1,2) old] created_anchor_verifies[OF assms(1,2) new]
  have pair: "validate_consistency_head_pair (ap_tree_head old) (ap_tree_head new) = Inr ()"
    using m(2) assms(4) by (auto simp: validate_consistency_head_pair_def n o m(3,4))
  note digests = leaves_digests[OF assms(2) n(1)]
  have digests0: "digests ?sha (take m leaves)" using digests by (auto simp: digests_def dest: in_set_takeD)
  have trees: "length (tree_root ?sha leaves) = 32" "length (tree_root ?sha (take m leaves)) = 32"
    using tree_root_length[OF n(3) digests] tree_root_length[OF _ digests0] m(1) n(3) by simp_all
  from consistency_complete[OF n(3) m(1,2) small_tree(2)[OF n(4)], of ?sha True] obtain path where path:
    "consistency_subproof ?sha m leaves True = Inr path"
    "\<forall>pre post. roots_from_consistency_path ?sha m (length leaves) True (tree_root ?sha (take m leaves)) (pre @ path @ post) (length pre) =
      Inr ((tree_root ?sha (take m leaves), tree_root ?sha leaves), length pre + length path)" by blast
  have rebuild: "roots_from_consistency_path ?sha m (length leaves) True (tree_root ?sha (take m leaves)) path 0 =
      Inr ((tree_root ?sha (take m leaves), tree_root ?sha leaves), length path)"
    using path(2)[rule_format, of "[]" "[]"] by simp
  have short: "length path \<le> MAX_AUDIT_PATH"
    using subproof_length[OF n(3) small_tree[OF n(4)] path(1)] by (simp add: MAX_AUDIT_PATH_def)
  note pd = subproof_digests[OF n(3) path(1) digests]
  have nodes: "map_result (hex_decode_array 32 label) (map hex_encode path) = Inr path" for label
    using pd by (intro decode_path) (simp add: digests_def)
  have texts: "all_result (\<lambda>d. validate_sha256 d ''approval public-log checkpoint SHA-256'') ds = Inr ()"
    using new by (auto simp: create_approval_log_anchor_proof_def bind_result_Inr split: if_splits)
  define p where "p = \<lparr>cn_version = 1, old_tree_head = ap_tree_head old, new_tree_head = ap_tree_head new,
      consistency_path = map hex_encode path\<rparr>"
  have fields: "old_tree_head p = ap_tree_head old" "new_tree_head p = ap_tree_head new" "consistency_path p = map hex_encode path"
    "tree_len (ap_tree_head new) = length leaves" "tree_len (ap_tree_head old) = m"
    "root_sha256 (ap_tree_head old) = hex_encode (tree_root ?sha (take m leaves))"
    "root_sha256 (ap_tree_head new) = hex_encode (tree_root ?sha leaves)"
    using m(3,4) o(5) by (simp_all add: p_def n)
  have roots: "merkle_root ?sha (take m leaves) = Inr (tree_root ?sha (take m leaves))" "merkle_root ?sha leaves = Inr (tree_root ?sha leaves)"
    using m(1,2) n(3) by (simp_all add: merkle_root_tree)
  have created: "create_approval_log_consistency_proof A old new ds = Inr p"
    using m(1,2) roots
    by (simp add: create_approval_log_consistency_proof_def valid(2,5) Let_def pair texts fields n(1)
        merkle_consistency_path_def path(1) n(2)[symmetric]) (simp add: p_def)
  have shapes: "validate_tree_head_shape (ap_tree_head old) = Inr ()" "validate_tree_head_shape (ap_tree_head new) = Inr ()"
    using valid by (auto simp: verify_approval_public_log_tree_head_def bind_result_Inr)
  have proof_valid: "validate_consistency_proof p = Inr ()"
    using short by (simp add: validate_consistency_proof_def p_def shapes pair valid_nodes[OF pd])
  have "\<exists>rep. verify_approval_log_tree_head_consistency A p (verifying_key_of (base A) secret) = Inr rep \<and>
      consistent rep \<and> old_tree_len rep = m \<and> new_tree_len rep = length ds"
    unfolding verify_approval_log_tree_head_consistency_def proof_valid bind_result_simps Let_def fields valid(3,6) nodes
      decode_encoded[OF trees(2)] rebuild
    by (simp add: n(2))
  then show ?thesis using created
    by (intro exI[of _ p]) (simp add: verify_approval_log_consistency_proof_def valid(2,5) proof_valid fields)
qed

section \<open>Soundness\<close>

text \<open>What the leaves of a log, its tree, and the check of a proof hash.\<close>

definition leaf_inputs :: "string list \<Rightarrow> bytes set" where
  "leaf_inputs ds = {leaf_input bs |bs. hex_encode bs \<in> set ds}"

definition anchor_inputs :: "anchor_library \<Rightarrow> string list \<Rightarrow> anchor_proof \<Rightarrow> bytes set" where
  "anchor_inputs A ds p =
     leaf_inputs (ap_checkpoint_sha256 p # ds) \<union>
     (case map_result (leaf_hash A) ds of Inl e \<Rightarrow> {} | Inr leaves \<Rightarrow> tree_inputs (sha256 A) leaves) \<union>
     (case (leaf_hash A (ap_checkpoint_sha256 p), map_result (hex_decode_array 32 ''approval anchor audit node'') (audit_path p)) of
        (Inr leaf, Inr path) \<Rightarrow> audit_inputs (sha256 A) leaf (leaf_index p) (tree_len (ap_tree_head p)) path 0
      | _ \<Rightarrow> {})"

definition extension_inputs :: "anchor_library \<Rightarrow> string list \<Rightarrow> string list \<Rightarrow> consistency_proof \<Rightarrow> bytes set" where
  "extension_inputs A ds0 ds p =
     leaf_inputs (ds0 @ ds) \<union>
     (case map_result (leaf_hash A) ds0 of Inl e \<Rightarrow> {} | Inr leaves \<Rightarrow> tree_inputs (sha256 A) leaves) \<union>
     (case map_result (leaf_hash A) ds of Inl e \<Rightarrow> {} | Inr leaves \<Rightarrow> tree_inputs (sha256 A) leaves) \<union>
     (case (hex_decode_array 32 ''approval old public-log root SHA-256'' (root_sha256 (old_tree_head p)),
            map_result (hex_decode_array 32 ''approval consistency node'') (consistency_path p)) of
        (Inr old_tree, Inr path) \<Rightarrow>
          consistency_inputs (sha256 A) (tree_len (old_tree_head p)) (tree_len (new_tree_head p)) True old_tree path 0
      | _ \<Rightarrow> {})"

text \<open>The signed root is the root of the log.\<close>

definition root_of_log :: "anchor_library \<Rightarrow> string list \<Rightarrow> tree_head \<Rightarrow> bool" where
  "root_of_log A ds h \<longleftrightarrow> tree_len h = length ds \<and>
     bind_result (map_result (leaf_hash A) ds) (merkle_root (sha256 A)) = hex_decode_array 32 [] (root_sha256 h)"

lemma leaf_injective:
  assumes "leaf_hash A d = Inr leaf" "leaf_hash A d' = Inr leaf" "inj_on (sha256 A) H" "leaf_inputs [d, d'] \<subseteq> H"
  shows "d = d'"
proof -
  obtain bs where bs: "length bs = 32" "d = hex_encode bs" "leaf = sha256 A (leaf_input bs)" by (rule leaf_hash_Inr[OF assms(1)])
  obtain bs' where bs': "length bs' = 32" "d' = hex_encode bs'" "leaf = sha256 A (leaf_input bs')" by (rule leaf_hash_Inr[OF assms(2)])
  have "leaf_input bs \<in> H" "leaf_input bs' \<in> H" using assms(4) bs(2) bs'(2) by (auto simp: leaf_inputs_def)
  then have "leaf_input bs = leaf_input bs'" using inj_onD[OF assms(3)] bs(3) bs'(3) by metis
  then show ?thesis using bs(2) bs'(2) by (simp add: leaf_input_def)
qed

lemma root_of_log_leaves:
  assumes "root_of_log A ds h" "0 < length ds" "hex_decode_array 32 label (root_sha256 h) = Inr r"
  obtains leaves where "map_result (leaf_hash A) ds = Inr leaves" "length leaves = length ds" "0 < length leaves"
    "r = tree_root (sha256 A) leaves" "tree_len h = length leaves"
proof -
  have "hex_decode_array 32 [] (root_sha256 h) = Inr r" using decode_label[OF assms(3)] .
  then obtain leaves where l: "map_result (leaf_hash A) ds = Inr leaves" "merkle_root (sha256 A) leaves = Inr r" "tree_len h = length ds"
    using assms(1) by (auto simp: root_of_log_def bind_result_Inr)
  have "length leaves = length ds" using l(1) by (simp add: map_result_Inr list_all2_lengthD)
  then show ?thesis using that[OF l(1)] l(2,3) merkle_root_tree[of leaves] assms(2) by simp
qed

lemma sound_anchor:
  assumes "verify_approval_log_anchor_proof A ck p trusted_key = Inr rep" "sha256_law A"
    and "root_of_log A ds (ap_tree_head p)" "inj_on (sha256 A) (anchor_inputs A ds p)"
  shows "leaf_index p < length ds" "signed_approval_log_checkpoint_sha256 (base A) ck = Inr (ds ! leaf_index p)"
proof -
  let ?h = "ap_tree_head p"
  obtain d path leaf reconstructed where v: "signed_approval_log_checkpoint_sha256 (base A) ck = Inr d" "ap_checkpoint_sha256 p = d"
    "validate_sha256 (root_sha256 ?h) ''approval public-log root SHA-256'' = Inr ()" "leaf_index p < tree_len ?h"
    "map_result (hex_decode_array 32 ''approval anchor audit node'') (audit_path p) = Inr path" "leaf_hash A d = Inr leaf"
    "root_from_audit_path (sha256 A) leaf (leaf_index p) (tree_len ?h) path 0 = Inr (reconstructed, length path)"
    "hex_encode reconstructed = root_sha256 ?h"
    using assms(1) by (auto simp: verify_approval_log_anchor_proof_def bind_result_Inr Let_def split: if_splits)
  have len: "tree_len ?h = length ds" using assms(3) by (simp add: root_of_log_def)
  show i: "leaf_index p < length ds" using v(4) len by simp
  then have ds: "0 < length ds" "0 < tree_len ?h" using len by linarith+
  have leaf: "length leaf = 32" using v(6) assms(2) by (auto simp: sha256_law_def elim: leaf_hash_Inr)
  then have "digests (sha256 A) [leaf]" using assms(2) by (simp add: digests_def sha256_law_def)
  then have "length reconstructed = 32" using from_audit_length[OF ds(2) v(7)] by blast
  then have "hex_decode_array 32 [] (root_sha256 ?h) = Inr reconstructed" using decode_encoded v(8) by metis
  then obtain leaves where l: "map_result (leaf_hash A) ds = Inr leaves" "length leaves = length ds" "0 < length leaves"
    "reconstructed = tree_root (sha256 A) leaves" "tree_len ?h = length leaves"
    by (rule root_of_log_leaves[OF assms(3) ds(1)])
  have inputs: "anchor_inputs A ds p = leaf_inputs (d # ds) \<union> tree_inputs (sha256 A) leaves \<union>
      audit_inputs (sha256 A) leaf (leaf_index p) (length leaves) path 0"
    by (simp add: anchor_inputs_def v(2,5,6) l(1,5))
  have "leaf = leaves ! leaf_index p"
    by (rule audit_sound[OF l(3) _ _ _ assms(4), of _ _ path 0 "length path"])
      (use i l v(7) inputs leaves_digests[OF assms(2) l(1)] leaf decoded_path[OF v(5)] in \<open>auto simp: digests_def\<close>)
  moreover have "leaf_hash A (ds ! leaf_index p) = Inr (leaves ! leaf_index p)"
    using l(1,2) i by (simp add: map_result_Inr list_all2_conv_all_nth)
  ultimately have "ds ! leaf_index p = d"
    by (intro leaf_injective[OF _ v(6) assms(4)]) (use inputs i in \<open>auto simp: leaf_inputs_def\<close>)
  then show "signed_approval_log_checkpoint_sha256 (base A) ck = Inr (ds ! leaf_index p)" using v(1) by simp
qed

lemma sound_consistency:
  assumes "verify_approval_log_tree_head_consistency A p trusted_key = Inr rep" "sha256_law A"
    and "root_of_log A ds0 (old_tree_head p)" "root_of_log A ds (new_tree_head p)"
    and "inj_on (sha256 A) (extension_inputs A ds0 ds p)"
  shows "ds0 = take (length ds0) ds"
proof -
  let ?old = "old_tree_head p" and ?new = "new_tree_head p" and ?sha = "sha256 A"
  obtain path old_tree old_again new_tree where v: "validate_consistency_proof p = Inr ()"
    "map_result (hex_decode_array 32 ''approval consistency node'') (consistency_path p) = Inr path"
    "hex_decode_array 32 ''approval old public-log root SHA-256'' (root_sha256 ?old) = Inr old_tree"
    "roots_from_consistency_path ?sha (tree_len ?old) (tree_len ?new) True old_tree path 0 = Inr ((old_again, new_tree), length path)"
    "hex_encode old_again = root_sha256 ?old" "hex_encode new_tree = root_sha256 ?new"
    using assms(1)
    by (auto simp: verify_approval_log_tree_head_consistency_def bind_result_Inr Let_def split: if_splits)
  have shapes: "0 < tree_len ?old" "tree_len ?old \<le> tree_len ?new" "tree_len ?new \<le> MAX_ANCHOR_LEAVES"
    using v(1) by (auto simp: validate_consistency_proof_def validate_tree_head_shape_def validate_consistency_head_pair_def
        bind_result_Inr split: if_splits)
  have lens: "tree_len ?old = length ds0" "tree_len ?new = length ds" using assms(3,4) by (simp_all add: root_of_log_def)
  have ds: "0 < length ds0" "0 < length ds" using shapes lens by linarith+
  have d: "digests ?sha (old_tree # path)"
    using hex_decode_length[OF v(3)] decoded_path[OF v(2)] assms(2) by (simp add: digests_def sha256_law_def)
  have len: "length old_again = 32 \<and> length new_tree = 32" by (rule from_consistency_length[OF shapes(1,2) v(4) d])
  then have new_text: "hex_decode_array 32 [] (root_sha256 ?new) = Inr new_tree" using decode_encoded v(6) by metis
  have "hex_decode_array 32 ''approval old public-log root SHA-256'' (root_sha256 ?old) = Inr old_again"
    using len decode_encoded v(5) by metis
  then have again: "old_again = old_tree" using v(3) by simp
  obtain ms where ms: "map_result (leaf_hash A) ds0 = Inr ms" "length ms = length ds0" "0 < length ms"
    "old_tree = tree_root ?sha ms" "tree_len ?old = length ms"
    by (rule root_of_log_leaves[OF assms(3) ds(1) v(3)])
  obtain ls where ls: "map_result (leaf_hash A) ds = Inr ls" "length ls = length ds" "0 < length ls"
    "new_tree = tree_root ?sha ls" "tree_len ?new = length ls"
    by (rule root_of_log_leaves[OF assms(4) ds(2) new_text])
  have inputs: "extension_inputs A ds0 ds p = leaf_inputs (ds0 @ ds) \<union> tree_inputs ?sha ms \<union> tree_inputs ?sha ls \<union>
      consistency_inputs ?sha (length ms) (length ls) True old_tree path 0"
    by (simp add: extension_inputs_def v(2,3) ms(1,5) ls(1,5))
  have "ms = take (length ms) ls"
  proof (rule consistency_sound[OF ls(3) ms(3)])
    show "length ms \<le> length ls" using shapes(2) ms(5) ls(5) by simp
    show "length ls \<le> 2 ^ 64" using shapes(3) ls(5) small_tree(2) by simp
    show "roots_from_consistency_path ?sha (length ms) (length ls) True old_tree path 0 =
        Inr ((tree_root ?sha ms, tree_root ?sha ls), length path)"
      using v(4) again ms(4,5) ls(4,5) by simp
    show "digests ?sha (old_tree # ms @ ls @ path)"
      using d leaves_digests[OF assms(2) ms(1)] leaves_digests[OF assms(2) ls(1)] by simp
  qed (use assms(5) inputs in auto)
  then have same: "\<forall>i < length ds0. ms ! i = ls ! i" using ms(2) by (metis nth_take)
  show ?thesis
  proof (rule nth_equalityI)
    show "length ds0 = length (take (length ds0) ds)" using shapes(2) lens by simp
    fix i assume i: "i < length ds0"
    then have j: "i < length ds" using shapes(2) lens by simp
    have "leaf_hash A (ds0 ! i) = Inr (ms ! i)" using ms(1) i by (simp add: map_result_Inr list_all2_conv_all_nth)
    moreover have "leaf_hash A (ds ! i) = Inr (ms ! i)"
      using ls(1) j same i by (simp add: map_result_Inr list_all2_conv_all_nth)
    ultimately have "ds0 ! i = ds ! i"
      by (rule leaf_injective[OF _ _ assms(5)]) (use inputs i j in \<open>auto simp: leaf_inputs_def\<close>)
    then show "ds0 ! i = take (length ds0) ds ! i" using i by simp
  qed
qed

lemma create_total:
  assumes "validate_slug name ''approval public-log id'' = Inr ()" "length ds \<le> MAX_ANCHOR_LEAVES" "i < length ds"
    and "all_result (\<lambda>d. validate_sha256 d ''approval public-log checkpoint SHA-256'') ds = Inr ()"
    and "signed_approval_log_checkpoint_sha256 (base A) ck = Inr (ds ! i)"
    and "\<forall>claim. json_head_payload A claim \<noteq> None"
  shows "\<exists>p. create_approval_log_anchor_proof A ck ds i name t secret = Inr p"
proof -
  obtain leaves where l: "map_result (leaf_hash A) ds = Inr leaves" "length leaves = length ds" by (rule leaves_total[OF assms(4)])
  then have i: "0 < length leaves" "i < length leaves" using assms(3) by linarith+
  obtain path where "merkle_audit_path (sha256 A) leaves i = Inr path" using audit_complete[OF i] by blast
  moreover have "ds \<noteq> []" using assms(3) by auto
  moreover have "\<exists>payload. tree_head_payload A name n r t = Inr payload" for n r
    using assms(6) by (auto simp: tree_head_payload_def ok_or_def split: option.splits)
  then obtain payload where "tree_head_payload A name (length leaves) (hex_encode (tree_root (sha256 A) leaves)) t = Inr payload" by blast
  ultimately show ?thesis
    using assms by (simp add: create_approval_log_anchor_proof_def l(1) merkle_root_tree[OF i(1)] not_le not_less)
qed

section \<open>Properties\<close>

text \<open>C25: Whoever holds a log of checkpoint digests and the key can anchor any of its checkpoints: the
  creation returns a proof, and the verification accepts it and reports its position.\<close>

theorem anchor_proof_verifies:
  assumes "signature_law (base A)" "sha256_law A" "\<forall>claim. json_head_payload A claim \<noteq> None"
    and "validate_slug name ''approval public-log id'' = Inr ()" "length ds \<le> MAX_ANCHOR_LEAVES" "i < length ds"
    and "\<forall>d \<in> set ds. validate_sha256 d ''approval public-log checkpoint SHA-256'' = Inr ()"
    and "signed_approval_log_checkpoint_sha256 (base A) ck = Inr (ds ! i)"
  shows "\<exists>p rep. create_approval_log_anchor_proof A ck ds i name t secret = Inr p \<and>
    validate_approval_log_anchor_proof p = Inr () \<and>
    verify_approval_log_anchor_proof A ck p (verifying_key_of (base A) secret) = Inr rep \<and>
    anchored rep \<and> ar_tree_len rep = length ds \<and> ar_leaf_index rep = i \<and> ar_checkpoint_sha256 rep = ds ! i"
proof -
  have "all_result (\<lambda>d. validate_sha256 d ''approval public-log checkpoint SHA-256'') ds = Inr ()"
    using assms(7) by (simp add: all_result_Inr)
  from create_total[OF assms(4-6) this assms(8,3)] obtain p where
    p: "create_approval_log_anchor_proof A ck ds i name t secret = Inr p" by blast
  then show ?thesis using created_anchor_verifies[OF assms(1,2) p] by blast
qed

text \<open>C26: An anchor proof that verifies is true: in every log whose root is the signed one, the leaf at
  the reported position is the digest of the checkpoint, unless SHA-256 collides on the inputs at hand.\<close>

theorem anchor_proof_sound:
  assumes "verify_approval_log_anchor_proof A ck p trusted_key = Inr rep" "sha256_law A"
    and "root_of_log A ds (ap_tree_head p)" "inj_on (sha256 A) (anchor_inputs A ds p)"
  shows "leaf_index p < length ds \<and> signed_approval_log_checkpoint_sha256 (base A) ck = Inr (ds ! leaf_index p)"
  using sound_anchor[OF assms] by blast

text \<open>C27: Two anchors made for a log and for a later state of it have a consistency proof: the creation
  returns it, and the verification accepts it.\<close>

theorem consistency_proof_verifies:
  assumes "signature_law (base A)" "sha256_law A" "m \<le> length ds" "t \<le> t'"
    and "create_approval_log_anchor_proof A ck (take m ds) i name t secret = Inr old"
    and "create_approval_log_anchor_proof A ck' ds j name t' secret = Inr new"
  shows "\<exists>p rep. create_approval_log_consistency_proof A old new ds = Inr p \<and>
    verify_approval_log_consistency_proof A old new p (verifying_key_of (base A) secret) = Inr rep \<and>
    consistent rep \<and> old_tree_len rep = m \<and> new_tree_len rep = length ds"
  by (rule created_consistency_verifies[OF assms])

text \<open>C28: A consistency proof that verifies is true: a log with the old signed root is a prefix of a log
  with the new one, unless SHA-256 collides on the inputs at hand. The public log only grows.\<close>

theorem consistency_proof_sound:
  assumes "verify_approval_log_tree_head_consistency A p trusted_key = Inr rep" "sha256_law A"
    and "root_of_log A ds0 (old_tree_head p)" "root_of_log A ds (new_tree_head p)"
    and "inj_on (sha256 A) (extension_inputs A ds0 ds p)"
  shows "ds0 = take (length ds0) ds"
  by (rule sound_consistency[OF assms])

section \<open>A small public log\<close>

definition toy_public :: anchor_library where
  "toy_public = \<lparr>base = toy_library, sha256 = (\<lambda>m. replicate 32 (if hd m = CHR 0x01 then CHR 0x00 else last m)),
     json_tree_head = (\<lambda>_. Some []), json_head_payload = (\<lambda>_. Some [])\<rparr>"

definition toy_digests :: "string list" where
  "toy_digests = [replicate 64 CHR ''a'', replicate 64 CHR ''b'']"

lemma toy_public_laws: "signature_law (base toy_public)" "sha256_law toy_public" "\<forall>claim. json_head_payload toy_public claim \<noteq> None"
  using toy_laws(1) by (simp_all add: toy_public_def sha256_law_def)

lemma toy_anchor_conditions:
  "validate_slug ''public'' ''approval public-log id'' = Inr ()"
  "\<forall>d \<in> set toy_digests. validate_sha256 d ''approval public-log checkpoint SHA-256'' = Inr ()"
  "signed_approval_log_checkpoint_sha256 (base toy_public) toy_ck = Inr (toy_digests ! 0)"
  "length toy_digests = 2" "2 \<le> MAX_ANCHOR_LEAVES"
proof -
  show "signed_approval_log_checkpoint_sha256 (base toy_public) toy_ck = Inr (toy_digests ! 0)"
    using toy_ck_valid by (simp add: signed_approval_log_checkpoint_sha256_def toy_public_def toy_digests_def) (simp add: toy_library_def)
qed (simp_all add: validate_slug_def slug_char_def slug_start_def toy_digests_def validate_sha256_def list_all_iff lower_hex_def
  MAX_ANCHOR_LEAVES_def)

theorem anchor_proof_verifies_witness:
  "\<exists>p rep. create_approval_log_anchor_proof toy_public toy_ck toy_digests 0 ''public'' 5 [] = Inr p \<and>
    verify_approval_log_anchor_proof toy_public toy_ck p (verifying_key_of toy_library []) = Inr rep \<and> ar_tree_len rep = 2"
  using anchor_proof_verifies[OF toy_public_laws toy_anchor_conditions(1), of toy_digests 0 toy_ck 5 "[]"] toy_anchor_conditions(2-5)
  by (auto simp: toy_public_def)

definition toy_leaf :: "char \<Rightarrow> bytes" where
  "toy_leaf c = replicate 32 c"

lemma encode_replicate: "hex_encode (replicate n c) = concat (replicate n (hex_byte c))"
  by (induction n) (simp_all add: hex_encode_def)

lemma concat_pairs: "concat (replicate n [c, c]) = replicate (2 * n) c"
  by (induction n) simp_all

lemma toy_texts: "toy_digests = [hex_encode (toy_leaf CHR 0xAA), hex_encode (toy_leaf CHR 0xBB)]"
proof -
  have "hex_byte CHR 0xAA = [CHR ''a'', CHR ''a'']" "hex_byte CHR 0xBB = [CHR ''b'', CHR ''b'']"
    by code_simp+
  then show ?thesis by (simp add: toy_digests_def toy_leaf_def encode_replicate concat_pairs)
qed

lemma toy_leaf_length [simp]: "length (toy_leaf c) = 32"
  by (simp add: toy_leaf_def)

lemma toy_hashes:
  "sha256 toy_public (leaf_input (toy_leaf c)) = toy_leaf c" "sha256 toy_public (node_input l r) = toy_leaf CHR 0x00"
  by (simp_all add: toy_public_def leaf_input_def node_input_def toy_leaf_def numeral_nat)

lemma toy_leaves:
  "map_result (leaf_hash toy_public) toy_digests = Inr [toy_leaf CHR 0xAA, toy_leaf CHR 0xBB]"
  "map_result (leaf_hash toy_public) (take 1 toy_digests) = Inr [toy_leaf CHR 0xAA]"
  by (simp_all add: toy_texts leaf_hash_encoded toy_hashes)

lemma toy_halves: "halves (length [l]) (length [r])"
  by (simp add: halves_def largest_power_of_two_less_than_def leading_zeros_def bit_length.simps[of "Suc 0"] bit_length.simps[of 0])

lemma toy_split: "largest_power_of_two_less_than 2 = 1"
  using halvesD(3)[OF toy_halves] by (simp add: numeral_2_eq_2)

lemma toy_tree:
  "tree_root sha [l, r] = node_hash sha l r" "merkle_root sha [l, r] = Inr (node_hash sha l r)"
  "merkle_audit_path sha [l, r] 0 = Inr [r]" "tree_inputs sha [l] = {}" "tree_inputs sha [l, r] = {node_input l r}"
  "merkle_consistency_path sha [l, r] 1 = Inr [r]"
proof -
  note node = toy_halves[of l r]
  show tree: "tree_root sha [l, r] = node_hash sha l r" using tree_root_node[OF node, of sha] by simp
  show "merkle_root sha [l, r] = Inr (node_hash sha l r)" using merkle_root_tree[of "[l, r]" sha] tree by simp
  show "merkle_audit_path sha [l, r] 0 = Inr [r]"
    using audit_path_node[OF node, of sha 0] by (simp add: merkle_audit_path.simps[of sha "[l]"])
  show one: "tree_inputs sha [l] = {}" for l by (simp add: tree_inputs.simps)
  show "tree_inputs sha [l, r] = {node_input l r}" using tree_inputs_node[OF node, of sha] by (simp add: one)
  show "merkle_consistency_path sha [l, r] 1 = Inr [r]"
    using subproof_node[OF node, of 1 sha True] by (simp add: merkle_consistency_path_def consistency_subproof.simps[of sha _ "[l]"])
qed

lemma toy_checks:
  "audit_inputs sha l 0 2 [r] 0 = {node_input l r}" "consistency_inputs sha 1 2 True l [r] 0 = {node_input l r}"
proof -
  have "audit_inputs sha l 0 1 [r] 0 = {}" "consistency_inputs sha 1 1 True l [r] 0 = {}"
    by (simp_all add: audit_inputs.simps consistency_inputs.simps)
  then show "audit_inputs sha l 0 2 [r] 0 = {node_input l r}" "consistency_inputs sha 1 2 True l [r] 0 = {node_input l r}"
    by (simp_all add: audit_inputs.simps[of sha l 0 2] consistency_inputs.simps[of sha "Suc 0" 2] toy_split from_consistency_equal)
qed

lemma toy_leaf_inputs:
  assumes "set ds \<subseteq> set toy_digests"
  shows "leaf_inputs ds \<subseteq> {leaf_input (toy_leaf CHR 0xAA), leaf_input (toy_leaf CHR 0xBB)}"
proof
  fix x assume "x \<in> leaf_inputs ds"
  then obtain bs where bs: "x = leaf_input bs" "hex_encode bs \<in> set toy_digests" using assms by (auto simp: leaf_inputs_def)
  then obtain c where c: "hex_encode bs = hex_encode (toy_leaf c)" "c = CHR 0xAA \<or> c = CHR 0xBB" by (auto simp: toy_texts)
  have "2 * length bs = 2 * length (toy_leaf c)" using c(1) by (metis length_hex_encode)
  then have "bs = toy_leaf c" using hex_encode_inject[OF _ c(1)] by simp
  then show "x \<in> {leaf_input (toy_leaf CHR 0xAA), leaf_input (toy_leaf CHR 0xBB)}" using bs(1) c(2) by auto
qed

lemma toy_injective:
  "inj_on (sha256 toy_public) {leaf_input (toy_leaf CHR 0xAA), leaf_input (toy_leaf CHR 0xBB), node_input l r}"
  by (simp add: toy_hashes inj_on_def) (simp add: toy_leaf_def)

lemma toy_created:
  assumes "create_approval_log_anchor_proof toy_public toy_ck toy_digests 0 ''public'' 5 [] = Inr p"
  shows "leaf_index p = 0" "tree_len (ap_tree_head p) = 2" "root_of_log toy_public toy_digests (ap_tree_head p)"
    "anchor_inputs toy_public toy_digests p \<subseteq>
       {leaf_input (toy_leaf CHR 0xAA), leaf_input (toy_leaf CHR 0xBB), node_input (toy_leaf CHR 0xAA) (toy_leaf CHR 0xBB)}"
proof -
  have f: "ap_checkpoint_sha256 p = toy_digests ! 0 \<and> leaf_index p = 0 \<and> tree_len (ap_tree_head p) = 2 \<and>
      audit_path p = [hex_encode (toy_leaf CHR 0xBB)] \<and> root_sha256 (ap_tree_head p) = hex_encode (toy_leaf CHR 0x00)"
    by (rule anchor_created[OF assms]) (auto simp: toy_leaves(1) toy_tree toy_hashes node_hash_def)
  then show "leaf_index p = 0" "tree_len (ap_tree_head p) = 2" by auto
  show "root_of_log toy_public toy_digests (ap_tree_head p)"
    using f by (simp add: root_of_log_def toy_leaves(1) toy_tree node_hash_def toy_hashes decode_encoded toy_anchor_conditions(4))
  have "leaf_inputs (ap_checkpoint_sha256 p # toy_digests) \<subseteq> {leaf_input (toy_leaf CHR 0xAA), leaf_input (toy_leaf CHR 0xBB)}"
    by (rule toy_leaf_inputs) (simp add: f toy_texts)
  then show "anchor_inputs toy_public toy_digests p \<subseteq>
       {leaf_input (toy_leaf CHR 0xAA), leaf_input (toy_leaf CHR 0xBB), node_input (toy_leaf CHR 0xAA) (toy_leaf CHR 0xBB)}"
    using f by (auto simp: anchor_inputs_def toy_leaves(1) toy_tree toy_checks toy_texts leaf_hash_encoded toy_hashes decode_encoded)
qed

lemma toy_created_old:
  assumes "create_approval_log_anchor_proof toy_public toy_ck (take 1 toy_digests) 0 ''public'' 5 [] = Inr p"
  shows "tree_len (ap_tree_head p) = 1" "root_sha256 (ap_tree_head p) = hex_encode (toy_leaf CHR 0xAA)"
    "root_of_log toy_public (take 1 toy_digests) (ap_tree_head p)"
proof -
  have f: "tree_len (ap_tree_head p) = 1 \<and> root_sha256 (ap_tree_head p) = hex_encode (toy_leaf CHR 0xAA)"
    by (rule anchor_created[OF assms]) (auto simp: toy_leaves(2)[simplified])
  then show "tree_len (ap_tree_head p) = 1" "root_sha256 (ap_tree_head p) = hex_encode (toy_leaf CHR 0xAA)" by auto
  show "root_of_log toy_public (take 1 toy_digests) (ap_tree_head p)"
    using f toy_leaves(2) by (simp add: root_of_log_def toy_tree decode_encoded toy_anchor_conditions(4) merkle_root.simps)
qed

theorem anchor_proof_sound_witness:
  "\<exists>p rep. verify_approval_log_anchor_proof toy_public toy_ck p (verifying_key_of toy_library []) = Inr rep \<and>
    root_of_log toy_public toy_digests (ap_tree_head p) \<and>
    signed_approval_log_checkpoint_sha256 (base toy_public) toy_ck = Inr (toy_digests ! leaf_index p)"
proof -
  obtain p where p: "create_approval_log_anchor_proof toy_public toy_ck toy_digests 0 ''public'' 5 [] = Inr p"
    using create_total[OF toy_anchor_conditions(1), of toy_digests 0 toy_public toy_ck 5 "[]"] toy_anchor_conditions(2-5) toy_public_laws(3)
    by (auto simp: all_result_Inr)
  note t = toy_created[OF p]
  obtain rep where rep: "verify_approval_log_anchor_proof toy_public toy_ck p (verifying_key_of toy_library []) = Inr rep"
    using created_anchor_verifies(1)[OF toy_public_laws(1,2) p] by (auto simp: toy_public_def)
  show ?thesis
    using anchor_proof_sound[OF rep toy_public_laws(2) t(3) inj_on_subset[OF toy_injective t(4)]] rep t(3) by blast
qed

lemma toy_anchors:
  obtains old new where
    "create_approval_log_anchor_proof toy_public toy_ck (take 1 toy_digests) 0 ''public'' 5 [] = Inr old"
    "create_approval_log_anchor_proof toy_public toy_ck toy_digests 0 ''public'' 5 [] = Inr new"
proof -
  have "\<exists>p. create_approval_log_anchor_proof toy_public toy_ck (take n toy_digests) 0 ''public'' 5 [] = Inr p" if "0 < n" for n
  proof (rule create_total[OF toy_anchor_conditions(1)])
    show "all_result (\<lambda>d. validate_sha256 d ''approval public-log checkpoint SHA-256'') (take n toy_digests) = Inr ()"
      using toy_anchor_conditions(2) by (auto simp: all_result_Inr dest: in_set_takeD)
    show "signed_approval_log_checkpoint_sha256 (base toy_public) toy_ck = Inr (take n toy_digests ! 0)"
      using toy_anchor_conditions(3) that by simp
  qed (use that toy_anchor_conditions(4,5) toy_public_laws(3) in auto)
  from this[of 1] this[of 2] show ?thesis using that toy_anchor_conditions(4) by auto
qed

theorem consistency_proof_verifies_witness:
  "\<exists>old new p rep. create_approval_log_anchor_proof toy_public toy_ck (take 1 toy_digests) 0 ''public'' 5 [] = Inr old \<and>
    create_approval_log_anchor_proof toy_public toy_ck toy_digests 0 ''public'' 5 [] = Inr new \<and>
    create_approval_log_consistency_proof toy_public old new toy_digests = Inr p \<and>
    verify_approval_log_consistency_proof toy_public old new p (verifying_key_of (base toy_public) []) = Inr rep \<and>
    old_tree_len rep = 1 \<and> new_tree_len rep = 2"
proof -
  obtain old new where a:
    "create_approval_log_anchor_proof toy_public toy_ck (take 1 toy_digests) 0 ''public'' 5 [] = Inr old"
    "create_approval_log_anchor_proof toy_public toy_ck toy_digests 0 ''public'' 5 [] = Inr new" by (rule toy_anchors)
  show ?thesis
    using consistency_proof_verifies[OF toy_public_laws(1,2) _ _ a] a toy_anchor_conditions(4) by auto
qed

theorem consistency_proof_sound_witness:
  "\<exists>p rep. verify_approval_log_tree_head_consistency toy_public p (verifying_key_of (base toy_public) []) = Inr rep \<and>
    root_of_log toy_public (take 1 toy_digests) (old_tree_head p) \<and> root_of_log toy_public toy_digests (new_tree_head p) \<and>
    take 1 toy_digests = take (length (take 1 toy_digests)) toy_digests"
proof -
  obtain old new where a:
    "create_approval_log_anchor_proof toy_public toy_ck (take 1 toy_digests) 0 ''public'' 5 [] = Inr old"
    "create_approval_log_anchor_proof toy_public toy_ck toy_digests 0 ''public'' 5 [] = Inr new" by (rule toy_anchors)
  obtain p rep where p: "create_approval_log_consistency_proof toy_public old new toy_digests = Inr p"
    "verify_approval_log_consistency_proof toy_public old new p (verifying_key_of (base toy_public) []) = Inr rep"
    using created_consistency_verifies[OF toy_public_laws(1,2) _ _ a] toy_anchor_conditions(4) by auto
  have v: "verify_approval_log_tree_head_consistency toy_public p (verifying_key_of (base toy_public) []) = Inr rep"
    and heads: "old_tree_head p = ap_tree_head old" "new_tree_head p = ap_tree_head new"
    using p(2) by (auto simp: verify_approval_log_consistency_proof_def bind_result_Inr split: if_splits)
  note o = toy_created_old[OF a(1)] and n = toy_created[OF a(2)]
  have path: "consistency_path p = [hex_encode (toy_leaf CHR 0xBB)]"
    using p(1) by (auto simp: create_approval_log_consistency_proof_def bind_result_Inr Let_def toy_leaves(1) o toy_tree toy_tree(6)[simplified] split: if_splits)
  have leaves: "leaf_inputs (take 1 toy_digests @ toy_digests) \<subseteq> {leaf_input (toy_leaf CHR 0xAA), leaf_input (toy_leaf CHR 0xBB)}"
    by (rule toy_leaf_inputs) (auto dest: in_set_takeD)
  have "extension_inputs toy_public (take 1 toy_digests) toy_digests p \<subseteq>
      {leaf_input (toy_leaf CHR 0xAA), leaf_input (toy_leaf CHR 0xBB), node_input (toy_leaf CHR 0xAA) (toy_leaf CHR 0xBB)}"
    using leaves
    by (auto simp: extension_inputs_def toy_leaves[simplified] toy_tree toy_checks[simplified] heads o n path decode_encoded)
  then show ?thesis
    using consistency_proof_sound[OF v toy_public_laws(2) o(3)[folded heads] n(3)[folded heads] inj_on_subset[OF toy_injective]]
      v o(3) n(3) heads by metis
qed

end
