(* ===== verification/Sexp.thy ===== *)
theory Sexp
  imports Prelude
begin

text \<open>
  The S-expression parser for untrusted KiCad files, \<open>crates/pcbex-kicad/src/sexp.rs\<close>: the lexer with
  its byte cursor, the iterative parser with its explicit stack, the limits on bytes, tokens, atoms,
  nesting and list lengths, and the scanner for the spans of lists. A text is the list of its Unicode
  scalar values; positions count UTF-8 bytes. Memory is assumed to suffice: \<open>try_reserve\<close> succeeds.
\<close>

section \<open>Texts and positions\<close>

type_synonym scalar = nat
type_synonym utext = "scalar list"

definition len_utf8 :: "scalar \<Rightarrow> nat" where
  "len_utf8 c = (if c < 0x80 then 1 else if c < 0x800 then 2 else if c < 0x10000 then 3 else 4)"

text \<open>\<open>char::is_whitespace\<close>, the Unicode property White_Space.\<close>

definition is_whitespace :: "scalar \<Rightarrow> bool" where
  "is_whitespace c \<longleftrightarrow> (9 \<le> c \<and> c \<le> 13) \<or> c = 0x20 \<or> c = 0x85 \<or> c = 0xA0 \<or> c = 0x1680 \<or> (0x2000 \<le> c \<and> c \<le> 0x200A) \<or>
     c = 0x2028 \<or> c = 0x2029 \<or> c = 0x202F \<or> c = 0x205F \<or> c = 0x3000"

abbreviation "open_paren \<equiv> (0x28 :: scalar)"
abbreviation "close_paren \<equiv> (0x29 :: scalar)"
abbreviation "quote_mark \<equiv> (0x22 :: scalar)"
abbreviation "backslash \<equiv> (0x5C :: scalar)"

definition byte_len :: "utext \<Rightarrow> nat" where
  "byte_len s = sum_list (map len_utf8 s)"

text \<open>\<open>source.get(position..)\<close>: the rest from a byte position, if it is a character boundary.\<close>

fun text_from :: "utext \<Rightarrow> nat \<Rightarrow> utext option" where
  "text_from s 0 = Some s"
| "text_from [] (Suc n) = None"
| "text_from (c # s) (Suc n) = (if len_utf8 c \<le> Suc n then text_from s (Suc n - len_utf8 c) else None)"

definition char_at :: "utext \<Rightarrow> nat \<Rightarrow> scalar option" where
  "char_at s i = (case text_from s i of None \<Rightarrow> None | Some [] \<Rightarrow> None | Some (c # r) \<Rightarrow> Some c)"

fun text_upto :: "utext \<Rightarrow> nat \<Rightarrow> utext option" where
  "text_upto s 0 = Some []"
| "text_upto [] (Suc n) = None"
| "text_upto (c # s) (Suc n) =
     (if len_utf8 c \<le> Suc n then map_option ((#) c) (text_upto s (Suc n - len_utf8 c)) else None)"

definition text_between :: "utext \<Rightarrow> nat \<Rightarrow> nat \<Rightarrow> utext option" where
  "text_between s i j = (if i \<le> j then Option.bind (text_from s i) (\<lambda>r. text_upto r (j - i)) else None)"

lemma len_utf8_pos [simp]: "0 < len_utf8 c"
  by (simp add: len_utf8_def)

section \<open>Values, limits and tokens\<close>

datatype sexp = Atom utext | Quoted_Atom utext | List_Of "sexp list"

definition as_list :: "sexp \<Rightarrow> sexp list option" where
  "as_list v = (case v of List_Of vs \<Rightarrow> Some vs | _ \<Rightarrow> None)"

record sexp_limits =
  input_bytes :: nat
  token_limit :: nat
  atom_bytes :: nat
  nesting_depth :: nat
  direct_limit :: nat
  span_limit :: nat

definition default_limits :: sexp_limits where
  "default_limits = \<lparr>input_bytes = 128 * 1024 * 1024, token_limit = 4000000, atom_bytes = 4 * 1024 * 1024, nesting_depth = 128,
     direct_limit = 1000000, span_limit = 1000000\<rparr>"

datatype token = Open | Close | Atom_Token utext | Quoted_Token utext

record lexer =
  source :: utext
  position :: nat
  token_count :: nat
  limits :: sexp_limits

datatype sexp_error =
    Input_Too_Long | Too_Many_Tokens | Invalid_Cursor | Invalid_Boundary | Atom_Too_Long | Unterminated_Escape
  | Unterminated_String | Trailing_Tokens | Too_Many_Elements | Too_Many_Roots | Too_Deep | Unexpected_Close
  | Unexpected_End | Too_Many_Spans | Unbalanced | Unterminated_Document

section \<open>The lexer\<close>

definition new_lexer :: "utext \<Rightarrow> sexp_limits \<Rightarrow> sexp_error + lexer" where
  "new_lexer s lims =
     (if input_bytes lims < byte_len s then Inl Input_Too_Long
      else Inr \<lparr>source = s, position = 0, token_count = 0, limits = lims\<rparr>)"

function skip_whitespace :: "utext \<Rightarrow> nat \<Rightarrow> nat" where
  "skip_whitespace s i =
     (if i < byte_len s
      then (case char_at s i of None \<Rightarrow> i
        | Some c \<Rightarrow> if is_whitespace c then skip_whitespace s (i + len_utf8 c) else i)
      else i)"
  by pat_completeness auto
termination by (relation "measure (\<lambda>(s, i). byte_len s - i)") (auto intro!: diff_less_mono2)

function has_non_whitespace :: "utext \<Rightarrow> nat \<Rightarrow> bool" where
  "has_non_whitespace s i =
     (if i < byte_len s
      then (case char_at s i of None \<Rightarrow> False
        | Some c \<Rightarrow> if is_whitespace c then has_non_whitespace s (i + len_utf8 c) else True)
      else False)"
  by pat_completeness auto
termination by (relation "measure (\<lambda>(s, i). byte_len s - i)") (auto intro!: diff_less_mono2)

function next_is_value :: "utext \<Rightarrow> nat \<Rightarrow> bool" where
  "next_is_value s i =
     (if i < byte_len s
      then (case char_at s i of None \<Rightarrow> False
        | Some c \<Rightarrow> if is_whitespace c then next_is_value s (i + len_utf8 c) else c \<noteq> close_paren)
      else False)"
  by pat_completeness auto
termination by (relation "measure (\<lambda>(s, i). byte_len s - i)") (auto intro!: diff_less_mono2)

definition atom_stop :: "scalar \<Rightarrow> bool" where
  "atom_stop c \<longleftrightarrow> is_whitespace c \<or> c = open_paren \<or> c = close_paren"

function atom_end :: "utext \<Rightarrow> nat \<Rightarrow> sexp_error + nat" where
  "atom_end s i =
     (if i < byte_len s
      then (case char_at s i of None \<Rightarrow> Inl Invalid_Cursor
        | Some c \<Rightarrow> if atom_stop c then Inr i else atom_end s (i + len_utf8 c))
      else Inr i)"
  by pat_completeness auto
termination by (relation "measure (\<lambda>(s, i). byte_len s - i)") (auto intro!: diff_less_mono2)

definition push_decoded :: "sexp_limits \<Rightarrow> utext \<Rightarrow> scalar \<Rightarrow> sexp_error + utext" where
  "push_decoded lims v c = (if atom_bytes lims < byte_len v + len_utf8 c then Inl Atom_Too_Long else Inr (v @ [c]))"

text \<open>The loop of \<open>quoted_atom\<close> behind the opening quote.\<close>

function quoted_loop :: "sexp_limits \<Rightarrow> utext \<Rightarrow> nat \<Rightarrow> utext \<Rightarrow> sexp_error + utext \<times> nat" where
  "quoted_loop lims s i v =
     (if i < byte_len s
      then (case char_at s i of None \<Rightarrow> Inl Invalid_Cursor
        | Some c \<Rightarrow>
            if c = quote_mark then Inr (v, i + len_utf8 c)
            else if c = backslash
            then (case char_at s (i + len_utf8 c) of None \<Rightarrow> Inl Unterminated_Escape
              | Some e \<Rightarrow> bind_result (push_decoded lims v e) (quoted_loop lims s (i + len_utf8 c + len_utf8 e)))
            else bind_result (push_decoded lims v c) (quoted_loop lims s (i + len_utf8 c)))
      else Inl Unterminated_String)"
  by pat_completeness auto
termination by (relation "measure (\<lambda>(lims, s, i, v). byte_len s - i)") (auto intro!: diff_less_mono2)

definition quoted_atom :: "lexer \<Rightarrow> sexp_error + utext \<times> nat" where
  "quoted_atom lx = quoted_loop (limits lx) (source lx) (position lx + 1) []"

definition bump_token_count :: "lexer \<Rightarrow> sexp_error + lexer" where
  "bump_token_count lx =
     (if token_limit (limits lx) \<le> token_count lx then Inl Too_Many_Tokens
      else Inr (lx\<lparr>token_count := token_count lx + 1\<rparr>))"

definition next_token :: "lexer \<Rightarrow> sexp_error + token option \<times> lexer" where
  "next_token lx0 =
     (let lx = lx0\<lparr>position := skip_whitespace (source lx0) (position lx0)\<rparr>; start = position lx in
      if start = byte_len (source lx) then Inr (None, lx)
      else if token_limit (limits lx) \<le> token_count lx then Inl Too_Many_Tokens
      else
        bind_result (ok_or Invalid_Cursor (char_at (source lx) start)) (\<lambda>c.
        bind_result
          (if c = open_paren then Inr (Open, start + 1)
           else if c = close_paren then Inr (Close, start + 1)
           else if c = quote_mark then bind_result (quoted_atom lx) (\<lambda>(v, i). Inr (Quoted_Token v, i))
           else
             bind_result (atom_end (source lx) (start + len_utf8 c)) (\<lambda>i.
             bind_result (ok_or Invalid_Boundary (text_between (source lx) start i)) (\<lambda>atom.
             if atom_bytes (limits lx) < byte_len atom then Inl Atom_Too_Long else Inr (Atom_Token atom, i))))
          (\<lambda>(tok, i).
        bind_result (bump_token_count (lx\<lparr>position := i\<rparr>)) (\<lambda>lx.
        Inr (Some tok, lx)))))"

declare skip_whitespace.simps [simp del] has_non_whitespace.simps [simp del] next_is_value.simps [simp del]
  atom_end.simps [simp del] quoted_loop.simps [simp del]

section \<open>The parser\<close>

record frame =
  frame_values :: "sexp list"
  direct_elements :: nat

datatype root_mode = Sequence | Document

text \<open>The stack has its innermost frame first.\<close>

record parser =
  roots :: "sexp list"
  root_count :: nat
  stack :: "frame list"

definition add_direct_element :: "nat \<Rightarrow> nat \<Rightarrow> sexp list \<Rightarrow> sexp \<Rightarrow> sexp_error + nat \<times> sexp list" where
  "add_direct_element k limit vs v = (if limit \<le> k then Inl Too_Many_Elements else Inr (k + 1, vs @ [v]))"

definition take_value :: "sexp_limits \<Rightarrow> root_mode \<Rightarrow> sexp \<Rightarrow> parser \<Rightarrow> sexp_error + parser" where
  "take_value lims mode v ps =
     (if stack ps = [] \<and> mode = Document \<and> root_count ps \<noteq> 0 then Inl Trailing_Tokens
      else case stack ps of
        f # fs \<Rightarrow>
          bind_result (add_direct_element (direct_elements f) (direct_limit lims) (frame_values f) v) (\<lambda>(k, vs).
          Inr (ps\<lparr>stack := \<lparr>frame_values = vs, direct_elements = k\<rparr> # fs\<rparr>))
      | [] \<Rightarrow>
          bind_result (add_direct_element (root_count ps) (direct_limit lims) (roots ps) v) (\<lambda>(k, vs).
          Inr (ps\<lparr>root_count := k, roots := vs\<rparr>)))"

definition take_token :: "sexp_limits \<Rightarrow> root_mode \<Rightarrow> token \<Rightarrow> parser \<Rightarrow> sexp_error + parser" where
  "take_token lims mode tok ps =
     (case tok of
        Open \<Rightarrow>
          if stack ps = [] \<and> mode = Document \<and> root_count ps \<noteq> 0 then Inl Trailing_Tokens
          else if nesting_depth lims \<le> length (stack ps) then Inl Too_Deep
          else
            bind_result
              (case stack ps of
                 f # fs \<Rightarrow>
                   if direct_limit lims \<le> direct_elements f then Inl Too_Many_Elements
                   else Inr (ps\<lparr>stack := f\<lparr>direct_elements := direct_elements f + 1\<rparr> # fs\<rparr>)
               | [] \<Rightarrow>
                   if direct_limit lims \<le> root_count ps then Inl Too_Many_Roots
                   else Inr (ps\<lparr>root_count := root_count ps + 1\<rparr>))
              (\<lambda>ps. Inr (ps\<lparr>stack := \<lparr>frame_values = [], direct_elements = 0\<rparr> # stack ps\<rparr>))
      | Close \<Rightarrow>
          (case stack ps of
             [] \<Rightarrow> if mode = Document \<and> root_count ps \<noteq> 0 then Inl Trailing_Tokens else Inl Unexpected_Close
           | f # [] \<Rightarrow> Inr (ps\<lparr>roots := roots ps @ [List_Of (frame_values f)], stack := []\<rparr>)
           | f # p # fs \<Rightarrow> Inr (ps\<lparr>stack := p\<lparr>frame_values := frame_values p @ [List_Of (frame_values f)]\<rparr> # fs\<rparr>))
      | Atom_Token a \<Rightarrow> take_value lims mode (Atom a) ps
      | Quoted_Token a \<Rightarrow> take_value lims mode (Quoted_Atom a) ps)"

definition direct_count :: "parser \<Rightarrow> nat" where
  "direct_count ps = (case stack ps of [] \<Rightarrow> root_count ps | f # fs \<Rightarrow> direct_elements f)"

lemma next_token_count:
  assumes "next_token lx = Inr (Some tok, lx')"
  shows "token_count lx' = Suc (token_count lx)" "token_count lx < token_limit (limits lx)"
    "limits lx' = limits lx" "source lx' = source lx"
  using assms by (auto simp: next_token_def Let_def bind_result_Inr bump_token_count_def split: if_splits)

lemma next_token_measure:
  "next_token lx = Inr (Some tok, lx') \<Longrightarrow>
    token_limit (limits lx') - token_count lx' < token_limit (limits lx) - token_count lx"
  using next_token_count[of lx tok lx'] by simp

text \<open>The loop ends because every token is counted.\<close>

function parse_loop :: "root_mode \<Rightarrow> lexer \<Rightarrow> parser \<Rightarrow> sexp_error + sexp list" where
  "parse_loop mode lx ps =
     (if mode = Document \<and> stack ps = [] \<and> root_count ps \<noteq> 0 \<and> has_non_whitespace (source lx) (position lx)
      then Inl Trailing_Tokens
      else if next_is_value (source lx) (position lx) \<and> direct_limit (limits lx) \<le> direct_count ps
      then Inl Too_Many_Elements
      else
        case next_token lx of
          Inl e \<Rightarrow> Inl e
        | Inr (None, lx') \<Rightarrow> if stack ps \<noteq> [] then Inl Unexpected_End else Inr (roots ps)
        | Inr (Some tok, lx') \<Rightarrow>
            (case take_token (limits lx) mode tok ps of Inl e \<Rightarrow> Inl e | Inr ps' \<Rightarrow> parse_loop mode lx' ps'))"
  by pat_completeness auto
termination
  by (relation "measure (\<lambda>(mode, lx, ps). token_limit (limits lx) - token_count lx)") (auto dest: next_token_measure)

declare parse_loop.simps [simp del]

definition parse_with_limits :: "utext \<Rightarrow> sexp_limits \<Rightarrow> root_mode \<Rightarrow> sexp_error + sexp list" where
  "parse_with_limits s lims mode =
     bind_result (new_lexer s lims) (\<lambda>lx. parse_loop mode lx \<lparr>roots = [], root_count = 0, stack = []\<rparr>)"

definition parse_sequence :: "utext \<Rightarrow> sexp_error + sexp list" where
  "parse_sequence s = parse_with_limits s default_limits Sequence"

definition parse_document :: "utext \<Rightarrow> sexp_error + sexp" where
  "parse_document s =
     bind_result (parse_with_limits s default_limits Document) (\<lambda>vs.
     case vs of [] \<Rightarrow> Inl Unexpected_End | [v] \<Rightarrow> Inr v | _ \<Rightarrow> Inl Trailing_Tokens)"

section \<open>Spans of lists\<close>

function skip_head_space :: "utext \<Rightarrow> nat \<Rightarrow> sexp_error + nat" where
  "skip_head_space s i =
     (if i < byte_len s
      then (case char_at s i of None \<Rightarrow> Inl Invalid_Cursor
        | Some c \<Rightarrow> if is_whitespace c then skip_head_space s (i + len_utf8 c) else Inr i)
      else Inr i)"
  by pat_completeness auto
termination by (relation "measure (\<lambda>(s, i). byte_len s - i)") (auto intro!: diff_less_mono2)

text \<open>The quoted name of a list is compared while it is decoded.\<close>

function quoted_head :: "utext \<Rightarrow> nat \<Rightarrow> utext \<Rightarrow> sexp_error + bool" where
  "quoted_head s i name =
     (if i < byte_len s
      then (case char_at s i of None \<Rightarrow> Inl Invalid_Cursor
        | Some c \<Rightarrow>
            if c = backslash
            then (case char_at s (i + len_utf8 c) of None \<Rightarrow> Inr False
              | Some e \<Rightarrow> (case name of [] \<Rightarrow> Inr False
                  | n # ns \<Rightarrow> if n = e then quoted_head s (i + len_utf8 c + len_utf8 e) ns else Inr False))
            else if c = quote_mark then Inr (name = [])
            else (case name of [] \<Rightarrow> Inr False
              | n # ns \<Rightarrow> if n = c then quoted_head s (i + len_utf8 c) ns else Inr False))
      else Inr False)"
  by pat_completeness auto
termination by (relation "measure (\<lambda>(s, i, name). byte_len s - i)") (auto intro!: diff_less_mono2)

definition list_head_matches :: "utext \<Rightarrow> nat \<Rightarrow> utext \<Rightarrow> sexp_error + bool" where
  "list_head_matches s open_at name =
     bind_result (skip_head_space s (open_at + 1)) (\<lambda>i.
     case char_at s i of None \<Rightarrow> Inr (name = [])
     | Some first \<Rightarrow>
         if first \<noteq> quote_mark
         then bind_result (atom_end s i) (\<lambda>j. Inr (text_between s i j = Some name))
         else quoted_head s (i + len_utf8 first) name)"

record scanner =
  scan_depth :: nat
  scan_stack :: "(nat \<times> nat \<times> bool) list"
  spans :: "(nat \<times> nat) list"
  in_quotes :: bool
  after_escape :: bool
  token_start :: bool

text \<open>One round of the scan at a character; the index moves on by the length of the character.\<close>

definition scan_char :: "utext \<Rightarrow> utext \<Rightarrow> nat \<Rightarrow> sexp_limits \<Rightarrow> nat \<Rightarrow> scalar \<Rightarrow> scanner \<Rightarrow> sexp_error + scanner" where
  "scan_char s name target lims i c st =
     (if in_quotes st
      then Inr (if after_escape st then st\<lparr>after_escape := False\<rparr>
        else if c = backslash then st\<lparr>after_escape := True\<rparr>
        else if c = quote_mark then st\<lparr>in_quotes := False, token_start := True\<rparr>
        else st)
      else if c = quote_mark \<and> token_start st then Inr (st\<lparr>in_quotes := True, token_start := False\<rparr>)
      else if c = open_paren
      then
        if nesting_depth lims \<le> scan_depth st then Inl Too_Deep
        else
          bind_result (list_head_matches s i name) (\<lambda>matches.
          Inr (st\<lparr>scan_depth := scan_depth st + 1, scan_stack := (i, scan_depth st + 1, matches) # scan_stack st, token_start := True\<rparr>))
      else if c = close_paren
      then
        (case scan_stack st of [] \<Rightarrow> Inl Unbalanced
         | (start, depth, matches) # rest \<Rightarrow>
             bind_result
               (if matches \<and> depth = target
                then if span_limit lims \<le> length (spans st) then Inl Too_Many_Spans else Inr (spans st @ [(start, i + 1)])
                else Inr (spans st)) (\<lambda>found.
             if scan_depth st = 0 then Inl Unbalanced
             else Inr (st\<lparr>scan_stack := rest, spans := found, scan_depth := scan_depth st - 1, token_start := True\<rparr>)))
      else if is_whitespace c then Inr (st\<lparr>token_start := True\<rparr>)
      else Inr (st\<lparr>token_start := False\<rparr>))"

function scan_loop :: "utext \<Rightarrow> utext \<Rightarrow> nat \<Rightarrow> sexp_limits \<Rightarrow> nat \<Rightarrow> scanner \<Rightarrow> sexp_error + scanner" where
  "scan_loop s name target lims i st =
     (if i < byte_len s
      then (case char_at s i of None \<Rightarrow> Inl Invalid_Cursor
        | Some c \<Rightarrow>
            (case scan_char s name target lims i c st of Inl e \<Rightarrow> Inl e
             | Inr st' \<Rightarrow> scan_loop s name target lims (i + len_utf8 c) st'))
      else Inr st)"
  by pat_completeness auto
termination by (relation "measure (\<lambda>(s, name, target, lims, i, st). byte_len s - i)") (auto intro!: diff_less_mono2)

declare skip_head_space.simps [simp del] quoted_head.simps [simp del] scan_loop.simps [simp del]

definition scan_list_spans_with_limits :: "utext \<Rightarrow> utext \<Rightarrow> nat \<Rightarrow> sexp_limits \<Rightarrow> sexp_error + (nat \<times> nat) list" where
  "scan_list_spans_with_limits s name target lims =
     (if input_bytes lims < byte_len s then Inl Input_Too_Long
      else if nesting_depth lims < target then Inl Too_Deep
      else
        bind_result (scan_loop s name target lims 0
          \<lparr>scan_depth = 0, scan_stack = [], spans = [], in_quotes = False, after_escape = False, token_start = True\<rparr>) (\<lambda>st.
        if in_quotes st \<or> after_escape st \<or> scan_depth st \<noteq> 0 then Inl Unterminated_Document else Inr (spans st)))"

definition list_spans :: "utext \<Rightarrow> utext \<Rightarrow> nat \<Rightarrow> sexp_error + (nat \<times> nat) list" where
  "list_spans s name target = scan_list_spans_with_limits s name target default_limits"

section \<open>The cursor at a character\<close>

text \<open>The functions of the lexer, seen on the rest of the text behind the cursor.\<close>

lemma byte_len_simps [simp]: "byte_len [] = 0" "byte_len (c # s) = len_utf8 c + byte_len s" "byte_len (s @ t) = byte_len s + byte_len t"
  by (simp_all add: byte_len_def)

lemma byte_len_pos [simp]: "0 < byte_len s \<longleftrightarrow> s \<noteq> []"
  by (cases s) (simp_all add: add_pos_nonneg)

lemma len_utf8_Suc: "\<exists>n. len_utf8 c = Suc n"
  using len_utf8_pos[of c] by (cases "len_utf8 c") auto

lemma text_from_append [simp]: "text_from (pre @ rest) (byte_len pre) = Some rest"
proof (induction pre)
  case (Cons c pre)
  obtain n where n: "len_utf8 c = Suc n" using len_utf8_Suc by blast
  then have "len_utf8 c + byte_len pre = Suc (n + byte_len pre)" by simp
  moreover have "Suc (n + byte_len pre) - len_utf8 c = byte_len pre" using n by simp
  ultimately show ?case using Cons n by simp
qed simp

lemma text_upto_append [simp]: "text_upto (a @ b) (byte_len a) = Some a"
proof (induction a)
  case (Cons c a)
  obtain n where n: "len_utf8 c = Suc n" using len_utf8_Suc by blast
  then have "len_utf8 c + byte_len a = Suc (n + byte_len a)" by simp
  moreover have "Suc (n + byte_len a) - len_utf8 c = byte_len a" using n by simp
  ultimately show ?case using Cons n by simp
qed simp

lemma text_between_append: "text_between (pre @ a @ b) (byte_len pre) (byte_len pre + byte_len a) = Some a"
  by (simp add: text_between_def)

lemma char_at_append [simp]: "char_at (pre @ rest) (byte_len pre) = (case rest of [] \<Rightarrow> None | c # r \<Rightarrow> Some c)"
  by (simp add: char_at_def)

lemma next_cursor: "byte_len pre + len_utf8 c = byte_len (pre @ [c])" "pre @ c # rest = (pre @ [c]) @ rest"
  by simp_all

lemma skip_whitespace_append:
  "skip_whitespace (pre @ rest) (byte_len pre) = byte_len (pre @ takeWhile is_whitespace rest)"
proof (induction rest arbitrary: pre)
  case (Cons c rest)
  show ?case
    using Cons[of "pre @ [c]"] by (subst skip_whitespace.simps) (simp add: char_at_append[of pre "c # rest", simplified])
qed (simp add: skip_whitespace.simps)

lemma has_non_whitespace_append:
  "has_non_whitespace (pre @ rest) (byte_len pre) \<longleftrightarrow> dropWhile is_whitespace rest \<noteq> []"
proof (induction rest arbitrary: pre)
  case (Cons c rest)
  show ?case
    using Cons[of "pre @ [c]"] by (subst has_non_whitespace.simps) (simp add: char_at_append[of pre "c # rest", simplified])
qed (simp add: has_non_whitespace.simps)

lemma next_is_value_append:
  "next_is_value (pre @ rest) (byte_len pre) \<longleftrightarrow>
    (case dropWhile is_whitespace rest of [] \<Rightarrow> False | c # r \<Rightarrow> c \<noteq> close_paren)"
proof (induction rest arbitrary: pre)
  case (Cons c rest)
  show ?case
    using Cons[of "pre @ [c]"] by (subst next_is_value.simps) (simp add: char_at_append[of pre "c # rest", simplified])
qed (simp add: next_is_value.simps)

lemma atom_end_append:
  "atom_end (pre @ rest) (byte_len pre) = Inr (byte_len (pre @ takeWhile (\<lambda>c. \<not> atom_stop c) rest))"
proof (induction rest arbitrary: pre)
  case (Cons c rest)
  show ?case
    using Cons[of "pre @ [c]"] by (subst atom_end.simps) (simp add: char_at_append[of pre "c # rest", simplified])
qed (simp add: atom_end.simps)

section \<open>Tokens of a text\<close>

fun unquote :: "utext \<Rightarrow> (utext \<times> utext) option" where
  "unquote [] = None"
| "unquote (c # s) =
     (if c = quote_mark then Some ([], s)
      else if c = backslash
      then (case s of [] \<Rightarrow> None | e # r \<Rightarrow> map_option (apfst ((#) e)) (unquote r))
      else map_option (apfst ((#) c)) (unquote s))"

definition first_token :: "scalar \<Rightarrow> utext \<Rightarrow> (token \<times> utext) option" where
  "first_token c s =
     (if c = open_paren then Some (Open, s)
      else if c = close_paren then Some (Close, s)
      else if c = quote_mark then map_option (apfst Quoted_Token) (unquote s)
      else Some (Atom_Token (c # takeWhile (\<lambda>c. \<not> atom_stop c) s), dropWhile (\<lambda>c. \<not> atom_stop c) s))"

lemma unquote_length: "unquote s = Some (v, r) \<Longrightarrow> length r < length s"
  by (induction s arbitrary: v r rule: unquote.induct) (force split: if_splits list.splits)+

lemma first_token_length: "first_token c s = Some (tok, r) \<Longrightarrow> length r < Suc (length s)"
  by (auto simp: first_token_def less_Suc_eq_le length_dropWhile_le dest!: unquote_length split: if_splits)

function tokens_of :: "utext \<Rightarrow> token list option" where
  "tokens_of s =
     (case dropWhile is_whitespace s of
        [] \<Rightarrow> Some []
      | c # r \<Rightarrow> (case first_token c r of None \<Rightarrow> None | Some (tok, r') \<Rightarrow> map_option ((#) tok) (tokens_of r')))"
  by pat_completeness auto
termination
proof (relation "measure length", simp)
  fix s c r x tok r'
  assume "dropWhile is_whitespace s = c # r" "first_token c r = Some x" "(tok, r') = x"
  then show "(r', s) \<in> measure length"
    using first_token_length[of c r tok r'] length_dropWhile_le[of is_whitespace s] by auto
qed

declare tokens_of.simps [simp del]

definition token_fits :: "sexp_limits \<Rightarrow> token \<Rightarrow> bool" where
  "token_fits lims tok =
     (case tok of Atom_Token a \<Rightarrow> byte_len a \<le> atom_bytes lims | Quoted_Token a \<Rightarrow> byte_len a \<le> atom_bytes lims | _ \<Rightarrow> True)"

lemma unquote_suffix: "unquote s = Some (v, r) \<Longrightarrow> \<exists>used. s = used @ r"
proof (induction s arbitrary: v r rule: unquote.induct)
  case (2 c s)
  consider "c = quote_mark" | e t where "c \<noteq> quote_mark" "c = backslash" "s = e # t" | "c \<noteq> quote_mark" "c \<noteq> backslash"
    using 2(3) by (cases s) (auto split: if_splits)
  then show ?case
  proof cases
    case 1
    then show ?thesis using 2(3) by (auto intro: exI[of _ "[c]"])
  next
    case (2 e t)
    then obtain w where "unquote t = Some (w, r)" using "2.prems" by (auto split: if_splits)
    then obtain used where "t = used @ r" using "2.IH"(1)[OF 2] by blast
    then show ?thesis using 2 by (intro exI[of _ "c # e # used"]) simp
  next
    case 3
    then obtain w where "unquote s = Some (w, r)" using "2.prems" by (auto split: if_splits)
    then obtain used where "s = used @ r" using "2.IH"(2)[OF 3] by blast
    then show ?thesis by (intro exI[of _ "c # used"]) simp
  qed
qed simp

lemma quoted_step:
  "quoted_loop lims (pre @ c # s) (byte_len pre) v =
    (if c = quote_mark then Inr (v, byte_len pre + len_utf8 c)
     else if c = backslash
     then (case s of [] \<Rightarrow> Inl Unterminated_Escape
       | e # r \<Rightarrow> bind_result (push_decoded lims v e) (quoted_loop lims ((pre @ [c, e]) @ r) (byte_len (pre @ [c, e]))))
     else bind_result (push_decoded lims v c) (quoted_loop lims ((pre @ [c]) @ s) (byte_len (pre @ [c]))))"
  using char_at_append[of pre "c # s"] char_at_append[of "pre @ [c]" s]
  by (subst quoted_loop.simps) (auto simp: add.assoc split: list.split)

lemma quoted_end: "quoted_loop lims pre (byte_len pre) v = Inl Unterminated_String"
  by (simp add: quoted_loop.simps)

lemma push_decoded_Inr: "push_decoded lims v c = Inr w \<longleftrightarrow> w = v @ [c] \<and> byte_len w \<le> atom_bytes lims"
  by (auto simp: push_decoded_def)

lemma quoted_loop_Inr:
  assumes "byte_len v \<le> atom_bytes lims"
  shows "quoted_loop lims (pre @ rest) (byte_len pre) v = Inr (w, i) \<longleftrightarrow>
    (\<exists>u r. unquote rest = Some (u, r) \<and> w = v @ u \<and> byte_len w \<le> atom_bytes lims \<and> i + byte_len r = byte_len (pre @ rest))"
  using assms
proof (induction rest arbitrary: pre v rule: unquote.induct)
  case 1
  then show ?case by (simp add: quoted_end)
next
  case (2 c s)
  consider "c = quote_mark" | e t where "c \<noteq> quote_mark" "c = backslash" "s = e # t" | "c = backslash" "s = []"
    | "c \<noteq> quote_mark" "c \<noteq> backslash"
    by (cases s) auto
  then show ?case
  proof cases
    case 1
    then show ?thesis using 2(3) by (auto simp: quoted_step)
  next
    case (2 e t)
    show ?thesis
      using "2.IH"(1)[OF 2, of "v @ [e]" "pre @ [c, e]"] 2
      by (auto simp: quoted_step bind_result_Inr push_decoded_Inr simp del: append_assoc)
  next
    case 3
    then show ?thesis by (simp add: quoted_step)
  next
    case 4
    show ?thesis
      using "2.IH"(2)[OF 4, of "v @ [c]" "pre @ [c]"] 4
      by (auto simp: quoted_step bind_result_Inr push_decoded_Inr simp del: append_assoc)
  qed
qed

section \<open>One token\<close>

text \<open>The cursor of a lexer stands before the given rest of its text.\<close>

definition before :: "lexer \<Rightarrow> utext \<Rightarrow> bool" where
  "before lx rest \<longleftrightarrow> (\<exists>pre. source lx = pre @ rest \<and> position lx = byte_len pre)"

lemma next_token_end:
  assumes "before lx rest" "dropWhile is_whitespace rest = []"
  shows "\<exists>lx'. next_token lx = Inr (None, lx')"
proof -
  obtain pre where lx: "source lx = pre @ rest" "position lx = byte_len pre" using assms(1) by (auto simp: before_def)
  have "takeWhile is_whitespace rest = rest" using takeWhile_dropWhile_id[of is_whitespace rest] assms(2) by simp
  then have "skip_whitespace (source lx) (position lx) = byte_len (source lx)"
    using skip_whitespace_append[of pre rest] lx by metis
  then show ?thesis by (simp add: next_token_def Let_def)
qed

definition token_at :: "lexer \<Rightarrow> nat \<Rightarrow> scalar \<Rightarrow> sexp_error + token \<times> nat" where
  "token_at lx start c =
     (if c = open_paren then Inr (Open, start + 1)
      else if c = close_paren then Inr (Close, start + 1)
      else if c = quote_mark then bind_result (quoted_atom (lx\<lparr>position := start\<rparr>)) (\<lambda>(v, i). Inr (Quoted_Token v, i))
      else
        bind_result (atom_end (source lx) (start + len_utf8 c)) (\<lambda>i.
        bind_result (ok_or Invalid_Boundary (text_between (source lx) start i)) (\<lambda>atom.
        if atom_bytes (limits lx) < byte_len atom then Inl Atom_Too_Long else Inr (Atom_Token atom, i))))"

lemma next_token_step:
  assumes "source lx = pre @ rest" "position lx = byte_len pre" "dropWhile is_whitespace rest = c # s"
  shows "next_token lx =
    (if token_limit (limits lx) \<le> token_count lx then Inl Too_Many_Tokens
     else bind_result (token_at lx (byte_len (pre @ takeWhile is_whitespace rest)) c)
       (\<lambda>(tok, i). Inr (Some tok, lx\<lparr>position := i, token_count := token_count lx + 1\<rparr>)))"
proof -
  let ?pre = "pre @ takeWhile is_whitespace rest"
  have src: "source lx = ?pre @ c # s" using assms(1,3) takeWhile_dropWhile_id[of is_whitespace rest] by simp
  have skip: "skip_whitespace (source lx) (position lx) = byte_len ?pre"
    using skip_whitespace_append[of pre rest] assms(1,2) by simp
  have len: "byte_len ?pre \<noteq> byte_len (source lx)" unfolding src by simp
  have at: "char_at (source lx) (byte_len ?pre) = Some c" unfolding src by (simp only: char_at_append list.case)
  show ?thesis
    using len at
    by (simp add: next_token_def Let_def skip token_at_def bump_token_count_def del: byte_len_simps append_assoc)
qed

lemma token_at_Inr:
  assumes "source lx = pre @ c # s"
  shows "token_at lx (byte_len pre) c = Inr (tok, i) \<longleftrightarrow>
    (\<exists>r. first_token c s = Some (tok, r) \<and> token_fits (limits lx) tok \<and> i + byte_len r = byte_len (source lx))"
proof -
  have one: "len_utf8 open_paren = 1" "len_utf8 close_paren = 1" "len_utf8 quote_mark = 1" by (simp_all add: len_utf8_def)
  consider "c = open_paren" | "c = close_paren" | "c = quote_mark" | "c \<noteq> open_paren" "c \<noteq> close_paren" "c \<noteq> quote_mark" by blast
  then show ?thesis
  proof cases
    case 3
    have "quoted_atom (lx\<lparr>position := byte_len pre\<rparr>) = quoted_loop (limits lx) ((pre @ [c]) @ s) (byte_len (pre @ [c])) []"
      using 3 one by (simp add: quoted_atom_def assms)
    then show ?thesis using 3 quoted_loop_Inr[of "[]" "limits lx" "pre @ [c]" s] assms
      by (auto simp: token_at_def first_token_def bind_result_Inr token_fits_def)
  next
    case 4
    let ?a = "takeWhile (\<lambda>c. \<not> atom_stop c) s" and ?r = "dropWhile (\<lambda>c. \<not> atom_stop c) s"
    have "atom_end (source lx) (byte_len pre + len_utf8 c) = Inr (byte_len pre + byte_len (c # ?a))"
      using atom_end_append[of "pre @ [c]" s] by (simp add: assms add.assoc)
    moreover have src: "source lx = pre @ (c # ?a) @ ?r" using assms by simp
    moreover have "text_between (source lx) (byte_len pre) (byte_len pre + byte_len (c # ?a)) = Some (c # ?a)"
      unfolding src by (rule text_between_append)
    moreover have "byte_len (source lx) = byte_len pre + byte_len (c # ?a) + byte_len ?r"
      unfolding src by (simp only: byte_len_simps add.assoc)
    ultimately show ?thesis using 4
      by (auto simp: token_at_def first_token_def token_fits_def not_less simp del: byte_len_simps)
  qed (use assms one in \<open>auto simp: token_at_def first_token_def token_fits_def\<close>)
qed

lemma first_token_suffix: "first_token c s = Some (tok, r) \<Longrightarrow> \<exists>used. c # s = used @ r"
proof (cases "c = open_paren \<or> c = close_paren \<or> c = quote_mark")
  case False
  assume "first_token c s = Some (tok, r)"
  then have "c # s = (c # takeWhile (\<lambda>c. \<not> atom_stop c) s) @ r" using False by (auto simp: first_token_def)
  then show ?thesis by blast
next
  case True
  assume "first_token c s = Some (tok, r)"
  then have "(\<exists>v. unquote s = Some (v, r)) \<or> s = r" using True by (auto simp: first_token_def split: if_splits)
  then obtain used where "s = used @ r" using unquote_suffix by (metis append_Nil)
  then show ?thesis by (intro exI[of _ "c # used"]) simp
qed

lemma next_token_Inr:
  assumes "before lx rest" "dropWhile is_whitespace rest = c # s"
  shows "next_token lx = Inr (t, lx') \<longleftrightarrow>
    token_count lx < token_limit (limits lx) \<and>
    (\<exists>tok r i. first_token c s = Some (tok, r) \<and> token_fits (limits lx) tok \<and> t = Some tok \<and>
       i + byte_len r = byte_len (source lx) \<and> lx' = lx\<lparr>position := i, token_count := token_count lx + 1\<rparr>)"
proof -
  obtain pre where lx: "source lx = pre @ rest" "position lx = byte_len pre" using assms(1) by (auto simp: before_def)
  let ?pre = "pre @ takeWhile is_whitespace rest"
  have src: "source lx = ?pre @ c # s" using assms(2) lx(1) takeWhile_dropWhile_id[of is_whitespace rest] by simp
  show ?thesis
    unfolding next_token_step[OF lx assms(2)] by (auto simp: bind_result_Inr token_at_Inr[OF src] not_le simp del: byte_len_simps)
qed

lemma next_token_before:
  assumes "before lx rest" "dropWhile is_whitespace rest = c # s" "first_token c s = Some (tok, r)"
    and "i + byte_len r = byte_len (source lx)"
  shows "before (lx\<lparr>position := i, token_count := k\<rparr>) r"
proof -
  obtain pre where lx: "source lx = pre @ rest" using assms(1) by (auto simp: before_def)
  obtain used where "c # s = used @ r" using first_token_suffix[OF assms(3)] by blast
  then have "source lx = (pre @ takeWhile is_whitespace rest @ used) @ r"
    using assms(2) lx takeWhile_dropWhile_id[of is_whitespace rest] by simp
  then show ?thesis using assms(4) by (auto simp: before_def intro!: exI[of _ "pre @ takeWhile is_whitespace rest @ used"])
qed

text \<open>The messages about the cursor do not occur.\<close>

lemma quoted_no_cursor_error:
  "quoted_loop lims (pre @ s) (byte_len pre) v \<noteq> Inl Invalid_Cursor \<and>
    quoted_loop lims (pre @ s) (byte_len pre) v \<noteq> Inl Invalid_Boundary"
proof (induction s arbitrary: pre v rule: unquote.induct)
  case 1
  then show ?case by (simp add: quoted_end)
next
  case (2 c s)
  consider "c = quote_mark" | e t where "c \<noteq> quote_mark" "c = backslash" "s = e # t" | "c = backslash" "s = []"
    | "c \<noteq> quote_mark" "c \<noteq> backslash"
    by (cases s) auto
  then show ?case
  proof cases
    case (2 e t)
    then show ?thesis
      using "2.IH"(1)[OF 2, of "pre @ [c, e]"] unfolding quoted_step by (simp add: bind_result_Inl push_decoded_def)
  next
    case 4
    then show ?thesis
      using "2.IH"(2)[OF 4, of "pre @ [c]"] unfolding quoted_step by (simp add: bind_result_Inl push_decoded_def)
  qed (simp_all add: quoted_step)
qed

lemma token_no_cursor_error:
  assumes "source lx = pre @ c # s"
  shows "token_at lx (byte_len pre) c \<noteq> Inl Invalid_Cursor \<and> token_at lx (byte_len pre) c \<noteq> Inl Invalid_Boundary"
proof -
  let ?a = "takeWhile (\<lambda>c. \<not> atom_stop c) s" and ?r = "dropWhile (\<lambda>c. \<not> atom_stop c) s"
  have "atom_end (source lx) (byte_len pre + len_utf8 c) = Inr (byte_len pre + byte_len (c # ?a))"
    using atom_end_append[of "pre @ [c]" s] by (simp add: assms add.assoc)
  moreover have src: "source lx = pre @ (c # ?a) @ ?r" using assms by simp
  moreover have "text_between (source lx) (byte_len pre) (byte_len pre + byte_len (c # ?a)) = Some (c # ?a)"
    unfolding src by (rule text_between_append)
  moreover have "quoted_atom (lx\<lparr>position := byte_len pre\<rparr>) \<noteq> Inl Invalid_Cursor \<and>
      quoted_atom (lx\<lparr>position := byte_len pre\<rparr>) \<noteq> Inl Invalid_Boundary" if "c = quote_mark"
    using quoted_no_cursor_error[of "limits lx" "pre @ [c]" s "[]"] that by (simp add: quoted_atom_def assms len_utf8_def)
  ultimately show ?thesis
    by (auto simp: token_at_def bind_result_Inl simp del: byte_len_simps)
qed

lemma take_no_cursor_error: "take_token lims mode tok ps \<noteq> Inl Invalid_Cursor \<and> take_token lims mode tok ps \<noteq> Inl Invalid_Boundary"
  by (auto simp: take_token_def take_value_def add_direct_element_def bind_result_Inl split: token.splits list.splits if_splits)

lemma next_token_no_cursor_error:
  assumes "before lx rest"
  shows "next_token lx \<noteq> Inl Invalid_Cursor \<and> next_token lx \<noteq> Inl Invalid_Boundary"
proof (cases "dropWhile is_whitespace rest")
  case Nil
  then show ?thesis using next_token_end[OF assms] by auto
next
  case (Cons c s)
  obtain pre where lx: "source lx = pre @ rest" "position lx = byte_len pre" using assms by (auto simp: before_def)
  have src: "source lx = (pre @ takeWhile is_whitespace rest) @ c # s"
    using Cons lx(1) takeWhile_dropWhile_id[of is_whitespace rest] by simp
  show ?thesis unfolding next_token_step[OF lx Cons]
    using token_no_cursor_error[OF src] by (auto simp: bind_result_Inl simp del: byte_len_simps)
qed

lemma parse_no_cursor_error:
  "before lx rest \<Longrightarrow> parse_loop mode lx ps \<noteq> Inl Invalid_Cursor \<and> parse_loop mode lx ps \<noteq> Inl Invalid_Boundary"
proof (induction rest arbitrary: lx ps rule: length_induct)
  case (1 rest)
  show ?case
  proof (cases "next_token lx")
    case (Inl e)
    then show ?thesis using next_token_no_cursor_error[OF 1(2)] by (auto simp: parse_loop.simps[of mode lx ps])
  next
    case (Inr x)
    then obtain t lx' where x: "next_token lx = Inr (t, lx')" by (cases x) auto
    show ?thesis
    proof (cases t)
      case None
      then show ?thesis by (auto simp: parse_loop.simps[of mode lx ps] x)
    next
      case (Some tok)
      have "dropWhile is_whitespace rest \<noteq> []" using next_token_end[OF 1(2)] x Some by auto
      then obtain c s where cs: "dropWhile is_whitespace rest = c # s" by (cases "dropWhile is_whitespace rest") auto
      obtain r i where r: "first_token c s = Some (tok, r)" "i + byte_len r = byte_len (source lx)"
        "lx' = lx\<lparr>position := i, token_count := token_count lx + 1\<rparr>"
        using x Some by (auto simp: next_token_Inr[OF 1(2) cs])
      have "length r < length rest"
        using first_token_length[OF r(1)] length_dropWhile_le[of is_whitespace rest] cs by simp
      moreover have "before lx' r" unfolding r(3) by (rule next_token_before[OF 1(2) cs r(1,2)])
      ultimately have "parse_loop mode lx' ps' \<noteq> Inl Invalid_Cursor \<and> parse_loop mode lx' ps' \<noteq> Inl Invalid_Boundary" for ps'
        using 1(1) by blast
      then show ?thesis using take_no_cursor_error[of "limits lx" mode tok ps]
        by (auto simp: parse_loop.simps[of mode lx ps] x Some split: sum.splits)
    qed
  qed
qed

section \<open>The loop over the tokens\<close>

definition take_tokens :: "sexp_limits \<Rightarrow> root_mode \<Rightarrow> token list \<Rightarrow> parser \<Rightarrow> sexp_error + parser" where
  "take_tokens lims mode = fold_result (take_token lims mode)"

text \<open>The checks before a token only bring an error forward.\<close>

lemma early_checks:
  assumes "take_token lims mode tok ps = Inr ps'" "first_token c s = Some (tok, r)"
  shows "mode = Document \<Longrightarrow> stack ps = [] \<Longrightarrow> root_count ps = 0"
    and "c \<noteq> close_paren \<Longrightarrow> direct_count ps < direct_limit lims"
proof -
  show "root_count ps = 0" if "mode = Document" "stack ps = []"
    using assms(1) that by (auto simp: take_token_def take_value_def split: token.splits if_splits)
  show "direct_count ps < direct_limit lims" if "c \<noteq> close_paren"
  proof -
    have "tok \<noteq> Close" using assms(2) that by (auto simp: first_token_def split: if_splits)
    then show ?thesis using assms(1)
      by (auto simp: take_token_def take_value_def direct_count_def add_direct_element_def bind_result_Inr
          split: token.splits list.splits if_splits)
  qed
qed

lemma parse_loop_Inr:
  "before lx rest \<Longrightarrow> parse_loop mode lx ps = Inr vs \<longleftrightarrow>
    (\<exists>toks ps'. tokens_of rest = Some toks \<and> list_all (token_fits (limits lx)) toks \<and>
       (toks = [] \<or> token_count lx + length toks \<le> token_limit (limits lx)) \<and>
       take_tokens (limits lx) mode toks ps = Inr ps' \<and> stack ps' = [] \<and> vs = roots ps')"
proof (induction rest arbitrary: lx ps rule: length_induct)
  case (1 rest)
  obtain pre where lx: "source lx = pre @ rest" "position lx = byte_len pre" using 1(2) by (auto simp: before_def)
  note look = has_non_whitespace_append[of pre rest] next_is_value_append[of pre rest]
  show ?case
  proof (cases "dropWhile is_whitespace rest")
    case Nil
    then obtain lx' where "next_token lx = Inr (None, lx')" using next_token_end[OF 1(2)] by blast
    moreover have "tokens_of rest = Some []" by (subst tokens_of.simps) (simp only: Nil list.case)
    moreover have "\<not> has_non_whitespace (pre @ rest) (byte_len pre)" "\<not> next_is_value (pre @ rest) (byte_len pre)"
      unfolding look Nil by simp_all
    ultimately show ?thesis
      by (auto simp: parse_loop.simps[of mode lx ps] lx take_tokens_def)
  next
    case (Cons c s)
    note step = next_token_Inr[OF 1(2) Cons]
    show ?thesis
    proof (cases "\<exists>tok r. first_token c s = Some (tok, r) \<and> token_fits (limits lx) tok \<and> token_count lx < token_limit (limits lx)")
      case False
      then have "\<nexists>x. next_token lx = Inr x" using step by auto
      then obtain e where "next_token lx = Inl e" by (cases "next_token lx") auto
      moreover have "tokens_of rest = Some toks \<Longrightarrow> list_all (token_fits (limits lx)) toks \<Longrightarrow>
          toks \<noteq> [] \<and> \<not> token_count lx + length toks \<le> token_limit (limits lx)" for toks
        using False by (auto simp: tokens_of.simps[of rest] Cons split: option.splits)
      ultimately show ?thesis by (auto simp: parse_loop.simps[of mode lx ps])
    next
      case True
      then obtain tok r where t: "first_token c s = Some (tok, r)" "token_fits (limits lx) tok" "token_count lx < token_limit (limits lx)"
        by blast
      obtain used where "c # s = used @ r" using first_token_suffix[OF t(1)] by blast
      then have "byte_len r \<le> byte_len (c # s)" by (metis byte_len_simps(3) le_add2)
      also have "\<dots> \<le> byte_len rest"
        using takeWhile_dropWhile_id[of is_whitespace rest] Cons by (metis byte_len_simps(3) le_add2)
      also have "\<dots> \<le> byte_len (source lx)" by (simp add: lx)
      finally obtain i where i: "i + byte_len r = byte_len (source lx)" by (metis le_add_diff_inverse2)
      define lx' where "lx' = lx\<lparr>position := i, token_count := token_count lx + 1\<rparr>"
      have nt: "next_token lx = Inr (Some tok, lx')" using step t i by (auto simp: lx'_def)
      have "length r < length rest"
        using first_token_length[OF t(1)] length_dropWhile_le[of is_whitespace rest] Cons by simp
      moreover have "before lx' r" unfolding lx'_def by (rule next_token_before[OF 1(2) Cons t(1) i])
      ultimately have ih: "parse_loop mode lx' ps' = Inr vs \<longleftrightarrow>
          (\<exists>toks ps''. tokens_of r = Some toks \<and> list_all (token_fits (limits lx)) toks \<and>
             (toks = [] \<or> token_count lx + 1 + length toks \<le> token_limit (limits lx)) \<and>
             take_tokens (limits lx) mode toks ps' = Inr ps'' \<and> stack ps'' = [] \<and> vs = roots ps'')" for ps'
        using 1(1)[rule_format, of r lx' ps'] by (simp add: lx'_def)
      have tokens: "tokens_of rest = map_option ((#) tok) (tokens_of r)" by (simp add: tokens_of.simps[of rest] Cons t(1))
      show ?thesis
      proof (cases "take_token (limits lx) mode tok ps")
        case (Inl e)
        then show ?thesis by (auto simp: parse_loop.simps[of mode lx ps] nt tokens take_tokens_def)
      next
        case (Inr ps')
        note early = early_checks[OF Inr t(1)]
        have "parse_loop mode lx ps = parse_loop mode lx' ps'"
          using early look by (auto simp: parse_loop.simps[of mode lx ps] nt Inr lx Cons)
        then show ?thesis using t(2,3) by (auto simp: ih tokens take_tokens_def Inr)
      qed
    qed
  qed
qed

section \<open>Tokens of values\<close>

fun flat :: "sexp \<Rightarrow> token list" where
  "flat (Atom a) = [Atom_Token a]"
| "flat (Quoted_Atom a) = [Quoted_Token a]"
| "flat (List_Of vs) = Open # concat (map flat vs) @ [Close]"

abbreviation flats :: "sexp list \<Rightarrow> token list" where
  "flats vs \<equiv> concat (map flat vs)"

text \<open>A value below the given number of open lists, within the limits on nesting and on list lengths.\<close>

fun shape_fits :: "sexp_limits \<Rightarrow> nat \<Rightarrow> sexp \<Rightarrow> bool" where
  "shape_fits lims d (Atom a) \<longleftrightarrow> True"
| "shape_fits lims d (Quoted_Atom a) \<longleftrightarrow> True"
| "shape_fits lims d (List_Of vs) \<longleftrightarrow>
     d < nesting_depth lims \<and> length vs \<le> direct_limit lims \<and> list_all (shape_fits lims (Suc d)) vs"

text \<open>The invariant of the parser, and the tokens that it has consumed.\<close>

fun frames_ok :: "sexp_limits \<Rightarrow> nat \<Rightarrow> frame list \<Rightarrow> bool" where
  "frames_ok lims extra [] \<longleftrightarrow> True"
| "frames_ok lims extra (f # fs) \<longleftrightarrow>
     direct_elements f = length (frame_values f) + extra \<and> direct_elements f \<le> direct_limit lims \<and>
     list_all (shape_fits lims (Suc (length fs))) (frame_values f) \<and> length fs < nesting_depth lims \<and> frames_ok lims 1 fs"

definition parser_ok :: "sexp_limits \<Rightarrow> root_mode \<Rightarrow> parser \<Rightarrow> bool" where
  "parser_ok lims mode ps \<longleftrightarrow>
     frames_ok lims 0 (stack ps) \<and> root_count ps = length (roots ps) + (if stack ps = [] then 0 else 1) \<and>
     root_count ps \<le> direct_limit lims \<and> (mode = Document \<longrightarrow> root_count ps \<le> 1) \<and> list_all (shape_fits lims 0) (roots ps)"

fun frames_tokens :: "frame list \<Rightarrow> token list" where
  "frames_tokens [] = []"
| "frames_tokens (f # fs) = frames_tokens fs @ Open # flats (frame_values f)"

definition consumed :: "parser \<Rightarrow> token list" where
  "consumed ps = flats (roots ps) @ frames_tokens (stack ps)"

lemma take_token_invariant:
  assumes "take_token lims mode tok ps = Inr ps'" "parser_ok lims mode ps"
  shows "parser_ok lims mode ps' \<and> consumed ps' = consumed ps @ [tok]"
proof (cases "stack ps")
  case Nil
  then show ?thesis using assms
    by (auto simp: take_token_def take_value_def add_direct_element_def parser_ok_def consumed_def bind_result_Inr
        split: token.splits if_splits)
next
  case (Cons f fs)
  note f = this
  show ?thesis
  proof (cases fs)
    case Nil
    then show ?thesis using assms f
      by (auto simp: take_token_def take_value_def add_direct_element_def parser_ok_def consumed_def bind_result_Inr
          split: token.splits if_splits)
  next
    case (Cons g gs)
    then show ?thesis using assms f
      by (auto simp: take_token_def take_value_def add_direct_element_def parser_ok_def consumed_def bind_result_Inr
          split: token.splits if_splits)
  qed
qed

lemma take_tokens_invariant:
  assumes "take_tokens lims mode toks ps = Inr ps'" "parser_ok lims mode ps"
  shows "parser_ok lims mode ps' \<and> consumed ps' = consumed ps @ toks"
  using assms
proof (induction toks arbitrary: ps)
  case (Cons tok toks)
  then obtain p where p: "take_token lims mode tok ps = Inr p" "take_tokens lims mode toks p = Inr ps'"
    by (auto simp: take_tokens_def bind_result_Inr)
  then show ?case using take_token_invariant[OF p(1) Cons.prems(2)] Cons.IH[OF p(2)] by simp
qed (simp add: take_tokens_def)

text \<open>A value that fits is taken in as a whole.\<close>

definition push_values :: "sexp list \<Rightarrow> parser \<Rightarrow> parser" where
  "push_values vs ps =
     (case stack ps of
        [] \<Rightarrow> ps\<lparr>roots := roots ps @ vs, root_count := root_count ps + length vs\<rparr>
      | f # fs \<Rightarrow> ps\<lparr>stack := \<lparr>frame_values = frame_values f @ vs, direct_elements = direct_elements f + length vs\<rparr> # fs\<rparr>)"

definition room :: "sexp_limits \<Rightarrow> root_mode \<Rightarrow> nat \<Rightarrow> parser \<Rightarrow> bool" where
  "room lims mode k ps \<longleftrightarrow> direct_count ps + k \<le> direct_limit lims \<and> (mode = Document \<and> stack ps = [] \<longrightarrow> root_count ps + k \<le> 1)"

lemma take_tokens_append: "take_tokens lims mode (xs @ ys) ps = bind_result (take_tokens lims mode xs ps) (take_tokens lims mode ys)"
  by (simp add: take_tokens_def fold_result_append)

lemma take_one: "room lims mode 1 ps \<Longrightarrow> take_value lims mode v ps = Inr (push_values [v] ps)"
  by (cases "stack ps") (auto simp: room_def take_value_def add_direct_element_def push_values_def direct_count_def)

lemma push_values_facts [simp]:
  "length (stack (push_values vs ps)) = length (stack ps)" "direct_count (push_values vs ps) = direct_count ps + length vs"
  "(stack (push_values vs ps) = []) = (stack ps = [])"
  by (auto simp: push_values_def direct_count_def split: list.splits)

lemma push_values_push: "push_values ws (push_values vs ps) = push_values (vs @ ws) ps"
  by (cases "stack ps") (simp_all add: push_values_def)

lemma push_values_Nil [simp]: "push_values [] ps = ps"
  by (cases "stack ps") (simp_all add: push_values_def)

lemma room_push: "room lims mode (length vs + k) ps \<Longrightarrow> room lims mode k (push_values vs ps)"
  by (cases "stack ps") (auto simp: room_def push_values_def direct_count_def)

lemma take_values:
  assumes "\<And>v ps. v \<in> set vs \<Longrightarrow> room lims mode 1 ps \<Longrightarrow> shape_fits lims (length (stack ps)) v \<Longrightarrow>
      take_tokens lims mode (flat v) ps = Inr (push_values [v] ps)"
    and "room lims mode (length vs) ps" "list_all (shape_fits lims (length (stack ps))) vs"
  shows "take_tokens lims mode (flats vs) ps = Inr (push_values vs ps)"
  using assms
proof (induction vs arbitrary: ps)
  case Nil
  then show ?case by (simp add: take_tokens_def)
next
  case (Cons v vs)
  have "room lims mode 1 ps" using Cons.prems(2) by (auto simp: room_def)
  then have "take_tokens lims mode (flat v) ps = Inr (push_values [v] ps)" using Cons.prems(1,3) by simp
  moreover have "room lims mode (length vs) (push_values [v] ps)"
    using Cons.prems(2) by (intro room_push) simp
  ultimately show ?case
    using Cons.IH[of "push_values [v] ps"] Cons.prems(1,3) by (simp add: take_tokens_append push_values_push)
qed

lemma take_flat:
  "room lims mode 1 ps \<Longrightarrow> shape_fits lims (length (stack ps)) v \<Longrightarrow> take_tokens lims mode (flat v) ps = Inr (push_values [v] ps)"
proof (induction v arbitrary: ps)
  case (List_Of vs)
  define ps1 where "ps1 = (case stack ps of f # fs \<Rightarrow> ps\<lparr>stack := f\<lparr>direct_elements := direct_elements f + 1\<rparr> # fs\<rparr>
      | [] \<Rightarrow> ps\<lparr>root_count := root_count ps + 1\<rparr>)"
  define ps2 where "ps2 = ps1\<lparr>stack := \<lparr>frame_values = [], direct_elements = 0\<rparr> # stack ps1\<rparr>"
  have open_step: "take_token lims mode Open ps = Inr ps2"
    using List_Of.prems by (cases "stack ps") (auto simp: take_token_def room_def direct_count_def ps1_def ps2_def)
  have l: "length (stack ps1) = length (stack ps)" by (auto simp: ps1_def split: list.split)
  have inner: "take_tokens lims mode (flats vs) ps2 = Inr (push_values vs ps2)"
  proof (rule take_values)
    show "room lims mode (length vs) ps2" using List_Of.prems(2) by (auto simp: room_def direct_count_def ps2_def)
    show "list_all (shape_fits lims (length (stack ps2))) vs" using List_Of.prems(2) by (simp add: ps2_def l)
  qed (rule List_Of.IH)
  have close_step: "take_token lims mode Close (push_values vs ps2) = Inr (push_values [List_Of vs] ps)"
    by (cases "stack ps") (auto simp: take_token_def push_values_def ps2_def ps1_def)
  show ?case
    using open_step inner close_step by (simp add: take_tokens_append) (simp add: take_tokens_def fold_result_append)
qed (simp_all add: take_tokens_def take_token_def take_one)

lemma take_tokens_flats:
  assumes "mode = Sequence \<or> length vs \<le> 1"
  shows "(\<exists>ps. take_tokens lims mode toks \<lparr>roots = [], root_count = 0, stack = []\<rparr> = Inr ps \<and> stack ps = [] \<and> vs = roots ps) \<longleftrightarrow>
    toks = flats vs \<and> length vs \<le> direct_limit lims \<and> list_all (shape_fits lims 0) vs" (is "?run \<longleftrightarrow> ?spec")
proof
  let ?start = "\<lparr>roots = [], root_count = 0, stack = []\<rparr>"
  assume ?run
  then obtain ps where ps: "take_tokens lims mode toks ?start = Inr ps" "stack ps = []" "vs = roots ps" by blast
  have "parser_ok lims mode ?start" by (simp add: parser_ok_def)
  from take_tokens_invariant[OF ps(1) this] show ?spec using ps(2,3) by (auto simp: parser_ok_def consumed_def)
next
  let ?start = "\<lparr>roots = [], root_count = 0, stack = []\<rparr>"
  assume s: ?spec
  then have "room lims mode (length vs) ?start" using assms by (auto simp: room_def direct_count_def)
  then have "take_tokens lims mode (flats vs) ?start = Inr (push_values vs ?start)"
    using s by (intro take_values take_flat) auto
  then show ?run using s by (auto simp: push_values_def)
qed

lemma document_roots:
  assumes "take_tokens lims Document toks \<lparr>roots = [], root_count = 0, stack = []\<rparr> = Inr ps"
  shows "length (roots ps) \<le> 1"
proof -
  have "parser_ok lims Document \<lparr>roots = [], root_count = 0, stack = []\<rparr>" by (simp add: parser_ok_def)
  from take_tokens_invariant[OF assms this] show ?thesis by (auto simp: parser_ok_def split: if_splits)
qed

section \<open>What the writers write\<close>

text \<open>\<open>quote\<close> of \<open>schematic_writer.rs\<close> and \<open>circuit_board_writer.rs\<close>.\<close>

definition quote_char :: "scalar \<Rightarrow> utext" where
  "quote_char c = (if c = backslash then [backslash, backslash] else if c = quote_mark then [backslash, quote_mark] else [c])"

definition quote :: "utext \<Rightarrow> utext" where
  "quote v = quote_mark # concat (map quote_char v) @ [quote_mark]"

text \<open>A value as text, one space behind every element.\<close>

fun written :: "sexp \<Rightarrow> utext" where
  "written (Atom a) = a"
| "written (Quoted_Atom a) = quote a"
| "written (List_Of vs) = open_paren # concat (map (\<lambda>v. written v @ [0x20]) vs) @ [close_paren]"

definition plain_atom :: "utext \<Rightarrow> bool" where
  "plain_atom a \<longleftrightarrow> a \<noteq> [] \<and> hd a \<noteq> quote_mark \<and> list_all (\<lambda>c. \<not> atom_stop c) a"

fun plain_atoms :: "sexp \<Rightarrow> bool" where
  "plain_atoms (Atom a) = plain_atom a"
| "plain_atoms (Quoted_Atom a) = True"
| "plain_atoms (List_Of vs) = list_all plain_atoms vs"

lemma unquote_quoted: "unquote (concat (map quote_char v) @ quote_mark # rest) = Some (v, rest)"
  by (induction v) (simp_all add: quote_char_def)

lemma not_space: "\<not> is_whitespace quote_mark" "\<not> is_whitespace open_paren" "\<not> is_whitespace close_paren" "is_whitespace 0x20" "atom_stop 0x20"
  "\<not> atom_stop c \<Longrightarrow> \<not> is_whitespace c" "\<not> atom_stop c \<Longrightarrow> c \<noteq> open_paren" "\<not> atom_stop c \<Longrightarrow> c \<noteq> close_paren"
  by (auto simp: is_whitespace_def atom_stop_def)

lemma tokens_space: "tokens_of (0x20 # s) = tokens_of s"
  by (simp add: tokens_of.simps[of "0x20 # s"] tokens_of.simps[of s] not_space(4))

lemma tokens_quote: "tokens_of (quote v @ rest) = map_option ((#) (Quoted_Token v)) (tokens_of rest)"
  by (simp add: quote_def tokens_of.simps[of "quote_mark # _"] not_space(1) first_token_def unquote_quoted)

lemma tokens_atom:
  assumes "plain_atom a" "rest = [] \<or> atom_stop (hd rest)"
  shows "tokens_of (a @ rest) = map_option ((#) (Atom_Token a)) (tokens_of rest)"
proof -
  obtain c b where a: "a = c # b" "c \<noteq> quote_mark" "\<not> atom_stop c" "\<forall>x \<in> set b. \<not> atom_stop x"
    using assms(1) by (cases a) (auto simp: plain_atom_def list_all_iff)
  have "takeWhile (\<lambda>c. \<not> atom_stop c) rest = []" "dropWhile (\<lambda>c. \<not> atom_stop c) rest = rest"
    using assms(2) by (cases rest; simp)+
  then have "takeWhile (\<lambda>c. \<not> atom_stop c) (b @ rest) = b" "dropWhile (\<lambda>c. \<not> atom_stop c) (b @ rest) = rest"
    using a(4) by (simp_all add: takeWhile_append2 dropWhile_append2)
  then show ?thesis
    using a not_space(6-8)[OF a(3)] by (subst tokens_of.simps) (simp add: first_token_def)
qed

lemma tokens_open: "tokens_of (open_paren # s) = map_option ((#) Open) (tokens_of s)"
  by (simp add: tokens_of.simps[of "open_paren # s"] not_space(2) first_token_def)

lemma tokens_close: "tokens_of (close_paren # s) = map_option ((#) Close) (tokens_of s)"
  by (simp add: tokens_of.simps[of "close_paren # s"] not_space(3) first_token_def)

lemma tokens_written:
  "plain_atoms v \<Longrightarrow> rest = [] \<or> atom_stop (hd rest) \<Longrightarrow> tokens_of (written v @ rest) = map_option ((@) (flat v)) (tokens_of rest)"
proof (induction v arbitrary: rest)
  case (Atom a)
  then show ?case by (simp add: tokens_atom option.map_comp comp_def) 
next
  case (Quoted_Atom a)
  then show ?case by (simp add: tokens_quote)
next
  case (List_Of vs)
  have "tokens_of (concat (map (\<lambda>v. written v @ [0x20]) ws) @ close_paren # rest) =
      map_option ((@) (flats ws @ [Close])) (tokens_of rest)" if "set ws \<subseteq> set vs" for ws
    using that
  proof (induction ws)
    case Nil
    then show ?case by (simp add: tokens_close)
  next
    case (Cons w ws)
    have "plain_atoms w" "w \<in> set vs" using List_Of.prems(1) Cons.prems by (auto simp: list_all_iff)
    then have "tokens_of (written w @ 0x20 # concat (map (\<lambda>v. written v @ [0x20]) ws) @ close_paren # rest) =
        map_option ((@) (flat w)) (tokens_of (0x20 # concat (map (\<lambda>v. written v @ [0x20]) ws) @ close_paren # rest))"
      using not_space(5) by (intro List_Of.IH) auto
    then show ?case using Cons by (simp add: tokens_space option.map_comp comp_def)
  qed
  from this[of vs] show ?case by (simp add: tokens_open option.map_comp comp_def)
qed

section \<open>The parser and its specification\<close>

lemma parse_spec:
  "parse_with_limits s lims mode = Inr vs \<longleftrightarrow>
    byte_len s \<le> input_bytes lims \<and> tokens_of s = Some (flats vs) \<and> list_all (token_fits lims) (flats vs) \<and>
    length (flats vs) \<le> token_limit lims \<and> list_all (shape_fits lims 0) vs \<and> length vs \<le> direct_limit lims \<and>
    (mode = Sequence \<or> length vs \<le> 1)"
proof (cases "byte_len s \<le> input_bytes lims")
  case True
  let ?lx = "\<lparr>source = s, position = 0, token_count = 0, limits = lims\<rparr>" and ?start = "\<lparr>roots = [], root_count = 0, stack = []\<rparr>"
  have "before ?lx s" by (auto simp: before_def intro!: exI[of _ "[]"])
  note loop = parse_loop_Inr[OF this, of mode ?start vs]
  have run: "parse_with_limits s lims mode = parse_loop mode ?lx ?start"
    using True by (simp add: parse_with_limits_def new_lexer_def)
  show ?thesis
  proof
    assume "parse_with_limits s lims mode = Inr vs"
    then obtain toks ps where l: "tokens_of s = Some toks" "list_all (token_fits lims) toks" "toks = [] \<or> length toks \<le> token_limit lims"
      "take_tokens lims mode toks ?start = Inr ps" "stack ps = []" "vs = roots ps"
      using run loop by auto
    have m: "mode = Sequence \<or> length vs \<le> 1" using document_roots[of lims toks ps] l(4,6) by (cases mode) auto
    have "toks = flats vs \<and> length vs \<le> direct_limit lims \<and> list_all (shape_fits lims 0) vs"
      using take_tokens_flats[OF m, of lims toks] l(4-6) by blast
    moreover have "length toks \<le> token_limit lims" using l(3) by auto
    ultimately show "byte_len s \<le> input_bytes lims \<and> tokens_of s = Some (flats vs) \<and> list_all (token_fits lims) (flats vs) \<and>
      length (flats vs) \<le> token_limit lims \<and> list_all (shape_fits lims 0) vs \<and> length vs \<le> direct_limit lims \<and>
      (mode = Sequence \<or> length vs \<le> 1)" using True l(1,2) m by blast
  next
    assume a: "byte_len s \<le> input_bytes lims \<and> tokens_of s = Some (flats vs) \<and> list_all (token_fits lims) (flats vs) \<and>
      length (flats vs) \<le> token_limit lims \<and> list_all (shape_fits lims 0) vs \<and> length vs \<le> direct_limit lims \<and>
      (mode = Sequence \<or> length vs \<le> 1)"
    then obtain ps where "take_tokens lims mode (flats vs) ?start = Inr ps" "stack ps = []" "vs = roots ps"
      using take_tokens_flats[of mode vs lims "flats vs"] by blast
    then show "parse_with_limits s lims mode = Inr vs"
      unfolding run loop using a by (intro exI[of _ "flats vs"] exI[of _ ps]) simp
  qed
qed (simp add: parse_with_limits_def new_lexer_def)

section \<open>Properties\<close>

text \<open>C34: The parser against its specification, for all limits: it returns some values exactly when the
  text is within the limit on bytes, the tokens of the text are the tokens of the values, no token
  and not the number of tokens exceeds its limit, no list is nested too deeply or too long, and a
  document has at most one value. In all other cases it returns an error.\<close>

theorem parse_exact:
  "parse_with_limits s lims mode = Inr vs \<longleftrightarrow>
    byte_len s \<le> input_bytes lims \<and> tokens_of s = Some (flats vs) \<and> list_all (token_fits lims) (flats vs) \<and>
    length (flats vs) \<le> token_limit lims \<and> list_all (shape_fits lims 0) vs \<and> length vs \<le> direct_limit lims \<and>
    (mode = Sequence \<or> length vs \<le> 1)"
  by (rule parse_spec)

text \<open>C35: What is written as text is read back: the text of a value with plain atoms is parsed to that
  value exactly when it is within the limits.\<close>

theorem written_reads_back:
  assumes "plain_atoms v"
  shows "parse_document (written v) = Inr v \<longleftrightarrow>
    byte_len (written v) \<le> 128 * 1024 * 1024 \<and> list_all (token_fits default_limits) (flat v) \<and> length (flat v) \<le> 4000000 \<and>
    shape_fits default_limits 0 v"
proof -
  have "tokens_of [] = Some []" by (simp add: tokens_of.simps)
  then have tokens: "tokens_of (written v) = Some (flat v)" using tokens_written[OF assms, of "[]"] by simp
  have "parse_document (written v) = Inr v \<longleftrightarrow> parse_with_limits (written v) default_limits Document = Inr [v]"
    by (cases "parse_with_limits (written v) default_limits Document")
      (auto simp: parse_document_def neq_Nil_conv split: list.splits)
  then show ?thesis
    by (simp add: parse_spec tokens) (simp add: default_limits_def)
qed

theorem written_reads_back_witness:
  "parse_document (written (List_Of [Atom [0x6E, 0x65, 0x74], Quoted_Atom [quote_mark, 0x3042], List_Of []])) =
     Inr (List_Of [Atom [0x6E, 0x65, 0x74], Quoted_Atom [quote_mark, 0x3042], List_Of []])"
  by (subst written_reads_back)
    (simp_all add: plain_atom_def atom_stop_def is_whitespace_def token_fits_def default_limits_def quote_def quote_char_def len_utf8_def)

text \<open>The errors about a cursor inside a character, which the code keeps for its own mistakes, do not
  occur, for any text and any limits.\<close>

theorem no_cursor_error:
  "parse_with_limits s lims mode \<noteq> Inl Invalid_Cursor \<and> parse_with_limits s lims mode \<noteq> Inl Invalid_Boundary"
proof -
  have "before \<lparr>source = s, position = 0, token_count = 0, limits = lims\<rparr> s" by (auto simp: before_def intro!: exI[of _ "[]"])
  from parse_no_cursor_error[OF this] show ?thesis by (auto simp: parse_with_limits_def new_lexer_def bind_result_Inl)
qed

end
