(* ===== verification/SexpSpans.thy ===== *)
theory SexpSpans
  imports Sexp
begin

text \<open>
  The scanner for the spans of lists, \<open>list_spans\<close> of \<open>crates/pcbex-kicad/src/sexp.rs\<close>, against the
  parser: on a text that parses, the spans are those of the lists at the wanted depth with the wanted
  head, in the order of their closing parentheses.
\<close>

section \<open>Tokens with the text around them\<close>

text \<open>Every token with the text from its start on and the text behind it.\<close>

function located :: "utext \<Rightarrow> (token \<times> utext \<times> utext) list option" where
  "located s =
     (case dropWhile is_whitespace s of
        [] \<Rightarrow> Some []
      | c # r \<Rightarrow> (case first_token c r of None \<Rightarrow> None
          | Some (tok, r') \<Rightarrow> map_option ((#) (tok, c # r, r')) (located r')))"
  by pat_completeness auto
termination
proof (relation "measure length", simp)
  fix s c r x tok r'
  assume "dropWhile is_whitespace s = c # r" "first_token c r = Some x" "(tok, r') = x"
  then show "(r', s) \<in> measure length"
    using first_token_length[of c r tok r'] length_dropWhile_le[of is_whitespace s] by auto
qed

declare located.simps [simp del]

lemma located_cases:
  obtains (empty) "dropWhile is_whitespace s = []" "located s = Some []" "tokens_of s = Some []"
  | (bad) c r where "dropWhile is_whitespace s = c # r" "first_token c r = None" "located s = None" "tokens_of s = None"
  | (token) c r tok r' where "dropWhile is_whitespace s = c # r" "first_token c r = Some (tok, r')" "length r' < length s"
      "\<not> is_whitespace c"
      "located s = map_option ((#) (tok, c # r, r')) (located r')" "tokens_of s = map_option ((#) tok) (tokens_of r')"
proof (cases "dropWhile is_whitespace s")
  case Nil
  show ?thesis by (rule empty) (simp_all only: Nil tokens_of.simps[of s] located.simps[of s] list.case)
next
  case (Cons c r)
  show ?thesis
  proof (cases "first_token c r")
    case None
    show ?thesis by (rule bad[OF Cons None]) (simp_all add: tokens_of.simps[of s] located.simps[of s] Cons None)
  next
    case (Some x)
    obtain tok r' where x: "x = (tok, r')" by (cases x)
    have "length r' < length s"
      using first_token_length[OF Some[unfolded x]] length_dropWhile_le[of is_whitespace s] Cons by simp
    moreover have "\<not> is_whitespace c" using hd_dropWhile[of is_whitespace s] Cons by (metis list.distinct(1) list.sel(1))
    ultimately show ?thesis
      by (rule token[OF Cons Some[unfolded x]]) (simp_all add: tokens_of.simps[of s] located.simps[of s] Cons Some x)
  qed
qed

lemma located_tokens: "tokens_of s = map_option (map fst) (located s)"
proof (induction s rule: length_induct)
  case (1 s)
  show ?case
    by (cases s rule: located_cases) (use 1 in \<open>auto simp: option.map_comp comp_def\<close>)
qed

text \<open>A text cut off behind a token has the tokens up to there.\<close>

lemma unquote_cut: "unquote s = Some (v, r) \<Longrightarrow> \<exists>used. s = used @ r \<and> (\<forall>r'. unquote (used @ r') = Some (v, r'))"
proof (induction s arbitrary: v r rule: unquote.induct)
  case (2 c s)
  consider "c = quote_mark" | e t where "c \<noteq> quote_mark" "c = backslash" "s = e # t" | "c \<noteq> quote_mark" "c \<noteq> backslash"
    using 2(3) by (cases s) (auto split: if_splits)
  then show ?case
  proof cases
    case 1
    then show ?thesis using 2(3) by (auto intro!: exI[of _ "[c]"])
  next
    case (2 e t)
    then obtain w where w: "unquote t = Some (w, r)" "v = e # w" using "2.prems" by (auto split: if_splits)
    then obtain used where "t = used @ r" "\<forall>r'. unquote (used @ r') = Some (w, r')" using "2.IH"(1)[OF 2] by blast
    then show ?thesis using 2 w(2) by (intro exI[of _ "c # e # used"]) simp
  next
    case 3
    then obtain w where w: "unquote s = Some (w, r)" "v = c # w" using "2.prems" by (auto split: if_splits)
    then obtain used where "s = used @ r" "\<forall>r'. unquote (used @ r') = Some (w, r')" using "2.IH"(2)[OF 3] by blast
    then show ?thesis using 3 w(2) by (intro exI[of _ "c # used"]) simp
  qed
qed simp

lemma first_token_cut:
  assumes "first_token c s = Some (tok, r)"
  obtains used where "s = used @ r" "\<And>a b. r = a @ b \<Longrightarrow> a \<noteq> [] \<Longrightarrow> first_token c (used @ a) = Some (tok, a)"
proof -
  consider "c = open_paren" | "c = close_paren" | "c = quote_mark" | "c \<noteq> open_paren" "c \<noteq> close_paren" "c \<noteq> quote_mark" by blast
  then show ?thesis
  proof cases
    case 3
    then obtain v where v: "unquote s = Some (v, r)" "tok = Quoted_Token v" using assms by (auto simp: first_token_def)
    then obtain used where "s = used @ r" "\<forall>r'. unquote (used @ r') = Some (v, r')" using unquote_cut by blast
    then show ?thesis using that[of used] v 3 by (simp add: first_token_def)
  next
    case 4
    let ?p = "\<lambda>c. \<not> atom_stop c"
    have r: "tok = Atom_Token (c # takeWhile ?p s)" "r = dropWhile ?p s" using assms 4 by (auto simp: first_token_def)
    have "first_token c (takeWhile ?p s @ a) = Some (tok, a)" if "r = a @ b" "a \<noteq> []" for a b
    proof -
      have "atom_stop (hd r)" using hd_dropWhile[of ?p s] that unfolding r(2) by simp
      then have "atom_stop (hd a)" using that by simp
      then have "takeWhile ?p a = []" "dropWhile ?p a = a" using that(2) by (cases a; simp)+
      then have "takeWhile ?p (takeWhile ?p s @ a) = takeWhile ?p s" "dropWhile ?p (takeWhile ?p s @ a) = a"
        by (auto simp: takeWhile_append dropWhile_append dest: set_takeWhileD)
      then show ?thesis using 4 r(1) by (simp add: first_token_def)
    qed
    then show ?thesis using that[of "takeWhile ?p s"] r(2) by simp
  qed (use assms that[of "[]"] in \<open>auto simp: first_token_def\<close>)
qed

lemma located_cut:
  assumes "located s = Some (xs @ (Close, x, b) # ys)"
  shows "\<exists>a. s = a @ b \<and> a \<noteq> [] \<and> tokens_of a = Some (map fst xs @ [Close]) \<and> located b = Some ys"
  using assms
proof (induction xs arbitrary: s)
  case Nil
  show ?case
  proof (cases s rule: located_cases)
    case (token c r tok r')
    then have e: "tok = Close" "r' = b" "located b = Some ys" using Nil unfolding token(5) by (cases "located r'"; simp)+
    then have "c = close_paren" "r = b" using token(2) by (auto simp: first_token_def split: if_splits)
    then have s: "s = (takeWhile is_whitespace s @ [close_paren]) @ b"
      using token(1) takeWhile_dropWhile_id[of is_whitespace s] by simp
    have "tokens_of (takeWhile is_whitespace s @ [close_paren]) = Some [Close]"
      by (subst tokens_of.simps) (auto simp: dropWhile_append not_space(3) first_token_def tokens_of.simps[of "[]"] dest: set_takeWhileD)
    then show ?thesis using s e(3) by (intro exI[of _ "takeWhile is_whitespace s @ [close_paren]"]) simp
  qed (use Nil in auto)
next
  case (Cons p xs)
  show ?case
  proof (cases s rule: located_cases)
    case (token c r tok r')
    then have e: "p = (tok, c # r, r')" "located r' = Some (xs @ (Close, x, b) # ys)"
      using Cons.prems unfolding token(5) by (cases "located r'"; simp)+
    obtain a where a: "r' = a @ b" "a \<noteq> []" "tokens_of a = Some (map fst xs @ [Close])" "located b = Some ys"
      using Cons.IH[OF e(2)] by blast
    obtain used where used: "r = used @ r'" "\<And>a b. r' = a @ b \<Longrightarrow> a \<noteq> [] \<Longrightarrow> first_token c (used @ a) = Some (tok, a)"
      by (rule first_token_cut[OF token(2)]) blast
    note c = token(4)
    let ?a = "takeWhile is_whitespace s @ c # used @ a"
    have "s = ?a @ b" using token(1) takeWhile_dropWhile_id[of is_whitespace s] used(1) a(1) by simp
    moreover have "tokens_of ?a = Some (map fst (p # xs) @ [Close])"
      by (subst tokens_of.simps) (auto simp: dropWhile_append c used(2)[OF a(1,2)] a(3) e(1) dest: set_takeWhileD)
    ultimately show ?thesis using a(4) by (intro exI[of _ ?a]) simp
  qed (use Cons.prems in auto)
qed

section \<open>The scan token by token\<close>

lemma skip_head_space_append:
  "skip_head_space (pre @ rest) (byte_len pre) = Inr (byte_len (pre @ takeWhile is_whitespace rest))"
proof (induction rest arbitrary: pre)
  case (Cons c rest)
  show ?case
    using Cons[of "pre @ [c]"] by (subst skip_head_space.simps) (simp add: char_at_append[of pre "c # rest", simplified])
qed (simp add: skip_head_space.simps)

lemma quoted_head_step:
  "quoted_head (pre @ c # s) (byte_len pre) name =
    (if c = backslash
     then (case s of [] \<Rightarrow> Inr False
       | e # r \<Rightarrow> (case name of [] \<Rightarrow> Inr False
           | n # ns \<Rightarrow> if n = e then quoted_head ((pre @ [c, e]) @ r) (byte_len (pre @ [c, e])) ns else Inr False))
     else if c = quote_mark then Inr (name = [])
     else (case name of [] \<Rightarrow> Inr False
       | n # ns \<Rightarrow> if n = c then quoted_head ((pre @ [c]) @ s) (byte_len (pre @ [c])) ns else Inr False))"
  using char_at_append[of pre "c # s"] char_at_append[of "pre @ [c]" s]
  by (subst quoted_head.simps) (auto simp: add.assoc split: list.split)

lemma quoted_head_append:
  "quoted_head (pre @ rest) (byte_len pre) name = Inr (case unquote rest of None \<Rightarrow> False | Some (v, r) \<Rightarrow> v = name)"
proof (induction rest arbitrary: pre name rule: unquote.induct)
  case 1
  then show ?case by (simp add: quoted_head.simps)
next
  case (2 c s)
  consider "c = quote_mark" | e t where "c \<noteq> quote_mark" "c = backslash" "s = e # t" | "c = backslash" "s = []"
    | "c \<noteq> quote_mark" "c \<noteq> backslash"
    by (cases s) auto
  then show ?case
  proof cases
    case (2 e t)
    show ?thesis
      using "2.IH"(1)[OF 2, of "pre @ [c, e]"] 2 unfolding quoted_head_step
      by (auto split: list.splits option.splits simp del: append_assoc)
  next
    case 4
    show ?thesis
      using "2.IH"(2)[OF 4, of "pre @ [c]"] 4 unfolding quoted_head_step
      by (auto split: list.splits option.splits simp del: append_assoc)
  qed (auto simp: quoted_head_step)
qed

text \<open>The head of a list whose elements begin with the given text.\<close>

definition head_is :: "utext \<Rightarrow> utext \<Rightarrow> bool" where
  "head_is name s =
     (case dropWhile is_whitespace s of
        [] \<Rightarrow> name = []
      | c # r \<Rightarrow>
          if c = quote_mark then (case unquote r of None \<Rightarrow> False | Some (v, r') \<Rightarrow> v = name)
          else takeWhile (\<lambda>c. \<not> atom_stop c) (c # r) = name)"

lemma list_head_matches_append:
  "list_head_matches (pre @ open_paren # rest) (byte_len pre) name = Inr (head_is name rest)"
proof -
  let ?pre = "(pre @ [open_paren]) @ takeWhile is_whitespace rest"
  let ?r = "dropWhile is_whitespace rest"
  have one: "byte_len pre + 1 = byte_len (pre @ [open_paren])" by (simp add: len_utf8_def)
  have src: "pre @ open_paren # rest = ?pre @ ?r" by simp
  have skip: "skip_head_space (pre @ open_paren # rest) (byte_len pre + 1) = Inr (byte_len ?pre)"
    unfolding one using skip_head_space_append[of "pre @ [open_paren]" rest] by simp
  show ?thesis
  proof (cases ?r)
    case Nil
    have "char_at (pre @ open_paren # rest) (byte_len ?pre) = None" unfolding src Nil by (simp only: char_at_append list.case)
    then show ?thesis unfolding list_head_matches_def skip head_is_def Nil by simp
  next
    case (Cons c r)
    note at = char_at_append[of ?pre "c # r"]
    show ?thesis
    proof (cases "c = quote_mark")
      case True
      have "quoted_head (?pre @ c # r) (byte_len ?pre + len_utf8 c) name =
          Inr (case unquote r of None \<Rightarrow> False | Some (v, r') \<Rightarrow> v = name)"
        using quoted_head_append[of "?pre @ [c]" r name] by (simp add: add.assoc)
      then show ?thesis
        unfolding list_head_matches_def skip head_is_def unfolding src Cons
        using at True by (simp del: append_assoc byte_len_simps)
    next
      case False
      let ?a = "takeWhile (\<lambda>c. \<not> atom_stop c) (c # r)" and ?z = "dropWhile (\<lambda>c. \<not> atom_stop c) (c # r)"
      have "atom_end (?pre @ c # r) (byte_len ?pre) = Inr (byte_len (?pre @ ?a))" by (rule atom_end_append)
      moreover have "text_between (?pre @ c # r) (byte_len ?pre) (byte_len (?pre @ ?a)) = Some ?a"
        using text_between_append[of ?pre ?a ?z] by (simp only: takeWhile_dropWhile_id byte_len_simps(3))
      ultimately show ?thesis
        unfolding list_head_matches_def skip head_is_def unfolding src Cons
        using at False by (simp del: append_assoc byte_len_simps takeWhile.simps)
    qed
  qed
qed

lemma scan_step:
  "scan_loop (pre @ c # r) name target lims (byte_len pre) st =
    (case scan_char (pre @ c # r) name target lims (byte_len pre) c st of Inl e \<Rightarrow> Inl e
     | Inr st' \<Rightarrow> scan_loop ((pre @ [c]) @ r) name target lims (byte_len (pre @ [c])) st')"
  using char_at_append[of pre "c # r"] by (subst scan_loop.simps) (simp split: sum.split)

lemma scan_end: "scan_loop pre name target lims (byte_len pre) st = Inr st"
  by (simp add: scan_loop.simps)

lemma scanner_same:
  "\<not> after_escape st \<Longrightarrow> (st :: scanner)\<lparr>after_escape := False\<rparr> = st" "\<not> token_start st \<Longrightarrow> (st :: scanner)\<lparr>token_start := False\<rparr> = st"
  by (cases st, simp)+

lemma scan_quoted:
  "unquote rest = Some (v, r) \<Longrightarrow> in_quotes st \<Longrightarrow> \<not> after_escape st \<Longrightarrow>
    \<exists>used. rest = used @ r \<and> scan_loop (pre @ rest) name target lims (byte_len pre) st =
      scan_loop ((pre @ used) @ r) name target lims (byte_len (pre @ used)) (st\<lparr>in_quotes := False, token_start := True\<rparr>)"
proof (induction rest arbitrary: pre v rule: unquote.induct)
  case (2 c s)
  consider "c = quote_mark" | e t where "c \<noteq> quote_mark" "c = backslash" "s = e # t" | "c \<noteq> quote_mark" "c \<noteq> backslash"
    using "2.prems" by (cases s) (auto split: if_splits)
  then show ?case
  proof cases
    case 1
    then show ?thesis using "2.prems" by (intro exI[of _ "[c]"]) (simp add: scan_step scan_char_def)
  next
    case (2 e t)
    then obtain w where w: "unquote t = Some (w, r)" using "2.prems" by (auto split: if_splits)
    obtain used where used: "t = used @ r" "scan_loop ((pre @ [c, e]) @ t) name target lims (byte_len (pre @ [c, e])) st =
        scan_loop (((pre @ [c, e]) @ used) @ r) name target lims (byte_len ((pre @ [c, e]) @ used)) (st\<lparr>in_quotes := False, token_start := True\<rparr>)"
      using "2.IH"(1)[OF 2 w "2.prems"(2,3)] by blast
    have "scan_loop (pre @ c # e # t) name target lims (byte_len pre) st =
        scan_loop ((pre @ [c, e]) @ t) name target lims (byte_len (pre @ [c, e])) st"
      using "2.prems"(2,3) 2 scan_step[of "pre @ [c]" e t]
      by (subst scan_step) (simp add: scan_char_def add.assoc scanner_same)
    then show ?thesis using used 2 by (intro exI[of _ "c # e # used"]) (simp del: byte_len_simps)
  next
    case 3
    then obtain w where w: "unquote s = Some (w, r)" using "2.prems" by (auto split: if_splits)
    obtain used where used: "s = used @ r" "scan_loop ((pre @ [c]) @ s) name target lims (byte_len (pre @ [c])) st =
        scan_loop (((pre @ [c]) @ used) @ r) name target lims (byte_len ((pre @ [c]) @ used)) (st\<lparr>in_quotes := False, token_start := True\<rparr>)"
      using "2.IH"(2)[OF 3 w "2.prems"(2,3)] by blast
    have "scan_loop (pre @ c # s) name target lims (byte_len pre) st =
        scan_loop ((pre @ [c]) @ s) name target lims (byte_len (pre @ [c])) st"
      using "2.prems"(2,3) 3 by (subst scan_step) (simp add: scan_char_def)
    then show ?thesis using used by (intro exI[of _ "c # used"]) (simp del: byte_len_simps)
  qed
qed simp

lemma scan_atom:
  "list_all (\<lambda>c. \<not> atom_stop c) a \<Longrightarrow> \<not> in_quotes st \<Longrightarrow> \<not> token_start st \<Longrightarrow>
    scan_loop (pre @ a @ r) name target lims (byte_len pre) st = scan_loop ((pre @ a) @ r) name target lims (byte_len (pre @ a)) st"
proof (induction a arbitrary: pre)
  case (Cons c a)
  have "scan_loop (pre @ c # a @ r) name target lims (byte_len pre) st =
      scan_loop ((pre @ [c]) @ a @ r) name target lims (byte_len (pre @ [c])) st"
    using Cons.prems not_space(6-8)[of c] by (subst scan_step) (simp add: scan_char_def scanner_same)
  then show ?case using Cons.IH[of "pre @ [c]"] Cons.prems by (simp del: byte_len_simps)
qed simp

type_synonym scan_core = "nat \<times> (nat \<times> nat \<times> bool) list \<times> (nat \<times> nat) list"

definition core :: "scanner \<Rightarrow> scan_core" where
  "core st = (scan_depth st, scan_stack st, spans st)"

fun scan_tokens ::
    "utext \<Rightarrow> nat \<Rightarrow> sexp_limits \<Rightarrow> nat \<Rightarrow> (token \<times> utext \<times> utext) list \<Rightarrow> scan_core \<Rightarrow> sexp_error + scan_core" where
  "scan_tokens name target lims n [] k = Inr k"
| "scan_tokens name target lims n ((tok, x, y) # ts) (d, stk, sp) =
     (case tok of
        Open \<Rightarrow>
          if nesting_depth lims \<le> d then Inl Too_Deep
          else scan_tokens name target lims n ts (d + 1, (n - byte_len x, d + 1, head_is name y) # stk, sp)
      | Close \<Rightarrow>
          (case stk of [] \<Rightarrow> Inl Unbalanced
           | (b, e, m) # stk' \<Rightarrow>
               if m \<and> e = target \<and> span_limit lims \<le> length sp then Inl Too_Many_Spans
               else if d = 0 then Inl Unbalanced
               else scan_tokens name target lims n ts (d - 1, stk', if m \<and> e = target then sp @ [(b, n - byte_len y)] else sp))
      | _ \<Rightarrow> scan_tokens name target lims n ts (d, stk, sp))"

definition ends_as :: "sexp_error + scanner \<Rightarrow> sexp_error + scan_core \<Rightarrow> bool" where
  "ends_as out result \<longleftrightarrow>
     (case result of Inl e \<Rightarrow> out = Inl e
      | Inr k \<Rightarrow> \<exists>st. out = Inr st \<and> core st = k \<and> \<not> in_quotes st \<and> \<not> after_escape st)"

lemma located_space: "is_whitespace c \<Longrightarrow> located (c # r) = located r"
  by (simp add: located.simps[of "c # r"] located.simps[of r])

lemma located_here:
  "\<not> is_whitespace c \<Longrightarrow> located (c # r) =
    (case first_token c r of None \<Rightarrow> None | Some (tok, r') \<Rightarrow> map_option ((#) (tok, c # r, r')) (located r'))"
  by (simp add: located.simps[of "c # r"])

lemma scan_loop_tokens:
  "located rest = Some ts \<Longrightarrow> \<not> in_quotes st \<Longrightarrow> \<not> after_escape st \<Longrightarrow>
    token_start st \<or> rest = [] \<or> atom_stop (hd rest) \<Longrightarrow>
    ends_as (scan_loop (pre @ rest) name target lims (byte_len pre) st)
      (scan_tokens name target lims (byte_len (pre @ rest)) ts (core st))"
proof (induction rest arbitrary: pre st ts rule: length_induct)
  case (1 rest)
  show ?case
  proof (cases rest)
    case Nil
    then show ?thesis using 1(2-4) by (auto simp: located.simps[of "[]"] scan_end ends_as_def)
  next
    case (Cons c r)
    have ih: "ends_as (scan_loop ((pre @ used) @ r') name target lims (byte_len (pre @ used)) st')
        (scan_tokens name target lims (byte_len (pre @ rest)) ts' (core st'))"
      if "rest = used @ r'" "used \<noteq> []" "located r' = Some ts'" "\<not> in_quotes st'" "\<not> after_escape st'"
        "token_start st' \<or> r' = [] \<or> atom_stop (hd r')" for used r' ts' st'
      using 1(1)[rule_format, of r' ts' st' "pre @ used"] that by (simp del: byte_len_simps)
    have one: "len_utf8 open_paren = 1" "len_utf8 close_paren = 1" by (simp_all add: len_utf8_def)
    consider "is_whitespace c" | "c = open_paren" | "c = close_paren" | "c = quote_mark"
      | "\<not> atom_stop c" "c \<noteq> quote_mark"
      by (auto simp: atom_stop_def)
    then show ?thesis
    proof cases
      case 1
      have c: "c \<noteq> quote_mark" "c \<noteq> open_paren" "c \<noteq> close_paren" using 1 not_space(1-3) by auto
      have "scan_loop (pre @ rest) name target lims (byte_len pre) st =
          scan_loop ((pre @ [c]) @ r) name target lims (byte_len (pre @ [c])) (st\<lparr>token_start := True\<rparr>)"
        using "1.prems"(2) 1 c by (simp add: Cons scan_step scan_char_def)
      then show ?thesis
        using ih[of "[c]" r ts "st\<lparr>token_start := True\<rparr>"] "1.prems" 1 by (simp add: Cons located_space core_def)
    next
      case 2
      then obtain us where us: "located r = Some us" "ts = (Open, c # r, r) # us"
        using "1.prems"(1) by (auto simp: Cons located_here not_space(2) first_token_def)
      show ?thesis
      proof (cases "nesting_depth lims \<le> scan_depth st")
        case True
        then show ?thesis using "1.prems"(2) 2 by (simp add: Cons scan_step scan_char_def us core_def ends_as_def)
      next
        case False
        let ?st = "st\<lparr>scan_depth := scan_depth st + 1,
            scan_stack := (byte_len pre, scan_depth st + 1, head_is name r) # scan_stack st, token_start := True\<rparr>"
        have "scan_loop (pre @ rest) name target lims (byte_len pre) st =
            scan_loop ((pre @ [c]) @ r) name target lims (byte_len (pre @ [c])) ?st"
          using "1.prems"(2) 2 False by (simp add: Cons scan_step scan_char_def list_head_matches_append)
        then show ?thesis
          using ih[of "[c]" r us ?st] "1.prems"(2,3) us False by (simp add: Cons core_def)
      qed
    next
      case 3
      then obtain us where us: "located r = Some us" "ts = (Close, c # r, r) # us"
        using "1.prems"(1) by (auto simp: Cons located_here not_space(3) first_token_def)
      show ?thesis
      proof (cases "scan_stack st")
        case Nil
        then show ?thesis using "1.prems"(2) 3 by (simp add: Cons scan_step scan_char_def us core_def ends_as_def)
      next
        case (Cons top stk)
        obtain b e m where top: "top = (b, e, m)" by (cases top)
        consider "m \<and> e = target \<and> span_limit lims \<le> length (spans st)" | "\<not> (m \<and> e = target \<and> span_limit lims \<le> length (spans st))"
          "scan_depth st = 0" | "\<not> (m \<and> e = target \<and> span_limit lims \<le> length (spans st))" "scan_depth st \<noteq> 0" by blast
        then show ?thesis
        proof cases
          case 1
          then show ?thesis using "1.prems"(2) 3
            by (simp add: \<open>rest = c # r\<close> scan_step scan_char_def us core_def ends_as_def Cons top)
        next
          case 2
          then show ?thesis using "1.prems"(2) 3
            by (auto simp: \<open>rest = c # r\<close> scan_step scan_char_def us core_def ends_as_def Cons top)
        next
          case 3
          let ?st = "st\<lparr>scan_stack := stk, spans := if m \<and> e = target then spans st @ [(b, byte_len pre + 1)] else spans st,
              scan_depth := scan_depth st - 1, token_start := True\<rparr>"
          have "scan_loop (pre @ rest) name target lims (byte_len pre) st =
              scan_loop ((pre @ [c]) @ r) name target lims (byte_len (pre @ [c])) ?st"
            using "1.prems"(2) \<open>c = close_paren\<close> 3 by (auto simp: \<open>rest = c # r\<close> scan_step scan_char_def Cons top)
          then show ?thesis
            using ih[of "[c]" r us ?st] "1.prems"(2,3) us 3 \<open>c = close_paren\<close> one by (auto simp: \<open>rest = c # r\<close> core_def Cons top)
        qed
      qed
    next
      case 4
      then have start: "token_start st" using "1.prems"(4) by (auto simp: Cons atom_stop_def is_whitespace_def)
      obtain v r' us where us: "unquote r = Some (v, r')" "located r' = Some us" "ts = (Quoted_Token v, c # r, r') # us"
        using "1.prems"(1) 4 by (auto simp: Cons located_here not_space(1) first_token_def split: option.splits)
      let ?st = "st\<lparr>in_quotes := True, token_start := False\<rparr>"
      have first: "scan_loop (pre @ rest) name target lims (byte_len pre) st =
          scan_loop ((pre @ [c]) @ r) name target lims (byte_len (pre @ [c])) ?st"
        using "1.prems"(2) 4 start by (simp add: Cons scan_step scan_char_def)
      have quoted: "in_quotes ?st" "\<not> after_escape ?st" using "1.prems"(3) by simp_all
      obtain used where used: "r = used @ r'" "scan_loop ((pre @ [c]) @ r) name target lims (byte_len (pre @ [c])) ?st =
          scan_loop (((pre @ [c]) @ used) @ r') name target lims (byte_len ((pre @ [c]) @ used)) (?st\<lparr>in_quotes := False, token_start := True\<rparr>)"
        using scan_quoted[OF us(1) quoted, of "pre @ [c]" name target lims] by blast
      show ?thesis
        using ih[of "c # used" r' us "?st\<lparr>in_quotes := False, token_start := True\<rparr>"] used(1) us(2,3) "1.prems"(3)
        unfolding first used(2) by (simp add: Cons core_def)
    next
      case 5
      let ?a = "takeWhile (\<lambda>c. \<not> atom_stop c) r" and ?r = "dropWhile (\<lambda>c. \<not> atom_stop c) r"
      note c = not_space(6-8)[OF 5(1)]
      obtain us where us: "located ?r = Some us" "ts = (Atom_Token (c # ?a), c # r, ?r) # us"
        using "1.prems"(1) 5 c by (auto simp: Cons located_here first_token_def)
      have stop: "list_all (\<lambda>c. \<not> atom_stop c) ?a" by (auto simp: list_all_iff dest: set_takeWhileD)
      let ?st = "st\<lparr>token_start := False\<rparr>"
      have "scan_loop (pre @ rest) name target lims (byte_len pre) st =
          scan_loop ((pre @ [c]) @ r) name target lims (byte_len (pre @ [c])) ?st"
        using "1.prems"(2) 5(2) c by (simp add: Cons scan_step scan_char_def)
      also have "\<dots> = scan_loop (((pre @ [c]) @ ?a) @ ?r) name target lims (byte_len ((pre @ [c]) @ ?a)) ?st"
        using scan_atom[OF stop, of ?st "pre @ [c]" ?r name target lims] "1.prems"(2)
        unfolding takeWhile_dropWhile_id[of "\<lambda>c. \<not> atom_stop c" r] by simp
      finally have first: "scan_loop (pre @ rest) name target lims (byte_len pre) st = \<dots>" .
      have "?r = [] \<or> atom_stop (hd ?r)" using hd_dropWhile[of "\<lambda>c. \<not> atom_stop c" r] by blast
      then show ?thesis
        using ih[of "c # ?a" ?r us ?st] us "1.prems"(2,3) unfolding first by (simp add: Cons core_def)
    qed
  qed
qed

section \<open>The lists of a text\<close>

definition named :: "utext \<Rightarrow> sexp list \<Rightarrow> bool" where
  "named name vs =
     (case vs of [] \<Rightarrow> name = [] | v # _ \<Rightarrow> (case v of Atom a \<Rightarrow> a = name | Quoted_Atom a \<Rightarrow> a = name | List_Of _ \<Rightarrow> name = []))"

text \<open>The lists at a depth whose head is the name, in the order of their closing parentheses.\<close>

fun lists_at :: "utext \<Rightarrow> nat \<Rightarrow> sexp \<Rightarrow> sexp list" where
  "lists_at name k (Atom a) = []"
| "lists_at name k (Quoted_Atom a) = []"
| "lists_at name k (List_Of vs) =
     concat (map (lists_at name (k - 1)) vs) @ (if k = 1 \<and> named name vs then [List_Of vs] else [])"

definition span_spells :: "utext \<Rightarrow> nat \<times> nat \<Rightarrow> sexp \<Rightarrow> bool" where
  "span_spells s ij u \<longleftrightarrow> (\<exists>p a y. s = p @ a @ y \<and> ij = (byte_len p, byte_len (p @ a)) \<and> tokens_of a = Some (flat u))"

lemma located_Cons:
  assumes "located s = Some ((tok, x, y) # ts)"
  shows "located y = Some ts" "located x = Some ((tok, x, y) # ts)" "\<exists>p. s = p @ x" "\<exists>p. x = p @ y"
proof -
  obtain c r where c: "dropWhile is_whitespace s = c # r" "x = c # r" "first_token c r = Some (tok, y)" "located y = Some ts"
    "\<not> is_whitespace c"
  proof (cases s rule: located_cases)
    case (token c r tok' r')
    have "tok' = tok" "x = c # r" "r' = y" "located r' = Some ts"
      using assms unfolding token(5) by (cases "located r'"; simp)+
    then show ?thesis using that[of c r] token(1,2,4) by simp
  qed (use assms in auto)
  show "located x = Some ((tok, x, y) # ts)" using c by (simp add: located_here)
  show "located y = Some ts" by fact
  show "\<exists>p. s = p @ x" using c(1,2) takeWhile_dropWhile_id[of is_whitespace s] by metis
  show "\<exists>p. x = p @ y" using first_token_suffix[OF c(3)] c(2) by simp
qed

lemma located_suffix: "located s = Some ts \<Longrightarrow> (tok, x, y) \<in> set ts \<Longrightarrow> \<exists>p. s = p @ x"
proof (induction ts arbitrary: s)
  case (Cons t ts)
  obtain tok' x' y' where t: "t = (tok', x', y')" by (cases t)
  note c = located_Cons[OF Cons.prems(1)[unfolded t]]
  show ?case
  proof (cases "(tok, x, y) = t")
    case True
    then show ?thesis using c(3) t by simp
  next
    case False
    then obtain p where "y' = p @ x" using Cons.IH[OF c(1)] Cons.prems(2) by auto
    then show ?thesis using c(3,4) by (metis append_assoc)
  qed
qed simp

lemma located_drop: "located s = Some (xs @ ys) \<Longrightarrow> \<exists>s'. located s' = Some ys"
proof (induction xs arbitrary: s)
  case (Cons t xs)
  obtain tok x y where t: "t = (tok, x, y)" by (cases t)
  have "located s = Some ((tok, x, y) # (xs @ ys))" using Cons.prems t by simp
  then show ?case using Cons.IH located_Cons(1) by blast
qed (simp add: exI)

lemma head_is_tokens:
  assumes "tokens_of y = Some (t # ts)"
  shows "head_is name y \<longleftrightarrow> (case t of Atom_Token a \<Rightarrow> a = name | Quoted_Token a \<Rightarrow> a = name | _ \<Rightarrow> name = [])"
proof (cases y rule: located_cases)
  case (token c r tok r')
  have "tok = t" using assms unfolding token(6) by (cases "tokens_of r'") simp_all
  then show ?thesis using token(1,2,4)
    by (cases "c = quote_mark") (auto simp: head_is_def first_token_def atom_stop_def split: option.splits if_splits)
qed (use assms in auto)

lemma head_is_named: "tokens_of y = Some (flats vs @ Close # ts) \<Longrightarrow> head_is name y \<longleftrightarrow> named name vs"
proof (cases vs)
  case (Cons v us)
  assume "tokens_of y = Some (flats vs @ Close # ts)"
  then show ?thesis by (cases v) (auto simp: Cons named_def head_is_tokens)
qed (simp add: named_def head_is_tokens)

text \<open>The scan over the tokens of some values adds the spans of their lists.\<close>

definition scans_to :: "utext \<Rightarrow> utext \<Rightarrow> nat \<Rightarrow> sexp_limits \<Rightarrow> token list \<Rightarrow> (nat \<Rightarrow> bool) \<Rightarrow> (nat \<Rightarrow> sexp list) \<Rightarrow> bool" where
  "scans_to s name target lims toks shape result \<longleftrightarrow>
     (\<forall>lts ts t d stk sp. map fst lts = toks \<longrightarrow> located t = Some (lts @ ts) \<longrightarrow>
        (\<forall>(tok, x, y) \<in> set (lts @ ts). \<exists>p. s = p @ x) \<longrightarrow> shape d \<longrightarrow> length sp + length (result d) \<le> span_limit lims \<longrightarrow>
        (\<exists>found. scan_tokens name target lims (byte_len s) (lts @ ts) (d, stk, sp) =
            scan_tokens name target lims (byte_len s) ts (d, stk, sp @ found) \<and> list_all2 (span_spells s) found (result d)))"

lemma scans_toD:
  assumes "scans_to s name target lims toks shape result" "map fst lts = toks" "located t = Some (lts @ ts)"
    "\<forall>(tok, x, y) \<in> set (lts @ ts). \<exists>p. s = p @ x" "shape d" "length sp + length (result d) \<le> span_limit lims"
  obtains found where "scan_tokens name target lims (byte_len s) (lts @ ts) (d, stk, sp) =
      scan_tokens name target lims (byte_len s) ts (d, stk, sp @ found)" "list_all2 (span_spells s) found (result d)"
  using assms(1)[unfolded scans_to_def, THEN spec, THEN spec, THEN spec, THEN spec, THEN spec, THEN spec,
      THEN mp, OF assms(2), THEN mp, OF assms(3), THEN mp, OF assms(4), THEN mp, OF assms(5), THEN mp, OF assms(6)] by blast

lemma scan_values:
  assumes "\<And>v. v \<in> set vs \<Longrightarrow> scans_to s name target lims (flat v) (\<lambda>d. shape_fits lims d v) (\<lambda>d. lists_at name (target - d) v)"
  shows "scans_to s name target lims (flats vs) (\<lambda>d. list_all (shape_fits lims d) vs)
    (\<lambda>d. concat (map (lists_at name (target - d)) vs))"
  using assms
proof (induction vs)
  case Nil
  then show ?case by (auto simp: scans_to_def intro!: exI[of _ "[]"])
next
  case (Cons w ws)
  note one = Cons.prems[of w, simplified] and more_ws = Cons.IH[OF Cons.prems, simplified]
  show ?case unfolding scans_to_def
  proof (intro allI impI)
    fix ls us t e stk and sp :: "(nat \<times> nat) list"
    assume p: "map fst ls = flats (w # ws)" "located t = Some (ls @ us)" "\<forall>(tok, x, y) \<in> set (ls @ us). \<exists>p. s = p @ x"
      "list_all (shape_fits lims e) (w # ws)" "length sp + length (concat (map (lists_at name (target - e)) (w # ws))) \<le> span_limit lims"
    obtain l1 l2 where ls: "ls = l1 @ l2" "map fst l1 = flat w" "map fst l2 = flats ws"
      using p(1) by (auto simp: map_eq_append_conv)
    have "\<forall>(tok, x, y) \<in> set (l1 @ l2 @ us). \<exists>p. s = p @ x" "shape_fits lims e w" "list_all (shape_fits lims e) ws"
      "located t = Some (l1 @ l2 @ us)" "length sp + length (lists_at name (target - e) w) \<le> span_limit lims"
      using p ls(1) by auto
    note q = this
    obtain f1 where f1: "scan_tokens name target lims (byte_len s) (l1 @ l2 @ us) (e, stk, sp) =
        scan_tokens name target lims (byte_len s) (l2 @ us) (e, stk, sp @ f1)" "list_all2 (span_spells s) f1 (lists_at name (target - e) w)"
      by (rule scans_toD[OF one ls(2) q(4,1,2,5)])
    obtain t' where t': "located t' = Some (l2 @ us)" using located_drop[OF q(4)] by blast
    have len: "length f1 = length (lists_at name (target - e) w)" using f1(2) by (rule list_all2_lengthD)
    have r: "\<forall>(tok, x, y) \<in> set (l2 @ us). \<exists>p. s = p @ x"
      "length (sp @ f1) + length (concat (map (lists_at name (target - e)) ws)) \<le> span_limit lims"
      using q(1) p(5) len by auto
    obtain f2 where f2: "scan_tokens name target lims (byte_len s) (l2 @ us) (e, stk, sp @ f1) =
        scan_tokens name target lims (byte_len s) us (e, stk, (sp @ f1) @ f2)"
      "list_all2 (span_spells s) f2 (concat (map (lists_at name (target - e)) ws))"
      by (rule scans_toD[OF more_ws ls(3) t' r(1) q(3) r(2)]) simp_all
    show "\<exists>found. scan_tokens name target lims (byte_len s) (ls @ us) (e, stk, sp) =
        scan_tokens name target lims (byte_len s) us (e, stk, sp @ found) \<and>
        list_all2 (span_spells s) found (concat (map (lists_at name (target - e)) (w # ws)))"
      using f1 f2 ls(1) by (intro exI[of _ "f1 @ f2"]) (simp add: list_all2_appendI)
  qed
qed

lemma scan_value:
  "scans_to s name target lims (flat v) (\<lambda>d. shape_fits lims d v) (\<lambda>d. lists_at name (target - d) v)"
proof (induction v)
  case (Atom a)
  then show ?case by (auto simp: scans_to_def map_eq_Cons_conv intro!: exI[of _ "[]"])
next
  case (Quoted_Atom a)
  then show ?case by (auto simp: scans_to_def map_eq_Cons_conv intro!: exI[of _ "[]"])
next
  case (List_Of vs)
  note inside = scan_values[OF List_Of.IH]
  show ?case unfolding scans_to_def
  proof (intro allI impI)
  fix lts ts s' d stk and sp :: "(nat \<times> nat) list"
  assume P: "map fst lts = flat (List_Of vs)" "located s' = Some (lts @ ts)" "\<forall>(tok, x, y) \<in> set (lts @ ts). \<exists>p. s = p @ x"
    "shape_fits lims d (List_Of vs)" "length sp + length (lists_at name (target - d) (List_Of vs)) \<le> span_limit lims"
  obtain x y inner x2 y2 where lts: "lts = (Open, x, y) # inner @ [(Close, x2, y2)]" "map fst inner = flats vs"
    using P(1) by (auto simp: map_eq_Cons_conv map_eq_append_conv)
  have loc: "located s' = Some ((Open, x, y) # inner @ (Close, x2, y2) # ts)" using P(2) lts(1) by simp
  note first = located_Cons[OF loc]
  have head: "head_is name y = named name vs"
    using located_tokens[of y] first(1) lts(2) by (intro head_is_named[of y vs "map fst ts"]) simp
  have shape: "d < nesting_depth lims" "list_all (shape_fits lims (Suc d)) vs" using P(4) by simp_all
  have "length sp + length (concat (map (lists_at name (target - Suc d)) vs)) \<le> span_limit lims"
    using P(5) by simp
  note bound = this
  have known: "located y = Some (inner @ (Close, x2, y2) # ts)" "\<forall>(tok, x, y) \<in> set (inner @ (Close, x2, y2) # ts). \<exists>p. s = p @ x"
    using first(1) P(3) lts(1) by auto
  obtain found where found:
    "scan_tokens name target lims (byte_len s) (inner @ (Close, x2, y2) # ts) (Suc d, (byte_len s - byte_len x, Suc d, named name vs) # stk, sp) =
      scan_tokens name target lims (byte_len s) ((Close, x2, y2) # ts) (Suc d, (byte_len s - byte_len x, Suc d, named name vs) # stk, sp @ found)"
    "list_all2 (span_spells s) found (concat (map (lists_at name (target - Suc d)) vs))"
    by (rule scans_toD[OF inside lts(2) known shape(2) bound])
  obtain a where a: "x = a @ y2" "tokens_of a = Some (map fst ((Open, x, y) # inner) @ [Close])"
    using located_cut[of x "(Open, x, y) # inner" x2 y2 ts] first(2) by auto
  obtain p where p: "s = p @ x" using P(3) lts(1) by auto
  have span: "span_spells s (byte_len s - byte_len x, byte_len s - byte_len y2) (List_Of vs)"
    unfolding span_spells_def by (intro exI[of _ p] exI[of _ a] exI[of _ y2]) (simp add: p a lts(2))
  have len: "length found = length (concat (map (lists_at name (target - Suc d)) vs))" using found(2) by (rule list_all2_lengthD)
  show "\<exists>found. scan_tokens name target lims (byte_len s) (lts @ ts) (d, stk, sp) =
        scan_tokens name target lims (byte_len s) ts (d, stk, sp @ found) \<and>
      list_all2 (span_spells s) found (lists_at name (target - d) (List_Of vs))"
  proof (cases "named name vs \<and> Suc d = target")
    case True
    then have "\<not> span_limit lims \<le> length (sp @ found)" using P(5) len by auto
    then show ?thesis using True found span shape(1) lts(1)
      by (intro exI[of _ "found @ [(byte_len s - byte_len x, byte_len s - byte_len y2)]"]) (auto simp: head list_all2_appendI)
  next
    case False
    then have "\<not> (target - d = 1 \<and> named name vs)" by auto
    then show ?thesis using False found shape(1) lts(1) by (intro exI[of _ found]) (auto simp: head)
  qed
  qed
qed

section \<open>Properties\<close>

text \<open>C36: The spans of lists agree with the parser: on a text that parses, and unless there are too many of
  them, the scan returns the spans of exactly the lists at the wanted depth with the wanted head, in
  the order of their closing parentheses: the text between the two positions has the tokens of the list.\<close>

theorem list_spans_exact:
  assumes "parse_with_limits s lims Sequence = Inr vs" "target \<le> nesting_depth lims"
    and "length (concat (map (lists_at name target) vs)) \<le> span_limit lims"
  shows "\<exists>found. scan_list_spans_with_limits s name target lims = Inr found \<and>
    list_all2 (span_spells s) found (concat (map (lists_at name target) vs))"
proof -
  have p: "byte_len s \<le> input_bytes lims" "tokens_of s = Some (flats vs)" "list_all (shape_fits lims 0) vs"
    using assms(1) by (simp_all add: parse_spec)
  obtain lts where lts: "located s = Some lts" "map fst lts = flats vs" using p(2) located_tokens[of s] by (cases "located s") auto
  have suffix: "\<forall>(tok, x, y) \<in> set (lts @ []). \<exists>p. s = p @ x" using located_suffix[OF lts(1)] by auto
  have loc: "located s = Some (lts @ [])" "length [] + length (concat (map (lists_at name (target - 0)) vs)) \<le> span_limit lims"
    using lts(1) assms(3) by simp_all
  obtain found where found: "scan_tokens name target lims (byte_len s) (lts @ []) (0, [], []) =
      scan_tokens name target lims (byte_len s) [] (0, [], [] @ found)"
    "list_all2 (span_spells s) found (concat (map (lists_at name (target - 0)) vs))"
    by (rule scans_toD[OF scan_values[OF scan_value] lts(2) loc(1) suffix p(3) loc(2)])
  let ?start = "\<lparr>scan_depth = 0, scan_stack = [], spans = [], in_quotes = False, after_escape = False, token_start = True\<rparr>"
  have "ends_as (scan_loop s name target lims 0 ?start) (Inr (0, [], found))"
    using scan_loop_tokens[OF lts(1), of ?start "[]" name target lims] found(1) by (simp add: core_def)
  then show ?thesis using p(1) assms(2) found(2)
    by (auto simp: scan_list_spans_with_limits_def ends_as_def core_def)
qed

definition nested_text :: utext where
  "nested_text = [open_paren, 0x61, 0x20, open_paren, 0x62, close_paren, close_paren]"

lemma nested_parse: "parse_with_limits nested_text default_limits Sequence = Inr [List_Of [Atom [0x61], List_Of [Atom [0x62]]]]"
  by (simp add: parse_spec nested_text_def tokens_of.simps first_token_def is_whitespace_def atom_stop_def default_limits_def
      token_fits_def len_utf8_def)

theorem list_spans_exact_witness:
  "\<exists>found. scan_list_spans_with_limits nested_text [0x62] 2 default_limits = Inr found \<and>
    list_all2 (span_spells nested_text) found [List_Of [Atom [0x62]]]"
  using list_spans_exact[OF nested_parse, of 2 "[0x62]"] by (simp add: default_limits_def named_def)

end
