(* ===== verification/Candidates.thy ===== *)
theory Candidates
  imports Orchestrate "HOL-Library.Product_Lexorder" "HOL-Library.List_Lexorder" "HOL-Library.Char_ord"
begin

text \<open>
  The quality of a routed board, \<open>quality.rs\<close>, and the choice among routing candidates,
  \<open>routing_candidates.rs\<close>, of \<open>crates/pcbex-core/src\<close>: candidates are routed with different
  costs and net orders by worker threads, collected in the order of their numbers, compared for Pareto
  dominance, and the cheapest of the front is selected. The router as a whole, the design-rule checker
  and the two measures that compute in \<open>f64\<close> are fields of a record of services.
\<close>

section \<open>Services\<close>

text \<open>\<open>route_length_nm\<close>, \<open>checking::coupled_percent\<close>, \<open>checking::check_board\<close> and
  \<open>route_board_with_variant_and_work_budget\<close>: board, worker limit, search variant, work budget.\<close>

record services =
  length_of :: "route \<Rightarrow> nm"
  coupling_of :: "route \<Rightarrow> route \<Rightarrow> differential_pair \<Rightarrow> nat"
  check_of :: checker
  router_of :: "board \<Rightarrow> nat \<Rightarrow> nat \<Rightarrow> nat \<Rightarrow> string + board \<times> route_report"

definition DEFAULT_ASTAR_WORK_BUDGET :: nat where
  "DEFAULT_ASTAR_WORK_BUDGET = MAX_ASTAR_WORK_BUDGET"

section \<open>Quality\<close>

record net_quality =
  quality_net_id :: nat
  quality_name :: string
  is_routed :: bool
  net_length_nm :: nm
  segment_count :: nat
  arc_count :: nat
  via_count :: nat
  bend_count :: nat
  layers_used :: nat

record differential_quality =
  quality_pair_name :: string
  positive_length_nm :: nm
  negative_length_nm :: nm
  skew_nm :: nm
  coupled_percent :: nat

record quality_summary =
  total_length_nm :: nm
  total_vias :: nat
  total_bends :: nat
  routed_nets :: nat
  unrouted_nets :: nat
  net_qualities :: "net_quality list"
  pair_qualities :: "differential_quality list"

definition saturating_length_sum :: "nm list \<Rightarrow> nm" where
  "saturating_length_sum ls = foldl saturating_add_i64 0 ls"

definition coordinate_direction :: "nm \<Rightarrow> nm \<Rightarrow> int" where
  "coordinate_direction s e = sgn (e - s)"

definition segment_direction :: "segment \<Rightarrow> int \<times> int" where
  "segment_direction sg =
     (coordinate_direction (x_nm (seg_start sg)) (x_nm (seg_end sg)),
      coordinate_direction (y_nm (seg_start sg)) (y_nm (seg_end sg)))"

definition route_bends :: "route \<Rightarrow> nat" where
  "route_bends rt =
     length (filter (\<lambda>(s, t). seg_end s = seg_start t \<and> segment_direction s \<noteq> segment_direction t) (windows2 (segments rt)))"

definition route_of :: "board \<Rightarrow> nat \<Rightarrow> route option" where
  "route_of b k = find (\<lambda>rt. net_id rt = k) (routes b)"

definition quality_of_net :: "'s services_scheme \<Rightarrow> board \<Rightarrow> net \<Rightarrow> net_quality" where
  "quality_of_net svc b n =
     (let rt = route_of b (net_ident n);
          map_or = (\<lambda>f. case rt of None \<Rightarrow> 0 | Some r \<Rightarrow> f r)
      in \<lparr>quality_net_id = net_ident n, quality_name = net_name n, is_routed = rt \<noteq> None,
          net_length_nm = (case rt of None \<Rightarrow> 0 | Some r \<Rightarrow> length_of svc r),
          segment_count = map_or (\<lambda>r. length (segments r)),
          arc_count = map_or (\<lambda>r. length (arcs r)),
          via_count = map_or (\<lambda>r. length (vias r)),
          bend_count = map_or route_bends,
          layers_used = map_or (\<lambda>r. card (seg_layer ` set (segments r)))\<rparr>)"

definition quality_of_pair :: "'s services_scheme \<Rightarrow> board \<Rightarrow> differential_pair \<Rightarrow> differential_quality option" where
  "quality_of_pair svc b p =
     Option.bind (route_of b (positive_net_id p)) (\<lambda>pos.
     Option.bind (route_of b (negative_net_id p)) (\<lambda>neg.
     Some \<lparr>quality_pair_name = pair_name p, positive_length_nm = length_of svc pos, negative_length_nm = length_of svc neg,
       skew_nm = \<bar>length_of svc pos - length_of svc neg\<bar>,
       coupled_percent = min (coupling_of svc pos neg p) (coupling_of svc neg pos p)\<rparr>))"

definition routing_quality :: "'s services_scheme \<Rightarrow> board \<Rightarrow> quality_summary" where
  "routing_quality svc b =
     (let qs = map (quality_of_net svc b) (nets b)
      in \<lparr>total_length_nm = saturating_length_sum (map net_length_nm qs),
          total_vias = sum_list (map via_count qs),
          total_bends = sum_list (map bend_count qs),
          routed_nets = length (filter is_routed qs),
          unrouted_nets = length (filter (\<lambda>q. \<not> is_routed q) qs),
          net_qualities = qs,
          pair_qualities = List.map_filter (quality_of_pair svc b) (differential_pairs b)\<rparr>)"

text \<open>\<open>format!("{}")\<close> of a signed number.\<close>

definition show_int :: "int \<Rightarrow> string" where
  "show_int i = (if i < 0 then CHR ''-'' # show_nat (nat (- i)) else show_nat (nat i))"

definition regressions_against :: "quality_summary \<Rightarrow> quality_summary \<Rightarrow> string list" where
  "regressions_against q base =
     (if total_length_nm q > total_length_nm base
      then [''total length regressed from '' @ show_int (total_length_nm base) @ '' to '' @ show_int (total_length_nm q) @ '' nm'']
      else []) @
     (if total_vias q > total_vias base
      then [''via count regressed from '' @ show_nat (total_vias base) @ '' to '' @ show_nat (total_vias q)]
      else []) @
     (if total_bends q > total_bends base
      then [''bend count regressed from '' @ show_nat (total_bends base) @ '' to '' @ show_nat (total_bends q)]
      else []) @
     (if unrouted_nets q > unrouted_nets base
      then [''unrouted-net count regressed from '' @ show_nat (unrouted_nets base) @ '' to '' @ show_nat (unrouted_nets q)]
      else [])"

section \<open>Objectives and costs\<close>

datatype routing_candidate_objective = Balanced | Shortest | Via_Minimized | Bend_Minimized | Alternate_Order

definition objective :: "nat \<Rightarrow> routing_candidate_objective" where
  "objective i =
     (let k = i mod 5 in
      if k = 0 then Balanced else if k = 1 then Shortest else if k = 2 then Via_Minimized
      else if k = 3 then Bend_Minimized else Alternate_Order)"

definition saturating_mul_u32 :: "nat \<Rightarrow> nat \<Rightarrow> nat" where
  "saturating_mul_u32 x y = min (x * y) (2 ^ 32 - 1)"

definition objective_costs :: "board \<Rightarrow> routing_candidate_objective \<Rightarrow> nat \<times> nat" where
  "objective_costs b obj =
     (let bend = bend_cost (rules_of b);
          via = via_cost (rules_of b)
      in case obj of
           Balanced \<Rightarrow> (bend, via)
         | Alternate_Order \<Rightarrow> (bend, via)
         | Shortest \<Rightarrow> (0, max (via div 4) 1)
         | Via_Minimized \<Rightarrow> (bend, max (saturating_mul_u32 via 8) 100)
         | Bend_Minimized \<Rightarrow> (max (saturating_mul_u32 bend 8) 50, via))"

definition saturating_mul_u64 :: "nat \<Rightarrow> nat \<Rightarrow> nat" where
  "saturating_mul_u64 x y = min (x * y) u64_max"

definition saturating_add_u64 :: "nat \<Rightarrow> nat \<Rightarrow> nat" where
  "saturating_add_u64 x y = min (x + y) u64_max"

definition selection_cost :: "board \<Rightarrow> quality_summary \<Rightarrow> nat" where
  "selection_cost b q =
     (let grid = nat (max (grid_nm (rules_of b)) 1);
          len = nat (max (total_length_nm q) 0) div grid
      in saturating_add_u64
           (saturating_add_u64 (saturating_mul_u64 len 10) (saturating_mul_u64 (total_vias q) (via_cost (rules_of b))))
           (saturating_mul_u64 (total_bends q) (bend_cost (rules_of b))))"

definition dominates :: "quality_summary \<Rightarrow> quality_summary \<Rightarrow> bool" where
  "dominates left right =
     (let values = (\<lambda>q. [unrouted_nets q, nat (max (total_length_nm q) 0), total_vias q, total_bends q]);
          pairs = zip (values left) (values right)
      in list_all (\<lambda>(x, y). x \<le> y) pairs \<and> list_ex (\<lambda>(x, y). x < y) pairs)"

section \<open>Candidates\<close>

record routing_candidate_options =
  candidate_count :: nat
  candidate_workers :: nat
  router_workers :: nat

definition default_candidate_options :: routing_candidate_options where
  "default_candidate_options = \<lparr>candidate_count = 5, candidate_workers = 4, router_workers = 2\<rparr>"

record routing_candidate =
  candidate_id :: string
  candidate_objective :: routing_candidate_objective
  candidate_variant :: nat
  candidate_bend_cost :: nat
  candidate_via_cost :: nat
  candidate_board :: board
  candidate_report :: route_report
  candidate_quality :: quality_summary
  candidate_cost :: nat
  candidate_duplicate_of :: "string option"
  pareto_optimal :: bool

record routing_candidate_set =
  set_schema_version :: nat
  set_options :: routing_candidate_options
  set_candidates :: "routing_candidate list"
  pareto_front :: "string list"
  set_selected_id :: string

text \<open>\<open>selected\<close>; the code panics where this is \<open>None\<close>.\<close>

definition selected :: "routing_candidate_set \<Rightarrow> routing_candidate option" where
  "selected cset = find (\<lambda>c. candidate_id c = set_selected_id cset) (set_candidates cset)"

text \<open>\<open>{:03}\<close>.\<close>

definition show_padded :: "nat \<Rightarrow> string" where
  "show_padded n = replicate (3 - length (show_nat n)) CHR ''0'' @ show_nat n"

text \<open>What a thread computes for an index and sends over the channel.\<close>

type_synonym made = "routing_candidate_objective \<times> nat \<times> nat \<times> (string + board \<times> route_report)"

definition with_costs :: "board \<Rightarrow> nat \<Rightarrow> nat \<Rightarrow> board" where
  "with_costs b bend via = b\<lparr>rules_of := (rules_of b)\<lparr>bend_cost := bend, via_cost := via\<rparr>\<rparr>"

definition make_candidate :: "'s services_scheme \<Rightarrow> board \<Rightarrow> routing_candidate_options \<Rightarrow> nat \<Rightarrow> made" where
  "make_candidate svc b opts i =
     (let obj = objective i;
          (bend, via) = objective_costs b obj
      in (obj, bend, via, router_of svc (with_costs b bend via) (router_workers opts) (i mod 256) DEFAULT_ASTAR_WORK_BUDGET))"

definition candidate_name :: "nat \<Rightarrow> string" where
  "candidate_name i = ''candidate-'' @ show_padded (i + 1)"

definition new_candidate ::
    "'s services_scheme \<Rightarrow> board \<Rightarrow> nat \<Rightarrow> routing_candidate_objective \<Rightarrow> nat \<Rightarrow> nat \<Rightarrow> board \<Rightarrow> route_report \<Rightarrow>
     routing_candidate list \<Rightarrow> routing_candidate" where
  "new_candidate svc b i obj bend via out rep cs =
     (let q = routing_quality svc out
      in \<lparr>candidate_id = candidate_name i, candidate_objective = obj,
          candidate_variant = i mod 256, candidate_bend_cost = bend, candidate_via_cost = via,
          candidate_board = out, candidate_report = rep, candidate_quality = q,
          candidate_cost = selection_cost b q,
          candidate_duplicate_of = map_option candidate_id (find (\<lambda>c. routes (candidate_board c) = routes out) cs),
          pareto_optimal = False\<rparr>)"

definition add_candidate :: "'s services_scheme \<Rightarrow> board \<Rightarrow> nat \<times> made \<Rightarrow> routing_candidate list \<Rightarrow> string + routing_candidate list" where
  "add_candidate svc b entry cs =
     (case entry of (i, obj, bend, via, result) \<Rightarrow>
      bind_result result (\<lambda>(out, rep).
      Inr (cs @ [new_candidate svc b i obj bend via (out\<lparr>rules_of := rules_of b\<rparr>) rep cs])))"

definition unique :: "routing_candidate \<Rightarrow> bool" where
  "unique c \<longleftrightarrow> candidate_duplicate_of c = None"

definition pareto_indices :: "routing_candidate list \<Rightarrow> nat list" where
  "pareto_indices cs =
     filter (\<lambda>i. unique (cs ! i) \<and>
         \<not> list_ex (\<lambda>j. j \<noteq> i \<and> unique (cs ! j) \<and> dominates (candidate_quality (cs ! j)) (candidate_quality (cs ! i))) [0..<length cs])
       [0..<length cs]"

text \<open>\<open>Iterator::min_by\<close>: the first of the least elements. The comparison may panic, then so does this.\<close>

definition min_by :: "('a \<Rightarrow> 'a \<Rightarrow> ordering option) \<Rightarrow> 'a list \<Rightarrow> 'a option option" where
  "min_by cmp xs =
     (case xs of [] \<Rightarrow> Some None
      | x # ys \<Rightarrow> map_option Some
          (fold (\<lambda>y least. Option.bind least (\<lambda>m. map_option (\<lambda>c. if c = Greater then y else m) (cmp m y))) ys (Some x)))"

definition compare_front :: "routing_candidate list \<Rightarrow> nat \<Rightarrow> nat \<Rightarrow> ordering" where
  "compare_front cs i j =
     then_with (compare_val (unrouted_nets (candidate_quality (cs ! i))) (unrouted_nets (candidate_quality (cs ! j))))
       (then_with (compare_val (candidate_cost (cs ! i)) (candidate_cost (cs ! j)))
         (compare_val (candidate_id (cs ! i)) (candidate_id (cs ! j))))"

definition mark_front :: "nat list \<Rightarrow> routing_candidate list \<Rightarrow> routing_candidate list" where
  "mark_front front cs = fold (\<lambda>i cs. cs[i := (cs ! i)\<lparr>pareto_optimal := True\<rparr>]) front cs"

text \<open>What happens to the received results; \<open>None\<close> is the panic of the last \<open>expect\<close>.\<close>

definition assemble_candidates ::
    "'s services_scheme \<Rightarrow> board \<Rightarrow> routing_candidate_options \<Rightarrow> (nat \<times> made) list \<Rightarrow> (string + routing_candidate_set) option" where
  "assemble_candidates svc b opts received =
     (let generated = sort_by (\<lambda>x y. compare_val (fst x) (fst y)) received
      in case fold_result (add_candidate svc b) generated [] of
           Inl e \<Rightarrow> Some (Inl e)
         | Inr cs \<Rightarrow>
             (let front = pareto_indices cs;
                  cs = mark_front front cs
              in case min_by (\<lambda>i j. Some (compare_front cs i j)) front of
                   Some (Some i) \<Rightarrow>
                     Some (Inr \<lparr>set_schema_version = 1, set_options = opts, set_candidates = cs,
                       pareto_front = map (\<lambda>i. candidate_id (cs ! i)) front, set_selected_id = candidate_id (cs ! i)\<rparr>)
                 | _ \<Rightarrow> None))"

definition check_candidate_options :: "routing_candidate_options \<Rightarrow> string + unit" where
  "check_candidate_options opts =
     (if \<not> (1 \<le> candidate_count opts \<and> candidate_count opts \<le> 32)
      then Inl ''routing candidate count must be between 1 and 32''
      else if \<not> (1 \<le> candidate_workers opts \<and> candidate_workers opts \<le> 8)
      then Inl ''routing candidate workers must be between 1 and 8''
      else if \<not> (1 \<le> router_workers opts \<and> router_workers opts \<le> 8)
      then Inl ''per-candidate router workers must be between 1 and 8''
      else if 16 < candidate_workers opts * router_workers opts
      then Inl ''routing candidate and router workers may use at most 16 threads''
      else Inr ())"

text \<open>The threads send in the order of the indices here; their other schedules are below.\<close>

definition route_candidates :: "'s services_scheme \<Rightarrow> board \<Rightarrow> routing_candidate_options \<Rightarrow> (string + routing_candidate_set) option" where
  "route_candidates svc b opts =
     (case check_candidate_options opts of
        Inl e \<Rightarrow> Some (Inl e)
      | Inr _ \<Rightarrow> assemble_candidates svc b opts (map (\<lambda>i. (i, make_candidate svc b opts i)) [0..<candidate_count opts]))"

section \<open>Threads that send over a channel\<close>

record 'r channel =
  drawn :: nat
  sent :: "(nat \<times> 'r) list"
  senders :: "phase list"

definition channel_start :: "nat \<Rightarrow> 'r channel" where
  "channel_start workers = \<lparr>drawn = 0, sent = [], senders = replicate workers Ready\<rparr>"

inductive channel_step :: "(nat \<Rightarrow> 'r) \<Rightarrow> nat \<Rightarrow> 'r channel \<Rightarrow> 'r channel \<Rightarrow> bool" for job jobs where
  draw: "w < length (senders c) \<Longrightarrow> senders c ! w = Ready \<Longrightarrow> drawn c < jobs \<Longrightarrow>
    channel_step job jobs c (c\<lparr>drawn := drawn c + 1, senders := (senders c)[w := Working (drawn c)]\<rparr>)"
| quit: "w < length (senders c) \<Longrightarrow> senders c ! w = Ready \<Longrightarrow> jobs \<le> drawn c \<Longrightarrow>
    channel_step job jobs c (c\<lparr>drawn := drawn c + 1, senders := (senders c)[w := Finished]\<rparr>)"
| send: "w < length (senders c) \<Longrightarrow> senders c ! w = Working i \<Longrightarrow>
    channel_step job jobs c (c\<lparr>sent := sent c @ [(i, job i)], senders := (senders c)[w := Ready]\<rparr>)"

text \<open>As threads with a counter the channel makes the steps of the pool of \<open>Workers\<close>.\<close>

definition pool_of :: "'r channel \<Rightarrow> 'r pool" where
  "pool_of c = \<lparr>claimed = drawn c, slots = [], crew = senders c\<rparr>"

lemma channel_pool_step: "channel_step job jobs c c' \<Longrightarrow> pool_step job jobs (pool_of c) (pool_of c')"
proof (induction rule: channel_step.induct)
  case (draw w c)
  then show ?case using pool_step.claim[of w "pool_of c" jobs job] by (simp add: pool_of_def)
next
  case (quit w c)
  then show ?case using pool_step.leave[of w "pool_of c" jobs job] by (simp add: pool_of_def)
next
  case (send w c i)
  then show ?case using pool_step.store[of w "pool_of c" i job jobs] by (simp add: pool_of_def)
qed

lemma channel_run_length:
  assumes "(channel_step job jobs ^^ m) (channel_start workers) c"
  shows "m \<le> 3 * jobs + workers"
proof -
  have "(channel_step job jobs ^^ m) c c' \<Longrightarrow> (pool_step job jobs ^^ m) (pool_of c) (pool_of c')" for c c' :: "'a channel"
    by (induction m arbitrary: c') (auto intro!: relcomppI dest: channel_pool_step)
  from pool_run_length[OF this[OF assms]]
  have "m \<le> effort jobs (pool_of (channel_start workers :: 'a channel))" by simp
  then show ?thesis by (simp add: effort_def pool_of_def channel_start_def map_replicate_const sum_list_replicate)
qed

lemma channel_stuck:
  assumes "\<nexists>c'. channel_step job jobs c c'"
  shows "set (senders c) \<subseteq> {Finished}"
proof
  fix x assume "x \<in> set (senders c)"
  then obtain w where w: "w < length (senders c)" "senders c ! w = x" by (auto simp: in_set_conv_nth)
  show "x \<in> {Finished}"
  proof (cases x)
    case Ready
    then show ?thesis using assms w channel_step.draw[of w c jobs job] channel_step.quit[of w c jobs job] by (metis not_less)
  next
    case (Working i)
    then show ?thesis using assms w channel_step.send[of w c i job jobs] by blast
  qed simp
qed

text \<open>Every drawn index has been sent once or is being worked on by one thread.\<close>

fun phase_index :: "phase \<Rightarrow> nat list" where
  "phase_index (Working i) = [i]"
| "phase_index p = []"

definition held :: "phase list \<Rightarrow> nat multiset" where
  "held ps = mset (concat (map phase_index ps))"

lemma held_update: "w < length ps \<Longrightarrow> held (ps[w := p]) + mset (phase_index (ps ! w)) = held ps + mset (phase_index p)"
  by (induction ps arbitrary: w) (auto simp: held_def nth_Cons split: nat.splits)

definition channel_inv :: "(nat \<Rightarrow> 'r) \<Rightarrow> nat \<Rightarrow> 'r channel \<Rightarrow> bool" where
  "channel_inv job jobs c \<longleftrightarrow>
     mset (map fst (sent c)) + held (senders c) = mset [0..<min (drawn c) jobs] \<and>
     (\<forall>(i, r) \<in> set (sent c). r = job i) \<and> (Finished \<in> set (senders c) \<longrightarrow> jobs \<le> drawn c)"

lemma channel_inv_step:
  assumes "channel_step job jobs c c'" "channel_inv job jobs c"
  shows "channel_inv job jobs c'"
  using assms
proof (cases rule: channel_step.cases)
  case (draw w)
  have "held ((senders c)[w := Working (drawn c)]) = add_mset (drawn c) (held (senders c))"
    using held_update[of w "senders c" "Working (drawn c)"] draw(2,3) by simp
  moreover have "min (drawn c + 1) jobs = Suc (drawn c)" "min (drawn c) jobs = drawn c" using draw(4) by simp_all
  moreover have "Finished \<in> set (senders c)" if "Finished \<in> set ((senders c)[w := Working (drawn c)])"
    using that set_update_subset_insert[of "senders c" w "Working (drawn c)"] by auto
  ultimately show ?thesis using assms(2) draw by (auto simp: channel_inv_def)
next
  case (quit w)
  have "held ((senders c)[w := Finished]) = held (senders c)"
    using held_update[of w "senders c" Finished] quit(2,3) by simp
  moreover have "min (drawn c + 1) jobs = min (drawn c) jobs" using quit(4) by simp
  ultimately show ?thesis using assms(2) quit by (auto simp: channel_inv_def)
next
  case (send w i)
  have "held (senders c) = add_mset i (held ((senders c)[w := Ready]))"
    using held_update[of w "senders c" Ready] send(2,3) by simp
  moreover have "Finished \<in> set (senders c)" if "Finished \<in> set ((senders c)[w := Ready])"
    using that set_update_subset_insert[of "senders c" w Ready] by auto
  ultimately show ?thesis using assms(2) send by (auto simp: channel_inv_def)
qed

lemma channel_inv_start: "channel_inv job jobs (channel_start workers)"
  by (auto simp: channel_inv_def channel_start_def held_def)

lemma channel_inv_run: "(channel_step job jobs)\<^sup>*\<^sup>* c c' \<Longrightarrow> channel_inv job jobs c \<Longrightarrow> channel_inv job jobs c'"
  by (induction rule: rtranclp_induct) (auto intro: channel_inv_step)

lemma senders_length:
  assumes "(channel_step job jobs)\<^sup>*\<^sup>* (channel_start workers) c"
  shows "length (senders c) = workers"
  using assms by (induction rule: rtranclp_induct) (auto simp: channel_start_def elim!: channel_step.cases)

lemma sorted_by_number:
  assumes "mset (map fst xs) = mset [0..<k]" "\<forall>(i, r) \<in> set xs. r = job i"
  shows "sort_by (\<lambda>x y. compare_val (fst x) (fst y)) xs = map (\<lambda>i. (i, job i)) [0..<k]"
proof -
  let ?s = "sort_by (\<lambda>x y. compare_val (fst x) (fst y)) xs"
  have "sorted_wrt (\<lambda>x y. fst x \<le> fst y) ?s"
    using sort_by_sorted[OF order_of_key[of fst], of xs]
    by (rule sorted_wrt_mono_rel[rotated]) (auto simp: not_after_def compare_val_def split: if_splits)
  then have "sorted (map fst ?s)" by (simp add: sorted_map)
  moreover have "mset (map fst ?s) = mset [0..<k]" using assms(1) by (simp add: mset_map)
  ultimately have fsts: "map fst ?s = [0..<k]" by (metis properties_for_sort sorted_upt)
  have "?s = map (\<lambda>i. (i, job i)) (map fst ?s)"
  proof (subst map_map, rule map_idI[symmetric])
    fix x assume "x \<in> set ?s"
    then have "x \<in> set xs" by (simp only: set_sort_by)
    then show "((\<lambda>i. (i, job i)) \<circ> fst) x = x" using assms(2) by (cases x) auto
  qed
  then show ?thesis using fsts by simp
qed

lemma channel_end:
  assumes "(channel_step job jobs)\<^sup>*\<^sup>* (channel_start workers) c" "\<nexists>c'. channel_step job jobs c c'" "0 < workers"
  shows "sort_by (\<lambda>x y. compare_val (fst x) (fst y)) (sent c) = map (\<lambda>i. (i, job i)) [0..<jobs]"
proof -
  note inv = channel_inv_run[OF assms(1) channel_inv_start]
  have all: "set (senders c) \<subseteq> {Finished}" using channel_stuck[OF assms(2)] .
  then have "Finished \<in> set (senders c)" using senders_length[OF assms(1)] assms(3) by (cases "senders c") auto
  then have "min (drawn c) jobs = jobs" using inv by (simp add: channel_inv_def)
  moreover have "held (senders c) = {#}" using all by (auto simp: held_def)
  ultimately show ?thesis using inv by (intro sorted_by_number) (simp_all add: channel_inv_def)
qed


section \<open>The least element\<close>

lemma min_by_total:
  assumes "consistent_order cmp" "xs \<noteq> []"
  shows "\<exists>m. min_by (\<lambda>x y. Some (cmp x y)) xs = Some (Some m) \<and> m \<in> set xs \<and> (\<forall>x \<in> set xs. cmp m x \<noteq> Greater)"
proof -
  have mirror: "cmp x y \<noteq> Greater" if "cmp y x = Greater" for x y
    using assms(1) that unfolding consistent_order_def by (metis ordering.distinct(3))
  have trans: "cmp x z \<noteq> Greater" if "cmp x y \<noteq> Greater" "cmp y z \<noteq> Greater" for x y z
    using assms(1) that unfolding consistent_order_def by blast
  have refl: "cmp x x \<noteq> Greater" for x using assms(1) unfolding consistent_order_def by (metis ordering.distinct(3))
  define pick where "pick = fold (\<lambda>y least. Option.bind least (\<lambda>m. map_option (\<lambda>c. if c = Greater then y else m) (Some (cmp m y))))"
  have "\<exists>m. pick ys (Some x) = Some m \<and> m \<in> set (x # ys) \<and> (\<forall>z \<in> set (x # ys). cmp m z \<noteq> Greater)" for x ys
  proof (induction ys arbitrary: x)
    case Nil
    then show ?case by (simp add: pick_def refl)
  next
    case (Cons y ys)
    let ?x = "if cmp x y = Greater then y else x"
    obtain m where m: "pick ys (Some ?x) = Some m" "m \<in> set (?x # ys)" "\<forall>z \<in> set (?x # ys). cmp m z \<noteq> Greater"
      using Cons.IH[of ?x] by blast
    have "cmp ?x x \<noteq> Greater" "cmp ?x y \<noteq> Greater" using mirror refl by auto
    then have "cmp m x \<noteq> Greater" "cmp m y \<noteq> Greater" using m(3) trans by (meson list.set_intros(1))+
    then show ?case using m by (intro exI[of _ m]) (auto simp: pick_def split: if_splits)
  qed
  then show ?thesis using assms(2) by (cases xs) (auto simp: min_by_def pick_def)
qed

section \<open>Dominance\<close>

text \<open>A strict order on finitely many things: whatever is beaten is beaten by one that is not.\<close>

locale dominance =
  fixes beats :: "'a \<Rightarrow> 'a \<Rightarrow> bool"
  assumes beats_irrefl: "\<not> beats x x"
    and beats_trans: "beats x y \<Longrightarrow> beats y z \<Longrightarrow> beats x z"
begin

lemma unbeaten:
  assumes "finite A" "x \<in> A"
  shows "\<exists>y \<in> A. (y = x \<or> beats y x) \<and> (\<forall>z \<in> A. \<not> beats z y)"
  using assms
proof (induction "card {z \<in> A. beats z x}" arbitrary: x rule: less_induct)
  case less
  show ?case
  proof (cases "\<exists>z \<in> A. beats z x")
    case True
    then obtain z where z: "z \<in> A" "beats z x" by blast
    have "{u \<in> A. beats u z} \<subset> {u \<in> A. beats u x}" using z beats_trans beats_irrefl by blast
    then have "card {u \<in> A. beats u z} < card {u \<in> A. beats u x}" using less.prems(1) by (simp add: psubset_card_mono)
    from less.hyps[OF this less.prems(1) z(1)] show ?thesis using z beats_trans by blast
  next
    case False
    then show ?thesis using less.prems(2) by blast
  qed
qed

end

definition measures_of :: "quality_summary \<Rightarrow> nat list" where
  "measures_of q = [unrouted_nets q, nat (max (total_length_nm q) 0), total_vias q, total_bends q]"

lemma dominates_measures:
  "dominates q r \<longleftrightarrow> list_all2 (\<le>) (measures_of q) (measures_of r) \<and> measures_of q \<noteq> measures_of r"
  by (auto simp: dominates_def measures_of_def)

interpretation quality: dominance dominates
  by unfold_locales (auto simp: dominates_measures measures_of_def)

lemma selection_cost_mono:
  assumes "dominates q r"
  shows "unrouted_nets q \<le> unrouted_nets r" "selection_cost b q \<le> selection_cost b r"
proof -
  have le: "unrouted_nets q \<le> unrouted_nets r" "nat (max (total_length_nm q) 0) \<le> nat (max (total_length_nm r) 0)"
    "total_vias q \<le> total_vias r" "total_bends q \<le> total_bends r"
    using assms by (auto simp: dominates_measures measures_of_def)
  show "unrouted_nets q \<le> unrouted_nets r" by (rule le)
  show "selection_cost b q \<le> selection_cost b r"
    unfolding selection_cost_def Let_def saturating_add_u64_def saturating_mul_u64_def
    by (intro min.mono add_mono mult_right_mono div_le_mono le order_refl) simp_all
qed


section \<open>Collecting\<close>

text \<open>What a candidate in the list is, for the entry that it comes from.\<close>

definition candidate_ok :: "'s services_scheme \<Rightarrow> board \<Rightarrow> nat \<times> made \<Rightarrow> routing_candidate list \<Rightarrow> nat \<Rightarrow> bool" where
  "candidate_ok svc b entry cs k \<longleftrightarrow>
     (\<exists>i obj bend via out rep. entry = (i, obj, bend, via, Inr (out, rep)) \<and>
        candidate_id (cs ! k) = candidate_name i \<and> candidate_board (cs ! k) = out\<lparr>rules_of := rules_of b\<rparr>) \<and>
     candidate_quality (cs ! k) = routing_quality svc (candidate_board (cs ! k)) \<and>
     candidate_cost (cs ! k) = selection_cost b (candidate_quality (cs ! k)) \<and>
     (unique (cs ! k) \<longleftrightarrow> (\<forall>j < k. routes (candidate_board (cs ! j)) \<noteq> routes (candidate_board (cs ! k)))) \<and>
     \<not> pareto_optimal (cs ! k)"

definition collected :: "'s services_scheme \<Rightarrow> board \<Rightarrow> (nat \<times> made) list \<Rightarrow> routing_candidate list \<Rightarrow> bool" where
  "collected svc b gen cs \<longleftrightarrow> length cs = length gen \<and> (\<forall>k < length gen. candidate_ok svc b (gen ! k) cs k)"

lemma find_None_nth: "find P xs = None \<longleftrightarrow> (\<forall>j < length xs. \<not> P (xs ! j))"
  by (auto simp: find_None_iff in_set_conv_nth)

lemma candidate_ok_append: "k < length cs \<Longrightarrow> candidate_ok svc b entry (cs @ ds) k = candidate_ok svc b entry cs k"
  by (simp add: candidate_ok_def nth_append)

lemma candidate_ok_new:
  "candidate_ok svc b (i, obj, bend, via, Inr (out, rep))
    (cs @ [new_candidate svc b i obj bend via (out\<lparr>rules_of := rules_of b\<rparr>) rep cs]) (length cs)"
  by (simp add: candidate_ok_def new_candidate_def unique_def find_None_nth nth_append Let_def)

lemma collect_candidates:
  "fold_result (add_candidate svc b) gen [] = Inr cs \<Longrightarrow> collected svc b gen cs"
proof (induction gen arbitrary: cs rule: rev_induct)
  case Nil
  then show ?case by (simp add: collected_def)
next
  case (snoc e gen)
  obtain ds where ds: "fold_result (add_candidate svc b) gen [] = Inr ds" "add_candidate svc b e ds = Inr cs"
    using snoc.prems by (auto simp: fold_result_append bind_result_Inr)
  note old = snoc.IH[OF ds(1)]
  obtain i obj bend via out rep where e: "e = (i, obj, bend, via, Inr (out, rep))"
    and cs: "cs = ds @ [new_candidate svc b i obj bend via (out\<lparr>rules_of := rules_of b\<rparr>) rep ds]"
    using ds(2) by (auto simp: add_candidate_def bind_result_Inr split: prod.splits)
  have len: "length ds = length gen" using old by (simp add: collected_def)
  have "candidate_ok svc b ((gen @ [e]) ! k) cs k" if "k < length (gen @ [e])" for k
  proof (cases "k < length gen")
    case True
    then show ?thesis using old len by (simp add: cs collected_def candidate_ok_append nth_append)
  next
    case False
    then have "k = length ds" using that len by simp
    then show ?thesis using len candidate_ok_new[of svc b i obj bend via out rep ds] by (simp add: cs e nth_append)
  qed
  then show ?case using len by (simp add: collected_def cs)
qed

lemma collect_fails:
  "fold_result (add_candidate svc b) gen cs = Inl msg \<Longrightarrow> \<exists>i obj bend via. (i, obj, bend, via, Inl msg) \<in> set gen"
proof (induction gen arbitrary: cs)
  case (Cons e gen)
  show ?case
  proof (cases "add_candidate svc b e cs")
    case (Inl m)
    then show ?thesis using Cons.prems
      by (cases e) (auto simp: add_candidate_def bind_result_Inl Let_def split: prod.splits)
  next
    case (Inr ds)
    then show ?thesis using Cons by fastforce
  qed
qed simp

text \<open>Marking changes nothing that the selection looks at.\<close>

lemma mark_front_nth:
  assumes "set front \<subseteq> {..<length cs}" "k < length cs"
  shows "length (mark_front front cs) = length cs \<and>
    mark_front front cs ! k = (if k \<in> set front then (cs ! k)\<lparr>pareto_optimal := True\<rparr> else cs ! k)"
  using assms
proof (induction front arbitrary: cs)
  case (Cons i front)
  then show ?case
    using Cons.IH[of "cs[i := (cs ! i)\<lparr>pareto_optimal := True\<rparr>]"] by (auto simp: mark_front_def nth_list_update)
qed (simp add: mark_front_def)

lemma mark_front_length: "length (mark_front front cs) = length cs"
  unfolding mark_front_def by (induction front arbitrary: cs) simp_all

lemma compare_front_order: "consistent_order (compare_front cs)"
  unfolding compare_front_def by (intro order_then order_of_key)

lemma compare_front_le:
  "compare_front cs i j \<noteq> Greater \<Longrightarrow>
    (unrouted_nets (candidate_quality (cs ! i)), candidate_cost (cs ! i)) \<le>
    (unrouted_nets (candidate_quality (cs ! j)), candidate_cost (cs ! j))"
  by (auto simp: compare_front_def then_with_def compare_val_def split: if_splits)

lemma pareto_indices_set:
  "set (pareto_indices cs) = {i. i < length cs \<and> unique (cs ! i) \<and>
     (\<forall>j < length cs. unique (cs ! j) \<longrightarrow> \<not> dominates (candidate_quality (cs ! j)) (candidate_quality (cs ! i)))}"
  by (auto simp: pareto_indices_def list_ex_iff quality.beats_irrefl)

text \<open>Every candidate without a duplicate before it is matched by one on the front.\<close>

lemma front_matches:
  assumes "k < length cs" "unique (cs ! k)"
  shows "\<exists>i \<in> set (pareto_indices cs). i = k \<or> dominates (candidate_quality (cs ! i)) (candidate_quality (cs ! k))"
proof -
  let ?A = "{j. j < length cs \<and> unique (cs ! j)}"
  let ?Q = "(\<lambda>j. candidate_quality (cs ! j)) ` ?A"
  have fin: "finite ?Q" and mem: "candidate_quality (cs ! k) \<in> ?Q" using assms by auto
  obtain q where q: "q \<in> ?Q" "q = candidate_quality (cs ! k) \<or> dominates q (candidate_quality (cs ! k))" "\<forall>z \<in> ?Q. \<not> dominates z q"
    using quality.unbeaten[OF fin mem] by blast
  then obtain i where i: "i < length cs" "unique (cs ! i)" "q = candidate_quality (cs ! i)" by blast
  show ?thesis
  proof (cases "dominates q (candidate_quality (cs ! k))")
    case True
    then show ?thesis using i q(3) by (intro bexI[of _ i]) (auto simp: pareto_indices_set)
  next
    case False
    then show ?thesis using q(2,3) assms by (intro bexI[of _ k]) (auto simp: pareto_indices_set)
  qed
qed


section \<open>The selection\<close>

definition entries :: "'s services_scheme \<Rightarrow> board \<Rightarrow> routing_candidate_options \<Rightarrow> (nat \<times> made) list" where
  "entries svc b opts = map (\<lambda>i. (i, make_candidate svc b opts i)) [0..<candidate_count opts]"

lemma sort_entries: "sort_by (\<lambda>x y. compare_val (fst x) (fst y)) (entries svc b opts) = entries svc b opts"
  unfolding entries_def by (rule sorted_by_number) (auto simp: comp_def)

lemma names_distinct: "i < 32 \<Longrightarrow> j < 32 \<Longrightarrow> candidate_name i = candidate_name j \<Longrightarrow> i = j"
proof -
  have "distinct (map candidate_name [0..<32])" by code_simp
  then show "i < 32 \<Longrightarrow> j < 32 \<Longrightarrow> candidate_name i = candidate_name j \<Longrightarrow> i = j"
    by (auto simp: distinct_map inj_on_def)
qed

text \<open>What \<open>assemble_candidates\<close> returns when no candidate failed.\<close>

lemma assembled:
  assumes "collected svc b gen cs" "gen \<noteq> []"
  obtains i where "i \<in> set (pareto_indices cs)" "\<forall>j \<in> set (pareto_indices cs). compare_front cs i j \<noteq> Greater"
    "min_by (\<lambda>i j. Some (compare_front (mark_front (pareto_indices cs) cs) i j)) (pareto_indices cs) = Some (Some i)"
proof -
  let ?front = "pareto_indices cs" and ?marked = "mark_front (pareto_indices cs) cs"
  have front: "set ?front \<subseteq> {..<length cs}" by (auto simp: pareto_indices_set)
  have "unique (cs ! 0)" "0 < length cs" using assms by (auto simp: collected_def candidate_ok_def)
  then have ne: "?front \<noteq> []" using front_matches[of 0 cs] by auto
  obtain i where i: "min_by (\<lambda>i j. Some (compare_front ?marked i j)) ?front = Some (Some i)" "i \<in> set ?front"
    "\<forall>j \<in> set ?front. compare_front ?marked i j \<noteq> Greater"
    using min_by_total[OF compare_front_order ne] by blast
  have marked: "?marked ! j = (cs ! j)\<lparr>pareto_optimal := True\<rparr>" if "j \<in> set ?front" for j
    using that front mark_front_nth[OF front, of j] by auto
  have "compare_front ?marked i j = compare_front cs i j" if "j \<in> set ?front" for j
    by (simp add: compare_front_def marked[OF that] marked[OF i(2)])
  then show ?thesis using that[OF i(2) _ i(1)] i(3) by metis
qed

lemma route_candidates_Inr:
  assumes "route_candidates svc b opts = Some (Inr cset)"
  obtains cs i where "check_candidate_options opts = Inr ()" "collected svc b (entries svc b opts) cs"
    "i \<in> set (pareto_indices cs)" "\<forall>j \<in> set (pareto_indices cs). compare_front cs i j \<noteq> Greater"
    "set_candidates cset = mark_front (pareto_indices cs) cs"
    "pareto_front cset = map (\<lambda>i. candidate_id (cs ! i)) (pareto_indices cs)"
    "set_selected_id cset = candidate_id (cs ! i)"
proof -
  have ok: "check_candidate_options opts = Inr ()" and run: "assemble_candidates svc b opts (entries svc b opts) = Some (Inr cset)"
    using assms by (auto simp: route_candidates_def entries_def split: sum.splits)
  obtain cs where cs: "fold_result (add_candidate svc b) (entries svc b opts) [] = Inr cs"
    using run by (auto simp: assemble_candidates_def sort_entries Let_def split: sum.splits)
  note col = collect_candidates[OF cs]
  have "entries svc b opts \<noteq> []" using ok by (auto simp: entries_def check_candidate_options_def split: if_splits)
  with col obtain i where i: "i \<in> set (pareto_indices cs)" "\<forall>j \<in> set (pareto_indices cs). compare_front cs i j \<noteq> Greater"
    "min_by (\<lambda>i j. Some (compare_front (mark_front (pareto_indices cs) cs) i j)) (pareto_indices cs) = Some (Some i)"
    by (rule assembled)
  have front: "set (pareto_indices cs) \<subseteq> {..<length cs}" by (auto simp: pareto_indices_set)
  have ids: "candidate_id (mark_front (pareto_indices cs) cs ! j) = candidate_id (cs ! j)" if "j \<in> set (pareto_indices cs)" for j
    using that front mark_front_nth[OF front, of j] by auto
  have "set_candidates cset = mark_front (pareto_indices cs) cs"
    "pareto_front cset = map (\<lambda>i. candidate_id (cs ! i)) (pareto_indices cs)"
    "set_selected_id cset = candidate_id (cs ! i)"
    using run i ids by (auto simp: assemble_candidates_def sort_entries cs Let_def)
  then show ?thesis using that ok col i(1,2) by blast
qed

lemma candidate_at:
  assumes "route_candidates svc b opts = Some (Inr cset)" "k < candidate_count opts"
    "snd (snd (snd (make_candidate svc b opts k))) = Inr (out, rep)"
  shows "candidate_quality (set_candidates cset ! k) = routing_quality svc (out\<lparr>rules_of := rules_of b\<rparr>)"
proof -
  obtain cs where col: "collected svc b (entries svc b opts) cs" and cset: "set_candidates cset = mark_front (pareto_indices cs) cs"
    using route_candidates_Inr[OF assms(1)] by blast
  have k: "k < length cs" using col assms(2) by (simp add: collected_def entries_def)
  have "candidate_ok svc b (entries svc b opts ! k) cs k" using col k by (simp add: collected_def)
  then have "candidate_quality (cs ! k) = routing_quality svc (out\<lparr>rules_of := rules_of b\<rparr>)"
    using assms(2,3) by (auto simp: candidate_ok_def entries_def)
  moreover have "set (pareto_indices cs) \<subseteq> {..<length cs}" by (auto simp: pareto_indices_set)
  ultimately show ?thesis using mark_front_nth[of "pareto_indices cs" cs k] k by (simp add: cset)
qed

lemma route_candidates_total:
  assumes "check_candidate_options opts = Inr ()"
  shows "(\<exists>cset. route_candidates svc b opts = Some (Inr cset)) \<or>
    (\<exists>i < candidate_count opts. \<exists>msg. route_candidates svc b opts = Some (Inl msg) \<and>
      snd (snd (snd (make_candidate svc b opts i))) = Inl msg)"
proof (cases "fold_result (add_candidate svc b) (entries svc b opts) []")
  case (Inl msg)
  from collect_fails[OF this] obtain i where "i < candidate_count opts" "snd (snd (snd (make_candidate svc b opts i))) = Inl msg"
    by (auto simp: entries_def) (metis snd_conv)
  moreover have "route_candidates svc b opts = Some (Inl msg)"
    using Inl assms by (simp add: route_candidates_def entries_def[symmetric] assemble_candidates_def sort_entries)
  ultimately show ?thesis by blast
next
  case (Inr cs)
  note col = collect_candidates[OF Inr]
  have "entries svc b opts \<noteq> []" using assms by (auto simp: entries_def check_candidate_options_def split: if_splits)
  with col obtain i where i: "min_by (\<lambda>i j. Some (compare_front (mark_front (pareto_indices cs) cs) i j)) (pareto_indices cs) = Some (Some i)"
    by (rule assembled)
  show ?thesis
    using assms by (simp add: route_candidates_def entries_def[symmetric] assemble_candidates_def sort_entries Inr i Let_def)
qed


text \<open>What is used of the router: it returns the nets and pairs of the board it is given.\<close>

definition keeps_design :: "'s services_scheme \<Rightarrow> bool" where
  "keeps_design svc \<longleftrightarrow> (\<forall>input w v budget out rep. router_of svc input w v budget = Inr (out, rep) \<longrightarrow>
     nets out = nets input \<and> differential_pairs out = differential_pairs input)"

lemma keeps_designD:
  assumes "keeps_design svc" "router_of svc (with_costs b bend via) w v budget = Inr (out, rep)"
  shows "nets out = nets b" "differential_pairs out = differential_pairs b"
  using assms unfolding keeps_design_def with_costs_def by fastforce+

lemma routing_quality_cong:
  assumes "nets a = nets b" "differential_pairs a = differential_pairs b" "routes a = routes b"
  shows "routing_quality svc a = routing_quality svc b"
proof -
  have "quality_of_net svc a = quality_of_net svc b" "quality_of_pair svc a = quality_of_pair svc b"
    using assms by (auto simp: quality_of_net_def quality_of_pair_def route_of_def fun_eq_iff)
  then show ?thesis using assms by (simp add: routing_quality_def)
qed

text \<open>A duplicate is as good as the first candidate with its routes.\<close>

lemma first_of_duplicates:
  assumes "collected svc b (entries svc b opts) cs" "keeps_design svc" "k < length cs"
  shows "\<exists>j < length cs. unique (cs ! j) \<and> candidate_quality (cs ! j) = candidate_quality (cs ! k)"
proof -
  have ok: "candidate_ok svc b (entries svc b opts ! j) cs j" if "j < length cs" for j
    using assms(1) that by (simp add: collected_def)
  have design: "nets (candidate_board (cs ! j)) = nets b \<and> differential_pairs (candidate_board (cs ! j)) = differential_pairs b"
    if "j < length cs" for j
  proof -
    have "j < candidate_count opts" using assms(1) that by (simp add: collected_def entries_def)
    with ok[OF that] obtain obj bend via out rep where
      "make_candidate svc b opts j = (obj, bend, via, Inr (out, rep))" "candidate_board (cs ! j) = out\<lparr>rules_of := rules_of b\<rparr>"
      by (auto simp: candidate_ok_def entries_def)
    then show ?thesis using keeps_designD[OF assms(2)] by (auto simp: make_candidate_def Let_def split: prod.splits)
  qed
  let ?P = "\<lambda>j. routes (candidate_board (cs ! j)) = routes (candidate_board (cs ! k))"
  define j where "j = (LEAST j. ?P j)"
  have j: "?P j" "j \<le> k" unfolding j_def by (rule LeastI[of ?P k], simp) (rule Least_le, simp)
  have "\<not> ?P i" if "i < j" for i using not_less_Least that unfolding j_def by blast
  then have "unique (cs ! j)" using ok[of j] j assms(3) by (auto simp: candidate_ok_def)
  moreover have "candidate_quality (cs ! j) = candidate_quality (cs ! k)"
    using ok[of j] ok[of k] design[of j] design[of k] j assms(3) routing_quality_cong
    by (metis candidate_ok_def le_less_trans)
  ultimately show ?thesis using j(2) assms(3) by (intro exI[of _ j]) simp
qed

lemma selected_best:
  assumes "keeps_design svc" "route_candidates svc b opts = Some (Inr cset)"
  shows "length (set_candidates cset) = candidate_count opts \<and>
    (\<forall>d \<in> set (set_candidates cset). rules_of (candidate_board d) = rules_of b) \<and>
    (\<exists>c. selected cset = Some c \<and> pareto_optimal c \<and> candidate_id c \<in> set (pareto_front cset) \<and>
      (\<forall>d \<in> set (set_candidates cset).
        \<not> dominates (candidate_quality d) (candidate_quality c) \<and>
        (unrouted_nets (candidate_quality c), candidate_cost c) \<le> (unrouted_nets (candidate_quality d), candidate_cost d)))"
proof -
  obtain cs i where ok: "check_candidate_options opts = Inr ()" and col: "collected svc b (entries svc b opts) cs"
    and i: "i \<in> set (pareto_indices cs)" "\<forall>j \<in> set (pareto_indices cs). compare_front cs i j \<noteq> Greater"
    and cset: "set_candidates cset = mark_front (pareto_indices cs) cs"
      "pareto_front cset = map (\<lambda>i. candidate_id (cs ! i)) (pareto_indices cs)" "set_selected_id cset = candidate_id (cs ! i)"
    using route_candidates_Inr[OF assms(2)] by blast
  let ?cs = "mark_front (pareto_indices cs) cs"
  have front: "set (pareto_indices cs) \<subseteq> {..<length cs}" by (auto simp: pareto_indices_set)
  have len: "length cs = candidate_count opts" "length ?cs = length cs"
    using col by (simp_all add: collected_def entries_def mark_front_length)
  have same: "candidate_id (?cs ! k) = candidate_id (cs ! k) \<and> candidate_board (?cs ! k) = candidate_board (cs ! k) \<and>
      candidate_quality (?cs ! k) = candidate_quality (cs ! k) \<and> candidate_cost (?cs ! k) = candidate_cost (cs ! k)"
    if "k < length cs" for k using mark_front_nth[OF front that] by simp
  have ok': "candidate_ok svc b (entries svc b opts ! k) cs k" if "k < length cs" for k
    using col that by (simp add: collected_def)
  have il: "i < length cs" using i(1) front by auto
  have name: "candidate_id (cs ! k) = candidate_name k \<and> rules_of (candidate_board (cs ! k)) = rules_of b" if "k < length cs" for k
    using ok'[OF that] that len by (auto simp: candidate_ok_def entries_def)
  have "candidate_id (?cs ! j) \<noteq> candidate_id (cs ! i)" if "j < i" for j
  proof -
    have "candidate_count opts \<le> 32" using ok by (auto simp: check_candidate_options_def split: if_splits)
    then show ?thesis using names_distinct[of j i] name same that il len by (metis less_irrefl less_le_trans less_trans)
  qed
  then have find: "selected cset = Some (?cs ! i)"
    using same il len by (auto simp: selected_def cset find_Some_iff)
  have best: "\<not> dominates (candidate_quality (cs ! k)) (candidate_quality (cs ! i)) \<and>
      (unrouted_nets (candidate_quality (cs ! i)), candidate_cost (cs ! i)) \<le> (unrouted_nets (candidate_quality (cs ! k)), candidate_cost (cs ! k))"
    if k: "k < length cs" for k
  proof -
    obtain j where j: "j < length cs" "unique (cs ! j)" "candidate_quality (cs ! j) = candidate_quality (cs ! k)"
      using first_of_duplicates[OF col assms(1) k] by blast
    obtain f where f: "f \<in> set (pareto_indices cs)" "f = j \<or> dominates (candidate_quality (cs ! f)) (candidate_quality (cs ! j))"
      using front_matches[OF j(1,2)] by blast
    have cost: "candidate_cost (cs ! l) = selection_cost b (candidate_quality (cs ! l))" if "l < length cs" for l
      using ok'[OF that] by (simp add: candidate_ok_def)
    have fl: "f < length cs" using f(1) front by auto
    have "(unrouted_nets (candidate_quality (cs ! i)), candidate_cost (cs ! i)) \<le> (unrouted_nets (candidate_quality (cs ! f)), candidate_cost (cs ! f))"
      using i(2) f(1) by (intro compare_front_le) blast
    also have "\<dots> \<le> (unrouted_nets (candidate_quality (cs ! j)), candidate_cost (cs ! j))"
    proof (cases "f = j")
      case False
      then show ?thesis using f(2) selection_cost_mono(1) selection_cost_mono(2)[of _ _ b] cost[OF fl] cost[OF j(1)] by (auto simp: less_eq_prod_def le_less)
    qed simp
    also have "\<dots> = (unrouted_nets (candidate_quality (cs ! k)), candidate_cost (cs ! k))"
      using j cost[OF j(1)] cost[OF k] by simp
    finally show ?thesis using i(1) j by (auto simp: pareto_indices_set)
  qed
  have "pareto_optimal (?cs ! i)" using mark_front_nth[OF front il] i(1) by simp
  moreover have "candidate_id (?cs ! i) \<in> set (pareto_front cset)" using i(1) same[OF il] by (simp add: cset)
  moreover have "rules_of (candidate_board d) = rules_of b \<and> \<not> dominates (candidate_quality d) (candidate_quality (?cs ! i)) \<and>
      (unrouted_nets (candidate_quality (?cs ! i)), candidate_cost (?cs ! i)) \<le> (unrouted_nets (candidate_quality d), candidate_cost d)"
    if "d \<in> set ?cs" for d
  proof -
    from that obtain k where "k < length ?cs" "?cs ! k = d" unfolding in_set_conv_nth by blast
    then have k: "k < length cs" "d = ?cs ! k" unfolding len(2) by blast+
    show ?thesis unfolding k(2) using best[OF k(1)] name[OF k(1)] same[OF k(1)] same[OF il] by simp
  qed
  ultimately show ?thesis using find len by (simp add: cset)
qed


section \<open>Properties\<close>

text \<open>C37: The selected candidate is the best: as many candidates as asked for are returned, with the design
  rules of the input, and the selected one is on the Pareto front, is dominated by none of them, and has
  the fewest unrouted nets and among those the lowest cost.\<close>

theorem selected_candidate_best:
  assumes "keeps_design svc" "route_candidates svc b opts = Some (Inr cset)"
  shows "length (set_candidates cset) = candidate_count opts \<and>
    (\<forall>d \<in> set (set_candidates cset). rules_of (candidate_board d) = rules_of b) \<and>
    (\<exists>c. selected cset = Some c \<and> pareto_optimal c \<and> candidate_id c \<in> set (pareto_front cset) \<and>
      (\<forall>d \<in> set (set_candidates cset).
        \<not> dominates (candidate_quality d) (candidate_quality c) \<and>
        (unrouted_nets (candidate_quality c), candidate_cost c) \<le> (unrouted_nets (candidate_quality d), candidate_cost d)))"
  by (rule selected_best[OF assms])

text \<open>A router that routes the only net with the second variant.\<close>

definition demo_net :: net where
  "demo_net = \<lparr>net_ident = 7, net_name = ''A'', terminals = [], class_of = None, net_priority = 0\<rparr>"

definition demo_board :: board where
  "demo_board = blank_board\<lparr>nets := [demo_net]\<rparr>"

definition demo_services :: services where
  "demo_services = \<lparr>length_of = (\<lambda>rt. 1000000), coupling_of = (\<lambda>p n d. 0), check_of = (\<lambda>b. []),
     router_of = (\<lambda>b w v k. Inr (if v = 1 then b\<lparr>routes := [empty_route 7]\<rparr> else b, default_report))\<rparr>"

definition demo_options :: routing_candidate_options where
  "demo_options = \<lparr>candidate_count = 3, candidate_workers = 2, router_workers = 1\<rparr>"

lemma demo_keeps: "keeps_design demo_services"
  by (auto simp: keeps_design_def demo_services_def)

lemma demo_candidates:
  obtains cset where "route_candidates demo_services demo_board demo_options = Some (Inr cset)"
proof -
  have "check_candidate_options demo_options = Inr ()" by (simp add: check_candidate_options_def demo_options_def)
  from route_candidates_total[OF this, of demo_services demo_board] show ?thesis
    using that by (auto simp: make_candidate_def demo_services_def Let_def split: prod.splits)
qed

lemma demo_second: "snd (snd (snd (make_candidate demo_services demo_board demo_options 1))) =
    Inr ((with_costs demo_board 0 5)\<lparr>routes := [empty_route 7]\<rparr>, default_report)"
  by (simp add: make_candidate_def demo_services_def objective_def objective_costs_def demo_board_def blank_board_def default_rules_def)

theorem selected_candidate_best_witness:
  "\<exists>cset c. route_candidates demo_services demo_board demo_options = Some (Inr cset) \<and> selected cset = Some c \<and>
    unrouted_nets (candidate_quality c) = 0"
proof -
  obtain cset where cset: "route_candidates demo_services demo_board demo_options = Some (Inr cset)" by (rule demo_candidates)
  from selected_candidate_best[OF demo_keeps this] obtain c where c: "length (set_candidates cset) = candidate_count demo_options"
    "selected cset = Some c"
    "\<forall>d \<in> set (set_candidates cset). unrouted_nets (candidate_quality c) \<le> unrouted_nets (candidate_quality d)"
    by fastforce
  have "unrouted_nets (candidate_quality (set_candidates cset ! 1)) = 0"
    by (subst candidate_at[OF cset _ demo_second])
      (simp_all add: demo_options_def routing_quality_def quality_of_net_def route_of_def with_costs_def demo_board_def demo_net_def
        empty_route_def Let_def)
  moreover have "set_candidates cset ! 1 \<in> set (set_candidates cset)" using c(1) by (simp add: demo_options_def)
  ultimately have "unrouted_nets (candidate_quality c) = 0" using c(3) by fastforce
  then show ?thesis using cset c(2) by blast
qed

text \<open>The candidates do not depend on the threads: every run of the sending threads is finite, and when it
  cannot go on the received results, whatever their order, give the candidates that indexed order gives.\<close>

theorem candidates_any_schedule:
  assumes "check_candidate_options opts = Inr ()"
    and "(channel_step (make_candidate svc b opts) (candidate_count opts) ^^ m)
      (channel_start (min (candidate_workers opts) (candidate_count opts))) c"
  shows "m \<le> 4 * candidate_count opts \<and>
    ((\<nexists>c'. channel_step (make_candidate svc b opts) (candidate_count opts) c c') \<longrightarrow>
      assemble_candidates svc b opts (sent c) = route_candidates svc b opts)"
proof (intro conjI impI)
  show "m \<le> 4 * candidate_count opts" using channel_run_length[OF assms(2)] by simp
  assume stop: "\<nexists>c'. channel_step (make_candidate svc b opts) (candidate_count opts) c c'"
  have "0 < min (candidate_workers opts) (candidate_count opts)"
    using assms(1) by (auto simp: check_candidate_options_def split: if_splits)
  from channel_end[OF relpowp_imp_rtranclp[OF assms(2)] stop this]
  have "sort_by (\<lambda>x y. compare_val (fst x) (fst y)) (sent c) = entries svc b opts" by (simp add: entries_def)
  then show "assemble_candidates svc b opts (sent c) = route_candidates svc b opts"
    using assms(1) by (simp add: route_candidates_def assemble_candidates_def sort_entries entries_def[symmetric])
qed

theorem candidates_any_schedule_witness:
  "\<exists>c. (channel_step (make_candidate demo_services demo_board demo_options) 3 ^^ 1) (channel_start 2) c \<and> drawn c = 1 \<and> 1 \<le> 4 * (3 :: nat)"
proof -
  let ?job = "make_candidate demo_services demo_board demo_options" and ?c = "channel_start 2 :: made channel"
  let ?d = "?c\<lparr>drawn := drawn ?c + 1, senders := (senders ?c)[0 := Working (drawn ?c)]\<rparr>"
  have "channel_step ?job 3 ?c ?d" by (rule channel_step.draw) (simp_all add: channel_start_def)
  then have step: "(channel_step ?job 3 ^^ 1) ?c ?d" by (simp only: relpowp_1)
  have "check_candidate_options demo_options = Inr ()" by (simp add: check_candidate_options_def demo_options_def)
  from candidates_any_schedule[OF this, where svc = demo_services and b = demo_board and m = 1 and c = ?d] step have "1 \<le> 4 * (3 :: nat)"
    by (simp add: demo_options_def)
  then show ?thesis using step by (intro exI[of _ ?d]) (simp add: channel_start_def)
qed

text \<open>Errors are exact: with sensible options the candidates are returned exactly when every run of the
  router succeeds; otherwise the error is that of a run, and there is no panic.\<close>

theorem candidates_fail_with_router:
  assumes "check_candidate_options opts = Inr ()"
  shows "(\<exists>cset. route_candidates svc b opts = Some (Inr cset)) \<and>
      (\<forall>i < candidate_count opts. \<exists>x. snd (snd (snd (make_candidate svc b opts i))) = Inr x) \<or>
    (\<exists>i < candidate_count opts. \<exists>msg. route_candidates svc b opts = Some (Inl msg) \<and>
      snd (snd (snd (make_candidate svc b opts i))) = Inl msg)"
  using route_candidates_total[OF assms, of svc b]
proof
  assume "\<exists>cset. route_candidates svc b opts = Some (Inr cset)"
  then obtain cset where run: "route_candidates svc b opts = Some (Inr cset)" ..
  then obtain cs where "collected svc b (entries svc b opts) cs" by (rule route_candidates_Inr) blast
  then have "\<exists>x. snd (snd (snd (make_candidate svc b opts i))) = Inr x" if "i < candidate_count opts" for i
    using that by (auto simp: collected_def entries_def candidate_ok_def)
  then show ?thesis using run by blast
qed blast

end
