(* ===== verification/Convergence.thy ===== *)
theory Convergence
  imports Candidates
begin

text \<open>
  Rounds of candidates until the board is routed, \<open>routing_convergence.rs\<close> of
  \<open>crates/pcbex-core/src\<close>: every round routes candidates from the best board so far, each with its share
  of the work budget, ranks those without violations, and goes on only with a strict improvement. The
  report of a run can be replayed. \<open>board_identity\<close>, the digest of the serialised board, is a field of
  the services.
\<close>

section \<open>Options and reports\<close>

definition MAX_ROUTING_CONVERGENCE_ROUNDS :: nat where "MAX_ROUTING_CONVERGENCE_ROUNDS = 8"

definition MAX_ROUTING_CONVERGENCE_CANDIDATES_PER_ROUND :: nat where
  "MAX_ROUTING_CONVERGENCE_CANDIDATES_PER_ROUND = 32"

definition ROUTING_CONVERGENCE_REPORT_SCHEMA_VERSION :: nat where "ROUTING_CONVERGENCE_REPORT_SCHEMA_VERSION = 1"

record convergence_options =
  max_rounds :: nat
  candidates_per_round :: nat
  convergence_workers :: nat
  convergence_router_workers :: nat
  maximum_work_units :: nat

definition default_convergence_options :: convergence_options where
  "default_convergence_options =
     \<lparr>max_rounds = 3, candidates_per_round = 5, convergence_workers = 4, convergence_router_workers = 2,
      maximum_work_units = DEFAULT_ASTAR_WORK_BUDGET\<rparr>"

datatype candidate_status = Admissible | Rejected_Drc_Violations | Routing_Failed

datatype selection_reason =
  Accepted_Converged | Accepted_Improvement | Best_Without_Improvement | Lower_Ranked | Duplicate_Routes | Drc_Violations
  | Failed_Routing

datatype termination_reason = Continued | Converged | Stagnated | No_Admissible_Candidate | Maximum_Rounds

datatype convergence_status = Status_Converged | Status_Partial | Status_No_Admissible_Candidate

record convergence_metrics =
  metric_routed_nets :: nat
  metric_unrouted_nets :: nat
  metric_length_nm :: nm
  metric_vias :: nat
  metric_bends :: nat

definition metrics_of :: "quality_summary \<Rightarrow> convergence_metrics" where
  "metrics_of q = \<lparr>metric_routed_nets = routed_nets q, metric_unrouted_nets = unrouted_nets q,
     metric_length_nm = total_length_nm q, metric_vias = total_vias q, metric_bends = total_bends q\<rparr>"

record artifact_identity =
  artifact_bytes :: nat
  artifact_sha256 :: string

record convergence_services = services +
  identity_of :: "board \<Rightarrow> string + artifact_identity"

record convergence_candidate =
  conv_id :: string
  conv_objective :: routing_candidate_objective
  conv_variant :: nat
  conv_bend_cost :: nat
  conv_via_cost :: nat
  conv_allocated :: nat
  conv_status :: candidate_status
  conv_metrics :: "convergence_metrics option"
  conv_violations :: "nat option"
  conv_expanded :: "nat option"
  conv_cost :: "nat option"
  conv_duplicate_of :: "string option"
  conv_round_best :: bool
  conv_accepted :: bool
  conv_reason :: selection_reason

record convergence_round =
  round_number :: nat
  round_input :: convergence_metrics
  round_candidates :: "convergence_candidate list"
  round_selected :: "string option"
  round_accepted :: "string option"
  round_termination :: termination_reason

record convergence_report =
  report_schema_version :: nat
  report_scope :: string
  report_engine_version :: string
  report_status :: convergence_status
  report_converged :: bool
  report_rules_unchanged :: bool
  report_options :: convergence_options
  report_input_identity :: artifact_identity
  report_final_identity :: artifact_identity
  report_input_metrics :: convergence_metrics
  report_final_metrics :: convergence_metrics
  report_final_violations :: nat
  report_selected_id :: "string option"
  report_selected_round :: "nat option"
  report_candidates_evaluated :: nat
  report_allocated :: nat
  report_termination :: termination_reason
  report_rounds :: "convergence_round list"

record convergence_result =
  result_board :: board
  result_report :: convergence_report
  result_route_report :: "route_report option"

record generated_candidate =
  gen_record :: convergence_candidate
  gen_board :: "board option"
  gen_report :: "route_report option"

section \<open>Validation of the request\<close>

text \<open>\<open>str::split\<close> at a character.\<close>

fun split_on :: "char \<Rightarrow> string \<Rightarrow> string list" where
  "split_on d [] = [[]]"
| "split_on d (c # s) = (if c = d then [] # split_on d s
     else case split_on d s of [] \<Rightarrow> [[c]] | p # ps \<Rightarrow> (c # p) # ps)"

definition checked_mul_usize :: "nat \<Rightarrow> nat \<Rightarrow> nat option" where
  "checked_mul_usize x y = (if x * y < 2 ^ 64 then Some (x * y) else None)"

definition is_ascii_digit :: "char \<Rightarrow> bool" where
  "is_ascii_digit c = (digit_value c \<noteq> None)"

definition version_error :: "string + unit" where
  "version_error = Inl ''routing convergence engine version is not bounded semantic version''"

text \<open>The loop takes three components from the iterator.\<close>

fun check_components :: "nat \<Rightarrow> string list \<Rightarrow> string + unit" where
  "check_components 0 ps = (if ps \<noteq> [] then version_error else Inr ())"
| "check_components (Suc k) ps =
     (case ps of [] \<Rightarrow> version_error
      | p # ps \<Rightarrow> if p = [] \<or> \<not> list_all is_ascii_digit p then version_error else check_components k ps)"

definition validate_engine_version :: "string \<Rightarrow> string + unit" where
  "validate_engine_version v = (if v = [] \<or> length v > 32 then version_error else check_components 3 (split_on CHR ''.'' v))"

definition slots_overflow :: string where
  "slots_overflow = ''routing convergence candidate allocation overflow''"

definition validate_convergence_options :: "convergence_options \<Rightarrow> string + unit" where
  "validate_convergence_options opts =
     (if \<not> (1 \<le> max_rounds opts \<and> max_rounds opts \<le> MAX_ROUTING_CONVERGENCE_ROUNDS)
      then Inl (''routing convergence rounds must be between 1 and '' @ show_nat MAX_ROUTING_CONVERGENCE_ROUNDS)
      else if \<not> (1 \<le> candidates_per_round opts \<and> candidates_per_round opts \<le> MAX_ROUTING_CONVERGENCE_CANDIDATES_PER_ROUND)
      then Inl (''routing convergence candidates per round must be between 1 and '' @
             show_nat MAX_ROUTING_CONVERGENCE_CANDIDATES_PER_ROUND)
      else if \<not> (1 \<le> convergence_workers opts \<and> convergence_workers opts \<le> 8)
      then Inl ''routing convergence candidate workers must be between 1 and 8''
      else if \<not> (1 \<le> convergence_router_workers opts \<and> convergence_router_workers opts \<le> 8)
      then Inl ''routing convergence router workers must be between 1 and 8''
      else if convergence_workers opts * convergence_router_workers opts > 16
      then Inl ''routing convergence may use at most 16 routing threads''
      else if maximum_work_units opts > MAX_ASTAR_WORK_BUDGET
      then Inl (''routing convergence work budget must be at most '' @ show_nat MAX_ASTAR_WORK_BUDGET @ '' units'')
      else
        bind_result (ok_or slots_overflow (checked_mul_usize (max_rounds opts) (candidates_per_round opts))) (\<lambda>total_slots.
        if maximum_work_units opts < total_slots
        then Inl (''routing convergence work budget must provide at least one unit for each of '' @
               show_nat total_slots @ '' candidate slots'')
        else Inr ()))"

section \<open>A round\<close>

definition allocated_budget :: "nat \<Rightarrow> nat \<Rightarrow> nat \<Rightarrow> nat" where
  "allocated_budget maximum total_slots index = maximum div total_slots + (if index < maximum mod total_slots then 1 else 0)"

definition blocking_violation_count :: "violation list \<Rightarrow> nat" where
  "blocking_violation_count vs = length (filter (\<lambda>v. violation_rule v \<noteq> ''unrouted'') vs)"

definition round_name :: "nat \<Rightarrow> nat \<Rightarrow> string" where
  "round_name round_index index =
     ''round-'' @ show_padded (round_index + 1) @ ''-candidate-'' @ show_padded (index + 1)"

text \<open>What a thread of a round computes and sends.\<close>

type_synonym round_made = "routing_candidate_objective \<times> nat \<times> nat \<times> nat \<times> (string + board \<times> route_report)"

definition make_round_candidate ::
    "convergence_services \<Rightarrow> board \<Rightarrow> convergence_options \<Rightarrow> nat \<Rightarrow> nat \<Rightarrow> nat \<Rightarrow> round_made" where
  "make_round_candidate svc b opts round_index total_slots i =
     (let global_index = round_index * candidates_per_round opts + i;
          obj = objective global_index;
          (bend, via) = objective_costs b obj;
          budget = allocated_budget (maximum_work_units opts) total_slots global_index
      in (obj, bend, via, budget,
          router_of svc (with_costs b bend via) (convergence_router_workers opts) (global_index mod 256) budget))"

definition routed_candidate ::
    "convergence_services \<Rightarrow> board \<Rightarrow> convergence_options \<Rightarrow> nat \<Rightarrow> nat \<times> round_made \<Rightarrow> board \<Rightarrow> route_report \<Rightarrow>
     generated_candidate list \<Rightarrow> generated_candidate" where
  "routed_candidate svc b opts round_index entry out rep gs =
     (case entry of (i, obj, bend, via, budget, _) \<Rightarrow>
      let q = routing_quality svc out;
          duplicate_of = map_option (conv_id \<circ> gen_record)
            (find (\<lambda>g. case gen_board g of None \<Rightarrow> False | Some existing \<Rightarrow> routes existing = routes out) gs);
          violations = blocking_violation_count (check_of svc out);
          status = (if violations = 0 then Admissible else Rejected_Drc_Violations);
          reason = (if status = Rejected_Drc_Violations then Drc_Violations
                    else if duplicate_of \<noteq> None then Duplicate_Routes else Lower_Ranked)
      in \<lparr>gen_record =
            \<lparr>conv_id = round_name round_index i, conv_objective = obj,
             conv_variant = (round_index * candidates_per_round opts + i) mod 256,
             conv_bend_cost = bend, conv_via_cost = via, conv_allocated = budget, conv_status = status,
             conv_metrics = Some (metrics_of q), conv_violations = Some violations, conv_expanded = Some (expanded_states rep),
             conv_cost = Some (selection_cost b q), conv_duplicate_of = duplicate_of, conv_round_best = False,
             conv_accepted = False, conv_reason = reason\<rparr>,
          gen_board = Some out, gen_report = Some rep\<rparr>)"

definition failed_candidate :: "convergence_options \<Rightarrow> nat \<Rightarrow> nat \<times> round_made \<Rightarrow> generated_candidate" where
  "failed_candidate opts round_index entry =
     (case entry of (i, obj, bend, via, budget, _) \<Rightarrow>
      \<lparr>gen_record =
         \<lparr>conv_id = round_name round_index i, conv_objective = obj,
          conv_variant = (round_index * candidates_per_round opts + i) mod 256,
          conv_bend_cost = bend, conv_via_cost = via, conv_allocated = budget, conv_status = Routing_Failed,
          conv_metrics = None, conv_violations = None, conv_expanded = None,
          conv_cost = None, conv_duplicate_of = None, conv_round_best = False,
          conv_accepted = False, conv_reason = Failed_Routing\<rparr>,
       gen_board = None, gen_report = None\<rparr>)"

definition saturating_add_usize :: "nat \<Rightarrow> nat \<Rightarrow> nat" where
  "saturating_add_usize x y = min (x + y) (2 ^ 64 - 1)"

definition collect_round ::
    "convergence_services \<Rightarrow> board \<Rightarrow> convergence_options \<Rightarrow> nat \<Rightarrow> nat \<times> round_made \<Rightarrow>
     generated_candidate list \<times> nat \<Rightarrow> generated_candidate list \<times> nat" where
  "collect_round svc b opts round_index entry st =
     (case (entry, st) of ((i, obj, bend, via, budget, result), (gs, allocated)) \<Rightarrow>
        (gs @ [case result of
                 Inr (out, rep) \<Rightarrow> routed_candidate svc b opts round_index entry (out\<lparr>rules_of := rules_of b\<rparr>) rep gs
               | Inl _ \<Rightarrow> failed_candidate opts round_index entry],
         saturating_add_usize allocated budget))"

text \<open>What happens to the received results of a round.\<close>

definition assemble_round ::
    "convergence_services \<Rightarrow> board \<Rightarrow> convergence_options \<Rightarrow> nat \<Rightarrow> nat \<Rightarrow> (nat \<times> round_made) list \<Rightarrow>
     generated_candidate list \<times> nat" where
  "assemble_round svc b opts round_index allocated received =
     fold (collect_round svc b opts round_index) (sort_by (\<lambda>x y. compare_val (fst x) (fst y)) received) ([], allocated)"

definition generate_round ::
    "convergence_services \<Rightarrow> board \<Rightarrow> convergence_options \<Rightarrow> nat \<Rightarrow> nat \<Rightarrow> nat \<Rightarrow> generated_candidate list \<times> nat" where
  "generate_round svc b opts round_index total_slots allocated =
     assemble_round svc b opts round_index allocated
       (map (\<lambda>i. (i, make_round_candidate svc b opts round_index total_slots i)) [0..<candidates_per_round opts])"


section \<open>Ranking\<close>

text \<open>Unrouted nets, selection cost, length, vias and bends; tuples compare lexicographically.\<close>

type_synonym score = "nat \<times> nat \<times> nm \<times> nat \<times> nat"

definition candidate_score :: "convergence_candidate \<Rightarrow> score option" where
  "candidate_score c =
     Option.bind (conv_metrics c) (\<lambda>m. Option.bind (conv_cost c) (\<lambda>cost.
     Some (metric_unrouted_nets m, cost, metric_length_nm m, metric_vias m, metric_bends m)))"

definition quality_score :: "board \<Rightarrow> quality_summary \<Rightarrow> score" where
  "quality_score b q = (unrouted_nets q, selection_cost b q, total_length_nm q, total_vias q, total_bends q)"

text \<open>\<open>None\<close> is the panic of an \<open>expect\<close>.\<close>

definition compare_candidates :: "convergence_candidate \<Rightarrow> convergence_candidate \<Rightarrow> ordering option" where
  "compare_candidates left right =
     Option.bind (candidate_score left) (\<lambda>s. Option.bind (candidate_score right) (\<lambda>t.
     Some (then_with (compare_val s t) (compare_val (conv_id left) (conv_id right)))))"

definition select_round_winner :: "convergence_candidate list \<Rightarrow> nat option option" where
  "select_round_winner cs =
     map_option (map_option fst)
       (min_by (\<lambda>l r. compare_candidates (snd l) (snd r)) (filter (\<lambda>p. conv_status (snd p) = Admissible) (enumerate 0 cs)))"

section \<open>The rounds\<close>

record progress =
  seed :: board
  past_rounds :: "convergence_round list"
  chosen_id :: "string option"
  chosen_round :: "nat option"
  chosen_report :: "route_report option"
  allocated_units :: nat
  termination_so_far :: termination_reason

definition judged :: "bool \<Rightarrow> bool \<Rightarrow> convergence_candidate \<Rightarrow> convergence_candidate" where
  "judged improved converged c =
     (if improved
      then c\<lparr>conv_round_best := True, conv_accepted := True,
        conv_reason := (if converged then Accepted_Converged else Accepted_Improvement)\<rparr>
      else c\<lparr>conv_round_best := True, conv_reason := Best_Without_Improvement\<rparr>)"

definition round_ending :: "convergence_options \<Rightarrow> nat \<Rightarrow> bool \<Rightarrow> bool \<Rightarrow> termination_reason" where
  "round_ending opts number improved converged =
     (if \<not> improved then Stagnated
      else if converged then Converged
      else if number = max_rounds opts then Maximum_Rounds
      else Continued)"

definition all_routed :: "convergence_candidate \<Rightarrow> bool" where
  "all_routed c = (case conv_metrics c of None \<Rightarrow> False | Some m \<Rightarrow> metric_unrouted_nets m = 0)"

definition record_round ::
    "convergence_options \<Rightarrow> nat \<Rightarrow> quality_summary \<Rightarrow> generated_candidate list \<Rightarrow> nat \<Rightarrow> bool \<Rightarrow> convergence_round" where
  "record_round opts number seed_quality gs w improved =
     (let c = gen_record (gs ! w) in
      \<lparr>round_number = number, round_input = metrics_of seed_quality,
       round_candidates = (map gen_record gs)[w := judged improved (all_routed c) c], round_selected = Some (conv_id c),
       round_accepted = (if improved then Some (conv_id c) else None),
       round_termination = round_ending opts number improved (all_routed c)\<rparr>)"

definition finish_round ::
    "board \<Rightarrow> convergence_options \<Rightarrow> nat \<Rightarrow> quality_summary \<Rightarrow> generated_candidate list \<Rightarrow> nat \<Rightarrow> progress \<Rightarrow> progress option" where
  "finish_round b opts number seed_quality gs w st =
     (case candidate_score (gen_record (gs ! w)) of None \<Rightarrow> None
      | Some winner_score \<Rightarrow>
          (let improved = winner_score < quality_score b seed_quality;
               record = record_round opts number seed_quality gs w improved;
               st = st\<lparr>past_rounds := past_rounds st @ [record], termination_so_far := round_termination record\<rparr>
           in if improved
              then map_option (\<lambda>next_seed. st\<lparr>seed := next_seed, chosen_report := gen_report (gs ! w),
                     chosen_id := Some (conv_id (gen_record (gs ! w))), chosen_round := Some number\<rparr>) (gen_board (gs ! w))
              else Some st))"

definition run_round :: "convergence_services \<Rightarrow> board \<Rightarrow> convergence_options \<Rightarrow> nat \<Rightarrow> nat \<Rightarrow> progress \<Rightarrow> progress option" where
  "run_round svc b opts total_slots round_index st =
     (let number = round_index + 1;
          seed_quality = routing_quality svc (seed st);
          (gs, allocated) = generate_round svc (seed st) opts round_index total_slots (allocated_units st);
          st = st\<lparr>allocated_units := allocated\<rparr>
      in case select_round_winner (map gen_record gs) of
           None \<Rightarrow> None
         | Some (Some w) \<Rightarrow> finish_round b opts number seed_quality gs w st
         | Some None \<Rightarrow>
             Some (st\<lparr>past_rounds := past_rounds st @
               [\<lparr>round_number = number, round_input = metrics_of seed_quality, round_candidates = map gen_record gs,
                 round_selected = None, round_accepted = None, round_termination = No_Admissible_Candidate\<rparr>],
               termination_so_far := No_Admissible_Candidate\<rparr>))"

fun run_rounds :: "convergence_services \<Rightarrow> board \<Rightarrow> convergence_options \<Rightarrow> nat \<Rightarrow> nat list \<Rightarrow> progress \<Rightarrow> progress option" where
  "run_rounds svc b opts total_slots [] st = Some st"
| "run_rounds svc b opts total_slots (k # ks) st =
     Option.bind (run_round svc b opts total_slots k st) (\<lambda>st.
     if termination_so_far st \<noteq> Continued then Some st else run_rounds svc b opts total_slots ks st)"

section \<open>The whole run\<close>

definition convergence_scope :: string where
  "convergence_scope = ''bounded_deterministic_routing_convergence''"

definition start_progress :: "board \<Rightarrow> progress" where
  "start_progress b = \<lparr>seed = b, past_rounds = [], chosen_id = None, chosen_round = None, chosen_report = None,
     allocated_units = 0, termination_so_far = Maximum_Rounds\<rparr>"

definition already_routed ::
    "board \<Rightarrow> convergence_options \<Rightarrow> string \<Rightarrow> artifact_identity \<Rightarrow> convergence_metrics \<Rightarrow> convergence_result" where
  "already_routed b opts engine identity metrics =
     \<lparr>result_board = b,
      result_report = \<lparr>report_schema_version = ROUTING_CONVERGENCE_REPORT_SCHEMA_VERSION, report_scope = convergence_scope,
        report_engine_version = engine, report_status = Status_Converged, report_converged = True,
        report_rules_unchanged = True, report_options = opts, report_input_identity = identity,
        report_final_identity = identity, report_input_metrics = metrics, report_final_metrics = metrics,
        report_final_violations = 0, report_selected_id = None, report_selected_round = None,
        report_candidates_evaluated = 0, report_allocated = 0, report_termination = Converged, report_rounds = []\<rparr>,
      result_route_report = None\<rparr>"

definition conclude ::
    "convergence_services \<Rightarrow> board \<Rightarrow> convergence_options \<Rightarrow> string \<Rightarrow> artifact_identity \<Rightarrow> convergence_metrics \<Rightarrow> progress \<Rightarrow>
     router_error + convergence_result" where
  "conclude svc b opts engine input_identity input_metrics st =
     (if rules_of (seed st) \<noteq> rules_of b
      then Inl (Message ''routing convergence changed the selected board design rules'')
      else
        let violations = blocking_violation_count (check_of svc (seed st)) in
        if violations \<noteq> 0
        then Inl (Message ''routing convergence selected a board with DRC violations'')
        else
          bind_result (map_error Message (identity_of svc (seed st))) (\<lambda>final_identity.
          let metrics = metrics_of (routing_quality svc (seed st));
              converged = (metric_unrouted_nets metrics = 0);
              status = (if converged then Status_Converged
                else if termination_so_far st = No_Admissible_Candidate \<and> chosen_id st = None
                then Status_No_Admissible_Candidate else Status_Partial)
          in Inr \<lparr>result_board = seed st,
            result_report = \<lparr>report_schema_version = ROUTING_CONVERGENCE_REPORT_SCHEMA_VERSION, report_scope = convergence_scope,
              report_engine_version = engine, report_status = status, report_converged = converged,
              report_rules_unchanged = True, report_options = opts, report_input_identity = input_identity,
              report_final_identity = final_identity, report_input_metrics = input_metrics, report_final_metrics = metrics,
              report_final_violations = violations, report_selected_id = chosen_id st, report_selected_round = chosen_round st,
              report_candidates_evaluated = sum_list (map (length \<circ> round_candidates) (past_rounds st)),
              report_allocated = allocated_units st, report_termination = termination_so_far st,
              report_rounds = past_rounds st\<rparr>,
            result_route_report = chosen_report st\<rparr>))"

definition admit_request ::
    "convergence_services \<Rightarrow> board \<Rightarrow> convergence_options \<Rightarrow> string \<Rightarrow> router_error + nat" where
  "admit_request svc b opts engine =
     bind_result (map_error Message (validate_engine_version engine)) (\<lambda>_.
     bind_result (map_error Message (validate_convergence_options opts)) (\<lambda>_.
     bind_result (map_error Limit_Error (validate_routing_resource_bounds b)) (\<lambda>_.
     let violations = blocking_violation_count (check_of svc b) in
     if violations \<noteq> 0
     then Inl (Message (''routing convergence requires a DRC-clean input board ('' @ show_nat violations @ '' violation(s))''))
     else ok_or (Message slots_overflow) (checked_mul_usize (max_rounds opts) (candidates_per_round opts)))))"

text \<open>\<open>None\<close> is a panic.\<close>

definition route_board_with_convergence_for_engine ::
    "convergence_services \<Rightarrow> board \<Rightarrow> convergence_options \<Rightarrow> string \<Rightarrow> (router_error + convergence_result) option" where
  "route_board_with_convergence_for_engine svc b opts engine =
     (case admit_request svc b opts engine of Inl e \<Rightarrow> Some (Inl e)
      | Inr total_slots \<Rightarrow>
          (let metrics = metrics_of (routing_quality svc b) in
           case identity_of svc b of Inl e \<Rightarrow> Some (Inl (Message e))
           | Inr identity \<Rightarrow>
               if metric_unrouted_nets metrics = 0 then Some (Inr (already_routed b opts engine identity metrics))
               else map_option (conclude svc b opts engine identity metrics)
                      (run_rounds svc b opts total_slots [0..<max_rounds opts] (start_progress b))))"

text \<open>With the version of the crate.\<close>

definition route_board_with_convergence :: "convergence_services \<Rightarrow> board \<Rightarrow> convergence_options \<Rightarrow> (router_error + convergence_result) option" where
  "route_board_with_convergence svc b opts = route_board_with_convergence_for_engine svc b opts ''1.534.0''"

definition verify_routing_convergence_report ::
    "convergence_services \<Rightarrow> board \<Rightarrow> convergence_report \<Rightarrow> (router_error + convergence_result) option" where
  "verify_routing_convergence_report svc b retained =
     (if report_schema_version retained \<noteq> ROUTING_CONVERGENCE_REPORT_SCHEMA_VERSION
      then Some (Inl (Message ''unsupported routing convergence report schema version''))
      else if report_scope retained \<noteq> convergence_scope
      then Some (Inl (Message ''routing convergence report scope is invalid''))
      else case validate_engine_version (report_engine_version retained) of
        Inl e \<Rightarrow> Some (Inl (Message e))
      | Inr _ \<Rightarrow>
          map_option (\<lambda>result. bind_result result (\<lambda>fresh.
            if result_report fresh \<noteq> retained
            then Inl (Message ''retained routing convergence report does not match a fresh deterministic replay'')
            else Inr fresh))
            (route_board_with_convergence_for_engine svc b (report_options retained) (report_engine_version retained)))"


section \<open>What a round generates\<close>

text \<open>An admissible candidate keeps its board, which has the rules of the input and no violations, and its score
  is that of the board.\<close>

definition generated_ok :: "convergence_services \<Rightarrow> board \<Rightarrow> generated_candidate \<Rightarrow> bool" where
  "generated_ok svc b g \<longleftrightarrow> conv_status (gen_record g) = Admissible \<longrightarrow>
     (\<exists>out. gen_board g = Some out \<and> rules_of out = rules_of b \<and> blocking_violation_count (check_of svc out) = 0 \<and>
        conv_metrics (gen_record g) = Some (metrics_of (routing_quality svc out)) \<and>
        candidate_score (gen_record g) = Some (quality_score b (routing_quality svc out)))"

lemma routed_candidate_ok: "rules_of out = rules_of b \<Longrightarrow> generated_ok svc b (routed_candidate svc b opts k entry out rep gs)"
  by (cases entry)
    (auto simp: generated_ok_def routed_candidate_def candidate_score_def quality_score_def metrics_of_def Let_def split: if_splits)

lemma failed_candidate_ok: "generated_ok svc b (failed_candidate opts k entry)"
  by (cases entry) (simp add: generated_ok_def failed_candidate_def)

lemma collect_round_ok:
  assumes "fold (collect_round svc b opts k) es (gs, allocated) = (gs', allocated')" "\<forall>g \<in> set gs. generated_ok svc b g"
  shows "(\<forall>g \<in> set gs'. generated_ok svc b g) \<and> length gs' = length gs + length es"
  using assms
proof (induction es arbitrary: gs allocated)
  case (Cons e es)
  obtain gs1 a1 where one: "collect_round svc b opts k e (gs, allocated) = (gs1, a1)" by (cases "collect_round svc b opts k e (gs, allocated)")
  then have "\<forall>g \<in> set gs1. generated_ok svc b g" "length gs1 = Suc (length gs)"
    using Cons.prems(2) routed_candidate_ok failed_candidate_ok
    by (auto simp: collect_round_def split: prod.splits sum.splits)
  with Cons.IH[of gs1 a1] Cons.prems(1) one show ?case by simp
qed simp

lemma collect_round_allocated:
  assumes "allocated + sum_list (map (\<lambda>e. fst (snd (snd (snd (snd e))))) es) < 2 ^ 64"
  shows "snd (fold (collect_round svc b opts k) es (gs, allocated)) =
    allocated + sum_list (map (\<lambda>e. fst (snd (snd (snd (snd e))))) es)"
  using assms
proof (induction es arbitrary: gs allocated)
  case (Cons e es)
  obtain i obj bend via budget result where e: "e = (i, obj, bend, via, budget, result)" by (cases e)
  obtain gs1 where one: "collect_round svc b opts k e (gs, allocated) = (gs1, allocated + budget)"
    using Cons.prems by (auto simp: e collect_round_def saturating_add_usize_def)
  show ?case using Cons.IH[of "allocated + budget" gs1] Cons.prems one by (simp add: e)
qed simp

lemma sort_numbered:
  "sort_by (\<lambda>x y. compare_val (fst x) (fst y)) (map (\<lambda>i. (i, job i)) [0..<k]) = map (\<lambda>i. (i, job i)) [0..<k]"
  by (rule sorted_by_number) (auto simp: comp_def)

lemma generate_round_ok:
  assumes "generate_round svc b opts k total_slots allocated = (gs, allocated')"
  shows "\<forall>g \<in> set gs. generated_ok svc b g" "length gs = candidates_per_round opts"
  using assms collect_round_ok[of svc b opts k _ "[]" allocated gs allocated']
  by (auto simp: generate_round_def assemble_round_def sort_numbered)

definition round_allocation :: "convergence_options \<Rightarrow> nat \<Rightarrow> nat \<Rightarrow> nat" where
  "round_allocation opts total_slots k =
     (\<Sum>i \<leftarrow> [0..<candidates_per_round opts]. allocated_budget (maximum_work_units opts) total_slots (k * candidates_per_round opts + i))"

lemma generate_round_allocated:
  assumes "generate_round svc b opts k total_slots allocated = (gs, allocated')"
    and "allocated + round_allocation opts total_slots k < 2 ^ 64"
  shows "allocated' = allocated + round_allocation opts total_slots k"
proof -
  let ?es = "map (\<lambda>i. (i, make_round_candidate svc b opts k total_slots i)) [0..<candidates_per_round opts]"
  have "map (\<lambda>e. fst (snd (snd (snd (snd e))))) ?es =
      map (\<lambda>i. allocated_budget (maximum_work_units opts) total_slots (k * candidates_per_round opts + i)) [0..<candidates_per_round opts]"
    by (auto simp: make_round_candidate_def Let_def split: prod.splits)
  then have "sum_list (map (\<lambda>e. fst (snd (snd (snd (snd e))))) ?es) = round_allocation opts total_slots k"
    by (simp only: round_allocation_def)
  from collect_round_allocated[of allocated ?es svc b opts k "[]", unfolded this] show ?thesis
    using assms by (simp add: generate_round_def assemble_round_def sort_numbered)
qed

text \<open>The shares of all slots add up to the budget.\<close>

lemma allocated_budget_prefix:
  "(\<Sum>i \<leftarrow> [0..<n]. allocated_budget maximum total_slots i) = n * (maximum div total_slots) + min n (maximum mod total_slots)"
  by (simp add: allocated_budget_def sum_list_addf sum_below sum_list_triv)

lemma rounds_allocation:
  "(\<Sum>k \<leftarrow> [0..<n]. round_allocation opts total_slots k) =
    (\<Sum>i \<leftarrow> [0..<n * candidates_per_round opts]. allocated_budget (maximum_work_units opts) total_slots i)"
proof (induction n)
  case (Suc n)
  let ?c = "candidates_per_round opts"
  have "[0..<Suc n * ?c] = [0..<n * ?c] @ map (\<lambda>i. i + n * ?c) [0..<?c]"
    using upt_add_eq_append[of 0 "n * ?c" ?c] by (simp add: map_add_upt add.commute)
  then have "[0..<Suc n * ?c] = [0..<n * ?c] @ map (\<lambda>i. n * ?c + i) [0..<?c]" by (simp only: add.commute[of _ "n * ?c"])
  then show ?case using Suc by (simp add: round_allocation_def comp_def)
qed simp

lemma allocation_within:
  assumes "n \<le> total_slots"
  shows "(\<Sum>i \<leftarrow> [0..<n]. allocated_budget maximum total_slots i) \<le> maximum"
proof (cases "total_slots = 0")
  case False
  have "n * (maximum div total_slots) + min n (maximum mod total_slots) \<le> total_slots * (maximum div total_slots) + maximum mod total_slots"
    using assms by (intro add_mono mult_right_mono) simp_all
  then show ?thesis by (simp add: allocated_budget_prefix)
qed (use assms in simp)

section \<open>The winner of a round\<close>

lemma min_by_agree:
  assumes "\<And>x y. x \<in> set xs \<Longrightarrow> y \<in> set xs \<Longrightarrow> cmp x y = Some (c x y)"
  shows "min_by cmp xs = min_by (\<lambda>x y. Some (c x y)) xs"
proof -
  let ?f = "\<lambda>cmp y least. Option.bind least (\<lambda>m. map_option (\<lambda>o'. if o' = Greater then y else m) (cmp m y))"
  have "fold (?f cmp) ys (Some x) = fold (?f (\<lambda>x y. Some (c x y))) ys (Some x)" if "set (x # ys) \<subseteq> set xs" for x ys
    using that
  proof (induction ys arbitrary: x)
    case (Cons y ys)
    then have "cmp x y = Some (c x y)" using assms by simp
    then show ?case using Cons.IH[of "if c x y = Greater then y else x"] Cons.prems by simp
  qed simp
  from this[of "hd xs" "tl xs"] show ?thesis by (cases xs) (simp_all add: min_by_def)
qed

lemma select_winner:
  assumes "\<forall>c \<in> set cs. conv_status c = Admissible \<longrightarrow> candidate_score c \<noteq> None"
  shows "(select_round_winner cs = Some None \<and> (\<forall>c \<in> set cs. conv_status c \<noteq> Admissible)) \<or>
    (\<exists>w s. select_round_winner cs = Some (Some w) \<and> w < length cs \<and> conv_status (cs ! w) = Admissible \<and>
      candidate_score (cs ! w) = Some s \<and>
      (\<forall>c \<in> set cs. conv_status c = Admissible \<longrightarrow> (\<exists>t. candidate_score c = Some t \<and> s \<le> t)))"
proof -
  let ?xs = "filter (\<lambda>p. conv_status (snd p) = Admissible) (enumerate 0 cs)"
  let ?c = "\<lambda>l r. then_with (compare_val (the (candidate_score (snd l))) (the (candidate_score (snd r))))
    (compare_val (conv_id (snd l)) (conv_id (snd r)))"
  have mem: "(i, c) \<in> set ?xs \<longleftrightarrow> i < length cs \<and> cs ! i = c \<and> conv_status c = Admissible" for i c
    by (auto simp: in_set_enumerate_eq)
  have sc: "\<exists>s. candidate_score (snd p) = Some s" if "p \<in> set ?xs" for p
  proof -
    have "snd p \<in> set cs" "conv_status (snd p) = Admissible" using that mem[of "fst p" "snd p"] by (auto, metis nth_mem)
    then show ?thesis using assms by blast
  qed
  have "compare_candidates (snd x) (snd y) = Some (?c x y)" if "x \<in> set ?xs" "y \<in> set ?xs" for x y
    using sc[OF that(1)] sc[OF that(2)] by (auto simp: compare_candidates_def)
  then have agree: "min_by (\<lambda>l r. compare_candidates (snd l) (snd r)) ?xs = min_by (\<lambda>x y. Some (?c x y)) ?xs" by (rule min_by_agree)
  have order: "consistent_order ?c" by (intro order_then order_of_key)
  show ?thesis
  proof (cases "?xs = []")
    case True
    then have "select_round_winner cs = Some None" by (simp add: select_round_winner_def min_by_def)
    moreover have "\<forall>c \<in> set cs. conv_status c \<noteq> Admissible" using True mem by (metis in_set_conv_nth list.set(1) empty_iff)
    ultimately show ?thesis by blast
  next
    case False
    obtain m where m: "min_by (\<lambda>x y. Some (?c x y)) ?xs = Some (Some m)" "m \<in> set ?xs" "\<forall>x \<in> set ?xs. ?c m x \<noteq> Greater"
      using min_by_total[OF order False] by blast
    obtain w c where wc: "m = (w, c)" by (cases m)
    have w: "w < length cs" "cs ! w = c" "conv_status c = Admissible" using m(2) mem by (simp_all add: wc)
    have "select_round_winner cs = Some (Some w)" by (simp add: select_round_winner_def agree m(1) wc)
    moreover obtain s where s: "candidate_score c = Some s" using assms w nth_mem by blast
    moreover have "\<exists>t. candidate_score d = Some t \<and> s \<le> t" if d: "d \<in> set cs" "conv_status d = Admissible" for d
    proof -
      obtain j where "(j, d) \<in> set ?xs" using d mem by (metis in_set_conv_nth)
      then have "?c m (j, d) \<noteq> Greater" using m(3) by blast
      then show ?thesis using assms d s by (auto simp: wc then_with_def compare_val_def split: if_splits)
    qed
    ultimately show ?thesis using w by blast
  qed
qed


section \<open>What the rounds keep\<close>

text \<open>The record of a round names an admissible candidate of the least score, if there is any.\<close>

definition round_ok :: "convergence_options \<Rightarrow> convergence_round \<Rightarrow> bool" where
  "round_ok opts r \<longleftrightarrow> length (round_candidates r) = candidates_per_round opts \<and>
     (case round_selected r of
        None \<Rightarrow> round_accepted r = None \<and> (\<forall>c \<in> set (round_candidates r). conv_status c \<noteq> Admissible)
      | Some name \<Rightarrow> (round_accepted r = None \<or> round_accepted r = Some name) \<and>
          (\<exists>c \<in> set (round_candidates r). \<exists>s. conv_id c = name \<and> conv_round_best c \<and> conv_status c = Admissible \<and> candidate_score c = Some s \<and>
            (\<forall>d \<in> set (round_candidates r). conv_status d = Admissible \<longrightarrow> (\<exists>t. candidate_score d = Some t \<and> s \<le> t))))"

definition progress_ok :: "convergence_services \<Rightarrow> board \<Rightarrow> convergence_options \<Rightarrow> nat \<Rightarrow> nat \<Rightarrow> progress \<Rightarrow> bool" where
  "progress_ok svc b opts total_slots n st \<longleftrightarrow>
     rules_of (seed st) = rules_of b \<and> blocking_violation_count (check_of svc (seed st)) = 0 \<and>
     (if chosen_id st = None then seed st = b
      else quality_score b (routing_quality svc (seed st)) < quality_score b (routing_quality svc b)) \<and>
     allocated_units st = (\<Sum>k \<leftarrow> [0..<n]. round_allocation opts total_slots k) \<and>
     length (past_rounds st) = n \<and> (\<forall>r \<in> set (past_rounds st). round_ok opts r)"

lemma quality_score_rules: "rules_of a = rules_of b \<Longrightarrow> quality_score a q = quality_score b q"
  by (simp add: quality_score_def selection_cost_def)

lemma judged_simps [simp]:
  "candidate_score (judged i v c) = candidate_score c" "conv_id (judged i v c) = conv_id c"
  "conv_status (judged i v c) = conv_status c" "conv_round_best (judged i v c)"
  by (simp_all add: judged_def candidate_score_def)

text \<open>The winner of a round is admissible with the least score.\<close>

definition wins :: "generated_candidate list \<Rightarrow> nat \<Rightarrow> score \<Rightarrow> bool" where
  "wins gs w s \<longleftrightarrow> w < length gs \<and> conv_status (gen_record (gs ! w)) = Admissible \<and> candidate_score (gen_record (gs ! w)) = Some s \<and>
     (\<forall>g \<in> set gs. conv_status (gen_record g) = Admissible \<longrightarrow> (\<exists>t. candidate_score (gen_record g) = Some t \<and> s \<le> t))"

lemma record_round_ok:
  assumes "wins gs w s" "length gs = candidates_per_round opts"
  shows "round_ok opts (record_round opts number q gs w improved)"
proof -
  let ?c = "gen_record (gs ! w)"
  let ?r = "judged improved (all_routed ?c) ?c"
  have "?r \<in> set ((map gen_record gs)[w := ?r])" using assms(1) by (simp add: set_update_memI wins_def)
  moreover have "\<exists>t. candidate_score d = Some t \<and> s \<le> t"
    if "d \<in> set ((map gen_record gs)[w := ?r])" "conv_status d = Admissible" for d
  proof -
    have "d = ?r \<or> d \<in> gen_record ` set gs" using that(1) set_update_subset_insert[of "map gen_record gs" w ?r] by auto
    then show ?thesis using that(2) assms(1) unfolding wins_def by (metis imageE judged_simps(1) order_refl)
  qed
  ultimately have "\<exists>c \<in> set ((map gen_record gs)[w := ?r]). \<exists>s. conv_id c = conv_id ?c \<and> conv_round_best c \<and> conv_status c = Admissible \<and>
      candidate_score c = Some s \<and>
      (\<forall>d \<in> set ((map gen_record gs)[w := ?r]). conv_status d = Admissible \<longrightarrow> (\<exists>t. candidate_score d = Some t \<and> s \<le> t))"
    using assms(1) by (intro bexI[of _ ?r] exI[of _ s] conjI) (simp_all add: wins_def)
  then show ?thesis using assms(2) by (simp add: round_ok_def record_round_def Let_def)
qed

lemma finish_round_ok:
  assumes st: "progress_ok svc b opts total_slots n st0" "st = st0\<lparr>allocated_units := allocated_units st0 + round_allocation opts total_slots n\<rparr>"
    and gs: "\<forall>g \<in> set gs. generated_ok svc b g" "length gs = candidates_per_round opts" and w: "wins gs w s"
  shows "\<exists>st'. finish_round b opts number (routing_quality svc (seed st)) gs w st = Some st' \<and> progress_ok svc b opts total_slots (Suc n) st'"
proof -
  let ?q = "routing_quality svc (seed st)"
  have "generated_ok svc b (gs ! w)" using gs(1) w by (simp add: wins_def)
  then obtain out where out: "gen_board (gs ! w) = Some out" "rules_of out = rules_of b"
    "blocking_violation_count (check_of svc out) = 0" "s = quality_score b (routing_quality svc out)"
    using w by (auto simp: generated_ok_def wins_def)
  have s: "candidate_score (gen_record (gs ! w)) = Some s" using w by (simp add: wins_def)
  note good = record_round_ok[OF w gs(2)]
  have le: "quality_score b ?q \<le> quality_score b (routing_quality svc b)"
    using st by (simp add: progress_ok_def less_imp_le split: if_splits del: less_eq_prod_simp less_prod_simp)
  show ?thesis
  proof (cases "s < quality_score b ?q")
    case True
    have "quality_score b (routing_quality svc out) < quality_score b (routing_quality svc b)"
      using less_le_trans[OF True le] out(4) by simp
    then show ?thesis
      using True st(1) out(1-3) good by (auto simp: st(2) s finish_round_def Let_def progress_ok_def simp del: less_eq_prod_simp less_prod_simp)
  next
    case False
    then show ?thesis
      using st(1) good by (auto simp: st(2) s finish_round_def Let_def progress_ok_def simp del: less_eq_prod_simp less_prod_simp)
  qed
qed

lemma run_round_ok:
  assumes st: "progress_ok svc b opts total_slots n st"
    and slots: "Suc n * candidates_per_round opts \<le> total_slots" "maximum_work_units opts < 2 ^ 64"
  shows "\<exists>st'. run_round svc b opts total_slots n st = Some st' \<and> progress_ok svc b opts total_slots (Suc n) st'"
proof -
  obtain gs allocated where gen: "generate_round svc (seed st) opts n total_slots (allocated_units st) = (gs, allocated)"
    by (cases "generate_round svc (seed st) opts n total_slots (allocated_units st)")
  have rules: "rules_of (seed st) = rules_of b" using st by (simp add: progress_ok_def)
  have ok: "\<forall>g \<in> set gs. generated_ok svc b g" "length gs = candidates_per_round opts"
    using generate_round_ok[OF gen] by (simp_all add: generated_ok_def rules quality_score_rules[OF rules])
  have "allocated_units st + round_allocation opts total_slots n = (\<Sum>k \<leftarrow> [0..<Suc n]. round_allocation opts total_slots k)"
    using st by (simp add: progress_ok_def)
  also have "\<dots> \<le> maximum_work_units opts" unfolding rounds_allocation by (rule allocation_within[OF slots(1)])
  finally have alloc: "allocated = allocated_units st + round_allocation opts total_slots n"
    using slots(2) by (intro generate_round_allocated[OF gen]) simp
  have "candidate_score (gen_record g) \<noteq> None" if "g \<in> set gs" "conv_status (gen_record g) = Admissible" for g
    using bspec[OF ok(1) that(1), unfolded generated_ok_def, rule_format, OF that(2)] by fastforce
  then have "\<forall>c \<in> set (map gen_record gs). conv_status c = Admissible \<longrightarrow> candidate_score c \<noteq> None" unfolding set_map by blast
  from select_winner[OF this] show ?thesis
  proof (elim disjE exE conjE)
    assume none: "select_round_winner (map gen_record gs) = Some None" "\<forall>c \<in> set (map gen_record gs). conv_status c \<noteq> Admissible"
    let ?r = "\<lparr>round_number = Suc n, round_input = metrics_of (routing_quality svc (seed st)), round_candidates = map gen_record gs,
      round_selected = None, round_accepted = None, round_termination = No_Admissible_Candidate\<rparr>"
    let ?st = "st\<lparr>allocated_units := allocated_units st + round_allocation opts total_slots n,
      past_rounds := past_rounds st @ [?r], termination_so_far := No_Admissible_Candidate\<rparr>"
    have "run_round svc b opts total_slots n st = Some ?st" using none(1) by (simp add: run_round_def gen alloc)
    moreover have "round_ok opts ?r" using none(2) ok(2) by (simp add: round_ok_def)
    then have "progress_ok svc b opts total_slots (Suc n) ?st" using st by (auto simp: progress_ok_def)
    ultimately show ?thesis by blast
  next
    fix w s
    assume w: "select_round_winner (map gen_record gs) = Some (Some w)" "w < length (map gen_record gs)"
      "conv_status (map gen_record gs ! w) = Admissible" "candidate_score (map gen_record gs ! w) = Some s"
      "\<forall>c \<in> set (map gen_record gs). conv_status c = Admissible \<longrightarrow> (\<exists>t. candidate_score c = Some t \<and> s \<le> t)"
    then have "wins gs w s" by (simp add: wins_def)
    from finish_round_ok[OF st refl ok this, of "Suc n"] show ?thesis using w(1) by (simp add: run_round_def gen Let_def alloc)
  qed
qed

lemma run_rounds_ok:
  assumes "progress_ok svc b opts total_slots n st" "N * candidates_per_round opts \<le> total_slots" "maximum_work_units opts < 2 ^ 64" "n \<le> N"
  shows "\<exists>st' m. run_rounds svc b opts total_slots [n..<N] st = Some st' \<and> m \<le> N \<and> progress_ok svc b opts total_slots m st'"
  using assms(1,4)
proof (induction "N - n" arbitrary: n st)
  case 0
  then show ?case by (intro exI[of _ st] exI[of _ n]) simp
next
  case (Suc d)
  then have n: "n < N" by simp
  have "Suc n * candidates_per_round opts \<le> N * candidates_per_round opts" using n by (intro mult_right_mono) simp_all
  then obtain st1 where st1: "run_round svc b opts total_slots n st = Some st1" "progress_ok svc b opts total_slots (Suc n) st1"
    using run_round_ok[OF Suc.prems(1) _ assms(3)] assms(2) by (meson le_trans)
  show ?case
  proof (cases "termination_so_far st1 = Continued")
    case True
    then show ?thesis using Suc.hyps(1)[of "Suc n" st1] Suc.hyps(2) st1 n by (simp add: upt_conv_Cons)
  next
    case False
    then show ?thesis using st1 n by (intro exI[of _ st1] exI[of _ "Suc n"]) (simp add: upt_conv_Cons)
  qed
qed


section \<open>Accepted requests\<close>

lemma admit_request_Inr:
  assumes "admit_request svc b opts engine = Inr total_slots"
  shows "total_slots = max_rounds opts * candidates_per_round opts" "maximum_work_units opts \<le> MAX_ASTAR_WORK_BUDGET"
    "1 \<le> max_rounds opts" "1 \<le> candidates_per_round opts" "1 \<le> convergence_workers opts" "total_slots \<le> maximum_work_units opts"
    "blocking_violation_count (check_of svc b) = 0" "validate_engine_version engine = Inr ()"
proof -
  have "validate_convergence_options opts = Inr ()" and "checked_mul_usize (max_rounds opts) (candidates_per_round opts) = Some total_slots"
    using assms by (auto simp: admit_request_def bind_result_Inr Let_def ok_or_Inr split: if_splits)
  then show "total_slots = max_rounds opts * candidates_per_round opts" "maximum_work_units opts \<le> MAX_ASTAR_WORK_BUDGET"
    "1 \<le> max_rounds opts" "1 \<le> candidates_per_round opts" "1 \<le> convergence_workers opts" "total_slots \<le> maximum_work_units opts"
    by (auto simp: validate_convergence_options_def checked_mul_usize_def split: if_splits)
  show "blocking_violation_count (check_of svc b) = 0" "validate_engine_version engine = Inr ()"
    using assms by (auto simp: admit_request_def bind_result_Inr Let_def split: if_splits)
qed

text \<open>What the report and the board of a finished run satisfy.\<close>

definition result_ok :: "convergence_services \<Rightarrow> board \<Rightarrow> convergence_options \<Rightarrow> convergence_result \<Rightarrow> bool" where
  "result_ok svc b opts res \<longleftrightarrow>
     (let rep = result_report res;
          out = result_board res;
          q = routing_quality svc
      in rules_of out = rules_of b \<and> blocking_violation_count (check_of svc out) = 0 \<and>
         (if report_selected_id rep = None then out = b else quality_score b (q out) < quality_score b (q b)) \<and>
         report_input_metrics rep = metrics_of (q b) \<and> report_final_metrics rep = metrics_of (q out) \<and>
         (report_converged rep \<longleftrightarrow> unrouted_nets (q out) = 0) \<and> (report_status rep = Status_Converged \<longleftrightarrow> report_converged rep) \<and>
         length (report_rounds rep) \<le> max_rounds opts \<and> (\<forall>r \<in> set (report_rounds rep). round_ok opts r) \<and>
         report_candidates_evaluated rep = length (report_rounds rep) * candidates_per_round opts \<and>
         report_allocated rep \<le> maximum_work_units opts)"

lemma evaluated_count:
  "\<forall>r \<in> set rs. round_ok opts r \<Longrightarrow> sum_list (map (length \<circ> round_candidates) rs) = length rs * candidates_per_round opts"
  by (induction rs) (auto simp: round_ok_def)

lemma conclude_ok:
  assumes "progress_ok svc b opts total_slots n st" "n \<le> max_rounds opts" "total_slots = max_rounds opts * candidates_per_round opts"
  shows "case identity_of svc (seed st) of Inl e \<Rightarrow> conclude svc b opts engine identity (metrics_of (routing_quality svc b)) st = Inl (Message e)
    | Inr _ \<Rightarrow> \<exists>res. conclude svc b opts engine identity (metrics_of (routing_quality svc b)) st = Inr res \<and> result_ok svc b opts res"
proof (cases "identity_of svc (seed st)")
  case (Inl e)
  then show ?thesis using assms by (simp add: conclude_def progress_ok_def map_error_def)
next
  case (Inr final)
  have "n * candidates_per_round opts \<le> total_slots" using assms(2,3) by (simp add: mult_right_mono)
  then have "allocated_units st \<le> maximum_work_units opts"
    using assms(1) allocation_within[of "n * candidates_per_round opts" total_slots] by (simp add: progress_ok_def rounds_allocation)
  moreover have "sum_list (map (length \<circ> round_candidates) (past_rounds st)) = length (past_rounds st) * candidates_per_round opts"
    using assms(1) by (intro evaluated_count) (simp add: progress_ok_def)
  ultimately show ?thesis
    using assms(1,2) Inr
    by (auto simp: conclude_def progress_ok_def map_error_def Let_def result_ok_def metrics_of_def simp del: less_eq_prod_simp less_prod_simp)
qed

lemma convergence_run:
  assumes "admit_request svc b opts engine = Inr total_slots" "identity_of svc b = Inr identity"
  shows "(\<exists>e x. route_board_with_convergence_for_engine svc b opts engine = Some (Inl (Message e)) \<and> identity_of svc x = Inl e) \<or>
    (\<exists>res. route_board_with_convergence_for_engine svc b opts engine = Some (Inr res) \<and> result_ok svc b opts res)"
proof (cases "metric_unrouted_nets (metrics_of (routing_quality svc b)) = 0")
  case True
  then show ?thesis
    using assms admit_request_Inr[OF assms(1)]
    by (auto simp: route_board_with_convergence_for_engine_def already_routed_def result_ok_def metrics_of_def Let_def)
next
  case False
  note admit = admit_request_Inr[OF assms(1)]
  have "progress_ok svc b opts total_slots 0 (start_progress b)" using admit by (simp add: progress_ok_def start_progress_def)
  then obtain st n where st: "run_rounds svc b opts total_slots [0..<max_rounds opts] (start_progress b) = Some st" "n \<le> max_rounds opts"
    "progress_ok svc b opts total_slots n st"
    using run_rounds_ok[of svc b opts total_slots 0 "start_progress b" "max_rounds opts"] admit(1,2)
    by (auto simp: MAX_ASTAR_WORK_BUDGET_def)
  from conclude_ok[OF st(3,2) admit(1), of engine identity] show ?thesis
    using assms False st(1) by (auto simp: route_board_with_convergence_for_engine_def Let_def split: sum.splits)
qed


lemma convergence_Inr:
  assumes "route_board_with_convergence_for_engine svc b opts engine = Some (Inr res)"
  shows "result_ok svc b opts res" "validate_engine_version engine = Inr ()" "\<exists>total_slots. admit_request svc b opts engine = Inr total_slots"
proof -
  obtain total_slots where admit: "admit_request svc b opts engine = Inr total_slots"
    using assms by (auto simp: route_board_with_convergence_for_engine_def split: sum.splits)
  obtain identity where "identity_of svc b = Inr identity"
    using assms by (auto simp: route_board_with_convergence_for_engine_def admit Let_def split: sum.splits)
  from convergence_run[OF admit this] show "result_ok svc b opts res" using assms by auto
  show "validate_engine_version engine = Inr ()" by (rule admit_request_Inr[OF admit])
  show "\<exists>total_slots. admit_request svc b opts engine = Inr total_slots" using admit by blast
qed

text \<open>The report carries the options and the engine version of its run.\<close>

lemma report_names_run:
  assumes "route_board_with_convergence_for_engine svc b opts engine = Some (Inr res)"
  shows "report_options (result_report res) = opts" "report_engine_version (result_report res) = engine"
    "report_schema_version (result_report res) = ROUTING_CONVERGENCE_REPORT_SCHEMA_VERSION" "report_scope (result_report res) = convergence_scope"
proof -
  have "report_options (result_report res) = opts \<and> report_engine_version (result_report res) = engine \<and>
    report_schema_version (result_report res) = ROUTING_CONVERGENCE_REPORT_SCHEMA_VERSION \<and> report_scope (result_report res) = convergence_scope"
    using assms
    by (auto simp: route_board_with_convergence_for_engine_def already_routed_def conclude_def bind_result_Inr Let_def
        split: sum.splits if_splits)
  then show "report_options (result_report res) = opts" "report_engine_version (result_report res) = engine"
    "report_schema_version (result_report res) = ROUTING_CONVERGENCE_REPORT_SCHEMA_VERSION" "report_scope (result_report res) = convergence_scope"
    by simp_all
qed

lemma verify_Inr:
  "verify_routing_convergence_report svc b retained = Some (Inr fresh) \<longleftrightarrow>
    result_report fresh = retained \<and>
    route_board_with_convergence_for_engine svc b (report_options retained) (report_engine_version retained) = Some (Inr fresh)"
proof -
  let ?run = "route_board_with_convergence_for_engine svc b (report_options retained) (report_engine_version retained)"
  have "verify_routing_convergence_report svc b retained = Some (Inr fresh)"
    if "result_report fresh = retained" "?run = Some (Inr fresh)"
    using that(1) report_names_run[OF that(2)] convergence_Inr(2)[OF that(2)] that(2) by (simp add: verify_routing_convergence_report_def)
  moreover have "result_report fresh = retained \<and> ?run = Some (Inr fresh)"
    if "verify_routing_convergence_report svc b retained = Some (Inr fresh)"
    using that by (auto simp: verify_routing_convergence_report_def bind_result_Inr split: if_splits sum.splits)
  ultimately show ?thesis by blast
qed

section \<open>Schedules\<close>

text \<open>A round does not depend on its threads either.\<close>

lemma round_any_schedule:
  assumes "(channel_step (make_round_candidate svc b opts k total_slots) (candidates_per_round opts))\<^sup>*\<^sup>* (channel_start workers) c"
    "\<nexists>c'. channel_step (make_round_candidate svc b opts k total_slots) (candidates_per_round opts) c c'" "0 < workers"
  shows "assemble_round svc b opts k allocated (sent c) = generate_round svc b opts k total_slots allocated"
  by (simp add: generate_round_def assemble_round_def channel_end[OF assms] sort_numbered)

section \<open>A concrete run\<close>

definition demo_convergence :: convergence_services where
  "demo_convergence = \<lparr>length_of = length_of demo_services, coupling_of = coupling_of demo_services, check_of = check_of demo_services,
     router_of = router_of demo_services, identity_of = (\<lambda>x. Inr \<lparr>artifact_bytes = 1, artifact_sha256 = ''00''\<rparr>)\<rparr>"

definition demo_rounds :: convergence_options where
  "demo_rounds = \<lparr>max_rounds = 2, candidates_per_round = 2, convergence_workers = 1, convergence_router_workers = 1,
     maximum_work_units = 100\<rparr>"

lemma demo_identity: "\<forall>x. \<exists>i. identity_of demo_convergence x = Inr i"
  by (simp add: demo_convergence_def)

lemma demo_admitted: "admit_request demo_convergence demo_board demo_rounds ''0.1.0'' = Inr 4"
proof -
  have "validate_engine_version ''0.1.0'' = Inr ()" by code_simp
  moreover have "validate_routing_resource_bounds demo_board = Inr ()"
    by (simp add: validate_routing_resource_bounds_def Let_def validation_defs demo_board_def blank_board_def default_rules_def demo_net_def)
  moreover have "validate_convergence_options demo_rounds = Inr ()"
    by (simp add: validate_convergence_options_def demo_rounds_def checked_mul_usize_def MAX_ASTAR_WORK_BUDGET_def
        MAX_ROUTING_CONVERGENCE_ROUNDS_def MAX_ROUTING_CONVERGENCE_CANDIDATES_PER_ROUND_def)
  ultimately show ?thesis
    by (simp add: admit_request_def map_error_def demo_convergence_def demo_services_def blocking_violation_count_def demo_rounds_def
        checked_mul_usize_def)
qed

lemma run_round_nonempty: "run_round svc b opts total_slots k st = Some st' \<Longrightarrow> past_rounds st' \<noteq> []"
  by (auto simp: run_round_def finish_round_def Let_def split: prod.splits option.splits if_splits)

lemma run_rounds_nonempty:
  "run_rounds svc b opts total_slots ks st = Some st' \<Longrightarrow> past_rounds st \<noteq> [] \<Longrightarrow> past_rounds st' \<noteq> []"
  by (induction ks arbitrary: st) (auto simp: bind_eq_Some_conv dest: run_round_nonempty split: if_splits)

lemma demo_run:
  obtains res where "route_board_with_convergence_for_engine demo_convergence demo_board demo_rounds ''0.1.0'' = Some (Inr res)"
    "report_rounds (result_report res) \<noteq> []"
proof -
  obtain res where res: "route_board_with_convergence_for_engine demo_convergence demo_board demo_rounds ''0.1.0'' = Some (Inr res)"
    using convergence_run[OF demo_admitted, of "\<lparr>artifact_bytes = 1, artifact_sha256 = ''00''\<rparr>"] demo_identity
    by (auto simp: demo_convergence_def)
  have "unrouted_nets (routing_quality demo_convergence demo_board) = 1"
    by (simp add: routing_quality_def quality_of_net_def route_of_def demo_board_def blank_board_def Let_def)
  then have "\<exists>st. run_rounds demo_convergence demo_board demo_rounds 4 [0..<2] (start_progress demo_board) = Some st \<and>
      report_rounds (result_report res) = past_rounds st"
    using res demo_admitted
    by (auto simp: route_board_with_convergence_for_engine_def metrics_of_def conclude_def bind_result_Inr demo_rounds_def Let_def
        split: sum.splits if_splits)
  then have "report_rounds (result_report res) \<noteq> []"
    using run_rounds_nonempty by (auto simp: upt_rec[of 0] bind_eq_Some_conv dest: run_round_nonempty split: if_splits)
  then show ?thesis using that res by blast
qed

section \<open>Properties\<close>

text \<open>C38: A run of the rounds never makes a board worse: the result has the design rules of the input and no
  violation, and is the input itself or strictly better in unrouted nets, then selection cost, length, vias and bends.
  The report is true of it: metrics, convergence, the number of rounds and candidates, and no more work is
  allocated than the caller allowed.\<close>

theorem convergence_improves:
  assumes "route_board_with_convergence_for_engine svc b opts engine = Some (Inr res)"
  defines "rep \<equiv> result_report res" and "out \<equiv> result_board res" and "q \<equiv> routing_quality svc"
  shows "rules_of out = rules_of b \<and> blocking_violation_count (check_of svc out) = 0 \<and>
    (if report_selected_id rep = None then out = b else quality_score b (q out) < quality_score b (q b)) \<and>
    report_input_metrics rep = metrics_of (q b) \<and> report_final_metrics rep = metrics_of (q out) \<and>
    (report_converged rep \<longleftrightarrow> unrouted_nets (q out) = 0) \<and> (report_status rep = Status_Converged \<longleftrightarrow> report_converged rep) \<and>
    length (report_rounds rep) \<le> max_rounds opts \<and>
    report_candidates_evaluated rep = length (report_rounds rep) * candidates_per_round opts \<and>
    report_allocated rep \<le> maximum_work_units opts"
  using convergence_Inr(1)[OF assms(1)] unfolding result_ok_def rep_def out_def q_def Let_def by blast

theorem convergence_improves_witness:
  "\<exists>res. route_board_with_convergence_for_engine demo_convergence demo_board demo_rounds ''0.1.0'' = Some (Inr res) \<and>
    rules_of (result_board res) = default_rules \<and> length (report_rounds (result_report res)) \<le> 2"
proof -
  obtain res where res: "route_board_with_convergence_for_engine demo_convergence demo_board demo_rounds ''0.1.0'' = Some (Inr res)"
    by (rule demo_run)
  show ?thesis using convergence_improves[OF res] res by (auto simp: demo_rounds_def demo_board_def blank_board_def)
qed

text \<open>Every round of a report is judged fairly: it has the asked number of candidates, it selects none exactly
  when none is admissible, and otherwise an admissible one with the least score; it accepts the selected one or none.\<close>

theorem rounds_select_best:
  assumes "route_board_with_convergence_for_engine svc b opts engine = Some (Inr res)" "r \<in> set (report_rounds (result_report res))"
  shows "length (round_candidates r) = candidates_per_round opts \<and>
    (round_selected r = None \<longleftrightarrow> (\<forall>c \<in> set (round_candidates r). conv_status c \<noteq> Admissible)) \<and>
    (round_accepted r \<noteq> None \<longrightarrow> round_accepted r = round_selected r) \<and>
    (\<forall>name. round_selected r = Some name \<longrightarrow>
      (\<exists>c \<in> set (round_candidates r). \<exists>s. conv_id c = name \<and> conv_round_best c \<and> conv_status c = Admissible \<and> candidate_score c = Some s \<and>
        (\<forall>d \<in> set (round_candidates r). conv_status d = Admissible \<longrightarrow> (\<exists>t. candidate_score d = Some t \<and> s \<le> t))))"
proof -
  have "round_ok opts r" using convergence_Inr(1)[OF assms(1)] assms(2) by (simp add: result_ok_def Let_def)
  then show ?thesis by (cases "round_selected r") (auto simp: round_ok_def simp del: split_paired_Ex)
qed

theorem rounds_select_best_witness:
  "\<exists>res. route_board_with_convergence_for_engine demo_convergence demo_board demo_rounds ''0.1.0'' = Some (Inr res) \<and>
    length (round_candidates (hd (report_rounds (result_report res)))) = 2"
proof -
  obtain res where res: "route_board_with_convergence_for_engine demo_convergence demo_board demo_rounds ''0.1.0'' = Some (Inr res)"
    "report_rounds (result_report res) \<noteq> []" by (rule demo_run)
  then show ?thesis using rounds_select_best[OF res(1), of "hd (report_rounds (result_report res))"] by (auto simp: demo_rounds_def)
qed



text \<open>C40: Replay: the verifier accepts a report, and returns a result, exactly when the report is that of the
  result and the result is that of a run on the board.\<close>

theorem replay_accepts_own_reports:
  "verify_routing_convergence_report svc b retained = Some (Inr fresh) \<longleftrightarrow>
    result_report fresh = retained \<and> (\<exists>opts engine. route_board_with_convergence_for_engine svc b opts engine = Some (Inr fresh))"
  using verify_Inr report_names_run(1,2) by metis

end
