(* ===== verification/AiApproval.thy ===== *)
theory AiApproval
  imports Transparency Board "HOL-Library.List_Lexorder" "HOL-Library.Char_ord"
begin

text \<open>
  Signed approvals of schematics by AI reviewers, \<open>approval.rs\<close> and \<open>review_session.rs\<close> of
  \<open>crates/pcbex-kicad/src\<close>: the review request with its digest and artifact bindings, the evaluation
  of a response against the gates, signing and verification, and time-bound sessions. Of a schematic, an
  electrical review and simulation evidence only what is read here has a field of its own; the rest is
  kept as a text. The checkers of these documents, the JSON writer, SHA-256 and Ed25519 are parameters.
\<close>

section \<open>Documents\<close>

record schematic_document =
  symbol_uuids :: "string list"
  schematic_net_ids :: "string list"
  schematic_rest :: bytes

type_synonym electrical_policy = bytes

record electrical_review =
  review_approved :: bool
  review_schematic_sha256 :: string
  finding_ids :: "string list"
  review_rest :: bytes

record simulation_evidence =
  evidence_id :: string
  evidence_schematic_sha256 :: string
  evidence_review_sha256 :: string
  evidence_passed :: bool
  assertion_ids :: "string list"
  evidence_rest :: bytes

record ai_requirement =
  requirement_id :: string
  requirement_text :: string

record exact_artifact =
  artifact_length :: nat
  artifact_digest :: string

record pipeline_identity =
  plan_source :: exact_artifact
  plan_sha256 :: string
  pipeline_report :: exact_artifact
  pipeline_run_sha256 :: string

record native_erc_identity =
  erc_version :: nat
  erc_report :: exact_artifact
  erc_run_sha256 :: string

record artifact_binding =
  binding_version :: nat
  generated_schematic :: exact_artifact
  pipeline_of :: pipeline_identity
  native_kicad_erc :: "native_erc_identity option"

record ai_review_request =
  request_version :: nat
  request_digest :: string
  request_schematic :: schematic_document
  request_policy :: electrical_policy
  request_review :: electrical_review
  request_review_sha256 :: string
  request_evidence :: "simulation_evidence list"
  request_requirements :: "ai_requirement list"
  request_evidence_ids :: "string list"
  require_simulation_evidence :: bool
  request_binding :: "artifact_binding option"

datatype ai_review_decision = Approve | Reject | Needs_Human
datatype ai_requirement_status = Pass | Fail | Unknown
datatype ai_risk_severity = Info | Warning | Error | Critical

record ai_model =
  model_provider :: string
  model_name :: string
  model_version :: "string option"

record ai_assessment =
  assessed_id :: string
  assessed_status :: ai_requirement_status
  assessed_rationale :: string
  assessed_refs :: "string list"

record ai_risk =
  risk_id :: string
  risk_severity :: ai_risk_severity
  risk_title :: string
  risk_rationale :: string
  risk_refs :: "string list"

record ai_review_response =
  response_version :: nat
  response_request :: string
  response_model :: ai_model
  response_decision :: ai_review_decision
  response_summary :: string
  response_assessments :: "ai_assessment list"
  response_risks :: "ai_risk list"

record signed_ai_approval =
  approval_version :: nat
  approval_request :: string
  approval_response :: string
  approval_session :: "string option"
  approval_approved :: bool
  approval_failures :: "string list"
  approval_signer :: string
  approval_algorithm :: string
  approval_public_key :: string
  approval_signature :: string

text \<open>The two signed payloads: the second with the digest of the session.\<close>

record approval_claim =
  claim_domain :: string
  claim_session :: "string option"
  claim_request :: string
  claim_response :: string
  claim_approved :: bool
  claim_failures :: "string list"
  claim_signer :: string

record ai_review_session =
  session_version :: nat
  session_digest :: string
  session_request :: string
  session_challenge :: string
  issued_at_unix :: nat
  expires_at_unix :: nat

text \<open>What the code calls: the libraries of the log, the JSON texts of the documents, \<open>check_schematic\<close>
  and \<open>validate_simulation_evidence\<close>.\<close>

record review_library = library +
  json_request :: "ai_review_request \<Rightarrow> bytes option"
  json_response :: "ai_review_response \<Rightarrow> bytes option"
  json_claim :: "approval_claim \<Rightarrow> bytes option"
  json_session :: "ai_review_session \<Rightarrow> bytes option"
  check_schematic :: "schematic_document \<Rightarrow> electrical_policy \<Rightarrow> fault + electrical_review"
  validate_evidence :: "simulation_evidence \<Rightarrow> fault + unit"

definition MAX_REQUIREMENTS :: nat where "MAX_REQUIREMENTS = 1000"
definition MAX_RISKS :: nat where "MAX_RISKS = 1000"
definition MAX_EVIDENCE_REFS :: nat where "MAX_EVIDENCE_REFS = 10000"
definition CIRCUIT_KICAD_SCHEMATIC_MAX_OUTPUT_BYTES :: nat where "CIRCUIT_KICAD_SCHEMATIC_MAX_OUTPUT_BYTES = 64 * 1024 * 1024"
definition AI_REVIEW_PLAN_SOURCE_MAX_BYTES :: nat where "AI_REVIEW_PLAN_SOURCE_MAX_BYTES = 4 * 1024 * 1024"
definition AI_REVIEW_REPORT_MAX_BYTES :: nat where "AI_REVIEW_REPORT_MAX_BYTES = 128 * 1024 * 1024"
definition AI_REVIEW_NATIVE_KICAD_ERC_REPORT_MAX_BYTES :: nat where "AI_REVIEW_NATIVE_KICAD_ERC_REPORT_MAX_BYTES = 32 * 1024 * 1024"

definition SIGNATURE_DOMAIN :: string where "SIGNATURE_DOMAIN = ''pcbex-ai-schematic-approval-v1''"
definition SESSION_SIGNATURE_DOMAIN :: string where "SESSION_SIGNATURE_DOMAIN = ''pcbex-ai-schematic-approval-session-v2''"

section \<open>Small checks\<close>

definition validate_nonblank :: "string \<Rightarrow> string \<Rightarrow> fault + unit" where
  "validate_nonblank value description =
     (if blank_name value then Inl (Fault (description @ '' must not be blank'')) else Inr ())"

text \<open>This copy of the decoder accepts lowercase digits only, so it never slices inside a character.\<close>

definition hex_decode_lower :: "nat \<Rightarrow> string \<Rightarrow> string \<Rightarrow> fault + bytes" where
  "hex_decode_lower n description value =
     (if length value \<noteq> n * 2 \<or> \<not> list_all lower_hex value
      then Inl (Bad_Entry (n * 2) (description @ '' must be hexadecimal digits''))
      else map_result (decode_byte description value) [0..<n])"

definition failing_if :: "bool \<Rightarrow> string \<Rightarrow> fault + unit" where
  "failing_if b msg = (if b then Inl (Fault msg) else Inr ())"

text \<open>A loop that inserts identifiers into a set and refuses those that are there.\<close>

fun insert_new_texts :: "(string \<Rightarrow> fault) \<Rightarrow> string list \<Rightarrow> string set \<Rightarrow> fault + string set" where
  "insert_new_texts dup [] seen = Inr seen"
| "insert_new_texts dup (x # xs) seen = (if x \<in> seen then Inl (dup x) else insert_new_texts dup xs (insert x seen))"

definition validate_artifact_identity :: "exact_artifact \<Rightarrow> string \<Rightarrow> nat \<Rightarrow> fault + unit" where
  "validate_artifact_identity a description maximum_bytes =
     (if artifact_length a = 0 then Inl (Fault (description @ '' byte count must be positive''))
      else if maximum_bytes < artifact_length a
      then Inl (Fault (description @ '' byte count exceeds the '' @ show_nat maximum_bytes @ ''-byte limit''))
      else validate_sha256 (artifact_digest a) (description @ '' SHA-256''))"

definition validate_native_kicad_erc_identity :: "native_erc_identity \<Rightarrow> fault + unit" where
  "validate_native_kicad_erc_identity erc =
     bind_result (failing_if (erc_version erc \<notin> {1, 2})
       (''unsupported native KiCad ERC identity schema version '' @ show_nat (erc_version erc))) (\<lambda>_.
     bind_result (validate_artifact_identity (erc_report erc) ''native KiCad ERC report'' AI_REVIEW_NATIVE_KICAD_ERC_REPORT_MAX_BYTES) (\<lambda>_.
     validate_sha256 (erc_run_sha256 erc) ''native KiCad ERC run SHA-256''))"

text \<open>A binding of version 2 or 3 has a native identity of version 1 or 2.\<close>

definition validate_bound_erc :: "artifact_binding \<Rightarrow> nat \<Rightarrow> fault + unit" where
  "validate_bound_erc binding erc_v =
     (let name = ''AI review artifact binding schema version '' @ show_nat (binding_version binding) in
      bind_result (ok_or (Fault (name @ '' requires native_kicad_erc'')) (native_kicad_erc binding)) (\<lambda>erc.
      bind_result (validate_native_kicad_erc_identity erc) (\<lambda>_.
      failing_if (erc_version erc \<noteq> erc_v) (name @ '' requires native KiCad ERC identity schema version '' @ show_nat erc_v))))"

definition validate_artifact_binding :: "artifact_binding \<Rightarrow> fault + unit" where
  "validate_artifact_binding binding =
     bind_result (validate_artifact_identity (generated_schematic binding) ''generated schematic artifact''
       CIRCUIT_KICAD_SCHEMATIC_MAX_OUTPUT_BYTES) (\<lambda>_.
     bind_result (validate_artifact_identity (plan_source (pipeline_of binding)) ''pipeline plan source'' AI_REVIEW_PLAN_SOURCE_MAX_BYTES) (\<lambda>_.
     bind_result (validate_sha256 (plan_sha256 (pipeline_of binding)) ''pipeline plan SHA-256'') (\<lambda>_.
     bind_result (validate_artifact_identity (pipeline_report (pipeline_of binding)) ''pipeline report'' AI_REVIEW_REPORT_MAX_BYTES) (\<lambda>_.
     bind_result (validate_sha256 (pipeline_run_sha256 (pipeline_of binding)) ''pipeline run SHA-256'') (\<lambda>_.
     if binding_version binding = 1
     then failing_if (native_kicad_erc binding \<noteq> None) ''AI review artifact binding schema version 1 must not contain native_kicad_erc''
     else if binding_version binding = 2 then validate_bound_erc binding 1
     else if binding_version binding = 3 then validate_bound_erc binding 2
     else Inl (Fault (''unsupported AI review artifact binding schema version '' @ show_nat (binding_version binding))))))))"

definition validate_requirements :: "ai_requirement list \<Rightarrow> fault + unit" where
  "validate_requirements rs =
     bind_result (failing_if (rs = []) ''AI review requires at least one explicit requirement'') (\<lambda>_.
     bind_result (failing_if (MAX_REQUIREMENTS < length rs)
       (''AI review exceeds the '' @ show_nat MAX_REQUIREMENTS @ '' requirement limit'')) (\<lambda>_.
     bind_result (fold_result (\<lambda>r seen.
         bind_result (validate_nonblank (requirement_id r) ''AI requirement id'') (\<lambda>_.
         bind_result (validate_nonblank (requirement_text r) ''AI requirement text'') (\<lambda>_.
         insert_new_texts (\<lambda>x. Fault (''duplicate AI requirement id '' @ x)) [requirement_id r] seen))) rs {}) (\<lambda>_.
     Inr ())))"

definition evidence_bound :: "electrical_review \<Rightarrow> string \<Rightarrow> simulation_evidence \<Rightarrow> bool" where
  "evidence_bound review review_sha256 e \<longleftrightarrow>
     evidence_schematic_sha256 e = review_schematic_sha256 review \<and> evidence_review_sha256 e = review_sha256"

text \<open>A sorted set of identifiers, as \<open>BTreeSet\<close> iterates.\<close>

definition expected_evidence_ids :: "schematic_document \<Rightarrow> electrical_review \<Rightarrow> simulation_evidence list \<Rightarrow> string list" where
  "expected_evidence_ids doc review evidence =
     sorted_list_of_set (set (''electrical-review'' #
       map (\<lambda>u. ''symbol:'' @ u) (symbol_uuids doc) @
       map (\<lambda>n. ''net:'' @ n) (schematic_net_ids doc) @
       map (\<lambda>f. ''electrical-finding:'' @ f) (finding_ids review) @
       concat (map (\<lambda>e. (''simulation:'' @ evidence_id e) #
         map (\<lambda>a. ''simulation-assertion:'' @ evidence_id e @ '':'' @ a) (assertion_ids e)) evidence)))"

definition strictly_sorted :: "string list \<Rightarrow> bool" where
  "strictly_sorted xs = list_all (\<lambda>(x, y). x < y) (windows2 xs)"

section \<open>The request\<close>

definition validate_evidence_list ::
    "review_library \<Rightarrow> (simulation_evidence \<Rightarrow> fault + unit) \<Rightarrow> simulation_evidence list \<Rightarrow> fault + unit" where
  "validate_evidence_list L bound es =
     bind_result (fold_result (\<lambda>e seen.
         bind_result (validate_evidence L e) (\<lambda>_.
         bind_result (bound e) (\<lambda>_.
         insert_new_texts (\<lambda>x. Fault (''duplicate simulation evidence id '' @ x)) [evidence_id e] seen))) es {}) (\<lambda>_.
     Inr ())"

definition validate_request_contents :: "review_library \<Rightarrow> ai_review_request \<Rightarrow> fault + unit" where
  "validate_request_contents L rq =
     bind_result (validate_sha256 (request_review_sha256 rq) ''electrical review SHA-256'') (\<lambda>_.
     bind_result (validate_requirements (request_requirements rq)) (\<lambda>_.
     bind_result (failing_if (\<not> strictly_sorted (map requirement_id (request_requirements rq)))
       ''AI review requirements must be sorted by unique id'') (\<lambda>_.
     bind_result (check_schematic L (request_schematic rq) (request_policy rq)) (\<lambda>recomputed.
     bind_result (failing_if (recomputed \<noteq> request_review rq)
       ''AI review embeds an electrical result that does not match its schematic and policy'') (\<lambda>_.
     bind_result (validate_evidence_list L (\<lambda>e. failing_if (\<not> evidence_bound (request_review rq) (request_review_sha256 rq) e)
         (''simulation evidence '' @ evidence_id e @ '' is not bound to this review'')) (request_evidence rq)) (\<lambda>_.
     bind_result (failing_if (\<not> strictly_sorted (map evidence_id (request_evidence rq)))
       ''simulation evidence must be sorted by unique id'') (\<lambda>_.
     failing_if (request_evidence_ids rq \<noteq> expected_evidence_ids (request_schematic rq) (request_review rq) (request_evidence rq))
       ''AI review evidence identifiers do not match embedded evidence'')))))))"

definition request_body_sha256 :: "review_library \<Rightarrow> ai_review_request \<Rightarrow> fault + string" where
  "request_body_sha256 L rq =
     map_sum id (digest_hex L) (ok_or (Fault ''serializing AI review request'') (json_request L (rq\<lparr>request_digest := []\<rparr>)))"

definition validate_request_version :: "ai_review_request \<Rightarrow> fault + unit" where
  "validate_request_version rq =
     (let v = request_version rq;
          name = ''AI review request schema version '' @ show_nat v
      in if v = 1
         then failing_if (request_binding rq \<noteq> None) (name @ '' must not contain an artifact binding'')
         else if v \<in> {2, 3, 4}
         then bind_result (ok_or (Fault (name @ '' requires an artifact binding'')) (request_binding rq)) (\<lambda>binding.
              bind_result (failing_if (binding_version binding \<noteq> v - 1)
                (name @ '' requires artifact binding schema version '' @ show_nat (v - 1))) (\<lambda>_.
              validate_artifact_binding binding))
         else Inl (Fault (''unsupported AI review request schema version '' @ show_nat v)))"

definition ai_review_request_sha256 :: "review_library \<Rightarrow> ai_review_request \<Rightarrow> fault + string" where
  "ai_review_request_sha256 L rq =
     bind_result (validate_request_version rq) (\<lambda>_.
     bind_result (validate_request_contents L rq) (\<lambda>_.
     bind_result (request_body_sha256 L rq) (\<lambda>expected.
     bind_result (failing_if (request_digest rq \<noteq> expected) ''AI review request SHA-256 does not match its normalized content'') (\<lambda>_.
     Inr expected))))"

definition with_digest :: "review_library \<Rightarrow> ai_review_request \<Rightarrow> fault + ai_review_request" where
  "with_digest L rq = map_sum id (\<lambda>d. rq\<lparr>request_digest := d\<rparr>) (request_body_sha256 L rq)"

definition build_ai_review_request ::
    "review_library \<Rightarrow> schematic_document \<Rightarrow> electrical_policy \<Rightarrow> electrical_review \<Rightarrow> string \<Rightarrow> simulation_evidence list \<Rightarrow>
     ai_requirement list \<Rightarrow> bool \<Rightarrow> fault + ai_review_request" where
  "build_ai_review_request L doc policy review review_sha256 evidence requirements require_simulation =
     bind_result (validate_sha256 review_sha256 ''electrical review SHA-256'') (\<lambda>_.
     bind_result (check_schematic L doc policy) (\<lambda>recomputed.
     bind_result (failing_if (recomputed \<noteq> review)
       ''electrical review does not match a fresh review of the supplied schematic and policy'') (\<lambda>_.
     bind_result (validate_requirements requirements) (\<lambda>_.
     let requirements = sort_key requirement_id requirements in
     bind_result (failing_if (MAX_REQUIREMENTS < length evidence)
       (''AI review exceeds the '' @ show_nat MAX_REQUIREMENTS @ '' simulation-evidence limit'')) (\<lambda>_.
     bind_result (validate_evidence_list L (\<lambda>e.
         bind_result (failing_if (evidence_schematic_sha256 e \<noteq> review_schematic_sha256 review)
           (''simulation evidence '' @ evidence_id e @ '' is bound to a different schematic'')) (\<lambda>_.
         failing_if (evidence_review_sha256 e \<noteq> review_sha256)
           (''simulation evidence '' @ evidence_id e @ '' is bound to a different electrical review''))) evidence) (\<lambda>_.
     let evidence = sort_key evidence_id evidence in
     with_digest L \<lparr>request_version = 1, request_digest = [], request_schematic = doc, request_policy = policy,
       request_review = review, request_review_sha256 = review_sha256, request_evidence = evidence,
       request_requirements = requirements, request_evidence_ids = expected_evidence_ids doc review evidence,
       require_simulation_evidence = require_simulation, request_binding = None\<rparr>))))))"


text \<open>A binding is added to a valid request of the first version, a native identity to one of the second.\<close>

definition bind_ai_review_request :: "review_library \<Rightarrow> ai_review_request \<Rightarrow> artifact_binding \<Rightarrow> fault + ai_review_request" where
  "bind_ai_review_request L rq binding =
     bind_result (failing_if (request_version rq \<noteq> 1 \<or> request_binding rq \<noteq> None)
       ''only an unbound AI review request schema version 1 can be bound'') (\<lambda>_.
     bind_result (ai_review_request_sha256 L rq) (\<lambda>_.
     bind_result (failing_if (binding_version binding \<noteq> 1 \<or> native_kicad_erc binding \<noteq> None)
       ''legacy AI review binding requires artifact binding schema version 1 without native evidence'') (\<lambda>_.
     bind_result (validate_artifact_binding binding) (\<lambda>_.
     with_digest L (rq\<lparr>request_version := 2, request_binding := Some binding\<rparr>)))))"

text \<open>The two binders of native evidence differ in the version of the identity, and so in those of the results.\<close>

definition bind_native_identity ::
    "nat \<Rightarrow> string \<Rightarrow> string \<Rightarrow> review_library \<Rightarrow> ai_review_request \<Rightarrow> native_erc_identity \<Rightarrow> fault + ai_review_request" where
  "bind_native_identity erc_v what evidence L rq erc =
     bind_result (failing_if (request_version rq \<noteq> 2)
       (''only an AI review request schema version 2 can be bound to '' @ evidence)) (\<lambda>_.
     bind_result (ok_or (Fault ''schema version 2 requires an artifact binding'') (request_binding rq)) (\<lambda>binding.
     bind_result (failing_if (binding_version binding \<noteq> 1 \<or> native_kicad_erc binding \<noteq> None)
       (what @ '' binding requires an artifact binding schema version 1 without native evidence'')) (\<lambda>_.
     bind_result (ai_review_request_sha256 L rq) (\<lambda>_.
     bind_result (validate_native_kicad_erc_identity erc) (\<lambda>_.
     bind_result (failing_if (erc_version erc \<noteq> erc_v)
       (what @ '' request schema version '' @ show_nat (erc_v + 2) @ '' requires native identity schema version '' @ show_nat erc_v)) (\<lambda>_.
     with_digest L (rq\<lparr>request_version := erc_v + 2,
       request_binding := Some (binding\<lparr>binding_version := erc_v + 1, native_kicad_erc := Some erc\<rparr>)\<rparr>)))))))"

definition bind_native_kicad_erc_to_ai_review_request :: "review_library \<Rightarrow> ai_review_request \<Rightarrow> native_erc_identity \<Rightarrow> fault + ai_review_request" where
  "bind_native_kicad_erc_to_ai_review_request = bind_native_identity 1 ''native KiCad ERC'' ''native KiCad ERC''"

definition bind_native_kicad_erc_warning_policy_to_ai_review_request ::
    "review_library \<Rightarrow> ai_review_request \<Rightarrow> native_erc_identity \<Rightarrow> fault + ai_review_request" where
  "bind_native_kicad_erc_warning_policy_to_ai_review_request = bind_native_identity 2 ''native KiCad ERC warning-policy'' ''native KiCad ERC warning-policy evidence''"

definition verify_ai_review_schematic_binding :: "review_library \<Rightarrow> ai_review_request \<Rightarrow> schematic_document \<Rightarrow> fault + unit" where
  "verify_ai_review_schematic_binding L rq live =
     bind_result (failing_if (request_version rq \<noteq> 1 \<or> request_binding rq \<noteq> None)
       ''--schematic live binding requires an AI review request schema version 1 without artifact binding'') (\<lambda>_.
     bind_result (ai_review_request_sha256 L rq) (\<lambda>_.
     bind_result (failing_if (request_schematic rq \<noteq> live)
       ''live schematic semantic document does not match the AI review request'') (\<lambda>_.
     bind_result (check_schematic L live (request_policy rq)) (\<lambda>recomputed.
     failing_if (recomputed \<noteq> request_review rq)
       ''live schematic electrical review does not match the AI review request''))))"

section \<open>Evaluation of a response\<close>

definition validate_evidence_refs :: "string list \<Rightarrow> string set \<Rightarrow> fault + unit" where
  "validate_evidence_refs refs valid =
     bind_result (failing_if (refs = []) ''AI assessments and risks must cite at least one evidence identifier'') (\<lambda>_.
     bind_result (failing_if (MAX_EVIDENCE_REFS < length refs)
       (''AI review exceeds the '' @ show_nat MAX_EVIDENCE_REFS @ '' evidence-reference limit'')) (\<lambda>_.
     bind_result (fold_result (\<lambda>r seen.
         bind_result (failing_if (r \<notin> valid) (''AI response references unknown evidence '' @ r)) (\<lambda>_.
         insert_new_texts (\<lambda>x. Fault (''AI response repeats evidence reference '' @ x)) [r] seen)) refs {}) (\<lambda>_.
     Inr ())))"

definition check_assessment :: "string set \<Rightarrow> string set \<Rightarrow> ai_assessment \<Rightarrow> string set \<Rightarrow> fault + string set" where
  "check_assessment required valid a assessed =
     bind_result (failing_if (assessed_id a \<notin> required) (''AI response assesses unknown requirement '' @ assessed_id a)) (\<lambda>_.
     bind_result (insert_new_texts (\<lambda>x. Fault (''AI response repeats requirement assessment '' @ x)) [assessed_id a] assessed) (\<lambda>assessed.
     bind_result (validate_nonblank (assessed_rationale a) ''AI requirement rationale'') (\<lambda>_.
     bind_result (validate_evidence_refs (assessed_refs a) valid) (\<lambda>_.
     Inr assessed))))"

definition check_risk :: "string set \<Rightarrow> ai_risk \<Rightarrow> string set \<Rightarrow> fault + string set" where
  "check_risk valid r seen =
     bind_result (validate_nonblank (risk_id r) ''AI risk id'') (\<lambda>_.
     bind_result (validate_nonblank (risk_title r) ''AI risk title'') (\<lambda>_.
     bind_result (validate_nonblank (risk_rationale r) ''AI risk rationale'') (\<lambda>_.
     bind_result (insert_new_texts (\<lambda>x. Fault (''AI response repeats risk '' @ x)) [risk_id r] seen) (\<lambda>seen.
     bind_result (validate_evidence_refs (risk_refs r) valid) (\<lambda>_.
     Inr seen)))))"

fun severity_rank :: "ai_risk_severity \<Rightarrow> nat" where
  "severity_rank Info = 0"
| "severity_rank Warning = 1"
| "severity_rank Error = 2"
| "severity_rank Critical = 3"

fun risk_severity_name :: "ai_risk_severity \<Rightarrow> string" where
  "risk_severity_name Info = ''info''"
| "risk_severity_name Warning = ''warning''"
| "risk_severity_name Error = ''error''"
| "risk_severity_name Critical = ''critical''"

text \<open>The gates, in the order in which they report.\<close>

definition gate_failures_of :: "ai_review_request \<Rightarrow> ai_review_response \<Rightarrow> string list" where
  "gate_failures_of rq rs =
     (if review_approved (request_review rq) then [] else [''electrical_review_rejected'']) @
     (if require_simulation_evidence rq \<and> request_evidence rq = [] then [''simulation_evidence_required''] else []) @
     map (\<lambda>e. ''simulation_evidence_failed:'' @ evidence_id e) (filter (\<lambda>e. \<not> evidence_passed e) (request_evidence rq)) @
     (case response_decision rs of Approve \<Rightarrow> [] | Reject \<Rightarrow> [''ai_decision_reject''] | Needs_Human \<Rightarrow> [''ai_decision_needs_human'']) @
     concat (map (\<lambda>a. case assessed_status a of Pass \<Rightarrow> []
       | Fail \<Rightarrow> [''requirement_failed:'' @ assessed_id a]
       | Unknown \<Rightarrow> [''requirement_unknown:'' @ assessed_id a]) (response_assessments rs)) @
     concat (map (\<lambda>r. if severity_rank Error \<le> severity_rank (risk_severity r)
       then [''risk_'' @ risk_severity_name (risk_severity r) @ '':'' @ risk_id r] else []) (response_risks rs))"

definition evaluate_ai_review :: "ai_review_request \<Rightarrow> ai_review_response \<Rightarrow> string \<Rightarrow> fault + string list" where
  "evaluate_ai_review rq rs request_d =
     bind_result (failing_if (response_version rs \<noteq> 1)
       (''unsupported AI review response schema version '' @ show_nat (response_version rs))) (\<lambda>_.
     bind_result (failing_if (response_request rs \<noteq> request_d) ''AI review response is bound to a different request'') (\<lambda>_.
     bind_result (validate_nonblank (model_provider (response_model rs)) ''AI provider'') (\<lambda>_.
     bind_result (validate_nonblank (model_name (response_model rs)) ''AI model'') (\<lambda>_.
     bind_result (failing_if (case model_version (response_model rs) of None \<Rightarrow> False | Some v \<Rightarrow> blank_name v)
       ''AI model version must not be blank when present'') (\<lambda>_.
     bind_result (validate_nonblank (response_summary rs) ''AI review summary'') (\<lambda>_.
     bind_result (failing_if (MAX_RISKS < length (response_risks rs))
       (''AI review exceeds the '' @ show_nat MAX_RISKS @ '' risk limit'')) (\<lambda>_.
     let valid = set (request_evidence_ids rq);
         required = set (map requirement_id (request_requirements rq)) in
     bind_result (fold_result (check_assessment required valid) (response_assessments rs) {}) (\<lambda>assessed.
     bind_result (failing_if (assessed \<noteq> required) ''AI response must assess every requested requirement exactly once'') (\<lambda>_.
     bind_result (fold_result (check_risk valid) (response_risks rs) {}) (\<lambda>_.
     Inr (gate_failures_of rq rs)))))))))))"

section \<open>Signing\<close>

definition validated_ai_review_signing_inputs ::
    "review_library \<Rightarrow> ai_review_request \<Rightarrow> ai_review_response \<Rightarrow> string \<Rightarrow> fault + string \<times> string list" where
  "validated_ai_review_signing_inputs L rq rs signer =
     bind_result (validate_nonblank signer ''approval signer id'') (\<lambda>_.
     bind_result (ai_review_request_sha256 L rq) (\<lambda>d.
     bind_result (evaluate_ai_review rq rs d) (\<lambda>failures.
     Inr (d, failures))))"

definition validate_ai_review_signing_inputs ::
    "review_library \<Rightarrow> ai_review_request \<Rightarrow> ai_review_response \<Rightarrow> string \<Rightarrow> fault + string list" where
  "validate_ai_review_signing_inputs L rq rs signer = map_sum id snd (validated_ai_review_signing_inputs L rq rs signer)"

definition ai_response_sha256 :: "review_library \<Rightarrow> ai_review_response \<Rightarrow> fault + string" where
  "ai_response_sha256 L rs = map_sum id (digest_hex L) (ok_or (Fault ''serializing AI review response'') (json_response L rs))"

definition approval_payload_bytes ::
    "review_library \<Rightarrow> string option \<Rightarrow> string \<Rightarrow> string \<Rightarrow> bool \<Rightarrow> string list \<Rightarrow> string \<Rightarrow> fault + bytes" where
  "approval_payload_bytes L session request_d response_d approved failures signer =
     ok_or (Fault (if session = None then ''serializing approval signature payload'' else ''serializing session approval signature payload''))
       (json_claim L \<lparr>claim_domain = (if session = None then SIGNATURE_DOMAIN else SESSION_SIGNATURE_DOMAIN), claim_session = session,
         claim_request = request_d, claim_response = response_d, claim_approved = approved, claim_failures = failures,
         claim_signer = signer\<rparr>)"

text \<open>The shared part of \<open>sign_ai_review\<close> and \<open>sign_ai_review_for_session\<close>.\<close>

definition sign_response ::
    "review_library \<Rightarrow> nat \<Rightarrow> string option \<Rightarrow> ai_review_request \<Rightarrow> ai_review_response \<Rightarrow> string \<Rightarrow> bytes \<Rightarrow> fault + signed_ai_approval" where
  "sign_response L version session rq rs signer secret =
     bind_result (validated_ai_review_signing_inputs L rq rs signer) (\<lambda>(request_d, failures).
     bind_result (ai_response_sha256 L rs) (\<lambda>response_d.
     let approved = (failures = []) in
     bind_result (approval_payload_bytes L session request_d response_d approved failures signer) (\<lambda>payload.
     Inr \<lparr>approval_version = version, approval_request = request_d, approval_response = response_d, approval_session = session,
       approval_approved = approved, approval_failures = failures, approval_signer = signer, approval_algorithm = ED25519,
       approval_public_key = hex_encode (verifying_key_of L secret),
       approval_signature = hex_encode (sign_with L secret payload)\<rparr>)))"

definition sign_ai_review ::
    "review_library \<Rightarrow> ai_review_request \<Rightarrow> ai_review_response \<Rightarrow> string \<Rightarrow> bytes \<Rightarrow> fault + signed_ai_approval" where
  "sign_ai_review L = sign_response L 1 None"

definition sign_ai_review_for_session ::
    "review_library \<Rightarrow> ai_review_request \<Rightarrow> ai_review_response \<Rightarrow> string \<Rightarrow> string \<Rightarrow> bytes \<Rightarrow> fault + signed_ai_approval" where
  "sign_ai_review_for_session L rq rs session signer secret =
     bind_result (validate_sha256 session ''AI review session SHA-256'') (\<lambda>_.
     sign_response L 2 (Some session) rq rs signer secret)"

definition approval_public_key_text :: "review_library \<Rightarrow> bytes \<Rightarrow> string" where
  "approval_public_key_text L secret = hex_encode (verifying_key_of L secret)"

section \<open>Verification\<close>

definition verify_signed_ai_approval_inner ::
    "review_library \<Rightarrow> signed_ai_approval \<Rightarrow> ai_review_request \<Rightarrow> ai_review_response \<Rightarrow> bytes \<Rightarrow> string option \<Rightarrow> fault + unit" where
  "verify_signed_ai_approval_inner L ap rq rs trusted_key session =
     bind_result (failing_if (approval_algorithm ap \<noteq> ED25519)
       (''unsupported approval signature algorithm '' @ approval_algorithm ap)) (\<lambda>_.
     bind_result (validate_nonblank (approval_signer ap) ''approval signer id'') (\<lambda>_.
     bind_result (ai_review_request_sha256 L rq) (\<lambda>request_d.
     bind_result (ai_response_sha256 L rs) (\<lambda>response_d.
     bind_result (failing_if (approval_request ap \<noteq> request_d \<or> approval_response ap \<noteq> response_d)
       ''signed approval content digests do not match the supplied documents'') (\<lambda>_.
     bind_result (evaluate_ai_review rq rs request_d) (\<lambda>expected.
     bind_result (failing_if (approval_failures ap \<noteq> expected \<or> approval_approved ap \<noteq> (expected = []))
       ''signed approval gate result does not match fresh evaluation'') (\<lambda>_.
     bind_result (hex_decode_lower 32 ''approval public key'' (approval_public_key ap)) (\<lambda>key.
     bind_result (failing_if (key \<noteq> trusted_key) ''approval public key does not match the trusted public key'') (\<lambda>_.
     bind_result (hex_decode_lower 64 ''approval signature'' (approval_signature ap)) (\<lambda>signature.
     bind_result (failing_if (\<not> key_accepted L key) ''invalid approval public key'') (\<lambda>_.
     bind_result (approval_payload_bytes L session request_d response_d (approval_approved ap) (approval_failures ap) (approval_signer ap)) (\<lambda>payload.
     failing_if (\<not> verify_strict L key payload signature) ''invalid AI approval signature''))))))))))))"

definition verify_signed_ai_approval ::
    "review_library \<Rightarrow> signed_ai_approval \<Rightarrow> ai_review_request \<Rightarrow> ai_review_response \<Rightarrow> bytes \<Rightarrow> fault + unit" where
  "verify_signed_ai_approval L ap rq rs trusted_key =
     (if approval_version ap = 1 \<and> approval_session ap = None
      then verify_signed_ai_approval_inner L ap rq rs trusted_key None
      else if approval_version ap = 2 \<and> approval_session ap \<noteq> None
      then Inl (Fault ''signed AI approval schema version 2 requires its bound review session'')
      else Inl (Fault (''unsupported signed AI approval schema version '' @ show_nat (approval_version ap))))"

definition verify_session_signed_ai_approval ::
    "review_library \<Rightarrow> signed_ai_approval \<Rightarrow> ai_review_request \<Rightarrow> ai_review_response \<Rightarrow> bytes \<Rightarrow> string \<Rightarrow> fault + unit" where
  "verify_session_signed_ai_approval L ap rq rs trusted_key session =
     bind_result (validate_sha256 session ''AI review session SHA-256'') (\<lambda>_.
     bind_result (failing_if (approval_version ap \<noteq> 2 \<or> approval_session ap \<noteq> Some session)
       ''signed AI approval is not bound to the supplied review session'') (\<lambda>_.
     verify_signed_ai_approval_inner L ap rq rs trusted_key (Some session)))"

section \<open>Sessions\<close>

definition MAX_AI_REVIEW_SESSION_SECONDS :: nat where "MAX_AI_REVIEW_SESSION_SECONDS = 7 * 24 * 60 * 60"

definition validate_session_contents :: "ai_review_session \<Rightarrow> fault + unit" where
  "validate_session_contents se =
     bind_result (validate_sha256 (session_request se) ''AI review session request SHA-256'') (\<lambda>_.
     bind_result (validate_sha256 (session_challenge se) ''AI review session challenge'') (\<lambda>_.
     bind_result (failing_if (expires_at_unix se \<le> issued_at_unix se) ''AI review session expiration must be after issuance'') (\<lambda>_.
     failing_if (MAX_AI_REVIEW_SESSION_SECONDS < expires_at_unix se - issued_at_unix se)
       (''AI review session lifetime cannot exceed '' @ show_nat MAX_AI_REVIEW_SESSION_SECONDS @ '' seconds''))))"

definition session_body_sha256 :: "review_library \<Rightarrow> ai_review_session \<Rightarrow> fault + string" where
  "session_body_sha256 L se =
     map_sum id (digest_hex L) (ok_or (Fault ''serializing AI review session'') (json_session L (se\<lparr>session_digest := []\<rparr>)))"

definition build_ai_review_session ::
    "review_library \<Rightarrow> ai_review_request \<Rightarrow> string \<Rightarrow> nat \<Rightarrow> nat \<Rightarrow> fault + ai_review_session" where
  "build_ai_review_session L rq challenge issued expires =
     bind_result (ai_review_request_sha256 L rq) (\<lambda>d.
     let se = \<lparr>session_version = 1, session_digest = [], session_request = d, session_challenge = challenge,
       issued_at_unix = issued, expires_at_unix = expires\<rparr> in
     bind_result (validate_session_contents se) (\<lambda>_.
     map_sum id (\<lambda>digest. se\<lparr>session_digest := digest\<rparr>) (session_body_sha256 L se)))"

definition ai_review_session_sha256 :: "review_library \<Rightarrow> ai_review_session \<Rightarrow> ai_review_request \<Rightarrow> fault + string" where
  "ai_review_session_sha256 L se rq =
     bind_result (failing_if (session_version se \<noteq> 1)
       (''unsupported AI review session schema version '' @ show_nat (session_version se))) (\<lambda>_.
     bind_result (validate_session_contents se) (\<lambda>_.
     bind_result (ai_review_request_sha256 L rq) (\<lambda>request_d.
     bind_result (failing_if (session_request se \<noteq> request_d) ''AI review session is bound to a different request'') (\<lambda>_.
     bind_result (session_body_sha256 L se) (\<lambda>expected.
     bind_result (failing_if (session_digest se \<noteq> expected) ''AI review session SHA-256 does not match its normalized content'') (\<lambda>_.
     Inr expected))))))"

definition validate_ai_review_session :: "review_library \<Rightarrow> ai_review_session \<Rightarrow> ai_review_request \<Rightarrow> nat \<Rightarrow> fault + string" where
  "validate_ai_review_session L se rq now =
     bind_result (ai_review_session_sha256 L se rq) (\<lambda>digest.
     bind_result (failing_if (now < issued_at_unix se) ''AI review session is not active yet'') (\<lambda>_.
     bind_result (failing_if (expires_at_unix se < now) ''AI review session has expired'') (\<lambda>_.
     Inr digest)))"


section \<open>Loops that collect identifiers\<close>

lemma failing_if_Inr [simp]: "failing_if b msg = Inr u \<longleftrightarrow> \<not> b"
  by (simp add: failing_if_def)

lemma insert_one: "insert_new_texts dup [x] seen = Inr seen' \<longleftrightarrow> x \<notin> seen \<and> seen' = insert x seen"
  by auto

lemma validate_nonblank_Inr [simp]: "validate_nonblank v d = Inr u \<longleftrightarrow> \<not> blank_name v"
  by (simp add: validate_nonblank_def)

lemma map_sum_Inr: "map_sum id f x = Inr y \<longleftrightarrow> (\<exists>z. x = Inr z \<and> y = f z)"
  by (cases x) auto

text \<open>Such a loop succeeds exactly when every item is fine and the identifiers are new and pairwise different.\<close>

lemma collecting_loop:
  assumes "\<And>x seen seen'. step x seen = Inr seen' \<longleftrightarrow> ok x \<and> f x \<notin> seen \<and> seen' = insert (f x) seen"
  shows "fold_result step xs A = Inr B \<longleftrightarrow>
    list_all ok xs \<and> distinct (map f xs) \<and> A \<inter> f ` set xs = {} \<and> B = A \<union> f ` set xs"
proof (induction xs arbitrary: A)
  case (Cons x xs)
  show ?case by (auto simp: bind_result_Inr assms Cons.IH)
qed auto

definition requirement_ok :: "ai_requirement \<Rightarrow> bool" where
  "requirement_ok r \<longleftrightarrow> \<not> blank_name (requirement_id r) \<and> \<not> blank_name (requirement_text r)"

lemma validate_requirements_Inr:
  "validate_requirements rs = Inr u \<longleftrightarrow>
    rs \<noteq> [] \<and> length rs \<le> MAX_REQUIREMENTS \<and> list_all requirement_ok rs \<and> distinct (map requirement_id rs)"
proof -
  let ?step = "\<lambda>r seen. bind_result (validate_nonblank (requirement_id r) ''AI requirement id'') (\<lambda>_.
         bind_result (validate_nonblank (requirement_text r) ''AI requirement text'') (\<lambda>_.
         insert_new_texts (\<lambda>x. Fault (''duplicate AI requirement id '' @ x)) [requirement_id r] seen))"
  have "?step r seen = Inr seen' \<longleftrightarrow> requirement_ok r \<and> requirement_id r \<notin> seen \<and> seen' = insert (requirement_id r) seen" for r seen seen'
    by (auto simp: bind_result_Inr requirement_ok_def simp del: insert_new_texts.simps simp add: insert_one)
  from collecting_loop[of ?step requirement_ok requirement_id, OF this]
  show ?thesis by (auto simp: validate_requirements_def bind_result_Inr)
qed

lemma validate_evidence_list_Inr:
  "validate_evidence_list L bound es = Inr u \<longleftrightarrow>
    list_all (\<lambda>e. validate_evidence L e = Inr () \<and> bound e = Inr ()) es \<and> distinct (map evidence_id es)"
proof -
  let ?step = "\<lambda>e seen. bind_result (validate_evidence L e) (\<lambda>_. bind_result (bound e) (\<lambda>_.
         insert_new_texts (\<lambda>x. Fault (''duplicate simulation evidence id '' @ x)) [evidence_id e] seen))"
  let ?ok = "\<lambda>e. validate_evidence L e = Inr () \<and> bound e = Inr ()"
  have "?step e seen = Inr seen' \<longleftrightarrow> ?ok e \<and> evidence_id e \<notin> seen \<and> seen' = insert (evidence_id e) seen" for e seen seen'
    by (auto simp: bind_result_Inr simp del: insert_new_texts.simps simp add: insert_one)
  from collecting_loop[of ?step ?ok evidence_id, OF this]
  show ?thesis by (auto simp: validate_evidence_list_def bind_result_Inr)
qed

definition refs_ok :: "string set \<Rightarrow> string list \<Rightarrow> bool" where
  "refs_ok valid refs \<longleftrightarrow> refs \<noteq> [] \<and> length refs \<le> MAX_EVIDENCE_REFS \<and> set refs \<subseteq> valid \<and> distinct refs"

lemma validate_evidence_refs_Inr: "validate_evidence_refs refs valid = Inr u \<longleftrightarrow> refs_ok valid refs"
proof -
  let ?step = "\<lambda>r seen. bind_result (failing_if (r \<notin> valid) (''AI response references unknown evidence '' @ r)) (\<lambda>_.
         insert_new_texts (\<lambda>x. Fault (''AI response repeats evidence reference '' @ x)) [r] seen)"
  have "?step r seen = Inr seen' \<longleftrightarrow> r \<in> valid \<and> id r \<notin> seen \<and> seen' = insert (id r) seen" for r seen seen'
    by (auto simp: bind_result_Inr simp del: insert_new_texts.simps simp add: insert_one)
  from collecting_loop[of ?step "\<lambda>r. r \<in> valid" id, OF this]
  show ?thesis by (auto simp: validate_evidence_refs_def bind_result_Inr refs_ok_def list_all_iff)
qed

definition assessment_ok :: "string set \<Rightarrow> string set \<Rightarrow> ai_assessment \<Rightarrow> bool" where
  "assessment_ok required valid a \<longleftrightarrow> assessed_id a \<in> required \<and> \<not> blank_name (assessed_rationale a) \<and> refs_ok valid (assessed_refs a)"

definition risk_ok :: "string set \<Rightarrow> ai_risk \<Rightarrow> bool" where
  "risk_ok valid r \<longleftrightarrow> \<not> blank_name (risk_id r) \<and> \<not> blank_name (risk_title r) \<and> \<not> blank_name (risk_rationale r) \<and> refs_ok valid (risk_refs r)"

lemma check_assessments_Inr:
  "fold_result (check_assessment required valid) as {} = Inr B \<longleftrightarrow>
    list_all (assessment_ok required valid) as \<and> distinct (map assessed_id as) \<and> B = assessed_id ` set as"
proof -
  have "check_assessment required valid a seen = Inr seen' \<longleftrightarrow>
      assessment_ok required valid a \<and> assessed_id a \<notin> seen \<and> seen' = insert (assessed_id a) seen" for a seen seen'
    by (auto simp: check_assessment_def bind_result_Inr assessment_ok_def validate_evidence_refs_Inr simp del: insert_new_texts.simps simp add: insert_one)
  from collecting_loop[of "check_assessment required valid", OF this] show ?thesis by simp
qed

lemma check_risks_Inr:
  "fold_result (check_risk valid) rs {} = Inr B \<longleftrightarrow>
    list_all (risk_ok valid) rs \<and> distinct (map risk_id rs) \<and> B = risk_id ` set rs"
proof -
  have "check_risk valid r seen = Inr seen' \<longleftrightarrow> risk_ok valid r \<and> risk_id r \<notin> seen \<and> seen' = insert (risk_id r) seen" for r seen seen'
    by (auto simp: check_risk_def bind_result_Inr risk_ok_def validate_evidence_refs_Inr simp del: insert_new_texts.simps simp add: insert_one)
  from collecting_loop[of "check_risk valid", OF this] show ?thesis by simp
qed

section \<open>What an evaluation says\<close>

text \<open>A response that answers the request: every requirement assessed once, every claim with distinct
  evidence of the request.\<close>

definition answers :: "ai_review_request \<Rightarrow> ai_review_response \<Rightarrow> string \<Rightarrow> bool" where
  "answers rq rs d \<longleftrightarrow>
     (let valid = set (request_evidence_ids rq);
          required = set (map requirement_id (request_requirements rq))
      in response_version rs = 1 \<and> response_request rs = d \<and>
         \<not> blank_name (model_provider (response_model rs)) \<and> \<not> blank_name (model_name (response_model rs)) \<and>
         pred_option (\<lambda>v. \<not> blank_name v) (model_version (response_model rs)) \<and> \<not> blank_name (response_summary rs) \<and>
         list_all (assessment_ok required valid) (response_assessments rs) \<and> distinct (map assessed_id (response_assessments rs)) \<and>
         set (map assessed_id (response_assessments rs)) = required \<and>
         length (response_risks rs) \<le> MAX_RISKS \<and>
         list_all (risk_ok valid) (response_risks rs) \<and> distinct (map risk_id (response_risks rs)))"

lemma evaluate_ai_review_Inr: "evaluate_ai_review rq rs d = Inr fs \<longleftrightarrow> answers rq rs d \<and> fs = gate_failures_of rq rs"
  unfolding evaluate_ai_review_def answers_def Let_def bind_result_Inr check_assessments_Inr check_risks_Inr
  by (auto split: option.splits)

definition gates_open :: "ai_review_request \<Rightarrow> ai_review_response \<Rightarrow> bool" where
  "gates_open rq rs \<longleftrightarrow> review_approved (request_review rq) \<and>
     (\<not> require_simulation_evidence rq \<or> request_evidence rq \<noteq> []) \<and> list_all evidence_passed (request_evidence rq) \<and>
     response_decision rs = Approve \<and> list_all (\<lambda>a. assessed_status a = Pass) (response_assessments rs) \<and>
     list_all (\<lambda>r. risk_severity r \<in> {Info, Warning}) (response_risks rs)"

lemma gate_failures_none: "gate_failures_of rq rs = [] \<longleftrightarrow> gates_open rq rs"
proof -
  have risk: "severity_rank Error \<le> severity_rank v \<longleftrightarrow> v \<notin> {Info, Warning}" for v by (cases v) simp_all
  have risks: "concat (map (\<lambda>r. if severity_rank Error \<le> severity_rank (risk_severity r)
       then [''risk_'' @ risk_severity_name (risk_severity r) @ '':'' @ risk_id r] else []) xs) = [] \<longleftrightarrow>
      list_all (\<lambda>r. risk_severity r \<in> {Info, Warning}) xs" for xs
    unfolding risk by (induction xs) simp_all
  have assessed: "concat (map (\<lambda>a. case assessed_status a of Pass \<Rightarrow> []
       | Fail \<Rightarrow> [''requirement_failed:'' @ assessed_id a]
       | Unknown \<Rightarrow> [''requirement_unknown:'' @ assessed_id a]) xs) = [] \<longleftrightarrow> list_all (\<lambda>a. assessed_status a = Pass) xs" for xs
    by (induction xs) (simp_all split: ai_requirement_status.splits)
  have decided: "(case response_decision rs of Approve \<Rightarrow> [] | Reject \<Rightarrow> [''ai_decision_reject''] | Needs_Human \<Rightarrow> [''ai_decision_needs_human'']) = [] \<longleftrightarrow>
      response_decision rs = Approve" by (cases "response_decision rs") simp_all
  have simulated: "map (\<lambda>e. ''simulation_evidence_failed:'' @ evidence_id e) (filter (\<lambda>e. \<not> evidence_passed e) xs) = [] \<longleftrightarrow> list_all evidence_passed xs" for xs
    by (induction xs) simp_all
  show ?thesis unfolding gate_failures_of_def gates_open_def append_is_Nil_conv risks assessed decided simulated by simp
qed

section \<open>Signing and verifying\<close>

lemma hex_decode_lower_encoded: "hex_decode_lower (length bs) label (hex_encode bs) = Inr bs"
  using hex_decode_encode[of bs label] by (simp add: hex_decode_lower_def hex_decode_array_def lower_hex_encode)

lemma hex_decode_lower_Inr:
  assumes "hex_decode_lower n label s = Inr bs"
  shows "length bs = n" "hex_decode_array n label s = Inr bs" "list_all lower_hex s"
  using assms hex_decode_length[of n label s bs] by (auto simp: hex_decode_lower_def hex_decode_array_def split: if_splits)

text \<open>Everything that verification establishes.\<close>

lemma verify_inner_Inr:
  "verify_signed_ai_approval_inner L ap rq rs trusted_key session = Inr () \<longleftrightarrow>
    approval_algorithm ap = ED25519 \<and> \<not> blank_name (approval_signer ap) \<and>
    ai_review_request_sha256 L rq = Inr (approval_request ap) \<and> ai_response_sha256 L rs = Inr (approval_response ap) \<and>
    answers rq rs (approval_request ap) \<and> approval_failures ap = gate_failures_of rq rs \<and>
    (approval_approved ap \<longleftrightarrow> gates_open rq rs) \<and>
    hex_decode_lower 32 ''approval public key'' (approval_public_key ap) = Inr trusted_key \<and> key_accepted L trusted_key \<and>
    (\<exists>signature payload. hex_decode_lower 64 ''approval signature'' (approval_signature ap) = Inr signature \<and>
      approval_payload_bytes L session (approval_request ap) (approval_response ap) (approval_approved ap) (approval_failures ap)
        (approval_signer ap) = Inr payload \<and> verify_strict L trusted_key payload signature)"
  unfolding verify_signed_ai_approval_inner_def bind_result_Inr evaluate_ai_review_Inr gate_failures_none[symmetric] by auto

lemma sign_response_verifies:
  assumes "signature_law (library.truncate L)" "sign_response L version session rq rs signer secret = Inr ap"
  shows "verify_signed_ai_approval_inner L ap rq rs (verifying_key_of L secret) session = Inr ()"
    "approval_version ap = version" "approval_session ap = session"
proof -
  have law: "length (verifying_key_of L secret) = 32" "length (sign_with L secret m) = 64" "key_accepted L (verifying_key_of L secret)"
    "verify_strict L (verifying_key_of L secret) m (sign_with L secret m)" for m
    using assms(1) by (simp_all add: signature_law_def library.defs)
  show "verify_signed_ai_approval_inner L ap rq rs (verifying_key_of L secret) session = Inr ()"
    "approval_version ap = version" "approval_session ap = session"
    using assms(2) law hex_decode_lower_encoded[of "verifying_key_of L secret"] hex_decode_lower_encoded[of "sign_with L secret m" for m]
    by (auto simp: sign_response_def validated_ai_review_signing_inputs_def bind_result_Inr evaluate_ai_review_Inr verify_inner_Inr
        gate_failures_none Let_def)
qed


section \<open>Valid requests\<close>

lemma request_sha256_Inr:
  "ai_review_request_sha256 L rq = Inr d \<longleftrightarrow>
    validate_request_version rq = Inr () \<and> validate_request_contents L rq = Inr () \<and> request_body_sha256 L rq = Inr d \<and> request_digest rq = d"
  by (auto simp: ai_review_request_sha256_def bind_result_Inr)

text \<open>The digest covers everything but itself, and the contents do not depend on the version and the binding.\<close>

lemma body_ignores_digest [simp]: "request_body_sha256 L (rq\<lparr>request_digest := d\<rparr>) = request_body_sha256 L rq"
  by (simp add: request_body_sha256_def)

lemma contents_ignore [simp]:
  "validate_request_contents L (rq\<lparr>request_digest := d\<rparr>) = validate_request_contents L rq"
  "validate_request_contents L (rq\<lparr>request_version := v\<rparr>) = validate_request_contents L rq"
  "validate_request_contents L (rq\<lparr>request_binding := b\<rparr>) = validate_request_contents L rq"
  by (simp_all add: validate_request_contents_def)

lemma version_ignores_digest [simp]: "validate_request_version (rq\<lparr>request_digest := d\<rparr>) = validate_request_version rq"
  by (simp add: validate_request_version_def Let_def)

lemma request_version_Inr:
  "validate_request_version rq = Inr () \<longleftrightarrow>
    (request_version rq = 1 \<and> request_binding rq = None) \<or>
    (request_version rq \<in> {2, 3, 4} \<and> (\<exists>b. request_binding rq = Some b \<and> binding_version b = request_version rq - 1 \<and> validate_artifact_binding b = Inr ()))"
  unfolding validate_request_version_def Let_def by (auto simp: bind_result_Inr ok_or_Inr split: if_splits)

lemma binding_Inr:
  "validate_artifact_binding b = Inr () \<longleftrightarrow>
    validate_artifact_binding (b\<lparr>binding_version := 1, native_kicad_erc := None\<rparr>) = Inr () \<and>
    (binding_version b = 1 \<and> native_kicad_erc b = None \<or>
     binding_version b \<in> {2, 3} \<and> (\<exists>erc. native_kicad_erc b = Some erc \<and> validate_native_kicad_erc_identity erc = Inr () \<and>
       erc_version erc = binding_version b - 1))"
  unfolding validate_artifact_binding_def validate_bound_erc_def Let_def by (auto simp: bind_result_Inr ok_or_Inr split: if_splits)

lemma with_digest_Inr:
  "with_digest L rq = Inr rq' \<longleftrightarrow> (\<exists>d. request_body_sha256 L rq = Inr d \<and> rq' = rq\<lparr>request_digest := d\<rparr>)"
  by (cases "request_body_sha256 L rq") (auto simp: with_digest_def)

lemma with_digest_valid:
  assumes "with_digest L rq = Inr rq'"
  shows "ai_review_request_sha256 L rq' = Inr (request_digest rq') \<longleftrightarrow>
    validate_request_version rq = Inr () \<and> validate_request_contents L rq = Inr ()"
  using assms by (auto simp: with_digest_Inr request_sha256_Inr)

lemma strictly_sorted_wrt: "strictly_sorted xs \<longleftrightarrow> sorted_wrt (<) xs"
proof (induction xs rule: windows2.induct)
  case (1 x y zs)
  then show ?case by (auto simp: strictly_sorted_def intro: less_trans)
qed (simp_all add: strictly_sorted_def)

lemma strictly_sorted_sort_key: "distinct (map f xs) \<Longrightarrow> strictly_sorted (map f (sort_key f xs))"
proof -
  assume "distinct (map f xs)"
  then have "distinct (map f (sort_key f xs))" using mset_eq_imp_distinct_iff[of "map f (sort_key f xs)" "map f xs"] by (simp add: mset_map)
  then show ?thesis using strict_sorted_iff[of "map f (sort_key f xs)"] by (simp add: strictly_sorted_wrt)
qed

lemma strictly_sorted_facts: "strictly_sorted (map f xs) \<Longrightarrow> distinct (map f xs) \<and> sort_key f xs = xs"
  using strict_sorted_iff[of "map f xs"] sort_key_id_if_sorted[of f xs] by (simp add: strictly_sorted_wrt)

text \<open>The contents that validation accepts.\<close>

lemma contents_Inr:
  "validate_request_contents L rq = Inr () \<longleftrightarrow>
    validate_sha256 (request_review_sha256 rq) ''electrical review SHA-256'' = Inr () \<and>
    validate_requirements (request_requirements rq) = Inr () \<and> strictly_sorted (map requirement_id (request_requirements rq)) \<and>
    check_schematic L (request_schematic rq) (request_policy rq) = Inr (request_review rq) \<and>
    list_all (\<lambda>e. validate_evidence L e = Inr () \<and> evidence_bound (request_review rq) (request_review_sha256 rq) e) (request_evidence rq) \<and>
    strictly_sorted (map evidence_id (request_evidence rq)) \<and>
    request_evidence_ids rq = expected_evidence_ids (request_schematic rq) (request_review rq) (request_evidence rq)"
  unfolding validate_request_contents_def bind_result_Inr validate_evidence_list_Inr failing_if_Inr
  using strictly_sorted_facts[of evidence_id "request_evidence rq"] by auto

lemma build_Inr:
  "build_ai_review_request L doc policy review digest evidence requirements sim = Inr rq \<longleftrightarrow>
    validate_sha256 digest ''electrical review SHA-256'' = Inr () \<and> check_schematic L doc policy = Inr review \<and>
    validate_requirements requirements = Inr () \<and> length evidence \<le> MAX_REQUIREMENTS \<and>
    list_all (\<lambda>e. validate_evidence L e = Inr () \<and> evidence_bound review digest e) evidence \<and> distinct (map evidence_id evidence) \<and>
    with_digest L \<lparr>request_version = 1, request_digest = [], request_schematic = doc, request_policy = policy,
       request_review = review, request_review_sha256 = digest, request_evidence = sort_key evidence_id evidence,
       request_requirements = sort_key requirement_id requirements,
       request_evidence_ids = expected_evidence_ids doc review (sort_key evidence_id evidence),
       require_simulation_evidence = sim, request_binding = None\<rparr> = Inr rq"
  unfolding build_ai_review_request_def bind_result_Inr Let_def validate_evidence_list_Inr failing_if_Inr evidence_bound_def by auto

text \<open>The requests that building and binding produce.\<close>

inductive built :: "review_library \<Rightarrow> ai_review_request \<Rightarrow> bool" for L where
  fresh: "build_ai_review_request L doc policy review digest evidence requirements sim = Inr rq \<Longrightarrow> built L rq"
| bound: "built L rq \<Longrightarrow> bind_ai_review_request L rq binding = Inr rq' \<Longrightarrow> built L rq'"
| native: "built L rq \<Longrightarrow> bind_native_kicad_erc_to_ai_review_request L rq erc = Inr rq' \<Longrightarrow> built L rq'"
| warning_policy: "built L rq \<Longrightarrow> bind_native_kicad_erc_warning_policy_to_ai_review_request L rq erc = Inr rq' \<Longrightarrow> built L rq'"

definition request_valid :: "review_library \<Rightarrow> ai_review_request \<Rightarrow> bool" where
  "request_valid L rq \<longleftrightarrow> ai_review_request_sha256 L rq = Inr (request_digest rq) \<and> length (request_evidence rq) \<le> MAX_REQUIREMENTS"

lemma build_valid:
  assumes "build_ai_review_request L doc policy review digest evidence requirements sim = Inr rq"
  shows "request_valid L rq"
proof -
  let ?rq = "\<lparr>request_version = 1, request_digest = [], request_schematic = doc, request_policy = policy,
       request_review = review, request_review_sha256 = digest, request_evidence = sort_key evidence_id evidence,
       request_requirements = sort_key requirement_id requirements,
       request_evidence_ids = expected_evidence_ids doc review (sort_key evidence_id evidence),
       require_simulation_evidence = sim, request_binding = None\<rparr>"
  note b = assms[unfolded build_Inr]
  have rs: "requirements \<noteq> []" "length requirements \<le> MAX_REQUIREMENTS" "list_all requirement_ok requirements" "distinct (map requirement_id requirements)"
    using b by (simp_all add: validate_requirements_Inr)
  have "distinct (map requirement_id (sort_key requirement_id requirements))"
    using strictly_sorted_facts[OF strictly_sorted_sort_key[OF rs(4)]] by simp
  moreover have "sort_key requirement_id requirements \<noteq> []" using rs(1) by (metis length_sort length_0_conv)
  ultimately have "validate_requirements (sort_key requirement_id requirements) = Inr ()"
    using rs by (auto simp: validate_requirements_Inr list_all_iff)
  then have "validate_request_contents L ?rq = Inr ()"
    using b strictly_sorted_sort_key[OF rs(4)] strictly_sorted_sort_key[of evidence_id evidence] by (simp add: contents_Inr list_all_iff)
  moreover have "validate_request_version ?rq = Inr ()" by (simp add: request_version_Inr)
  moreover have "with_digest L ?rq = Inr rq" using b by blast
  moreover from this have "length (request_evidence rq) \<le> MAX_REQUIREMENTS" using b by (auto simp: with_digest_Inr)
  ultimately show ?thesis using with_digest_valid[of L ?rq rq] by (simp add: request_valid_def)
qed

lemma bind_valid:
  assumes "bind_ai_review_request L rq binding = Inr rq'" "length (request_evidence rq) \<le> MAX_REQUIREMENTS"
  shows "request_valid L rq'"
proof -
  let ?rq = "rq\<lparr>request_version := 2, request_binding := Some binding\<rparr>"
  have b: "with_digest L ?rq = Inr rq'" "validate_request_contents L rq = Inr ()" "binding_version binding = 1" "validate_artifact_binding binding = Inr ()"
    using assms(1) by (auto simp: bind_ai_review_request_def bind_result_Inr request_sha256_Inr)
  have "validate_request_version ?rq = Inr ()" using b(3,4) by (simp add: request_version_Inr)
  then show ?thesis using with_digest_valid[OF b(1)] b(1,2) assms(2) by (auto simp: request_valid_def with_digest_Inr)
qed

lemma bind_native_valid:
  assumes "bind_native_identity v what what' L rq erc = Inr rq'" "length (request_evidence rq) \<le> MAX_REQUIREMENTS" "v \<in> {1, 2}"
  shows "request_valid L rq'"
proof -
  obtain binding where a: "request_version rq = 2" "request_binding rq = Some binding" "binding_version binding = 1" "native_kicad_erc binding = None"
    "ai_review_request_sha256 L rq = Inr (request_digest rq)" "validate_native_kicad_erc_identity erc = Inr ()" "erc_version erc = v"
    "with_digest L (rq\<lparr>request_version := v + 2, request_binding := Some (binding\<lparr>binding_version := v + 1, native_kicad_erc := Some erc\<rparr>)\<rparr>) = Inr rq'"
    using assms(1) by (auto simp: bind_native_identity_def bind_result_Inr ok_or_Inr request_sha256_Inr)
  let ?binding = "binding\<lparr>binding_version := v + 1, native_kicad_erc := Some erc\<rparr>"
  have "validate_artifact_binding binding = Inr ()" "validate_request_contents L rq = Inr ()"
    using a(1,2,5) by (auto simp: request_sha256_Inr request_version_Inr)
  moreover from this have "validate_artifact_binding ?binding = Inr ()"
    using a(3,4,6,7) assms(3) binding_Inr[of ?binding] binding_Inr[of binding] by auto
  ultimately have "validate_request_version (rq\<lparr>request_version := v + 2, request_binding := Some ?binding\<rparr>) = Inr ()"
    "validate_request_contents L (rq\<lparr>request_version := v + 2, request_binding := Some ?binding\<rparr>) = Inr ()"
    using assms(3) by (auto simp: request_version_Inr)
  then show ?thesis using with_digest_valid[OF a(8)] a(8) assms(2) by (auto simp: request_valid_def with_digest_Inr)
qed

lemma built_valid: "built L rq \<Longrightarrow> request_valid L rq"
proof (induction rule: built.induct)
  case (native rq erc rq')
  then show ?case
    using bind_native_valid by (auto simp: bind_native_kicad_erc_to_ai_review_request_def request_valid_def)
next
  case (warning_policy rq erc rq')
  then show ?case
    using bind_native_valid by (auto simp: bind_native_kicad_erc_warning_policy_to_ai_review_request_def request_valid_def)
next
  case (fresh doc policy review digest evidence requirements sim rq)
  then show ?case by (rule build_valid)
next
  case (bound rq binding rq')
  then show ?case using bind_valid unfolding request_valid_def by blast
qed

text \<open>Conversely every valid request is the result of these operations.\<close>

lemma valid_version_1:
  assumes "request_valid L rq" "request_version rq = 1"
  shows "built L rq"
proof -
  have v: "request_binding rq = None" "validate_request_contents L rq = Inr ()" "request_body_sha256 L rq = Inr (request_digest rq)"
    "length (request_evidence rq) \<le> MAX_REQUIREMENTS"
    using assms by (auto simp: request_valid_def request_sha256_Inr request_version_Inr)
  note c = v(2)[unfolded contents_Inr]
  have sorted: "sort_key requirement_id (request_requirements rq) = request_requirements rq" "sort_key evidence_id (request_evidence rq) = request_evidence rq"
    "distinct (map evidence_id (request_evidence rq))"
    using c strictly_sorted_facts by blast+
  let ?rq = "\<lparr>request_version = 1, request_digest = [], request_schematic = request_schematic rq, request_policy = request_policy rq,
       request_review = request_review rq, request_review_sha256 = request_review_sha256 rq, request_evidence = request_evidence rq,
       request_requirements = request_requirements rq, request_evidence_ids = request_evidence_ids rq,
       require_simulation_evidence = require_simulation_evidence rq, request_binding = None\<rparr>"
  have eq: "?rq = rq\<lparr>request_digest := []\<rparr>" using assms(2) v(1) by (intro ai_review_request.equality) simp_all
  have "with_digest L ?rq = Inr (rq\<lparr>request_digest := request_digest rq\<rparr>)" unfolding eq with_digest_Inr using v(3) by simp
  then have "build_ai_review_request L (request_schematic rq) (request_policy rq) (request_review rq) (request_review_sha256 rq)
      (request_evidence rq) (request_requirements rq) (require_simulation_evidence rq) = Inr rq"
    unfolding build_Inr sorted using c v(4) sorted(3) by simp
  then show ?thesis by (rule built.fresh)
qed

lemma digest_exists: "\<forall>x. json_request L x \<noteq> None \<Longrightarrow> \<exists>d. request_body_sha256 L rq = Inr d"
  by (auto simp: request_body_sha256_def map_sum_Inr ok_or_Inr)

lemma with_digest_again:
  assumes "request_body_sha256 L rq = Inr (request_digest rq)"
  shows "with_digest L (rq\<lparr>request_digest := x\<rparr>) = Inr rq"
  using assms by (simp add: with_digest_Inr)

lemma valid_version_2:
  assumes "request_valid L rq" "request_version rq = 2" "\<forall>x. json_request L x \<noteq> None"
  shows "built L rq"
proof -
  obtain b where b: "request_binding rq = Some b" "binding_version b = 1" "validate_artifact_binding b = Inr ()"
    using assms(1,2) by (auto simp: request_valid_def request_sha256_Inr request_version_Inr)
  have v: "validate_request_contents L rq = Inr ()" "request_body_sha256 L rq = Inr (request_digest rq)" "length (request_evidence rq) \<le> MAX_REQUIREMENTS"
    using assms(1) by (auto simp: request_valid_def request_sha256_Inr)
  obtain d where d: "request_body_sha256 L (rq\<lparr>request_version := 1, request_binding := None\<rparr>) = Inr d" using digest_exists[OF assms(3)] by blast
  let ?base = "rq\<lparr>request_version := 1, request_binding := None, request_digest := d\<rparr>"
  have "request_valid L ?base" using v d by (simp add: request_valid_def request_sha256_Inr request_version_Inr)
  then have base: "built L ?base" "ai_review_request_sha256 L ?base = Inr d" by (simp_all add: valid_version_1 request_valid_def)
  have "native_kicad_erc b = None" using b(2,3) binding_Inr[of b] by auto
  moreover have "?base\<lparr>request_version := 2, request_binding := Some b\<rparr> = rq\<lparr>request_digest := d\<rparr>"
    using assms(2) b(1) by (intro ai_review_request.equality) simp_all
  ultimately have "bind_ai_review_request L ?base b = Inr rq"
    using base(2) b with_digest_again[OF v(2), of d] by (simp add: bind_ai_review_request_def bind_result_Inr)
  with base(1) show ?thesis by (rule built.bound)
qed

lemma valid_native:
  assumes "request_valid L rq" "request_version rq = v + 2" "v \<in> {1, 2}" "\<forall>x. json_request L x \<noteq> None"
  shows "\<exists>base erc. built L base \<and> bind_native_identity v what what' L base erc = Inr rq"
proof -
  obtain b where b: "request_binding rq = Some b" "binding_version b = v + 1" "validate_artifact_binding b = Inr ()"
    using assms(1-3) by (auto simp: request_valid_def request_sha256_Inr request_version_Inr)
  then obtain erc where erc: "native_kicad_erc b = Some erc" "validate_native_kicad_erc_identity erc = Inr ()" "erc_version erc = v"
    and plain: "validate_artifact_binding (b\<lparr>binding_version := 1, native_kicad_erc := None\<rparr>) = Inr ()"
    using assms(3) binding_Inr[of b] by auto
  let ?b = "b\<lparr>binding_version := 1, native_kicad_erc := None\<rparr>"
  have v: "validate_request_contents L rq = Inr ()" "request_body_sha256 L rq = Inr (request_digest rq)" "length (request_evidence rq) \<le> MAX_REQUIREMENTS"
    using assms(1) by (auto simp: request_valid_def request_sha256_Inr)
  obtain d where d: "request_body_sha256 L (rq\<lparr>request_version := 2, request_binding := Some ?b\<rparr>) = Inr d" using digest_exists[OF assms(4)] by blast
  let ?base = "rq\<lparr>request_version := 2, request_binding := Some ?b, request_digest := d\<rparr>"
  have "request_valid L ?base" using v d plain by (simp add: request_valid_def request_sha256_Inr request_version_Inr)
  then have base: "built L ?base" "ai_review_request_sha256 L ?base = Inr d"
    using valid_version_2[OF _ _ assms(4), of ?base] by (simp_all add: request_valid_def)
  have "?b\<lparr>binding_version := v + 1, native_kicad_erc := Some erc\<rparr> = b" using b(2) erc(1) by (intro artifact_binding.equality) simp_all
  moreover have "?base\<lparr>request_version := v + 2, request_binding := Some b\<rparr> = rq\<lparr>request_digest := d\<rparr>"
    using assms(2) b(1) by (intro ai_review_request.equality) simp_all
  ultimately have "bind_native_identity v what what' L ?base erc = Inr rq"
    using base(2) erc with_digest_again[OF v(2), of d] by (simp add: bind_native_identity_def bind_result_Inr ok_or_Inr)
  with base(1) show ?thesis by blast
qed

lemma valid_built:
  assumes "request_valid L rq" "\<forall>x. json_request L x \<noteq> None"
  shows "built L rq"
proof -
  have "request_version rq \<in> {1, 2, 3, 4}" using assms(1) by (auto simp: request_valid_def request_sha256_Inr request_version_Inr)
  then consider "request_version rq = 1" | "request_version rq = 2" | "request_version rq = 1 + 2" | "request_version rq = 2 + 2" by auto
  then show ?thesis
  proof cases
    case 3
    from valid_native[OF assms(1) this _ assms(2)] show ?thesis
      by (metis bind_native_kicad_erc_to_ai_review_request_def built.native insertI1)
  next
    case 4
    from valid_native[OF assms(1) this _ assms(2)] show ?thesis
      by (metis bind_native_kicad_erc_warning_policy_to_ai_review_request_def built.warning_policy insertCI)
  qed (use assms valid_version_1 valid_version_2 in blast)+
qed


section \<open>What an approval binds\<close>

text \<open>JSON texts determine their documents.\<close>

definition faithful_json :: "review_library \<Rightarrow> bool" where
  "faithful_json L \<longleftrightarrow>
     (\<forall>x y t. json_request L x = Some t \<longrightarrow> json_request L y = Some t \<longrightarrow> x = y) \<and>
     (\<forall>x y t. json_response L x = Some t \<longrightarrow> json_response L y = Some t \<longrightarrow> x = y)"

text \<open>The texts that are hashed for a request and a response.\<close>

definition hashed_texts :: "review_library \<Rightarrow> ai_review_request \<Rightarrow> ai_review_response \<Rightarrow> bytes set" where
  "hashed_texts L rq rs = {t. json_request L (rq\<lparr>request_digest := []\<rparr>) = Some t \<or> json_response L rs = Some t}"

lemma same_request:
  assumes "faithful_json L" "inj_on (digest_hex L) T" "hashed_texts L rq rs \<union> hashed_texts L rq' rs' \<subseteq> T"
    "ai_review_request_sha256 L rq = Inr d" "ai_review_request_sha256 L rq' = Inr d"
  shows "rq' = rq"
proof -
  obtain t t' where t: "json_request L (rq\<lparr>request_digest := []\<rparr>) = Some t" "json_request L (rq'\<lparr>request_digest := []\<rparr>) = Some t'"
    "digest_hex L t = d" "digest_hex L t' = d" and d: "request_digest rq = d" "request_digest rq' = d"
    using assms(4,5) by (auto simp: request_sha256_Inr request_body_sha256_def map_sum_Inr ok_or_Inr)
  have "t = t'" by (rule inj_onD[OF assms(2)]) (use t assms(3) in \<open>auto simp: hashed_texts_def\<close>)
  then have "rq\<lparr>request_digest := []\<rparr> = rq'\<lparr>request_digest := []\<rparr>" using assms(1) t(1,2) unfolding faithful_json_def by metis
  then have "rq\<lparr>request_digest := []\<rparr>\<lparr>request_digest := request_digest rq\<rparr> = rq'\<lparr>request_digest := []\<rparr>\<lparr>request_digest := request_digest rq'\<rparr>"
    using d by simp
  then show ?thesis by simp
qed

lemma same_response:
  assumes "faithful_json L" "inj_on (digest_hex L) T" "hashed_texts L rq rs \<union> hashed_texts L rq' rs' \<subseteq> T"
    "ai_response_sha256 L rs = Inr d" "ai_response_sha256 L rs' = Inr d"
  shows "rs' = rs"
proof -
  obtain t t' where t: "json_response L rs = Some t" "json_response L rs' = Some t'" "digest_hex L t = d" "digest_hex L t' = d"
    using assms(4,5) by (auto simp: ai_response_sha256_def map_sum_Inr ok_or_Inr)
  have "t = t'" by (rule inj_onD[OF assms(2)]) (use t assms(3) in \<open>auto simp: hashed_texts_def\<close>)
  then show ?thesis using assms(1) t(1,2) unfolding faithful_json_def by metis
qed

lemma verified_inner:
  assumes "verify_signed_ai_approval L ap rq rs key = Inr ()"
  shows "verify_signed_ai_approval_inner L ap rq rs key None = Inr ()"
  using assms by (auto simp: verify_signed_ai_approval_def split: if_splits)

section \<open>A concrete review\<close>

definition demo_review :: electrical_review where
  "demo_review = \<lparr>review_approved = True, review_schematic_sha256 = [], finding_ids = [], review_rest = []\<rparr>"

definition demo_request :: ai_review_request where
  "demo_request = \<lparr>request_version = 1, request_digest = replicate 64 CHR ''0'',
     request_schematic = \<lparr>symbol_uuids = [''u''], schematic_net_ids = [], schematic_rest = []\<rparr>, request_policy = [],
     request_review = demo_review, request_review_sha256 = replicate 64 CHR ''2'', request_evidence = [],
     request_requirements = [\<lparr>requirement_id = ''R1'', requirement_text = ''power''\<rparr>],
     request_evidence_ids = [''electrical-review'', ''symbol:u''], require_simulation_evidence = False, request_binding = None\<rparr>"

definition demo_response :: ai_review_response where
  "demo_response = \<lparr>response_version = 1, response_request = replicate 64 CHR ''0'',
     response_model = \<lparr>model_provider = ''p'', model_name = ''m'', model_version = None\<rparr>, response_decision = Approve,
     response_summary = ''fine'',
     response_assessments = [\<lparr>assessed_id = ''R1'', assessed_status = Pass, assessed_rationale = ''seen'', assessed_refs = [''symbol:u'']\<rparr>],
     response_risks = []\<rparr>"

definition demo_reviews :: review_library where
  "demo_reviews = \<lparr>digest_hex = (\<lambda>t. replicate 64 (if t = ''q'' then CHR ''0'' else CHR ''1'')),
     json_entry = (\<lambda>x. None), json_log = (\<lambda>x. None), json_checkpoint = (\<lambda>x. None), json_rotation = (\<lambda>x. None),
     json_checkpoint_payload = (\<lambda>x. None), json_witness_payload = (\<lambda>x. None), json_rotation_payload = (\<lambda>x. None),
     verifying_key_of = (\<lambda>s. replicate 32 CHR ''k''), sign_with = (\<lambda>s m. replicate 64 CHR ''s''), key_accepted = (\<lambda>k. True),
     verify_strict = (\<lambda>k m s. True),
     json_request = (\<lambda>x. if x = demo_request\<lparr>request_digest := []\<rparr> then Some ''q'' else None),
     json_response = (\<lambda>x. if x = demo_response then Some ''r'' else None), json_claim = (\<lambda>x. Some ''c''), json_session = (\<lambda>x. Some ''s''),
     check_schematic = (\<lambda>d p. Inr demo_review), validate_evidence = (\<lambda>e. Inr ())\<rparr>"

lemma demo_ids: "expected_evidence_ids (request_schematic demo_request) demo_review [] = [''electrical-review'', ''symbol:u'']"
  by code_simp

lemma demo_digest: "ai_review_request_sha256 demo_reviews demo_request = Inr (replicate 64 CHR ''0'')"
proof -
  have "blank_name ''R1'' = False" "blank_name ''power'' = False" by code_simp+
  moreover have "list_all lower_hex (replicate 64 CHR ''2'')" by code_simp
  ultimately show ?thesis
    using demo_ids
    by (simp add: request_sha256_Inr request_version_Inr contents_Inr validate_requirements_Inr requirement_ok_def MAX_REQUIREMENTS_def
        validate_sha256_def strictly_sorted_def request_body_sha256_def demo_reviews_def demo_request_def)
qed

lemma demo_answers: "answers demo_request demo_response (replicate 64 CHR ''0'')" "gates_open demo_request demo_response"
proof -
  have "blank_name ''p'' = False" "blank_name ''m'' = False" "blank_name ''fine'' = False" "blank_name ''seen'' = False" by code_simp+
  then show "answers demo_request demo_response (replicate 64 CHR ''0'')"
    by (simp add: answers_def demo_request_def demo_response_def assessment_ok_def refs_ok_def MAX_EVIDENCE_REFS_def MAX_RISKS_def)
  show "gates_open demo_request demo_response" by (simp add: gates_open_def demo_request_def demo_response_def demo_review_def)
qed

lemma demo_law: "signature_law (library.truncate demo_reviews)" "faithful_json demo_reviews"
  by (auto simp: signature_law_def library.defs demo_reviews_def faithful_json_def split: if_splits)

lemma demo_signed: "\<exists>ap. sign_ai_review demo_reviews demo_request demo_response ''me'' ''secret'' = Inr ap"
proof -
  have "blank_name ''me'' = False" by code_simp
  then show ?thesis
    using demo_digest demo_answers
    by (simp add: sign_ai_review_def sign_response_def validated_ai_review_signing_inputs_def evaluate_ai_review_Inr[THEN iffD2]
        ai_response_sha256_def approval_payload_bytes_def demo_reviews_def validate_nonblank_def)
qed

section \<open>Properties\<close>

text \<open>C29: The gates: an evaluation opens all gates exactly when the response answers the request, assessing every
  requirement once with evidence of the request, and the electrical review is approved, demanded simulations are there and
  passed, the reviewer approves, all requirements pass and no risk is an error or critical.\<close>

theorem gates_exact:
  "evaluate_ai_review rq rs d = Inr [] \<longleftrightarrow>
    answers rq rs d \<and> review_approved (request_review rq) \<and>
    \<not> (require_simulation_evidence rq \<and> request_evidence rq = []) \<and> list_all evidence_passed (request_evidence rq) \<and>
    response_decision rs = Approve \<and> list_all (\<lambda>a. assessed_status a = Pass) (response_assessments rs) \<and>
    list_all (\<lambda>r. risk_severity r \<in> {Info, Warning}) (response_risks rs)"
  using evaluate_ai_review_Inr[of rq rs d "[]"] gate_failures_none[of rq rs] by (auto simp: gates_open_def)

text \<open>What is signed verifies: a signed review, with or without a session, is accepted for the same documents with the
  public key of the signer, and it claims approval exactly when all gates are open.\<close>

theorem signed_reviews_verify:
  assumes "signature_law (library.truncate L)"
    and "sign_ai_review L rq rs signer secret = Inr ap" and "sign_ai_review_for_session L rq rs session signer secret = Inr ap'"
  shows "verify_signed_ai_approval L ap rq rs (verifying_key_of L secret) = Inr () \<and>
    verify_session_signed_ai_approval L ap' rq rs (verifying_key_of L secret) session = Inr () \<and>
    (approval_approved ap \<longleftrightarrow> gates_open rq rs) \<and> (approval_approved ap' \<longleftrightarrow> gates_open rq rs)"
proof -
  note one = sign_response_verifies[OF assms(1) assms(2)[unfolded sign_ai_review_def]]
  have "validate_sha256 session ''AI review session SHA-256'' = Inr ()" "sign_response L 2 (Some session) rq rs signer secret = Inr ap'"
    using assms(3) by (auto simp: sign_ai_review_for_session_def bind_result_Inr)
  note two = this(1) sign_response_verifies[OF assms(1) this(2)]
  have "verify_signed_ai_approval L ap rq rs (verifying_key_of L secret) = Inr ()"
    using one by (simp add: verify_signed_ai_approval_def)
  moreover have "verify_session_signed_ai_approval L ap' rq rs (verifying_key_of L secret) session = Inr ()"
    unfolding verify_session_signed_ai_approval_def using two by (simp only: failing_if_def bind_result_simps) simp
  moreover have "approval_approved ap \<longleftrightarrow> gates_open rq rs" "approval_approved ap' \<longleftrightarrow> gates_open rq rs"
    using one(1) two(2) unfolding verify_inner_Inr by blast+
  ultimately show ?thesis by blast
qed

text \<open>C30: An approval is for one review: unless SHA-256 collides on the texts hashed, an approval that verifies does so for
  one request, one response and one key only, and it approves exactly when all gates are open for them.\<close>

theorem approval_binds_documents:
  assumes "faithful_json L" "inj_on (digest_hex L) (hashed_texts L rq rs \<union> hashed_texts L rq' rs')"
    and "verify_signed_ai_approval L ap rq rs key = Inr ()" "verify_signed_ai_approval L ap rq' rs' key' = Inr ()"
  shows "rq' = rq \<and> rs' = rs \<and> key' = key \<and> answers rq rs (request_digest rq) \<and> (approval_approved ap \<longleftrightarrow> gates_open rq rs)"
proof -
  note v = verified_inner[OF assms(3), unfolded verify_inner_Inr] and v' = verified_inner[OF assms(4), unfolded verify_inner_Inr]
  have "rq' = rq" using same_request[OF assms(1,2) order_refl] v v' by blast
  moreover have "rs' = rs" using same_response[OF assms(1,2) order_refl] v v' by blast
  moreover have "key' = key" using v v' by (metis sum.inject(2))
  moreover have "request_digest rq = approval_request ap" using v by (simp add: request_sha256_Inr)
  ultimately show ?thesis using v by simp
qed

text \<open>C31: A request is valid exactly when it was built: when requests can be serialised, the digest of a request with at most
  1000 simulations verifies exactly if the request is the result of building and of binding artifacts and native checks.\<close>

theorem valid_requests_are_built:
  assumes "\<forall>x. json_request L x \<noteq> None"
  shows "built L rq \<longleftrightarrow> ai_review_request_sha256 L rq = Inr (request_digest rq) \<and> length (request_evidence rq) \<le> MAX_REQUIREMENTS"
  using built_valid valid_built[OF _ assms] by (auto simp: request_valid_def)

theorem signed_reviews_verify_witness:
  "\<exists>ap. sign_ai_review demo_reviews demo_request demo_response ''me'' ''secret'' = Inr ap \<and>
    verify_signed_ai_approval demo_reviews ap demo_request demo_response (replicate 32 CHR ''k'') = Inr () \<and> approval_approved ap"
proof -
  obtain ap where ap: "sign_ai_review demo_reviews demo_request demo_response ''me'' ''secret'' = Inr ap" using demo_signed by blast
  have "list_all lower_hex (replicate 64 CHR ''3'')" by code_simp
  moreover have "\<exists>ap'. sign_response demo_reviews 2 (Some (replicate 64 CHR ''3'')) demo_request demo_response ''me'' ''secret'' = Inr ap'"
    using ap by (auto simp: sign_ai_review_def sign_response_def bind_result_Inr approval_payload_bytes_def demo_reviews_def Let_def)
  ultimately obtain ap' where "sign_ai_review_for_session demo_reviews demo_request demo_response (replicate 64 CHR ''3'') ''me'' ''secret'' = Inr ap'"
    by (auto simp: sign_ai_review_for_session_def validate_sha256_def)
  from signed_reviews_verify[OF demo_law(1) ap this] show ?thesis using ap demo_answers(2) by (auto simp: demo_reviews_def)
qed

theorem approval_binds_documents_witness:
  "\<exists>ap. verify_signed_ai_approval demo_reviews ap demo_request demo_response (replicate 32 CHR ''k'') = Inr () \<and>
    answers demo_request demo_response (request_digest demo_request) \<and> approval_approved ap"
proof -
  obtain ap where ap: "sign_ai_review demo_reviews demo_request demo_response ''me'' ''secret'' = Inr ap" using demo_signed by blast
  note v = sign_response_verifies[OF demo_law(1) ap[unfolded sign_ai_review_def]]
  then have ver: "verify_signed_ai_approval demo_reviews ap demo_request demo_response (replicate 32 CHR ''k'') = Inr ()"
    by (simp add: verify_signed_ai_approval_def demo_reviews_def)
  have "inj_on (digest_hex demo_reviews) (hashed_texts demo_reviews demo_request demo_response \<union> hashed_texts demo_reviews demo_request demo_response)"
    by (auto simp: inj_on_def hashed_texts_def demo_reviews_def)
  from approval_binds_documents[OF demo_law(2) this ver ver] show ?thesis using ver demo_answers(2) by blast
qed

theorem valid_requests_are_built_witness:
  "built (demo_reviews\<lparr>json_request := (\<lambda>x. Some ''q'')\<rparr>) demo_request"
proof -
  let ?L = "demo_reviews\<lparr>json_request := (\<lambda>x. Some ''q'')\<rparr>"
  have "validate_request_contents ?L rq = validate_request_contents demo_reviews rq" for rq
    by (simp add: validate_request_contents_def validate_evidence_list_def)
  moreover have "request_body_sha256 ?L rq = Inr (replicate 64 CHR ''0'')" for rq
    by (simp add: request_body_sha256_def) (simp add: demo_reviews_def)
  ultimately have "ai_review_request_sha256 ?L demo_request = Inr (request_digest demo_request)"
    using demo_digest by (auto simp: request_sha256_Inr)
  then show ?thesis by (subst valid_requests_are_built) (simp_all add: demo_request_def MAX_REQUIREMENTS_def)
qed

end
