(* ===== verification/ApprovalQuorum.thy ===== *)
theory ApprovalQuorum
  imports AiApproval
begin

text \<open>
  Quorums of signed approvals, \<open>approval_quorum.rs\<close> of \<open>crates/pcbex-kicad/src\<close>: several reviewers
  with different identities, keys and responses, thresholds on approvals, providers and models, with or
  without a time-bound session. \<open>str::to_lowercase\<close>, which is driven by the tables of Unicode, is a
  parameter.
\<close>

section \<open>Policy and report\<close>

definition MAX_QUORUM_MEMBERS :: nat where "MAX_QUORUM_MEMBERS = 100"

record quorum_policy =
  minimum_approvals :: nat
  minimum_distinct_providers :: nat
  minimum_distinct_models :: nat

record quorum_counts =
  count_members :: nat
  count_approvals :: nat
  count_rejections :: nat
  count_providers :: nat
  count_models :: nat

record quorum_member =
  member_signer :: string
  member_public_key :: string
  member_response :: string
  member_provider :: string
  member_model :: string
  member_version :: "string option"
  member_approved :: bool
  member_failures :: "string list"

record ai_quorum_report =
  quorum_version :: nat
  quorum_request :: string
  quorum_policy_of :: quorum_policy
  quorum_counts_of :: quorum_counts
  quorum_members :: "quorum_member list"
  quorum_met :: bool
  quorum_failures :: "string list"

record session_quorum_report =
  session_report_version :: nat
  session_report_digest :: string
  session_report_request :: string
  session_report_issued :: nat
  session_report_expires :: nat
  session_report_evaluated :: nat
  session_report_quorum :: ai_quorum_report

record quorum_candidate =
  candidate_approval :: signed_ai_approval
  candidate_response :: ai_review_response
  candidate_key :: bytes

section \<open>Text\<close>

text \<open>\<open>str::trim\<close>: the longest blank prefix and suffix are taken off; in UTF-8 they end and start at
  character boundaries.\<close>

definition trim_start :: "string \<Rightarrow> string" where
  "trim_start s = drop (last (filter (\<lambda>k. blank_name (take k s)) [0..<length s + 1])) s"

fun trim_end :: "string \<Rightarrow> string" where
  "trim_end [] = []"
| "trim_end (c # s) = (if blank_name (c # s) then [] else c # trim_end s)"

definition trim_text :: "string \<Rightarrow> string" where
  "trim_text s = trim_end (trim_start s)"

definition canonical_identity :: "(string \<Rightarrow> string) \<Rightarrow> string \<Rightarrow> string" where
  "canonical_identity lower value = lower (trim_text value)"

section \<open>Verification of a quorum\<close>

definition validate_threshold :: "string \<Rightarrow> nat \<Rightarrow> fault + unit" where
  "validate_threshold label value =
     failing_if (value = 0 \<or> MAX_QUORUM_MEMBERS < value)
       (''AI approval quorum '' @ label @ '' must be between 1 and '' @ show_nat MAX_QUORUM_MEMBERS)"

definition validate_policy :: "quorum_policy \<Rightarrow> fault + unit" where
  "validate_policy p =
     bind_result (validate_threshold ''minimum approvals'' (minimum_approvals p)) (\<lambda>_.
     bind_result (validate_threshold ''minimum distinct providers'' (minimum_distinct_providers p)) (\<lambda>_.
     bind_result (validate_threshold ''minimum distinct models'' (minimum_distinct_models p)) (\<lambda>_.
     bind_result (failing_if (minimum_approvals p < minimum_distinct_providers p) ''minimum distinct providers cannot exceed minimum approvals'') (\<lambda>_.
     failing_if (minimum_approvals p < minimum_distinct_models p) ''minimum distinct models cannot exceed minimum approvals''))))"

definition member_of :: "quorum_candidate \<Rightarrow> quorum_member" where
  "member_of c =
     (let ap = candidate_approval c; m = response_model (candidate_response c) in
      \<lparr>member_signer = approval_signer ap, member_public_key = approval_public_key ap, member_response = approval_response ap,
       member_provider = trim_text (model_provider m), member_model = trim_text (model_name m),
       member_version = map_option trim_text (model_version m), member_approved = approval_approved ap,
       member_failures = approval_failures ap\<rparr>)"

text \<open>The loop keeps three sets of what was seen.\<close>

type_synonym quorum_state = "quorum_member list \<times> string set \<times> string set \<times> string set"

definition admit_candidate :: "(quorum_candidate \<Rightarrow> fault + unit) \<Rightarrow> quorum_candidate \<Rightarrow> quorum_state \<Rightarrow> fault + quorum_state" where
  "admit_candidate verify c st =
     (case st of (members, signers, keys, digests) \<Rightarrow>
      let ap = candidate_approval c in
      bind_result (verify c) (\<lambda>_.
      if approval_signer ap \<in> signers then Inl (Bad_Value ''duplicate AI approval quorum signer'' (approval_signer ap))
      else if approval_public_key ap \<in> keys then Inl (Fault ''duplicate AI approval quorum public key'')
      else if approval_response ap \<in> digests then Inl (Fault ''duplicate AI approval quorum response digest'')
      else Inr (members @ [member_of c], insert (approval_signer ap) signers, insert (approval_public_key ap) keys,
        insert (approval_response ap) digests)))"

definition model_text :: "(string \<Rightarrow> string) \<Rightarrow> quorum_member \<Rightarrow> string" where
  "model_text lower m =
     canonical_identity lower (member_provider m) @ ''/'' @ canonical_identity lower (member_model m) @ ''@'' @
     (case member_version m of None \<Rightarrow> ''-'' | Some v \<Rightarrow> canonical_identity lower v)"

definition count_quorum :: "(string \<Rightarrow> string) \<Rightarrow> quorum_member list \<Rightarrow> quorum_counts" where
  "count_quorum lower members =
     (let approved = filter member_approved members in
      \<lparr>count_members = length members, count_approvals = length approved, count_rejections = length members - length approved,
       count_providers = card (set (map (canonical_identity lower \<circ> member_provider) approved)),
       count_models = card (set (map (model_text lower) approved))\<rparr>)"

definition threshold_failure :: "string \<Rightarrow> nat \<Rightarrow> nat \<Rightarrow> string list" where
  "threshold_failure name required actual =
     (if actual < required then [name @ '':required='' @ show_nat required @ '':actual='' @ show_nat actual] else [])"

definition quorum_failures_of :: "quorum_policy \<Rightarrow> quorum_counts \<Rightarrow> string list" where
  "quorum_failures_of p counts =
     threshold_failure ''insufficient_approvals'' (minimum_approvals p) (count_approvals counts) @
     threshold_failure ''insufficient_distinct_providers'' (minimum_distinct_providers p) (count_providers counts) @
     threshold_failure ''insufficient_distinct_models'' (minimum_distinct_models p) (count_models counts)"

definition verify_ai_approval_quorum_with ::
    "review_library \<Rightarrow> (string \<Rightarrow> string) \<Rightarrow> ai_review_request \<Rightarrow> quorum_candidate list \<Rightarrow> quorum_policy \<Rightarrow>
     (quorum_candidate \<Rightarrow> fault + unit) \<Rightarrow> fault + ai_quorum_report" where
  "verify_ai_approval_quorum_with L lower rq cs p verify =
     bind_result (validate_policy p) (\<lambda>_.
     bind_result (failing_if (cs = [] \<or> MAX_QUORUM_MEMBERS < length cs)
       (''AI approval quorum must contain 1 to '' @ show_nat MAX_QUORUM_MEMBERS @ '' members'')) (\<lambda>_.
     bind_result (ai_review_request_sha256 L rq) (\<lambda>d.
     bind_result (fold_result (admit_candidate verify) cs ([], {}, {}, {})) (\<lambda>(members, seen).
     let members = sort_key member_signer members;
         counts = count_quorum lower members;
         failures = quorum_failures_of p counts
     in Inr \<lparr>quorum_version = 1, quorum_request = d, quorum_policy_of = p, quorum_counts_of = counts, quorum_members = members,
          quorum_met = (failures = []), quorum_failures = failures\<rparr>))))"

definition verify_ai_approval_quorum ::
    "review_library \<Rightarrow> (string \<Rightarrow> string) \<Rightarrow> ai_review_request \<Rightarrow> quorum_candidate list \<Rightarrow> quorum_policy \<Rightarrow> fault + ai_quorum_report" where
  "verify_ai_approval_quorum L lower rq cs p =
     verify_ai_approval_quorum_with L lower rq cs p
       (\<lambda>c. verify_signed_ai_approval L (candidate_approval c) rq (candidate_response c) (candidate_key c))"

definition verify_session_ai_approval_quorum ::
    "review_library \<Rightarrow> (string \<Rightarrow> string) \<Rightarrow> ai_review_request \<Rightarrow> ai_review_session \<Rightarrow> nat \<Rightarrow> quorum_candidate list \<Rightarrow> quorum_policy \<Rightarrow>
     fault + session_quorum_report" where
  "verify_session_ai_approval_quorum L lower rq se now cs p =
     bind_result (validate_ai_review_session L se rq now) (\<lambda>digest.
     bind_result (verify_ai_approval_quorum_with L lower rq cs p
       (\<lambda>c. verify_session_signed_ai_approval L (candidate_approval c) rq (candidate_response c) (candidate_key c) digest)) (\<lambda>quorum.
     Inr \<lparr>session_report_version = 1, session_report_digest = digest, session_report_request = quorum_request quorum,
       session_report_issued = issued_at_unix se, session_report_expires = expires_at_unix se, session_report_evaluated = now,
       session_report_quorum = quorum\<rparr>))"

section \<open>The loop\<close>

definition signer_of :: "quorum_candidate \<Rightarrow> string" where "signer_of c = approval_signer (candidate_approval c)"
definition key_text_of :: "quorum_candidate \<Rightarrow> string" where "key_text_of c = approval_public_key (candidate_approval c)"
definition digest_of :: "quorum_candidate \<Rightarrow> string" where "digest_of c = approval_response (candidate_approval c)"

definition all_differ :: "quorum_candidate list \<Rightarrow> bool" where
  "all_differ cs \<longleftrightarrow> distinct (map signer_of cs) \<and> distinct (map key_text_of cs) \<and> distinct (map digest_of cs)"

lemma admit_loop:
  "fold_result (admit_candidate verify) cs (ms, A, B, C) = Inr (ms', S) \<longleftrightarrow>
    list_all (\<lambda>c. verify c = Inr ()) cs \<and> all_differ cs \<and>
    signer_of ` set cs \<inter> A = {} \<and> key_text_of ` set cs \<inter> B = {} \<and> digest_of ` set cs \<inter> C = {} \<and>
    ms' = ms @ map member_of cs \<and> S = (A \<union> signer_of ` set cs, B \<union> key_text_of ` set cs, C \<union> digest_of ` set cs)"
proof (induction cs arbitrary: ms A B C)
  case Nil
  then show ?case by (auto simp: all_differ_def)
next
  case (Cons c cs)
  have "admit_candidate verify c (ms, A, B, C) = Inr st \<longleftrightarrow>
      verify c = Inr () \<and> signer_of c \<notin> A \<and> key_text_of c \<notin> B \<and> digest_of c \<notin> C \<and>
      st = (ms @ [member_of c], insert (signer_of c) A, insert (key_text_of c) B, insert (digest_of c) C)" for st
    by (auto simp: admit_candidate_def signer_of_def key_text_of_def digest_of_def bind_result_Inr Let_def)
  then show ?case by (auto simp: bind_result_Inr Cons.IH all_differ_def)
qed

definition policy_ok :: "quorum_policy \<Rightarrow> bool" where
  "policy_ok p \<longleftrightarrow> 0 < minimum_distinct_providers p \<and> 0 < minimum_distinct_models p \<and>
     minimum_distinct_providers p \<le> minimum_approvals p \<and> minimum_distinct_models p \<le> minimum_approvals p \<and>
     minimum_approvals p \<le> MAX_QUORUM_MEMBERS"

lemma validate_policy_Inr: "validate_policy p = Inr () \<longleftrightarrow> policy_ok p"
  by (auto simp: validate_policy_def validate_threshold_def bind_result_Inr policy_ok_def)

lemma quorum_with_Inr:
  "verify_ai_approval_quorum_with L lower rq cs p verify = Inr rep \<longleftrightarrow>
    policy_ok p \<and> cs \<noteq> [] \<and> length cs \<le> MAX_QUORUM_MEMBERS \<and> ai_review_request_sha256 L rq = Inr (quorum_request rep) \<and>
    list_all (\<lambda>c. verify c = Inr ()) cs \<and> all_differ cs \<and>
    quorum_version rep = 1 \<and> quorum_policy_of rep = p \<and> quorum_members rep = sort_key member_signer (map member_of cs) \<and>
    quorum_counts_of rep = count_quorum lower (quorum_members rep) \<and> quorum_failures rep = quorum_failures_of p (quorum_counts_of rep) \<and>
    (quorum_met rep \<longleftrightarrow> quorum_failures rep = [])"
  unfolding verify_ai_approval_quorum_with_def bind_result_Inr failing_if_Inr Let_def
  by (auto simp: admit_loop validate_policy_Inr intro!: ai_quorum_report.equality)

lemma failures_none:
  "quorum_failures_of p counts = [] \<longleftrightarrow> minimum_approvals p \<le> count_approvals counts \<and>
    minimum_distinct_providers p \<le> count_providers counts \<and> minimum_distinct_models p \<le> count_models counts"
  by (auto simp: quorum_failures_of_def threshold_failure_def)

lemma member_signer_of: "member_signer (member_of c) = signer_of c"
  by (simp add: member_of_def signer_of_def Let_def)

text \<open>The order in which the candidates come does not matter.\<close>

lemma sort_key_unique:
  assumes "mset xs = mset ys" "distinct (map f xs)"
  shows "sort_key f xs = sort_key f ys"
proof (rule properties_for_sort_key)
  show "mset (sort_key f ys) = mset xs" using assms(1) by simp
  have inj: "inj_on f (set xs)" using assms(2) by (simp add: distinct_map)
  fix k assume k: "k \<in> set (sort_key f ys)"
  then have "k \<in> set xs" using mset_eq_setD[OF assms(1)] by simp
  then have all: "filter (\<lambda>x. f k = f x) zs = filter ((=) k) zs" if "set zs \<subseteq> set xs" for zs
    using that inj by (intro filter_cong) (auto simp: inj_on_def)
  have "filter ((=) k) (sort_key f ys) = filter ((=) k) xs"
  proof -
    have "mset (filter ((=) k) (sort_key f ys)) = mset (filter ((=) k) xs)" using assms(1) by (simp add: mset_filter)
    then have "length (filter ((=) k) (sort_key f ys)) = length (filter ((=) k) xs)" by (metis size_mset)
    moreover have "filter ((=) k) zs = replicate (length (filter ((=) k) zs)) k" for zs by (induction zs) auto
    ultimately show ?thesis by metis
  qed
  then show "filter (\<lambda>x. f k = f x) (sort_key f ys) = filter (\<lambda>x. f k = f x) xs"
    using all[of xs] all[of "sort_key f ys"] mset_eq_setD[OF assms(1)] by simp
qed simp


lemma quorum_with_permuted:
  assumes "mset cs = mset ds"
  shows "verify_ai_approval_quorum_with L lower rq cs p verify = Inr rep \<longleftrightarrow>
    verify_ai_approval_quorum_with L lower rq ds p verify = Inr rep"
proof -
  have differ: "all_differ cs \<longleftrightarrow> all_differ ds"
    unfolding all_differ_def using assms mset_eq_imp_distinct_iff by (metis mset_map)
  have "sort_key member_signer (map member_of cs) = sort_key member_signer (map member_of ds)" if "all_differ cs"
  proof (rule sort_key_unique)
    show "mset (map member_of cs) = mset (map member_of ds)" using assms by simp
    show "distinct (map member_signer (map member_of cs))" using that by (simp add: all_differ_def comp_def member_signer_of)
  qed
  moreover have "cs = [] \<longleftrightarrow> ds = []" "length cs = length ds" "set cs = set ds"
    using assms by (metis mset_zero_iff, metis size_mset, metis set_mset_mset)
  ultimately show ?thesis using differ unfolding quorum_with_Inr list_all_iff by metis
qed

section \<open>Keys\<close>

text \<open>As keys are read from lowercase text, different key texts are different keys.\<close>

lemma key_text_of_key:
  assumes "hex_decode_lower n label s = Inr bs"
  shows "s = hex_encode bs"
proof -
  have "list_all lower_hex s" "length s = 2 * n" using assms by (auto simp: hex_decode_lower_def split: if_splits)
  then obtain cs where "length cs = n" "s = hex_encode cs" by (rule lower_text)
  then show ?thesis using hex_decode_lower_encoded[of cs label] assms by simp
qed

definition candidate_verified :: "review_library \<Rightarrow> ai_review_request \<Rightarrow> string option \<Rightarrow> quorum_candidate \<Rightarrow> bool" where
  "candidate_verified L rq session c \<longleftrightarrow>
     verify_signed_ai_approval_inner L (candidate_approval c) rq (candidate_response c) (candidate_key c) session = Inr ()"

lemma verified_key_text: "candidate_verified L rq session c \<Longrightarrow> key_text_of c = hex_encode (candidate_key c)"
  unfolding candidate_verified_def verify_inner_Inr key_text_of_def using key_text_of_key by blast

lemma verified_approved:
  "candidate_verified L rq session c \<Longrightarrow> member_approved (member_of c) \<longleftrightarrow> gates_open rq (candidate_response c)"
  unfolding candidate_verified_def verify_inner_Inr by (auto simp: member_of_def Let_def)

lemma quorum_verified:
  "verify_ai_approval_quorum L lower rq cs p = Inr rep \<Longrightarrow> list_all (candidate_verified L rq None) cs"
  unfolding verify_ai_approval_quorum_def quorum_with_Inr list_all_iff
  using verified_inner by (auto simp: candidate_verified_def)

lemma distinct_keys:
  assumes "list_all (candidate_verified L rq session) cs" "all_differ cs"
  shows "distinct (map candidate_key cs)"
proof -
  have eq: "map hex_encode (map candidate_key cs) = map key_text_of cs"
    using assms(1) verified_key_text by (auto simp: list_all_iff)
  have "distinct (map hex_encode (map candidate_key cs))" unfolding eq using assms(2) by (simp add: all_differ_def)
  then show ?thesis using distinct_map[of hex_encode "map candidate_key cs"] by blast
qed

lemma count_sorted:
  "count_quorum lower (sort_key f ms) = count_quorum lower ms"
proof -
  have "length (filter P (sort_key f ms)) = length (filter P ms)" "set (filter P (sort_key f ms)) = set (filter P ms)" for P
    by (metis mset_filter mset_sort size_mset) simp
  then show ?thesis unfolding count_quorum_def Let_def set_map by simp
qed

lemma count_approvals_gates:
  assumes "list_all (candidate_verified L rq session) cs"
  shows "count_approvals (count_quorum lower (map member_of cs)) = length (filter (\<lambda>c. gates_open rq (candidate_response c)) cs)"
proof -
  have "filter member_approved (map member_of cs) = map member_of (filter (\<lambda>c. gates_open rq (candidate_response c)) cs)"
    using assms verified_approved by (induction cs) auto
  then show ?thesis by (simp add: count_quorum_def Let_def)
qed

section \<open>Properties\<close>

text \<open>C32: A quorum is what it says: when the verification of a quorum succeeds, every candidate carries a verified
  approval of this request, no two share a signer, a key or a response, the approvals are counted by the gates, and the quorum is
  met exactly when approvals, providers and models of approving members reach the thresholds of the policy.\<close>

theorem quorum_counts_approvals:
  assumes "verify_ai_approval_quorum L lower rq cs p = Inr rep"
  shows "list_all (candidate_verified L rq None) cs \<and> distinct (map signer_of cs) \<and> distinct (map candidate_key cs) \<and>
    distinct (map digest_of cs) \<and> mset (quorum_members rep) = mset (map member_of cs) \<and>
    count_approvals (quorum_counts_of rep) = length (filter (\<lambda>c. gates_open rq (candidate_response c)) cs) \<and>
    (quorum_met rep \<longleftrightarrow>
      minimum_approvals p \<le> length (filter (\<lambda>c. gates_open rq (candidate_response c)) cs) \<and>
      minimum_distinct_providers p \<le> card (canonical_identity lower ` member_provider ` set (filter member_approved (quorum_members rep))) \<and>
      minimum_distinct_models p \<le> card (model_text lower ` set (filter member_approved (quorum_members rep))))"
proof -
  note verified = quorum_verified[OF assms]
  note rep = assms[unfolded verify_ai_approval_quorum_def quorum_with_Inr]
  have counts: "quorum_counts_of rep = count_quorum lower (map member_of cs)"
    "quorum_counts_of rep = count_quorum lower (quorum_members rep)" using rep count_sorted by metis+
  have met: "quorum_met rep \<longleftrightarrow> quorum_failures_of p (quorum_counts_of rep) = []" using rep by metis
  have approvals: "count_approvals (quorum_counts_of rep) = length (filter (\<lambda>c. gates_open rq (candidate_response c)) cs)"
    unfolding counts(1) by (rule count_approvals_gates[OF verified])
  have others: "count_providers (quorum_counts_of rep) = card (canonical_identity lower ` member_provider ` set (filter member_approved (quorum_members rep)))"
    "count_models (quorum_counts_of rep) = card (model_text lower ` set (filter member_approved (quorum_members rep)))"
    unfolding counts(2) count_quorum_def Let_def by (simp_all add: image_comp)
  have members: "mset (quorum_members rep) = mset (map member_of cs)" using rep by (metis mset_sort)
  have differ: "all_differ cs" using rep by blast
  show ?thesis
    unfolding met failures_none approvals others
    using verified distinct_keys[OF verified differ] differ members unfolding all_differ_def by blast
qed

text \<open>The order in which approvals are presented does not matter: a permutation of the candidates gives the same report.\<close>

theorem quorum_order_irrelevant:
  assumes "mset cs = mset ds"
  shows "verify_ai_approval_quorum L lower rq cs p = Inr rep \<longleftrightarrow> verify_ai_approval_quorum L lower rq ds p = Inr rep"
  unfolding verify_ai_approval_quorum_def by (rule quorum_with_permuted[OF assms])

text \<open>C33: A session bounds its quorum in time: a quorum is verified for a session only between issuance and expiry, which
  are at most seven days apart, only for the request of the session, and only with approvals signed for this session.\<close>

theorem session_bounds_quorum:
  assumes "verify_session_ai_approval_quorum L lower rq se now cs p = Inr rep"
  shows "issued_at_unix se \<le> now \<and> now \<le> expires_at_unix se \<and> issued_at_unix se < expires_at_unix se \<and>
    expires_at_unix se \<le> issued_at_unix se + 7 * 24 * 60 * 60 \<and> session_request se = request_digest rq \<and>
    ai_review_request_sha256 L rq = Inr (request_digest rq) \<and>
    list_all (\<lambda>c. approval_session (candidate_approval c) = Some (session_digest se) \<and>
      candidate_verified L rq (Some (session_digest se)) c) cs"
proof -
  obtain digest where d: "validate_ai_review_session L se rq now = Inr digest" and
    q: "verify_ai_approval_quorum_with L lower rq cs p
      (\<lambda>c. verify_session_signed_ai_approval L (candidate_approval c) rq (candidate_response c) (candidate_key c) digest) = Inr (session_report_quorum rep)"
    using assms by (auto simp: verify_session_ai_approval_quorum_def bind_result_Inr)
  have s: "ai_review_session_sha256 L se rq = Inr digest" "issued_at_unix se \<le> now" "now \<le> expires_at_unix se"
    using d by (auto simp: validate_ai_review_session_def bind_result_Inr)
  then have t: "session_request se = request_digest rq" "digest = session_digest se" "validate_session_contents se = Inr ()"
    "ai_review_request_sha256 L rq = Inr (request_digest rq)"
    by (auto simp: ai_review_session_sha256_def bind_result_Inr request_sha256_Inr)
  have "list_all (\<lambda>c. approval_session (candidate_approval c) = Some digest \<and> candidate_verified L rq (Some digest) c) cs"
    using q unfolding quorum_with_Inr list_all_iff candidate_verified_def by (auto simp: verify_session_signed_ai_approval_def bind_result_Inr)
  moreover have "issued_at_unix se < expires_at_unix se" "expires_at_unix se \<le> issued_at_unix se + 7 * 24 * 60 * 60"
    using t(3) by (auto simp: validate_session_contents_def bind_result_Inr MAX_AI_REVIEW_SESSION_SECONDS_def)
  ultimately show ?thesis using s(2,3) t by simp
qed

text \<open>One reviewer is a quorum of one.\<close>

definition demo_policy :: quorum_policy where
  "demo_policy = \<lparr>minimum_approvals = 1, minimum_distinct_providers = 1, minimum_distinct_models = 1\<rparr>"

lemma demo_quorum:
  obtains c rep where "verify_ai_approval_quorum demo_reviews id demo_request [c] demo_policy = Inr rep"
    "candidate_response c = demo_response"
proof -
  obtain ap where ap: "sign_ai_review demo_reviews demo_request demo_response ''me'' ''secret'' = Inr ap" using demo_signed by blast
  note v = sign_response_verifies[OF demo_law(1) ap[unfolded sign_ai_review_def]]
  let ?c = "\<lparr>candidate_approval = ap, candidate_response = demo_response, candidate_key = verifying_key_of demo_reviews ''secret''\<rparr>"
  have "verify_signed_ai_approval demo_reviews ap demo_request demo_response (verifying_key_of demo_reviews ''secret'') = Inr ()"
    using v by (simp add: verify_signed_ai_approval_def)
  then have "\<exists>rep. verify_ai_approval_quorum demo_reviews id demo_request [?c] demo_policy = Inr rep"
    using demo_digest unfolding verify_ai_approval_quorum_def verify_ai_approval_quorum_with_def
    by (simp add: validate_policy_def validate_threshold_def demo_policy_def failing_if_def MAX_QUORUM_MEMBERS_def admit_candidate_def Let_def)
  then show ?thesis using that[of ?c] by auto
qed

theorem quorum_counts_approvals_witness:
  "\<exists>c rep. verify_ai_approval_quorum demo_reviews id demo_request [c] demo_policy = Inr rep \<and> count_approvals (quorum_counts_of rep) = 1"
proof -
  obtain c rep where c: "verify_ai_approval_quorum demo_reviews id demo_request [c] demo_policy = Inr rep" "candidate_response c = demo_response"
    by (rule demo_quorum)
  then show ?thesis using quorum_counts_approvals[OF c(1)] demo_answers(2) by auto
qed

text \<open>Two reviewers who present each other's approvals first.\<close>

definition demo_candidate :: "string \<Rightarrow> quorum_candidate" where
  "demo_candidate signer =
     \<lparr>candidate_approval = \<lparr>approval_version = 1, approval_request = replicate 64 CHR ''0'', approval_response = replicate 64 CHR ''1'',
        approval_session = None, approval_approved = True, approval_failures = [], approval_signer = signer,
        approval_algorithm = ED25519, approval_public_key = hex_encode (replicate 32 CHR ''k''),
        approval_signature = hex_encode (replicate 64 CHR ''s'')\<rparr>,
      candidate_response = demo_response, candidate_key = replicate 32 CHR ''k''\<rparr>"

theorem quorum_order_irrelevant_witness:
  "\<exists>rep. verify_ai_approval_quorum demo_reviews id demo_request [demo_candidate ''a'', demo_candidate ''b''] demo_policy = Inr rep \<longleftrightarrow>
   verify_ai_approval_quorum demo_reviews id demo_request [demo_candidate ''b'', demo_candidate ''a''] demo_policy = Inr rep"
  by (intro exI quorum_order_irrelevant) simp

definition demo_session :: ai_review_session where
  "demo_session = \<lparr>session_version = 1, session_digest = replicate 64 CHR ''1'', session_request = replicate 64 CHR ''0'',
     session_challenge = replicate 64 CHR ''4'', issued_at_unix = 100, expires_at_unix = 200\<rparr>"

lemma demo_session_valid: "validate_ai_review_session demo_reviews demo_session demo_request 150 = Inr (replicate 64 CHR ''1'')"
proof -
  have "list_all lower_hex (replicate 64 CHR ''0'')" "list_all lower_hex (replicate 64 CHR ''4'')" by code_simp+
  then have "validate_session_contents demo_session = Inr ()"
    by (simp add: validate_session_contents_def demo_session_def validate_sha256_def MAX_AI_REVIEW_SESSION_SECONDS_def failing_if_def)
  moreover have "session_body_sha256 demo_reviews demo_session = Inr (replicate 64 CHR ''1'')"
    by (simp add: session_body_sha256_def demo_reviews_def)
  ultimately show ?thesis
    using demo_digest by (simp add: validate_ai_review_session_def ai_review_session_sha256_def failing_if_def) (simp add: demo_session_def)
qed

theorem session_bounds_quorum_witness:
  "\<exists>c rep. verify_session_ai_approval_quorum demo_reviews id demo_request demo_session 150 [c] demo_policy = Inr rep \<and>
    approval_session (candidate_approval c) = Some (replicate 64 CHR ''1'')"
proof -
  let ?digest = "replicate 64 CHR ''1''"
  have digest: "validate_sha256 ?digest label = Inr ()" for label
  proof -
    have "list_all lower_hex ?digest" by code_simp
    then show ?thesis by (simp add: validate_sha256_def)
  qed
  obtain ap0 where ap0: "sign_ai_review demo_reviews demo_request demo_response ''me'' ''secret'' = Inr ap0" using demo_signed by blast
  then have "\<exists>ap. sign_response demo_reviews 2 (Some ?digest) demo_request demo_response ''me'' ''secret'' = Inr ap"
    by (auto simp: sign_ai_review_def sign_response_def bind_result_Inr approval_payload_bytes_def demo_reviews_def Let_def)
  then obtain ap where ap: "sign_response demo_reviews 2 (Some ?digest) demo_request demo_response ''me'' ''secret'' = Inr ap" by blast
  note v = sign_response_verifies[OF demo_law(1) ap]
  let ?c = "\<lparr>candidate_approval = ap, candidate_response = demo_response, candidate_key = verifying_key_of demo_reviews ''secret''\<rparr>"
  have "verify_session_signed_ai_approval demo_reviews ap demo_request demo_response (verifying_key_of demo_reviews ''secret'') ?digest = Inr ()"
    unfolding verify_session_signed_ai_approval_def digest using v by (simp add: failing_if_def)
  then have "\<exists>q. verify_ai_approval_quorum_with demo_reviews id demo_request [?c] demo_policy
      (\<lambda>c. verify_session_signed_ai_approval demo_reviews (candidate_approval c) demo_request (candidate_response c) (candidate_key c) ?digest) = Inr q"
    using demo_digest unfolding verify_ai_approval_quorum_with_def
    by (simp add: validate_policy_def validate_threshold_def demo_policy_def failing_if_def MAX_QUORUM_MEMBERS_def admit_candidate_def Let_def)
  then obtain rep where "verify_session_ai_approval_quorum demo_reviews id demo_request demo_session 150 [?c] demo_policy = Inr rep"
    unfolding verify_session_ai_approval_quorum_def demo_session_valid by auto
  with session_bounds_quorum[OF this] show ?thesis by (intro exI[of _ ?c]) (auto simp: demo_session_def)
qed

end
