(* ===== verification/Spec2Isabelle.thy ===== *)
theory Spec2Isabelle
  imports GeometryMachine Orchestrate Anchor SexpSpans Convergence ApprovalQuorum
begin

text \<open>
  \<^bold>\<open>A verification library for pcbex.\<close> The program routes printed circuit boards: it reads
  a board description, checks it, searches tracks for its nets on a grid, and writes the copper back.
  The library models the routing core, \<open>crates/pcbex-core/src\<close>, and the approval log,
  the signed reviews and the S-expression reader of \<open>crates/pcbex-kicad/src\<close>, at the level of their Rust functions.

  \<^bold>\<open>Parts and theories.\<close> Paths of the core are relative to \<open>crates/pcbex-core/src\<close>.

  \<^item> \<open>Prelude\<close>: ranges of the Rust integers, checked and saturating arithmetic, results
    (\<open>Inl\<close> an error, \<open>Inr\<close> a value), chaining of results, shared lemmas.
  \<^item> \<open>Board\<close>: the records and enumerations of \<open>lib.rs\<close> (layers, nets, obstacles, routes,
    rules, the board), the layer codec, the lookups of rules, classes and vias.
  \<^item> \<open>Geometry\<close> and \<open>GeometryMachine\<close>: \<open>geometry.rs\<close>, first on exact integers,
    then with every \<open>i128\<close> operation checked. The predicates are proved exact for the real plane and
    free of overflow on validated boards.
  \<^item> \<open>ResourceLimits\<close> and \<open>ResourceBounds\<close>: \<open>resource_limits.rs\<close>, which every entry
    point runs first, with its error values; the accounting equals closed sums, callers can only tighten
    the ceilings, and an accepted board has bounded coordinates.
  \<^item> \<open>Raster\<close>, \<open>RasterExact\<close>, \<open>RasterLine\<close>, \<open>Commit\<close>: the grid of
    \<open>Router\<close>. The abstract state of a cell is the set of nets that claim it; the rasterisation
    refines it. A committed route occupies the discs around the cells of its digital lines.
  \<^item> \<open>Heap\<close>, \<open>BestFirst\<close>, \<open>Search\<close>, \<open>SearchMoves\<close>,
    \<open>SearchCorrect\<close>, \<open>Astar\<close>: the search. \<open>Heap\<close> is the array heap of the standard
    library behind the interface \<open>priority_queue\<close>; \<open>BestFirst\<close> is an abstract search on a
    weighted graph with a consistent heuristic, in a locale; \<open>Search\<close> translates
    \<open>astar_to_tree\<close> statement by statement; \<open>SearchCorrect\<close> interprets both locales on
    the model and shows by rule induction over the loop that every state of the code is one of the
    abstract search.
  \<^item> \<open>Emission\<close>, \<open>NetRouting\<close>, \<open>NetConnect\<close>: from node paths to copper,
    \<open>route_net\<close> with its growing tree, and the proof that its routes connect their nets.
  \<^item> \<open>Validation\<close>, \<open>Accepted\<close>: \<open>Router::new_with_variant\<close> with all its checks, a
    declarative description of the accepted boards, and what acceptance gives the router: searches
    keep their clearance, nets route without a panic.
  \<^item> \<open>Workers\<close>: the threads of the first pass as a step relation over a shared counter, the
    leases of the work budget, and their merge.
  \<^item> \<open>Shove\<close>: \<open>shove_route\<close> and \<open>try_automatic_shove\<close>; the connections of a
    route survive the shove.
  \<^item> \<open>Orchestrate\<close>: all nets of a board in up to four attempts,
    \<open>try_route_all_with_workers\<close> and \<open>route_all_with_budget\<close>: the order of the nets, the
    results of the threads, fallbacks, shoves, rip-ups and the report. Between attempts the accepted
    and the pending nets are a partition of the nets to route.

  \<^item> \<open>Candidates\<close>: \<open>quality.rs\<close> and \<open>routing_candidates.rs\<close>: the
    measures of a routed board, the threads that route candidates and send them over a channel, the Pareto
    front in the locale \<open>dominance\<close>, and the selection, which is best among all candidates.
  \<^item> \<open>Convergence\<close>: \<open>routing_convergence.rs\<close>: rounds of candidates from the best board so
    far, with shares of the work budget that add up to it. The invariant \<open>progress_ok\<close> of the rounds
    gives the properties of the result and of its report; replaying a report accepts exactly the reports of runs.

  The approval log of \<open>crates/pcbex-kicad/src\<close>:

  \<^item> \<open>HexText\<close>: hexadecimal text, digests and identifiers, which \<open>transparency.rs\<close>
    and \<open>anchor.rs\<close> both carry; strings are lists of UTF-8 bytes, so that slicing can panic.
  \<^item> \<open>Transparency\<close>: \<open>transparency.rs\<close>, the hash-chained log, its checkpoints,
    witnesses, quorums and the rotation of witness keys. The inductive predicate \<open>grown\<close> holds of the logs
    that appends produce and \<open>trusted\<close> of the trust states that rotations produce; verification
    accepts exactly the former and keeps the latter valid.
  \<^item> \<open>Merkle\<close> and \<open>Anchor\<close>: \<open>anchor.rs\<close>, the Merkle tree of the public log,
    inclusion and consistency proofs. What is created verifies; what verifies is true of every log with
    the signed roots. Soundness is relative: the hash function is assumed injective on the finitely many
    inputs that the log and the proof hash, listed by \<open>tree_inputs\<close>, \<open>audit_inputs\<close> and
    \<open>consistency_inputs\<close>.

  Reviews by AI models in \<open>crates/pcbex-kicad/src\<close>:

  \<^item> \<open>AiApproval\<close>: \<open>approval.rs\<close> and \<open>review_session.rs\<close>: review requests with
    the digest of their content, bound artifacts, the evaluation of a response against the gates, signed
    approvals, time-bound sessions. Every check is characterised by a predicate over sets and lists; the
    valid requests of the first version are the built ones, and a signature holds for one request and one response.
  \<^item> \<open>ApprovalQuorum\<close>: \<open>approval_quorum.rs\<close>: thresholds on approvals, providers and
    models over approvals with different signers, keys and responses; the report does not depend on the
    order in which approvals are given.

  The reader of KiCad files:

  \<^item> \<open>Sexp\<close>: \<open>sexp.rs\<close>, the lexer with its byte cursor, the parser with its explicit
    stack, all limits, and \<open>quote\<close> of \<open>schematic_writer.rs\<close>. The specification is the list
    of tokens of a text, read by structural recursion, and the tokens of a value; the parser returns
    values exactly when their tokens are those of the text and every limit is kept.
  \<^item> \<open>SexpSpans\<close>: the character scanner for the spans of lists agrees with the parser.

  \<^bold>\<open>Conventions.\<close> Signed integers are \<^typ>\<open>int\<close>, unsigned ones \<^typ>\<open>nat\<close>;
  where the code checks, saturates or wraps, so does the model, and elsewhere a theorem shows that the
  exact value fits. Hash sets and hash maps are sets and partial maps, as the code depends on no
  iteration order of theirs. \<open>f64\<close> fields are kept as their bits and only tested. A panic is a value
  of its own (\<open>None\<close>, \<open>Net_Panicked\<close>, \<open>Run_Panic\<close>), and the properties say when it
  cannot occur. Mutable state is passed and returned: the router record, and the work budget, which is
  the number of remaining units.

  \<^bold>\<open>Bounds and fuel.\<close> The loop of the search consumes a unit of its budget in every round, so
  the budget is its termination measure; the production ceiling of two million units is the hypothesis
  under which costs fit \<open>u64\<close>. The path reconstruction and the growth of the tree are structural
  or bounded by lengths of lists, and their bounds are proved sufficient. The digital line runs at most
  one round per cell of its longer extent.

  \<^bold>\<open>Parameters.\<close> The design-rule checker \<open>checking::check_board\<close> is not translated; the
  functions that call it take it as an argument and their theorems hold for every checker. The record
  \<open>services\<close> of theory \<open>Candidates\<close> holds what the choice of candidates calls: the checker, the
  pipeline \<open>route_board_with_variant_and_work_budget\<close> with its \<open>f64\<close> post-processing, of which
  \<open>keeps_design\<close> states that nets and pairs are kept, and the two measures in \<open>f64\<close>. SHA-256,
  Ed25519 and the JSON writer are fields of the records \<open>library\<close>, \<open>anchor_library\<close> and
  \<open>review_library\<close>, the last with the electrical checker \<open>check_schematic\<close> and
  \<open>validate_simulation_evidence\<close>; \<open>str::to_lowercase\<close> is an argument of the quorum;
  what is assumed of them is stated by \<open>signature_law\<close>, \<open>digest_law\<close> and
  \<open>sha256_law\<close> (sizes, and that what a key signs verifies).

  \<^bold>\<open>Not modelled.\<close> Geometry in \<open>f64\<close> (arcs, corner rounding, teardrops, length tuning,
  impedance, SVG output), serialisation through serde, the placement optimiser, and the crates
  \<open>pcbex-cli\<close> and \<open>pcbex-kicad\<close> apart from what is listed above: file, process and network
  access, JSON documents and signatures by third-party libraries.
\<close>

end
